(* ===== verification/Scorum_Prelude.thy ===== *)
theory Scorum_Prelude
  imports Main "HOL-Library.Word" "HOL-Library.Multiset"
begin

text \<open>
  Shared vocabulary of the development: exceptions as values and the sequencing of fallible
  steps, the range of the machine integers the chain computes with, C++ integer division, and
  the rows of a chainbase table (lists of an id and a value, sorted by id) with the lemmas
  about sums over rows that the ledger proofs rest on.
\<close>

named_theorems res_simps \<open>when a sequence of fallible steps returns normally\<close>
named_theorems fc_simps \<open>what the documented behaviour of the fc library gives\<close>

section \<open>Exceptions as values\<close>

text \<open>
  Every throw of the modelled code is an \<open>Inl\<close>: a failed \<^verbatim>\<open>FC_ASSERT\<close> carries its message,
  the other constructors name the exception class that is thrown.
\<close>

datatype exc =
    Assert_exception string
  | Overflow_exception
  | Divide_by_zero
  | Logic_error
  | Out_of_range
  | Unlinkable_block_exception
  | Tx_missing_posting_auth
  | Tx_missing_active_auth
  | Tx_missing_owner_auth
  | Tx_missing_other_auth
  | Tx_irrelevant_sig

type_synonym 'a res = "exc + 'a"

definition bindE :: "'a res \<Rightarrow> ('a \<Rightarrow> 'b res) \<Rightarrow> 'b res" where
  "bindE m f = (case m of Inl e \<Rightarrow> Inl e | Inr x \<Rightarrow> f x)"

definition fc_assert :: "bool \<Rightarrow> string \<Rightarrow> unit res" where
  "fc_assert b msg = (if b then Inr () else Inl (Assert_exception msg))"

fun foldE :: "('a \<Rightarrow> 's \<Rightarrow> 's res) \<Rightarrow> 'a list \<Rightarrow> 's \<Rightarrow> 's res" where
  "foldE f [] s = Inr s"
| "foldE f (x # xs) s = bindE (f x s) (foldE f xs)"

lemma bindE_simps [simp]:
  "bindE (Inl e) f = Inl e"
  "bindE (Inr x) f = f x"
  by (simp_all add: bindE_def)

lemma bindE_Inr_iff [res_simps]:
  "bindE m f = Inr y \<longleftrightarrow> (\<exists>x. m = Inr x \<and> f x = Inr y)"
  by (cases m) simp_all

lemma bindE_Inl_iff:
  "bindE m f = Inl e \<longleftrightarrow> m = Inl e \<or> (\<exists>x. m = Inr x \<and> f x = Inl e)"
  by (cases m) simp_all

lemma fc_assert_Inr_iff [res_simps]: "fc_assert b msg = Inr u \<longleftrightarrow> b"
  by (simp add: fc_assert_def)

lemma fc_assert_simps [simp]:
  "fc_assert True msg = Inr ()"
  "fc_assert False msg = Inl (Assert_exception msg)"
  by (simp_all add: fc_assert_def)

lemma if_Inl_eq_Inr [res_simps]: "(if b then Inl e else m) = Inr y \<longleftrightarrow> \<not> b \<and> m = Inr y"
  by simp

lemma foldE_append: "foldE f (xs @ ys) s = bindE (foldE f xs s) (foldE f ys)"
proof (induction xs arbitrary: s)
  case (Cons x xs)
  then show ?case by (cases "f x s") simp_all
qed simp

text \<open>A step that keeps an invariant keeps it through a loop over any list.\<close>

lemma foldE_inv:
  assumes "foldE f xs s = Inr s'" and "I s"
    and "\<And>x s s'. x \<in> set xs \<Longrightarrow> I s \<Longrightarrow> f x s = Inr s' \<Longrightarrow> I s'"
  shows "I s'"
  using assms
proof (induction xs arbitrary: s)
  case (Cons x xs)
  from Cons.prems(1) obtain t where t: "f x s = Inr t" "foldE f xs t = Inr s'"
    by (auto simp: res_simps)
  have "I t" by (rule Cons.prems(3) [OF _ Cons.prems(2) t(1)]) simp
  show ?case by (rule Cons.IH [OF t(2) \<open>I t\<close>]) (use Cons.prems(3) in auto)
qed simp

section \<open>Machine integers\<close>

definition in_i64 :: "int \<Rightarrow> bool" where
  "in_i64 x \<longleftrightarrow> - (2 ^ 63) \<le> x \<and> x < 2 ^ 63"

definition in_i32 :: "int \<Rightarrow> bool" where
  "in_i32 x \<longleftrightarrow> - (2 ^ 31) \<le> x \<and> x < 2 ^ 31"

text \<open>Conversion of an arbitrary integer to \<^verbatim>\<open>int64_t\<close> (two's complement).\<close>

definition to_i64 :: "int \<Rightarrow> int" where
  "to_i64 x = (x + 2 ^ 63) mod 2 ^ 64 - 2 ^ 63"

text \<open>C++ integer division and remainder round towards zero.\<close>

definition cdiv :: "int \<Rightarrow> int \<Rightarrow> int" where
  "cdiv a b = sgn a * sgn b * (\<bar>a\<bar> div \<bar>b\<bar>)"

definition cmod :: "int \<Rightarrow> int \<Rightarrow> int" where
  "cmod a b = a - b * cdiv a b"

lemma cdiv_nonneg: "0 \<le> a \<Longrightarrow> 0 \<le> b \<Longrightarrow> cdiv a b = a div b"
  by (cases "a = 0"; cases "b = 0") (simp_all add: cdiv_def)

lemma cmod_nonneg: "0 \<le> a \<Longrightarrow> 0 \<le> b \<Longrightarrow> cmod a b = a mod b"
  by (simp add: cmod_def cdiv_nonneg minus_mult_div_eq_mod)

lemma in_i64_to_i64 [simp]: "in_i64 (to_i64 x)"
  using pos_mod_bound [of "2 ^ 64" "x + 2 ^ 63"] pos_mod_sign [of "2 ^ 64" "x + 2 ^ 63"]
  unfolding in_i64_def to_i64_def by simp

lemma to_i64_id: "in_i64 x \<Longrightarrow> to_i64 x = x"
  by (simp add: in_i64_def to_i64_def mod_pos_pos_trivial)

section \<open>Rows of a table\<close>

text \<open>
  The objects of a table in the order of their ids. \<open>put_row\<close> stores a value under an id,
  \<open>drop_row\<close> forgets an id; both keep the rows sorted.
\<close>

type_synonym 'v rows = "(nat \<times> 'v) list"

fun put_row :: "nat \<Rightarrow> 'v \<Rightarrow> 'v rows \<Rightarrow> 'v rows" where
  "put_row k v [] = [(k, v)]"
| "put_row k v (r # rs) =
     (if k < fst r then (k, v) # r # rs
      else if k = fst r then (k, v) # rs
      else r # put_row k v rs)"

definition drop_row :: "nat \<Rightarrow> 'v rows \<Rightarrow> 'v rows" where
  "drop_row k rs = filter (\<lambda>r. fst r \<noteq> k) rs"

definition sorted_rows :: "'v rows \<Rightarrow> bool" where
  "sorted_rows rs \<longleftrightarrow> sorted_wrt (<) (map fst rs)"

lemma sorted_rows_simps [simp]:
  "sorted_rows []"
  "sorted_rows (r # rs) \<longleftrightarrow> (\<forall>k \<in> fst ` set rs. fst r < k) \<and> sorted_rows rs"
  by (auto simp: sorted_rows_def)

lemma fst_set_put_row [simp]: "fst ` set (put_row k v rs) = insert k (fst ` set rs)"
  by (induction rs) auto

lemma ball_put_row [simp]:
  "(\<forall>r \<in> set (put_row k v rs). P (fst r)) \<longleftrightarrow> P k \<and> (\<forall>r \<in> set rs. P (fst r))"
proof -
  have "(\<forall>r \<in> set (put_row k v rs). P (fst r)) \<longleftrightarrow> (\<forall>j \<in> fst ` set (put_row k v rs). P j)"
    by blast
  also have "\<dots> \<longleftrightarrow> P k \<and> (\<forall>r \<in> set rs. P (fst r))"
    by (subst fst_set_put_row) auto
  finally show ?thesis .
qed

lemma sorted_put_row [simp, intro]: "sorted_rows rs \<Longrightarrow> sorted_rows (put_row k v rs)"
  by (induction rs) auto

lemma fst_set_drop_row [simp]: "fst ` set (drop_row k rs) = fst ` set rs - {k}"
  by (auto simp: drop_row_def)

lemma sorted_drop_row [simp, intro]: "sorted_rows rs \<Longrightarrow> sorted_rows (drop_row k rs)"
  by (induction rs) (auto simp: drop_row_def)

lemma sorted_rows_distinct: "sorted_rows rs \<Longrightarrow> distinct (map fst rs)"
  by (induction rs) auto

lemma map_of_put_row [simp]: "map_of (put_row k v rs) = (map_of rs)(k \<mapsto> v)"
proof (induction rs)
  case (Cons r rs)
  then show ?case by (cases r) auto
qed simp

lemma map_of_drop_row [simp]: "map_of (drop_row k rs) = (map_of rs)(k := None)"
  by (induction rs) (auto simp: drop_row_def)

lemma map_of_eq_None_rows: "map_of rs k = None \<longleftrightarrow> k \<notin> fst ` set rs"
  by (simp add: map_of_eq_None_iff)

text \<open>The rows are a canonical form: two sorted tables with the same content are equal.\<close>

lemma sorted_rows_eqI:
  assumes "sorted_rows rs" and "sorted_rows ss" and "map_of rs = map_of ss"
  shows "rs = ss"
proof -
  have set: "set rs = set ss"
  proof -
    have "set rs = {(k, v). map_of rs k = Some v}"
      using sorted_rows_distinct [OF assms(1)] by auto
    moreover have "set ss = {(k, v). map_of ss k = Some v}"
      using sorted_rows_distinct [OF assms(2)] by auto
    ultimately show ?thesis by (simp add: assms(3))
  qed
  have "sorted (map fst rs)" "sorted (map fst ss)"
    using assms(1,2) by (auto simp: sorted_rows_def intro: strict_sorted_imp_sorted)
  moreover have "distinct (map fst rs)" "distinct (map fst ss)"
    using assms(1,2) by (auto intro: sorted_rows_distinct)
  moreover have "inj_on fst (set rs \<union> set ss)"
    using set \<open>distinct (map fst rs)\<close> by (simp add: distinct_map)
  ultimately show ?thesis using set map_sorted_distinct_set_unique [of fst rs ss] by blast
qed

section \<open>Sums over rows\<close>

definition row_sum :: "('v \<Rightarrow> int) \<Rightarrow> 'v rows \<Rightarrow> int" where
  "row_sum f rs = sum_list (map (\<lambda>r. f (snd r)) rs)"

lemma row_sum_simps [simp]:
  "row_sum f [] = 0"
  "row_sum f (r # rs) = f (snd r) + row_sum f rs"
  "row_sum f (rs @ ss) = row_sum f rs + row_sum f ss"
  by (simp_all add: row_sum_def)

lemma row_sum_put_new:
  "k \<notin> fst ` set rs \<Longrightarrow> row_sum f (put_row k v rs) = row_sum f rs + f v"
  by (induction rs) auto

lemma row_sum_put_old:
  "sorted_rows rs \<Longrightarrow> map_of rs k = Some w \<Longrightarrow> row_sum f (put_row k v rs) = row_sum f rs - f w + f v"
proof (induction rs)
  case (Cons r rs)
  show ?case
  proof (cases "k = fst r")
    case True
    with Cons.prems show ?thesis by (cases r) auto
  next
    case False
    with Cons.prems have k: "map_of rs k = Some w" by (cases r) auto
    then have "k \<in> fst ` set rs" by (force dest: map_of_SomeD)
    with Cons.prems(1) have "fst r < k" by auto
    with False Cons.IH [OF _ k] Cons.prems(1) show ?thesis by simp
  qed
qed simp

lemma drop_row_id: "k \<notin> fst ` set rs \<Longrightarrow> drop_row k rs = rs"
  by (induction rs) (auto simp: drop_row_def)

lemma row_sum_drop:
  "sorted_rows rs \<Longrightarrow> map_of rs k = Some w \<Longrightarrow> row_sum f (drop_row k rs) = row_sum f rs - f w"
proof (induction rs)
  case (Cons r rs)
  show ?case
  proof (cases "k = fst r")
    case True
    with Cons.prems have "k \<notin> fst ` set rs" by auto
    then have "drop_row k rs = rs" by (rule drop_row_id)
    with True Cons.prems show ?thesis by (cases r) (simp add: drop_row_def)
  next
    case False
    with Cons.prems have k: "map_of rs k = Some w" by (cases r) auto
    from False have "drop_row k (r # rs) = r # drop_row k rs" by (simp add: drop_row_def)
    with Cons.IH [OF _ k] Cons.prems(1) show ?thesis by simp
  qed
qed simp

lemma row_sum_nonneg: "(\<And>r. r \<in> set rs \<Longrightarrow> 0 \<le> f (snd r)) \<Longrightarrow> 0 \<le> row_sum f rs"
  by (induction rs) auto

lemma row_sum_ge_member:
  assumes "map_of rs k = Some v" and "\<And>r. r \<in> set rs \<Longrightarrow> 0 \<le> f (snd r)"
  shows "f v \<le> row_sum f rs"
  using assms
proof (induction rs)
  case (Cons r rs)
  show ?case
  proof (cases "fst r = k")
    case True
    with Cons.prems row_sum_nonneg [of rs f] show ?thesis by (cases r) auto
  next
    case False
    with Cons.prems(1) have "map_of rs k = Some v" by (cases r) auto
    with Cons have "f v \<le> row_sum f rs" by simp
    moreover have "0 \<le> f (snd r)" using Cons.prems(2) [of r] by simp
    ultimately show ?thesis by simp
  qed
qed simp

section \<open>Sorting\<close>

text \<open>A stable sort by a strict comparison, the order of an index whose last key is the id.\<close>

fun insert_by :: "('a \<Rightarrow> 'a \<Rightarrow> bool) \<Rightarrow> 'a \<Rightarrow> 'a list \<Rightarrow> 'a list" where
  "insert_by lt x [] = [x]"
| "insert_by lt x (y # ys) = (if lt y x then y # insert_by lt x ys else x # y # ys)"

definition sort_by :: "('a \<Rightarrow> 'a \<Rightarrow> bool) \<Rightarrow> 'a list \<Rightarrow> 'a list" where
  "sort_by lt xs = foldr (insert_by lt) xs []"

lemma mset_insert_by [simp]: "mset (insert_by lt x xs) = add_mset x (mset xs)"
  by (induction xs) auto

lemma mset_sort_by [simp]: "mset (sort_by lt xs) = mset xs"
  by (induction xs) (auto simp: sort_by_def)

lemma sum_list_mset_eq: "mset xs = mset ys \<Longrightarrow> sum_list xs = (sum_list ys :: int)"
  by (simp flip: sum_mset_sum_list)

lemma set_sort_by: "set (insert_by lt x xs) = insert x (set xs)" "set (sort_by lt xs) = set xs"
proof -
  show 1: "set (insert_by lt x xs) = insert x (set xs)" for x xs by (induction xs) auto
  show "set (sort_by lt xs) = set xs" by (induction xs) (auto simp: sort_by_def 1)
qed

lemma distinct_sort_by: "distinct (map f xs) \<Longrightarrow> distinct (map f (sort_by lt xs))"
proof -
  have ins: "distinct (map f (insert_by lt x ys)) \<longleftrightarrow> f x \<notin> f ` set ys \<and> distinct (map f ys)" for x ys
    by (induction ys) (auto simp: set_sort_by)
  have "distinct (map f xs) \<Longrightarrow> distinct (map f (sort_by lt xs))"
  proof (induction xs)
    case (Cons x xs)
    then have "f x \<notin> f ` set (sort_by lt xs)" "distinct (map f (sort_by lt xs))" by (simp_all add: set_sort_by)
    then show ?case by (simp add: sort_by_def ins)
  qed (simp add: sort_by_def)
  then show "distinct (map f xs) \<Longrightarrow> distinct (map f (sort_by lt xs))" .
qed

end
