(* ===== verification/Chainbase_Index.thy ===== *)
theory Chainbase_Index
  imports Scorum_Prelude
begin

text \<open>
  The in-memory database of the chain: \<^verbatim>\<open>chainbase::base_index\<close> (a table of objects keyed by
  an id that the table assigns) and \<^verbatim>\<open>chainbase::generic_index\<close>, which adds a stack of undo
  states, so that a failed transaction or an orphaned block can be taken back. Both are
  class templates of \<^verbatim>\<open>libraries/chainbase/include/chainbase/generic_index.hpp\<close>.

  The container \<^verbatim>\<open>_indices\<close> is a Boost multi-index with the id as its first key; it is the
  list of the objects in the order of their ids. What the other unique keys of the container
  forbid is the parameter \<open>clash\<close>: \<open>clash v w\<close> says that \<open>v\<close> and \<open>w\<close> have a unique key in
  common, so the container refuses to hold both.
  The undo stack is a list whose head is the most recent state (\<^verbatim>\<open>_stack.back()\<close>).
\<close>

section \<open>base\_index\<close>

record 'v base_index =
  next_id :: nat
  indices :: "'v rows"

definition ix_find :: "'v base_index \<Rightarrow> nat \<Rightarrow> 'v option" where
  "ix_find ix k = map_of (indices ix) k"

definition ix_get :: "'v base_index \<Rightarrow> nat \<Rightarrow> 'v res" where
  "ix_get ix k = (case ix_find ix k of None \<Rightarrow> Inl Out_of_range | Some v \<Rightarrow> Inr v)"

definition collides :: "('v \<Rightarrow> 'v \<Rightarrow> bool) \<Rightarrow> nat \<Rightarrow> 'v \<Rightarrow> 'v rows \<Rightarrow> bool" where
  "collides clash k v rs = list_ex (\<lambda>r. fst r \<noteq> k \<and> clash v (snd r)) rs"

definition ix_insert ::
  "('v \<Rightarrow> 'v \<Rightarrow> bool) \<Rightarrow> nat \<Rightarrow> 'v \<Rightarrow> ('v, 'z) base_index_scheme \<Rightarrow> ('v, 'z) base_index_scheme res"
where
  "ix_insert clash k v ix =
     (if k \<in> set (map fst (indices ix)) \<or> collides clash k v (indices ix) then Inl Logic_error
      else Inr (ix\<lparr>indices := put_row k v (indices ix)\<rparr>))"

definition ix_emplace ::
  "('v \<Rightarrow> 'v \<Rightarrow> bool) \<Rightarrow> (nat \<Rightarrow> 'v res) \<Rightarrow> ('v, 'z) base_index_scheme
   \<Rightarrow> (nat \<times> ('v, 'z) base_index_scheme) res"
where
  "ix_emplace clash c ix =
     (let new_id = next_id ix in
      bindE (c new_id) (\<lambda>v.
      bindE (ix_insert clash new_id v ix) (\<lambda>ix'.
      Inr (new_id, ix'\<lparr>next_id := next_id ix' + 1\<rparr>))))"

definition ix_modify ::
  "('v \<Rightarrow> 'v \<Rightarrow> bool) \<Rightarrow> nat \<Rightarrow> ('v \<Rightarrow> 'v res) \<Rightarrow> ('v, 'z) base_index_scheme
   \<Rightarrow> ('v, 'z) base_index_scheme res"
where
  "ix_modify clash k m ix =
     (case map_of (indices ix) k of
        None \<Rightarrow> Inl Out_of_range
      | Some v \<Rightarrow> bindE (m v) (\<lambda>v'.
          if collides clash k v' (indices ix) then Inl Logic_error
          else Inr (ix\<lparr>indices := put_row k v' (indices ix)\<rparr>)))"

definition ix_remove ::
  "nat \<Rightarrow> ('v, 'z) base_index_scheme \<Rightarrow> ('v, 'z) base_index_scheme res"
where
  "ix_remove k ix =
     (if k \<in> set (map fst (indices ix)) then Inr (ix\<lparr>indices := drop_row k (indices ix)\<rparr>)
      else Inl Out_of_range)"

text \<open>Ids are below the next id and the rows are sorted: what every operation keeps.\<close>

definition wf_index :: "('v, 'z) base_index_scheme \<Rightarrow> bool" where
  "wf_index ix \<longleftrightarrow> sorted_rows (indices ix) \<and> fst ` set (indices ix) \<subseteq> {..<next_id ix}"

lemma ix_emplace_eq_Inr:
  "ix_emplace clash c ix = Inr (k, ix') \<longleftrightarrow>
     k = next_id ix \<and>
     (\<exists>v. c k = Inr v \<and> k \<notin> fst ` set (indices ix) \<and> \<not> collides clash k v (indices ix) \<and>
          ix' = ix\<lparr>indices := put_row k v (indices ix), next_id := next_id ix + 1\<rparr>)"
  by (auto simp: ix_emplace_def ix_insert_def Let_def res_simps)

lemma ix_modify_eq_Inr:
  "ix_modify clash k m ix = Inr ix' \<longleftrightarrow>
     (\<exists>v v'. map_of (indices ix) k = Some v \<and> m v = Inr v' \<and>
        \<not> collides clash k v' (indices ix) \<and> ix' = ix\<lparr>indices := put_row k v' (indices ix)\<rparr>)"
  by (auto simp: ix_modify_def res_simps split: option.splits)

lemma ix_remove_eq_Inr:
  "ix_remove k ix = Inr ix' \<longleftrightarrow>
     k \<in> fst ` set (indices ix) \<and> ix' = ix\<lparr>indices := drop_row k (indices ix)\<rparr>"
  by (auto simp: ix_remove_def)

lemma wf_index_emplace:
  assumes "wf_index ix" and "ix_emplace clash c ix = Inr (k, ix')"
  shows "wf_index ix'"
  using assms unfolding ix_emplace_eq_Inr wf_index_def by force

lemma wf_index_modify:
  assumes "wf_index ix" and "ix_modify clash k m ix = Inr ix'"
  shows "wf_index ix'"
proof -
  from assms(2) obtain v v' where "map_of (indices ix) k = Some v"
    and ix': "ix' = ix\<lparr>indices := put_row k v' (indices ix)\<rparr>"
    by (auto simp: ix_modify_eq_Inr)
  then have "k \<in> fst ` set (indices ix)" by (force dest: map_of_SomeD)
  with assms(1) show ?thesis unfolding wf_index_def ix' by auto
qed

lemma wf_index_remove:
  assumes "wf_index ix" and "ix_remove k ix = Inr ix'"
  shows "wf_index ix'"
  using assms unfolding ix_remove_eq_Inr wf_index_def by auto

lemmas wf_index_ops = wf_index_emplace wf_index_modify wf_index_remove

section \<open>generic\_index: the undo stack\<close>

record 'v undo_state =
  old_values :: "'v rows"
  removed_values :: "'v rows"
  new_ids :: "nat list"
  old_next_id :: nat
  u_revision :: int

record 'v generic_index = "'v base_index" +
  gi_stack :: "'v undo_state list"
  gi_revision :: int

definition gi_enabled :: "'v generic_index \<Rightarrow> bool" where
  "gi_enabled g \<longleftrightarrow> gi_stack g \<noteq> []"

text \<open>The bookkeeping of the three changes in the most recent undo state.\<close>

definition on_modify :: "nat \<Rightarrow> 'v \<Rightarrow> 'v undo_state \<Rightarrow> 'v undo_state" where
  "on_modify k v u =
     (if k \<in> set (new_ids u) then u
      else if k \<in> set (map fst (old_values u)) then u
      else u\<lparr>old_values := put_row k v (old_values u)\<rparr>)"

definition on_remove :: "nat \<Rightarrow> 'v \<Rightarrow> 'v undo_state \<Rightarrow> 'v undo_state" where
  "on_remove k v u =
     (if k \<in> set (new_ids u) then u\<lparr>new_ids := removeAll k (new_ids u)\<rparr>
      else case map_of (old_values u) k of
        Some w \<Rightarrow> u\<lparr>removed_values := (if k \<in> set (map fst (removed_values u)) then removed_values u
                                       else put_row k w (removed_values u)),
                    old_values := drop_row k (old_values u)\<rparr>
      | None \<Rightarrow>
          if k \<in> set (map fst (removed_values u)) then u
          else u\<lparr>removed_values := put_row k v (removed_values u)\<rparr>)"

definition on_create :: "nat \<Rightarrow> 'v undo_state \<Rightarrow> 'v undo_state" where
  "on_create k u = u\<lparr>new_ids := insort_insert k (new_ids u)\<rparr>"

definition with_head :: "('v undo_state \<Rightarrow> 'v undo_state) \<Rightarrow> 'v generic_index \<Rightarrow> 'v generic_index" where
  "with_head f g = (case gi_stack g of [] \<Rightarrow> g | u # us \<Rightarrow> g\<lparr>gi_stack := f u # us\<rparr>)"

definition gi_emplace ::
  "('v \<Rightarrow> 'v \<Rightarrow> bool) \<Rightarrow> (nat \<Rightarrow> 'v res) \<Rightarrow> 'v generic_index \<Rightarrow> 'v generic_index res"
where
  "gi_emplace clash c g =
     bindE (ix_emplace clash c g) (\<lambda>(k, g'). Inr (with_head (on_create k) g'))"

definition gi_modify ::
  "('v \<Rightarrow> 'v \<Rightarrow> bool) \<Rightarrow> nat \<Rightarrow> ('v \<Rightarrow> 'v res) \<Rightarrow> 'v generic_index \<Rightarrow> 'v generic_index res"
where
  "gi_modify clash k m g =
     (case map_of (indices g) k of
        None \<Rightarrow> Inl Out_of_range
      | Some unmodified_copy \<Rightarrow>
          bindE (ix_modify clash k m g) (\<lambda>g'. Inr (with_head (on_modify k unmodified_copy) g')))"

definition gi_remove :: "nat \<Rightarrow> 'v generic_index \<Rightarrow> 'v generic_index res" where
  "gi_remove k g =
     (case map_of (indices g) k of
        None \<Rightarrow> Inl Out_of_range
      | Some v \<Rightarrow> ix_remove k (with_head (on_remove k v) g))"

definition start_undo_session :: "'v generic_index \<Rightarrow> 'v generic_index" where
  "start_undo_session g =
     g\<lparr>gi_revision := gi_revision g + 1,
       gi_stack := \<lparr>old_values = [], removed_values = [], new_ids = [],
                    old_next_id = next_id g, u_revision = gi_revision g + 1\<rparr> # gi_stack g\<rparr>"

definition gi_undo :: "('v \<Rightarrow> 'v \<Rightarrow> bool) \<Rightarrow> 'v generic_index \<Rightarrow> 'v generic_index res" where
  "gi_undo clash g =
     (case gi_stack g of
        [] \<Rightarrow> Inr g
      | head # us \<Rightarrow>
          bindE (foldE (\<lambda>item. ix_modify clash (fst item) (\<lambda>_. Inr (snd item))) (old_values head) g) (\<lambda>g1.
          bindE (foldE ix_remove (new_ids head) g1) (\<lambda>g2.
          bindE (foldE (\<lambda>item. ix_insert clash (fst item) (snd item)) (removed_values head)
                  (g2\<lparr>next_id := old_next_id head\<rparr>)) (\<lambda>g3.
          Inr (g3\<lparr>gi_stack := us, gi_revision := gi_revision g3 - 1\<rparr>)))))"

text \<open>
  Merging the most recent undo state into the one before it: the three loops of \<^verbatim>\<open>squash\<close>
  over the updated, the created and the removed objects of the most recent state.
\<close>

definition merge_old :: "nat \<times> 'v \<Rightarrow> 'v undo_state \<Rightarrow> 'v undo_state" where
  "merge_old item prev =
     (if fst item \<in> set (new_ids prev) then prev
      else if fst item \<in> set (map fst (old_values prev)) then prev
      else prev\<lparr>old_values := put_row (fst item) (snd item) (old_values prev)\<rparr>)"

definition merge_new :: "nat \<Rightarrow> 'v undo_state \<Rightarrow> 'v undo_state" where
  "merge_new k prev = prev\<lparr>new_ids := insort_insert k (new_ids prev)\<rparr>"

definition merge_removed :: "nat \<times> 'v \<Rightarrow> 'v undo_state \<Rightarrow> 'v undo_state" where
  "merge_removed obj prev =
     (if fst obj \<in> set (new_ids prev) then prev\<lparr>new_ids := removeAll (fst obj) (new_ids prev)\<rparr>
      else case map_of (old_values prev) (fst obj) of
        Some w \<Rightarrow> prev\<lparr>removed_values := put_row (fst obj) w (removed_values prev),
                       old_values := drop_row (fst obj) (old_values prev)\<rparr>
      | None \<Rightarrow> prev\<lparr>removed_values := put_row (fst obj) (snd obj) (removed_values prev)\<rparr>)"

definition merge_states :: "'v undo_state \<Rightarrow> 'v undo_state \<Rightarrow> 'v undo_state" where
  "merge_states state prev_state =
     fold merge_removed (removed_values state)
       (fold merge_new (new_ids state)
         (fold merge_old (old_values state) prev_state))"

definition gi_squash :: "'v generic_index \<Rightarrow> 'v generic_index" where
  "gi_squash g =
     (case gi_stack g of
        [] \<Rightarrow> g
      | [u] \<Rightarrow> g\<lparr>gi_stack := []\<rparr>
      | state # prev_state # us \<Rightarrow>
          g\<lparr>gi_stack := merge_states state prev_state # us, gi_revision := gi_revision g - 1\<rparr>)"

text \<open>\<^verbatim>\<open>commit\<close> pops at the front of the deque, the oldest state first.\<close>

definition gi_commit :: "int \<Rightarrow> 'v generic_index \<Rightarrow> 'v generic_index" where
  "gi_commit r g =
     g\<lparr>gi_stack := rev (dropWhile (\<lambda>u. u_revision u \<le> r) (rev (gi_stack g)))\<rparr>"

fun undo_times :: "('v \<Rightarrow> 'v \<Rightarrow> bool) \<Rightarrow> nat \<Rightarrow> 'v generic_index \<Rightarrow> 'v generic_index res" where
  "undo_times clash 0 g = Inr g"
| "undo_times clash (Suc n) g =
     (if gi_enabled g then bindE (gi_undo clash g) (undo_times clash n) else Inr g)"

text \<open>\<^verbatim>\<open>undo_all\<close> undoes while the stack is not empty; each undo pops one state.\<close>

definition gi_undo_all :: "('v \<Rightarrow> 'v \<Rightarrow> bool) \<Rightarrow> 'v generic_index \<Rightarrow> 'v generic_index res" where
  "gi_undo_all clash g = undo_times clash (length (gi_stack g)) g"

definition gi_set_revision :: "int \<Rightarrow> 'v generic_index \<Rightarrow> 'v generic_index res" where
  "gi_set_revision r g =
     (if gi_stack g \<noteq> [] then Inl Logic_error else Inr (g\<lparr>gi_revision := r\<rparr>))"

section \<open>Changes to an index\<close>

datatype 'v change = Emplace "nat \<Rightarrow> 'v res" | Modify nat "'v \<Rightarrow> 'v res" | Remove nat

fun gi_step :: "('v \<Rightarrow> 'v \<Rightarrow> bool) \<Rightarrow> 'v change \<Rightarrow> 'v generic_index \<Rightarrow> 'v generic_index res" where
  "gi_step clash (Emplace c) g = gi_emplace clash c g"
| "gi_step clash (Modify k m) g = gi_modify clash k m g"
| "gi_step clash (Remove k) g = gi_remove k g"


section \<open>What an undo state records\<close>

text \<open>
  The relation of one id to an undo state is one of new, upd(was=X), del(was=X) and nop, as in
  the comment of \<^verbatim>\<open>squash\<close>. \<open>entry\<close> says which of them the three containers hold for the id,
  and how the value before and the value after fit it.
\<close>

fun entry :: "bool \<times> 'v option \<times> 'v option \<Rightarrow> 'v option \<Rightarrow> 'v option \<Rightarrow> bool" where
  "entry (True, None, None) s t \<longleftrightarrow> s = None \<and> t \<noteq> None"
| "entry (False, Some x, None) s t \<longleftrightarrow> s = Some x \<and> t \<noteq> None"
| "entry (False, None, Some x) s t \<longleftrightarrow> s = Some x \<and> t = None"
| "entry (False, None, None) s t \<longleftrightarrow> t = s"
| "entry _ s t \<longleftrightarrow> False"

definition kind_at :: "'v undo_state \<Rightarrow> nat \<Rightarrow> bool \<times> 'v option \<times> 'v option" where
  "kind_at u k = (k \<in> set (new_ids u), map_of (old_values u) k, map_of (removed_values u) k)"

definition wf_undo :: "'v undo_state \<Rightarrow> bool" where
  "wf_undo u \<longleftrightarrow> sorted_rows (old_values u) \<and> sorted_rows (removed_values u) \<and> distinct (new_ids u)"

text \<open>\<open>tracks u s t\<close>: the undo state \<open>u\<close> describes how the table went from \<open>s\<close> to \<open>t\<close>.\<close>

definition tracks ::
  "'v undo_state \<Rightarrow> ('v, 'y) base_index_scheme \<Rightarrow> ('v, 'z) base_index_scheme \<Rightarrow> bool"
where
  "tracks u s t \<longleftrightarrow>
     wf_index s \<and> wf_index t \<and> next_id s \<le> next_id t \<and> old_next_id u = next_id s \<and> wf_undo u \<and>
     (\<forall>k \<in> set (new_ids u). next_id s \<le> k) \<and>
     (\<forall>k. entry (kind_at u k) (map_of (indices s) k) (map_of (indices t) k))"

lemma tracksD:
  assumes "tracks u s t"
  shows "wf_index s" "wf_index t" "next_id s \<le> next_id t" "old_next_id u = next_id s" "wf_undo u"
    and "\<And>k. k \<in> set (new_ids u) \<Longrightarrow> next_id s \<le> k"
    and "\<And>k. entry (kind_at u k) (map_of (indices s) k) (map_of (indices t) k)"
  using assms by (auto simp: tracks_def)

lemma wf_index_None: "wf_index s \<Longrightarrow> next_id s \<le> k \<Longrightarrow> map_of (indices s) k = None"
  by (force simp: wf_index_def map_of_eq_None_iff)

lemma map_of_in_keys: "map_of rs k = Some v \<Longrightarrow> k \<in> fst ` set rs"
  by (force dest: map_of_SomeD)

lemma tracks_refl:
  assumes "wf_index s"
  shows "tracks \<lparr>old_values = [], removed_values = [], new_ids = [], old_next_id = next_id s, u_revision = r\<rparr> s s"
  using assms by (simp add: tracks_def kind_at_def wf_undo_def)

text \<open>Each change to the table keeps the record exact.\<close>

lemma tracks_emplace:
  assumes tr: "tracks u s t" and em: "ix_emplace clash c t = Inr (k, t')"
  shows "tracks (on_create k u) s t'"
proof -
  note D = tracksD [OF tr]
  from em obtain v where k: "k = next_id t"
    and t': "t' = t\<lparr>indices := put_row k v (indices t), next_id := next_id t + 1\<rparr>"
    by (auto simp: ix_emplace_eq_Inr)
  have fresh: "map_of (indices t) k = None" "map_of (indices s) k = None"
    using wf_index_None [OF D(1), of k] wf_index_None [OF D(2), of k] D(3) k by auto
  have other: "kind_at (on_create k u) j = kind_at u j" if "j \<noteq> k" for j
    using that by (simp add: kind_at_def on_create_def set_insort_insert)
  have "entry (kind_at (on_create k u) j) (map_of (indices s) j) (map_of (indices t') j)" for j
  proof (cases "j = k")
    case True
    with D(7) [of k] fresh show ?thesis
      by (cases "map_of (old_values u) k"; cases "map_of (removed_values u) k"; cases "k \<in> set (new_ids u)")
        (simp_all add: kind_at_def on_create_def t' set_insort_insert)
  next
    case False
    with D(7) [of j] other [of j] show ?thesis by (simp add: t')
  qed
  moreover have "wf_undo (on_create k u)"
    using D(5) by (simp add: wf_undo_def on_create_def distinct_insort_insert)
  ultimately show ?thesis
    using D(1,3,4,6) k wf_index_emplace [OF D(2) em]
    by (auto simp: tracks_def t' on_create_def set_insort_insert)
qed

lemma tracks_modify:
  assumes tr: "tracks u s t" and mo: "ix_modify clash k m t = Inr t'" and v: "map_of (indices t) k = Some v"
  shows "tracks (on_modify k v u) s t'"
proof -
  note D = tracksD [OF tr]
  from mo v obtain v' where t': "t' = t\<lparr>indices := put_row k v' (indices t)\<rparr>"
    by (auto simp: ix_modify_eq_Inr)
  have other: "kind_at (on_modify k v u) j = kind_at u j" if "j \<noteq> k" for j
    using that by (simp add: kind_at_def on_modify_def)
  have old: "k \<in> fst ` set (old_values u) \<longleftrightarrow> map_of (old_values u) k \<noteq> None"
    by (simp add: map_of_eq_None_iff)
  have "entry (kind_at (on_modify k v u) j) (map_of (indices s) j) (map_of (indices t') j)" for j
  proof (cases "j = k")
    case True
    with D(7) [of k] v old show ?thesis
      by (cases "map_of (old_values u) k"; cases "map_of (removed_values u) k";
          cases "k \<in> set (new_ids u)"; cases "map_of (indices s) k")
        (auto simp: kind_at_def on_modify_def t')
  next
    case False
    with D(7) [of j] other [of j] show ?thesis by (simp add: t')
  qed
  moreover have "wf_undo (on_modify k v u)" "new_ids (on_modify k v u) = new_ids u"
    "old_next_id (on_modify k v u) = old_next_id u"
    using D(5) by (auto simp: wf_undo_def on_modify_def)
  ultimately show ?thesis
    using D(1,3,4,6) wf_index_modify [OF D(2) mo] by (simp add: tracks_def t')
qed

lemma tracks_remove:
  assumes tr: "tracks u s t" and re: "ix_remove k t = Inr t'" and v: "map_of (indices t) k = Some v"
  shows "tracks (on_remove k v u) s t'"
proof -
  note D = tracksD [OF tr]
  from re have t': "t' = t\<lparr>indices := drop_row k (indices t)\<rparr>" by (auto simp: ix_remove_eq_Inr)
  have other: "kind_at (on_remove k v u) j = kind_at u j" if "j \<noteq> k" for j
    using that by (auto simp: kind_at_def on_remove_def split: option.splits)
  have rem: "k \<in> fst ` set (removed_values u) \<longleftrightarrow> map_of (removed_values u) k \<noteq> None"
    by (simp add: map_of_eq_None_iff)
  have "entry (kind_at (on_remove k v u) j) (map_of (indices s) j) (map_of (indices t') j)" for j
  proof (cases "j = k")
    case True
    with D(7) [of k] v rem show ?thesis
      by (cases "map_of (old_values u) k"; cases "map_of (removed_values u) k";
          cases "k \<in> set (new_ids u)"; cases "map_of (indices s) k")
        (auto simp: kind_at_def on_remove_def t')
  next
    case False
    with D(7) [of j] other [of j] show ?thesis by (simp add: t')
  qed
  moreover have "wf_undo (on_remove k v u)" "set (new_ids (on_remove k v u)) \<subseteq> set (new_ids u)"
    "old_next_id (on_remove k v u) = old_next_id u"
    using D(5) by (auto simp: wf_undo_def on_remove_def distinct_removeAll split: option.splits)
  ultimately show ?thesis
    using D(1,3,4,6) wf_index_remove [OF D(2) re] by (auto simp: tracks_def t')
qed


section \<open>Undo restores, squash composes\<close>

definition put_all :: "'v rows \<Rightarrow> 'v rows \<Rightarrow> 'v rows" where
  "put_all items rs = fold (\<lambda>item. put_row (fst item) (snd item)) items rs"

lemma put_all_simps [simp]:
  "put_all [] rs = rs"
  "put_all (i # is) rs = put_all is (put_row (fst i) (snd i) rs)"
  by (simp_all add: put_all_def)

lemma sorted_put_all [simp, intro]: "sorted_rows rs \<Longrightarrow> sorted_rows (put_all items rs)"
  by (induction items arbitrary: rs) auto

lemma map_of_put_all:
  "sorted_rows items \<Longrightarrow>
   map_of (put_all items rs) k = (case map_of items k of None \<Rightarrow> map_of rs k | Some v \<Rightarrow> Some v)"
proof (induction items arbitrary: rs)
  case (Cons i items)
  have "map_of items (fst i) = None"
    using Cons.prems by (force simp: map_of_eq_None_iff)
  with Cons show ?case by (cases i) (auto split: option.splits)
qed simp

definition drop_all :: "nat list \<Rightarrow> 'v rows \<Rightarrow> 'v rows" where
  "drop_all ks rs = fold drop_row ks rs"

lemma drop_all_simps [simp]:
  "drop_all [] rs = rs"
  "drop_all (k # ks) rs = drop_all ks (drop_row k rs)"
  by (simp_all add: drop_all_def)

lemma sorted_drop_all [simp, intro]: "sorted_rows rs \<Longrightarrow> sorted_rows (drop_all ks rs)"
  by (induction ks arbitrary: rs) auto

lemma map_of_drop_all: "map_of (drop_all ks rs) k = (if k \<in> set ks then None else map_of rs k)"
  by (induction ks arbitrary: rs) auto

text \<open>The three loops of \<^verbatim>\<open>undo\<close>: what they do when they return, and that they do return.\<close>

lemma foldE_modify_eq:
  "foldE (\<lambda>item. ix_modify clash (fst item) (\<lambda>_. Inr (snd item))) items g = Inr g' \<Longrightarrow>
   g' = g\<lparr>indices := put_all items (indices g)\<rparr>"
  by (induction items arbitrary: g) (simp, fastforce simp: res_simps ix_modify_eq_Inr)

lemma foldE_remove_eq:
  "foldE ix_remove ks g = Inr g' \<Longrightarrow> g' = g\<lparr>indices := drop_all ks (indices g)\<rparr>"
  by (induction ks arbitrary: g) (simp, fastforce simp: res_simps ix_remove_eq_Inr)

lemma foldE_insert_eq:
  "foldE (\<lambda>item. ix_insert clash (fst item) (snd item)) items g = Inr g' \<Longrightarrow>
   g' = g\<lparr>indices := put_all items (indices g)\<rparr>"
  by (induction items arbitrary: g) (simp, fastforce simp: res_simps ix_insert_def split: if_splits)

definition no_clash :: "'v \<Rightarrow> 'v \<Rightarrow> bool" where
  "no_clash v w \<longleftrightarrow> False"

lemma collides_no_clash [simp]: "\<not> collides no_clash k v rs"
  by (simp add: collides_def no_clash_def list_ex_iff)

lemma foldE_modify_returns:
  "fst ` set items \<subseteq> fst ` set (indices g) \<Longrightarrow>
   \<exists>g'. foldE (\<lambda>item. ix_modify no_clash (fst item) (\<lambda>_. Inr (snd item))) items g = Inr g'"
proof (induction items arbitrary: g)
  case (Cons i items)
  then obtain v where v: "map_of (indices g) (fst i) = Some v"
    by (cases "map_of (indices g) (fst i)") (auto simp: map_of_eq_None_iff)
  let ?g = "g\<lparr>indices := put_row (fst i) (snd i) (indices g)\<rparr>"
  have "fst ` set items \<subseteq> fst ` set (indices ?g)" using Cons.prems by auto
  from Cons.IH [OF this] v show ?case by (simp add: ix_modify_def)
qed simp

lemma foldE_remove_returns:
  "distinct ks \<Longrightarrow> set ks \<subseteq> fst ` set (indices g) \<Longrightarrow> \<exists>g'. foldE ix_remove ks g = Inr g'"
proof (induction ks arbitrary: g)
  case (Cons k ks)
  let ?g = "g\<lparr>indices := drop_row k (indices g)\<rparr>"
  have "set ks \<subseteq> fst ` set (indices ?g)" using Cons.prems by auto
  from Cons.IH [OF _ this] Cons.prems show ?case by (simp add: ix_remove_def)
qed simp

lemma foldE_insert_returns:
  "sorted_rows items \<Longrightarrow> fst ` set items \<inter> fst ` set (indices g) = {} \<Longrightarrow>
   \<exists>g'. foldE (\<lambda>item. ix_insert no_clash (fst item) (snd item)) items g = Inr g'"
proof (induction items arbitrary: g)
  case (Cons i items)
  let ?g = "g\<lparr>indices := put_row (fst i) (snd i) (indices g)\<rparr>"
  have "fst ` set items \<inter> fst ` set (indices ?g) = {}" using Cons.prems by auto
  from Cons.IH [OF _ this] Cons.prems show ?case by (auto simp: ix_insert_def)
qed simp

text \<open>Applying the three containers of an exact undo state gives the table it started from.\<close>

lemma tracks_restore:
  assumes "tracks u s t"
  shows "put_all (removed_values u) (drop_all (new_ids u) (put_all (old_values u) (indices t))) = indices s"
proof (rule sorted_rows_eqI)
  note D = tracksD [OF assms]
  have so: "sorted_rows (old_values u)" "sorted_rows (removed_values u)"
    using D(5) by (auto simp: wf_undo_def)
  show "sorted_rows (put_all (removed_values u) (drop_all (new_ids u) (put_all (old_values u) (indices t))))"
    using D(2) by (auto simp: wf_index_def)
  show "sorted_rows (indices s)" using D(1) by (simp add: wf_index_def)
  show "map_of (put_all (removed_values u) (drop_all (new_ids u) (put_all (old_values u) (indices t))))
      = map_of (indices s)"
  proof
    fix k
    show "map_of (put_all (removed_values u) (drop_all (new_ids u) (put_all (old_values u) (indices t)))) k
        = map_of (indices s) k"
      using D(7) [of k] so
      by (cases "map_of (old_values u) k"; cases "map_of (removed_values u) k"; cases "k \<in> set (new_ids u)")
        (simp_all add: kind_at_def map_of_put_all map_of_drop_all)
  qed
qed

text \<open>\<open>session_from s t\<close>: the most recent session of \<open>t\<close> was started at \<open>s\<close>.\<close>

definition session_from :: "'v generic_index \<Rightarrow> 'v generic_index \<Rightarrow> bool" where
  "session_from s t \<longleftrightarrow>
     (\<exists>u. gi_stack t = u # gi_stack s \<and> gi_revision t = gi_revision s + 1 \<and> tracks u s t)"

lemma base_eqI:
  fixes s t :: "'v generic_index"
  assumes "next_id s = next_id t" "indices s = indices t" "gi_stack s = gi_stack t" "gi_revision s = gi_revision t"
  shows "s = t"
  using assms by (cases s; cases t) simp

lemma undo_restores:
  assumes "session_from s t" and "gi_undo clash t = Inr t'"
  shows "t' = s"
proof -
  from assms(1) obtain u where u: "gi_stack t = u # gi_stack s" "gi_revision t = gi_revision s + 1" "tracks u s t"
    by (auto simp: session_from_def)
  from assms(2) u(1) have "t' = t\<lparr>indices :=
      put_all (removed_values u) (drop_all (new_ids u) (put_all (old_values u) (indices t))),
      next_id := old_next_id u, gi_stack := gi_stack s, gi_revision := gi_revision t - 1\<rparr>"
    by (auto simp: gi_undo_def res_simps dest!: foldE_modify_eq foldE_remove_eq foldE_insert_eq)
  then show ?thesis
    using u(2) tracksD(4) [OF u(3)] tracks_restore [OF u(3)] by (intro base_eqI) simp_all
qed

lemma tracks_keys:
  assumes "tracks u s t"
  shows "fst ` set (old_values u) \<subseteq> fst ` set (indices t)"
    and "set (new_ids u) \<subseteq> fst ` set (indices t)"
    and "fst ` set (removed_values u) \<inter> fst ` set (indices t) = {}"
    and "set (new_ids u) \<inter> fst ` set (old_values u) = {}"
proof -
  have e: "entry (k \<in> set (new_ids u), map_of (old_values u) k, map_of (removed_values u) k)
      (map_of (indices s) k) (map_of (indices t) k)" for k
    using tracksD(7) [OF assms, of k] by (simp add: kind_at_def)
  have keys: "k \<in> fst ` set rs \<longleftrightarrow> map_of rs k \<noteq> None" for k and rs :: "'v rows"
    by (simp add: map_of_eq_None_iff)
  show "fst ` set (old_values u) \<subseteq> fst ` set (indices t)"
  proof
    fix k assume "k \<in> fst ` set (old_values u)"
    with e [of k] show "k \<in> fst ` set (indices t)"
      by (cases "map_of (removed_values u) k"; cases "k \<in> set (new_ids u)") (auto simp: keys)
  qed
  show "set (new_ids u) \<subseteq> fst ` set (indices t)"
  proof
    fix k assume "k \<in> set (new_ids u)"
    with e [of k] show "k \<in> fst ` set (indices t)"
      by (cases "map_of (removed_values u) k"; cases "map_of (old_values u) k") (auto simp: keys)
  qed
  have "map_of (indices t) k = None" if "map_of (removed_values u) k \<noteq> None" for k
    using that e [of k]
    by (cases "map_of (old_values u) k"; cases "k \<in> set (new_ids u)") auto
  then show "fst ` set (removed_values u) \<inter> fst ` set (indices t) = {}"
    by (auto simp: keys disjoint_iff)
  have "map_of (old_values u) k = None" if "k \<in> set (new_ids u)" for k
    using that e [of k] by (cases "map_of (removed_values u) k"; cases "map_of (old_values u) k") auto
  then show "set (new_ids u) \<inter> fst ` set (old_values u) = {}"
    by (auto simp: keys disjoint_iff)
qed

lemma undo_returns:
  assumes "session_from s t"
  shows "gi_undo no_clash t = Inr s"
proof -
  from assms obtain u where u: "gi_stack t = u # gi_stack s" and tr: "tracks u s t"
    by (auto simp: session_from_def)
  note K = tracks_keys [OF tr]
  have so: "sorted_rows (removed_values u)" "distinct (new_ids u)"
    using tracksD(5) [OF tr] by (auto simp: wf_undo_def)
  obtain g1 where g1: "foldE (\<lambda>item. ix_modify no_clash (fst item) (\<lambda>_. Inr (snd item))) (old_values u) t = Inr g1"
    using foldE_modify_returns [OF K(1)] by blast
  have g1': "g1 = t\<lparr>indices := put_all (old_values u) (indices t)\<rparr>" by (rule foldE_modify_eq [OF g1])
  have k1: "fst ` set (put_all items rs) = fst ` set items \<union> fst ` set rs" for items and rs :: "'v rows"
    by (induction items arbitrary: rs) auto
  have k2: "fst ` set (drop_all ks rs) = fst ` set rs - set ks" for ks and rs :: "'v rows"
    by (induction ks arbitrary: rs) auto
  have "set (new_ids u) \<subseteq> fst ` set (indices g1)" using K(2) by (simp add: g1' k1 le_supI2)
  then obtain g2 where g2: "foldE ix_remove (new_ids u) g1 = Inr g2"
    using foldE_remove_returns [OF so(2)] by blast
  have g2': "g2 = g1\<lparr>indices := drop_all (new_ids u) (indices g1)\<rparr>" by (rule foldE_remove_eq [OF g2])
  have "fst ` set (removed_values u) \<inter> fst ` set (indices (g2\<lparr>next_id := old_next_id u\<rparr>)) = {}"
    using K(1,3) by (auto simp: g1' g2' k1 k2)
  from foldE_insert_returns [OF so(1) this] obtain t' where "gi_undo no_clash t = Inr t'"
    using u g1 g2 by (auto simp: gi_undo_def)
  with undo_restores [OF assms this] show ?thesis by simp
qed


text \<open>A session survives every change to the table.\<close>

lemma session_from_start: "wf_index g \<Longrightarrow> session_from g (start_undo_session g)"
  unfolding session_from_def start_undo_session_def
  using tracks_refl [of g "gi_revision g + 1"] by (auto simp: tracks_def wf_index_def)

lemma tracks_cong:
  assumes "tracks u s t" "next_id t' = next_id t" "indices t' = indices t"
  shows "tracks u s t'"
  using assms by (simp add: tracks_def wf_index_def)

lemma ix_ops_frame:
  fixes g :: "'v generic_index"
  shows "ix_emplace clash c g = Inr (k, g') \<Longrightarrow> gi_stack g' = gi_stack g \<and> gi_revision g' = gi_revision g"
    and "ix_modify clash k m g = Inr g' \<Longrightarrow> gi_stack g' = gi_stack g \<and> gi_revision g' = gi_revision g"
    and "ix_remove k g = Inr g' \<Longrightarrow> gi_stack g' = gi_stack g \<and> gi_revision g' = gi_revision g"
  by (auto simp: ix_emplace_eq_Inr ix_modify_eq_Inr ix_remove_eq_Inr)

lemma with_head_Cons: "gi_stack g = u # us \<Longrightarrow> with_head f g = g\<lparr>gi_stack := f u # us\<rparr>"
  by (simp add: with_head_def)

lemma session_from_step:
  assumes "session_from s t" and "gi_step clash c t = Inr t'"
  shows "session_from s t'"
proof -
  from assms(1) obtain u where u: "gi_stack t = u # gi_stack s" "gi_revision t = gi_revision s + 1" "tracks u s t"
    by (auto simp: session_from_def)
  show ?thesis
  proof (cases c)
    case (Emplace con)
    with assms(2) obtain k t1 where t1: "ix_emplace clash con t = Inr (k, t1)" and t': "t' = with_head (on_create k) t1"
      by (auto simp: gi_emplace_def res_simps)
    have "tracks (on_create k u) s t1" by (rule tracks_emplace [OF u(3) t1])
    with u ix_ops_frame(1) [OF t1] show ?thesis
      by (auto simp: session_from_def t' with_head_def intro: tracks_cong)
  next
    case (Modify k m)
    with assms(2) obtain v t1 where v: "map_of (indices t) k = Some v" and t1: "ix_modify clash k m t = Inr t1"
      and t': "t' = with_head (on_modify k v) t1"
      by (auto simp: gi_modify_def res_simps split: option.splits)
    have "tracks (on_modify k v u) s t1" by (rule tracks_modify [OF u(3) t1 v])
    with u ix_ops_frame(2) [OF t1] show ?thesis
      by (auto simp: session_from_def t' with_head_def intro: tracks_cong)
  next
    case (Remove k)
    with assms(2) obtain v where v: "map_of (indices t) k = Some v"
      and t': "ix_remove k (with_head (on_remove k v) t) = Inr t'"
      by (auto simp: gi_remove_def split: option.splits)
    have t1: "ix_remove k t = Inr (t\<lparr>indices := drop_row k (indices t)\<rparr>)"
      using map_of_in_keys [OF v] by (simp add: ix_remove_def)
    have "tracks (on_remove k v u) s (t\<lparr>indices := drop_row k (indices t)\<rparr>)"
      by (rule tracks_remove [OF u(3) t1 v])
    with u t' show ?thesis
      by (auto simp: session_from_def with_head_Cons [OF u(1)] ix_remove_eq_Inr intro: tracks_cong)
  qed
qed

lemma session_from_wf: "session_from s t \<Longrightarrow> wf_index t"
  by (auto simp: session_from_def dest: tracksD)

section \<open>Merging two undo states\<close>

text \<open>
  Each loop of \<^verbatim>\<open>squash\<close> changes, for an item, only what is recorded for that item's id, and
  the ids of the items are distinct: so the effect on an id is that of its own item.
\<close>

lemma kind_at_fold:
  assumes "\<And>item u k. k \<noteq> fst item \<Longrightarrow> kind_at (f item u) k = kind_at u k"
    and "\<And>item u. kind_at (f item u) (fst item) = h (snd item) (kind_at u (fst item))"
    and "sorted_rows items"
  shows "kind_at (fold f items u) k =
    (case map_of items k of None \<Rightarrow> kind_at u k | Some v \<Rightarrow> h v (kind_at u k))"
  using assms(3)
proof (induction items arbitrary: u)
  case (Cons i items)
  have IH: "kind_at (fold f items (f i u)) k =
      (case map_of items k of None \<Rightarrow> kind_at (f i u) k | Some v \<Rightarrow> h v (kind_at (f i u) k))"
    by (rule Cons.IH) (use Cons.prems in simp)
  have "map_of items (fst i) = None" using Cons.prems by (force simp: map_of_eq_None_iff)
  with IH assms(1) [of k i u] assms(2) [of i u] show ?case
    by (cases i; cases "k = fst i") (auto split: option.splits)
qed simp

fun old_kind :: "'v \<Rightarrow> bool \<times> 'v option \<times> 'v option \<Rightarrow> bool \<times> 'v option \<times> 'v option" where
  "old_kind v (n, d, r) = (n, (if n \<or> d \<noteq> None then d else Some v), r)"

fun removed_kind :: "'v \<Rightarrow> bool \<times> 'v option \<times> 'v option \<Rightarrow> bool \<times> 'v option \<times> 'v option" where
  "removed_kind v (n, d, r) =
     (if n then (False, d, r) else case d of Some w \<Rightarrow> (n, None, Some w) | None \<Rightarrow> (n, None, Some v))"

lemma kind_at_merge_old:
  assumes "sorted_rows items"
  shows "kind_at (fold merge_old items u) k =
    (case map_of items k of None \<Rightarrow> kind_at u k | Some v \<Rightarrow> old_kind v (kind_at u k))"
proof (rule kind_at_fold)
  show "kind_at (merge_old item u) j = kind_at u j" if "j \<noteq> fst item" for item u j
    using that by (simp add: kind_at_def merge_old_def)
  show "kind_at (merge_old item u) (fst item) = old_kind (snd item) (kind_at u (fst item))" for item u
    by (auto simp: kind_at_def merge_old_def map_of_eq_None_iff)
qed (rule assms)

lemma kind_at_merge_removed:
  assumes "sorted_rows items"
  shows "kind_at (fold merge_removed items u) k =
    (case map_of items k of None \<Rightarrow> kind_at u k | Some v \<Rightarrow> removed_kind v (kind_at u k))"
proof (rule kind_at_fold)
  show "kind_at (merge_removed item u) j = kind_at u j" if "j \<noteq> fst item" for item u j
    using that by (auto simp: kind_at_def merge_removed_def split: option.splits)
  show "kind_at (merge_removed item u) (fst item) = removed_kind (snd item) (kind_at u (fst item))" for item u
    by (auto simp: kind_at_def merge_removed_def split: option.splits)
qed (rule assms)

fun new_kind :: "bool \<Rightarrow> bool \<times> 'v option \<times> 'v option \<Rightarrow> bool \<times> 'v option \<times> 'v option" where
  "new_kind b (n, d, r) = (n \<or> b, d, r)"

lemma kind_at_merge_new:
  "kind_at (fold merge_new ks u) k = new_kind (k \<in> set ks) (kind_at u k)"
  by (induction ks arbitrary: u) (auto simp: kind_at_def merge_new_def set_insort_insert)

lemma wf_undo_merge: "wf_undo u \<Longrightarrow> wf_undo (merge_old i u)" "wf_undo u \<Longrightarrow> wf_undo (merge_new k u)"
    "wf_undo u \<Longrightarrow> wf_undo (merge_removed i u)"
  by (auto simp: wf_undo_def merge_old_def merge_new_def merge_removed_def distinct_insort_insert
      distinct_removeAll split: option.splits)

lemma fold_pres: "(\<And>i u. P u \<Longrightarrow> P (f i u)) \<Longrightarrow> P u \<Longrightarrow> P (fold f is u)"
  by (induction "is" arbitrary: u) auto

lemma wf_undo_merge_states: "wf_undo prev \<Longrightarrow> wf_undo (merge_states u prev)"
  unfolding merge_states_def by (intro fold_pres [of wf_undo] wf_undo_merge)

lemma old_next_id_merge_states [simp]: "old_next_id (merge_states u prev) = old_next_id prev"
proof -
  have "old_next_id (fold merge_old rs x) = old_next_id x" for rs and x :: "'a undo_state"
    by (induction rs arbitrary: x) (auto simp: merge_old_def)
  moreover have "old_next_id (fold merge_new ks x) = old_next_id x" for ks and x :: "'a undo_state"
    by (induction ks arbitrary: x) (auto simp: merge_new_def)
  moreover have "old_next_id (fold merge_removed rs x) = old_next_id x" for rs and x :: "'a undo_state"
    by (induction rs arbitrary: x) (auto simp: merge_removed_def split: option.splits)
  ultimately show ?thesis by (simp add: merge_states_def)
qed

lemma tracks_merge:
  assumes a: "tracks u r s" and b: "tracks v s t"
  shows "tracks (merge_states v u) r t"
proof -
  note A = tracksD [OF a] and B = tracksD [OF b]
  have so: "sorted_rows (old_values v)" "sorted_rows (removed_values v)"
    using B(5) by (auto simp: wf_undo_def)
  have kind: "kind_at (merge_states v u) k =
      (let x = (case map_of (old_values v) k of None \<Rightarrow> kind_at u k | Some w \<Rightarrow> old_kind w (kind_at u k));
           y = new_kind (k \<in> set (new_ids v)) x
       in case map_of (removed_values v) k of None \<Rightarrow> y | Some w \<Rightarrow> removed_kind w y)" for k
    unfolding merge_states_def kind_at_merge_removed [OF so(2)] kind_at_merge_new
      kind_at_merge_old [OF so(1)] Let_def by (rule refl)
  have fresh: "map_of (indices r) k = None" if "k \<in> set (new_ids v)" for k
    using B(6) [OF that] A(3) wf_index_None [OF A(1), of k] by simp
  have ent: "entry (kind_at (merge_states v u) k) (map_of (indices r) k) (map_of (indices t) k)" for k
    using A(7) [of k] B(7) [of k] fresh [of k] unfolding kind
    by (cases "map_of (old_values u) k"; cases "map_of (removed_values u) k"; cases "k \<in> set (new_ids u)";
        cases "map_of (old_values v) k"; cases "map_of (removed_values v) k"; cases "k \<in> set (new_ids v)")
      (auto simp: kind_at_def)
  have "next_id r \<le> k" if "k \<in> set (new_ids (merge_states v u))" for k
  proof -
    from that have "fst (kind_at (merge_states v u) k)" by (simp add: kind_at_def)
    then have "k \<in> set (new_ids u) \<or> k \<in> set (new_ids v)"
      unfolding kind by (auto simp: kind_at_def Let_def split: option.splits if_splits)
    then show ?thesis using A(6) [of k] B(6) [of k] A(3) by auto
  qed
  with ent wf_undo_merge_states [OF A(5), of v] show ?thesis
    using A(1,3,4) B(2,3) by (simp add: tracks_def)
qed

lemma session_from_squash:
  assumes "session_from r s" and "session_from s t"
  shows "session_from r (gi_squash t)"
proof -
  from assms(1) obtain u where u: "gi_stack s = u # gi_stack r" "gi_revision s = gi_revision r + 1" "tracks u r s"
    by (auto simp: session_from_def)
  from assms(2) obtain v where v: "gi_stack t = v # gi_stack s" "gi_revision t = gi_revision s + 1" "tracks v s t"
    by (auto simp: session_from_def)
  have "gi_squash t = t\<lparr>gi_stack := merge_states v u # gi_stack r, gi_revision := gi_revision t - 1\<rparr>"
    using u(1) v(1) by (simp add: gi_squash_def)
  then show ?thesis
    using u(2) v(2) tracks_merge [OF u(3) v(3)] by (auto simp: session_from_def intro: tracks_cong)
qed

end
