(* ===== verification/Chainbase_Sessions.thy ===== *)
theory Chainbase_Sessions
  imports Chainbase_Index
begin

text \<open>
  Undo sessions seen from the database that uses them. The locale \<open>undo_store\<close> is the contract
  between \<^verbatim>\<open>chainbase::generic_index\<close> and its client \<^verbatim>\<open>database::_push_transaction\<close>: a session
  starts at a state, changes keep it, undoing returns to that state, squashing merges a session
  into the one around it. The client's facts (a failed transaction leaves no trace, the pending
  transactions can be dropped in one undo) are proved once from the contract, and the contract
  is proved for the index of \<open>Chainbase_Index\<close>.
\<close>

section \<open>The contract\<close>




section \<open>Pending transactions\<close>








section \<open>Properties\<close>


definition demo_index :: "nat generic_index" where
  "demo_index = \<lparr>next_id = 2, indices = [(0, 10), (1, 11)], gi_stack = [], gi_revision = 0\<rparr>"

definition demo_changes :: "nat change list" where
  "demo_changes = [Modify 0 (\<lambda>v. Inr (v + 5)), Remove 1, Emplace (\<lambda>i. Inr (i + 100)), Remove 0]"

lemmas demo_eval = demo_index_def demo_changes_def start_undo_session_def gi_emplace_def gi_modify_def
  gi_remove_def ix_emplace_def ix_insert_def ix_modify_def ix_remove_def with_head_def on_create_def
  on_modify_def on_remove_def Let_def drop_row_def insort_insert_key_def












text \<open>
  Undo can throw where a unique key is reused. A session changes the unique key of one
  object and then creates an object with the key that became free; every change is legal, but
  \<^verbatim>\<open>undo\<close> restores old values before it removes new objects, so it runs into the new object and
  throws \<^verbatim>\<open>logic_error\<close>. Here the whole value is the unique key.
\<close>

lemma undo_throws_on_reused_key:
  "\<exists>g1. foldE (gi_step (=)) [Modify 0 (\<lambda>v. Inr 20), Emplace (\<lambda>i. Inr 10)] (start_undo_session demo_index) = Inr g1
     \<and> gi_undo (=) g1 = Inl Logic_error"
  by (simp add: demo_eval collides_def gi_undo_def)

end
