(* ===== verification/Fc_Interface.thy ===== *)
theory Fc_Interface
  imports Scorum_Prelude
begin

text \<open>
  The libraries the chain is built on and that are not part of its repository: the \<^verbatim>\<open>fc\<close>
  git submodule (\<^verbatim>\<open>fc::safe\<close>, \<^verbatim>\<open>fc::uint128\<close>, the hash functions) and Boost.Multiprecision.
  They are a parameter of the model: the record \<open>ext_lib\<close> bundles the functions the chain
  calls, every definition that calls one takes such a record as its argument \<open>F\<close>, and
  the hypothesis \<open>ext_ok F\<close> states what the chain relies on. \<open>ext_ref\<close> is one record of
  functions with that behaviour: it shows that the hypothesis can hold and lets a concrete run
  be evaluated.

  \<^item> \<^verbatim>\<open>fc::safe<int64_t>\<close>: an operation returns the exact result when it is representable and
    throws otherwise; comparisons compare the values.
  \<^item> \<^verbatim>\<open>fc::uint128\<close>: unsigned arithmetic modulo 2 to the power 128; dividing by zero throws,
    \<^verbatim>\<open>to_uint64\<close> throws when the value does not fit.
  \<^item> \<^verbatim>\<open>fc::time_point_sec\<close>: a count of seconds in 32 bits; adding a period gives the later time
    when it is representable, a difference is signed and moves a time by as much. Periods are
    counted in seconds.
  \<^item> The hash functions, the checks for UTF-8 and JSON and the reading of hexadecimal digits are
    arbitrary functions; nothing is assumed of them.
  \<^item> \<^verbatim>\<open>fc::to_string\<close>, \<^verbatim>\<open>fc::to_int64\<close>, \<^verbatim>\<open>fc::trim\<close>: decimal numerals, and removal of the blanks
    around a text.
  \<^item> \<^verbatim>\<open>boost::rational\<close>: fractions with positive denominators compare as rational numbers.
  \<^item> \<^verbatim>\<open>boost::multiprecision::uint256_t\<close>: unsigned arithmetic modulo 2 to the power 256;
    \<^verbatim>\<open>find_msb\<close> of a nonzero value is the index of its most significant bit.
\<close>

type_synonym u64 = "64 word"
type_synonym u128 = "128 word"
type_synonym u256 = "256 word"

record ext_lib =
  safe_add :: "int \<Rightarrow> int \<Rightarrow> int res"
  safe_sub :: "int \<Rightarrow> int \<Rightarrow> int res"
  safe_mul :: "int \<Rightarrow> int \<Rightarrow> int res"
  safe_div :: "int \<Rightarrow> int \<Rightarrow> int res"
  safe_mod :: "int \<Rightarrow> int \<Rightarrow> int res"
  safe_neg :: "int \<Rightarrow> int res"
  u128_add :: "u128 \<Rightarrow> u128 \<Rightarrow> u128"
  u128_sub :: "u128 \<Rightarrow> u128 \<Rightarrow> u128"
  u128_mul :: "u128 \<Rightarrow> u128 \<Rightarrow> u128"
  u128_div :: "u128 \<Rightarrow> u128 \<Rightarrow> u128 res"
  u128_shl :: "u128 \<Rightarrow> nat \<Rightarrow> u128"
  u128_shr :: "u128 \<Rightarrow> nat \<Rightarrow> u128"
  u128_and :: "u128 \<Rightarrow> u128 \<Rightarrow> u128"
  u128_to_uint64 :: "u128 \<Rightarrow> int res"
  u256_mul :: "u256 \<Rightarrow> u256 \<Rightarrow> u256"
  u256_div :: "u256 \<Rightarrow> u256 \<Rightarrow> u256 res"
  find_msb64 :: "u64 \<Rightarrow> nat"
  hash_sha256 :: "string \<Rightarrow> string"
  hash_ripemd160 :: "nat list \<Rightarrow> string"
  from_hex :: "char \<Rightarrow> nat res"
  time_add :: "nat \<Rightarrow> nat \<Rightarrow> nat"
  time_diff :: "nat \<Rightarrow> nat \<Rightarrow> int"
  time_shift :: "nat \<Rightarrow> int \<Rightarrow> nat"
  fc_to_string :: "int \<Rightarrow> string"
  fc_to_int64 :: "string \<Rightarrow> int res"
  fc_trim :: "string \<Rightarrow> string"
  is_utf8 :: "string \<Rightarrow> bool"
  json_is_valid :: "string \<Rightarrow> bool"
  ripemd160_of_hex :: "string \<Rightarrow> unit res"
  rational_le :: "int \<times> int \<Rightarrow> int \<times> int \<Rightarrow> bool"

section \<open>What the chain relies on\<close>

definition safe_ok :: "ext_lib \<Rightarrow> bool" where
  "safe_ok F \<longleftrightarrow>
     (\<forall>a b c. safe_add F a b = Inr c \<longleftrightarrow> c = a + b \<and> in_i64 c) \<and>
     (\<forall>a b c. safe_sub F a b = Inr c \<longleftrightarrow> c = a - b \<and> in_i64 c) \<and>
     (\<forall>a b c. safe_mul F a b = Inr c \<longleftrightarrow> c = a * b \<and> in_i64 c) \<and>
     (\<forall>a b c. safe_div F a b = Inr c \<longleftrightarrow> b \<noteq> 0 \<and> c = cdiv a b \<and> in_i64 c) \<and>
     (\<forall>a b c. safe_mod F a b = Inr c \<longleftrightarrow> b \<noteq> 0 \<and> c = a - cdiv a b * b \<and> in_i64 (cdiv a b)) \<and>
     (\<forall>a c. safe_neg F a = Inr c \<longleftrightarrow> c = - a \<and> in_i64 c)"

definition u128_ok :: "ext_lib \<Rightarrow> bool" where
  "u128_ok F \<longleftrightarrow>
     (\<forall>a b. u128_add F a b = a + b \<and> u128_sub F a b = a - b \<and> u128_mul F a b = a * b
        \<and> u128_and F a b = and a b) \<and>
     (\<forall>a b c. u128_div F a b = Inr c \<longleftrightarrow> b \<noteq> 0 \<and> c = a div b) \<and>
     (\<forall>a n. u128_shl F a n = push_bit n a \<and> u128_shr F a n = drop_bit n a) \<and>
     (\<forall>a x. u128_to_uint64 F a = Inr x \<longleftrightarrow> x = uint a \<and> x < 2 ^ 64)"

definition u256_ok :: "ext_lib \<Rightarrow> bool" where
  "u256_ok F \<longleftrightarrow>
     (\<forall>a b. u256_mul F a b = a * b) \<and>
     (\<forall>a b c. u256_div F a b = Inr c \<longleftrightarrow> b \<noteq> 0 \<and> c = a div b)"

definition msb_ok :: "ext_lib \<Rightarrow> bool" where
  "msb_ok F \<longleftrightarrow>
     (\<forall>x. x \<noteq> 0 \<longrightarrow> 2 ^ find_msb64 F x \<le> unat x \<and> unat x < 2 ^ (find_msb64 F x + 1))"

definition time_ok :: "ext_lib \<Rightarrow> bool" where
  "time_ok F \<longleftrightarrow>
     (\<forall>t s. t + s < 2 ^ 32 \<longrightarrow> time_add F t s = t + s) \<and>
     (\<forall>a b. time_diff F a b = int a - int b) \<and>
     (\<forall>t x. 0 \<le> int t + x \<and> int t + x < 2 ^ 32 \<longrightarrow> time_shift F t x = nat (int t + x))"

text \<open>The decimal numeral of a natural number.\<close>

fun decimal :: "nat \<Rightarrow> string" where
  "decimal n = (if n < 10 then [char_of (48 + n)] else decimal (n div 10) @ [char_of (48 + n mod 10)])"

declare decimal.simps [simp del]

definition text_ok :: "ext_lib \<Rightarrow> bool" where
  "text_ok F \<longleftrightarrow>
     (\<forall>x. 0 \<le> x \<longrightarrow> fc_to_string F x = decimal (nat x)) \<and>
     (\<forall>n. int n < 2 ^ 63 \<longrightarrow> fc_to_int64 F (decimal n) = Inr (int n)) \<and>
     (\<forall>s. s \<noteq> [] \<and> hd s \<noteq> CHR '' '' \<and> last s \<noteq> CHR '' '' \<longrightarrow> fc_trim F s = s)"

definition rational_ok :: "ext_lib \<Rightarrow> bool" where
  "rational_ok F \<longleftrightarrow>
     (\<forall>n d n' d'. 0 < d \<longrightarrow> 0 < d' \<longrightarrow> rational_le F (n, d) (n', d') = (n * d' \<le> n' * d))"

definition ext_ok :: "ext_lib \<Rightarrow> bool" where
  "ext_ok F \<longleftrightarrow>
     safe_ok F \<and> u128_ok F \<and> u256_ok F \<and> msb_ok F \<and> time_ok F \<and> text_ok F \<and> rational_ok F"

lemma safe_iffs [fc_simps]:
  assumes "ext_ok F"
  shows "safe_add F a b = Inr c \<longleftrightarrow> c = a + b \<and> in_i64 c"
    and "safe_sub F a b = Inr c \<longleftrightarrow> c = a - b \<and> in_i64 c"
    and "safe_mul F a b = Inr c \<longleftrightarrow> c = a * b \<and> in_i64 c"
    and "safe_div F a b = Inr c \<longleftrightarrow> b \<noteq> 0 \<and> c = cdiv a b \<and> in_i64 c"
    and "safe_mod F a b = Inr c \<longleftrightarrow> b \<noteq> 0 \<and> c = a - cdiv a b * b \<and> in_i64 (cdiv a b)"
    and "safe_neg F a = Inr c \<longleftrightarrow> c = - a \<and> in_i64 c"
  using assms by (auto simp: ext_ok_def safe_ok_def)

lemma u128_eqs [fc_simps]:
  assumes "ext_ok F"
  shows "u128_add F x y = x + y"
    and "u128_sub F x y = x - y"
    and "u128_mul F x y = x * y"
    and "u128_and F x y = and x y"
    and "u128_shl F x n = push_bit n x"
    and "u128_shr F x n = drop_bit n x"
    and "u128_div F x y = Inr z \<longleftrightarrow> y \<noteq> 0 \<and> z = x div y"
    and "u128_to_uint64 F x = Inr i \<longleftrightarrow> i = uint x \<and> i < 2 ^ 64"
  using assms by (auto simp: ext_ok_def u128_ok_def)

lemma u256_eqs [fc_simps]:
  assumes "ext_ok F"
  shows "u256_mul F x y = x * y"
    and "u256_div F x y = Inr z \<longleftrightarrow> y \<noteq> 0 \<and> z = x div y"
  using assms by (auto simp: ext_ok_def u256_ok_def)

lemma time_eqs [fc_simps]:
  assumes "ext_ok F"
  shows "t + s < 2 ^ 32 \<Longrightarrow> time_add F t s = t + s"
    and "time_diff F t s = int t - int s"
    and "0 \<le> int t + x \<Longrightarrow> int t + x < 2 ^ 32 \<Longrightarrow> time_shift F t x = nat (int t + x)"
  using assms by (auto simp: ext_ok_def time_ok_def)

lemma text_eqs [fc_simps]:
  assumes "ext_ok F"
  shows "0 \<le> x \<Longrightarrow> fc_to_string F x = decimal (nat x)"
    and "int n < 2 ^ 63 \<Longrightarrow> fc_to_int64 F (decimal n) = Inr (int n)"
    and "s \<noteq> [] \<Longrightarrow> hd s \<noteq> CHR '' '' \<Longrightarrow> last s \<noteq> CHR '' '' \<Longrightarrow> fc_trim F s = s"
  using assms by (auto simp: ext_ok_def text_ok_def)

lemma rational_eqs [fc_simps]:
  "ext_ok F \<Longrightarrow> 0 < d \<Longrightarrow> 0 < d' \<Longrightarrow> rational_le F (n, d) (n', d') = (n * d' \<le> n' * d)"
  by (simp add: ext_ok_def rational_ok_def)

lemma find_msb64_bounds:
  assumes "ext_ok F" and "x \<noteq> 0"
  shows "2 ^ find_msb64 F x \<le> unat x" and "unat x < 2 ^ (find_msb64 F x + 1)"
  using assms by (auto simp: ext_ok_def msb_ok_def)

text \<open>The forward direction: a representable result is returned.\<close>

lemma safe_returns:
  assumes "ext_ok F"
  shows "in_i64 (a + b) \<Longrightarrow> safe_add F a b = Inr (a + b)"
    and "in_i64 (a - b) \<Longrightarrow> safe_sub F a b = Inr (a - b)"
    and "in_i64 (a * b) \<Longrightarrow> safe_mul F a b = Inr (a * b)"
    and "in_i64 (- a) \<Longrightarrow> safe_neg F a = Inr (- a)"
  using assms by (auto simp: safe_iffs)

lemma u128_returns:
  assumes "ext_ok F"
  shows "y \<noteq> 0 \<Longrightarrow> u128_div F x y = Inr (x div y)"
    and "uint x < 2 ^ 64 \<Longrightarrow> u128_to_uint64 F x = Inr (uint x)"
  using assms by (auto simp: u128_eqs)

section \<open>An instance\<close>

definition exact_i64 :: "int \<Rightarrow> int res" where
  "exact_i64 x = (if in_i64 x then Inr x else Inl Overflow_exception)"

definition hex_value :: "char \<Rightarrow> nat res" where
  "hex_value c =
     (let n = (of_char c :: nat)
      in if 48 \<le> n \<and> n \<le> 57 then Inr (n - 48)
         else if 97 \<le> n \<and> n \<le> 102 then Inr (n - 87)
         else if 65 \<le> n \<and> n \<le> 70 then Inr (n - 55)
         else Inl (Assert_exception ''Invalid hex character''))"

fun msb_search :: "nat \<Rightarrow> nat \<Rightarrow> nat" where
  "msb_search 0 n = 0"
| "msb_search (Suc k) n = (if n \<le> 1 then 0 else Suc (msb_search k (n div 2)))"

definition digit_value :: "char \<Rightarrow> int \<Rightarrow> int res" where
  "digit_value c acc =
     (let n = (of_char c :: nat)
      in if 48 \<le> n \<and> n \<le> 57 then Inr (10 * acc + int (n - 48))
         else Inl (Assert_exception ''Couldn't parse int64_t''))"

definition ref_to_int64 :: "string \<Rightarrow> int res" where
  "ref_to_int64 s = bindE (foldE digit_value s 0) exact_i64"

definition ref_trim :: "string \<Rightarrow> string" where
  "ref_trim s = rev (dropWhile (\<lambda>c. c = CHR '' '') (rev (dropWhile (\<lambda>c. c = CHR '' '') s)))"

definition ext_ref :: ext_lib where
  "ext_ref = \<lparr>
     safe_add = (\<lambda>a b. exact_i64 (a + b)),
     safe_sub = (\<lambda>a b. exact_i64 (a - b)),
     safe_mul = (\<lambda>a b. exact_i64 (a * b)),
     safe_div = (\<lambda>a b. if b = 0 then Inl Divide_by_zero else exact_i64 (cdiv a b)),
     safe_mod = (\<lambda>a b. if b = 0 then Inl Divide_by_zero else if in_i64 (cdiv a b) then Inr (a - cdiv a b * b) else Inl Overflow_exception),
     safe_neg = (\<lambda>a. exact_i64 (- a)),
     u128_add = (+), u128_sub = (-), u128_mul = (*),
     u128_div = (\<lambda>a b. if b = 0 then Inl Divide_by_zero else Inr (a div b)),
     u128_shl = (\<lambda>a n. push_bit n a), u128_shr = (\<lambda>a n. drop_bit n a), u128_and = and,
     u128_to_uint64 = (\<lambda>a. if uint a < 2 ^ 64 then Inr (uint a) else Inl Overflow_exception),
     u256_mul = (*),
     u256_div = (\<lambda>a b. if b = 0 then Inl Divide_by_zero else Inr (a div b)),
     find_msb64 = (\<lambda>x. msb_search 64 (unat x)),
     hash_sha256 = (\<lambda>s. s),
     hash_ripemd160 = (\<lambda>bs. map char_of bs),
     from_hex = hex_value,
     time_add = (\<lambda>t s. (t + s) mod 2 ^ 32),
     time_diff = (\<lambda>a b. int a - int b),
     time_shift = (\<lambda>t x. nat ((int t + x) mod 2 ^ 32)),
     fc_to_string = (\<lambda>x. if 0 \<le> x then decimal (nat x) else CHR ''-'' # decimal (nat (- x))),
     fc_to_int64 = ref_to_int64,
     fc_trim = ref_trim,
     is_utf8 = (\<lambda>_. True), json_is_valid = (\<lambda>_. True), ripemd160_of_hex = (\<lambda>_. Inr ()),
     rational_le = (\<lambda>(n, d) (n', d'). n * d' \<le> n' * d) \<rparr>"

lemma msb_search_bounds:
  "0 < n \<Longrightarrow> n < 2 ^ k \<Longrightarrow> 2 ^ msb_search k n \<le> n \<and> n < 2 ^ (msb_search k n + 1)"
proof (induction k arbitrary: n)
  case (Suc k)
  show ?case
  proof (cases "n \<le> 1")
    case True
    with Suc.prems show ?thesis by simp
  next
    case False
    with Suc.prems have "0 < n div 2" "n div 2 < 2 ^ k" by auto
    from Suc.IH [OF this] False show ?thesis by auto
  qed
qed simp

lemma of_char_digit: "d < 10 \<Longrightarrow> (of_char (char_of (48 + d)) :: nat) = 48 + d"
  by simp

lemma foldE_digits: "foldE digit_value (decimal n) 0 = Inr (int n)"
proof (induction n rule: decimal.induct)
  case (1 n)
  show ?case
  proof (cases "n < 10")
    case True
    then show ?thesis
      by (simp add: decimal.simps [of n] digit_value_def of_char_digit Let_def)
  next
    case False
    have d: "n mod 10 < 10" by simp
    have "10 * int (n div 10) + int (n mod 10) = int n" by presburger
    with False "1" show ?thesis
      by (simp add: decimal.simps [of n] foldE_append digit_value_def of_char_digit [OF d] Let_def)
  qed
qed

lemma ref_trim_id:
  assumes "s \<noteq> []" and "hd s \<noteq> CHR '' ''" and "last s \<noteq> CHR '' ''"
  shows "ref_trim s = s"
proof -
  have "dropWhile (\<lambda>c. c = CHR '' '') s = s" using assms(1,2) by (cases s) simp_all
  moreover have "dropWhile (\<lambda>c. c = CHR '' '') (rev s) = rev s"
    using assms(1,3) by (cases "rev s") (auto simp: last_rev [symmetric] hd_rev)
  ultimately show ?thesis by (simp add: ref_trim_def)
qed

lemma ext_ok_ref: "ext_ok ext_ref"
proof -
  have "safe_ok ext_ref"
    by (auto simp: safe_ok_def ext_ref_def exact_i64_def)
  moreover have "u128_ok ext_ref"
    by (auto simp: u128_ok_def ext_ref_def)
  moreover have "u256_ok ext_ref"
    by (auto simp: u256_ok_def ext_ref_def)
  moreover have "msb_ok ext_ref"
  proof -
    have "2 ^ msb_search 64 (unat x) \<le> unat x \<and> unat x < 2 ^ (msb_search 64 (unat x) + 1)"
      if "x \<noteq> 0" for x :: u64
      using that unsigned_less [of x, where 'a = nat]
      by (intro msb_search_bounds) (simp_all add: unat_gt_0)
    then show ?thesis by (simp add: msb_ok_def ext_ref_def)
  qed
  moreover have "time_ok ext_ref"
    by (simp add: time_ok_def ext_ref_def)
  moreover have "text_ok ext_ref"
    by (simp add: text_ok_def ext_ref_def ref_to_int64_def foldE_digits exact_i64_def in_i64_def ref_trim_id)
  moreover have "rational_ok ext_ref"
    by (simp add: rational_ok_def ext_ref_def)
  ultimately show ?thesis by (simp add: ext_ok_def)
qed

lemmas ext_ref_eval = ext_ref_def exact_i64_def in_i64_def hex_value_def

end
