(* ===== verification/Odds_Math.thy ===== *)
theory Odds_Math
  imports Fc_Interface
begin

text \<open>
  Exact rational arithmetic of the betting exchange: \<^verbatim>\<open>utils::fraction\<close>
  (\<^verbatim>\<open>libraries/utils/include/scorum/utils/fraction.hpp\<close>), \<^verbatim>\<open>protocol::odds\<close>
  (\<^verbatim>\<open>libraries/protocol/odds.cpp\<close> and \<^verbatim>\<open>odds.hpp\<close>) and \<^verbatim>\<open>utils::multiply_by_fractional\<close>
  (\<^verbatim>\<open>extra_high_bit_operations.hpp\<close>). The lemmas show that simplification divides by the
  greatest common divisor, that two odds are equal exactly when they denote the same ratio, and
  that the inverted odds are those of the complementary probability.
\<close>

section \<open>utils::fraction\<close>

record fraction =
  numerator :: int
  denominator :: int

definition make_fraction :: "int \<Rightarrow> int \<Rightarrow> fraction res" where
  "make_fraction n d =
     bindE (fc_assert (d \<noteq> 0) ''Division by zero'') (\<lambda>_.
     Inr \<lparr>numerator = n, denominator = d\<rparr>)"

text \<open>The Euclidean loop of \<^verbatim>\<open>simplify\<close>; it returns the last \<^verbatim>\<open>n\<close> and the \<^verbatim>\<open>gcd\<close> found, 0 if none.\<close>

function gcd_loop :: "nat \<Rightarrow> nat \<Rightarrow> nat \<times> nat" where
  "gcd_loop n d =
     (if d = 0 then (n, 0)
      else let n' = n mod d
           in if n' = 0 then (n', d) else gcd_loop n' (d mod n'))"
  by pat_completeness auto
termination
proof (relation "measure (\<lambda>(n, d). d)")
  fix n d n' :: nat
  assume "d \<noteq> 0" "n' = n mod d" "n' \<noteq> 0"
  then have "d mod n' < n'" "n' < d" by auto
  then show "((n', d mod n'), n, d) \<in> measure (\<lambda>(n, d). d)" by auto
qed simp

declare gcd_loop.simps [simp del]

definition fraction_simplify :: "fraction \<Rightarrow> fraction res" where
  "fraction_simplify f =
     (let (n, g) = gcd_loop (nat \<bar>numerator f\<bar>) (nat \<bar>denominator f\<bar>);
          g' = (if g = 0 then n else g)
      in if g' \<noteq> 0 then make_fraction (cdiv (numerator f) (int g')) (cdiv (denominator f) (int g'))
         else Inr f)"

definition fraction_invert :: "fraction \<Rightarrow> fraction res" where
  "fraction_invert f =
     (let d = denominator f; n = numerator f;
          d' = (if d < 0 then - d else d);
          n' = (if d < 0 \<and> n < 0 then - n else n)
      in make_fraction (d' - n') d')"

definition fraction_coup :: "fraction \<Rightarrow> fraction res" where
  "fraction_coup f = make_fraction (denominator f) (numerator f)"

lemma gcd_loop_gcd:
  "(if snd (gcd_loop n d) = 0 then fst (gcd_loop n d) else snd (gcd_loop n d)) = gcd n d"
proof (induction n d rule: gcd_loop.induct)
  case (1 n d)
  show ?case
  proof (cases "d = 0 \<or> n mod d = 0")
    case True
    then show ?thesis
      by (auto simp: gcd_loop.simps [of n d] Let_def gcd_nat.absorb2 dvd_eq_mod_eq_0)
  next
    case False
    have "gcd (n mod d) (d mod (n mod d)) = gcd n d"
      by (metis gcd.commute gcd_red_nat)
    moreover have "gcd_loop n d = gcd_loop (n mod d) (d mod (n mod d))"
      using False by (simp add: gcd_loop.simps [of n d] Let_def)
    ultimately show ?thesis using "1" [OF _ refl] False by (metis (no_types, lifting))
  qed
qed

lemma fraction_simplify_pos:
  assumes "0 < numerator f" and "0 < denominator f"
  shows "fraction_simplify f = Inr
    \<lparr>numerator = numerator f div gcd (numerator f) (denominator f),
     denominator = denominator f div gcd (numerator f) (denominator f)\<rparr>"
proof -
  let ?n = "nat \<bar>numerator f\<bar>" and ?d = "nat \<bar>denominator f\<bar>"
  have g: "int (gcd ?n ?d) = gcd (numerator f) (denominator f)" by (rule gcd_int_def [symmetric])
  have pos: "gcd ?n ?d \<noteq> 0" using assms by simp
  have "fraction_simplify f =
      make_fraction (cdiv (numerator f) (int (gcd ?n ?d))) (cdiv (denominator f) (int (gcd ?n ?d)))"
    unfolding fraction_simplify_def Let_def split_def gcd_loop_gcd using pos by simp
  also have "\<dots> = make_fraction (numerator f div gcd (numerator f) (denominator f))
      (denominator f div gcd (numerator f) (denominator f))"
    using assms unfolding g by (simp add: cdiv_nonneg)
  moreover have "denominator f div gcd (numerator f) (denominator f) \<noteq> 0"
    using assms by (simp add: dvd_div_eq_0_iff)
  ultimately show ?thesis by (simp add: make_fraction_def)
qed

section \<open>utils::multiply\_by\_fractional\<close>

definition multiply_by_fractional :: "ext_lib \<Rightarrow> int \<Rightarrow> int \<Rightarrow> int \<Rightarrow> int res" where
  "multiply_by_fractional F val num den =
     bindE (fc_assert (val \<ge> 0) ''Only unsigned value accepted'') (\<lambda>_.
     bindE (fc_assert (num \<ge> 0) ''Only unsigned numerator accepted'') (\<lambda>_.
     bindE (fc_assert (den > 0) ''Only unsigned and non zero denominator accepted'') (\<lambda>_.
     let extra_hi = u128_mul F (word_of_int val) (word_of_int num) in
     bindE (if den \<noteq> 1 then u128_div F extra_hi (word_of_int den) else Inr extra_hi) (\<lambda>extra_hi.
     bindE (u128_to_uint64 F extra_hi) (\<lambda>r.
     Inr (to_i64 r))))))"

lemma uint_word_of_int_128: "0 \<le> x \<Longrightarrow> x < 2 ^ 128 \<Longrightarrow> uint (word_of_int x :: u128) = x"
  by (simp add: uint_word_of_int mod_pos_pos_trivial)

lemma uint_mult_128:
  assumes "0 \<le> x" "x < 2 ^ 64" "0 \<le> y" "y < 2 ^ 64"
  shows "uint ((word_of_int x :: u128) * word_of_int y) = x * y"
proof -
  have "x * y < 2 ^ 64 * 2 ^ 64"
    using assms by (intro mult_strict_mono) auto
  then have lt: "x * y < 2 ^ 128" by simp
  have "(word_of_int x :: u128) * word_of_int y = word_of_int (x * y)"
    by (rule wi_hom_mult)
  moreover have "uint (word_of_int (x * y) :: u128) = x * y"
    using lt assms by (intro uint_word_of_int_128) simp_all
  ultimately show ?thesis by (simp only:)
qed

text \<open>
  For operands of at most 64 bits the 128 bit intermediate is exact, so the result is the
  truncated quotient; it throws when the quotient needs more than 64 bits.
\<close>

lemma multiply_by_fractional_eq:
  assumes F: "ext_ok F" and b: "0 \<le> val" "val < 2 ^ 64" "0 \<le> num" "num < 2 ^ 64" "0 < den" "den < 2 ^ 64"
  shows "multiply_by_fractional F val num den = Inr r \<longleftrightarrow>
    val * num div den < 2 ^ 64 \<and> r = to_i64 (val * num div den)"
proof -
  have den: "(word_of_int den :: u128) \<noteq> 0" "uint (word_of_int den :: u128) = den"
    using uint_word_of_int_128 [of den] b(5,6) by auto
  have prod: "uint ((word_of_int val :: u128) * word_of_int num) = val * num"
    by (rule uint_mult_128) (use b in auto)
  have quot: "uint (((word_of_int val :: u128) * word_of_int num) div word_of_int den) = val * num div den"
    using prod den(2) by (simp add: uint_div)
  show ?thesis
  proof (cases "den = 1")
    case True
    with F b prod show ?thesis
      by (auto simp: multiply_by_fractional_def fc_simps res_simps Let_def)
  next
    case False
    with F b quot den(1) show ?thesis
      by (auto simp: multiply_by_fractional_def fc_simps res_simps Let_def)
  qed
qed

corollary multiply_by_fractional_exact:
  assumes "ext_ok F" "0 \<le> val" "val < 2 ^ 63" "0 \<le> num" "num < 2 ^ 63" "0 < den" "den < 2 ^ 63"
    and "val * num div den < 2 ^ 63"
  shows "multiply_by_fractional F val num den = Inr (val * num div den)"
proof -
  have "0 \<le> val * num div den" using assms by (simp add: pos_imp_zdiv_nonneg_iff)
  with assms(8) have "to_i64 (val * num div den) = val * num div den"
    by (intro to_i64_id) (simp add: in_i64_def)
  with multiply_by_fractional_eq [of F val num den "val * num div den"] assms show ?thesis by simp
qed

section \<open>protocol::odds\<close>

record odds =
  o_base :: "int \<times> int"
  o_simplified :: "int \<times> int"
  o_inverted :: "int \<times> int"

definition odds_initialize :: "int \<Rightarrow> int \<Rightarrow> odds res" where
  "odds_initialize base_n base_d =
     bindE (fc_assert (base_n > 0) ''Numerator must be positive and non zero'') (\<lambda>_.
     bindE (fc_assert (base_d > 0) ''Denominator must be positive and non zero'') (\<lambda>_.
     bindE (fc_assert (base_n > base_d) ''Numerator must be more then denominator'') (\<lambda>_.
     bindE (make_fraction base_n base_d) (\<lambda>base.
     bindE (fraction_simplify base) (\<lambda>simplified.
     bindE (fraction_coup simplified) (\<lambda>couped.
     bindE (fraction_invert couped) (\<lambda>inverted.
     Inr \<lparr>o_base = (numerator base, denominator base),
          o_simplified = (numerator simplified, denominator simplified),
          o_inverted = (denominator inverted, numerator inverted)\<rparr>)))))))"

text \<open>The constructor from a fraction: the operands are range checked when their type is wider.\<close>

definition odds_of_fraction :: "bool \<Rightarrow> bool \<Rightarrow> fraction \<Rightarrow> odds res" where
  "odds_of_fraction wide_n wide_d base =
     (if wide_n \<and> \<not> in_i32 (numerator base) then Inl Overflow_exception
      else if wide_d \<and> \<not> in_i32 (denominator base) then Inl Overflow_exception
      else odds_initialize (numerator base) (denominator base))"

definition odds_base :: "odds \<Rightarrow> fraction res" where
  "odds_base o1 = make_fraction (fst (o_base o1)) (snd (o_base o1))"

definition odds_simplified :: "odds \<Rightarrow> fraction res" where
  "odds_simplified o1 = make_fraction (fst (o_simplified o1)) (snd (o_simplified o1))"

definition odds_inverted :: "odds \<Rightarrow> fraction res" where
  "odds_inverted o1 = make_fraction (fst (o_inverted o1)) (snd (o_inverted o1))"

definition odds_eq :: "odds \<Rightarrow> odds \<Rightarrow> bool" where
  "odds_eq a b \<longleftrightarrow> o_simplified a = o_simplified b"

definition odds_default :: odds where
  "odds_default = \<lparr>o_base = (0, 0), o_simplified = (0, 0), o_inverted = (0, 0)\<rparr>"

definition odds_valid :: "odds \<Rightarrow> bool" where
  "odds_valid o1 \<longleftrightarrow> o_simplified o1 \<noteq> (0, 0)"

text \<open>What the constructor establishes and every later use relies on.\<close>

definition wf_odds :: "odds \<Rightarrow> bool" where
  "wf_odds o1 \<longleftrightarrow>
     (let (n, d) = o_simplified o1
      in 0 < d \<and> d < n \<and> coprime n d \<and> o_inverted o1 = (n, n - d) \<and>
         fst (o_base o1) * d = snd (o_base o1) * n \<and> 0 < snd (o_base o1))"

lemma odds_initialize_eq:
  assumes "0 < d" "d < n"
  shows "odds_initialize n d = Inr
    \<lparr>o_base = (n, d), o_simplified = (n div gcd n d, d div gcd n d),
     o_inverted = (n div gcd n d, n div gcd n d - d div gcd n d)\<rparr>"
proof -
  have pos: "0 < n div gcd n d" "0 < d div gcd n d"
    using assms by (simp_all add: pos_imp_zdiv_pos_iff zdvd_imp_le)
  with assms show ?thesis
    by (simp add: odds_initialize_def make_fraction_def fraction_simplify_pos fraction_coup_def
        fraction_invert_def Let_def)
qed

lemma odds_initialize_Inr:
  "odds_initialize n d = Inr o1 \<Longrightarrow> 0 < d \<and> d < n"
  by (auto simp: odds_initialize_def res_simps)

lemma wf_odds_initialize:
  assumes "odds_initialize n d = Inr o1"
  shows "wf_odds o1"
proof -
  have nd: "0 < d" "d < n" using odds_initialize_Inr [OF assms] by auto
  let ?g = "gcd n d"
  have g: "0 < ?g" using nd by simp
  have n: "n = n div ?g * ?g" and d: "d = d div ?g * ?g" by simp_all
  have lt: "d div ?g < n div ?g" using nd g n d by (metis mult_less_cancel_right_pos)
  have "0 < d div ?g" using nd g by (simp add: pos_imp_zdiv_pos_iff zdvd_imp_le)
  moreover have "coprime (n div ?g) (d div ?g)" using nd by (intro div_gcd_coprime) auto
  moreover have "n * (d div ?g) = d * (n div ?g)"
    using n d by (metis mult.assoc mult.commute)
  ultimately show ?thesis
    using assms lt nd by (auto simp: wf_odds_def odds_initialize_eq [OF nd])
qed

text \<open>Simplified odds are a normal form: equality of odds is equality of the ratios.\<close>

lemma coprime_ratio_unique:
  fixes a b c d :: int
  assumes "coprime a b" "coprime c d" "0 < b" "0 < d" "a * d = c * b"
  shows "a = c \<and> b = d"
proof -
  have "b dvd d" using assms(1,5) by (metis coprime_commute coprime_dvd_mult_right_iff dvd_triv_right)
  moreover have "d dvd b" using assms(2,5) by (metis coprime_commute coprime_dvd_mult_right_iff dvd_triv_right)
  ultimately have "b = d" using assms(3,4) by (simp add: zdvd_antisym_nonneg)
  with assms show ?thesis by auto
qed

lemma odds_eq_iff_ratio:
  assumes "odds_initialize n d = Inr a" and "odds_initialize n' d' = Inr b"
  shows "odds_eq a b \<longleftrightarrow> n * d' = n' * d"
proof -
  have nd: "0 < d" "d < n" "0 < d'" "d' < n'"
    using odds_initialize_Inr [OF assms(1)] odds_initialize_Inr [OF assms(2)] by auto
  let ?g = "gcd n d" and ?h = "gcd n' d'"
  have g: "n = n div ?g * ?g" "d = d div ?g * ?g" "n' = n' div ?h * ?h" "d' = d' div ?h * ?h" by simp_all
  have a: "o_simplified a = (n div ?g, d div ?g)" "o_simplified b = (n' div ?h, d' div ?h)"
    using assms by (auto simp: odds_initialize_eq [OF nd(1,2)] odds_initialize_eq [OF nd(3,4)])
  show ?thesis
  proof
    assume "odds_eq a b"
    then have e: "n div ?g = n' div ?h" "d div ?g = d' div ?h" using a by (auto simp: odds_eq_def)
    have "n * d' = (n div ?g * ?g) * (d' div ?h * ?h)" by simp
    also have "\<dots> = (n' div ?h * ?g) * (d div ?g * ?h)" unfolding e ..
    also have "\<dots> = (n' div ?h * ?h) * (d div ?g * ?g)" by (simp only: ac_simps)
    also have "\<dots> = n' * d" by simp
    finally show "n * d' = n' * d" .
  next
    assume eq: "n * d' = n' * d"
    have "(n div ?g) * (d' div ?h) * (?g * ?h) = (n div ?g * ?g) * (d' div ?h * ?h)" by (simp only: ac_simps)
    also have "\<dots> = (n' div ?h * ?h) * (d div ?g * ?g)" using eq by simp
    also have "\<dots> = (n' div ?h) * (d div ?g) * (?g * ?h)" by (simp only: ac_simps)
    finally have "(n div ?g) * (d' div ?h) = (n' div ?h) * (d div ?g)" using nd by simp
    moreover have "0 < d div ?g" "0 < d' div ?h"
      using nd by (simp_all add: pos_imp_zdiv_pos_iff zdvd_imp_le)
    moreover have "coprime (n div ?g) (d div ?g)" "coprime (n' div ?h) (d' div ?h)"
      using nd by (auto intro!: div_gcd_coprime)
    ultimately have "n div ?g = n' div ?h \<and> d div ?g = d' div ?h" by (intro coprime_ratio_unique) auto
    then show "odds_eq a b" using a by (simp add: odds_eq_def)
  qed
qed

text \<open>Inverting: the odds of the complementary probability.\<close>

lemma inverted_initialize:
  assumes "wf_odds o1" and "o_simplified o1 = (n, d)"
  shows "odds_initialize n (n - d) = Inr
    \<lparr>o_base = (n, n - d), o_simplified = (n, n - d), o_inverted = (n, d)\<rparr>"
proof -
  have w: "0 < d" "d < n" "coprime n d" using assms by (auto simp: wf_odds_def)
  have "gcd n (n - d) = gcd n d" using gcd_diff1 [of d n] gcd_neg1_int [of "n - d" n]
    by (simp add: gcd.commute)
  then have "gcd n (n - d) = 1" using w(3) by (simp add: coprime_iff_gcd_eq_1)
  with w show ?thesis by (simp add: odds_initialize_eq)
qed

end
