(* ===== verification/Asset_Model.thy ===== *)
theory Asset_Model
  imports Odds_Math
begin

text \<open>
  Amounts of a currency: \<^verbatim>\<open>protocol::asset\<close> (\<^verbatim>\<open>libraries/protocol/include/scorum/protocol/asset.hpp\<close>
  and \<^verbatim>\<open>asset.cpp\<close>). An asset pairs a checked 64 bit amount with a symbol packed into a
  64 bit word; arithmetic and order of assets of different symbols throw.
\<close>

section \<open>Symbols\<close>

definition SCORUM_SYMBOL :: u64 where
  "SCORUM_SYMBOL = or 9 (or (push_bit 8 83) (or (push_bit 16 67) (push_bit 24 82)))"

definition SP_SYMBOL :: u64 where
  "SP_SYMBOL = or 9 (or (push_bit 8 83) (push_bit 16 80))"

lemma symbols_distinct [simp]: "SCORUM_SYMBOL \<noteq> SP_SYMBOL" "SP_SYMBOL \<noteq> SCORUM_SYMBOL"
  by (simp_all add: SCORUM_SYMBOL_def SP_SYMBOL_def)

text \<open>The byte of a symbol at an address offset (the chain runs on little endian machines).\<close>

definition symbol_byte :: "u64 \<Rightarrow> nat \<Rightarrow> nat" where
  "symbol_byte s i = unat (take_bit 8 (drop_bit (8 * i) s))"

section \<open>asset\<close>

record asset =
  amount :: int
  symbol :: u64

definition check_symbol :: "u64 \<Rightarrow> unit res" where
  "check_symbol s = fc_assert (SCORUM_SYMBOL = s \<or> SP_SYMBOL = s) ''Invalid asset symbol received''"

definition mk_asset :: "int \<Rightarrow> u64 \<Rightarrow> asset res" where
  "mk_asset a s = bindE (check_symbol s) (\<lambda>_. Inr \<lparr>amount = a, symbol = s\<rparr>)"

text \<open>Assets written with a literal symbol in the code.\<close>

abbreviation SCR :: "int \<Rightarrow> asset" where
  "SCR a \<equiv> \<lparr>amount = a, symbol = SCORUM_SYMBOL\<rparr>"

abbreviation SP :: "int \<Rightarrow> asset" where
  "SP a \<equiv> \<lparr>amount = a, symbol = SP_SYMBOL\<rparr>"

definition asset_add_amount :: "ext_lib \<Rightarrow> asset \<Rightarrow> int \<Rightarrow> asset res" where
  "asset_add_amount F a x = bindE (safe_add F (amount a) x) (\<lambda>r. Inr (a\<lparr>amount := r\<rparr>))"

definition asset_add :: "ext_lib \<Rightarrow> asset \<Rightarrow> asset \<Rightarrow> asset res" where
  "asset_add F a b =
     bindE (fc_assert (symbol a = symbol b) ''symbol'') (\<lambda>_. asset_add_amount F a (amount b))"

definition asset_sub_amount :: "ext_lib \<Rightarrow> asset \<Rightarrow> int \<Rightarrow> asset res" where
  "asset_sub_amount F a x = bindE (safe_sub F (amount a) x) (\<lambda>r. Inr (a\<lparr>amount := r\<rparr>))"

definition asset_sub :: "ext_lib \<Rightarrow> asset \<Rightarrow> asset \<Rightarrow> asset res" where
  "asset_sub F a b =
     bindE (fc_assert (symbol a = symbol b) ''symbol'') (\<lambda>_. asset_sub_amount F a (amount b))"

definition asset_neg :: "ext_lib \<Rightarrow> asset \<Rightarrow> asset res" where
  "asset_neg F a = bindE (safe_neg F (amount a)) (\<lambda>r. mk_asset r (symbol a))"

definition asset_mul :: "ext_lib \<Rightarrow> asset \<Rightarrow> int \<Rightarrow> asset res" where
  "asset_mul F a x = bindE (safe_mul F (amount a) x) (\<lambda>r. Inr (a\<lparr>amount := r\<rparr>))"

definition asset_div :: "ext_lib \<Rightarrow> asset \<Rightarrow> int \<Rightarrow> asset res" where
  "asset_div F a x = bindE (safe_div F (amount a) x) (\<lambda>r. Inr (a\<lparr>amount := r\<rparr>))"

definition asset_mod :: "ext_lib \<Rightarrow> asset \<Rightarrow> asset \<Rightarrow> asset res" where
  "asset_mod F a b =
     bindE (fc_assert (symbol a = symbol b) ''symbol'') (\<lambda>_.
     bindE (safe_mod F (amount a) (amount b)) (\<lambda>r. Inr (a\<lparr>amount := r\<rparr>)))"

definition asset_mul_fraction :: "ext_lib \<Rightarrow> asset \<Rightarrow> fraction \<Rightarrow> asset res" where
  "asset_mul_fraction F a f =
     bindE (multiply_by_fractional F (amount a) (numerator f) (denominator f)) (\<lambda>r.
     Inr (a\<lparr>amount := r\<rparr>))"

definition asset_mul_odds :: "ext_lib \<Rightarrow> asset \<Rightarrow> odds \<Rightarrow> asset res" where
  "asset_mul_odds F a k = bindE (odds_simplified k) (asset_mul_fraction F a)"

definition asset_lt :: "asset \<Rightarrow> asset \<Rightarrow> bool res" where
  "asset_lt a b =
     bindE (fc_assert (symbol a = symbol b) ''symbol'') (\<lambda>_.
     Inr (amount a < amount b \<or> (amount a = amount b \<and> symbol a < symbol b)))"

definition asset_le :: "asset \<Rightarrow> asset \<Rightarrow> bool res" where
  "asset_le a b = (if a = b then Inr True else asset_lt a b)"

definition asset_gt :: "asset \<Rightarrow> asset \<Rightarrow> bool res" where
  "asset_gt a b = bindE (asset_le a b) (\<lambda>r. Inr (\<not> r))"

definition asset_ge :: "asset \<Rightarrow> asset \<Rightarrow> bool res" where
  "asset_ge a b = bindE (asset_lt a b) (\<lambda>r. Inr (\<not> r))"

text \<open>\<^verbatim>\<open>FC_ASSERT\<close> of a comparison that may itself throw.\<close>

definition assertE :: "bool res \<Rightarrow> string \<Rightarrow> unit res" where
  "assertE m msg = bindE m (\<lambda>b. fc_assert b msg)"

section \<open>When the operations return\<close>

lemma asset_add_iff [fc_simps]:
  "ext_ok F \<Longrightarrow> asset_add F a b = Inr c \<longleftrightarrow>
     symbol a = symbol b \<and> in_i64 (amount a + amount b) \<and> c = a\<lparr>amount := amount a + amount b\<rparr>"
  by (auto simp: asset_add_def asset_add_amount_def res_simps fc_simps)

lemma asset_sub_iff [fc_simps]:
  "ext_ok F \<Longrightarrow> asset_sub F a b = Inr c \<longleftrightarrow>
     symbol a = symbol b \<and> in_i64 (amount a - amount b) \<and> c = a\<lparr>amount := amount a - amount b\<rparr>"
  by (auto simp: asset_sub_def asset_sub_amount_def res_simps fc_simps)

lemma asset_amount_iffs [fc_simps]:
  "ext_ok F \<Longrightarrow> asset_add_amount F a x = Inr c \<longleftrightarrow> in_i64 (amount a + x) \<and> c = a\<lparr>amount := amount a + x\<rparr>"
  "ext_ok F \<Longrightarrow> asset_sub_amount F a x = Inr c \<longleftrightarrow> in_i64 (amount a - x) \<and> c = a\<lparr>amount := amount a - x\<rparr>"
  "ext_ok F \<Longrightarrow> asset_mul F a x = Inr c \<longleftrightarrow> in_i64 (amount a * x) \<and> c = a\<lparr>amount := amount a * x\<rparr>"
  "ext_ok F \<Longrightarrow> asset_div F a x = Inr c \<longleftrightarrow>
     x \<noteq> 0 \<and> in_i64 (cdiv (amount a) x) \<and> c = a\<lparr>amount := cdiv (amount a) x\<rparr>"
  by (auto simp: asset_add_amount_def asset_sub_amount_def asset_mul_def asset_div_def res_simps fc_simps)

lemma asset_mod_iff [fc_simps]:
  "ext_ok F \<Longrightarrow> asset_mod F a b = Inr c \<longleftrightarrow> symbol a = symbol b \<and> amount b \<noteq> 0 \<and> in_i64 (cdiv (amount a) (amount b)) \<and>
     c = a\<lparr>amount := amount a - cdiv (amount a) (amount b) * amount b\<rparr>"
  by (auto simp: asset_mod_def res_simps fc_simps)

lemma asset_neg_iff [fc_simps]:
  "ext_ok F \<Longrightarrow> asset_neg F a = Inr c \<longleftrightarrow>
     (symbol a = SCORUM_SYMBOL \<or> symbol a = SP_SYMBOL) \<and> in_i64 (- amount a) \<and> c = a\<lparr>amount := - amount a\<rparr>"
  by (auto simp: asset_neg_def mk_asset_def check_symbol_def res_simps fc_simps)

lemma asset_eqI: "amount a = amount b \<Longrightarrow> symbol a = symbol b \<Longrightarrow> a = (b :: asset)"
  by (cases a; cases b) simp

lemma asset_order_iffs [res_simps]:
  "asset_lt a b = Inr r \<longleftrightarrow> symbol a = symbol b \<and> r = (amount a < amount b)"
  "asset_ge a b = Inr r \<longleftrightarrow> symbol a = symbol b \<and> r = (amount b \<le> amount a)"
  "asset_le a b = Inr r \<longleftrightarrow> symbol a = symbol b \<and> r = (amount a \<le> amount b)"
  "asset_gt a b = Inr r \<longleftrightarrow> symbol a = symbol b \<and> r = (amount b < amount a)"
  by (auto simp: asset_lt_def asset_ge_def asset_le_def asset_gt_def res_simps intro!: asset_eqI)

lemma asset_order_eqs:
  assumes "symbol a = symbol b"
  shows "asset_lt a b = Inr (amount a < amount b)"
    and "asset_ge a b = Inr (amount b \<le> amount a)"
    and "asset_le a b = Inr (amount a \<le> amount b)"
    and "asset_gt a b = Inr (amount b < amount a)"
  using assms by (simp_all add: asset_order_iffs)

lemma assertE_iff [res_simps]: "assertE m msg = Inr u \<longleftrightarrow> m = Inr True"
  by (auto simp: assertE_def res_simps)

text \<open>A stake times odds is rounded down, and never below the stake.\<close>

lemma asset_mul_odds_eq:
  assumes F: "ext_ok F" and w: "wf_odds k" and k: "o_simplified k = (n, d)"
    and r: "n < 2 ^ 31" and a: "0 \<le> amount a" "amount a * n div d < 2 ^ 63" "amount a < 2 ^ 63"
  shows "asset_mul_odds F a k = Inr (a\<lparr>amount := amount a * n div d\<rparr>)"
    and "amount a \<le> amount a * n div d"
proof -
  have nd: "0 < d" "d < n" using w k by (auto simp: wf_odds_def)
  have "multiply_by_fractional F (amount a) n d = Inr (amount a * n div d)"
    by (rule multiply_by_fractional_exact) (use F a nd r in auto)
  then show "asset_mul_odds F a k = Inr (a\<lparr>amount := amount a * n div d\<rparr>)"
    using nd k by (simp add: asset_mul_odds_def odds_simplified_def make_fraction_def asset_mul_fraction_def)
  have "amount a = amount a * d div d" using nd by simp
  also have "\<dots> \<le> amount a * n div d" using nd a by (intro zdiv_mono1 mult_left_mono) auto
  finally show "amount a \<le> amount a * n div d" .
qed

end
