(* ===== verification/Betting_Market.thy ===== *)
theory Betting_Market
  imports Scorum_Prelude
begin

text \<open>
  Betting markets and wincases: \<^verbatim>\<open>protocol/betting/market.hpp\<close>, \<^verbatim>\<open>wincase.hpp\<close>,
  \<^verbatim>\<open>market.cpp\<close>, \<^verbatim>\<open>invariants_validation.cpp\<close> and the comparison of static variants.
  A market of the code is an instance of one of three class templates over a market kind and a
  tag, a wincase in addition over the side of the market; the datatypes have the template as the
  constructor and the template arguments as its first arguments. The variants
  \<^verbatim>\<open>market_type\<close> and \<^verbatim>\<open>wincase_type\<close> list the instances that exist.

  The lemmas show that a market and its two wincases determine each other, that taking the
  opposite wincase is an involution within the market, and that \<^verbatim>\<open>match_wincases\<close>, which goes
  through the order of the variants, accepts exactly the opposite wincase.
\<close>

section \<open>Data\<close>

datatype market_kind = Result | Round | Handicap | Correct_score | Goal | Total | Total_goals

datatype market_tag = No_tag | Home_tag | Away_tag | Draw_tag | Both_tag

datatype market_type =
    Over_under_market market_kind market_tag int
  | Score_yes_no_market market_kind market_tag nat nat
  | Yes_no_market market_kind market_tag

datatype wincase_type =
    Over_under_wincase bool market_kind market_tag int
  | Score_yes_no_wincase bool market_kind market_tag nat nat
  | Yes_no_wincase bool market_kind market_tag

datatype game_type = Soccer_game | Hockey_game

datatype game_status =
  Gs_created | Gs_started | Gs_finished | Gs_resolved | Gs_expired | Gs_cancelled

datatype shape = Over_under | Score_yes_no | Yes_no

definition SCORUM_BETTING_THRESHOLD_FACTOR :: int where
  "SCORUM_BETTING_THRESHOLD_FACTOR = 1000"

text \<open>The alternatives of the two variants, in their order.\<close>

definition market_alternatives :: "(shape \<times> market_kind \<times> market_tag) list" where
  "market_alternatives =
     [(Yes_no, Result, Home_tag), (Yes_no, Result, Draw_tag), (Yes_no, Result, Away_tag),
      (Yes_no, Round, No_tag), (Over_under, Handicap, No_tag),
      (Yes_no, Correct_score, Home_tag), (Yes_no, Correct_score, Draw_tag),
      (Yes_no, Correct_score, Away_tag), (Score_yes_no, Correct_score, No_tag),
      (Yes_no, Goal, Home_tag), (Yes_no, Goal, Both_tag), (Yes_no, Goal, Away_tag),
      (Over_under, Total, No_tag),
      (Over_under, Total_goals, Home_tag), (Over_under, Total_goals, Away_tag)]"

definition wincase_alternatives :: "(bool \<times> shape \<times> market_kind \<times> market_tag) list" where
  "wincase_alternatives = concat (map (\<lambda>a. [(True, a), (False, a)]) market_alternatives)"

fun market_alternative :: "market_type \<Rightarrow> shape \<times> market_kind \<times> market_tag" where
  "market_alternative (Over_under_market k t _) = (Over_under, k, t)"
| "market_alternative (Score_yes_no_market k t _ _) = (Score_yes_no, k, t)"
| "market_alternative (Yes_no_market k t) = (Yes_no, k, t)"

fun wincase_alternative :: "wincase_type \<Rightarrow> bool \<times> shape \<times> market_kind \<times> market_tag" where
  "wincase_alternative (Over_under_wincase s k t _) = (s, Over_under, k, t)"
| "wincase_alternative (Score_yes_no_wincase s k t _ _) = (s, Score_yes_no, k, t)"
| "wincase_alternative (Yes_no_wincase s k t) = (s, Yes_no, k, t)"

definition is_market :: "market_type \<Rightarrow> bool" where
  "is_market m \<longleftrightarrow> market_alternative m \<in> set market_alternatives"

definition is_wincase :: "wincase_type \<Rightarrow> bool" where
  "is_wincase w \<longleftrightarrow> wincase_alternative w \<in> set wincase_alternatives"

section \<open>Order of static variants\<close>

definition which :: "'a list \<Rightarrow> 'a \<Rightarrow> nat" where
  "which alternatives a = length (takeWhile (\<lambda>x. x \<noteq> a) alternatives)"

fun market_impl_less :: "market_type \<Rightarrow> market_type \<Rightarrow> bool" where
  "market_impl_less (Over_under_market _ _ x) (Over_under_market _ _ y) = (x < y)"
| "market_impl_less (Score_yes_no_market _ _ h a) (Score_yes_no_market _ _ h' a') =
     (h < h' \<or> h = h' \<and> a < a')"
| "market_impl_less _ _ = False"

fun wincase_impl_less :: "wincase_type \<Rightarrow> wincase_type \<Rightarrow> bool" where
  "wincase_impl_less (Over_under_wincase _ _ _ x) (Over_under_wincase _ _ _ y) = (x < y)"
| "wincase_impl_less (Score_yes_no_wincase _ _ _ h a) (Score_yes_no_wincase _ _ _ h' a') =
     (h < h' \<or> h = h' \<and> a < a')"
| "wincase_impl_less _ _ = False"

definition variant_less :: "('a \<Rightarrow> nat) \<Rightarrow> ('a \<Rightarrow> 'a \<Rightarrow> bool) \<Rightarrow> 'a \<Rightarrow> 'a \<Rightarrow> bool" where
  "variant_less w lt lhs rhs \<longleftrightarrow> w lhs < w rhs \<or> (\<not> w rhs < w lhs \<and> lt lhs rhs)"

definition variant_eq :: "('a \<Rightarrow> nat) \<Rightarrow> ('a \<Rightarrow> 'a \<Rightarrow> bool) \<Rightarrow> 'a \<Rightarrow> 'a \<Rightarrow> bool" where
  "variant_eq w lt lhs rhs \<longleftrightarrow> \<not> variant_less w lt lhs rhs \<and> \<not> variant_less w lt rhs lhs"

definition market_less :: "market_type \<Rightarrow> market_type \<Rightarrow> bool" where
  "market_less = variant_less (\<lambda>m. which market_alternatives (market_alternative m)) market_impl_less"

definition market_equal :: "market_type \<Rightarrow> market_type \<Rightarrow> bool" where
  "market_equal = variant_eq (\<lambda>m. which market_alternatives (market_alternative m)) market_impl_less"

definition wincase_less :: "wincase_type \<Rightarrow> wincase_type \<Rightarrow> bool" where
  "wincase_less = variant_less (\<lambda>w. which wincase_alternatives (wincase_alternative w)) wincase_impl_less"

definition wincase_equal :: "wincase_type \<Rightarrow> wincase_type \<Rightarrow> bool" where
  "wincase_equal = variant_eq (\<lambda>w. which wincase_alternatives (wincase_alternative w)) wincase_impl_less"

section \<open>Operations on markets\<close>

fun create_wincases :: "market_type \<Rightarrow> wincase_type \<times> wincase_type" where
  "create_wincases (Over_under_market k t x) = (Over_under_wincase True k t x, Over_under_wincase False k t x)"
| "create_wincases (Score_yes_no_market k t h a) =
     (Score_yes_no_wincase True k t h a, Score_yes_no_wincase False k t h a)"
| "create_wincases (Yes_no_market k t) = (Yes_no_wincase True k t, Yes_no_wincase False k t)"

fun create_market :: "wincase_type \<Rightarrow> market_type" where
  "create_market (Over_under_wincase s k t x) = Over_under_market k t x"
| "create_market (Score_yes_no_wincase s k t h a) = Score_yes_no_market k t h a"
| "create_market (Yes_no_wincase s k t) = Yes_no_market k t"

fun create_opposite :: "wincase_type \<Rightarrow> wincase_type" where
  "create_opposite (Over_under_wincase s k t x) = Over_under_wincase (\<not> s) k t x"
| "create_opposite (Score_yes_no_wincase s k t h a) = Score_yes_no_wincase (\<not> s) k t h a"
| "create_opposite (Yes_no_wincase s k t) = Yes_no_wincase (\<not> s) k t"

fun has_trd_state :: "market_type \<Rightarrow> bool" where
  "has_trd_state (Over_under_market _ _ x) = (cmod x SCORUM_BETTING_THRESHOLD_FACTOR = 0)"
| "has_trd_state (Score_yes_no_market _ _ _ _) = False"
| "has_trd_state (Yes_no_market _ _) = False"

definition match_wincases :: "wincase_type \<Rightarrow> wincase_type \<Rightarrow> bool" where
  "match_wincases lhs rhs =
     (let lhs_opposite = create_opposite lhs
      in \<not> wincase_less lhs_opposite rhs \<and> \<not> wincase_less rhs lhs_opposite)"

fun get_market_kind :: "wincase_type \<Rightarrow> market_kind" where
  "get_market_kind (Over_under_wincase _ k _ _) = k"
| "get_market_kind (Score_yes_no_wincase _ k _ _ _) = k"
| "get_market_kind (Yes_no_wincase _ k _) = k"

fun market_kind_v :: "market_type \<Rightarrow> market_kind" where
  "market_kind_v (Over_under_market k _ _) = k"
| "market_kind_v (Score_yes_no_market k _ _ _) = k"
| "market_kind_v (Yes_no_market k _) = k"

definition is_belong_markets :: "wincase_type \<Rightarrow> market_type list \<Rightarrow> bool" where
  "is_belong_markets w markets = list_ex (market_equal (create_market w)) markets"

section \<open>Validation\<close>

definition game_markets :: "game_type \<Rightarrow> market_kind list" where
  "game_markets g =
     (case g of
        Soccer_game \<Rightarrow> [Result, Round, Handicap, Correct_score, Goal, Total, Total_goals]
      | Hockey_game \<Rightarrow> [Result, Goal])"

definition validate_game :: "game_type \<Rightarrow> market_type list \<Rightarrow> unit res" where
  "validate_game g markets =
     (let diff = filter (\<lambda>k. k \<notin> set (game_markets g)) (remdups (map market_kind_v markets))
      in fc_assert (diff = []) ''Markets cannot be used with specified game'')"

definition check_threshold :: "int \<Rightarrow> bool" where
  "check_threshold x \<longleftrightarrow> cmod x (cdiv SCORUM_BETTING_THRESHOLD_FACTOR 2) = 0"

definition check_positive_threshold :: "int \<Rightarrow> bool" where
  "check_positive_threshold x \<longleftrightarrow> check_threshold x \<and> x > 0"

fun wincase_valid :: "wincase_type \<Rightarrow> bool option" where
  "wincase_valid (Over_under_wincase _ Total No_tag x) = Some (check_positive_threshold x)"
| "wincase_valid (Over_under_wincase _ Handicap No_tag x) = Some (check_threshold x)"
| "wincase_valid (Over_under_wincase _ Total_goals Home_tag x) = Some (check_positive_threshold x)"
| "wincase_valid (Over_under_wincase _ Total_goals Away_tag x) = Some (check_positive_threshold x)"
| "wincase_valid _ = None"

definition validate_wincase :: "wincase_type \<Rightarrow> unit res" where
  "validate_wincase w =
     fc_assert (case wincase_valid w of None \<Rightarrow> True | Some b \<Rightarrow> b) ''Wincase is invalid''"

definition validate_wincases :: "wincase_type list \<Rightarrow> unit res" where
  "validate_wincases ws = foldE (\<lambda>w _. validate_wincase w) ws ()"

definition validate_market :: "market_type \<Rightarrow> unit res" where
  "validate_market m =
     (let wincase_pair = create_wincases m
      in bindE (validate_wincase (fst wincase_pair)) (\<lambda>_. validate_wincase (snd wincase_pair)))"

definition validate_markets :: "market_type list \<Rightarrow> unit res" where
  "validate_markets ms = foldE (\<lambda>m _. validate_market m) ms ()"

definition validate_if_wincase_in_game :: "game_type \<Rightarrow> wincase_type \<Rightarrow> unit res" where
  "validate_if_wincase_in_game g w =
     fc_assert (get_market_kind w \<in> set (game_markets g)) ''Invalid wincase''"

definition validate_bet_ids :: "int list \<Rightarrow> unit res" where
  "validate_bet_ids ids =
     bindE (fc_assert (ids \<noteq> []) ''bet_ids'') (\<lambda>_.
     foldE (\<lambda>i _. fc_assert (i \<ge> 0) ''Invalid bet Id'') ids ())"

section \<open>Lemmas\<close>

lemma create_opposite_opposite [simp]: "create_opposite (create_opposite w) = w"
  by (cases w) simp_all

lemma create_opposite_neq [simp]: "create_opposite w \<noteq> w"
  by (cases w) simp_all

lemma create_market_opposite [simp]: "create_market (create_opposite w) = create_market w"
  by (cases w) simp_all

lemma create_wincases_opposite: "create_opposite (fst (create_wincases m)) = snd (create_wincases m)"
  by (cases m) simp_all

lemma create_market_wincases [simp]:
  "create_market (fst (create_wincases m)) = m"
  "create_market (snd (create_wincases m)) = m"
  by (cases m; simp)+

text \<open>The two wincases of a market are the only wincases with that market.\<close>

lemma create_market_eq_iff:
  "create_market w = m \<longleftrightarrow> w = fst (create_wincases m) \<or> w = snd (create_wincases m)"
  by (cases w; cases m) auto

lemma wincase_alternative_opposite:
  "wincase_alternative (create_opposite w) = (\<not> fst (wincase_alternative w), snd (wincase_alternative w))"
  by (cases w) simp_all

lemma is_wincase_iff: "is_wincase w \<longleftrightarrow> is_market (create_market w)"
proof -
  have "market_alternative (create_market w) = snd (wincase_alternative w)" by (cases w) simp_all
  then show ?thesis
    by (cases "wincase_alternative w")
      (auto simp: is_wincase_def is_market_def wincase_alternatives_def)
qed

lemma is_wincase_opposite [simp]: "is_wincase (create_opposite w) \<longleftrightarrow> is_wincase w"
  by (simp add: is_wincase_iff)

text \<open>Positions in a list of alternatives identify its members.\<close>

lemma which_less: "a \<in> set xs \<Longrightarrow> which xs a < length xs \<and> xs ! which xs a = a"
proof (induction xs)
  case (Cons x xs)
  then show ?case by (cases "x = a") (auto simp: which_def)
qed simp

lemma which_eq_iff:
  assumes "a \<in> set xs" and "b \<in> set xs"
  shows "which xs a = which xs b \<longleftrightarrow> a = b"
  using assms which_less by metis

text \<open>For instances of the variants, neither-less is equality.\<close>

lemma wincase_equal_iff:
  assumes "is_wincase v" and "is_wincase w"
  shows "wincase_equal v w \<longleftrightarrow> v = w"
proof
  assume eq: "wincase_equal v w"
  then have alt: "wincase_alternative v = wincase_alternative w"
    using assms which_eq_iff [of "wincase_alternative v" wincase_alternatives "wincase_alternative w"]
    by (auto simp: wincase_equal_def variant_eq_def variant_less_def is_wincase_def)
  then show "v = w"
    using eq by (cases v; cases w) (auto simp: wincase_equal_def variant_eq_def variant_less_def)
next
  assume "v = w"
  then show "wincase_equal v w"
    by (cases v) (auto simp: wincase_equal_def variant_eq_def variant_less_def)
qed

lemma market_equal_iff:
  assumes "is_market v" and "is_market w"
  shows "market_equal v w \<longleftrightarrow> v = w"
proof
  assume eq: "market_equal v w"
  then have alt: "market_alternative v = market_alternative w"
    using assms which_eq_iff [of "market_alternative v" market_alternatives "market_alternative w"]
    by (auto simp: market_equal_def variant_eq_def variant_less_def is_market_def)
  then show "v = w"
    using eq by (cases v; cases w) (auto simp: market_equal_def variant_eq_def variant_less_def)
next
  assume "v = w"
  then show "market_equal v w"
    by (cases v) (auto simp: market_equal_def variant_eq_def variant_less_def)
qed

lemma match_wincases_equal: "match_wincases v w \<longleftrightarrow> wincase_equal (create_opposite v) w"
  by (simp add: match_wincases_def wincase_equal_def wincase_less_def variant_eq_def Let_def)

lemma is_belong_markets_iff:
  assumes "is_wincase w" and "\<forall>m \<in> set ms. is_market m"
  shows "is_belong_markets w ms \<longleftrightarrow> create_market w \<in> set ms"
  using assms market_equal_iff by (auto simp: is_belong_markets_def list_ex_iff is_wincase_iff)

lemma wincase_valid_opposite [simp]: "wincase_valid (create_opposite w) = wincase_valid w"
  by (cases w rule: wincase_valid.cases) simp_all

lemma validate_market_iff:
  "validate_market (create_market w) = Inr () \<longleftrightarrow> validate_wincase w = Inr ()"
proof -
  have "wincase_valid (snd (create_wincases m)) = wincase_valid (fst (create_wincases m))" for m
    using create_wincases_opposite [of m] wincase_valid_opposite by metis
  moreover have "wincase_valid w = wincase_valid (fst (create_wincases (create_market w)))"
    using create_market_eq_iff [of w "create_market w"] calculation by metis
  ultimately show ?thesis
    by (simp add: validate_market_def validate_wincase_def Let_def res_simps)
qed

section \<open>Properties\<close>

text \<open>
  Two bets are matched by wincase exactly when the second wincase is the opposite of the
  first; the relation is symmetric, both sides belong to the same market, and no wincase is
  matched with itself.
\<close>

lemma match_wincases_correct:
  assumes "is_wincase v" and "is_wincase w"
  shows "(match_wincases v w \<longleftrightarrow> w = create_opposite v)
    \<and> (match_wincases v w \<longleftrightarrow> match_wincases w v)
    \<and> (match_wincases v w \<longrightarrow> create_market v = create_market w \<and> v \<noteq> w)"
proof -
  have "match_wincases v w \<longleftrightarrow> create_opposite v = w" "match_wincases w v \<longleftrightarrow> create_opposite w = v"
    using assms by (simp_all add: match_wincases_equal wincase_equal_iff)
  moreover have "create_opposite v = w \<longleftrightarrow> create_opposite w = v" by auto
  ultimately show ?thesis by auto
qed

lemma match_wincases_correct_witness:
  "match_wincases (Over_under_wincase True Handicap No_tag 500) (Over_under_wincase False Handicap No_tag 500)
   \<and> \<not> match_wincases (Over_under_wincase True Handicap No_tag 500) (Over_under_wincase False Handicap No_tag 1000)"
  using match_wincases_correct [of "Over_under_wincase True Handicap No_tag 500" "Over_under_wincase False Handicap No_tag 500"]
    match_wincases_correct [of "Over_under_wincase True Handicap No_tag 500" "Over_under_wincase False Handicap No_tag 1000"]
  by (simp add: is_wincase_def wincase_alternatives_def market_alternatives_def)

end
