(* ===== verification/Chain_Config.thy ===== *)
theory Chain_Config
  imports Fc_Interface
begin

text \<open>
  The configuration of the chain: the run-time parameters of \<^verbatim>\<open>protocol/config.cpp\<close> (production
  and test values) and the constants of \<^verbatim>\<open>protocol/config.hpp\<close> the modelled code uses. Periods
  are in seconds, dates in seconds since the epoch; \<open>from_iso\<close> stands for
  \<^verbatim>\<open>fc::time_point_sec::from_iso_string\<close>.
\<close>

record config =
  blockid_pool_size :: nat
  vesting_withdraw_intervals :: nat
  vesting_withdraw_interval_seconds :: nat
  cashout_window_seconds :: nat
  upvote_lockout :: nat
  active_sp_holders_reward_period :: nat
  advertising_cashout_period_sec :: nat
  reverse_auction_window_seconds :: nat
  vote_regeneration_seconds :: nat
  owner_auth_recovery_period :: nat
  account_recovery_request_expiration_period :: nat
  owner_update_limit :: nat
  recent_rshares_decay_rate :: nat
  rewards_initial_supply_period_in_days :: nat
  guaranted_reward_supply_period_in_days :: nat
  reward_increase_threshold_in_days :: nat
  budgets_limit_per_owner :: nat
  atomicswap_initiator_refund_lock_secs :: nat
  atomicswap_participant_refund_lock_secs :: nat
  atomicswap_limit_requested_contracts_per_owner :: nat
  atomicswap_limit_requested_contracts_per_recipient :: nat
  min_vote_interval_sec :: nat
  db_free_memory_threshold_mb :: nat
  initial_date :: nat
  blogging_start_date :: nat
  fifa_world_cup_2018_bounty_cashout_date :: nat
  expiraton_for_registration_bonus :: nat
  witness_reward_migration_date :: nat
  scorum_max_witnesses :: nat
  scorum_max_voted_witnesses :: nat
  scorum_hardfork_required_witnesses :: nat

definition days_to_seconds :: "nat \<Rightarrow> nat" where
  "days_to_seconds x = 60 * 60 * 24 * x"

definition SCORUM_MAX_WITNESSES_LIMIT :: nat where
  "SCORUM_MAX_WITNESSES_LIMIT = 21"

text \<open>The checks both constructors end with.\<close>

definition check_witness_limits :: "config \<Rightarrow> config res" where
  "check_witness_limits c =
     bindE (fc_assert (scorum_max_witnesses c \<le> SCORUM_MAX_WITNESSES_LIMIT) ''scorum_max_witnesses'') (\<lambda>_.
     bindE (fc_assert (scorum_max_witnesses c > scorum_max_voted_witnesses c) ''No place for runner'') (\<lambda>_.
     bindE (fc_assert (scorum_max_witnesses c > scorum_hardfork_required_witnesses c)
              ''Invalid amount for hardfork required witnesses'') (\<lambda>_.
     Inr c)))"

definition config_production :: "ext_lib \<Rightarrow> (string \<Rightarrow> nat) \<Rightarrow> config res" where
  "config_production F from_iso =
     (let c = \<lparr>
        blockid_pool_size = 0xffff,
        vesting_withdraw_intervals = 52,
        vesting_withdraw_interval_seconds = days_to_seconds 7,
        cashout_window_seconds = days_to_seconds 7,
        upvote_lockout = 12 * 3600,
        active_sp_holders_reward_period = days_to_seconds 7,
        advertising_cashout_period_sec = days_to_seconds 7,
        reverse_auction_window_seconds = 30 * 60,
        vote_regeneration_seconds = days_to_seconds 5,
        owner_auth_recovery_period = days_to_seconds 30,
        account_recovery_request_expiration_period = days_to_seconds 1,
        owner_update_limit = 60 * 60,
        recent_rshares_decay_rate = days_to_seconds 15,
        rewards_initial_supply_period_in_days = 2 * 365,
        guaranted_reward_supply_period_in_days = 30,
        reward_increase_threshold_in_days = 100,
        budgets_limit_per_owner = 100,
        atomicswap_initiator_refund_lock_secs = 48 * 3600,
        atomicswap_participant_refund_lock_secs = 24 * 3600,
        atomicswap_limit_requested_contracts_per_owner = 1000,
        atomicswap_limit_requested_contracts_per_recipient = 10,
        min_vote_interval_sec = 3,
        db_free_memory_threshold_mb = 100,
        initial_date = 0,
        blogging_start_date = from_iso ''2018-06-12T09:00:00'',
        fifa_world_cup_2018_bounty_cashout_date = from_iso ''2018-08-08T12:00:00'',
        expiraton_for_registration_bonus = days_to_seconds 182,
        witness_reward_migration_date = from_iso ''2018-07-12T00:00:00'',
        scorum_max_witnesses = 21,
        scorum_max_voted_witnesses = 20,
        scorum_hardfork_required_witnesses = 17 \<rparr>
      in bindE (fc_assert (time_add F (blogging_start_date c) (cashout_window_seconds c)
                   < fifa_world_cup_2018_bounty_cashout_date c) ''fifa_world_cup_2018_bounty_cashout_date'') (\<lambda>_.
         check_witness_limits c))"

definition config_test :: "ext_lib \<Rightarrow> (string \<Rightarrow> nat) \<Rightarrow> config res" where
  "config_test F from_iso =
     (let cashout = 3600;
          initial = from_iso ''2018-04-01T00:00:00'';
          blogging = time_add F initial (cashout * 10);
          c = \<lparr>
        blockid_pool_size = 0xfff,
        vesting_withdraw_intervals = 13,
        vesting_withdraw_interval_seconds = 60 * 7,
        cashout_window_seconds = cashout,
        upvote_lockout = 5 * 60,
        active_sp_holders_reward_period = 15 * 60,
        advertising_cashout_period_sec = 15,
        reverse_auction_window_seconds = 30,
        vote_regeneration_seconds = 10 * 60,
        owner_auth_recovery_period = 60,
        account_recovery_request_expiration_period = 12,
        owner_update_limit = 0,
        recent_rshares_decay_rate = 3600,
        rewards_initial_supply_period_in_days = 5,
        guaranted_reward_supply_period_in_days = 2,
        reward_increase_threshold_in_days = 3,
        budgets_limit_per_owner = 8,
        atomicswap_initiator_refund_lock_secs = 60 * 20,
        atomicswap_participant_refund_lock_secs = 60 * 10,
        atomicswap_limit_requested_contracts_per_owner = 5,
        atomicswap_limit_requested_contracts_per_recipient = 2,
        min_vote_interval_sec = 0,
        db_free_memory_threshold_mb = 1,
        initial_date = initial,
        blogging_start_date = blogging,
        fifa_world_cup_2018_bounty_cashout_date = time_add F blogging (cashout * 22),
        expiraton_for_registration_bonus = 30 * 60,
        witness_reward_migration_date = time_add F initial (cashout * 10),
        scorum_max_witnesses = 3,
        scorum_max_voted_witnesses = 2,
        scorum_hardfork_required_witnesses = 2 \<rparr>
      in check_witness_limits c)"

section \<open>Constants\<close>

definition SCORUM_MAX_SHARE_SUPPLY :: int where
  "SCORUM_MAX_SHARE_SUPPLY = 100000000 * 10 ^ 9"

definition SCORUM_CREATE_ACCOUNT_WITH_SCORUM_MODIFIER :: int where
  "SCORUM_CREATE_ACCOUNT_WITH_SCORUM_MODIFIER = 30"

definition SCORUM_MIN_DELEGATE_VESTING_SHARES_MODIFIER :: int where
  "SCORUM_MIN_DELEGATE_VESTING_SHARES_MODIFIER = 10"

definition SCORUM_MAX_PROXY_RECURSION_DEPTH :: nat where
  "SCORUM_MAX_PROXY_RECURSION_DEPTH = 4"

definition SCORUM_MAX_ACCOUNT_WITNESS_VOTES :: nat where
  "SCORUM_MAX_ACCOUNT_WITNESS_VOTES = 30"

definition SCORUM_100_PERCENT :: int where
  "SCORUM_100_PERCENT = 10000"

definition SCORUM_1_PERCENT :: int where
  "SCORUM_1_PERCENT = 100"

definition SCORUM_CREATE_ACCOUNT_DELEGATION_RATIO :: int where
  "SCORUM_CREATE_ACCOUNT_DELEGATION_RATIO = 5"

definition SCORUM_CREATE_ACCOUNT_DELEGATION_TIME :: nat where
  "SCORUM_CREATE_ACCOUNT_DELEGATION_TIME = days_to_seconds 30"

definition SCORUM_MIN_ACCOUNT_NAME_LENGTH :: nat where
  "SCORUM_MIN_ACCOUNT_NAME_LENGTH = 3"

definition SCORUM_MAX_ACCOUNT_NAME_LENGTH :: nat where
  "SCORUM_MAX_ACCOUNT_NAME_LENGTH = 16"

definition SCORUM_MAX_MEMO_SIZE :: nat where
  "SCORUM_MAX_MEMO_SIZE = 2048"

definition SCORUM_MAX_WITNESS_URL_LENGTH :: nat where
  "SCORUM_MAX_WITNESS_URL_LENGTH = 2048"

definition SCORUM_MAX_VOTE_CHANGES :: nat where
  "SCORUM_MAX_VOTE_CHANGES = 3"

text \<open>The empty account name: a vote of one's own, and the parent of a root post.\<close>

definition SCORUM_PROXY_TO_SELF_ACCOUNT :: string where
  "SCORUM_PROXY_TO_SELF_ACCOUNT = []"

definition SCORUM_ROOT_POST_PARENT_ACCOUNT :: string where
  "SCORUM_ROOT_POST_PARENT_ACCOUNT = []"

text \<open>\<^verbatim>\<open>fc::time_point_sec::maximum()\<close>.\<close>

definition time_maximum :: nat where
  "time_maximum = 2 ^ 32 - 1"

text \<open>The curves a reward fund can use.\<close>

datatype curve_id = Quadratic | Linear | Square_root | Power1dot5

end
