(* ===== verification/Chain_Schema.thy ===== *)
theory Chain_Schema
  imports Asset_Model Betting_Market Chain_Config Chainbase_Index
begin

text \<open>
  The objects of the chain state (\<^verbatim>\<open>libraries/chain/include/scorum/chain/schema\<close>) and the
  database that holds them. Every class of the schema is a record with the fields of the class;
  the id of an object is the key of its row, so it is not a field again. A table is a
  \<open>base_index\<close>; the objects that exist once are plain fields, the ones that may be
  absent are options. References to objects are ids, and a reference is read anew after each
  change, as a C++ reference is.
\<close>

type_synonym account_name = string
type_synonym public_key = string
type_synonym uuid = string

section \<open>Authorities\<close>

record authority =
  weight_threshold :: nat
  account_auths :: "(account_name \<times> nat) list"
  key_auths :: "(public_key \<times> nat) list"

definition is_impossible :: "authority \<Rightarrow> bool" where
  "is_impossible a \<longleftrightarrow>
     (sum_list (map snd (account_auths a)) + sum_list (map snd (key_auths a))) mod 2 ^ 64 < weight_threshold a"

definition null_key :: public_key where
  "null_key = []"

definition null_authority :: authority where
  "null_authority = \<lparr>weight_threshold = 0, account_auths = [], key_auths = []\<rparr>"

section \<open>Accounts\<close>

record account_object =
  a_name :: account_name
  a_memo_key :: public_key
  a_json_metadata :: string
  a_proxy :: account_name
  a_last_account_update :: nat
  a_created :: nat
  a_created_by_genesis :: bool
  a_owner_challenged :: bool
  a_active_challenged :: bool
  a_last_owner_proved :: nat
  a_last_active_proved :: nat
  a_recovery_account :: account_name
  a_last_account_recovery :: nat
  a_can_vote :: bool
  a_voting_power :: nat
  a_last_vote_time :: nat
  a_voting_power_restoring_time :: nat
  a_vote_reward_competitive_sp :: asset
  a_balance :: asset
  a_burned_scr :: asset
  a_scorumpower :: asset
  a_delegated_scorumpower :: asset
  a_received_scorumpower :: asset
  a_nft_spend_scorumpower :: asset
  a_proxied_vsf_votes :: "int list"
  a_witnesses_voted_for :: nat
  a_last_post :: nat
  a_last_root_post :: nat
  a_active_sp_holders_cashout_time :: nat
  a_pending_scr_reward :: asset
  a_pending_sp_reward :: asset

definition new_account_object :: account_object where
  "new_account_object = \<lparr>
     a_name = [], a_memo_key = null_key, a_json_metadata = [], a_proxy = [],
     a_last_account_update = 0, a_created = 0, a_created_by_genesis = False,
     a_owner_challenged = False, a_active_challenged = False,
     a_last_owner_proved = 0, a_last_active_proved = 0,
     a_recovery_account = [], a_last_account_recovery = 0, a_can_vote = True,
     a_voting_power = 10000, a_last_vote_time = 0, a_voting_power_restoring_time = 0,
     a_vote_reward_competitive_sp = SP 0, a_balance = SCR 0, a_burned_scr = SCR 0,
     a_scorumpower = SP 0, a_delegated_scorumpower = SP 0, a_received_scorumpower = SP 0,
     a_nft_spend_scorumpower = SP 0,
     a_proxied_vsf_votes = replicate SCORUM_MAX_PROXY_RECURSION_DEPTH 0,
     a_witnesses_voted_for = 0, a_last_post = 0, a_last_root_post = 0,
     a_active_sp_holders_cashout_time = time_maximum,
     a_pending_scr_reward = SCR 0, a_pending_sp_reward = SP 0 \<rparr>"

definition account_clash :: "account_object \<Rightarrow> account_object \<Rightarrow> bool" where
  "account_clash a b \<longleftrightarrow> a_name a = a_name b"

definition witness_vote_weight :: "ext_lib \<Rightarrow> account_object \<Rightarrow> int res" where
  "witness_vote_weight F a = foldE (\<lambda>x acc. safe_add F acc x) (a_proxied_vsf_votes a) (amount (a_scorumpower a))"

definition effective_scorumpower :: "ext_lib \<Rightarrow> account_object \<Rightarrow> asset res" where
  "effective_scorumpower F a =
     bindE (asset_sub F (a_scorumpower a) (a_delegated_scorumpower a)) (\<lambda>x.
     asset_add F x (a_received_scorumpower a))"

record account_authority_object =
  auth_account :: account_name
  auth_owner :: authority
  auth_active :: authority
  auth_posting :: authority
  auth_last_owner_update :: nat

record scorumpower_delegation_object =
  d_delegator :: account_name
  d_delegatee :: account_name
  d_scorumpower :: asset
  d_min_delegation_time :: nat

definition delegation_clash ::
  "scorumpower_delegation_object \<Rightarrow> scorumpower_delegation_object \<Rightarrow> bool"
where
  "delegation_clash a b \<longleftrightarrow> d_delegator a = d_delegator b \<and> d_delegatee a = d_delegatee b"

record scorumpower_delegation_expiration_object =
  x_delegator :: account_name
  x_scorumpower :: asset
  x_expiration :: nat

record owner_authority_history_object =
  h_account :: account_name
  h_previous_owner_authority :: authority
  h_last_valid_time :: nat

record account_recovery_request_object =
  r_account_to_recover :: account_name
  r_new_owner_authority :: authority
  r_expires :: nat

record change_recovery_account_request_object =
  c_account_to_recover :: account_name
  c_recovery_account :: account_name
  c_effective_on :: nat

record decline_voting_rights_request_object =
  dv_account :: nat
  dv_effective_date :: nat

definition decline_clash ::
  "decline_voting_rights_request_object \<Rightarrow> decline_voting_rights_request_object \<Rightarrow> bool"
where
  "decline_clash a b \<longleftrightarrow> dv_account a = dv_account b"

datatype withdrawable_id = Account_id nat | Dev_committee_id nat

record withdraw_scorumpower_object =
  v_from_id :: withdrawable_id
  v_vesting_withdraw_rate :: asset
  v_next_vesting_withdrawal :: nat
  v_withdrawn :: asset
  v_to_withdraw :: asset

definition withdraw_clash :: "withdraw_scorumpower_object \<Rightarrow> withdraw_scorumpower_object \<Rightarrow> bool" where
  "withdraw_clash a b \<longleftrightarrow> v_from_id a = v_from_id b"

record withdraw_scorumpower_route_object =
  wr_from_id :: withdrawable_id
  wr_to_id :: withdrawable_id
  wr_percent :: nat
  wr_auto_vest :: bool

definition route_clash :: "withdraw_scorumpower_route_object \<Rightarrow> withdraw_scorumpower_route_object \<Rightarrow> bool" where
  "route_clash a b \<longleftrightarrow> wr_from_id a = wr_from_id b \<and> wr_to_id a = wr_to_id b"

record withdraw_scorumpower_route_statistic_object =
  ws_from_id :: withdrawable_id
  ws_withdraw_routes :: nat

definition route_statistic_clash ::
  "withdraw_scorumpower_route_statistic_object \<Rightarrow> withdraw_scorumpower_route_statistic_object \<Rightarrow> bool"
where
  "route_statistic_clash a b \<longleftrightarrow> ws_from_id a = ws_from_id b"

section \<open>Witnesses\<close>

record chain_properties =
  account_creation_fee :: asset
  maximum_block_size :: nat

datatype witness_schedule_type = Top20 | Timeshare | Schedule_none

record witness_object =
  w_owner :: account_name
  w_created :: nat
  w_url :: string
  w_total_missed :: nat
  w_last_confirmed_block_num :: nat
  w_signing_key :: public_key
  w_proposed_chain_props :: chain_properties
  w_votes :: int
  w_schedule :: witness_schedule_type
  w_virtual_last_update :: u128
  w_virtual_position :: u128
  w_virtual_scheduled_time :: u128
  w_running_version :: nat
  w_hardfork_version_vote :: nat
  w_hardfork_time_vote :: nat

definition witness_clash :: "witness_object \<Rightarrow> witness_object \<Rightarrow> bool" where
  "witness_clash a b \<longleftrightarrow> w_owner a = w_owner b"

record witness_vote_object =
  wv_witness :: nat
  wv_account :: nat

definition witness_vote_clash :: "witness_vote_object \<Rightarrow> witness_vote_object \<Rightarrow> bool" where
  "witness_vote_clash a b \<longleftrightarrow> wv_witness a = wv_witness b \<and> wv_account a = wv_account b"

section \<open>Contracts\<close>

record escrow_object =
  e_escrow_id :: nat
  e_from :: account_name
  e_to :: account_name
  e_agent :: account_name
  e_ratification_deadline :: nat
  e_escrow_expiration :: nat
  e_scorum_balance :: asset
  e_pending_fee :: asset
  e_to_approved :: bool
  e_agent_approved :: bool
  e_disputed :: bool

definition escrow_clash :: "escrow_object \<Rightarrow> escrow_object \<Rightarrow> bool" where
  "escrow_clash a b \<longleftrightarrow> e_from a = e_from b \<and> e_escrow_id a = e_escrow_id b"

datatype atomicswap_contract_type = Contract_initiator | Contract_participant

record atomicswap_contract_object =
  s_type :: atomicswap_contract_type
  s_owner :: account_name
  s_to :: account_name
  s_amount :: asset
  s_metadata :: string
  s_secret_hash :: string
  s_secret :: string
  s_contract_hash :: string
  s_created :: nat
  s_deadline :: nat

definition contract_clash :: "atomicswap_contract_object \<Rightarrow> atomicswap_contract_object \<Rightarrow> bool" where
  "contract_clash a b \<longleftrightarrow> s_contract_hash a = s_contract_hash b"

section \<open>Bets\<close>

datatype pending_bet_kind = Live | Non_live

record bet_data =
  b_uuid :: uuid
  b_created :: nat
  b_better :: account_name
  b_wincase :: wincase_type
  b_stake :: asset
  b_odds :: odds
  b_kind :: pending_bet_kind

record pending_bet_object =
  p_game_uuid :: uuid
  p_market :: market_type
  p_data :: bet_data

definition pending_bet_clash :: "pending_bet_object \<Rightarrow> pending_bet_object \<Rightarrow> bool" where
  "pending_bet_clash a b \<longleftrightarrow> b_uuid (p_data a) = b_uuid (p_data b)"

record matched_bet_object =
  m_game_uuid :: uuid
  m_market :: market_type
  m_created :: nat
  m_bet1_data :: bet_data
  m_bet2_data :: bet_data

record game_object =
  g_uuid :: uuid
  g_json_metadata :: string
  g_start_time :: nat
  g_original_start_time :: nat
  g_last_update :: nat
  g_bets_resolve_time :: nat
  g_auto_resolve_time :: nat
  g_status :: game_status
  g_game :: game_type
  g_markets :: "market_type list"
  g_results :: "wincase_type list"

definition game_clash :: "game_object \<Rightarrow> game_object \<Rightarrow> bool" where
  "game_clash a b \<longleftrightarrow> g_uuid a = g_uuid b"

record betting_property_object =
  bp_moderator :: account_name
  bp_resolve_delay_sec :: nat

section \<open>Comments\<close>

text \<open>The weights of votes are unsigned 64 bit numbers; shares are checked like amounts.\<close>

record comment_object =
  co_category :: string
  co_parent_author :: account_name
  co_parent_permlink :: string
  co_author :: account_name
  co_permlink :: string
  co_title :: string
  co_body :: string
  co_json_metadata :: string
  co_last_update :: nat
  co_created :: nat
  co_active :: nat
  co_last_payout :: nat
  co_depth :: nat
  co_children :: nat
  co_net_rshares :: int
  co_abs_rshares :: int
  co_vote_rshares :: int
  co_children_abs_rshares :: int
  co_cashout_time :: nat
  co_total_vote_weight :: u64
  co_net_votes :: int
  co_root_comment :: nat
  co_max_accepted_payout :: asset
  co_allow_replies :: bool
  co_allow_votes :: bool
  co_allow_curation_rewards :: bool
  co_beneficiaries :: "(account_name \<times> nat) list"
  co_rewarded :: bool

definition comment_clash :: "comment_object \<Rightarrow> comment_object \<Rightarrow> bool" where
  "comment_clash a b \<longleftrightarrow> co_author a = co_author b \<and> co_permlink a = co_permlink b"

record comment_vote_object =
  cv_voter :: nat
  cv_comment :: nat
  cv_weight :: u64
  cv_rshares :: int
  cv_vote_percent :: int
  cv_last_update :: nat
  cv_num_changes :: int

definition comment_vote_clash :: "comment_vote_object \<Rightarrow> comment_vote_object \<Rightarrow> bool" where
  "comment_vote_clash a b \<longleftrightarrow> cv_comment a = cv_comment b \<and> cv_voter a = cv_voter b"

record comment_statistic_object =
  cs_comment :: nat
  cs_total_payout_value :: asset
  cs_author_payout_value :: asset
  cs_curator_payout_value :: asset
  cs_beneficiary_payout_value :: asset
  cs_fund_reward_value :: asset
  cs_from_children_payout_value :: asset
  cs_to_parent_payout_value :: asset

definition comment_statistic_clash :: "comment_statistic_object \<Rightarrow> comment_statistic_object \<Rightarrow> bool" where
  "comment_statistic_clash a b \<longleftrightarrow> cs_comment a = cs_comment b"

record account_blogging_statistic_object =
  bl_account :: nat
  bl_post_count :: nat
  bl_comment_count :: nat
  bl_vote_count :: nat
  bl_curation_rewards_scr :: asset
  bl_curation_rewards_sp :: asset
  bl_posting_rewards_scr :: asset
  bl_posting_rewards_sp :: asset

definition blogging_statistic_clash :: "account_blogging_statistic_object \<Rightarrow> account_blogging_statistic_object \<Rightarrow> bool" where
  "blogging_statistic_clash a b \<longleftrightarrow> bl_account a = bl_account b"

section \<open>Pools\<close>

record reward_fund_object =
  f_activity_reward_balance :: asset
  f_recent_claims :: u128
  f_last_update :: nat
  f_author_reward_curve :: curve_id
  f_curation_reward_curve :: curve_id

record reward_balancer_object =
  rb_balance :: asset
  rb_current_per_block_reward :: asset

record adv_budget_object =
  ab_uuid :: uuid
  ab_owner :: account_name
  ab_json_metadata :: string
  ab_created :: nat
  ab_start :: nat
  ab_deadline :: nat
  ab_balance :: asset
  ab_per_block :: asset
  ab_cashout_time :: nat
  ab_owner_pending_income :: asset
  ab_budget_pending_outgo :: asset

definition budget_clash :: "adv_budget_object \<Rightarrow> adv_budget_object \<Rightarrow> bool" where
  "budget_clash a b \<longleftrightarrow> ab_uuid a = ab_uuid b"

record advertising_property_object =
  adv_moderator :: account_name
  auction_post_coefficients :: "int list"
  auction_banner_coefficients :: "int list"

record budget_type_stat =
  bs_volume :: asset
  bs_budget_pending_outgo :: asset
  bs_owner_pending_income :: asset

record fund_budget_object =
  fb_created :: nat
  fb_start :: nat
  fb_deadline :: nat
  fb_balance :: asset
  fb_per_block :: asset

record registration_pool_object =
  rp_balance :: asset
  rp_delegated :: asset
  rp_maximum_bonus :: asset
  rp_already_allocated_count :: nat
  rp_schedule_items :: "(nat \<times> nat) list"
  rp_invite_quorum :: nat
  rp_dropout_quorum :: nat
  rp_change_quorum :: nat

record registration_committee_member_object =
  rm_account :: account_name
  rm_already_allocated_cash :: asset
  rm_last_allocated_block :: nat
  rm_per_n_block_remain :: nat

definition registration_member_clash :: "registration_committee_member_object \<Rightarrow> registration_committee_member_object \<Rightarrow> bool" where
  "registration_member_clash a b \<longleftrightarrow> rm_account a = rm_account b"

record account_registration_bonus_object =
  arb_account :: account_name
  arb_bonus :: asset
  arb_expires :: nat

definition registration_bonus_clash :: "account_registration_bonus_object \<Rightarrow> account_registration_bonus_object \<Rightarrow> bool" where
  "registration_bonus_clash a b \<longleftrightarrow> arb_account a = arb_account b"

record reg_pool_sp_delegation_object =
  rpd_delegatee :: account_name
  rpd_sp :: asset

definition reg_pool_delegation_clash :: "reg_pool_sp_delegation_object \<Rightarrow> reg_pool_sp_delegation_object \<Rightarrow> bool" where
  "reg_pool_delegation_clash a b \<longleftrightarrow> rpd_delegatee a = rpd_delegatee b"

record dev_committee_object =
  dc_sp_balance :: asset
  dc_scr_balance :: asset
  dc_transfer_quorum :: nat
  dc_invite_quorum :: nat
  dc_dropout_quorum :: nat
  dc_change_quorum :: nat
  dc_budgets_auction_properties_quorum :: nat
  dc_advertising_moderator_quorum :: nat
  dc_betting_moderator_quorum :: nat
  dc_betting_resolve_delay_quorum :: nat

text \<open>A member of the development committee is its name, the unique key of the table.\<close>

definition dev_member_clash :: "account_name \<Rightarrow> account_name \<Rightarrow> bool" where
  "dev_member_clash a b \<longleftrightarrow> a = b"

datatype quorum_type = None_quorum | Add_member_quorum | Exclude_member_quorum | Base_quorum | Transfer_quorum |
  Advertising_moderator_quorum | Budgets_auction_properties_quorum | Betting_moderator_quorum | Betting_resolve_delay_quorum

datatype proposal_operation =
    Registration_committee_add_member account_name
  | Registration_committee_exclude_member account_name
  | Registration_committee_change_quorum nat quorum_type
  | Development_committee_add_member account_name
  | Development_committee_exclude_member account_name
  | Development_committee_change_quorum nat quorum_type
  | Development_committee_withdraw_vesting asset
  | Development_committee_transfer account_name asset
  | Development_committee_empower_advertising_moderator account_name
  | Development_committee_change_post_budgets_auction_properties "int list"
  | Development_committee_change_banner_budgets_auction_properties "int list"
  | Development_committee_empower_betting_moderator account_name
  | Development_committee_change_betting_resolve_delay nat

record proposal_object =
  po_creator :: account_name
  po_operation :: proposal_operation
  po_created :: nat
  po_expiration :: nat
  po_quorum_percent :: nat
  po_voted_accounts :: "account_name list"

record dynamic_global_property_object =
  dgp_head_block_number :: nat
  dgp_time :: nat
  dgp_current_witness :: account_name
  dgp_total_supply :: asset
  dgp_circulating_capital :: asset
  dgp_total_scorumpower :: asset
  dgp_total_witness_reward_scr :: asset
  dgp_total_witness_reward_sp :: asset
  dgp_total_pending_scr :: asset
  dgp_total_pending_sp :: asset
  dgp_total_burned_scr :: asset
  dgp_median_chain_props :: chain_properties
  dgp_current_aslot :: nat
  dgp_recent_slots_filled :: u128
  dgp_participation_count :: nat
  dgp_last_irreversible_block_num :: nat
  dgp_majority_version :: nat
  dgp_banner_budgets :: budget_type_stat
  dgp_post_budgets :: budget_type_stat
  dgp_pending_bets_volume :: asset
  dgp_matched_bets_volume :: asset

section \<open>The database\<close>

record database =
  accounts :: "account_object base_index"
  authorities :: "account_authority_object base_index"
  owner_histories :: "owner_authority_history_object base_index"
  recovery_requests :: "account_recovery_request_object base_index"
  change_recovery_requests :: "change_recovery_account_request_object base_index"
  decline_requests :: "decline_voting_rights_request_object base_index"
  delegations :: "scorumpower_delegation_object base_index"
  delegation_expirations :: "scorumpower_delegation_expiration_object base_index"
  withdraws :: "withdraw_scorumpower_object base_index"
  withdraw_routes :: "withdraw_scorumpower_route_object base_index"
  withdraw_route_statistics :: "withdraw_scorumpower_route_statistic_object base_index"
  witnesses :: "witness_object base_index"
  witness_votes :: "witness_vote_object base_index"
  current_virtual_time :: u128
  current_shuffled_witnesses :: "account_name list"
  num_scheduled_witnesses :: nat
  genesis_time :: nat
  escrows :: "escrow_object base_index"
  contracts :: "atomicswap_contract_object base_index"
  games :: "game_object base_index"
  pending_bets :: "pending_bet_object base_index"
  matched_bets :: "matched_bet_object base_index"
  bet_uuid_history :: "uuid base_index"
  game_uuid_history :: "uuid base_index"
  betting_property :: betting_property_object
  fund_scr :: reward_fund_object
  fund_sp :: reward_fund_object
  fund_fifa :: "reward_fund_object option"
  content_reward_scr :: reward_balancer_object
  voters_reward_scr :: reward_balancer_object
  voters_reward_sp :: reward_balancer_object
  post_budgets :: "adv_budget_object base_index"
  banner_budgets :: "adv_budget_object base_index"
  advertising_property :: advertising_property_object
  fund_budget :: "fund_budget_object option"
  registration_pool :: "registration_pool_object option"
  dev_pool :: dev_committee_object
  witness_reward_migration :: "int option"
  registration_committee :: "registration_committee_member_object base_index"
  registration_bonuses :: "account_registration_bonus_object base_index"
  reg_pool_delegations :: "reg_pool_sp_delegation_object base_index"
  dev_committee :: "account_name base_index"
  proposals :: "proposal_object base_index"
  lock_withdraw_sp_until :: nat
  comments :: "comment_object base_index"
  comment_votes :: "comment_vote_object base_index"
  comment_statistics_scr :: "comment_statistic_object base_index"
  comment_statistics_sp :: "comment_statistic_object base_index"
  blogging_statistics :: "account_blogging_statistic_object base_index"
  dgp :: dynamic_global_property_object
  last_hardfork :: nat
  current_hardfork_version :: nat
  next_hardfork :: nat
  next_hardfork_time :: nat

definition head_block_time :: "database \<Rightarrow> nat" where
  "head_block_time db = dgp_time (dgp db)"

section \<open>Access by key\<close>

text \<open>
  \<^verbatim>\<open>find\<close> by an index returns the first object with the key, \<^verbatim>\<open>get\<close> throws when there is none.
\<close>

definition ix_find_by :: "('v \<Rightarrow> bool) \<Rightarrow> 'v base_index \<Rightarrow> nat option" where
  "ix_find_by P ix = map_option fst (List.find (\<lambda>r. P (snd r)) (indices ix))"

definition ix_get_by :: "('v \<Rightarrow> bool) \<Rightarrow> 'v base_index \<Rightarrow> nat res" where
  "ix_get_by P ix = (case ix_find_by P ix of None \<Rightarrow> Inl Out_of_range | Some k \<Rightarrow> Inr k)"

text \<open>The ids of the objects that satisfy a predicate, in the order of the ids.\<close>

definition ix_ids_by :: "('v \<Rightarrow> bool) \<Rightarrow> 'v base_index \<Rightarrow> nat list" where
  "ix_ids_by P ix = map fst (filter (\<lambda>r. P (snd r)) (indices ix))"

lemma ix_find_by_Some:
  assumes "ix_find_by P ix = Some k" and "sorted_rows (indices ix)"
  shows "\<exists>v. map_of (indices ix) k = Some v \<and> P v"
proof -
  obtain r where r: "List.find (\<lambda>r. P (snd r)) (indices ix) = Some r" "fst r = k"
    using assms(1) by (auto simp: ix_find_by_def)
  then have "r \<in> set (indices ix)" "P (snd r)" by (auto simp: find_Some_iff)
  moreover have "distinct (map fst (indices ix))" using assms(2) by (rule sorted_rows_distinct)
  ultimately show ?thesis using r(2) by (cases r) auto
qed

lemma ix_find_by_None: "ix_find_by P ix = None \<longleftrightarrow> (\<forall>r \<in> set (indices ix). \<not> P (snd r))"
  by (auto simp: ix_find_by_def find_None_iff)

lemma ix_get_by_iff [res_simps]: "ix_get_by P ix = Inr k \<longleftrightarrow> ix_find_by P ix = Some k"
  by (auto simp: ix_get_by_def split: option.splits)

lemma ix_get_iff [res_simps]: "ix_get ix k = Inr v \<longleftrightarrow> map_of (indices ix) k = Some v"
  by (auto simp: ix_get_def ix_find_def split: option.splits)

end
