(* ===== verification/Operations.thy ===== *)
theory Operations
  imports Chain_Schema "HOL-Library.List_Lexorder" "HOL-Library.Char_ord"
begin

text \<open>
  The operations of the protocol and their stateless validation: \<^verbatim>\<open>protocol/authority.cpp\<close>,
  \<^verbatim>\<open>base.hpp\<close>, \<^verbatim>\<open>atomicswap_helper.cpp\<close>, \<^verbatim>\<open>chain_properties.hpp\<close> and
  \<^verbatim>\<open>scorum_operations.cpp\<close>. The arguments of a \<open>_validate\<close> function are the members of the
  operation struct it belongs to. The account name checker, a loop over indices, is shown to
  accept exactly the grammar its header comment gives.
\<close>

section \<open>Account names\<close>

definition is_lower :: "char \<Rightarrow> bool" where
  "is_lower c \<longleftrightarrow> (let n = (of_char c :: nat) in 97 \<le> n \<and> n \<le> 122)"

definition is_digit :: "char \<Rightarrow> bool" where
  "is_digit c \<longleftrightarrow> (let n = (of_char c :: nat) in 48 \<le> n \<and> n \<le> 57)"

text \<open>\<^verbatim>\<open>find_first_of('.', begin)\<close>, with the length of the name for "not found".\<close>

definition find_dot :: "string \<Rightarrow> nat \<Rightarrow> nat" where
  "find_dot name b = b + length (takeWhile (\<lambda>c. c \<noteq> CHR ''.'') (drop b name))"

function valid_labels_from :: "string \<Rightarrow> nat \<Rightarrow> bool" where
  "valid_labels_from name b =
     (let len = length name; e = find_dot name b
      in if e - b < 3 then False
         else if \<not> is_lower (name ! b) then False
         else if \<not> is_lower (name ! (e - 1)) \<and> \<not> is_digit (name ! (e - 1)) then False
         else if \<not> list_all (\<lambda>i. is_lower (name ! i) \<or> is_digit (name ! i) \<or> name ! i = CHR ''-'') [b + 1..<e - 1]
              then False
         else if e = len then True
         else valid_labels_from name (e + 1))"
  by pat_completeness auto
termination
proof (relation "measure (\<lambda>(name, b). Suc (length name) - b)")
  fix name :: string and b len e
  assume "len = length name" and e: "e = find_dot name b" and "\<not> e - b < 3" and "e \<noteq> len"
  have "length (takeWhile (\<lambda>c. c \<noteq> CHR ''.'') (drop b name)) \<le> length name - b"
    by (rule order_trans [OF length_takeWhile_le]) simp
  then have "b < Suc (length name)" using \<open>\<not> e - b < 3\<close> by (auto simp: e find_dot_def)
  then show "((name, e + 1), name, b) \<in> measure (\<lambda>(name, b). Suc (length name) - b)"
    by (auto simp: e find_dot_def)
qed simp

declare valid_labels_from.simps [simp del]

definition is_valid_account_name :: "string \<Rightarrow> bool" where
  "is_valid_account_name name =
     (let len = length name
      in if len < SCORUM_MIN_ACCOUNT_NAME_LENGTH then False
         else if len > SCORUM_MAX_ACCOUNT_NAME_LENGTH then False
         else valid_labels_from name 0)"

subsection \<open>The grammar\<close>

text \<open>A name is a sequence of labels separated by dots.\<close>

fun labels :: "string \<Rightarrow> string list" where
  "labels [] = [[]]"
| "labels (c # cs) =
     (if c = CHR ''.'' then [] # labels cs
      else case labels cs of [] \<Rightarrow> [[c]] | l # ls \<Rightarrow> (c # l) # ls)"

definition let_dig :: "char \<Rightarrow> bool" where
  "let_dig c \<longleftrightarrow> is_lower c \<or> is_digit c"

text \<open>A label: a letter, one or more of letters, digits and hyphens, and a letter or digit.\<close>

definition valid_label :: "string \<Rightarrow> bool" where
  "valid_label l \<longleftrightarrow> (\<exists>first mid final. l = first # mid @ [final] \<and> mid \<noteq> [] \<and>
     is_lower first \<and> (\<forall>c \<in> set mid. let_dig c \<or> c = CHR ''-'') \<and> let_dig final)"

lemma labels_unfold:
  "labels s = (let l = takeWhile (\<lambda>c. c \<noteq> CHR ''.'') s
     in if length l = length s then [l] else l # labels (drop (Suc (length l)) s))"
proof (induction s)
  case (Cons c cs)
  show ?case
  proof (cases "c = CHR ''.''")
    case False
    with Cons show ?thesis by (auto simp: Let_def split: if_splits)
  qed simp
qed simp

lemma valid_label_iff:
  "valid_label l \<longleftrightarrow> 3 \<le> length l \<and> is_lower (l ! 0) \<and> let_dig (l ! (length l - 1)) \<and>
     (\<forall>i. 1 \<le> i \<and> i < length l - 1 \<longrightarrow> let_dig (l ! i) \<or> l ! i = CHR ''-'')"
proof
  assume "valid_label l"
  then obtain f m e where l: "l = f # m @ [e]" "m \<noteq> []" "is_lower f" "\<forall>c \<in> set m. let_dig c \<or> c = CHR ''-''" "let_dig e"
    by (auto simp: valid_label_def)
  have "let_dig (l ! i) \<or> l ! i = CHR ''-''" if "1 \<le> i" "i < length l - 1" for i
  proof -
    have "l ! i = m ! (i - 1)" "i - 1 < length m" using that l(1) by (auto simp: nth_append nth_Cons')
    then show ?thesis using l(4) by auto
  qed
  with l show "3 \<le> length l \<and> is_lower (l ! 0) \<and> let_dig (l ! (length l - 1)) \<and>
     (\<forall>i. 1 \<le> i \<and> i < length l - 1 \<longrightarrow> let_dig (l ! i) \<or> l ! i = CHR ''-'')"
    by (cases m) (auto simp: nth_append)
next
  assume A: "3 \<le> length l \<and> is_lower (l ! 0) \<and> let_dig (l ! (length l - 1)) \<and>
     (\<forall>i. 1 \<le> i \<and> i < length l - 1 \<longrightarrow> let_dig (l ! i) \<or> l ! i = CHR ''-'')"
  then obtain f t where f: "l = f # t" "t \<noteq> []" by (cases l; cases "tl l") auto
  then obtain m e where t: "t = m @ [e]" by (metis append_butlast_last_id)
  have l: "l = f # m @ [e]" using f t by simp
  then have m: "m \<noteq> []" "l ! (length l - 1) = e" "l ! 0 = f" using A by (auto simp: nth_append)
  have "let_dig c \<or> c = CHR ''-''" if "c \<in> set m" for c
  proof -
    from that obtain j where "j < length m" "c = m ! j" by (auto simp: in_set_conv_nth)
    then have "l ! (j + 1) = c" "1 \<le> j + 1" "j + 1 < length l - 1" by (auto simp: l nth_append)
    then show ?thesis using A by metis
  qed
  with A l m show "valid_label l" unfolding valid_label_def by metis
qed

lemma valid_labels_from_iff:
  "b \<le> length name \<Longrightarrow> valid_labels_from name b \<longleftrightarrow> (\<forall>l \<in> set (labels (drop b name)). valid_label l)"
proof (induction name b rule: valid_labels_from.induct)
  case (1 name b)
  let ?s = "drop b name" and ?l = "takeWhile (\<lambda>c. c \<noteq> CHR ''.'') (drop b name)" and ?e = "find_dot name b"
  have len: "length ?l \<le> length name - b" by (rule order_trans [OF length_takeWhile_le]) simp
  have nth: "name ! (b + i) = ?l ! i" if "i < length ?l" for i
    using that "1.prems" by (simp add: takeWhile_nth)
  have lab: "?e - b < 3 \<or> \<not> is_lower (name ! b) \<or> (\<not> is_lower (name ! (?e - 1)) \<and> \<not> is_digit (name ! (?e - 1))) \<or>
      \<not> list_all (\<lambda>i. is_lower (name ! i) \<or> is_digit (name ! i) \<or> name ! i = CHR ''-'') [b + 1..<?e - 1]
      \<longleftrightarrow> \<not> valid_label ?l"
  proof (cases "length ?l < 3")
    case True
    then show ?thesis by (simp add: find_dot_def valid_label_iff)
  next
    case False
    have "0 < length ?l" using False by linarith
    then have "name ! b = ?l ! 0" using nth [of 0] by simp
    moreover have "name ! (?e - 1) = ?l ! (length ?l - 1)"
      using nth [of "length ?l - 1"] False by (simp add: find_dot_def)
    moreover have "list_all (\<lambda>i. is_lower (name ! i) \<or> is_digit (name ! i) \<or> name ! i = CHR ''-'') [b + 1..<?e - 1]
      \<longleftrightarrow> (\<forall>i. 1 \<le> i \<and> i < length ?l - 1 \<longrightarrow> let_dig (?l ! i) \<or> ?l ! i = CHR ''-'')"
    proof -
      have "(\<forall>i. 1 \<le> i \<and> i < length ?l - 1 \<longrightarrow> let_dig (?l ! i) \<or> ?l ! i = CHR ''-'')
          \<longleftrightarrow> (\<forall>j \<in> set [b + 1..<?e - 1]. let_dig (name ! j) \<or> name ! j = CHR ''-'')"
      proof (intro iffI ballI allI impI)
        fix j assume H: "\<forall>i. 1 \<le> i \<and> i < length ?l - 1 \<longrightarrow> let_dig (?l ! i) \<or> ?l ! i = CHR ''-''"
          and "j \<in> set [b + 1..<?e - 1]"
        then have "1 \<le> j - b" "j - b < length ?l - 1" "name ! j = ?l ! (j - b)"
          using nth [of "j - b"] by (auto simp: find_dot_def)
        with H show "let_dig (name ! j) \<or> name ! j = CHR ''-''" by simp
      next
        fix i assume H: "\<forall>j \<in> set [b + 1..<?e - 1]. let_dig (name ! j) \<or> name ! j = CHR ''-''"
          and "1 \<le> i \<and> i < length ?l - 1"
        then have "b + i \<in> set [b + 1..<?e - 1]" "name ! (b + i) = ?l ! i"
          using nth [of i] by (auto simp: find_dot_def)
        with H show "let_dig (?l ! i) \<or> ?l ! i = CHR ''-''" by metis
      qed
      then show ?thesis by (simp add: list_all_iff let_dig_def disj_assoc)
    qed
    ultimately show ?thesis using False by (auto simp: find_dot_def valid_label_iff let_dig_def)
  qed
  have unf: "labels ?s = (if ?e = length name then [?l] else ?l # labels (drop (?e + 1) name))"
    using "1.prems" len by (subst labels_unfold) (auto simp: Let_def find_dot_def add.commute)
  show ?case
  proof (cases "valid_label ?l \<and> ?e \<noteq> length name")
    case True
    moreover have "?e + 1 \<le> length name" using True len "1.prems" unfolding find_dot_def by linarith
    moreover have "valid_labels_from name b = valid_labels_from name (?e + 1)"
      using True lab by (subst valid_labels_from.simps) (auto simp: Let_def)
    ultimately show ?thesis using "1.IH" [OF refl refl] lab unf by auto
  next
    case False
    then show ?thesis
      using lab unf by (subst valid_labels_from.simps) (auto simp: Let_def)
  qed
qed

section \<open>Shared checks\<close>

definition validate_account_name :: "string \<Rightarrow> unit res" where
  "validate_account_name name = fc_assert (is_valid_account_name name) ''Account name is invalid''"

definition SCORUM_MAX_PERMLINK_LENGTH :: nat where
  "SCORUM_MAX_PERMLINK_LENGTH = 256"

definition validate_permlink :: "ext_lib \<Rightarrow> string \<Rightarrow> unit res" where
  "validate_permlink F permlink =
     bindE (fc_assert (length permlink < SCORUM_MAX_PERMLINK_LENGTH) ''permlink is too long'') (\<lambda>_.
     fc_assert (is_utf8 F permlink) ''permlink not formatted in UTF8'')"

definition validate_json_metadata :: "ext_lib \<Rightarrow> string \<Rightarrow> unit res" where
  "validate_json_metadata F json =
     (if json \<noteq> [] then
        bindE (fc_assert (is_utf8 F json) ''JSON Metadata not formatted in UTF8'') (\<lambda>_.
        fc_assert (json_is_valid F json) ''JSON Metadata not valid JSON'')
      else Inr ())"

definition authority_validate :: "authority \<Rightarrow> unit res" where
  "authority_validate a =
     foldE (\<lambda>item _. fc_assert (is_valid_account_name (fst item)) ''is_valid_account_name'') (account_auths a) ()"

definition authority_validate_opt :: "authority option \<Rightarrow> unit res" where
  "authority_validate_opt a = (case a of None \<Rightarrow> Inr () | Some x \<Rightarrow> authority_validate x)"

definition is_asset_type :: "asset \<Rightarrow> u64 \<Rightarrow> bool" where
  "is_asset_type a s \<longleftrightarrow> symbol a = s"

definition SCORUM_MIN_ACCOUNT_CREATION_FEE :: asset where
  "SCORUM_MIN_ACCOUNT_CREATION_FEE = SCR 25"

definition SCORUM_MIN_BLOCK_SIZE_LIMIT :: nat where
  "SCORUM_MIN_BLOCK_SIZE_LIMIT = 1024 * 64"

definition chain_properties_validate :: "chain_properties \<Rightarrow> unit res" where
  "chain_properties_validate p =
     bindE (assertE (asset_ge (account_creation_fee p) SCORUM_MIN_ACCOUNT_CREATION_FEE) ''account_creation_fee'') (\<lambda>_.
     fc_assert (maximum_block_size p \<ge> SCORUM_MIN_BLOCK_SIZE_LIMIT) ''maximum_block_size'')"

text \<open>Building a \<^verbatim>\<open>flat_set\<close>: an ordered list without equivalent elements.\<close>

fun flat_insert :: "('a \<Rightarrow> 'a \<Rightarrow> bool) \<Rightarrow> 'a \<Rightarrow> 'a list \<Rightarrow> 'a list" where
  "flat_insert lt x [] = [x]"
| "flat_insert lt x (y # ys) =
     (if lt y x then y # flat_insert lt x ys
      else if lt x y then x # y # ys
      else y # ys)"

definition flat_set :: "('a \<Rightarrow> 'a \<Rightarrow> bool) \<Rightarrow> 'a list \<Rightarrow> 'a list" where
  "flat_set lt xs = fold (flat_insert lt) xs []"

section \<open>Accounts\<close>

definition account_create_validate ::
  "ext_lib \<Rightarrow> asset \<Rightarrow> account_name \<Rightarrow> authority \<Rightarrow> authority \<Rightarrow> string \<Rightarrow> unit res"
where
  "account_create_validate F fee new_account_name owner active json_metadata =
     bindE (validate_account_name new_account_name) (\<lambda>_.
     bindE (fc_assert (is_asset_type fee SCORUM_SYMBOL) ''Account creation fee must be SCR'') (\<lambda>_.
     bindE (authority_validate owner) (\<lambda>_.
     bindE (authority_validate active) (\<lambda>_.
     bindE (validate_json_metadata F json_metadata) (\<lambda>_.
     assertE (asset_ge fee (SCR 0)) ''Account creation fee cannot be negative'')))))"

definition account_create_with_delegation_validate ::
  "ext_lib \<Rightarrow> asset \<Rightarrow> asset \<Rightarrow> account_name \<Rightarrow> account_name \<Rightarrow> authority \<Rightarrow> authority \<Rightarrow> authority \<Rightarrow> string \<Rightarrow> unit res"
where
  "account_create_with_delegation_validate F fee delegation creator new_account_name owner active posting json_metadata =
     bindE (validate_account_name new_account_name) (\<lambda>_.
     bindE (validate_account_name creator) (\<lambda>_.
     bindE (fc_assert (is_asset_type fee SCORUM_SYMBOL) ''Account creation fee must be SCR'') (\<lambda>_.
     bindE (fc_assert (is_asset_type delegation SP_SYMBOL) ''Delegation must be SP'') (\<lambda>_.
     bindE (authority_validate owner) (\<lambda>_.
     bindE (authority_validate active) (\<lambda>_.
     bindE (authority_validate posting) (\<lambda>_.
     bindE (validate_json_metadata F json_metadata) (\<lambda>_.
     bindE (assertE (asset_ge fee (SCR 0)) ''Account creation fee cannot be negative'') (\<lambda>_.
     assertE (asset_ge delegation (SP 0)) ''Delegation cannot be negative'')))))))))"

definition account_create_by_committee_validate ::
  "ext_lib \<Rightarrow> account_name \<Rightarrow> account_name \<Rightarrow> authority \<Rightarrow> authority \<Rightarrow> authority \<Rightarrow> string \<Rightarrow> unit res"
where
  "account_create_by_committee_validate F creator new_account_name owner active posting json_metadata =
     bindE (validate_account_name creator) (\<lambda>_.
     bindE (validate_account_name new_account_name) (\<lambda>_.
     bindE (authority_validate owner) (\<lambda>_.
     bindE (authority_validate active) (\<lambda>_.
     bindE (authority_validate posting) (\<lambda>_.
     validate_json_metadata F json_metadata)))))"

definition account_update_validate ::
  "ext_lib \<Rightarrow> account_name \<Rightarrow> authority option \<Rightarrow> authority option \<Rightarrow> authority option \<Rightarrow> string \<Rightarrow> unit res"
where
  "account_update_validate F account owner active posting json_metadata =
     bindE (validate_account_name account) (\<lambda>_.
     bindE (authority_validate_opt owner) (\<lambda>_.
     bindE (authority_validate_opt active) (\<lambda>_.
     bindE (authority_validate_opt posting) (\<lambda>_.
     validate_json_metadata F json_metadata))))"

definition prove_authority_validate :: "account_name \<Rightarrow> unit res" where
  "prove_authority_validate challenged = validate_account_name challenged"

definition request_account_recovery_validate :: "account_name \<Rightarrow> account_name \<Rightarrow> authority \<Rightarrow> unit res" where
  "request_account_recovery_validate recovery_account account_to_recover new_owner_authority =
     bindE (validate_account_name recovery_account) (\<lambda>_.
     bindE (validate_account_name account_to_recover) (\<lambda>_.
     authority_validate new_owner_authority))"

definition recover_account_validate :: "account_name \<Rightarrow> authority \<Rightarrow> authority \<Rightarrow> unit res" where
  "recover_account_validate account_to_recover new_owner_authority recent_owner_authority =
     bindE (validate_account_name account_to_recover) (\<lambda>_.
     bindE (fc_assert (new_owner_authority \<noteq> recent_owner_authority)
              ''Cannot set new owner authority to the recent owner authority'') (\<lambda>_.
     bindE (fc_assert (\<not> is_impossible new_owner_authority) ''new owner authority cannot be impossible'') (\<lambda>_.
     bindE (fc_assert (\<not> is_impossible recent_owner_authority) ''recent owner authority cannot be impossible'') (\<lambda>_.
     bindE (fc_assert (weight_threshold new_owner_authority \<noteq> 0) ''new owner authority cannot be trivial'') (\<lambda>_.
     bindE (authority_validate new_owner_authority) (\<lambda>_.
     authority_validate recent_owner_authority))))))"

definition change_recovery_account_validate :: "account_name \<Rightarrow> account_name \<Rightarrow> unit res" where
  "change_recovery_account_validate account_to_recover new_recovery_account =
     bindE (validate_account_name account_to_recover) (\<lambda>_. validate_account_name new_recovery_account)"

definition decline_voting_rights_validate :: "account_name \<Rightarrow> unit res" where
  "decline_voting_rights_validate account = validate_account_name account"

section \<open>Comments\<close>

definition comment_validate ::
  "ext_lib \<Rightarrow> account_name \<Rightarrow> string \<Rightarrow> account_name \<Rightarrow> string \<Rightarrow> string \<Rightarrow> string \<Rightarrow> string \<Rightarrow> unit res"
where
  "comment_validate F parent_author parent_permlink author permlink title body json_metadata =
     bindE (fc_assert (length title < 256) ''Title larger than size limit'') (\<lambda>_.
     bindE (fc_assert (is_utf8 F title) ''Title not formatted in UTF8'') (\<lambda>_.
     bindE (fc_assert (length body > 0) ''Body is empty'') (\<lambda>_.
     bindE (fc_assert (is_utf8 F body) ''Body not formatted in UTF8'') (\<lambda>_.
     bindE (if length parent_author \<noteq> 0 then validate_account_name parent_author else Inr ()) (\<lambda>_.
     bindE (validate_account_name author) (\<lambda>_.
     bindE (validate_permlink F parent_permlink) (\<lambda>_.
     bindE (validate_permlink F permlink) (\<lambda>_.
     validate_json_metadata F json_metadata))))))))"

text \<open>
  A beneficiary is an account and a weight; the order of beneficiaries is that of the names.
  The loop carries the sum, a 32 bit integer, and the previous name.
\<close>

fun beneficiaries_loop :: "(account_name \<times> nat) list \<Rightarrow> account_name \<Rightarrow> nat \<Rightarrow> unit res" where
  "beneficiaries_loop [] prev wsum = Inr ()"
| "beneficiaries_loop (b # bs) prev wsum =
     bindE (validate_account_name (fst b)) (\<lambda>_.
     bindE (fc_assert (int (snd b) \<le> SCORUM_100_PERCENT) ''Cannot allocate more than 100% of rewards to one account'') (\<lambda>_.
     let wsum = (wsum + snd b) mod 2 ^ 32 in
     bindE (fc_assert (int wsum \<le> SCORUM_100_PERCENT) ''Cannot allocate more than 100% of rewards to a comment'') (\<lambda>_.
     bindE (fc_assert (prev < fst b) ''Benficiaries must be specified in sorted order (account ascending)'') (\<lambda>_.
     beneficiaries_loop bs (fst b) wsum))))"

definition beneficiaries_validate :: "(account_name \<times> nat) list \<Rightarrow> unit res" where
  "beneficiaries_validate bs =
     bindE (fc_assert (length bs \<noteq> 0) ''Must specify at least one beneficiary'') (\<lambda>_.
     bindE (fc_assert (length bs < 128) ''Cannot specify more than 127 beneficiaries.'') (\<lambda>_.
     let b = hd bs in
     bindE (validate_account_name (fst b)) (\<lambda>_.
     bindE (fc_assert (int (snd b) \<le> SCORUM_100_PERCENT) ''Cannot allocate more than 100% of rewards to one account'') (\<lambda>_.
     let wsum = snd b mod 2 ^ 32 in
     bindE (fc_assert (int wsum \<le> SCORUM_100_PERCENT) ''Cannot allocate more than 100% of rewards to a comment'') (\<lambda>_.
     beneficiaries_loop (tl bs) (fst b) wsum)))))"

definition comment_options_validate ::
  "ext_lib \<Rightarrow> account_name \<Rightarrow> string \<Rightarrow> asset \<Rightarrow> (account_name \<times> nat) list list \<Rightarrow> unit res"
where
  "comment_options_validate F author permlink max_accepted_payout extensions =
     bindE (validate_account_name author) (\<lambda>_.
     bindE (fc_assert (symbol max_accepted_payout = SCORUM_SYMBOL) ''Max accepted payout must be in SCR'') (\<lambda>_.
     bindE (fc_assert (amount max_accepted_payout \<ge> 0) ''Cannot accept less than 0 payout'') (\<lambda>_.
     bindE (validate_permlink F permlink) (\<lambda>_.
     foldE (\<lambda>e _. beneficiaries_validate e) extensions ()))))"

definition delete_comment_validate :: "ext_lib \<Rightarrow> account_name \<Rightarrow> string \<Rightarrow> unit res" where
  "delete_comment_validate F author permlink =
     bindE (validate_permlink F permlink) (\<lambda>_. validate_account_name author)"

definition vote_validate :: "ext_lib \<Rightarrow> account_name \<Rightarrow> account_name \<Rightarrow> string \<Rightarrow> unit res" where
  "vote_validate F voter author permlink =
     bindE (validate_account_name voter) (\<lambda>_.
     bindE (validate_account_name author) (\<lambda>_.
     validate_permlink F permlink))"

section \<open>Transfers and power\<close>

definition transfer_validate :: "ext_lib \<Rightarrow> account_name \<Rightarrow> account_name \<Rightarrow> asset \<Rightarrow> string \<Rightarrow> unit res" where
  "transfer_validate F from to amt memo =
     bindE (validate_account_name from) (\<lambda>_.
     bindE (validate_account_name to) (\<lambda>_.
     bindE (fc_assert (symbol amt \<noteq> SP_SYMBOL) ''transferring of Scorum Power (STMP) is not allowed.'') (\<lambda>_.
     bindE (fc_assert (amount amt > 0) ''Cannot transfer a negative amount (aka: stealing)'') (\<lambda>_.
     bindE (fc_assert (length memo < SCORUM_MAX_MEMO_SIZE) ''Memo is too large'') (\<lambda>_.
     fc_assert (is_utf8 F memo) ''Memo is not UTF8'')))))"

definition transfer_to_scorumpower_validate :: "account_name \<Rightarrow> account_name \<Rightarrow> asset \<Rightarrow> unit res" where
  "transfer_to_scorumpower_validate from to amt =
     bindE (validate_account_name from) (\<lambda>_.
     bindE (fc_assert (is_asset_type amt SCORUM_SYMBOL) ''Amount must be SCR'') (\<lambda>_.
     bindE (if to \<noteq> [] then validate_account_name to else Inr ()) (\<lambda>_.
     assertE (asset_gt amt (SCR 0)) ''Must transfer a nonzero amount'')))"

definition withdraw_scorumpower_validate :: "account_name \<Rightarrow> asset \<Rightarrow> unit res" where
  "withdraw_scorumpower_validate account scorumpower =
     bindE (validate_account_name account) (\<lambda>_.
     bindE (fc_assert (is_asset_type scorumpower SP_SYMBOL) ''Amount must be SP'') (\<lambda>_.
     fc_assert (amount scorumpower \<ge> 0) ''Cannot withdraw negative amount''))"

definition set_withdraw_route_to_account_validate :: "account_name \<Rightarrow> account_name \<Rightarrow> int \<Rightarrow> unit res" where
  "set_withdraw_route_to_account_validate from_account to_account percent =
     bindE (validate_account_name from_account) (\<lambda>_.
     bindE (validate_account_name to_account) (\<lambda>_.
     fc_assert (0 \<le> percent \<and> percent \<le> SCORUM_100_PERCENT) ''Percent must be valid scorum percent''))"

definition set_withdraw_route_to_dev_pool_validate :: "account_name \<Rightarrow> int \<Rightarrow> unit res" where
  "set_withdraw_route_to_dev_pool_validate from_account percent =
     bindE (validate_account_name from_account) (\<lambda>_.
     fc_assert (0 \<le> percent \<and> percent \<le> SCORUM_100_PERCENT) ''Percent must be valid scorum percent'')"

definition delegate_scorumpower_validate :: "account_name \<Rightarrow> account_name \<Rightarrow> asset \<Rightarrow> unit res" where
  "delegate_scorumpower_validate delegator delegatee scorumpower =
     bindE (validate_account_name delegator) (\<lambda>_.
     bindE (validate_account_name delegatee) (\<lambda>_.
     bindE (fc_assert (delegator \<noteq> delegatee) ''You cannot delegate SP to yourself'') (\<lambda>_.
     bindE (fc_assert (is_asset_type scorumpower SP_SYMBOL) ''Delegation must be SP'') (\<lambda>_.
     assertE (asset_ge scorumpower (SP 0)) ''Delegation cannot be negative''))))"

definition delegate_sp_from_reg_pool_validate :: "account_name \<Rightarrow> account_name \<Rightarrow> asset \<Rightarrow> unit res" where
  "delegate_sp_from_reg_pool_validate reg_committee_member delegatee scorumpower =
     bindE (validate_account_name reg_committee_member) (\<lambda>_.
     bindE (validate_account_name delegatee) (\<lambda>_.
     bindE (fc_assert (reg_committee_member \<noteq> delegatee) ''You cannot delegate SP to yourself'') (\<lambda>_.
     bindE (fc_assert (is_asset_type scorumpower SP_SYMBOL) ''Delegation must be SP'') (\<lambda>_.
     bindE (fc_assert (amount scorumpower \<ge> 0) ''Delegation cannot be negative'') (\<lambda>_.
     assertE (asset_le scorumpower (SP 10000000000)) ''Delegation cannot be more than the maximum'')))))"

definition burn_validate :: "account_name \<Rightarrow> asset \<Rightarrow> unit res" where
  "burn_validate owner amt =
     bindE (validate_account_name owner) (\<lambda>_.
     bindE (fc_assert (is_asset_type amt SCORUM_SYMBOL) ''Stake must be SCR'') (\<lambda>_.
     fc_assert (amount amt > 0) ''Stake must be greater then 0''))"

section \<open>Witnesses\<close>

definition witness_update_validate :: "ext_lib \<Rightarrow> account_name \<Rightarrow> string \<Rightarrow> chain_properties \<Rightarrow> unit res" where
  "witness_update_validate F owner url props =
     bindE (validate_account_name owner) (\<lambda>_.
     bindE (fc_assert (length url > 0) ''URL size must be greater than 0'') (\<lambda>_.
     bindE (fc_assert (is_utf8 F url) ''URL is not valid UTF8'') (\<lambda>_.
     chain_properties_validate props)))"

definition account_witness_vote_validate :: "account_name \<Rightarrow> account_name \<Rightarrow> unit res" where
  "account_witness_vote_validate account witness =
     bindE (validate_account_name account) (\<lambda>_. validate_account_name witness)"

definition account_witness_proxy_validate :: "account_name \<Rightarrow> account_name \<Rightarrow> unit res" where
  "account_witness_proxy_validate account proxy =
     bindE (validate_account_name account) (\<lambda>_.
     bindE (if length proxy \<noteq> 0 then validate_account_name proxy else Inr ()) (\<lambda>_.
     fc_assert (proxy \<noteq> account) ''Cannot proxy to self''))"

section \<open>Escrow\<close>

definition escrow_transfer_validate ::
  "ext_lib \<Rightarrow> account_name \<Rightarrow> account_name \<Rightarrow> account_name \<Rightarrow> asset \<Rightarrow> asset \<Rightarrow> nat \<Rightarrow> nat \<Rightarrow> string \<Rightarrow> unit res"
where
  "escrow_transfer_validate F from to agent fee scorum_amount ratification_deadline escrow_expiration json_meta =
     bindE (validate_account_name from) (\<lambda>_.
     bindE (validate_account_name to) (\<lambda>_.
     bindE (validate_account_name agent) (\<lambda>_.
     bindE (fc_assert (amount fee \<ge> 0) ''fee cannot be negative'') (\<lambda>_.
     bindE (fc_assert (amount scorum_amount > 0) ''scorum amount cannot be negative'') (\<lambda>_.
     bindE (fc_assert (from \<noteq> agent \<and> to \<noteq> agent) ''agent must be a third party'') (\<lambda>_.
     bindE (fc_assert (symbol fee = SCORUM_SYMBOL) ''fee must be SCR'') (\<lambda>_.
     bindE (fc_assert (symbol scorum_amount = SCORUM_SYMBOL) ''scorum amount must contain SCR'') (\<lambda>_.
     bindE (fc_assert (ratification_deadline < escrow_expiration)
              ''ratification deadline must be before escrow expiration'') (\<lambda>_.
     validate_json_metadata F json_meta)))))))))"

definition escrow_approve_validate ::
  "account_name \<Rightarrow> account_name \<Rightarrow> account_name \<Rightarrow> account_name \<Rightarrow> unit res"
where
  "escrow_approve_validate from to agent who =
     bindE (validate_account_name from) (\<lambda>_.
     bindE (validate_account_name to) (\<lambda>_.
     bindE (validate_account_name agent) (\<lambda>_.
     bindE (validate_account_name who) (\<lambda>_.
     fc_assert (who = to \<or> who = agent) ''to or agent must approve escrow''))))"

definition escrow_dispute_validate ::
  "account_name \<Rightarrow> account_name \<Rightarrow> account_name \<Rightarrow> account_name \<Rightarrow> unit res"
where
  "escrow_dispute_validate from to agent who =
     bindE (validate_account_name from) (\<lambda>_.
     bindE (validate_account_name to) (\<lambda>_.
     bindE (validate_account_name agent) (\<lambda>_.
     bindE (validate_account_name who) (\<lambda>_.
     fc_assert (who = from \<or> who = to) ''who must be from or to''))))"

definition escrow_release_validate ::
  "account_name \<Rightarrow> account_name \<Rightarrow> account_name \<Rightarrow> account_name \<Rightarrow> account_name \<Rightarrow> asset \<Rightarrow> unit res"
where
  "escrow_release_validate from to agent who receiver scorum_amount =
     bindE (validate_account_name from) (\<lambda>_.
     bindE (validate_account_name to) (\<lambda>_.
     bindE (validate_account_name agent) (\<lambda>_.
     bindE (validate_account_name who) (\<lambda>_.
     bindE (validate_account_name receiver) (\<lambda>_.
     bindE (fc_assert (who = from \<or> who = to \<or> who = agent) ''who must be from or to or agent'') (\<lambda>_.
     bindE (fc_assert (receiver = from \<or> receiver = to) ''receiver must be from or to'') (\<lambda>_.
     bindE (fc_assert (amount scorum_amount \<ge> 0) ''scorum amount cannot be negative'') (\<lambda>_.
     fc_assert (symbol scorum_amount = SCORUM_SYMBOL) ''scorum amount must contain SCR''))))))))"

section \<open>Atomic swaps\<close>

definition SCORUM_ATOMICSWAP_CONTRACT_METADATA_MAX_LENGTH :: nat where
  "SCORUM_ATOMICSWAP_CONTRACT_METADATA_MAX_LENGTH = 10 * 1024"

definition SCORUM_ATOMICSWAP_SECRET_MAX_LENGTH :: nat where
  "SCORUM_ATOMICSWAP_SECRET_MAX_LENGTH = 1024"

text \<open>The bytes fed to the RIPEMD-160 encoder: two hexadecimal digits to a byte, the last one alone if odd.\<close>

fun secret_bytes :: "ext_lib \<Rightarrow> string \<Rightarrow> nat list res" where
  "secret_bytes F [] = Inr []"
| "secret_bytes F [a] = bindE (from_hex F a) (\<lambda>x. Inr [x * 16 mod 256])"
| "secret_bytes F (a # b # cs) =
     bindE (from_hex F a) (\<lambda>x.
     bindE (from_hex F b) (\<lambda>y.
     bindE (secret_bytes F cs) (\<lambda>bs.
     Inr (or (x * 16 mod 256) y # bs))))"

definition get_secret_hash :: "ext_lib \<Rightarrow> string \<Rightarrow> string res" where
  "get_secret_hash F secret_hex = bindE (secret_bytes F secret_hex) (\<lambda>bs. Inr (hash_ripemd160 F bs))"

definition validate_secret :: "ext_lib \<Rightarrow> string \<Rightarrow> unit res" where
  "validate_secret F secret_hex =
     bindE (fc_assert (secret_hex \<noteq> []) ''Empty secret.'') (\<lambda>_.
     bindE (fc_assert (length secret_hex < SCORUM_ATOMICSWAP_SECRET_MAX_LENGTH) ''Secret string is too long.'') (\<lambda>_.
     foldE (\<lambda>ch _. bindE (from_hex F ch) (\<lambda>_. Inr ())) secret_hex ()))"

definition validate_secret_hash :: "ext_lib \<Rightarrow> string \<Rightarrow> unit res" where
  "validate_secret_hash F secret_hash =
     bindE (fc_assert (length secret_hash = 20 * 2) ''Invalid hash format. It must be in hex RIPEMD160 format.'') (\<lambda>_.
     ripemd160_of_hex F secret_hash)"

definition validate_contract_metadata :: "string \<Rightarrow> unit res" where
  "validate_contract_metadata metadata =
     fc_assert (length metadata < SCORUM_ATOMICSWAP_CONTRACT_METADATA_MAX_LENGTH) ''Contract metadata string is too long.''"

text \<open>The key of a contract: the hash of the two names and the hash of the secret, written one after the other.\<close>

definition get_contract_hash :: "ext_lib \<Rightarrow> account_name \<Rightarrow> account_name \<Rightarrow> string \<Rightarrow> string" where
  "get_contract_hash F from to secret_hash = hash_sha256 F (from @ to @ secret_hash)"

definition atomicswap_initiate_validate ::
  "ext_lib \<Rightarrow> account_name \<Rightarrow> account_name \<Rightarrow> asset \<Rightarrow> string \<Rightarrow> string \<Rightarrow> unit res"
where
  "atomicswap_initiate_validate F owner recipient amt secret_hash metadata =
     bindE (validate_account_name owner) (\<lambda>_.
     bindE (validate_account_name recipient) (\<lambda>_.
     bindE (fc_assert (is_asset_type amt SCORUM_SYMBOL) ''Amount must be SCR'') (\<lambda>_.
     bindE (assertE (asset_gt amt (SCR 0)) ''Amount must be positive'') (\<lambda>_.
     bindE (validate_contract_metadata metadata) (\<lambda>_.
     validate_secret_hash F secret_hash)))))"

definition atomicswap_redeem_validate :: "ext_lib \<Rightarrow> account_name \<Rightarrow> account_name \<Rightarrow> string \<Rightarrow> unit res" where
  "atomicswap_redeem_validate F from to secret =
     bindE (validate_account_name from) (\<lambda>_.
     bindE (validate_account_name to) (\<lambda>_.
     validate_secret F secret))"

definition atomicswap_refund_validate :: "ext_lib \<Rightarrow> account_name \<Rightarrow> account_name \<Rightarrow> string \<Rightarrow> unit res" where
  "atomicswap_refund_validate F participant initiator secret_hash =
     bindE (validate_account_name participant) (\<lambda>_.
     bindE (validate_account_name initiator) (\<lambda>_.
     validate_secret_hash F secret_hash))"

section \<open>Budgets and proposals\<close>

definition create_budget_validate ::
  "ext_lib \<Rightarrow> account_name \<Rightarrow> string \<Rightarrow> asset \<Rightarrow> nat \<Rightarrow> nat \<Rightarrow> unit res"
where
  "create_budget_validate F owner json_metadata balance start deadline =
     bindE (validate_account_name owner) (\<lambda>_.
     bindE (validate_json_metadata F json_metadata) (\<lambda>_.
     bindE (fc_assert (is_asset_type balance SCORUM_SYMBOL) ''Balance must be SCR'') (\<lambda>_.
     bindE (assertE (asset_gt balance (SCR 0)) ''Balance must be positive'') (\<lambda>_.
     fc_assert (start \<le> deadline) ''Deadline time must be greater or equal then start time''))))"

definition update_budget_validate :: "ext_lib \<Rightarrow> account_name \<Rightarrow> string \<Rightarrow> unit res" where
  "update_budget_validate F owner json_metadata =
     bindE (validate_account_name owner) (\<lambda>_. validate_json_metadata F json_metadata)"

definition close_budget_validate :: "account_name \<Rightarrow> unit res" where
  "close_budget_validate owner = validate_account_name owner"

definition close_budget_by_advertising_moderator_validate :: "account_name \<Rightarrow> unit res" where
  "close_budget_by_advertising_moderator_validate moderator = validate_account_name moderator"

definition proposal_vote_validate :: "account_name \<Rightarrow> unit res" where
  "proposal_vote_validate voting_account = validate_account_name voting_account"

section \<open>Games and bets\<close>

definition SCORUM_MIN_ODDS :: "odds res" where
  "SCORUM_MIN_ODDS = odds_initialize 1001 1000"

definition SCORUM_MIN_BET_STAKE :: asset where
  "SCORUM_MIN_BET_STAKE = SCR 1000000"

definition create_game_validate ::
  "ext_lib \<Rightarrow> account_name \<Rightarrow> string \<Rightarrow> game_type \<Rightarrow> market_type list \<Rightarrow> unit res"
where
  "create_game_validate F moderator json_metadata game markets =
     bindE (validate_account_name moderator) (\<lambda>_.
     bindE (validate_json_metadata F json_metadata) (\<lambda>_.
     let set_of_markets = flat_set market_less markets in
     bindE (fc_assert (length set_of_markets = length markets) ''You provided duplicates in market list.'') (\<lambda>_.
     bindE (validate_game game set_of_markets) (\<lambda>_.
     validate_markets set_of_markets))))"

definition cancel_game_validate :: "account_name \<Rightarrow> unit res" where
  "cancel_game_validate moderator = validate_account_name moderator"

definition update_game_markets_validate :: "account_name \<Rightarrow> unit res" where
  "update_game_markets_validate moderator = validate_account_name moderator"

definition update_game_start_time_validate :: "account_name \<Rightarrow> unit res" where
  "update_game_start_time_validate moderator = validate_account_name moderator"

definition post_game_results_validate :: "account_name \<Rightarrow> wincase_type list \<Rightarrow> unit res" where
  "post_game_results_validate moderator wincases =
     bindE (validate_account_name moderator) (\<lambda>_.
     let set_of_wincases = flat_set wincase_less wincases in
     bindE (fc_assert (length set_of_wincases = length wincases) ''You provided duplicates in wincases list.'') (\<lambda>_.
     validate_wincases set_of_wincases))"

text \<open>The odds of the operation are a numerator and a denominator, 32 bit integers.\<close>

definition post_bet_validate :: "ext_lib \<Rightarrow> account_name \<Rightarrow> wincase_type \<Rightarrow> int \<times> int \<Rightarrow> asset \<Rightarrow> unit res" where
  "post_bet_validate F better wincase od stake =
     bindE (validate_account_name better) (\<lambda>_.
     bindE (validate_wincase wincase) (\<lambda>_.
     bindE (fc_assert (is_asset_type stake SCORUM_SYMBOL) ''Stake must be SCR'') (\<lambda>_.
     bindE (assertE (asset_ge stake SCORUM_MIN_BET_STAKE) ''Stake must be greater  or equal then the minimum'') (\<lambda>_.
     bindE (fc_assert (fst od > 0) ''odds numerator must be greater then zero'') (\<lambda>_.
     bindE (fc_assert (snd od > 0) ''odds denominator must be greater then zero'') (\<lambda>_.
     bindE (fc_assert (fst od > snd od) ''odds must be greater then one'') (\<lambda>_.
     bindE SCORUM_MIN_ODDS (\<lambda>mo.
     bindE (odds_base mo) (\<lambda>mn.
     bindE (odds_inverted mo) (\<lambda>mx.
     bindE (fc_assert (rational_le F od (numerator mx, denominator mx)) ''Invalid odds value'') (\<lambda>_.
     fc_assert (rational_le F (numerator mn, denominator mn) od) ''Invalid odds value'')))))))))))"

fun adjacent_find :: "'a list \<Rightarrow> bool" where
  "adjacent_find (x # y # zs) \<longleftrightarrow> x = y \<or> adjacent_find (y # zs)"
| "adjacent_find _ \<longleftrightarrow> False"

definition is_unique :: "uuid list \<Rightarrow> bool" where
  "is_unique input \<longleftrightarrow> \<not> adjacent_find (sort input)"

definition cancel_pending_bets_validate :: "uuid list \<Rightarrow> account_name \<Rightarrow> unit res" where
  "cancel_pending_bets_validate bet_uuids better =
     bindE (fc_assert (length bet_uuids > 0) ''List of bets is empty.'') (\<lambda>_.
     bindE (fc_assert (is_unique bet_uuids) ''You provided duplicates in bets list.'') (\<lambda>_.
     validate_account_name better))"

section \<open>Tokens and game rounds\<close>

definition SCORUM_NFT_MODERATOR :: account_name where
  "SCORUM_NFT_MODERATOR = ''nft-moderator''"

text \<open>A uuid is its sixteen bytes.\<close>

definition is_nil :: "uuid \<Rightarrow> bool" where
  "is_nil u \<longleftrightarrow> list_all (\<lambda>c. c = char_of (0 :: nat)) u"

definition create_nft_validate :: "ext_lib \<Rightarrow> uuid \<Rightarrow> account_name \<Rightarrow> string \<Rightarrow> unit res" where
  "create_nft_validate F uuid owner json_metadata =
     bindE (fc_assert (\<not> is_nil uuid) ''uuid must not be nil'') (\<lambda>_.
     bindE (validate_account_name owner) (\<lambda>_.
     validate_json_metadata F json_metadata))"

definition update_nft_meta_validate :: "ext_lib \<Rightarrow> uuid \<Rightarrow> account_name \<Rightarrow> string \<Rightarrow> unit res" where
  "update_nft_meta_validate F uuid moderator json_metadata =
     bindE (fc_assert (\<not> is_nil uuid) ''uuid must not be nil'') (\<lambda>_.
     bindE (fc_assert (moderator = SCORUM_NFT_MODERATOR) ''invalid moderator account'') (\<lambda>_.
     validate_json_metadata F json_metadata))"

definition adjust_nft_experience_validate :: "uuid \<Rightarrow> account_name \<Rightarrow> unit res" where
  "adjust_nft_experience_validate uuid moderator =
     bindE (fc_assert (\<not> is_nil uuid) ''uuid must not be nil'') (\<lambda>_.
     fc_assert (moderator = SCORUM_NFT_MODERATOR) ''invalid moderator account'')"

definition update_nft_name_validate :: "uuid \<Rightarrow> account_name \<Rightarrow> string \<Rightarrow> unit res" where
  "update_nft_name_validate uuid moderator name =
     bindE (fc_assert (\<not> is_nil uuid) ''uuid must not be nil'') (\<lambda>_.
     bindE (fc_assert (moderator = SCORUM_NFT_MODERATOR) ''invalid moderator account'') (\<lambda>_.
     validate_account_name name))"

definition create_game_round_validate :: "uuid \<Rightarrow> string \<Rightarrow> string \<Rightarrow> unit res" where
  "create_game_round_validate uuid verification_key seed =
     bindE (fc_assert (\<not> is_nil uuid) ''uuid must not be nil'') (\<lambda>_.
     bindE (fc_assert (length verification_key = 64) ''verification_key should have 64 symbols length'') (\<lambda>_.
     fc_assert (length seed = 64) ''seed should have 64 symbols length''))"

definition update_game_round_result_validate :: "uuid \<Rightarrow> string \<Rightarrow> string \<Rightarrow> int \<Rightarrow> unit res" where
  "update_game_round_result_validate uuid proof0 vrf result =
     bindE (fc_assert (\<not> is_nil uuid) ''uuid must not be nil'') (\<lambda>_.
     bindE (fc_assert (length proof0 = 160) ''proof should have 160 symbols length'') (\<lambda>_.
     bindE (fc_assert (length vrf = 128) ''vrf should have 128 symbols length'') (\<lambda>_.
     fc_assert (result \<ge> 100) ''result should be greater or equal 100'')))"

section \<open>What the checks accept\<close>

text \<open>
  C29: \<^verbatim>\<open>is_valid_account_name\<close> accepts exactly the names of 3 to 16 characters all of whose
  dot-separated labels follow the grammar of the comment above it: a lower case letter, one or
  more letters, digits and hyphens, and a letter or a digit.
\<close>
theorem is_valid_account_name_grammar:
  "is_valid_account_name name \<longleftrightarrow>
     3 \<le> length name \<and> length name \<le> 16 \<and> list_all valid_label (labels name)"
  using valid_labels_from_iff [of 0 name]
  by (auto simp: is_valid_account_name_def SCORUM_MIN_ACCOUNT_NAME_LENGTH_def
      SCORUM_MAX_ACCOUNT_NAME_LENGTH_def Let_def list_all_iff)

lemma beneficiaries_loop_iff:
  assumes "list_all (\<lambda>b. snd b < 2 ^ 16) bs" and "w \<le> 10000"
  shows "beneficiaries_loop bs prev w = Inr () \<longleftrightarrow>
     list_all (is_valid_account_name \<circ> fst) bs \<and> sorted_wrt (<) (prev # map fst bs) \<and>
     w + sum_list (map snd bs) \<le> 10000"
  using assms
proof (induction bs arbitrary: prev w)
  case (Cons b bs)
  have nowrap: "(w + snd b) mod 4294967296 = w + snd b" using Cons.prems by simp
  show ?case
  proof (cases "w + snd b \<le> 10000 \<and> prev < fst b")
    case True
    have "list_all (\<lambda>b. snd b < 2 ^ 16) bs" using Cons.prems(1) by simp
    note IH = Cons.IH [OF this, of "w + snd b" "fst b"]
    have "beneficiaries_loop (b # bs) prev w = Inr () \<longleftrightarrow>
        is_valid_account_name (fst b) \<and> beneficiaries_loop bs (fst b) (w + snd b) = Inr ()"
      using True by (simp add: nowrap SCORUM_100_PERCENT_def validate_account_name_def res_simps Let_def)
    also have "\<dots> \<longleftrightarrow> is_valid_account_name (fst b) \<and> list_all (is_valid_account_name \<circ> fst) bs \<and>
        sorted_wrt (<) (fst b # map fst bs) \<and> w + snd b + sum_list (map snd bs) \<le> 10000"
      using IH True by (simp add: comp_def)
    also have "\<dots> \<longleftrightarrow> list_all (is_valid_account_name \<circ> fst) (b # bs) \<and> sorted_wrt (<) (prev # map fst (b # bs)) \<and>
        w + sum_list (map snd (b # bs)) \<le> 10000"
      using True by (auto intro: order.strict_trans)
    finally show ?thesis .
  next
    case False
    then show ?thesis
      by (auto simp: nowrap SCORUM_100_PERCENT_def validate_account_name_def res_simps Let_def)
  qed
qed (simp add: list_all_iff)

text \<open>
  the validation of beneficiaries, which adds the weights up in 32 bits, accepts exactly the
  lists of 1 to 127 beneficiaries with valid names in strictly ascending order (so no account
  occurs twice) and weights of at most 100% together. Weights are 16 bit integers.
\<close>
lemma beneficiaries_validate_iff:
  assumes "list_all (\<lambda>b. snd b < 2 ^ 16) bs"
  shows "beneficiaries_validate bs = Inr () \<longleftrightarrow>
     0 < length bs \<and> length bs < 128 \<and> list_all (is_valid_account_name \<circ> fst) bs \<and>
     sorted_wrt (<) (map fst bs) \<and> sum_list (map snd bs) \<le> 10000"
proof (cases bs)
  case Nil
  then show ?thesis by (simp add: beneficiaries_validate_def)
next
  case (Cons b cs)
  have cs: "list_all (\<lambda>b. snd b < 2 ^ 16) cs" and "snd b mod 2 ^ 32 = snd b"
    using assms by (simp_all add: Cons)
  then show ?thesis
    using beneficiaries_loop_iff [OF cs, of "snd b" "fst b"]
    by (auto simp: Cons beneficiaries_validate_def SCORUM_100_PERCENT_def validate_account_name_def res_simps Let_def)
qed

lemma beneficiaries_validate_iff_witness:
  "beneficiaries_validate [(''alice'', 2500), (''bob'', 7500)] = Inr () \<and>
   beneficiaries_validate [(''alice'', 2500), (''bob'', 7501)] \<noteq> Inr ()"
proof -
  have v: "is_valid_account_name ''alice''" "is_valid_account_name ''bob''" by code_simp+
  have lt: "''alice'' < (''bob'' :: string)" by code_simp
  show ?thesis
    using beneficiaries_validate_iff [of "[(''alice'', 2500), (''bob'', 7500)]"]
      beneficiaries_validate_iff [of "[(''alice'', 2500), (''bob'', 7501)]"]
    by (simp add: v lt)
qed

lemma adjacent_find_sorted: "sorted xs \<Longrightarrow> adjacent_find xs \<longleftrightarrow> \<not> distinct xs"
proof (induction xs rule: adjacent_find.induct)
  case (1 x y zs)
  have "x \<in> set zs \<longrightarrow> x = y" using "1.prems" by auto
  with 1 show ?case by auto
qed simp_all

lemma is_unique_iff: "is_unique us \<longleftrightarrow> distinct us"
  by (simp add: is_unique_def adjacent_find_sorted)

lemma min_odds: "SCORUM_MIN_ODDS = Inr \<lparr>o_base = (1001, 1000), o_simplified = (1001, 1000), o_inverted = (1001, 1)\<rparr>"
  unfolding SCORUM_MIN_ODDS_def by code_simp

lemma min_odds_ends:
  "odds_base \<lparr>o_base = (1001, 1000), o_simplified = (1001, 1000), o_inverted = (1001, 1)\<rparr>
     = Inr \<lparr>numerator = 1001, denominator = 1000\<rparr>"
  "odds_inverted \<lparr>o_base = (1001, 1000), o_simplified = (1001, 1000), o_inverted = (1001, 1)\<rparr>
     = Inr \<lparr>numerator = 1001, denominator = 1\<rparr>"
  by code_simp+

lemma post_bet_accepts:
  assumes "ext_ok F"
  shows "post_bet_validate F better wincase (n, d) stake = Inr () \<longleftrightarrow>
     is_valid_account_name better \<and> validate_wincase wincase = Inr () \<and>
     symbol stake = SCORUM_SYMBOL \<and> 1000000 \<le> amount stake \<and> 0 < d \<and> 1001 * d \<le> 1000 * n \<and> n \<le> 1001 * d"
  by (auto simp: post_bet_validate_def min_odds min_odds_ends res_simps validate_account_name_def
      is_asset_type_def SCORUM_MIN_BET_STAKE_def rational_eqs [OF assms] mult.commute)

text \<open>
  a bet is accepted exactly when the better's name and the wincase are valid, the stake is at
  least 0.001 SCR and the odds lie between 1.001 and 1001. Accepted odds are a positive fraction
  greater than one, so that building the \<^verbatim>\<open>odds\<close> value of the bet cannot throw.
\<close>
lemma post_bet_validate_iff:
  assumes "ext_ok F"
  shows "post_bet_validate F better wincase (n, d) stake = Inr () \<longleftrightarrow>
     is_valid_account_name better \<and> validate_wincase wincase = Inr () \<and>
     symbol stake = SCORUM_SYMBOL \<and> 1000000 \<le> amount stake \<and>
     0 < d \<and> 1001 * d \<le> 1000 * n \<and> n \<le> 1001 * d \<and> (\<exists>o1. odds_initialize n d = Inr o1)"
proof -
  have "0 < d \<Longrightarrow> d < n \<Longrightarrow> \<exists>o1. odds_initialize n d = Inr o1" by (auto simp: odds_initialize_eq)
  then show ?thesis by (auto simp: post_bet_accepts [OF assms])
qed

lemma post_bet_validate_iff_witness:
  "post_bet_validate ext_ref ''alice'' (Yes_no_wincase True Result Home_tag) (3, 2) (SCR 1000000) = Inr ()"
proof -
  have "is_valid_account_name ''alice''" by code_simp
  moreover have "validate_wincase (Yes_no_wincase True Result Home_tag) = Inr ()" by code_simp
  moreover have "\<exists>o1. odds_initialize 3 2 = Inr o1" by (auto simp: odds_initialize_eq)
  ultimately show ?thesis
    by (subst post_bet_validate_iff [OF ext_ok_ref]) simp
qed

end
