(* ===== verification/Account_Service.thy ===== *)
theory Account_Service
  imports Chain_Schema "HOL-Library.List_Lexorder" "HOL-Library.Char_ord"
begin

text \<open>
  The services the evaluators call on accounts and witnesses: \<^verbatim>\<open>dbs_account\<close>
  (\<^verbatim>\<open>libraries/chain/services/account.cpp\<close>), the parts of \<^verbatim>\<open>dbs_witness\<close> (\<^verbatim>\<open>witness.cpp\<close>) it
  relies on, and \<^verbatim>\<open>dbs_dynamic_global_property\<close>. An operation takes the database and returns
  the changed database or the exception it throws; the argument \<open>F\<close> is the fc library, \<open>cfg\<close> the
  configuration of the chain.
\<close>

section \<open>Lookups and updates\<close>

definition find_account :: "account_name \<Rightarrow> database \<Rightarrow> nat option" where
  "find_account name db = ix_find_by (\<lambda>a. a_name a = name) (accounts db)"

definition get_account :: "account_name \<Rightarrow> database \<Rightarrow> nat res" where
  "get_account name db = ix_get_by (\<lambda>a. a_name a = name) (accounts db)"

definition account_at :: "nat \<Rightarrow> database \<Rightarrow> account_object res" where
  "account_at k db = ix_get (accounts db) k"

definition check_account_existence :: "account_name \<Rightarrow> database \<Rightarrow> unit res" where
  "check_account_existence name db = fc_assert (find_account name db \<noteq> None) ''Account must exist.''"

definition check_accounts_existence :: "(account_name \<times> nat) list \<Rightarrow> database \<Rightarrow> unit res" where
  "check_accounts_existence auths db = foldE (\<lambda>a _. check_account_existence (fst a) db) auths ()"

definition update_account :: "nat \<Rightarrow> (account_object \<Rightarrow> account_object res) \<Rightarrow> database \<Rightarrow> database res" where
  "update_account k m db = bindE (ix_modify account_clash k m (accounts db)) (\<lambda>ix. Inr (db\<lparr>accounts := ix\<rparr>))"

definition update_dgp ::
  "(dynamic_global_property_object \<Rightarrow> dynamic_global_property_object res) \<Rightarrow> database \<Rightarrow> database res"
where
  "update_dgp m db = bindE (m (dgp db)) (\<lambda>p. Inr (db\<lparr>dgp := p\<rparr>))"

definition get_account_authority :: "account_name \<Rightarrow> database \<Rightarrow> nat res" where
  "get_account_authority name db = ix_get_by (\<lambda>a. auth_account a = name) (authorities db)"

definition update_authority ::
  "nat \<Rightarrow> (account_authority_object \<Rightarrow> account_authority_object) \<Rightarrow> database \<Rightarrow> database res"
where
  "update_authority k m db =
     bindE (ix_modify (\<lambda>_ _. False) k (\<lambda>a. Inr (m a)) (authorities db)) (\<lambda>ix. Inr (db\<lparr>authorities := ix\<rparr>))"

section \<open>Balances\<close>

definition increase_balance :: "ext_lib \<Rightarrow> nat \<Rightarrow> asset \<Rightarrow> database \<Rightarrow> database res" where
  "increase_balance F k amt db =
     bindE (fc_assert (symbol amt = SCORUM_SYMBOL) ''invalid asset type (symbol)'') (\<lambda>_.
     bindE (update_account k (\<lambda>a. bindE (asset_add F (a_balance a) amt) (\<lambda>b. Inr (a\<lparr>a_balance := b\<rparr>))) db) (\<lambda>db.
     update_dgp (\<lambda>p. bindE (asset_add F (dgp_circulating_capital p) amt) (\<lambda>c.
       Inr (p\<lparr>dgp_circulating_capital := c\<rparr>))) db))"

definition decrease_balance :: "ext_lib \<Rightarrow> nat \<Rightarrow> asset \<Rightarrow> database \<Rightarrow> database res" where
  "decrease_balance F k amt db = bindE (asset_neg F amt) (\<lambda>n. increase_balance F k n db)"

definition burn_scr :: "ext_lib \<Rightarrow> nat \<Rightarrow> asset \<Rightarrow> database \<Rightarrow> database res" where
  "burn_scr F k amt db =
     bindE (fc_assert (symbol amt = SCORUM_SYMBOL) ''invalid asset type (symbol)'') (\<lambda>_.
     bindE (update_account k (\<lambda>a.
       bindE (asset_add F (a_burned_scr a) amt) (\<lambda>x.
       bindE (asset_sub F (a_balance a) amt) (\<lambda>y.
       Inr (a\<lparr>a_burned_scr := x, a_balance := y\<rparr>)))) db) (\<lambda>db.
     update_dgp (\<lambda>p.
       bindE (asset_add F (dgp_total_burned_scr p) amt) (\<lambda>x.
       bindE (asset_sub F (dgp_circulating_capital p) amt) (\<lambda>y.
       Inr (p\<lparr>dgp_total_burned_scr := x, dgp_circulating_capital := y\<rparr>)))) db))"

definition increase_pending_balance :: "ext_lib \<Rightarrow> nat \<Rightarrow> asset \<Rightarrow> database \<Rightarrow> database res" where
  "increase_pending_balance F k amt db =
     bindE (fc_assert (symbol amt = SCORUM_SYMBOL) ''invalid asset type (symbol)'') (\<lambda>_.
     bindE (update_account k (\<lambda>a. bindE (asset_add F (a_pending_scr_reward a) amt) (\<lambda>b.
       Inr (a\<lparr>a_pending_scr_reward := b\<rparr>))) db) (\<lambda>db.
     update_dgp (\<lambda>p. bindE (asset_add F (dgp_total_pending_scr p) amt) (\<lambda>c.
       Inr (p\<lparr>dgp_total_pending_scr := c\<rparr>))) db))"

definition decrease_pending_balance :: "ext_lib \<Rightarrow> nat \<Rightarrow> asset \<Rightarrow> database \<Rightarrow> database res" where
  "decrease_pending_balance F k amt db = bindE (asset_neg F amt) (\<lambda>n. increase_pending_balance F k n db)"

definition increase_pending_scorumpower :: "ext_lib \<Rightarrow> nat \<Rightarrow> asset \<Rightarrow> database \<Rightarrow> database res" where
  "increase_pending_scorumpower F k amt db =
     bindE (fc_assert (symbol amt = SP_SYMBOL) ''invalid asset type (symbol)'') (\<lambda>_.
     bindE (update_account k (\<lambda>a. bindE (asset_add F (a_pending_sp_reward a) amt) (\<lambda>b.
       Inr (a\<lparr>a_pending_sp_reward := b\<rparr>))) db) (\<lambda>db.
     update_dgp (\<lambda>p. bindE (asset_add F (dgp_total_pending_sp p) amt) (\<lambda>c.
       Inr (p\<lparr>dgp_total_pending_sp := c\<rparr>))) db))"

definition decrease_pending_scorumpower :: "ext_lib \<Rightarrow> nat \<Rightarrow> asset \<Rightarrow> database \<Rightarrow> database res" where
  "decrease_pending_scorumpower F k amt db =
     bindE (asset_neg F amt) (\<lambda>n. increase_pending_scorumpower F k n db)"

section \<open>Witness votes\<close>

definition update_witness_row :: "nat \<Rightarrow> (witness_object \<Rightarrow> witness_object res) \<Rightarrow> database \<Rightarrow> database res" where
  "update_witness_row k m db = bindE (ix_modify witness_clash k m (witnesses db)) (\<lambda>ix. Inr (db\<lparr>witnesses := ix\<rparr>))"

definition VIRTUAL_SCHEDULE_LAP_LENGTH :: u128 where
  "VIRTUAL_SCHEDULE_LAP_LENGTH = - 1"

definition adjust_witness_vote :: "ext_lib \<Rightarrow> nat \<Rightarrow> int \<Rightarrow> database \<Rightarrow> database res" where
  "adjust_witness_vote F k delta db =
     update_witness_row k (\<lambda>w.
       let now = current_virtual_time db;
           delta_pos = u128_mul F (word_of_int (w_votes w)) (u128_sub F now (w_virtual_last_update w));
           position = u128_add F (w_virtual_position w) delta_pos in
       bindE (safe_add F (w_votes w) delta) (\<lambda>votes.
       bindE (fc_assert (votes \<le> amount (dgp_total_scorumpower (dgp db))) ''w.votes'') (\<lambda>_.
       bindE (u128_div F (u128_sub F VIRTUAL_SCHEDULE_LAP_LENGTH position) (word_of_int (votes + 1))) (\<lambda>q.
       let scheduled = u128_add F now q in
       Inr (w\<lparr>w_virtual_position := position, w_virtual_last_update := now, w_votes := votes,
             w_virtual_scheduled_time := (if scheduled < now then - 1 else scheduled)\<rparr>))))) db"

text \<open>The witnesses an account votes for, in the order of the index \<^verbatim>\<open>by_account_witness\<close>.\<close>

definition voted_witnesses :: "nat \<Rightarrow> database \<Rightarrow> nat list" where
  "voted_witnesses k db =
     sort (map (\<lambda>r. wv_witness (snd r)) (filter (\<lambda>r. wv_account (snd r) = k) (indices (witness_votes db))))"

definition adjust_witness_votes :: "ext_lib \<Rightarrow> nat \<Rightarrow> int \<Rightarrow> database \<Rightarrow> database res" where
  "adjust_witness_votes F k delta db =
     foldE (\<lambda>w. adjust_witness_vote F w delta) (voted_witnesses k db) db"

definition add_proxied :: "ext_lib \<Rightarrow> nat \<Rightarrow> int \<Rightarrow> account_object \<Rightarrow> account_object res" where
  "add_proxied F i delta a =
     bindE (safe_add F (a_proxied_vsf_votes a ! i) delta) (\<lambda>v.
     Inr (a\<lparr>a_proxied_vsf_votes := (a_proxied_vsf_votes a)[i := v]\<rparr>))"

function adjust_proxied_witness_votes :: "ext_lib \<Rightarrow> nat \<Rightarrow> int \<Rightarrow> nat \<Rightarrow> database \<Rightarrow> database res" where
  "adjust_proxied_witness_votes F k delta depth db =
     bindE (account_at k db) (\<lambda>acc.
     if a_proxy acc \<noteq> SCORUM_PROXY_TO_SELF_ACCOUNT then
       if depth \<ge> SCORUM_MAX_PROXY_RECURSION_DEPTH then Inr db
       else
         bindE (get_account (a_proxy acc) db) (\<lambda>p.
         bindE (update_account p (add_proxied F depth delta) db) (\<lambda>db'.
         adjust_proxied_witness_votes F p delta (depth + 1) db'))
     else adjust_witness_votes F k delta db)"
  by pat_completeness auto
termination
  by (relation "measure (\<lambda>(F, k, delta, depth, db). SCORUM_MAX_PROXY_RECURSION_DEPTH - depth)") auto

declare adjust_proxied_witness_votes.simps [simp del]

function adjust_proxied_witness_votes_all ::
  "ext_lib \<Rightarrow> nat \<Rightarrow> int list \<Rightarrow> nat \<Rightarrow> database \<Rightarrow> database res"
where
  "adjust_proxied_witness_votes_all F k delta depth db =
     bindE (account_at k db) (\<lambda>acc.
     if a_proxy acc \<noteq> SCORUM_PROXY_TO_SELF_ACCOUNT then
       if depth \<ge> SCORUM_MAX_PROXY_RECURSION_DEPTH then Inr db
       else
         bindE (get_account (a_proxy acc) db) (\<lambda>p.
         bindE (update_account p (\<lambda>a.
             foldE (\<lambda>i. add_proxied F (i + depth) (delta ! i))
               (rev [0..<SCORUM_MAX_PROXY_RECURSION_DEPTH - depth]) a) db) (\<lambda>db'.
         adjust_proxied_witness_votes_all F p delta (depth + 1) db'))
     else
       bindE (foldE (\<lambda>i acc. safe_add F acc (delta ! i))
                (rev [0..<SCORUM_MAX_PROXY_RECURSION_DEPTH - depth + 1]) 0) (\<lambda>total_delta.
       adjust_witness_votes F k total_delta db))"
  by pat_completeness auto
termination
  by (relation "measure (\<lambda>(F, k, delta, depth, db). SCORUM_MAX_PROXY_RECURSION_DEPTH - depth)") auto

declare adjust_proxied_witness_votes_all.simps [simp del]

section \<open>Scorum power\<close>

definition increase_scorumpower :: "ext_lib \<Rightarrow> nat \<Rightarrow> asset \<Rightarrow> database \<Rightarrow> database res" where
  "increase_scorumpower F k amt db =
     bindE (fc_assert (symbol amt = SP_SYMBOL) ''invalid asset type (symbol)'') (\<lambda>_.
     bindE (update_account k (\<lambda>a. bindE (asset_add F (a_scorumpower a) amt) (\<lambda>b. Inr (a\<lparr>a_scorumpower := b\<rparr>))) db) (\<lambda>db.
     bindE (update_dgp (\<lambda>p.
       bindE (asset_add F (dgp_circulating_capital p) (SCR (amount amt))) (\<lambda>x.
       bindE (asset_add F (dgp_total_scorumpower p) amt) (\<lambda>y.
       Inr (p\<lparr>dgp_circulating_capital := x, dgp_total_scorumpower := y\<rparr>)))) db) (\<lambda>db.
     adjust_proxied_witness_votes F k (amount amt) 0 db)))"

definition decrease_scorumpower :: "ext_lib \<Rightarrow> nat \<Rightarrow> asset \<Rightarrow> database \<Rightarrow> database res" where
  "decrease_scorumpower F k amt db = bindE (asset_neg F amt) (\<lambda>n. increase_scorumpower F k n db)"

definition create_scorumpower :: "ext_lib \<Rightarrow> nat \<Rightarrow> asset \<Rightarrow> database \<Rightarrow> database res" where
  "create_scorumpower F k scorum db = increase_scorumpower F k (SP (amount scorum)) db"

definition increase_delegated_scorumpower :: "ext_lib \<Rightarrow> nat \<Rightarrow> asset \<Rightarrow> database \<Rightarrow> database res" where
  "increase_delegated_scorumpower F k amt db =
     bindE (fc_assert (symbol amt = SP_SYMBOL) ''invalid asset type (symbol)'') (\<lambda>_.
     update_account k (\<lambda>a. bindE (asset_add F (a_delegated_scorumpower a) amt) (\<lambda>b.
       Inr (a\<lparr>a_delegated_scorumpower := b\<rparr>))) db)"

definition increase_received_scorumpower :: "ext_lib \<Rightarrow> nat \<Rightarrow> asset \<Rightarrow> database \<Rightarrow> database res" where
  "increase_received_scorumpower F k amt db =
     bindE (fc_assert (symbol amt = SP_SYMBOL) ''invalid asset type (symbol)'') (\<lambda>_.
     update_account k (\<lambda>a. bindE (asset_add F (a_received_scorumpower a) amt) (\<lambda>b.
       Inr (a\<lparr>a_received_scorumpower := b\<rparr>))) db)"

definition decrease_received_scorumpower :: "ext_lib \<Rightarrow> nat \<Rightarrow> asset \<Rightarrow> database \<Rightarrow> database res" where
  "decrease_received_scorumpower F k amt db =
     bindE (asset_neg F amt) (\<lambda>n. increase_received_scorumpower F k n db)"

section \<open>Creating accounts\<close>

definition create_account_row ::
  "(account_object \<Rightarrow> account_object) \<Rightarrow> database \<Rightarrow> (nat \<times> database) res"
where
  "create_account_row m db =
     bindE (ix_emplace account_clash (\<lambda>_. Inr (m new_account_object)) (accounts db)) (\<lambda>(k, ix).
     Inr (k, db\<lparr>accounts := ix\<rparr>))"

definition create_authority_row :: "account_authority_object \<Rightarrow> database \<Rightarrow> database res" where
  "create_authority_row v db =
     bindE (ix_emplace (\<lambda>_ _. False) (\<lambda>_. Inr v) (authorities db)) (\<lambda>(k, ix).
     Inr (db\<lparr>authorities := ix\<rparr>))"

definition create_account ::
  "account_name \<Rightarrow> account_name \<Rightarrow> public_key \<Rightarrow> string \<Rightarrow> authority \<Rightarrow> authority \<Rightarrow> authority
   \<Rightarrow> database \<Rightarrow> (nat \<times> database) res"
where
  "create_account new_account_name creator_name memo_key json_metadata owner active posting db =
     bindE (create_account_row (\<lambda>acc. acc\<lparr>a_name := new_account_name, a_recovery_account := creator_name,
              a_memo_key := memo_key, a_created := head_block_time db, a_json_metadata := json_metadata\<rparr>) db) (\<lambda>(k, db).
     bindE (if memo_key \<noteq> null_key
            then create_authority_row \<lparr>auth_account = new_account_name, auth_owner = owner, auth_active = active,
                   auth_posting = posting, auth_last_owner_update = 0\<rparr> db
            else Inr db) (\<lambda>db.
     Inr (k, db)))"

definition create_initial_account ::
  "account_name \<Rightarrow> public_key \<Rightarrow> asset \<Rightarrow> string \<Rightarrow> database \<Rightarrow> (nat \<times> database) res"
where
  "create_initial_account new_account_name memo_key balance json_metadata db =
     bindE (fc_assert (length new_account_name > 0) ''Account name should not be empty.'') (\<lambda>_.
     bindE (fc_assert (symbol balance = SCORUM_SYMBOL) ''Invalid asset type (symbol) for balance.'') (\<lambda>_.
     let owner = (if memo_key \<noteq> null_key
                  then null_authority\<lparr>key_auths := [(memo_key, 1)], weight_threshold := 1\<rparr>
                  else null_authority) in
     bindE (create_account new_account_name [] memo_key json_metadata owner owner owner db) (\<lambda>(k, db).
     bindE (update_account k (\<lambda>acc. Inr (acc\<lparr>a_created_by_genesis := True, a_balance := balance\<rparr>)) db) (\<lambda>db.
     Inr (k, db)))))"

definition create_account_with_fee ::
  "ext_lib \<Rightarrow> account_name \<Rightarrow> account_name \<Rightarrow> public_key \<Rightarrow> string \<Rightarrow> authority \<Rightarrow> authority \<Rightarrow> authority
   \<Rightarrow> asset \<Rightarrow> database \<Rightarrow> (nat \<times> database) res"
where
  "create_account_with_fee F new_account_name creator_name memo_key json_metadata owner active posting fee db =
     bindE (fc_assert (symbol fee = SCORUM_SYMBOL) ''invalid asset type (symbol)'') (\<lambda>_.
     bindE (if amount fee > 0
            then bindE (get_account creator_name db) (\<lambda>c. decrease_balance F c fee db)
            else Inr db) (\<lambda>db.
     bindE (create_account new_account_name creator_name memo_key json_metadata owner active posting db) (\<lambda>(k, db).
     bindE (if amount fee > 0 then create_scorumpower F k fee db else Inr db) (\<lambda>db.
     Inr (k, db)))))"

definition create_delegation_row :: "scorumpower_delegation_object \<Rightarrow> database \<Rightarrow> database res" where
  "create_delegation_row v db =
     bindE (ix_emplace delegation_clash (\<lambda>_. Inr v) (delegations db)) (\<lambda>(k, ix).
     Inr (db\<lparr>delegations := ix\<rparr>))"

definition create_account_with_delegation ::
  "ext_lib \<Rightarrow> account_name \<Rightarrow> account_name \<Rightarrow> public_key \<Rightarrow> string \<Rightarrow> authority \<Rightarrow> authority \<Rightarrow> authority
   \<Rightarrow> asset \<Rightarrow> asset \<Rightarrow> database \<Rightarrow> (nat \<times> database) res"
where
  "create_account_with_delegation F new_account_name creator_name memo_key json_metadata owner active posting
     fee delegation db =
     bindE (fc_assert (symbol fee = SCORUM_SYMBOL) ''invalid asset type (symbol)'') (\<lambda>_.
     bindE (fc_assert (symbol delegation = SP_SYMBOL) ''invalid asset type (symbol)'') (\<lambda>_.
     bindE (get_account creator_name db) (\<lambda>creator.
     bindE (update_account creator (\<lambda>c. bindE (asset_add F (a_delegated_scorumpower c) delegation) (\<lambda>x.
              Inr (c\<lparr>a_delegated_scorumpower := x\<rparr>))) db) (\<lambda>db.
     bindE (decrease_balance F creator fee db) (\<lambda>db.
     bindE (create_account new_account_name creator_name memo_key json_metadata owner active posting db) (\<lambda>(k, db).
     bindE (update_account k (\<lambda>acc. Inr (acc\<lparr>a_received_scorumpower := delegation\<rparr>)) db) (\<lambda>db.
     bindE (if amount delegation > 0
            then create_delegation_row \<lparr>d_delegator = creator_name, d_delegatee = new_account_name,
                   d_scorumpower = delegation,
                   d_min_delegation_time = time_add F (head_block_time db) SCORUM_CREATE_ACCOUNT_DELEGATION_TIME\<rparr> db
            else Inr db) (\<lambda>db.
     bindE (if amount fee > 0 then create_scorumpower F k fee db else Inr db) (\<lambda>db.
     Inr (k, db))))))))))"

definition create_account_with_bonus ::
  "ext_lib \<Rightarrow> account_name \<Rightarrow> account_name \<Rightarrow> public_key \<Rightarrow> string \<Rightarrow> authority \<Rightarrow> authority \<Rightarrow> authority
   \<Rightarrow> asset \<Rightarrow> database \<Rightarrow> (nat \<times> database) res"
where
  "create_account_with_bonus F new_account_name creator_name memo_key json_metadata owner active posting bonus db =
     bindE (fc_assert (symbol bonus = SCORUM_SYMBOL) ''invalid asset type (symbol)'') (\<lambda>_.
     bindE (create_account new_account_name creator_name memo_key json_metadata owner active posting db) (\<lambda>(k, db).
     bindE (if amount bonus > 0 then create_scorumpower F k bonus db else Inr db) (\<lambda>db.
     Inr (k, db))))"

section \<open>Updating accounts\<close>

definition update_acount ::
  "nat \<Rightarrow> nat \<Rightarrow> public_key \<Rightarrow> string \<Rightarrow> authority option \<Rightarrow> authority option \<Rightarrow> authority option
   \<Rightarrow> database \<Rightarrow> database res"
where
  "update_acount account account_authority memo_key json_metadata owner active posting db =
     (let t = head_block_time db in
     bindE (update_account account (\<lambda>acc.
       let acc = (if memo_key \<noteq> null_key then acc\<lparr>a_memo_key := memo_key\<rparr> else acc);
           acc = (if (active \<noteq> None \<or> owner \<noteq> None) \<and> a_active_challenged acc
                  then acc\<lparr>a_active_challenged := False, a_last_active_proved := t\<rparr> else acc);
           acc = acc\<lparr>a_last_account_update := t\<rparr>;
           acc = (if length json_metadata > 0 then acc\<lparr>a_json_metadata := json_metadata\<rparr> else acc)
       in Inr acc) db) (\<lambda>db.
     if active \<noteq> None \<or> posting \<noteq> None then
       update_authority account_authority (\<lambda>auth.
         let auth = (case active of Some x \<Rightarrow> auth\<lparr>auth_active := x\<rparr> | None \<Rightarrow> auth)
         in (case posting of Some x \<Rightarrow> auth\<lparr>auth_posting := x\<rparr> | None \<Rightarrow> auth)) db
     else Inr db))"

definition create_owner_history_row :: "owner_authority_history_object \<Rightarrow> database \<Rightarrow> database res" where
  "create_owner_history_row v db =
     bindE (ix_emplace (\<lambda>_ _. False) (\<lambda>_. Inr v) (owner_histories db)) (\<lambda>(k, ix).
     Inr (db\<lparr>owner_histories := ix\<rparr>))"

definition update_owner_authority :: "nat \<Rightarrow> authority \<Rightarrow> database \<Rightarrow> database res" where
  "update_owner_authority account owner_authority db =
     (let t = head_block_time db in
     bindE (account_at account db) (\<lambda>acc.
     bindE (get_account_authority (a_name acc) db) (\<lambda>i.
     bindE (ix_get (authorities db) i) (\<lambda>auth.
     bindE (create_owner_history_row \<lparr>h_account = a_name acc, h_previous_owner_authority = auth_owner auth,
              h_last_valid_time = t\<rparr> db) (\<lambda>db.
     bindE (get_account_authority (a_name acc) db) (\<lambda>i.
     update_authority i (\<lambda>auth. auth\<lparr>auth_owner := owner_authority, auth_last_owner_update := t\<rparr>) db))))))"

definition drop_challenged :: "nat \<Rightarrow> database \<Rightarrow> database res" where
  "drop_challenged k db =
     (let t = head_block_time db in
     bindE (account_at k db) (\<lambda>acc.
     if a_active_challenged acc
     then update_account k (\<lambda>a. Inr (a\<lparr>a_active_challenged := False, a_last_active_proved := t\<rparr>)) db
     else Inr db))"

definition prove_authority :: "nat \<Rightarrow> bool \<Rightarrow> database \<Rightarrow> database res" where
  "prove_authority k require_owner db =
     (let t = head_block_time db in
     update_account k (\<lambda>a.
       let a = a\<lparr>a_active_challenged := False, a_last_active_proved := t\<rparr>
       in Inr (if require_owner then a\<lparr>a_owner_challenged := False, a_last_owner_proved := t\<rparr> else a)) db)"

definition increase_witnesses_voted_for :: "nat \<Rightarrow> database \<Rightarrow> database res" where
  "increase_witnesses_voted_for k db =
     update_account k (\<lambda>a. Inr (a\<lparr>a_witnesses_voted_for := (a_witnesses_voted_for a + 1) mod 2 ^ 16\<rparr>)) db"

definition decrease_witnesses_voted_for :: "nat \<Rightarrow> database \<Rightarrow> database res" where
  "decrease_witnesses_voted_for k db =
     update_account k (\<lambda>a. Inr (a\<lparr>a_witnesses_voted_for := (a_witnesses_voted_for a + (2 ^ 16 - 1)) mod 2 ^ 16\<rparr>)) db"

definition add_post :: "nat \<Rightarrow> account_name \<Rightarrow> database \<Rightarrow> database res" where
  "add_post k parent_author_name db =
     (let t = head_block_time db in
     update_account k (\<lambda>a.
       let a = (if parent_author_name = SCORUM_ROOT_POST_PARENT_ACCOUNT then a\<lparr>a_last_root_post := t\<rparr> else a)
       in Inr (a\<lparr>a_last_post := t\<rparr>)) db)"

definition update_active_sp_holders_cashout_time :: "ext_lib \<Rightarrow> config \<Rightarrow> nat \<Rightarrow> database \<Rightarrow> database res" where
  "update_active_sp_holders_cashout_time F cfg k db =
     bindE (account_at k db) (\<lambda>acc.
     if a_active_sp_holders_cashout_time acc = time_maximum
     then update_account k (\<lambda>a. Inr (a\<lparr>a_active_sp_holders_cashout_time :=
            time_add F (head_block_time db) (active_sp_holders_reward_period cfg)\<rparr>)) db
     else Inr db)"

section \<open>Recovery\<close>

definition create_account_recovery ::
  "ext_lib \<Rightarrow> config \<Rightarrow> account_name \<Rightarrow> authority \<Rightarrow> database \<Rightarrow> database res"
where
  "create_account_recovery F cfg account_to_recover new_owner_authority db =
     (let t = head_block_time db;
          expires = time_add F t (account_recovery_request_expiration_period cfg) in
     (case ix_find_by (\<lambda>r. r_account_to_recover r = account_to_recover) (recovery_requests db) of
        None \<Rightarrow>
          bindE (fc_assert (\<not> is_impossible new_owner_authority) ''Cannot recover using an impossible authority.'') (\<lambda>_.
          bindE (fc_assert (weight_threshold new_owner_authority \<noteq> 0) ''Cannot recover using an open authority.'') (\<lambda>_.
          bindE (check_accounts_existence (account_auths new_owner_authority) db) (\<lambda>_.
          bindE (ix_emplace (\<lambda>_ _. False) (\<lambda>_. Inr \<lparr>r_account_to_recover = account_to_recover,
                   r_new_owner_authority = new_owner_authority, r_expires = expires\<rparr>) (recovery_requests db)) (\<lambda>(k, ix).
          Inr (db\<lparr>recovery_requests := ix\<rparr>)))))
      | Some request \<Rightarrow>
          if weight_threshold new_owner_authority = 0 then
            bindE (ix_remove request (recovery_requests db)) (\<lambda>ix. Inr (db\<lparr>recovery_requests := ix\<rparr>))
          else
            bindE (fc_assert (\<not> is_impossible new_owner_authority) ''Cannot recover using an impossible authority.'') (\<lambda>_.
            bindE (check_accounts_existence (account_auths new_owner_authority) db) (\<lambda>_.
            bindE (ix_modify (\<lambda>_ _. False) request (\<lambda>req. Inr (req\<lparr>r_new_owner_authority := new_owner_authority,
                     r_expires := expires\<rparr>)) (recovery_requests db)) (\<lambda>ix.
            Inr (db\<lparr>recovery_requests := ix\<rparr>))))))"

definition submit_account_recovery :: "nat \<Rightarrow> authority \<Rightarrow> authority \<Rightarrow> database \<Rightarrow> database res" where
  "submit_account_recovery account_to_recover new_owner_authority recent_owner_authority db =
     (let t = head_block_time db in
     bindE (account_at account_to_recover db) (\<lambda>acc.
     (case ix_find_by (\<lambda>r. r_account_to_recover r = a_name acc) (recovery_requests db) of
        None \<Rightarrow> Inl (Assert_exception ''There are no active recovery requests for this account.'')
      | Some request \<Rightarrow>
          bindE (ix_get (recovery_requests db) request) (\<lambda>req.
          bindE (fc_assert (r_new_owner_authority req = new_owner_authority)
                   ''New owner authority does not match recovery request.'') (\<lambda>_.
          let found = list_ex (\<lambda>r. h_account (snd r) = a_name acc
                \<and> h_previous_owner_authority (snd r) = recent_owner_authority) (indices (owner_histories db)) in
          bindE (fc_assert found ''Recent authority not found in authority history.'') (\<lambda>_.
          bindE (ix_remove request (recovery_requests db)) (\<lambda>ix.
          bindE (update_owner_authority account_to_recover new_owner_authority (db\<lparr>recovery_requests := ix\<rparr>)) (\<lambda>db.
          update_account account_to_recover (\<lambda>a. Inr (a\<lparr>a_last_account_recovery := t\<rparr>)) db))))))))"

definition change_recovery_account :: "ext_lib \<Rightarrow> config \<Rightarrow> nat \<Rightarrow> account_name \<Rightarrow> database \<Rightarrow> database res" where
  "change_recovery_account F cfg account_to_recover new_recovery_account_name db =
     (let effective = time_add F (head_block_time db) (owner_auth_recovery_period cfg) in
     bindE (account_at account_to_recover db) (\<lambda>acc.
     (case ix_find_by (\<lambda>r. c_account_to_recover r = a_name acc) (change_recovery_requests db) of
        None \<Rightarrow>
          bindE (ix_emplace (\<lambda>_ _. False) (\<lambda>_. Inr \<lparr>c_account_to_recover = a_name acc,
                   c_recovery_account = new_recovery_account_name, c_effective_on = effective\<rparr>)
                   (change_recovery_requests db)) (\<lambda>(k, ix).
          Inr (db\<lparr>change_recovery_requests := ix\<rparr>))
      | Some request \<Rightarrow>
          if a_recovery_account acc \<noteq> new_recovery_account_name then
            bindE (ix_modify (\<lambda>_ _. False) request (\<lambda>req. Inr (req\<lparr>c_recovery_account := new_recovery_account_name,
                     c_effective_on := effective\<rparr>)) (change_recovery_requests db)) (\<lambda>ix.
            Inr (db\<lparr>change_recovery_requests := ix\<rparr>))
          else
            bindE (ix_remove request (change_recovery_requests db)) (\<lambda>ix.
            Inr (db\<lparr>change_recovery_requests := ix\<rparr>)))))"

section \<open>Proxies\<close>

definition clear_witness_votes :: "nat \<Rightarrow> database \<Rightarrow> database res" where
  "clear_witness_votes k db =
     bindE (foldE ix_remove (ix_ids_by (\<lambda>v. wv_account v = k) (witness_votes db)) (witness_votes db)) (\<lambda>ix.
     update_account k (\<lambda>a. Inr (a\<lparr>a_witnesses_voted_for := 0\<rparr>)) (db\<lparr>witness_votes := ix\<rparr>))"

text \<open>
  The walk along the chain of proxies that refuses a loop; \<open>chain\<close> is the set of the accounts
  met so far and \<open>name\<close> the proxy of the last of them.
\<close>

function proxy_walk :: "nat list \<Rightarrow> account_name \<Rightarrow> database \<Rightarrow> unit res" where
  "proxy_walk chain name db =
     (if length name = 0 then Inr ()
      else
        bindE (get_account name db) (\<lambda>next_proxy.
        if next_proxy \<in> set chain then Inl (Assert_exception ''This proxy would create a proxy loop.'')
        else if length (next_proxy # chain) > SCORUM_MAX_PROXY_RECURSION_DEPTH
             then Inl (Assert_exception ''Proxy chain is too long.'')
        else
          bindE (account_at next_proxy db) (\<lambda>acc.
          proxy_walk (next_proxy # chain) (a_proxy acc) db)))"
  by pat_completeness auto
termination
  by (relation "measure (\<lambda>(chain, name, db). SCORUM_MAX_PROXY_RECURSION_DEPTH - length chain)") auto

declare proxy_walk.simps [simp del]

definition negate_all :: "ext_lib \<Rightarrow> int list \<Rightarrow> int list res" where
  "negate_all F xs = foldE (\<lambda>x acc. bindE (safe_neg F x) (\<lambda>y. Inr (acc @ [y]))) xs []"

text \<open>The proxy is passed as a copy of the account object, with its id.\<close>

definition update_voting_proxy ::
  "ext_lib \<Rightarrow> nat \<Rightarrow> (nat \<times> account_object) option \<Rightarrow> database \<Rightarrow> database res"
where
  "update_voting_proxy F account proxy_account db =
     bindE (account_at account db) (\<lambda>acc.
     bindE (negate_all F (amount (a_scorumpower acc) # a_proxied_vsf_votes acc)) (\<lambda>delta.
     bindE (adjust_proxied_witness_votes_all F account delta 0 db) (\<lambda>db.
     (case proxy_account of
        Some (pid, pobj) \<Rightarrow>
          bindE (proxy_walk (remdups [account, pid]) (a_proxy pobj) db) (\<lambda>_.
          bindE (clear_witness_votes account db) (\<lambda>db.
          bindE (update_account account (\<lambda>a. Inr (a\<lparr>a_proxy := a_name pobj\<rparr>)) db) (\<lambda>db.
          bindE (negate_all F delta) (\<lambda>delta.
          adjust_proxied_witness_votes_all F account delta 0 db))))
      | None \<Rightarrow>
          update_account account (\<lambda>a. Inr (a\<lparr>a_proxy := SCORUM_PROXY_TO_SELF_ACCOUNT\<rparr>)) db))))"

section \<open>Totals\<close>

record accounts_total =
  t_scr :: asset
  t_sp :: asset
  t_pending_scr :: asset
  t_pending_sp :: asset
  t_vsf_votes :: int

definition account_vsf_votes :: "ext_lib \<Rightarrow> account_object \<Rightarrow> int res" where
  "account_vsf_votes F a =
     (if a_proxy a = SCORUM_PROXY_TO_SELF_ACCOUNT then witness_vote_weight F a
      else Inr (a_proxied_vsf_votes a ! (SCORUM_MAX_PROXY_RECURSION_DEPTH - 1)))"

definition add_account_total :: "ext_lib \<Rightarrow> account_object \<Rightarrow> accounts_total \<Rightarrow> accounts_total res" where
  "add_account_total F a t =
     bindE (asset_add F (t_scr t) (a_balance a)) (\<lambda>scr.
     bindE (asset_add F (t_sp t) (a_scorumpower a)) (\<lambda>sp.
     bindE (asset_add F (t_pending_scr t) (a_pending_scr_reward a)) (\<lambda>pscr.
     bindE (asset_add F (t_pending_sp t) (a_pending_sp_reward a)) (\<lambda>psp.
     bindE (account_vsf_votes F a) (\<lambda>v.
     bindE (safe_add F (t_vsf_votes t) v) (\<lambda>votes.
     Inr \<lparr>t_scr = scr, t_sp = sp, t_pending_scr = pscr, t_pending_sp = psp, t_vsf_votes = votes\<rparr>))))))"

definition accounts_circulating_capital :: "ext_lib \<Rightarrow> database \<Rightarrow> accounts_total res" where
  "accounts_circulating_capital F db =
     foldE (add_account_total F) (sort_key a_name (map snd (indices (accounts db))))
       \<lparr>t_scr = SCR 0, t_sp = SP 0, t_pending_scr = SCR 0, t_pending_sp = SP 0, t_vsf_votes = 0\<rparr>"

end
