(* ===== verification/Supply_Ledger.thy ===== *)
theory Supply_Ledger
  imports Account_Service
begin

text \<open>
  The ledger of the chain: what the balances of accounts, contracts, bets and pools add up to,
  and how the account services move it. \<open>supply_sum\<close> is the amount that \<^verbatim>\<open>validate_invariants\<close>
  compares with \<^verbatim>\<open>total_supply\<close>, \<open>gaps\<close> the differences of the other equations it checks.
  \<open>ledger_move d db db'\<close> says that a step from \<open>db\<close> to \<open>db'\<close> keeps the database well formed,
  changes the supply by \<open>d\<close> and leaves every gap as it is; an operation is correct when its steps
  add up to zero.
\<close>

section \<open>Well-formed databases\<close>

definition account_ok :: "account_object \<Rightarrow> bool" where
  "account_ok a \<longleftrightarrow>
     symbol (a_balance a) = SCORUM_SYMBOL \<and> symbol (a_scorumpower a) = SP_SYMBOL \<and>
     symbol (a_pending_scr_reward a) = SCORUM_SYMBOL \<and> symbol (a_pending_sp_reward a) = SP_SYMBOL \<and>
     length (a_proxied_vsf_votes a) = SCORUM_MAX_PROXY_RECURSION_DEPTH"

definition dgp_ok :: "dynamic_global_property_object \<Rightarrow> bool" where
  "dgp_ok p \<longleftrightarrow>
     symbol (dgp_total_supply p) = SCORUM_SYMBOL \<and> symbol (dgp_circulating_capital p) = SCORUM_SYMBOL \<and>
     symbol (dgp_total_scorumpower p) = SP_SYMBOL \<and> symbol (dgp_total_pending_scr p) = SCORUM_SYMBOL \<and>
     symbol (dgp_total_pending_sp p) = SP_SYMBOL \<and> symbol (dgp_total_burned_scr p) = SCORUM_SYMBOL"

definition escrow_ok :: "escrow_object \<Rightarrow> bool" where
  "escrow_ok e \<longleftrightarrow> symbol (e_scorum_balance e) = SCORUM_SYMBOL \<and> symbol (e_pending_fee e) = SCORUM_SYMBOL"

definition budget_ok :: "adv_budget_object \<Rightarrow> bool" where
  "budget_ok b \<longleftrightarrow> symbol (ab_balance b) = SCORUM_SYMBOL \<and> symbol (ab_owner_pending_income b) = SCORUM_SYMBOL \<and>
     symbol (ab_budget_pending_outgo b) = SCORUM_SYMBOL"

definition pools_ok :: "database \<Rightarrow> bool" where
  "pools_ok db \<longleftrightarrow>
     symbol (f_activity_reward_balance (fund_scr db)) = SCORUM_SYMBOL \<and>
     symbol (rb_balance (content_reward_scr db)) = SCORUM_SYMBOL \<and>
     symbol (rb_balance (voters_reward_scr db)) = SCORUM_SYMBOL \<and>
     (\<forall>b \<in> snd ` set (indices (post_budgets db)). budget_ok b) \<and>
     (\<forall>b \<in> snd ` set (indices (banner_budgets db)). budget_ok b) \<and>
     (\<forall>p \<in> set_option (registration_pool db). symbol (rp_balance p) = SCORUM_SYMBOL) \<and>
     symbol (dc_scr_balance (dev_pool db)) = SCORUM_SYMBOL"

definition tables_ok :: "database \<Rightarrow> bool" where
  "tables_ok db \<longleftrightarrow>
     wf_index (accounts db) \<and> wf_index (witnesses db) \<and> wf_index (witness_votes db) \<and>
     wf_index (delegations db) \<and> wf_index (delegation_expirations db) \<and>
     wf_index (escrows db) \<and> wf_index (contracts db) \<and>
     wf_index (pending_bets db) \<and> wf_index (matched_bets db) \<and> wf_index (games db) \<and>
     wf_index (post_budgets db) \<and> wf_index (banner_budgets db) \<and> wf_index (withdraws db) \<and> wf_index (withdraw_routes db)"

definition db_ok :: "database \<Rightarrow> bool" where
  "db_ok db \<longleftrightarrow> tables_ok db \<and> pools_ok db \<and> dgp_ok (dgp db) \<and>
     (\<forall>a \<in> snd ` set (indices (accounts db)). account_ok a) \<and>
     (\<forall>e \<in> snd ` set (indices (escrows db)). escrow_ok e) \<and>
     (\<forall>c \<in> snd ` set (indices (contracts db)). symbol (s_amount c) = SCORUM_SYMBOL) \<and>
     (\<forall>b \<in> snd ` set (indices (pending_bets db)). symbol (b_stake (p_data b)) = SCORUM_SYMBOL) \<and>
     (\<forall>b \<in> snd ` set (indices (matched_bets db)).
        symbol (b_stake (m_bet1_data b)) = SCORUM_SYMBOL \<and> symbol (b_stake (m_bet2_data b)) = SCORUM_SYMBOL)"

section \<open>Totals\<close>

definition acc_sum :: "(account_object \<Rightarrow> int) \<Rightarrow> database \<Rightarrow> int" where
  "acc_sum f db = row_sum f (indices (accounts db))"

definition vsf :: "account_object \<Rightarrow> int" where
  "vsf a = (if a_proxy a = SCORUM_PROXY_TO_SELF_ACCOUNT
            then amount (a_scorumpower a) + sum_list (a_proxied_vsf_votes a)
            else a_proxied_vsf_votes a ! (SCORUM_MAX_PROXY_RECURSION_DEPTH - 1))"

definition budget_sum :: "adv_budget_object \<Rightarrow> int" where
  "budget_sum b = amount (ab_balance b) + amount (ab_owner_pending_income b) + amount (ab_budget_pending_outgo b)"

definition escrow_sum :: "escrow_object \<Rightarrow> int" where
  "escrow_sum e = amount (e_scorum_balance e) + amount (e_pending_fee e)"

definition matched_sum :: "matched_bet_object \<Rightarrow> int" where
  "matched_sum b = amount (b_stake (m_bet1_data b)) + amount (b_stake (m_bet2_data b))"

definition pools :: "database \<Rightarrow> int" where
  "pools db =
     amount (f_activity_reward_balance (fund_scr db)) + amount (f_activity_reward_balance (fund_sp db)) +
     (case fund_fifa db of None \<Rightarrow> 0 | Some f \<Rightarrow> amount (f_activity_reward_balance f)) +
     amount (rb_balance (content_reward_scr db)) + amount (rb_balance (voters_reward_scr db)) +
     amount (rb_balance (voters_reward_sp db)) +
     row_sum budget_sum (indices (post_budgets db)) + row_sum budget_sum (indices (banner_budgets db)) +
     (case fund_budget db of None \<Rightarrow> 0 | Some b \<Rightarrow> amount (fb_balance b)) +
     (case registration_pool db of None \<Rightarrow> 0 | Some p \<Rightarrow> amount (rp_balance p) + amount (rp_delegated p)) +
     amount (dc_sp_balance (dev_pool db)) + amount (dc_scr_balance (dev_pool db)) +
     (case witness_reward_migration db of None \<Rightarrow> 0 | Some x \<Rightarrow> x)"

text \<open>What is locked in contracts and bets.\<close>

definition locked :: "database \<Rightarrow> int" where
  "locked db =
     row_sum escrow_sum (indices (escrows db)) + row_sum (\<lambda>c. amount (s_amount c)) (indices (contracts db)) +
     row_sum matched_sum (indices (matched_bets db)) +
     row_sum (\<lambda>b. amount (b_stake (p_data b))) (indices (pending_bets db))"

definition supply_sum :: "database \<Rightarrow> int" where
  "supply_sum db =
     acc_sum (\<lambda>a. amount (a_balance a)) db + acc_sum (\<lambda>a. amount (a_pending_scr_reward a)) db +
     acc_sum (\<lambda>a. amount (a_pending_sp_reward a)) db +
     amount (dgp_total_scorumpower (dgp db)) + amount (dgp_total_burned_scr (dgp db)) + locked db + pools db"

definition gaps :: "database \<Rightarrow> int list" where
  "gaps db =
     [amount (dgp_circulating_capital (dgp db)) - amount (dgp_total_scorumpower (dgp db))
        - acc_sum (\<lambda>a. amount (a_balance a)) db,
      amount (dgp_total_scorumpower (dgp db)) - acc_sum (\<lambda>a. amount (a_scorumpower a)) db,
      amount (dgp_total_scorumpower (dgp db)) - acc_sum vsf db,
      amount (dgp_total_pending_scr (dgp db)) - acc_sum (\<lambda>a. amount (a_pending_scr_reward a)) db,
      amount (dgp_total_pending_sp (dgp db)) - acc_sum (\<lambda>a. amount (a_pending_sp_reward a)) db]"

definition ledger_move :: "int \<Rightarrow> database \<Rightarrow> database \<Rightarrow> bool" where
  "ledger_move d db db' \<longleftrightarrow>
     (db_ok db \<longrightarrow>
        db_ok db' \<and> supply_sum db' = supply_sum db + d \<and> gaps db' = gaps db \<and>
        dgp_total_supply (dgp db') = dgp_total_supply (dgp db))"

lemma ledger_move_refl [intro]: "ledger_move 0 db db"
  by (simp add: ledger_move_def)

lemma ledger_move_trans:
  "ledger_move d db db1 \<Longrightarrow> ledger_move e db1 db2 \<Longrightarrow> d + e = f \<Longrightarrow> ledger_move f db db2"
  by (auto simp: ledger_move_def)

text \<open>A loop of steps that move nothing moves nothing.\<close>

lemma ledger_move_foldE:
  assumes "foldE f xs db = Inr db'" and "\<And>x db db'. x \<in> set xs \<Longrightarrow> f x db = Inr db' \<Longrightarrow> ledger_move 0 db db'"
  shows "ledger_move 0 db db'"
  using assms(1) ledger_move_refl
  by (rule foldE_inv [where I = "ledger_move 0 db"]) (use assms(2) ledger_move_trans in fastforce)

section \<open>Updates of an account\<close>

lemma update_account_iff [res_simps]:
  "update_account k m db = Inr db' \<longleftrightarrow>
     (\<exists>a a'. map_of (indices (accounts db)) k = Some a \<and> m a = Inr a' \<and>
        \<not> collides account_clash k a' (indices (accounts db)) \<and>
        db' = db\<lparr>accounts := (accounts db)\<lparr>indices := put_row k a' (indices (accounts db))\<rparr>\<rparr>)"
  by (auto simp: update_account_def ix_modify_eq_Inr res_simps)

lemma update_dgp_iff [res_simps]:
  "update_dgp m db = Inr db' \<longleftrightarrow> (\<exists>p. m (dgp db) = Inr p \<and> db' = db\<lparr>dgp := p\<rparr>)"
  by (auto simp: update_dgp_def res_simps)

lemma account_at_iff [res_simps]: "account_at k db = Inr a \<longleftrightarrow> map_of (indices (accounts db)) k = Some a"
  by (simp add: account_at_def res_simps)

lemma set_put_row_subset: "set (put_row k v rs) \<subseteq> insert (k, v) (set rs)"
  by (induction rs) auto

lemma snd_put_row: "(\<forall>x \<in> snd ` set rs. P x) \<Longrightarrow> P v \<Longrightarrow> (\<forall>x \<in> snd ` set (put_row k v rs). P x)"
  using set_put_row_subset [of k v rs] by force

lemma snd_drop_row: "(\<forall>x \<in> snd ` set rs. P x) \<Longrightarrow> (\<forall>x \<in> snd ` set (drop_row k rs). P x)"
  by (auto simp: drop_row_def)

lemma map_of_snd: "map_of rs k = Some v \<Longrightarrow> v \<in> snd ` set rs"
  by (force dest: map_of_SomeD)

lemma db_ok_account: "db_ok db \<Longrightarrow> map_of (indices (accounts db)) k = Some a \<Longrightarrow> account_ok a"
  by (auto simp: db_ok_def dest: map_of_snd)

text \<open>The database with a row of the account table replaced.\<close>

abbreviation put_account :: "nat \<Rightarrow> account_object \<Rightarrow> database \<Rightarrow> database" where
  "put_account k a db \<equiv> db\<lparr>accounts := (accounts db)\<lparr>indices := put_row k a (indices (accounts db))\<rparr>\<rparr>"

lemma db_ok_put_account:
  assumes "db_ok db" and "map_of (indices (accounts db)) k = Some a" and "account_ok a'"
  shows "db_ok (put_account k a' db)"
proof -
  have "fst ` set (put_row k a' (indices (accounts db))) = fst ` set (indices (accounts db))"
    using assms(2) by (force dest: map_of_SomeD)
  moreover have "\<forall>x \<in> snd ` set (put_row k a' (indices (accounts db))). account_ok x"
    using assms by (intro snd_put_row) (simp_all add: db_ok_def)
  ultimately show ?thesis
    using assms(1) by (simp add: db_ok_def tables_ok_def pools_ok_def wf_index_def)
qed

lemma acc_sum_put_account:
  assumes "db_ok db" and "map_of (indices (accounts db)) k = Some a"
  shows "acc_sum f (put_account k a' db) = acc_sum f db - f a + f a'"
  using assms row_sum_put_old [of "indices (accounts db)" k a f a']
  by (simp add: acc_sum_def db_ok_def tables_ok_def wf_index_def)

lemma supply_parts_put_account [simp]:
  "locked (put_account k a db) = locked db" "pools (put_account k a db) = pools db"
  "dgp (put_account k a db) = dgp db"
  by (simp_all add: locked_def pools_def)

lemma supply_parts_dgp [simp]:
  "locked (db\<lparr>dgp := p\<rparr>) = locked db" "pools (db\<lparr>dgp := p\<rparr>) = pools db" "acc_sum f (db\<lparr>dgp := p\<rparr>) = acc_sum f db"
  by (simp_all add: locked_def pools_def acc_sum_def)

lemma db_ok_dgp: "db_ok db \<Longrightarrow> dgp_ok p \<Longrightarrow> db_ok (db\<lparr>dgp := p\<rparr>)"
  by (simp add: db_ok_def tables_ok_def pools_ok_def)

lemma db_ok_dgp_ok: "db_ok db \<Longrightarrow> dgp_ok (dgp db)"
  by (simp add: db_ok_def)

lemmas account_ok_sel = account_ok_def

text \<open>The fields of an account the ledger depends on.\<close>

definition ledger_fields :: "account_object \<Rightarrow> asset \<times> asset \<times> asset \<times> asset \<times> int list \<times> account_name" where
  "ledger_fields a = (a_balance a, a_scorumpower a, a_pending_scr_reward a, a_pending_sp_reward a,
     a_proxied_vsf_votes a, a_proxy a)"

lemma ledger_move_update_account:
  assumes "update_account k m db = Inr db'"
    and "\<And>a a'. m a = Inr a' \<Longrightarrow> ledger_fields a' = ledger_fields a"
  shows "ledger_move 0 db db'"
  unfolding ledger_move_def
proof
  assume ok: "db_ok db"
  from assms(1) obtain a a' where a: "map_of (indices (accounts db)) k = Some a" "m a = Inr a'"
    and db': "db' = put_account k a' db" by (auto simp: res_simps)
  have eq: "ledger_fields a' = ledger_fields a" by (rule assms(2)) (rule a(2))
  then have fields: "a_balance a' = a_balance a" "a_scorumpower a' = a_scorumpower a"
    "a_pending_scr_reward a' = a_pending_scr_reward a" "a_pending_sp_reward a' = a_pending_sp_reward a"
    "a_proxied_vsf_votes a' = a_proxied_vsf_votes a" "a_proxy a' = a_proxy a"
    by (simp_all add: ledger_fields_def)
  then have "account_ok a'" using db_ok_account [OF ok a(1)] by (simp add: account_ok_def)
  moreover have "vsf a' = vsf a" using fields by (simp add: vsf_def)
  ultimately show "db_ok db' \<and> supply_sum db' = supply_sum db + 0 \<and> gaps db' = gaps db \<and>
      dgp_total_supply (dgp db') = dgp_total_supply (dgp db)"
    using db_ok_put_account [OF ok a(1)] fields
    by (simp add: db' supply_sum_def gaps_def acc_sum_put_account [OF ok a(1)])
qed

section \<open>Balances\<close>

lemma scr_update: "symbol x = SCORUM_SYMBOL \<Longrightarrow> x\<lparr>amount := n\<rparr> = SCR n"
  by (cases x) simp

lemma sp_update: "symbol x = SP_SYMBOL \<Longrightarrow> x\<lparr>amount := n\<rparr> = SP n"
  by (cases x) simp

lemma increase_balance_iff:
  assumes "ext_ok F"
  shows "increase_balance F k amt db = Inr db' \<longleftrightarrow>
    (\<exists>a. map_of (indices (accounts db)) k = Some a \<and>
       symbol amt = SCORUM_SYMBOL \<and> symbol (a_balance a) = SCORUM_SYMBOL \<and>
       symbol (dgp_circulating_capital (dgp db)) = SCORUM_SYMBOL \<and>
       in_i64 (amount (a_balance a) + amount amt) \<and> in_i64 (amount (dgp_circulating_capital (dgp db)) + amount amt) \<and>
       \<not> collides account_clash k (a\<lparr>a_balance := SCR (amount (a_balance a) + amount amt)\<rparr>) (indices (accounts db)) \<and>
       db' = (put_account k (a\<lparr>a_balance := SCR (amount (a_balance a) + amount amt)\<rparr>) db)
               \<lparr>dgp := (dgp db)\<lparr>dgp_circulating_capital := SCR (amount (dgp_circulating_capital (dgp db)) + amount amt)\<rparr>\<rparr>)"
  using assms by (auto simp: increase_balance_def res_simps fc_simps scr_update)

lemma increase_balance_move:
  assumes "ext_ok F" and "increase_balance F k amt db = Inr db'"
  shows "ledger_move (amount amt) db db'"
  unfolding ledger_move_def
proof
  assume ok: "db_ok db"
  from assms obtain a where a: "map_of (indices (accounts db)) k = Some a"
    and db': "db' = (put_account k (a\<lparr>a_balance := SCR (amount (a_balance a) + amount amt)\<rparr>) db)
               \<lparr>dgp := (dgp db)\<lparr>dgp_circulating_capital := SCR (amount (dgp_circulating_capital (dgp db)) + amount amt)\<rparr>\<rparr>"
    unfolding increase_balance_iff [OF assms(1)] by blast
  have "account_ok a" "dgp_ok (dgp db)" using db_ok_account [OF ok a] ok by (auto simp: db_ok_def)
  then have "db_ok db'"
    unfolding db' by (intro db_ok_dgp db_ok_put_account [OF ok a]) (simp_all add: account_ok_def dgp_ok_def)
  then show "db_ok db' \<and> supply_sum db' = supply_sum db + amount amt \<and> gaps db' = gaps db \<and>
      dgp_total_supply (dgp db') = dgp_total_supply (dgp db)"
    by (simp add: db' supply_sum_def gaps_def acc_sum_put_account [OF ok a] vsf_def)
qed

lemma decrease_balance_iff:
  assumes "ext_ok F" and "symbol amt = SCORUM_SYMBOL"
  shows "decrease_balance F k amt db = Inr db' \<longleftrightarrow>
    in_i64 (- amount amt) \<and> increase_balance F k (SCR (- amount amt)) db = Inr db'"
  using assms by (auto simp: decrease_balance_def res_simps fc_simps scr_update)

lemma decrease_balance_symbol:
  "ext_ok F \<Longrightarrow> decrease_balance F k amt db = Inr db' \<Longrightarrow> symbol amt = SCORUM_SYMBOL"
  by (auto simp: decrease_balance_def increase_balance_def res_simps fc_simps)

lemma decrease_balance_move:
  assumes "ext_ok F" and "decrease_balance F k amt db = Inr db'"
  shows "ledger_move (- amount amt) db db'"
proof -
  have "increase_balance F k (SCR (- amount amt)) db = Inr db'"
    using assms decrease_balance_iff decrease_balance_symbol by blast
  from increase_balance_move [OF assms(1) this] show ?thesis by simp
qed

lemma burn_scr_move:
  assumes "ext_ok F" and "burn_scr F k amt db = Inr db'"
  shows "ledger_move 0 db db'"
  unfolding ledger_move_def
proof
  assume ok: "db_ok db"
  from assms obtain a x y where a: "map_of (indices (accounts db)) k = Some a"
    and amt: "symbol amt = SCORUM_SYMBOL"
    and y: "y = (a_balance a)\<lparr>amount := amount (a_balance a) - amount amt\<rparr>"
    and db': "db' = (put_account k (a\<lparr>a_burned_scr := x, a_balance := y\<rparr>) db)
        \<lparr>dgp := (dgp db)\<lparr>
           dgp_total_burned_scr := (dgp_total_burned_scr (dgp db))\<lparr>amount := amount (dgp_total_burned_scr (dgp db)) + amount amt\<rparr>,
           dgp_circulating_capital := (dgp_circulating_capital (dgp db))\<lparr>amount := amount (dgp_circulating_capital (dgp db)) - amount amt\<rparr>\<rparr>\<rparr>"
    by (auto simp: burn_scr_def res_simps fc_simps)
  have "account_ok a" "dgp_ok (dgp db)" using db_ok_account [OF ok a] ok by (auto simp: db_ok_def)
  then have "db_ok db'"
    unfolding db' by (intro db_ok_dgp db_ok_put_account [OF ok a]) (simp_all add: account_ok_def dgp_ok_def y)
  then show "db_ok db' \<and> supply_sum db' = supply_sum db + 0 \<and> gaps db' = gaps db \<and>
      dgp_total_supply (dgp db') = dgp_total_supply (dgp db)"
    by (simp add: db' supply_sum_def gaps_def acc_sum_put_account [OF ok a] vsf_def y)
qed

lemma increase_pending_balance_move:
  assumes "ext_ok F" and "increase_pending_balance F k amt db = Inr db'"
  shows "ledger_move (amount amt) db db'"
  unfolding ledger_move_def
proof
  assume ok: "db_ok db"
  from assms obtain a x where a: "map_of (indices (accounts db)) k = Some a"
    and x: "x = (a_pending_scr_reward a)\<lparr>amount := amount (a_pending_scr_reward a) + amount amt\<rparr>"
    and db': "db' = (put_account k (a\<lparr>a_pending_scr_reward := x\<rparr>) db)
        \<lparr>dgp := (dgp db)\<lparr>dgp_total_pending_scr :=
           (dgp_total_pending_scr (dgp db))\<lparr>amount := amount (dgp_total_pending_scr (dgp db)) + amount amt\<rparr>\<rparr>\<rparr>"
    by (auto simp: increase_pending_balance_def res_simps fc_simps)
  have "account_ok a" "dgp_ok (dgp db)" using db_ok_account [OF ok a] ok by (auto simp: db_ok_def)
  then have "db_ok db'"
    unfolding db' by (intro db_ok_dgp db_ok_put_account [OF ok a]) (simp_all add: account_ok_def dgp_ok_def x)
  then show "db_ok db' \<and> supply_sum db' = supply_sum db + amount amt \<and> gaps db' = gaps db \<and>
      dgp_total_supply (dgp db') = dgp_total_supply (dgp db)"
    by (simp add: db' supply_sum_def gaps_def acc_sum_put_account [OF ok a] vsf_def x)
qed

lemma increase_pending_scorumpower_move:
  assumes "ext_ok F" and "increase_pending_scorumpower F k amt db = Inr db'"
  shows "ledger_move (amount amt) db db'"
  unfolding ledger_move_def
proof
  assume ok: "db_ok db"
  from assms obtain a x where a: "map_of (indices (accounts db)) k = Some a"
    and x: "x = (a_pending_sp_reward a)\<lparr>amount := amount (a_pending_sp_reward a) + amount amt\<rparr>"
    and db': "db' = (put_account k (a\<lparr>a_pending_sp_reward := x\<rparr>) db)
        \<lparr>dgp := (dgp db)\<lparr>dgp_total_pending_sp :=
           (dgp_total_pending_sp (dgp db))\<lparr>amount := amount (dgp_total_pending_sp (dgp db)) + amount amt\<rparr>\<rparr>\<rparr>"
    by (auto simp: increase_pending_scorumpower_def res_simps fc_simps)
  have "account_ok a" "dgp_ok (dgp db)" using db_ok_account [OF ok a] ok by (auto simp: db_ok_def)
  then have "db_ok db'"
    unfolding db' by (intro db_ok_dgp db_ok_put_account [OF ok a]) (simp_all add: account_ok_def dgp_ok_def x)
  then show "db_ok db' \<and> supply_sum db' = supply_sum db + amount amt \<and> gaps db' = gaps db \<and>
      dgp_total_supply (dgp db') = dgp_total_supply (dgp db)"
    by (simp add: db' supply_sum_def gaps_def acc_sum_put_account [OF ok a] vsf_def x)
qed

section \<open>Votes\<close>

text \<open>A step that moves votes only: the balances stay, the counted votes change by \<open>d\<close>.\<close>

definition balance_sums :: "database \<Rightarrow> int list" where
  "balance_sums db =
     [acc_sum (\<lambda>a. amount (a_balance a)) db, acc_sum (\<lambda>a. amount (a_scorumpower a)) db,
      acc_sum (\<lambda>a. amount (a_pending_scr_reward a)) db, acc_sum (\<lambda>a. amount (a_pending_sp_reward a)) db,
      locked db, pools db]"

definition vote_move :: "int \<Rightarrow> database \<Rightarrow> database \<Rightarrow> bool" where
  "vote_move d db db' \<longleftrightarrow>
     (db_ok db \<longrightarrow>
        db_ok db' \<and> dgp db' = dgp db \<and> balance_sums db' = balance_sums db \<and>
        acc_sum vsf db' = acc_sum vsf db + d)"

lemma vote_move_refl [intro]: "vote_move 0 db db"
  by (simp add: vote_move_def)

lemma vote_move_trans:
  "vote_move d db db1 \<Longrightarrow> vote_move e db1 db2 \<Longrightarrow> d + e = f \<Longrightarrow> vote_move f db db2"
  by (auto simp: vote_move_def)

lemma vote_move_ledger: "vote_move 0 db db' \<Longrightarrow> ledger_move 0 db db'"
  by (simp add: vote_move_def ledger_move_def balance_sums_def supply_sum_def gaps_def)

lemma update_witness_row_iff [res_simps]:
  "update_witness_row k m db = Inr db' \<longleftrightarrow>
     (\<exists>w w'. map_of (indices (witnesses db)) k = Some w \<and> m w = Inr w' \<and>
        \<not> collides witness_clash k w' (indices (witnesses db)) \<and>
        db' = db\<lparr>witnesses := (witnesses db)\<lparr>indices := put_row k w' (indices (witnesses db))\<rparr>\<rparr>)"
  by (auto simp: update_witness_row_def ix_modify_eq_Inr res_simps)

lemma update_witness_row_move:
  assumes "update_witness_row k m db = Inr db'"
  shows "vote_move 0 db db'"
proof -
  from assms obtain ix where ix: "ix_modify witness_clash k m (witnesses db) = Inr ix"
    and db': "db' = db\<lparr>witnesses := ix\<rparr>" by (auto simp: update_witness_row_def res_simps)
  have "wf_index (witnesses db) \<Longrightarrow> wf_index ix" using ix by (rule wf_index_modify [rotated])
  then show ?thesis
    by (simp add: vote_move_def db' db_ok_def tables_ok_def pools_ok_def balance_sums_def acc_sum_def
        locked_def pools_def)
qed

lemma adjust_witness_vote_move:
  "adjust_witness_vote F k delta db = Inr db' \<Longrightarrow> vote_move 0 db db'"
  unfolding adjust_witness_vote_def by (rule update_witness_row_move)

lemma adjust_witness_votes_move:
  assumes "adjust_witness_votes F k delta db = Inr db'"
  shows "vote_move 0 db db'"
  using assms unfolding adjust_witness_votes_def
  by (rule foldE_inv [where I = "vote_move 0 db"])
    (use vote_move_refl adjust_witness_vote_move vote_move_trans in fastforce)+

lemma sum_list_update_int:
  "i < length xs \<Longrightarrow> sum_list (xs[i := x]) = sum_list xs - xs ! i + (x :: int)"
  by (induction xs arbitrary: i) (auto split: nat.splits)

text \<open>Adding votes to a slot of an account: what the account then counts for.\<close>

definition counted :: "account_object \<Rightarrow> nat \<Rightarrow> int \<Rightarrow> int" where
  "counted a i d =
     (if a_proxy a = SCORUM_PROXY_TO_SELF_ACCOUNT \<or> i = SCORUM_MAX_PROXY_RECURSION_DEPTH - 1 then d else 0)"

lemma add_proxied_effect:
  assumes "ext_ok F" and "add_proxied F i d a = Inr a'" and "i < length (a_proxied_vsf_votes a)"
    and "length (a_proxied_vsf_votes a) = SCORUM_MAX_PROXY_RECURSION_DEPTH"
  shows "\<exists>votes. a' = a\<lparr>a_proxied_vsf_votes := votes\<rparr> \<and> length votes = SCORUM_MAX_PROXY_RECURSION_DEPTH
    \<and> vsf a' = vsf a + counted a i d"
proof -
  have a': "a' = a\<lparr>a_proxied_vsf_votes := (a_proxied_vsf_votes a)[i := a_proxied_vsf_votes a ! i + d]\<rparr>"
    using assms(1,2) by (auto simp: add_proxied_def res_simps fc_simps)
  then have "vsf a' = vsf a + counted a i d"
    using assms(3,4) by (auto simp: vsf_def counted_def sum_list_update_int nth_list_update)
  then show ?thesis using a' assms(4) by auto
qed

lemma vote_move_update_account:
  assumes "update_account k m db = Inr db'"
    and "map_of (indices (accounts db)) k = Some a"
    and "\<And>a'. account_ok a \<Longrightarrow> m a = Inr a' \<Longrightarrow>
           \<exists>votes. a' = a\<lparr>a_proxied_vsf_votes := votes\<rparr> \<and> length votes = SCORUM_MAX_PROXY_RECURSION_DEPTH
             \<and> vsf a' = vsf a + d"
  shows "vote_move d db db'"
  unfolding vote_move_def
proof
  assume ok: "db_ok db"
  note a_ok = db_ok_account [OF ok assms(2)]
  from assms(1,2) obtain a' where m: "m a = Inr a'" and db': "db' = put_account k a' db" by (auto simp: res_simps)
  from assms(3) [OF a_ok m] obtain votes where a': "a' = a\<lparr>a_proxied_vsf_votes := votes\<rparr>"
    and len: "length votes = SCORUM_MAX_PROXY_RECURSION_DEPTH" and v: "vsf a' = vsf a + d" by blast
  have "account_ok a'" using a_ok len by (simp add: a' account_ok_def)
  then show "db_ok db' \<and> dgp db' = dgp db \<and> balance_sums db' = balance_sums db \<and>
      acc_sum vsf db' = acc_sum vsf db + d"
    using db_ok_put_account [OF ok assms(2)] v
    by (simp add: db' balance_sums_def acc_sum_put_account [OF ok assms(2)] a')
qed

lemma get_account_row:
  assumes "get_account name db = Inr k" and "db_ok db"
  shows "\<exists>a. map_of (indices (accounts db)) k = Some a \<and> a_name a = name"
  using assms ix_find_by_Some [of "\<lambda>a. a_name a = name" "accounts db" k]
  by (simp add: get_account_def res_simps db_ok_def tables_ok_def wf_index_def)

text \<open>
  A change of scorum power reaches exactly one place where it is counted: the first account of
  the proxy chain that votes itself, or the account where the chain is cut off.
\<close>

lemma adjust_proxied_witness_votes_move:
  assumes "ext_ok F" and "adjust_proxied_witness_votes F k delta depth db = Inr db'" and "db_ok db"
    and "map_of (indices (accounts db)) k = Some acc"
  shows "vote_move (if a_proxy acc = SCORUM_PROXY_TO_SELF_ACCOUNT \<or> depth \<ge> SCORUM_MAX_PROXY_RECURSION_DEPTH
                    then 0 else delta) db db'"
  using assms
proof (induction "SCORUM_MAX_PROXY_RECURSION_DEPTH - depth" arbitrary: k depth db acc)
  case 0
  then have "depth \<ge> SCORUM_MAX_PROXY_RECURSION_DEPTH" by simp
  with "0.prems" show ?case
    by (subst (asm) adjust_proxied_witness_votes.simps)
      (auto simp: account_at_def ix_get_def ix_find_def intro: adjust_witness_votes_move split: if_splits)
next
  case (Suc n)
  then have depth: "depth < SCORUM_MAX_PROXY_RECURSION_DEPTH" by simp
  show ?case
  proof (cases "a_proxy acc = SCORUM_PROXY_TO_SELF_ACCOUNT")
    case True
    with Suc.prems show ?thesis
      by (subst (asm) adjust_proxied_witness_votes.simps)
        (auto simp: account_at_def ix_get_def ix_find_def intro: adjust_witness_votes_move)
  next
    case False
    from Suc.prems(2,4) False depth obtain p db1 where
      p: "get_account (a_proxy acc) db = Inr p" and
      db1: "update_account p (add_proxied F depth delta) db = Inr db1" and
      rec: "adjust_proxied_witness_votes F p delta (depth + 1) db1 = Inr db'"
      by (subst (asm) adjust_proxied_witness_votes.simps) (auto simp: res_simps split: if_splits)
    obtain b where b: "map_of (indices (accounts db)) p = Some b"
      using get_account_row [OF p Suc.prems(3)] by blast
    have move1: "vote_move (counted b depth delta) db db1"
      by (rule vote_move_update_account [OF db1 b])
        (use add_proxied_effect [OF Suc.prems(1)] depth in \<open>auto simp: account_ok_def\<close>)
    then have ok1: "db_ok db1" using Suc.prems(3) by (simp add: vote_move_def)
    from db1 b obtain b' where b': "map_of (indices (accounts db1)) p = Some b'"
      and "add_proxied F depth delta b = Inr b'" by (auto simp: res_simps)
    then have proxy: "a_proxy b' = a_proxy b" by (auto simp: add_proxied_def res_simps)
    have "n = SCORUM_MAX_PROXY_RECURSION_DEPTH - (depth + 1)" using Suc.hyps(2) by simp
    note move2 = Suc.hyps(1) [OF this Suc.prems(1) rec ok1 b']
    show ?thesis
      by (rule vote_move_trans [OF move1 move2]) (use False depth proxy in \<open>auto simp: counted_def\<close>)
  qed
qed

lemma increase_scorumpower_move:
  assumes F: "ext_ok F" and "increase_scorumpower F k amt db = Inr db'"
  shows "ledger_move (amount amt) db db'"
  unfolding ledger_move_def
proof
  assume ok: "db_ok db"
  let ?p = "\<lambda>x y. (dgp db)\<lparr>dgp_circulating_capital := x, dgp_total_scorumpower := y\<rparr>"
  from assms obtain a where a: "map_of (indices (accounts db)) k = Some a"
    and amt: "symbol amt = SP_SYMBOL" and
    adj: "adjust_proxied_witness_votes F k (amount amt) 0
       ((put_account k (a\<lparr>a_scorumpower := (a_scorumpower a)\<lparr>amount := amount (a_scorumpower a) + amount amt\<rparr>\<rparr>) db)
          \<lparr>dgp := ?p ((dgp_circulating_capital (dgp db))\<lparr>amount := amount (dgp_circulating_capital (dgp db)) + amount amt\<rparr>)
                    ((dgp_total_scorumpower (dgp db))\<lparr>amount := amount (dgp_total_scorumpower (dgp db)) + amount amt\<rparr>)\<rparr>) = Inr db'"
      (is "adjust_proxied_witness_votes F k _ 0 ?db1 = _")
    by (auto simp: increase_scorumpower_def res_simps fc_simps)
  let ?a = "a\<lparr>a_scorumpower := (a_scorumpower a)\<lparr>amount := amount (a_scorumpower a) + amount amt\<rparr>\<rparr>"
  have "account_ok a" "dgp_ok (dgp db)" using db_ok_account [OF ok a] ok by (auto simp: db_ok_def)
  then have ok1: "db_ok ?db1"
    by (intro db_ok_dgp db_ok_put_account [OF ok a]) (simp_all add: account_ok_def dgp_ok_def)
  have row1: "map_of (indices (accounts ?db1)) k = Some ?a" by simp
  have vsf1: "acc_sum vsf ?db1 + (if a_proxy a = SCORUM_PROXY_TO_SELF_ACCOUNT then 0 else amount amt)
      = acc_sum vsf db + amount amt"
    by (simp add: acc_sum_put_account [OF ok a] vsf_def)
  have depth: "\<not> SCORUM_MAX_PROXY_RECURSION_DEPTH \<le> 0" by (simp add: SCORUM_MAX_PROXY_RECURSION_DEPTH_def)
  have "vote_move (if a_proxy a = SCORUM_PROXY_TO_SELF_ACCOUNT then 0 else amount amt) ?db1 db'"
    using adjust_proxied_witness_votes_move [OF F adj ok1 row1] depth by (cases "a_proxy a = SCORUM_PROXY_TO_SELF_ACCOUNT") simp_all
  then have *: "db_ok db'" "dgp db' = dgp ?db1" "balance_sums db' = balance_sums ?db1"
    "acc_sum vsf db' = acc_sum vsf db + amount amt"
    using ok1 vsf1 by (simp_all add: vote_move_def)
  have "supply_sum db' = supply_sum db + amount amt"
    using *(2,3) by (simp add: balance_sums_def supply_sum_def acc_sum_put_account [OF ok a])
  moreover have "gaps db' = gaps db"
    using *(2,3,4) by (simp add: balance_sums_def gaps_def acc_sum_put_account [OF ok a])
  ultimately show "db_ok db' \<and> supply_sum db' = supply_sum db + amount amt \<and> gaps db' = gaps db \<and>
      dgp_total_supply (dgp db') = dgp_total_supply (dgp db)"
    using *(1,2) by simp
qed

lemma decrease_scorumpower_move:
  assumes "ext_ok F" and "decrease_scorumpower F k amt db = Inr db'"
  shows "ledger_move (- amount amt) db db'"
proof -
  from assms obtain n where "asset_neg F amt = Inr n" "increase_scorumpower F k n db = Inr db'"
    by (auto simp: decrease_scorumpower_def res_simps)
  with increase_scorumpower_move [OF assms(1)] assms(1) show ?thesis by (fastforce simp: fc_simps)
qed

lemma create_scorumpower_move:
  "ext_ok F \<Longrightarrow> create_scorumpower F k scorum db = Inr db' \<Longrightarrow> ledger_move (amount scorum) db db'"
  unfolding create_scorumpower_def by (drule (1) increase_scorumpower_move) simp

lemma decrease_pending_balance_move:
  assumes "ext_ok F" and "decrease_pending_balance F k amt db = Inr db'"
  shows "ledger_move (- amount amt) db db'"
proof -
  from assms obtain n where "asset_neg F amt = Inr n" "increase_pending_balance F k n db = Inr db'"
    by (auto simp: decrease_pending_balance_def res_simps)
  with increase_pending_balance_move [OF assms(1)] assms(1) show ?thesis by (fastforce simp: fc_simps)
qed

lemma decrease_pending_scorumpower_move:
  assumes "ext_ok F" and "decrease_pending_scorumpower F k amt db = Inr db'"
  shows "ledger_move (- amount amt) db db'"
proof -
  from assms obtain n where "asset_neg F amt = Inr n" "increase_pending_scorumpower F k n db = Inr db'"
    by (auto simp: decrease_pending_scorumpower_def res_simps)
  with increase_pending_scorumpower_move [OF assms(1)] assms(1) show ?thesis by (fastforce simp: fc_simps)
qed

section \<open>Operations that move nothing\<close>

lemma increase_delegated_move:
  assumes "increase_delegated_scorumpower F k amt db = Inr db'"
  shows "ledger_move 0 db db'"
proof -
  from assms have "update_account k (\<lambda>a. bindE (asset_add F (a_delegated_scorumpower a) amt) (\<lambda>b.
       Inr (a\<lparr>a_delegated_scorumpower := b\<rparr>))) db = Inr db'"
    by (simp add: increase_delegated_scorumpower_def res_simps)
  then show ?thesis by (rule ledger_move_update_account) (auto simp: res_simps ledger_fields_def)
qed

lemma increase_received_move:
  assumes "increase_received_scorumpower F k amt db = Inr db'"
  shows "ledger_move 0 db db'"
proof -
  from assms have "update_account k (\<lambda>a. bindE (asset_add F (a_received_scorumpower a) amt) (\<lambda>b.
       Inr (a\<lparr>a_received_scorumpower := b\<rparr>))) db = Inr db'"
    by (simp add: increase_received_scorumpower_def res_simps)
  then show ?thesis by (rule ledger_move_update_account) (auto simp: res_simps ledger_fields_def)
qed

lemma decrease_received_move:
  "decrease_received_scorumpower F k amt db = Inr db' \<Longrightarrow> ledger_move 0 db db'"
  by (auto simp: decrease_received_scorumpower_def res_simps intro: increase_received_move)

lemma drop_challenged_move:
  assumes "drop_challenged k db = Inr db'"
  shows "ledger_move 0 db db'"
proof -
  from assms obtain acc :: account_object where "(if a_active_challenged acc
      then update_account k (\<lambda>a. Inr (a\<lparr>a_active_challenged := False, a_last_active_proved := head_block_time db\<rparr>)) db
      else Inr db) = Inr db'"
    unfolding drop_challenged_def Let_def bindE_Inr_iff by blast
  then show ?thesis
    by (cases "a_active_challenged acc")
      (auto simp: ledger_fields_def elim: ledger_move_update_account)
qed

lemma prove_authority_move: "prove_authority k ro db = Inr db' \<Longrightarrow> ledger_move 0 db db'"
  unfolding prove_authority_def Let_def
  by (erule ledger_move_update_account) (auto simp: ledger_fields_def split: if_splits)

lemma increase_witnesses_voted_for_move:
  "increase_witnesses_voted_for k db = Inr db' \<Longrightarrow> ledger_move 0 db db'"
  unfolding increase_witnesses_voted_for_def by (erule ledger_move_update_account) (auto simp: ledger_fields_def)

lemma decrease_witnesses_voted_for_move:
  "decrease_witnesses_voted_for k db = Inr db' \<Longrightarrow> ledger_move 0 db db'"
  unfolding decrease_witnesses_voted_for_def by (erule ledger_move_update_account) (auto simp: ledger_fields_def)

lemma add_post_move: "add_post k parent db = Inr db' \<Longrightarrow> ledger_move 0 db db'"
  unfolding add_post_def Let_def
  by (erule ledger_move_update_account) (auto simp: ledger_fields_def split: if_splits)

text \<open>Tables outside the ledger can change freely, as long as they stay tables.\<close>

definition ledger_view :: "database \<Rightarrow> _" where
  "ledger_view db = (accounts db, escrows db, contracts db, pending_bets db, matched_bets db, dgp db,
     (fund_scr db, fund_sp db, fund_fifa db, content_reward_scr db, voters_reward_scr db, voters_reward_sp db,
      post_budgets db, banner_budgets db, fund_budget db, registration_pool db, dev_pool db, witness_reward_migration db))"

lemma ledger_move_same:
  assumes "ledger_view db' = ledger_view db" and "tables_ok db \<Longrightarrow> tables_ok db'"
  shows "ledger_move 0 db db'"
proof -
  have eq: "accounts db' = accounts db" "escrows db' = escrows db" "contracts db' = contracts db"
    "pending_bets db' = pending_bets db" "matched_bets db' = matched_bets db" "dgp db' = dgp db"
    "pools db' = pools db" "pools_ok db' = pools_ok db"
    using assms(1) by (simp_all add: ledger_view_def pools_def pools_ok_def)
  with assms(2) show ?thesis
    by (simp add: ledger_move_def db_ok_def supply_sum_def gaps_def acc_sum_def locked_def)
qed

lemma ledger_move_same_tables:
  assumes "ledger_view db' = ledger_view db"
    and "(witnesses db', witness_votes db', delegations db', delegation_expirations db', games db', withdraws db', withdraw_routes db')
       = (witnesses db, witness_votes db, delegations db, delegation_expirations db, games db, withdraws db, withdraw_routes db)"
  shows "ledger_move 0 db db'"
  using assms(1) by (rule ledger_move_same) (use assms in \<open>simp add: tables_ok_def ledger_view_def\<close>)

section \<open>Creating and updating accounts\<close>

lemma row_sum_emplace:
  assumes "ix_emplace clash c ix = Inr (k, ix')"
  shows "\<exists>v. c k = Inr v \<and> k \<notin> fst ` set (indices ix) \<and> indices ix' = put_row k v (indices ix) \<and>
    row_sum f (indices ix') = row_sum f (indices ix) + f v"
  using assms by (auto simp: ix_emplace_eq_Inr row_sum_put_new)

lemma create_account_row_move:
  assumes "create_account_row m db = Inr (k, db')"
    and "ledger_fields (m new_account_object) = ledger_fields new_account_object"
  shows "ledger_move 0 db db'"
  unfolding ledger_move_def
proof
  assume ok: "db_ok db"
  let ?v = "m new_account_object"
  from assms(1) obtain ix where ix: "ix_emplace account_clash (\<lambda>_. Inr ?v) (accounts db) = Inr (k, ix)"
    and db': "db' = db\<lparr>accounts := ix\<rparr>" by (auto simp: create_account_row_def res_simps)
  have fields: "a_balance ?v = SCR 0" "a_scorumpower ?v = SP 0" "a_pending_scr_reward ?v = SCR 0"
    "a_pending_sp_reward ?v = SP 0" "a_proxied_vsf_votes ?v = replicate SCORUM_MAX_PROXY_RECURSION_DEPTH 0"
    "a_proxy ?v = SCORUM_PROXY_TO_SELF_ACCOUNT"
    using assms(2) by (simp_all add: ledger_fields_def new_account_object_def SCORUM_PROXY_TO_SELF_ACCOUNT_def)
  have sums: "acc_sum f db' = acc_sum f db + f ?v" for f
    using row_sum_emplace [OF ix, of f] by (auto simp: acc_sum_def db')
  have "vsf ?v = 0" "account_ok ?v"
    using fields by (simp_all add: vsf_def account_ok_def sum_list_replicate)
  have ix': "indices ix = put_row k ?v (indices (accounts db))" using row_sum_emplace [OF ix] by auto
  have "\<forall>x \<in> snd ` set (indices ix). account_ok x"
    unfolding ix' using ok \<open>account_ok ?v\<close> by (intro snd_put_row) (simp_all add: db_ok_def)
  moreover have "wf_index ix" using ix ok by (auto simp: db_ok_def tables_ok_def intro: wf_index_emplace)
  ultimately have "db_ok db'"
    using ok by (simp add: db' db_ok_def tables_ok_def pools_ok_def)
  moreover have "locked db' = locked db" "pools db' = pools db" "dgp db' = dgp db"
    by (simp_all add: db' locked_def pools_def)
  ultimately show "db_ok db' \<and> supply_sum db' = supply_sum db + 0 \<and> gaps db' = gaps db \<and>
      dgp_total_supply (dgp db') = dgp_total_supply (dgp db)"
    using fields \<open>vsf ?v = 0\<close> by (simp add: supply_sum_def gaps_def sums)
qed

lemma create_authority_row_move: "create_authority_row v db = Inr db' \<Longrightarrow> ledger_move 0 db db'"
  by (rule ledger_move_same_tables) (auto simp: create_authority_row_def res_simps ledger_view_def)

lemma create_account_move:
  assumes "create_account n c mk j ow ac po db = Inr (k, db')"
  shows "ledger_move 0 db db'"
proof -
  from assms obtain db1 where db1: "create_account_row (\<lambda>acc. acc\<lparr>a_name := n, a_recovery_account := c,
        a_memo_key := mk, a_created := head_block_time db, a_json_metadata := j\<rparr>) db = Inr (k, db1)"
    and rest: "ledger_move 0 db1 db'"
    by (auto simp: create_account_def res_simps intro: create_authority_row_move split: if_splits)
  have "ledger_move 0 db db1"
    by (rule create_account_row_move [OF db1]) (simp add: ledger_fields_def)
  then show ?thesis using rest by (rule ledger_move_trans) simp
qed

lemma create_account_with_fee_move:
  assumes F: "ext_ok F" and "create_account_with_fee F n c mk j ow ac po fee db = Inr (k, db')"
  shows "ledger_move 0 db db'"
proof -
  from assms(2) obtain db1 db2 where
    1: "(if amount fee > 0 then bindE (get_account c db) (\<lambda>c. decrease_balance F c fee db) else Inr db) = Inr db1" and
    2: "create_account n c mk j ow ac po db1 = Inr (k, db2)" and
    3: "(if amount fee > 0 then create_scorumpower F k fee db2 else Inr db2) = Inr db'"
    by (auto simp: create_account_with_fee_def bindE_Inr_iff fc_assert_Inr_iff)
  let ?d = "if amount fee > 0 then amount fee else 0"
  have "ledger_move (- ?d) db db1"
    using 1 decrease_balance_move [OF F] by (auto simp: res_simps split: if_splits)
  then have "ledger_move (- ?d) db db2"
    using create_account_move [OF 2] by (rule ledger_move_trans) simp
  moreover have "ledger_move ?d db2 db'"
    using 3 create_scorumpower_move [OF F] by (auto split: if_splits)
  ultimately show ?thesis by (rule ledger_move_trans) simp
qed

lemma create_delegation_row_move: "create_delegation_row v db = Inr db' \<Longrightarrow> ledger_move 0 db db'"
  by (rule ledger_move_same)
    (auto simp: create_delegation_row_def res_simps ledger_view_def tables_ok_def intro: wf_index_emplace)

lemma create_account_with_delegation_move:
  assumes F: "ext_ok F" and "create_account_with_delegation F n c mk j ow ac po fee del db = Inr (k, db')"
    and fee: "0 \<le> amount fee"
  shows "ledger_move 0 db db'"
proof -
  from assms(2) obtain cr db1 db2 db3 db4 db5 where
    1: "update_account cr (\<lambda>c. bindE (asset_add F (a_delegated_scorumpower c) del) (\<lambda>x.
          Inr (c\<lparr>a_delegated_scorumpower := x\<rparr>))) db = Inr db1" and
    2: "decrease_balance F cr fee db1 = Inr db2" and
    3: "create_account n c mk j ow ac po db2 = Inr (k, db3)" and
    4: "update_account k (\<lambda>acc. Inr (acc\<lparr>a_received_scorumpower := del\<rparr>)) db3 = Inr db4" and
    5: "(if amount del > 0 then create_delegation_row \<lparr>d_delegator = c, d_delegatee = n, d_scorumpower = del,
           d_min_delegation_time = time_add F (head_block_time db4) SCORUM_CREATE_ACCOUNT_DELEGATION_TIME\<rparr> db4
         else Inr db4) = Inr db5" and
    6: "(if amount fee > 0 then create_scorumpower F k fee db5 else Inr db5) = Inr db'"
    by (auto simp: create_account_with_delegation_def bindE_Inr_iff fc_assert_Inr_iff)
  have "ledger_move 0 db db1"
    using 1 by (rule ledger_move_update_account) (auto simp: res_simps ledger_fields_def)
  then have "ledger_move (- amount fee) db db2"
    using decrease_balance_move [OF F 2] by (rule ledger_move_trans) simp
  then have "ledger_move (- amount fee) db db3"
    using create_account_move [OF 3] by (rule ledger_move_trans) simp
  moreover have "ledger_move 0 db3 db4"
    using 4 by (rule ledger_move_update_account) (auto simp: ledger_fields_def)
  ultimately have "ledger_move (- amount fee) db db4" by (rule ledger_move_trans) simp
  moreover have "ledger_move 0 db4 db5"
    using 5 by (auto intro: create_delegation_row_move split: if_splits)
  ultimately have "ledger_move (- amount fee) db db5" by (rule ledger_move_trans) simp
  moreover have "ledger_move (amount fee) db5 db'"
    using 6 fee create_scorumpower_move [OF F] by (auto split: if_splits)
  ultimately show ?thesis by (rule ledger_move_trans) simp
qed

lemma update_acount_move:
  assumes "update_acount k i mk j ow ac po db = Inr db'"
  shows "ledger_move 0 db db'"
proof -
  from assms obtain db1 m where 1: "update_account k m db = Inr db1"
    and m: "m = (\<lambda>acc.
       let acc = (if mk \<noteq> null_key then acc\<lparr>a_memo_key := mk\<rparr> else acc);
           acc = (if (ac \<noteq> None \<or> ow \<noteq> None) \<and> a_active_challenged acc
                  then acc\<lparr>a_active_challenged := False, a_last_active_proved := head_block_time db\<rparr> else acc);
           acc = acc\<lparr>a_last_account_update := head_block_time db\<rparr>;
           acc = (if length j > 0 then acc\<lparr>a_json_metadata := j\<rparr> else acc)
       in Inr acc)"
    and 2: "db' = db1\<lparr>authorities := authorities db'\<rparr>"
    unfolding update_acount_def Let_def bindE_Inr_iff
    by (auto simp: update_authority_def bindE_Inr_iff split: if_splits)
  have "ledger_move 0 db db1"
    using 1 by (rule ledger_move_update_account) (auto simp: m Let_def ledger_fields_def split: if_splits)
  moreover have "ledger_move 0 db1 db'"
    by (subst 2, rule ledger_move_same_tables) (simp_all add: ledger_view_def)
  ultimately show ?thesis by (rule ledger_move_trans) simp
qed

end
