(* ===== verification/Proxy_Votes.thy ===== *)
theory Proxy_Votes
  imports Supply_Ledger
begin

text \<open>
  Voting through proxies. An account may hand its vote to a proxy, the proxy to a further
  account, up to a fixed depth; \<^verbatim>\<open>proxied_vsf_votes\<close> of an account records the power it was
  handed, by distance. The lemmas show that the proxies never form a loop, that no scorum power
  is lost or counted twice when a proxy changes, and that the votes of every witness are exactly
  the power of the accounts that vote for it.
\<close>

section \<open>The proxy graph\<close>

text \<open>\<open>proxy_rank db k n\<close>: the chain of proxies from \<open>k\<close> ends after \<open>n\<close> steps in an account that votes itself.\<close>

inductive proxy_rank :: "database \<Rightarrow> nat \<Rightarrow> nat \<Rightarrow> bool" for db where
  self: "account_at k db = Inr a \<Longrightarrow> a_proxy a = SCORUM_PROXY_TO_SELF_ACCOUNT \<Longrightarrow> proxy_rank db k 0"
| step: "account_at k db = Inr a \<Longrightarrow> a_proxy a \<noteq> SCORUM_PROXY_TO_SELF_ACCOUNT \<Longrightarrow>
         get_account (a_proxy a) db = Inr p \<Longrightarrow> proxy_rank db p n \<Longrightarrow> proxy_rank db k (Suc n)"

inductive_cases proxy_rank_0E: "proxy_rank db k 0"
inductive_cases proxy_rank_SucE: "proxy_rank db k (Suc n)"

definition proxies_settle :: "database \<Rightarrow> bool" where
  "proxies_settle db \<longleftrightarrow> (\<forall>k \<in> fst ` set (indices (accounts db)). \<exists>n. proxy_rank db k n)"

lemma proxy_rank_unique: "proxy_rank db k n \<Longrightarrow> proxy_rank db k m \<Longrightarrow> n = m"
proof (induction arbitrary: m rule: proxy_rank.induct)
  case (self k a)
  from self.prems self.hyps show ?case by cases auto
next
  case (step k a p n)
  from step.prems step.hyps(1-3) obtain m' where "m = Suc m'" "proxy_rank db p m'"
    by (cases rule: proxy_rank.cases) auto
  with step.IH show ?case by blast
qed

text \<open>The graph depends on the names and the proxies of the accounts only.\<close>

definition proxy_view :: "database \<Rightarrow> (nat \<times> account_name \<times> account_name) list" where
  "proxy_view db = map (\<lambda>r. (fst r, a_name (snd r), a_proxy (snd r))) (indices (accounts db))"

lemma map_of_proxy_view:
  "map_of (proxy_view db) k = map_option (\<lambda>a. (a_name a, a_proxy a)) (map_of (indices (accounts db)) k)"
proof -
  have "map_of (map (\<lambda>r. (fst r, g (snd r))) rs) k = map_option g (map_of rs k)" for g and rs :: "(nat \<times> account_object) list"
    by (induction rs) auto
  from this [of "\<lambda>a. (a_name a, a_proxy a)"] show ?thesis by (simp add: proxy_view_def)
qed

lemma get_account_proxy_view:
  "get_account name db = (case List.find (\<lambda>r. fst (snd r) = name) (proxy_view db) of
     None \<Rightarrow> Inl Out_of_range | Some r \<Rightarrow> Inr (fst r))"
proof -
  have "List.find (\<lambda>r. fst (snd r) = name) (map (\<lambda>r. (fst r, a_name (snd r), a_proxy (snd r))) rs)
    = map_option (\<lambda>r. (fst r, a_name (snd r), a_proxy (snd r))) (List.find (\<lambda>r. a_name (snd r) = name) rs)"
    for rs :: "(nat \<times> account_object) list"
    by (induction rs) auto
  then show ?thesis
    by (simp add: get_account_def ix_get_by_def ix_find_by_def proxy_view_def split: option.splits)
qed

lemma proxy_rank_cong:
  assumes "proxy_rank db k n" and "proxy_view db' = proxy_view db"
  shows "proxy_rank db' k n"
  using assms(1)
proof induction
  case (self k a)
  then have "map_of (proxy_view db') k = Some (a_name a, a_proxy a)"
    by (simp add: assms(2) map_of_proxy_view res_simps)
  then obtain b where "map_of (indices (accounts db')) k = Some b" "a_proxy b = a_proxy a"
    by (auto simp: map_of_proxy_view)
  with self show ?case by (intro proxy_rank.self [of k db' b]) (auto simp: res_simps)
next
  case (step k a p n)
  then have "map_of (proxy_view db') k = Some (a_name a, a_proxy a)"
    by (simp add: assms(2) map_of_proxy_view res_simps)
  then obtain b where "map_of (indices (accounts db')) k = Some b" "a_proxy b = a_proxy a"
    by (auto simp: map_of_proxy_view)
  moreover have "get_account (a_proxy a) db' = Inr p"
    using step.hyps(3) assms(2) by (simp add: get_account_proxy_view)
  ultimately show ?case using step by (intro proxy_rank.step [of k db' b p n]) (auto simp: res_simps)
qed

lemma map_put_row_same:
  assumes "sorted_rows rs" and "map_of rs k = Some w" and "g (k, v) = g (k, w)"
  shows "map g (put_row k v rs) = map g rs"
  using assms(1,2)
proof (induction rs)
  case (Cons r rs)
  show ?case
  proof (cases "k = fst r")
    case True
    with Cons.prems assms(3) show ?thesis by (cases r) auto
  next
    case False
    with Cons.prems have k: "map_of rs k = Some w" by (cases r) auto
    then have "k \<in> fst ` set rs" by (force dest: map_of_SomeD)
    with Cons.prems(1) have "fst r < k" by auto
    with False Cons.IH [OF _ k] Cons.prems(1) show ?thesis by simp
  qed
qed simp

lemma proxy_view_put_account:
  assumes "db_ok db" and "map_of (indices (accounts db)) k = Some a" and "a_name b = a_name a" "a_proxy b = a_proxy a"
  shows "proxy_view (put_account k b db) = proxy_view db"
  using assms map_put_row_same [of "indices (accounts db)" k a "\<lambda>r. (fst r, a_name (snd r), a_proxy (snd r))" b]
  by (simp add: proxy_view_def db_ok_def tables_ok_def wf_index_def)

section \<open>Moving all votes of an account along its chain\<close>

lemma add_all_effect:
  assumes "ext_ok F" and "foldE (\<lambda>i. add_proxied F (i + depth) (delta ! i)) js a = Inr a'"
    and "length (a_proxied_vsf_votes a) = SCORUM_MAX_PROXY_RECURSION_DEPTH"
    and "\<forall>i \<in> set js. i + depth < SCORUM_MAX_PROXY_RECURSION_DEPTH"
  shows "\<exists>votes. a' = a\<lparr>a_proxied_vsf_votes := votes\<rparr> \<and> length votes = SCORUM_MAX_PROXY_RECURSION_DEPTH
    \<and> vsf a' = vsf a + (\<Sum>i\<leftarrow>js. counted a (i + depth) (delta ! i))
    \<and> sum_list votes = sum_list (a_proxied_vsf_votes a) + (\<Sum>i\<leftarrow>js. delta ! i)"
  using assms(2-4)
proof (induction js arbitrary: a)
  case Nil
  then show ?case by (intro exI [of _ "a_proxied_vsf_votes a"]) simp
next
  case (Cons j js)
  from Cons.prems(1) obtain b where b: "add_proxied F (j + depth) (delta ! j) a = Inr b"
    and rest: "foldE (\<lambda>i. add_proxied F (i + depth) (delta ! i)) js b = Inr a'" by (auto simp: res_simps)
  from add_proxied_effect [OF assms(1) b] Cons.prems(2,3) obtain votes where
    v: "b = a\<lparr>a_proxied_vsf_votes := votes\<rparr>" "length votes = SCORUM_MAX_PROXY_RECURSION_DEPTH"
    "vsf b = vsf a + counted a (j + depth) (delta ! j)" by auto
  have s: "sum_list votes = sum_list (a_proxied_vsf_votes a) + delta ! j"
  proof -
    have "b = a\<lparr>a_proxied_vsf_votes := (a_proxied_vsf_votes a)[j + depth := a_proxied_vsf_votes a ! (j + depth) + delta ! j]\<rparr>"
      using b assms(1) by (auto simp: add_proxied_def res_simps fc_simps)
    then have "a_proxied_vsf_votes b = (a_proxied_vsf_votes a)[j + depth := a_proxied_vsf_votes a ! (j + depth) + delta ! j]"
      by simp
    moreover have "a_proxied_vsf_votes b = votes" using v(1) by simp
    ultimately have "votes = (a_proxied_vsf_votes a)[j + depth := a_proxied_vsf_votes a ! (j + depth) + delta ! j]" by simp
    with Cons.prems(2,3) show ?thesis by (simp add: sum_list_update_int)
  qed
  have "counted b = counted a" using v(1) by (simp add: counted_def fun_eq_iff)
  with Cons.IH [OF rest] v s Cons.prems(3) show ?case by auto
qed

text \<open>What the votes \<open>delta\<close> of an account at distance \<open>depth\<close> count for in total.\<close>

definition chain_total :: "int list \<Rightarrow> nat \<Rightarrow> int" where
  "chain_total delta depth = (\<Sum>i < SCORUM_MAX_PROXY_RECURSION_DEPTH - depth. delta ! i)"

lemma sum_counted:
  assumes "depth < SCORUM_MAX_PROXY_RECURSION_DEPTH"
  shows "(\<Sum>i\<leftarrow>rev [0..<SCORUM_MAX_PROXY_RECURSION_DEPTH - depth]. counted a (i + depth) (delta ! i))
    = (if a_proxy a = SCORUM_PROXY_TO_SELF_ACCOUNT then chain_total delta depth
       else chain_total delta depth - chain_total delta (depth + 1))"
proof -
  let ?n = "SCORUM_MAX_PROXY_RECURSION_DEPTH - depth"
  obtain m where m: "?n = Suc m" using assms by (cases ?n) auto
  then have md: "m + depth = SCORUM_MAX_PROXY_RECURSION_DEPTH - 1" "SCORUM_MAX_PROXY_RECURSION_DEPTH - (depth + 1) = m"
    by auto
  have "(\<Sum>i\<leftarrow>rev [0..<?n]. counted a (i + depth) (delta ! i)) = (\<Sum>i < ?n. counted a (i + depth) (delta ! i))"
    by (simp add: rev_map [symmetric] interv_sum_list_conv_sum_set_nat atLeast0LessThan)
  also have "\<dots> = (if a_proxy a = SCORUM_PROXY_TO_SELF_ACCOUNT then (\<Sum>i < ?n. delta ! i) else delta ! m)"
  proof (cases "a_proxy a = SCORUM_PROXY_TO_SELF_ACCOUNT")
    case False
    have "(\<Sum>i < m. counted a (i + depth) (delta ! i)) = (\<Sum>i < m. 0)"
      by (rule sum.cong) (use False md in \<open>auto simp: counted_def\<close>)
    with False md show ?thesis by (simp add: m counted_def)
  qed (simp add: counted_def)
  finally show ?thesis using md by (simp add: chain_total_def m)
qed

lemma adjust_all_move:
  assumes "ext_ok F" and "adjust_proxied_witness_votes_all F k delta depth db = Inr db'" and "db_ok db"
    and "map_of (indices (accounts db)) k = Some acc"
  shows "vote_move (if a_proxy acc = SCORUM_PROXY_TO_SELF_ACCOUNT then 0 else chain_total delta depth) db db'"
  using assms
proof (induction "SCORUM_MAX_PROXY_RECURSION_DEPTH - depth" arbitrary: k depth db acc)
  case 0
  then have depth: "depth \<ge> SCORUM_MAX_PROXY_RECURSION_DEPTH" by simp
  with "0.prems" have "vote_move 0 db db'"
    by (subst (asm) adjust_proxied_witness_votes_all.simps)
      (auto simp: account_at_def ix_get_def ix_find_def bindE_Inr_iff intro: adjust_witness_votes_move split: if_splits)
  with depth show ?case by (simp add: chain_total_def)
next
  case (Suc n)
  then have depth: "depth < SCORUM_MAX_PROXY_RECURSION_DEPTH" by simp
  show ?case
  proof (cases "a_proxy acc = SCORUM_PROXY_TO_SELF_ACCOUNT")
    case True
    with Suc.prems have "vote_move 0 db db'"
      by (subst (asm) adjust_proxied_witness_votes_all.simps)
        (auto simp: account_at_def ix_get_def ix_find_def bindE_Inr_iff intro: adjust_witness_votes_move)
    with True show ?thesis by simp
  next
    case False
    let ?js = "rev [0..<SCORUM_MAX_PROXY_RECURSION_DEPTH - depth]"
    from Suc.prems(2,4) False depth obtain p db1 where
      p: "get_account (a_proxy acc) db = Inr p" and
      db1: "update_account p (\<lambda>a. foldE (\<lambda>i. add_proxied F (i + depth) (delta ! i)) ?js a) db = Inr db1" and
      rec: "adjust_proxied_witness_votes_all F p delta (depth + 1) db1 = Inr db'"
      by (subst (asm) adjust_proxied_witness_votes_all.simps)
        (auto simp: account_at_iff bindE_Inr_iff split: if_splits)
    obtain b where b: "map_of (indices (accounts db)) p = Some b"
      using get_account_row [OF p Suc.prems(3)] by blast
    have js: "\<forall>i \<in> set ?js. i + depth < SCORUM_MAX_PROXY_RECURSION_DEPTH" by auto
    have move1: "vote_move (\<Sum>i\<leftarrow>?js. counted b (i + depth) (delta ! i)) db db1"
    proof (rule vote_move_update_account [OF db1 b])
      fix a' assume "account_ok b" "foldE (\<lambda>i. add_proxied F (i + depth) (delta ! i)) ?js b = Inr a'"
      with add_all_effect [OF Suc.prems(1) this(2) _ js] show "\<exists>votes. a' = b\<lparr>a_proxied_vsf_votes := votes\<rparr> \<and>
          length votes = SCORUM_MAX_PROXY_RECURSION_DEPTH \<and> vsf a' = vsf b + (\<Sum>i\<leftarrow>?js. counted b (i + depth) (delta ! i))"
        by (auto simp: account_ok_def)
    qed
    then have ok1: "db_ok db1" using Suc.prems(3) by (simp add: vote_move_def)
    from db1 b obtain b' where b': "map_of (indices (accounts db1)) p = Some b'"
      and "foldE (\<lambda>i. add_proxied F (i + depth) (delta ! i)) ?js b = Inr b'"
      unfolding update_account_iff by auto
    moreover have "account_ok b" using Suc.prems(3) b by (rule db_ok_account)
    ultimately have proxy: "a_proxy b' = a_proxy b"
      using add_all_effect [OF Suc.prems(1) _ _ js] by (fastforce simp: account_ok_def)
    have "n = SCORUM_MAX_PROXY_RECURSION_DEPTH - (depth + 1)" using Suc.hyps(2) by simp
    note move2 = Suc.hyps(1) [OF this Suc.prems(1) rec ok1 b']
    show ?thesis
      by (rule vote_move_trans [OF move1 move2]) (use False proxy sum_counted [OF depth, of b delta] in simp)
  qed
qed

text \<open>The three ways the walk along the chain goes on.\<close>

lemma adjust_all_cases:
  assumes "adjust_proxied_witness_votes_all F k delta depth db = Inr db'"
    and "map_of (indices (accounts db)) k = Some acc"
  obtains
    (cut) "a_proxy acc \<noteq> SCORUM_PROXY_TO_SELF_ACCOUNT" "depth \<ge> SCORUM_MAX_PROXY_RECURSION_DEPTH" "db' = db"
  | (voter) total where "a_proxy acc = SCORUM_PROXY_TO_SELF_ACCOUNT"
      "foldE (\<lambda>i acc. safe_add F acc (delta ! i)) (rev [0..<SCORUM_MAX_PROXY_RECURSION_DEPTH - depth + 1]) 0 = Inr total"
      "adjust_witness_votes F k total db = Inr db'"
  | (proxy) p db1 where "a_proxy acc \<noteq> SCORUM_PROXY_TO_SELF_ACCOUNT" "depth < SCORUM_MAX_PROXY_RECURSION_DEPTH"
      "get_account (a_proxy acc) db = Inr p"
      "update_account p (\<lambda>a. foldE (\<lambda>i. add_proxied F (i + depth) (delta ! i))
         (rev [0..<SCORUM_MAX_PROXY_RECURSION_DEPTH - depth]) a) db = Inr db1"
      "adjust_proxied_witness_votes_all F p delta (depth + 1) db1 = Inr db'"
  using assms
  by (subst (asm) adjust_proxied_witness_votes_all.simps)
    (auto simp: account_at_iff bindE_Inr_iff not_le split: if_splits)

text \<open>One step along the chain: the row of the proxy after it, everything else untouched.\<close>

lemma add_all_step:
  assumes F: "ext_ok F" and ok: "db_ok db" and p: "map_of (indices (accounts db)) p = Some b"
    and db1: "update_account p (\<lambda>a. foldE (\<lambda>i. add_proxied F (i + depth) (delta ! i))
       (rev [0..<SCORUM_MAX_PROXY_RECURSION_DEPTH - depth]) a) db = Inr db1"
  obtains votes where "db1 = put_account p (b\<lparr>a_proxied_vsf_votes := votes\<rparr>) db"
    "length votes = SCORUM_MAX_PROXY_RECURSION_DEPTH"
    "sum_list votes = sum_list (a_proxied_vsf_votes b) + chain_total delta depth" "db_ok db1"
proof -
  let ?js = "rev [0..<SCORUM_MAX_PROXY_RECURSION_DEPTH - depth]"
  from db1 p obtain b' where b': "foldE (\<lambda>i. add_proxied F (i + depth) (delta ! i)) ?js b = Inr b'"
    and eq: "db1 = put_account p b' db" unfolding update_account_iff by auto
  have b_ok: "account_ok b" using ok p by (rule db_ok_account)
  have "\<forall>i \<in> set ?js. i + depth < SCORUM_MAX_PROXY_RECURSION_DEPTH" by auto
  from add_all_effect [OF F b' _ this] b_ok obtain votes where v: "b' = b\<lparr>a_proxied_vsf_votes := votes\<rparr>"
    "length votes = SCORUM_MAX_PROXY_RECURSION_DEPTH"
    "sum_list votes = sum_list (a_proxied_vsf_votes b) + (\<Sum>i\<leftarrow>?js. delta ! i)" by (auto simp: account_ok_def)
  have "(\<Sum>i\<leftarrow>?js. delta ! i) = chain_total delta depth"
    by (simp add: rev_map [symmetric] interv_sum_list_conv_sum_set_nat atLeast0LessThan chain_total_def)
  moreover have "account_ok b'" using b_ok v by (simp add: account_ok_def)
  then have "db_ok db1" unfolding eq by (rule db_ok_put_account [OF ok p])
  ultimately show thesis using v eq that by simp
qed

lemma adjust_witness_vote_frame:
  "adjust_witness_vote F w d db = Inr db' \<Longrightarrow> \<exists>ix. db' = db\<lparr>witnesses := ix\<rparr>"
  by (auto simp: adjust_witness_vote_def update_witness_row_def bindE_Inr_iff)

lemma adjust_witness_votes_frame:
  assumes "adjust_witness_votes F k d db = Inr db'"
  shows "\<exists>ix. db' = db\<lparr>witnesses := ix\<rparr>"
  using assms unfolding adjust_witness_votes_def
proof (rule foldE_inv [where I = "\<lambda>d. \<exists>ix. d = db\<lparr>witnesses := ix\<rparr>"])
  show "\<exists>ix. db = db\<lparr>witnesses := ix\<rparr>" by (rule exI [of _ "witnesses db"]) simp
next
  fix x s s' assume "\<exists>ix. s = db\<lparr>witnesses := ix\<rparr>" "adjust_witness_vote F x d s = Inr s'"
  moreover from this(2) have "\<exists>ix. s' = s\<lparr>witnesses := ix\<rparr>" by (rule adjust_witness_vote_frame)
  ultimately show "\<exists>ix. s' = db\<lparr>witnesses := ix\<rparr>" by auto
qed

lemma adjust_all_frame:
  assumes "ext_ok F" and "adjust_proxied_witness_votes_all F k delta depth db = Inr db'" and "db_ok db"
    and "proxy_rank db k n"
  shows "proxy_view db' = proxy_view db \<and> witness_votes db' = witness_votes db \<and>
    (\<forall>x m. proxy_rank db x m \<longrightarrow> n \<le> m \<longrightarrow> map_of (indices (accounts db')) x = map_of (indices (accounts db)) x)"
  using assms
proof (induction "SCORUM_MAX_PROXY_RECURSION_DEPTH - depth" arbitrary: k depth db n rule: less_induct)
  case less
  from less.prems(4) obtain acc where acc: "map_of (indices (accounts db)) k = Some acc"
    by (cases rule: proxy_rank.cases) (auto simp: res_simps)
  from less.prems(2) acc show ?case
  proof (cases rule: adjust_all_cases)
    case cut
    then show ?thesis by simp
  next
    case (voter total)
    then obtain ix where "db' = db\<lparr>witnesses := ix\<rparr>" using adjust_witness_votes_frame by blast
    then show ?thesis by (simp add: proxy_view_def)
  next
    case (proxy p db1)
    from less.prems(4) acc proxy(1,3) obtain n' where n: "n = Suc n'" "proxy_rank db p n'"
      by (cases rule: proxy_rank.cases) (auto simp: res_simps)
    obtain b where b: "map_of (indices (accounts db)) p = Some b"
      using get_account_row [OF proxy(3) less.prems(3)] by blast
    from add_all_step [OF less.prems(1,3) b proxy(4)] obtain votes where
      db1: "db1 = put_account p (b\<lparr>a_proxied_vsf_votes := votes\<rparr>) db" "db_ok db1" by metis
    have view: "proxy_view db1 = proxy_view db"
      unfolding db1(1) by (rule proxy_view_put_account [OF less.prems(3) b]) simp_all
    have "proxy_rank db1 p n'" using n(2) view by (rule proxy_rank_cong)
    with less.hyps [of "depth + 1" p db1 n'] less.prems(1) proxy(2,5) db1(2)
    have IH: "proxy_view db' = proxy_view db1" "witness_votes db' = witness_votes db1"
      "\<And>x m. proxy_rank db1 x m \<Longrightarrow> n' \<le> m \<Longrightarrow> map_of (indices (accounts db')) x = map_of (indices (accounts db1)) x"
      by auto
    have "map_of (indices (accounts db')) x = map_of (indices (accounts db)) x" if "proxy_rank db x m" "n \<le> m" for x m
    proof -
      have "x \<noteq> p" using that n proxy_rank_unique by fastforce
      moreover have "proxy_rank db1 x m" using that(1) view by (rule proxy_rank_cong)
      ultimately show ?thesis using IH(3) [of x m] that n by (simp add: db1(1))
    qed
    then show ?thesis using IH view by (simp add: db1(1))
  qed
qed

section \<open>Changing the proxy\<close>

lemma negate_all_eq:
  assumes "ext_ok F" and "negate_all F xs = Inr ys"
  shows "ys = map uminus xs"
proof -
  have "foldE (\<lambda>x acc. bindE (safe_neg F x) (\<lambda>y. Inr (acc @ [y]))) xs zs = Inr ys \<Longrightarrow> ys = zs @ map uminus xs" for zs
    by (induction xs arbitrary: zs) (fastforce simp: res_simps safe_iffs [OF assms(1)])+
  from this [of "[]"] assms(2) show ?thesis by (simp add: negate_all_def)
qed

lemma clear_witness_votes_iff:
  assumes "clear_witness_votes k db = Inr db'" and "map_of (indices (accounts db)) k = Some a"
  shows "\<exists>ix. foldE ix_remove (ix_ids_by (\<lambda>v. wv_account v = k) (witness_votes db)) (witness_votes db) = Inr ix \<and>
    db' = put_account k (a\<lparr>a_witnesses_voted_for := 0\<rparr>) (db\<lparr>witness_votes := ix\<rparr>)"
  using assms by (auto simp: clear_witness_votes_def res_simps)

lemma wf_index_remove_all: "foldE ix_remove ks ix = Inr ix' \<Longrightarrow> wf_index ix \<Longrightarrow> wf_index ix'"
  by (erule foldE_inv) (auto intro: wf_index_remove)

lemma db_ok_witness_votes: "db_ok db \<Longrightarrow> wf_index ix \<Longrightarrow> db_ok (db\<lparr>witness_votes := ix\<rparr>)"
  by (simp add: db_ok_def tables_ok_def pools_ok_def)

lemma sum_first_three:
  "length (xs :: int list) = SCORUM_MAX_PROXY_RECURSION_DEPTH \<Longrightarrow>
     chain_total (map uminus (x # xs)) 0 = - (x + sum_list xs - xs ! (SCORUM_MAX_PROXY_RECURSION_DEPTH - 1)) \<and>
     chain_total (x # xs) 0 = x + sum_list xs - xs ! (SCORUM_MAX_PROXY_RECURSION_DEPTH - 1)"
  by (auto simp: chain_total_def SCORUM_MAX_PROXY_RECURSION_DEPTH_def length_Suc_conv eval_nat_numeral)

text \<open>The effect of the steps of \<^verbatim>\<open>update_voting_proxy\<close> that are common to both cases.\<close>

lemma update_voting_proxy_start:
  assumes F: "ext_ok F" and ok: "db_ok db" and rank: "proxy_rank db k n"
    and upd: "update_voting_proxy F k proxy db = Inr db'"
  obtains acc db1 where "map_of (indices (accounts db)) k = Some acc" "account_ok acc"
    "adjust_proxied_witness_votes_all F k (map uminus (amount (a_scorumpower acc) # a_proxied_vsf_votes acc)) 0 db = Inr db1"
    "vote_move (if a_proxy acc = SCORUM_PROXY_TO_SELF_ACCOUNT then 0
       else - (amount (a_scorumpower acc) + sum_list (a_proxied_vsf_votes acc)
          - a_proxied_vsf_votes acc ! (SCORUM_MAX_PROXY_RECURSION_DEPTH - 1))) db db1"
    "db_ok db1" "map_of (indices (accounts db1)) k = Some acc" "proxy_view db1 = proxy_view db"
    "witness_votes db1 = witness_votes db"
    "(case proxy of
        Some (pid, pobj) \<Rightarrow>
          bindE (proxy_walk (remdups [k, pid]) (a_proxy pobj) db1) (\<lambda>_.
          bindE (clear_witness_votes k db1) (\<lambda>db.
          bindE (update_account k (\<lambda>a. Inr (a\<lparr>a_proxy := a_name pobj\<rparr>)) db) (\<lambda>db.
          bindE (negate_all F (map uminus (amount (a_scorumpower acc) # a_proxied_vsf_votes acc))) (\<lambda>delta.
          adjust_proxied_witness_votes_all F k delta 0 db))))
      | None \<Rightarrow> update_account k (\<lambda>a. Inr (a\<lparr>a_proxy := SCORUM_PROXY_TO_SELF_ACCOUNT\<rparr>)) db1) = Inr db'"
proof -
  from upd obtain acc delta db1 where acc: "map_of (indices (accounts db)) k = Some acc"
    and delta: "negate_all F (amount (a_scorumpower acc) # a_proxied_vsf_votes acc) = Inr delta"
    and db1: "adjust_proxied_witness_votes_all F k delta 0 db = Inr db1"
    and rest: "(case proxy of
        Some (pid, pobj) \<Rightarrow>
          bindE (proxy_walk (remdups [k, pid]) (a_proxy pobj) db1) (\<lambda>_.
          bindE (clear_witness_votes k db1) (\<lambda>db.
          bindE (update_account k (\<lambda>a. Inr (a\<lparr>a_proxy := a_name pobj\<rparr>)) db) (\<lambda>db.
          bindE (negate_all F delta) (\<lambda>delta.
          adjust_proxied_witness_votes_all F k delta 0 db))))
      | None \<Rightarrow> update_account k (\<lambda>a. Inr (a\<lparr>a_proxy := SCORUM_PROXY_TO_SELF_ACCOUNT\<rparr>)) db1) = Inr db'"
    unfolding update_voting_proxy_def bindE_Inr_iff account_at_iff by blast
  note d = negate_all_eq [OF F delta]
  have a_ok: "account_ok acc" using ok acc by (rule db_ok_account)
  then have len: "length (a_proxied_vsf_votes acc) = SCORUM_MAX_PROXY_RECURSION_DEPTH" by (simp add: account_ok_def)
  note move = adjust_all_move [OF F db1 ok acc]
  then have ok1: "db_ok db1" using ok by (simp add: vote_move_def)
  note frame = adjust_all_frame [OF F db1 ok rank]
  have row: "map_of (indices (accounts db1)) k = Some acc" using frame rank acc by fastforce
  from move have move': "vote_move (if a_proxy acc = SCORUM_PROXY_TO_SELF_ACCOUNT then 0
       else - (amount (a_scorumpower acc) + sum_list (a_proxied_vsf_votes acc)
          - a_proxied_vsf_votes acc ! (SCORUM_MAX_PROXY_RECURSION_DEPTH - 1))) db db1"
    unfolding d by (simp only: sum_first_three [OF len])
  show thesis
    by (rule that [OF acc a_ok _ move' ok1 row]) (use db1 rest frame in \<open>simp_all only: d\<close>)
qed

lemma vote_move_row:
  assumes "db_ok db" and "map_of (indices (accounts db)) k = Some a" and "account_ok b"
    and "a_balance b = a_balance a" "a_scorumpower b = a_scorumpower a"
    and "a_pending_scr_reward b = a_pending_scr_reward a" "a_pending_sp_reward b = a_pending_sp_reward a"
  shows "vote_move (vsf b - vsf a) db (put_account k b db)"
  using assms db_ok_put_account [OF assms(1-3)]
  by (simp add: vote_move_def balance_sums_def acc_sum_put_account [OF assms(1,2)])

lemma vote_move_witness_votes: "wf_index (witness_votes db) \<Longrightarrow> wf_index ix \<Longrightarrow> vote_move 0 db (db\<lparr>witness_votes := ix\<rparr>)"
  by (simp add: vote_move_def db_ok_witness_votes balance_sums_def acc_sum_def locked_def pools_def)

text \<open>
  The steps that set a new proxy, after the votes were taken back: clearing the direct votes,
  setting the proxy, and handing the votes to the new chain.
\<close>

lemma set_proxy_steps:
  assumes F: "ext_ok F" and ok: "db_ok db1" and acc: "map_of (indices (accounts db1)) k = Some acc"
    and steps: "bindE (clear_witness_votes k db1) (\<lambda>db.
          bindE (update_account k (\<lambda>a. Inr (a\<lparr>a_proxy := name\<rparr>)) db) (\<lambda>db.
          bindE (negate_all F (map uminus xs)) (\<lambda>delta.
          adjust_proxied_witness_votes_all F k delta 0 db))) = Inr db'"
  obtains ix db3 where
    "foldE ix_remove (ix_ids_by (\<lambda>v. wv_account v = k) (witness_votes db1)) (witness_votes db1) = Inr ix" "wf_index ix"
    "db3 = put_account k (acc\<lparr>a_witnesses_voted_for := 0, a_proxy := name\<rparr>) (db1\<lparr>witness_votes := ix\<rparr>)"
    "db_ok db3" "vote_move (vsf (acc\<lparr>a_proxy := name\<rparr>) - vsf acc) db1 db3"
    "adjust_proxied_witness_votes_all F k xs 0 db3 = Inr db'"
proof -
  from steps obtain db2 db3 delta where 2: "clear_witness_votes k db1 = Inr db2"
    and 3: "update_account k (\<lambda>a. Inr (a\<lparr>a_proxy := name\<rparr>)) db2 = Inr db3"
    and d: "negate_all F (map uminus xs) = Inr delta"
    and 4: "adjust_proxied_witness_votes_all F k delta 0 db3 = Inr db'" by (auto simp: bindE_Inr_iff)
  from clear_witness_votes_iff [OF 2 acc] obtain ix where
    ix: "foldE ix_remove (ix_ids_by (\<lambda>v. wv_account v = k) (witness_votes db1)) (witness_votes db1) = Inr ix"
    and db2: "db2 = put_account k (acc\<lparr>a_witnesses_voted_for := 0\<rparr>) (db1\<lparr>witness_votes := ix\<rparr>)" by blast
  have wf: "wf_index (witness_votes db1)" using ok by (simp add: db_ok_def tables_ok_def)
  then have wf': "wf_index ix" using ix by (rule wf_index_remove_all [rotated])
  let ?b = "acc\<lparr>a_witnesses_voted_for := 0, a_proxy := name\<rparr>"
  have put: "put_row k v (put_row k w rs) = put_row k v rs" for v w and rs :: "account_object rows"
    by (induction rs) auto
  have db3: "db3 = put_account k ?b (db1\<lparr>witness_votes := ix\<rparr>)" using 3 by (auto simp: db2 res_simps put)
  have ok2: "db_ok (db1\<lparr>witness_votes := ix\<rparr>)" using ok wf' by (rule db_ok_witness_votes)
  have acc2: "map_of (indices (accounts (db1\<lparr>witness_votes := ix\<rparr>))) k = Some acc" using acc by simp
  have a_ok: "account_ok acc" using ok acc by (rule db_ok_account)
  have b_ok: "account_ok ?b" using a_ok by (simp add: account_ok_def)
  have "vote_move (vsf ?b - vsf acc) (db1\<lparr>witness_votes := ix\<rparr>) db3"
    unfolding db3 by (rule vote_move_row [OF ok2 acc2 b_ok]) simp_all
  then have move: "vote_move (vsf ?b - vsf acc) db1 db3"
    by (rule vote_move_trans [OF vote_move_witness_votes [OF wf wf']]) simp
  then have ok3: "db_ok db3" using ok by (simp add: vote_move_def)
  have "vsf ?b = vsf (acc\<lparr>a_proxy := name\<rparr>)" by (simp add: vsf_def)
  then show thesis
    using that [OF ix wf' db3 ok3] move 4 negate_all_eq [OF F d] by (simp add: comp_def)
qed

lemma update_voting_proxy_move:
  assumes F: "ext_ok F" and ok: "db_ok db" and rank: "proxy_rank db k n"
    and upd: "update_voting_proxy F k proxy db = Inr db'"
    and name: "\<And>pid pobj. proxy = Some (pid, pobj) \<Longrightarrow> a_name pobj \<noteq> SCORUM_PROXY_TO_SELF_ACCOUNT"
  shows "vote_move 0 db db'"
proof -
  obtain acc db1 where
    acc: "map_of (indices (accounts db)) k = Some acc" "account_ok acc" and
    move1: "vote_move (if a_proxy acc = SCORUM_PROXY_TO_SELF_ACCOUNT then 0
       else - (amount (a_scorumpower acc) + sum_list (a_proxied_vsf_votes acc)
          - a_proxied_vsf_votes acc ! (SCORUM_MAX_PROXY_RECURSION_DEPTH - 1))) db db1" and
    db1: "db_ok db1" "map_of (indices (accounts db1)) k = Some acc" and
    rest: "(case proxy of
        Some (pid, pobj) \<Rightarrow>
          bindE (proxy_walk (remdups [k, pid]) (a_proxy pobj) db1) (\<lambda>_.
          bindE (clear_witness_votes k db1) (\<lambda>db.
          bindE (update_account k (\<lambda>a. Inr (a\<lparr>a_proxy := a_name pobj\<rparr>)) db) (\<lambda>db.
          bindE (negate_all F (map uminus (amount (a_scorumpower acc) # a_proxied_vsf_votes acc))) (\<lambda>delta.
          adjust_proxied_witness_votes_all F k delta 0 db))))
      | None \<Rightarrow> update_account k (\<lambda>a. Inr (a\<lparr>a_proxy := SCORUM_PROXY_TO_SELF_ACCOUNT\<rparr>)) db1) = Inr db'"
    by (rule update_voting_proxy_start [OF F ok rank upd]) (rule that; assumption)
  have len: "length (a_proxied_vsf_votes acc) = SCORUM_MAX_PROXY_RECURSION_DEPTH" using acc(2) by (simp add: account_ok_def)
  show ?thesis
  proof (cases proxy)
    case None
    let ?b = "acc\<lparr>a_proxy := SCORUM_PROXY_TO_SELF_ACCOUNT\<rparr>"
    from rest None db1(2) have db': "db' = put_account k ?b db1" by (auto simp: res_simps)
    have "account_ok ?b" using acc(2) by (simp add: account_ok_def)
    then have "vote_move (vsf ?b - vsf acc) db1 db'"
      unfolding db' by (rule vote_move_row [OF db1]) simp_all
    then show ?thesis by (rule vote_move_trans [OF move1]) (simp add: vsf_def)
  next
    case (Some pr)
    obtain pid pobj where pr: "pr = (pid, pobj)" by fastforce
    from rest Some pr have steps: "bindE (clear_witness_votes k db1) (\<lambda>db.
          bindE (update_account k (\<lambda>a. Inr (a\<lparr>a_proxy := a_name pobj\<rparr>)) db) (\<lambda>db.
          bindE (negate_all F (map uminus (amount (a_scorumpower acc) # a_proxied_vsf_votes acc))) (\<lambda>delta.
          adjust_proxied_witness_votes_all F k delta 0 db))) = Inr db'"
      by (simp add: bindE_Inr_iff)
    from set_proxy_steps [OF F db1 steps] obtain ix db3 where
      db3: "db3 = put_account k (acc\<lparr>a_witnesses_voted_for := 0, a_proxy := a_name pobj\<rparr>) (db1\<lparr>witness_votes := ix\<rparr>)"
        "db_ok db3" and
      move3: "vote_move (vsf (acc\<lparr>a_proxy := a_name pobj\<rparr>) - vsf acc) db1 db3" and
      adj: "adjust_proxied_witness_votes_all F k (amount (a_scorumpower acc) # a_proxied_vsf_votes acc) 0 db3 = Inr db'"
      by metis
    have row3: "map_of (indices (accounts db3)) k = Some (acc\<lparr>a_witnesses_voted_for := 0, a_proxy := a_name pobj\<rparr>)"
      by (simp add: db3)
    have ne: "a_name pobj \<noteq> SCORUM_PROXY_TO_SELF_ACCOUNT" using name Some pr by blast
    have move4: "vote_move (amount (a_scorumpower acc) + sum_list (a_proxied_vsf_votes acc)
        - a_proxied_vsf_votes acc ! (SCORUM_MAX_PROXY_RECURSION_DEPTH - 1)) db3 db'"
      using adjust_all_move [OF F adj db3(2) row3] ne sum_first_three [OF len, of "amount (a_scorumpower acc)"] by simp
    note move13 = vote_move_trans [OF move1 move3 refl]
    show ?thesis
      by (rule vote_move_trans [OF move13 move4]) (use ne in \<open>simp add: vsf_def\<close>)
  qed
qed

section \<open>No proxy loops\<close>

text \<open>\<open>rewired k db db'\<close>: the same accounts and proxies but for the proxy of \<open>k\<close>.\<close>

definition rewired :: "nat \<Rightarrow> database \<Rightarrow> database \<Rightarrow> bool" where
  "rewired k db db' \<longleftrightarrow>
     (\<forall>name. get_account name db' = get_account name db) \<and>
     (\<forall>x a. x \<noteq> k \<longrightarrow> account_at x db = Inr a \<longrightarrow>
        (\<exists>a'. account_at x db' = Inr a' \<and> a_proxy a' = a_proxy a))"

lemma rewired_row:
  assumes "rewired k db db'" and "x \<noteq> k" and "account_at x db = Inr a"
  obtains a' where "account_at x db' = Inr a'" "a_proxy a' = a_proxy a"
  using assms unfolding rewired_def by metis

lemma rewired_get: "rewired k db db' \<Longrightarrow> get_account name db' = get_account name db"
  by (simp add: rewired_def)

text \<open>A successful walk that starts with \<open>k\<close> in its set settles without \<open>k\<close>.\<close>

lemma proxy_walk_settles:
  assumes "proxy_walk chain name db = Inr ()" and "k \<in> set chain" and "rewired k db db'" and "name \<noteq> []"
  shows "\<exists>p n. get_account name db' = Inr p \<and> proxy_rank db' p n"
  using assms
proof (induction chain name db rule: proxy_walk.induct)
  case (1 chain name db)
  from "1.prems"(1,4) obtain p a where p: "get_account name db = Inr p" "p \<notin> set chain" "account_at p db = Inr a"
    and rec: "proxy_walk (p # chain) (a_proxy a) db = Inr ()"
    by (subst (asm) proxy_walk.simps) (auto simp: bindE_Inr_iff split: if_splits)
  have "p \<noteq> k" using p(2) "1.prems"(2) by auto
  from rewired_row [OF "1.prems"(3) this p(3)] obtain a' where
    a': "account_at p db' = Inr a'" "a_proxy a' = a_proxy a" .
  have get: "get_account name db' = Inr p" using rewired_get [OF "1.prems"(3)] p(1) by simp
  show ?case
  proof (cases "a_proxy a = []")
    case True
    with a' have "proxy_rank db' p 0" by (intro proxy_rank.self) (simp_all add: SCORUM_PROXY_TO_SELF_ACCOUNT_def)
    with get show ?thesis by blast
  next
    case False
    from "1.prems"(1,4) p have short: "\<not> SCORUM_MAX_PROXY_RECURSION_DEPTH < length (p # chain)"
      by (subst (asm) proxy_walk.simps) (auto split: if_splits)
    from "1.IH" [OF _ p(2) short rec _ "1.prems"(3) False] "1.prems"(2,4)
    obtain q n where "get_account (a_proxy a) db' = Inr q" "proxy_rank db' q n" by auto
    with a' False have "proxy_rank db' p (Suc n)"
      by (intro proxy_rank.step [of p db' a' q n]) (simp_all add: SCORUM_PROXY_TO_SELF_ACCOUNT_def)
    with get show ?thesis by blast
  qed
qed

lemma rewired_settles:
  assumes "proxy_rank db x m" and "rewired k db db'" and "\<exists>n. proxy_rank db' k n"
  shows "\<exists>n. proxy_rank db' x n"
  using assms(1)
proof induction
  case (self x a)
  show ?case
  proof (cases "x = k")
    case False
    from rewired_row [OF assms(2) False self.hyps(1)] obtain a' where
      "account_at x db' = Inr a'" "a_proxy a' = a_proxy a" .
    with self.hyps(2) have "proxy_rank db' x 0" by (intro proxy_rank.self [of x db' a']) simp_all
    then show ?thesis ..
  qed (use assms(3) in simp)
next
  case (step x a p n)
  show ?case
  proof (cases "x = k")
    case False
    from rewired_row [OF assms(2) False step.hyps(1)] obtain a' where
      a': "account_at x db' = Inr a'" "a_proxy a' = a_proxy a" .
    from step.IH obtain m where "proxy_rank db' p m" by blast
    with a' step.hyps(2,3) assms(2) have "proxy_rank db' x (Suc m)"
      by (intro proxy_rank.step [of x db' a' p m]) (auto simp: rewired_def)
    then show ?thesis ..
  qed (use assms(3) in simp)
qed

lemma rewired_put_account:
  assumes "db_ok db" and "map_of (indices (accounts db)) k = Some a" and "a_name b = a_name a"
  shows "rewired k db (put_account k b db)"
proof -
  have "map (\<lambda>r. (fst r, a_name (snd r))) (put_row k b (indices (accounts db)))
      = map (\<lambda>r. (fst r, a_name (snd r))) (indices (accounts db))"
    by (rule map_put_row_same) (use assms in \<open>simp_all add: db_ok_def tables_ok_def wf_index_def\<close>)
  moreover have "map_option fst (List.find (\<lambda>r. a_name (snd r) = name) rs)
      = map_option fst (List.find (\<lambda>r. snd r = name) (map (\<lambda>r. (fst r, a_name (snd r))) rs))"
    for name and rs :: "account_object rows"
    by (induction rs) auto
  ultimately have "get_account name (put_account k b db) = get_account name db" for name
    by (simp add: get_account_def ix_get_by_def ix_find_by_def)
  then show ?thesis by (auto simp: rewired_def account_at_iff)
qed

lemma rewired_cong:
  assumes "rewired k db db'" and "proxy_view db2 = proxy_view db"
  shows "rewired k db2 db'"
proof -
  have "get_account name db2 = get_account name db" for name
    using assms(2) by (simp add: get_account_proxy_view)
  moreover have "\<exists>a'. account_at x db = Inr a' \<and> a_proxy a' = a_proxy a" if "account_at x db2 = Inr a" for x a
    using that assms(2) map_of_proxy_view [of db2 x] map_of_proxy_view [of db x] by (auto simp: account_at_iff)
  ultimately show ?thesis using assms(1) unfolding rewired_def by metis
qed

lemma proxies_settle_keys:
  "proxies_settle db \<longleftrightarrow> (\<forall>x a. account_at x db = Inr a \<longrightarrow> (\<exists>n. proxy_rank db x n))"
proof -
  have "x \<in> fst ` set (indices (accounts db)) \<longleftrightarrow> (\<exists>a. map_of (indices (accounts db)) x = Some a)" for x
    using map_of_eq_None_rows [of "indices (accounts db)" x] by auto
  then show ?thesis unfolding proxies_settle_def account_at_iff by metis
qed

lemma rewired_proxies_settle:
  assumes "proxies_settle db" and "rewired k db db'" and "\<exists>n. proxy_rank db' k n"
    and "\<And>x a'. account_at x db' = Inr a' \<Longrightarrow> \<exists>a. account_at x db = Inr a"
  shows "proxies_settle db'"
  unfolding proxies_settle_keys
proof (intro allI impI)
  fix x a' assume "account_at x db' = Inr a'"
  then obtain a where "account_at x db = Inr a" using assms(4) by blast
  then obtain m where "proxy_rank db x m" using assms(1) by (auto simp: proxies_settle_keys)
  then show "\<exists>n. proxy_rank db' x n" using assms(2,3) by (rule rewired_settles)
qed

lemma proxies_settle_cong:
  assumes "proxies_settle db" and "proxy_view db' = proxy_view db"
  shows "proxies_settle db'"
proof -
  have "fst ` set (indices (accounts d)) = fst ` set (proxy_view d)" for d
    by (auto simp: proxy_view_def image_image)
  then have "fst ` set (indices (accounts db')) = fst ` set (indices (accounts db))" using assms(2) by simp
  with assms(1) show ?thesis using proxy_rank_cong [OF _ assms(2)] unfolding proxies_settle_def by metis
qed

lemma update_voting_proxy_settles:
  assumes F: "ext_ok F" and ok: "db_ok db" and settle: "proxies_settle db"
    and upd: "update_voting_proxy F k proxy db = Inr db'"
    and proxy: "\<And>pid pobj. proxy = Some (pid, pobj) \<Longrightarrow>
      account_at pid db = Inr pobj \<and> get_account (a_name pobj) db = Inr pid \<and> pid \<noteq> k \<and>
      a_name pobj \<noteq> SCORUM_PROXY_TO_SELF_ACCOUNT"
  shows "proxies_settle db'"
proof -
  from upd obtain acc0 where "account_at k db = Inr acc0" by (auto simp: update_voting_proxy_def bindE_Inr_iff)
  with settle obtain n where rank: "proxy_rank db k n" by (auto simp: proxies_settle_keys)
  obtain acc db1 where
    db1: "db_ok db1" "map_of (indices (accounts db1)) k = Some acc" "proxy_view db1 = proxy_view db" and
    rest: "(case proxy of
        Some (pid, pobj) \<Rightarrow>
          bindE (proxy_walk (remdups [k, pid]) (a_proxy pobj) db1) (\<lambda>_.
          bindE (clear_witness_votes k db1) (\<lambda>db.
          bindE (update_account k (\<lambda>a. Inr (a\<lparr>a_proxy := a_name pobj\<rparr>)) db) (\<lambda>db.
          bindE (negate_all F (map uminus (amount (a_scorumpower acc) # a_proxied_vsf_votes acc))) (\<lambda>delta.
          adjust_proxied_witness_votes_all F k delta 0 db))))
      | None \<Rightarrow> update_account k (\<lambda>a. Inr (a\<lparr>a_proxy := SCORUM_PROXY_TO_SELF_ACCOUNT\<rparr>)) db1) = Inr db'"
    by (rule update_voting_proxy_start [OF F ok rank upd]) (rule that; assumption)
  have settle1: "proxies_settle db1" using settle db1(3) by (rule proxies_settle_cong)
  show ?thesis
  proof (cases proxy)
    case None
    let ?b = "acc\<lparr>a_proxy := SCORUM_PROXY_TO_SELF_ACCOUNT\<rparr>"
    from rest None db1(2) have db': "db' = put_account k ?b db1" by (auto simp: res_simps)
    have "rewired k db1 db'" unfolding db' by (rule rewired_put_account [OF db1(1,2)]) simp
    moreover have "proxy_rank db' k 0" by (rule proxy_rank.self [of k db' ?b]) (simp_all add: db' account_at_iff)
    ultimately show ?thesis
      by (intro rewired_proxies_settle [OF settle1]) (use db1(2) in \<open>auto simp: db' account_at_iff split: if_splits\<close>)
  next
    case (Some pr)
    obtain pid pobj where pr: "pr = (pid, pobj)" by fastforce
    note P = proxy [unfolded Some pr, OF refl]
    from rest Some pr have walk: "proxy_walk (remdups [k, pid]) (a_proxy pobj) db1 = Inr ()"
      and steps: "bindE (clear_witness_votes k db1) (\<lambda>db.
          bindE (update_account k (\<lambda>a. Inr (a\<lparr>a_proxy := a_name pobj\<rparr>)) db) (\<lambda>db.
          bindE (negate_all F (map uminus (amount (a_scorumpower acc) # a_proxied_vsf_votes acc))) (\<lambda>delta.
          adjust_proxied_witness_votes_all F k delta 0 db))) = Inr db'"
      by (simp_all add: bindE_Inr_iff)
    let ?b = "acc\<lparr>a_witnesses_voted_for := 0, a_proxy := a_name pobj\<rparr>"
    from set_proxy_steps [OF F db1(1,2) steps] obtain ix db3 where
      db3: "db3 = put_account k ?b (db1\<lparr>witness_votes := ix\<rparr>)" "db_ok db3" and
      adj: "adjust_proxied_witness_votes_all F k (amount (a_scorumpower acc) # a_proxied_vsf_votes acc) 0 db3 = Inr db'"
      by metis
    have re: "rewired k db1 db3"
      using rewired_put_account [OF db1(1,2), of ?b] by (simp add: db3 rewired_def account_at_def get_account_def)
    have "get_account (a_name pobj) db3 = Inr pid"
      using re P db1(3) by (simp add: rewired_def get_account_proxy_view)
    moreover obtain pobj' where pid: "account_at pid db3 = Inr pobj'" "a_proxy pobj' = a_proxy pobj"
    proof -
      have "map_of (proxy_view db1) pid = Some (a_name pobj, a_proxy pobj)"
        using P unfolding db1(3) map_of_proxy_view by (simp add: account_at_iff)
      then obtain o1 where "account_at pid db1 = Inr o1" "a_proxy o1 = a_proxy pobj"
        by (auto simp: map_of_proxy_view account_at_iff)
      with rewired_row [OF re] P that show thesis by metis
    qed
    moreover have "\<exists>n. proxy_rank db3 pid n"
    proof (cases "a_proxy pobj = []")
      case True
      with pid have "proxy_rank db3 pid 0" by (intro proxy_rank.self) (simp_all add: SCORUM_PROXY_TO_SELF_ACCOUNT_def)
      then show ?thesis ..
    next
      case False
      have "k \<in> set (remdups [k, pid])" by simp
      from proxy_walk_settles [OF walk this re False] obtain q m where
        "get_account (a_proxy pobj) db3 = Inr q" "proxy_rank db3 q m" by blast
      with pid False have "proxy_rank db3 pid (Suc m)"
        by (intro proxy_rank.step [of pid db3 pobj' q m]) (simp_all add: SCORUM_PROXY_TO_SELF_ACCOUNT_def)
      then show ?thesis ..
    qed
    moreover have "account_at k db3 = Inr ?b" by (simp add: db3 account_at_iff)
    ultimately obtain m where rank3: "proxy_rank db3 k (Suc m)"
      using proxy_rank.step [of k db3 ?b pid] P by auto
    have "proxies_settle db3"
      by (intro rewired_proxies_settle [OF settle1 re] exI [of _ "Suc m"] rank3)
        (use db1(2) in \<open>auto simp: db3 account_at_iff split: if_splits\<close>)
    moreover have "proxy_view db' = proxy_view db3" using adjust_all_frame [OF F adj db3(2) rank3] by blast
    ultimately show ?thesis by (rule proxies_settle_cong)
  qed
qed

end
