(* ===== verification/Witness_Tally.thy ===== *)
theory Witness_Tally
  imports Proxy_Votes "HOL-Library.Multiset"
begin

text \<open>
  The votes of a witness. \<open>tally db w\<close> counts them from scratch: the scorum power, its own and
  the one it was handed, of every account with a vote for \<open>w\<close>. The lemmas show that the running
  totals the chain keeps in the witness objects are these numbers, whatever the operations do to
  scorum power, proxies and votes.
\<close>

definition weight :: "account_object \<Rightarrow> int" where
  "weight a = amount (a_scorumpower a) + sum_list (a_proxied_vsf_votes a)"

definition weight_of :: "database \<Rightarrow> nat \<Rightarrow> int" where
  "weight_of db k = (case map_of (indices (accounts db)) k of None \<Rightarrow> 0 | Some a \<Rightarrow> weight a)"

definition vote_count :: "database \<Rightarrow> nat \<Rightarrow> nat \<Rightarrow> int" where
  "vote_count db k w = row_sum (\<lambda>v. if wv_account v = k \<and> wv_witness v = w then 1 else 0) (indices (witness_votes db))"

definition tally :: "database \<Rightarrow> nat \<Rightarrow> int" where
  "tally db w = row_sum (\<lambda>v. if wv_witness v = w then weight_of db (wv_account v) else 0) (indices (witness_votes db))"

text \<open>The totals are exact up to \<open>d\<close> for the votes of account \<open>k\<close>, and up to \<open>e\<close>.\<close>

definition tally_off :: "database \<Rightarrow> nat \<Rightarrow> int \<Rightarrow> (nat \<Rightarrow> int) \<Rightarrow> bool" where
  "tally_off db k d e \<longleftrightarrow>
     (\<forall>w wit. map_of (indices (witnesses db)) w = Some wit \<longrightarrow>
        w_votes wit + d * vote_count db k w = tally db w + e w)"

text \<open>Only accounts without a proxy vote for witnesses.\<close>

definition direct_voters :: "database \<Rightarrow> bool" where
  "direct_voters db \<longleftrightarrow>
     (\<forall>v a. v \<in> snd ` set (indices (witness_votes db)) \<longrightarrow>
        map_of (indices (accounts db)) (wv_account v) = Some a \<longrightarrow> a_proxy a = SCORUM_PROXY_TO_SELF_ACCOUNT)"

definition votes_exact :: "database \<Rightarrow> bool" where
  "votes_exact db \<longleftrightarrow> direct_voters db \<and>
     (\<forall>w wit. map_of (indices (witnesses db)) w = Some wit \<longrightarrow> w_votes wit = tally db w)"

lemma votes_exact_off: "votes_exact db \<longleftrightarrow> direct_voters db \<and> tally_off db k 0 (\<lambda>_. 0)"
  by (simp add: votes_exact_def tally_off_def)

section \<open>Sums over votes\<close>

lemma row_sum_linear: "row_sum (\<lambda>v. f v + d * g v) rs = row_sum f rs + d * row_sum g rs"
  by (induction rs) (simp_all add: algebra_simps)

lemma row_sum_cong: "(\<And>v. v \<in> snd ` set rs \<Longrightarrow> f v = g v) \<Longrightarrow> row_sum f rs = row_sum g rs"
  by (induction rs) auto

lemma row_sum_filter_not:
  "row_sum f (filter (\<lambda>r. \<not> P (snd r)) rs) = row_sum f rs - row_sum (\<lambda>v. if P v then f v else 0) rs"
  by (induction rs) auto

lemma tally_cong:
  assumes "accounts db' = accounts db" and "witness_votes db' = witness_votes db"
  shows "tally db' w = tally db w" and "vote_count db' k w = vote_count db k w"
proof -
  have w: "weight_of db' = weight_of db" using assms(1) by (simp add: weight_of_def fun_eq_iff)
  show "tally db' w = tally db w" unfolding tally_def assms(2) w ..
  show "vote_count db' k w = vote_count db k w" by (simp add: vote_count_def assms(2))
qed

lemma votes_cong:
  assumes "accounts db' = accounts db" "witness_votes db' = witness_votes db" "witnesses db' = witnesses db"
  shows "direct_voters db' = direct_voters db" "tally_off db' = tally_off db" "votes_exact db' = votes_exact db"
  using tally_cong [OF assms(1,2)] assms
  by (simp_all add: direct_voters_def tally_off_def votes_exact_def fun_eq_iff)

lemma vote_count_0:
  assumes "direct_voters db" and "map_of (indices (accounts db)) k = Some a"
    and "a_proxy a \<noteq> SCORUM_PROXY_TO_SELF_ACCOUNT"
  shows "vote_count db k w = 0"
proof -
  have "row_sum (\<lambda>v. if wv_account v = k \<and> wv_witness v = w then 1 else 0) (indices (witness_votes db))
      = row_sum (\<lambda>_. 0) (indices (witness_votes db))"
    by (rule row_sum_cong) (use assms in \<open>force simp: direct_voters_def\<close>)
  moreover have "row_sum (\<lambda>_. 0) rs = 0" for rs :: "witness_vote_object rows" by (induction rs) auto
  ultimately show ?thesis by (simp add: vote_count_def)
qed

text \<open>A change of weight changes the tally of the witnesses the account votes for.\<close>

lemma tally_put_account:
  assumes "map_of (indices (accounts db)) k = Some a" and "weight b = weight a + d"
  shows "tally (put_account k b db) w = tally db w + d * vote_count db k w"
proof -
  have "weight_of (put_account k b db) x = weight_of db x + (if x = k then d else 0)" for x
    using assms by (simp add: weight_of_def)
  then have "tally (put_account k b db) w
      = row_sum (\<lambda>v. (if wv_witness v = w then weight_of db (wv_account v) else 0)
             + d * (if wv_account v = k \<and> wv_witness v = w then 1 else 0)) (indices (witness_votes db))"
    unfolding tally_def by (auto intro!: row_sum_cong)
  then show ?thesis unfolding row_sum_linear by (simp add: tally_def vote_count_def)
qed

lemma vote_count_put_account [simp]: "vote_count (put_account k b db) x w = vote_count db x w"
  by (simp add: vote_count_def)

lemma tally_off_put_account:
  assumes "map_of (indices (accounts db)) k = Some a" and "weight b = weight a + d"
    and "tally_off db k 0 e"
  shows "tally_off (put_account k b db) k d e"
  using assms(3) by (simp add: tally_off_def tally_put_account [OF assms(1,2)])

lemma direct_voters_put_account:
  assumes "direct_voters db" and "map_of (indices (accounts db)) k = Some a" and "a_proxy b = a_proxy a"
  shows "direct_voters (put_account k b db)"
  using assms by (auto simp: direct_voters_def split: if_splits)

section \<open>Adjusting the votes of a voter\<close>

lemma adjust_witness_vote_votes:
  assumes "ext_ok F" and "adjust_witness_vote F w d db = Inr db'"
  shows "\<exists>wit wit'. map_of (indices (witnesses db)) w = Some wit \<and> w_votes wit' = w_votes wit + d \<and>
    db' = db\<lparr>witnesses := (witnesses db)\<lparr>indices := put_row w wit' (indices (witnesses db))\<rparr>\<rparr>"
proof -
  from assms(2) obtain wit wit' where "map_of (indices (witnesses db)) w = Some wit"
    and m: "(let now = current_virtual_time db;
           delta_pos = u128_mul F (word_of_int (w_votes wit)) (u128_sub F now (w_virtual_last_update wit));
           position = u128_add F (w_virtual_position wit) delta_pos in
       bindE (safe_add F (w_votes wit) d) (\<lambda>votes.
       bindE (fc_assert (votes \<le> amount (dgp_total_scorumpower (dgp db))) ''w.votes'') (\<lambda>_.
       bindE (u128_div F (u128_sub F VIRTUAL_SCHEDULE_LAP_LENGTH position) (word_of_int (votes + 1))) (\<lambda>q.
       let scheduled = u128_add F now q in
       Inr (wit\<lparr>w_virtual_position := position, w_virtual_last_update := now, w_votes := votes,
             w_virtual_scheduled_time := (if scheduled < now then - 1 else scheduled)\<rparr>))))) = Inr wit'"
    and "db' = db\<lparr>witnesses := (witnesses db)\<lparr>indices := put_row w wit' (indices (witnesses db))\<rparr>\<rparr>"
    unfolding adjust_witness_vote_def update_witness_row_iff by blast
  moreover from m have "w_votes wit' = w_votes wit + d"
    using assms(1) by (auto simp: Let_def res_simps fc_simps)
  ultimately show ?thesis by blast
qed

lemma adjust_list_votes:
  assumes "ext_ok F" and "foldE (\<lambda>w. adjust_witness_vote F w d) ws db = Inr db'"
    and "map_of (indices (witnesses db')) w = Some wit'"
  shows "\<exists>wit. map_of (indices (witnesses db)) w = Some wit \<and> w_votes wit' = w_votes wit + d * int (count_list ws w)"
  using assms(2,3)
proof (induction ws arbitrary: db)
  case (Cons x ws)
  from Cons.prems(1) obtain db1 where 1: "adjust_witness_vote F x d db = Inr db1"
    and 2: "foldE (\<lambda>w. adjust_witness_vote F w d) ws db1 = Inr db'" by (auto simp: bindE_Inr_iff)
  from Cons.IH [OF 2 Cons.prems(2)] obtain wit1 where
    w1: "map_of (indices (witnesses db1)) w = Some wit1" "w_votes wit' = w_votes wit1 + d * int (count_list ws w)" by blast
  from adjust_witness_vote_votes [OF assms(1) 1] w1 show ?case
    by (auto simp: algebra_simps split: if_splits)
qed simp

lemma count_voted: "int (count_list (voted_witnesses k db) w) = vote_count db k w"
proof -
  have "count_list (voted_witnesses k db) w
      = count_list (map (\<lambda>r. wv_witness (snd r)) (filter (\<lambda>r. wv_account (snd r) = k) (indices (witness_votes db)))) w"
    unfolding voted_witnesses_def by (metis count_mset mset_sort)
  moreover have "int (count_list (map (\<lambda>r. wv_witness (snd r)) (filter (\<lambda>r. wv_account (snd r) = k) rs)) w)
      = row_sum (\<lambda>v. if wv_account v = k \<and> wv_witness v = w then 1 else 0) rs" for rs
    by (induction rs) auto
  ultimately show ?thesis by (simp add: vote_count_def)
qed

lemma adjust_witness_votes_tally:
  assumes "ext_ok F" and "adjust_witness_votes F k d db = Inr db'"
  shows "\<exists>ix. db' = db\<lparr>witnesses := ix\<rparr>"
    and "tally_off db k d e \<Longrightarrow> tally_off db' k 0 e"
proof -
  from adjust_witness_votes_frame [OF assms(2)] obtain ix where db': "db' = db\<lparr>witnesses := ix\<rparr>" by blast
  then show "\<exists>ix. db' = db\<lparr>witnesses := ix\<rparr>" by blast
  have eq: "tally db' w = tally db w" "vote_count db' k w = vote_count db k w" for w
    by (rule tally_cong; simp add: db')+
  assume "tally_off db k d e"
  then show "tally_off db' k 0 e"
    using adjust_list_votes [OF assms(1)] assms(2) unfolding adjust_witness_votes_def
    by (fastforce simp: tally_off_def eq count_voted)
qed

lemma direct_voters_witnesses [simp]: "direct_voters (db\<lparr>witnesses := ix\<rparr>) \<longleftrightarrow> direct_voters db"
  by (simp add: direct_voters_def)

section \<open>Along the chain of proxies\<close>

lemma tally_off_proxied:
  assumes "direct_voters db" and "map_of (indices (accounts db)) k = Some a"
    and "a_proxy a \<noteq> SCORUM_PROXY_TO_SELF_ACCOUNT"
  shows "tally_off db k d e \<longleftrightarrow> tally_off db x 0 e"
  using vote_count_0 [OF assms] by (simp add: tally_off_def)

lemma tally_off_zero: "tally_off db k 0 e \<Longrightarrow> tally_off db x 0 e"
  by (simp add: tally_off_def)

lemma adjust_proxied_tally:
  assumes "ext_ok F" and "adjust_proxied_witness_votes F k d depth db = Inr db'" and "db_ok db"
    and "map_of (indices (accounts db)) k = Some acc" and "direct_voters db" and "tally_off db k d e"
  shows "direct_voters db' \<and> tally_off db' x 0 e"
  using assms
proof (induction "SCORUM_MAX_PROXY_RECURSION_DEPTH - depth" arbitrary: k depth db acc rule: less_induct)
  case less
  show ?case
  proof (cases "a_proxy acc = SCORUM_PROXY_TO_SELF_ACCOUNT")
    case True
    with less.prems(2,4) have adj: "adjust_witness_votes F k d db = Inr db'"
      by (subst (asm) adjust_proxied_witness_votes.simps) (simp add: account_at_def ix_get_def ix_find_def)
    from adjust_witness_votes_tally [OF less.prems(1) adj] less.prems(5,6) show ?thesis
      by (auto intro: tally_off_zero)
  next
    case False
    note off = tally_off_proxied [OF less.prems(5,4) False, of d e]
    show ?thesis
    proof (cases "depth \<ge> SCORUM_MAX_PROXY_RECURSION_DEPTH")
      case True
      with less.prems(2,4) False have "db' = db"
        by (subst (asm) adjust_proxied_witness_votes.simps) (simp add: account_at_def ix_get_def ix_find_def)
      with less.prems(5,6) off show ?thesis by blast
    next
      case depth: False
      from less.prems(2,4) False depth obtain p db1 where
        p: "get_account (a_proxy acc) db = Inr p" and
        db1: "update_account p (add_proxied F depth d) db = Inr db1" and
        rec: "adjust_proxied_witness_votes F p d (depth + 1) db1 = Inr db'"
        by (subst (asm) adjust_proxied_witness_votes.simps) (auto simp: res_simps split: if_splits)
      obtain b where b: "map_of (indices (accounts db)) p = Some b"
        using get_account_row [OF p less.prems(3)] by blast
      have b_ok: "account_ok b" using less.prems(3) b by (rule db_ok_account)
      from db1 b obtain b' where b': "add_proxied F depth d b = Inr b'" and eq: "db1 = put_account p b' db"
        by (auto simp: res_simps)
      have w: "weight b' = weight b + d" "a_proxy b' = a_proxy b" "account_ok b'"
        using b' b_ok less.prems(1) depth
        by (auto simp: add_proxied_def res_simps fc_simps weight_def account_ok_def sum_list_update_int)
      have "db_ok db1" unfolding eq by (rule db_ok_put_account [OF less.prems(3) b w(3)])
      moreover have "direct_voters db1" unfolding eq by (rule direct_voters_put_account [OF less.prems(5) b w(2)])
      moreover have "tally_off db1 p d e"
        unfolding eq by (rule tally_off_put_account [OF b w(1)]) (use less.prems(6) off in blast)
      moreover have "map_of (indices (accounts db1)) p = Some b'" by (simp add: eq)
      ultimately show ?thesis
        using less.hyps [of "depth + 1" p db1 b'] less.prems(1) rec depth by auto
    qed
  qed
qed

lemma foldE_safe_sum:
  assumes "ext_ok F" and "foldE (\<lambda>i acc. safe_add F acc (delta ! i)) js x = Inr t"
  shows "t = x + (\<Sum>i\<leftarrow>js. delta ! i)"
  using assms(2) by (induction js arbitrary: x) (fastforce simp: res_simps safe_iffs [OF assms(1)])+

text \<open>All votes an account carries, as they arrive at distance \<open>depth\<close>.\<close>

definition carried :: "int list \<Rightarrow> nat \<Rightarrow> int" where
  "carried delta depth = (\<Sum>i < SCORUM_MAX_PROXY_RECURSION_DEPTH - depth + 1. delta ! i)"

lemma carried_Suc: "depth < SCORUM_MAX_PROXY_RECURSION_DEPTH \<Longrightarrow> carried delta (depth + 1) = chain_total delta depth"
  by (simp add: carried_def chain_total_def Suc_diff_Suc)

lemma adjust_all_tally:
  assumes "ext_ok F" and "adjust_proxied_witness_votes_all F k delta depth db = Inr db'" and "db_ok db"
    and "map_of (indices (accounts db)) k = Some acc" and "direct_voters db" and "tally_off db k (carried delta depth) e"
  shows "direct_voters db' \<and> tally_off db' x 0 e"
  using assms
proof (induction "SCORUM_MAX_PROXY_RECURSION_DEPTH - depth" arbitrary: k depth db acc rule: less_induct)
  case less
  from less.prems(2,4) show ?case
  proof (cases rule: adjust_all_cases)
    case cut
    with tally_off_proxied [OF less.prems(5,4)] less.prems(5,6) show ?thesis by blast
  next
    case (voter total)
    have "total = carried delta depth"
      using foldE_safe_sum [OF less.prems(1) voter(2)]
      by (simp add: rev_map [symmetric] interv_sum_list_conv_sum_set_nat atLeast0LessThan carried_def
          del: upt_Suc sum.lessThan_Suc)
    with adjust_witness_votes_tally [OF less.prems(1) voter(3)] less.prems(5,6) show ?thesis
      by (auto intro: tally_off_zero)
  next
    case (proxy p db1)
    obtain b where b: "map_of (indices (accounts db)) p = Some b"
      using get_account_row [OF proxy(3) less.prems(3)] by blast
    from add_all_step [OF less.prems(1,3) b proxy(4)] obtain votes where
      eq: "db1 = put_account p (b\<lparr>a_proxied_vsf_votes := votes\<rparr>) db" (is "_ = put_account p ?b db")
      and v: "sum_list votes = sum_list (a_proxied_vsf_votes b) + chain_total delta depth" and ok1: "db_ok db1"
      by metis
    have w: "weight ?b = weight b + chain_total delta depth" using v by (simp add: weight_def)
    have "direct_voters db1" unfolding eq by (rule direct_voters_put_account [OF less.prems(5) b]) simp
    moreover have "tally_off db1 p (carried delta (depth + 1)) e"
      unfolding eq carried_Suc [OF proxy(2)]
      by (rule tally_off_put_account [OF b w])
        (use tally_off_proxied [OF less.prems(5,4) proxy(1)] less.prems(6) in blast)
    moreover have "map_of (indices (accounts db1)) p = Some ?b" by (simp add: eq)
    ultimately show ?thesis
      using less.hyps [of "depth + 1" p db1 ?b] less.prems(1) proxy(2,5) ok1 by auto
  qed
qed

section \<open>Scorum power and proxies\<close>

lemma votes_exact_increase_scorumpower:
  assumes F: "ext_ok F" and ok: "db_ok db" and votes: "votes_exact db"
    and "increase_scorumpower F k amt db = Inr db'"
  shows "votes_exact db'"
proof -
  let ?upd = "\<lambda>x n. x\<lparr>amount := amount x + n\<rparr> :: asset"
  from assms(1,4) obtain a where a: "map_of (indices (accounts db)) k = Some a" and
    adj: "adjust_proxied_witness_votes F k (amount amt) 0
       ((put_account k (a\<lparr>a_scorumpower := ?upd (a_scorumpower a) (amount amt)\<rparr>) db)
          \<lparr>dgp := (dgp db)\<lparr>dgp_circulating_capital := ?upd (dgp_circulating_capital (dgp db)) (amount amt),
                    dgp_total_scorumpower := ?upd (dgp_total_scorumpower (dgp db)) (amount amt)\<rparr>\<rparr>) = Inr db'"
      (is "adjust_proxied_witness_votes F k _ 0 (?put\<lparr>dgp := ?p\<rparr>) = _")
    by (auto simp: increase_scorumpower_def res_simps fc_simps)
  let ?a = "a\<lparr>a_scorumpower := ?upd (a_scorumpower a) (amount amt)\<rparr>" and ?db1 = "?put\<lparr>dgp := ?p\<rparr>"
  have "account_ok a" "dgp_ok (dgp db)" using db_ok_account [OF ok a] ok by (auto simp: db_ok_def)
  then have ok1: "db_ok ?db1"
    by (intro db_ok_dgp db_ok_put_account [OF ok a]) (simp_all add: account_ok_def dgp_ok_def)
  have row1: "map_of (indices (accounts ?db1)) k = Some ?a" by simp
  have dgp: "direct_voters (d\<lparr>dgp := q\<rparr>) = direct_voters d" "tally_off (d\<lparr>dgp := q\<rparr>) = tally_off d" for d q
    by (rule votes_cong; simp)+
  have "direct_voters ?db1" unfolding dgp
    by (rule direct_voters_put_account [OF _ a]) (use votes in \<open>simp_all add: votes_exact_def\<close>)
  moreover have "tally_off ?db1 k (amount amt) (\<lambda>_. 0)" unfolding dgp
    by (rule tally_off_put_account [OF a]) (use votes in \<open>simp_all add: votes_exact_off [of db k] weight_def\<close>)
  ultimately show ?thesis
    using adjust_proxied_tally [OF F adj ok1 row1] unfolding votes_exact_off [of db' k] by blast
qed

lemma foldE_remove_filter:
  assumes "wf_index ix" and "foldE ix_remove (ix_ids_by P ix) ix = Inr ix'"
  shows "indices ix' = filter (\<lambda>r. \<not> P (snd r)) (indices ix)"
proof -
  have fold: "foldE ix_remove ks i = Inr i' \<Longrightarrow> indices i' = filter (\<lambda>r. fst r \<notin> set ks) (indices i)"
    for ks and i i' :: "'a base_index"
    by (induction ks arbitrary: i) (auto simp: bindE_Inr_iff ix_remove_eq_Inr drop_row_def intro: filter_cong)
  have d: "distinct (map fst (indices ix))"
    using assms(1) by (intro sorted_rows_distinct) (simp add: wf_index_def)
  have "fst r \<in> set (ix_ids_by P ix) \<longleftrightarrow> P (snd r)" if "r \<in> set (indices ix)" for r
    using that d by (auto simp: ix_ids_by_def distinct_map inj_on_def)
  with fold [OF assms(2)] show ?thesis by (auto intro: filter_cong)
qed

lemma tally_clear:
  assumes "wf_index (witness_votes db)" and "map_of (indices (accounts db)) k = Some a"
    and "foldE ix_remove (ix_ids_by (\<lambda>v. wv_account v = k) (witness_votes db)) (witness_votes db) = Inr ix"
  shows "tally (db\<lparr>witness_votes := ix\<rparr>) w = tally db w - weight a * vote_count db k w"
proof -
  let ?f = "\<lambda>v. if wv_witness v = w then weight_of db (wv_account v) else 0"
  have "weight_of (db\<lparr>witness_votes := ix\<rparr>) x = weight_of db x" for x by (simp add: weight_of_def)
  then have "tally (db\<lparr>witness_votes := ix\<rparr>) w = row_sum ?f (indices ix)"
    unfolding tally_def by (auto intro!: row_sum_cong)
  also have "\<dots> = tally db w - row_sum (\<lambda>v. if wv_account v = k then ?f v else 0) (indices (witness_votes db))"
    unfolding foldE_remove_filter [OF assms(1,3)] tally_def by (rule row_sum_filter_not)
  also have "row_sum (\<lambda>v. if wv_account v = k then ?f v else 0) (indices (witness_votes db))
      = row_sum (\<lambda>v. 0 + weight a * (if wv_account v = k \<and> wv_witness v = w then 1 else 0)) (indices (witness_votes db))"
    by (rule row_sum_cong) (use assms(2) in \<open>auto simp: weight_of_def\<close>)
  also have "\<dots> = weight a * vote_count db k w"
    unfolding row_sum_linear vote_count_def by (simp add: row_sum_def)
  finally show ?thesis .
qed

lemma carried_all:
  "length xs = SCORUM_MAX_PROXY_RECURSION_DEPTH \<Longrightarrow> carried (map uminus (x # xs)) 0 = - (x + sum_list xs)"
  by (auto simp: carried_def SCORUM_MAX_PROXY_RECURSION_DEPTH_def length_Suc_conv eval_nat_numeral)

lemma votes_exact_update_voting_proxy:
  assumes F: "ext_ok F" and ok: "db_ok db" and rank: "proxy_rank db k n" and votes: "votes_exact db"
    and upd: "update_voting_proxy F k proxy db = Inr db'"
    and row: "map_of (indices (accounts db)) k = Some a0"
    and changes: "proxy = None \<Longrightarrow> a_proxy a0 \<noteq> SCORUM_PROXY_TO_SELF_ACCOUNT"
    and name: "\<And>pid pobj. proxy = Some (pid, pobj) \<Longrightarrow> a_name pobj \<noteq> SCORUM_PROXY_TO_SELF_ACCOUNT"
  shows "votes_exact db'"
proof -
  obtain acc db1 where
    acc: "map_of (indices (accounts db)) k = Some acc" "account_ok acc" and
    adj: "adjust_proxied_witness_votes_all F k (map uminus (amount (a_scorumpower acc) # a_proxied_vsf_votes acc)) 0 db = Inr db1" and
    db1: "db_ok db1" "map_of (indices (accounts db1)) k = Some acc" "witness_votes db1 = witness_votes db" and
    rest: "(case proxy of
        Some (pid, pobj) \<Rightarrow>
          bindE (proxy_walk (remdups [k, pid]) (a_proxy pobj) db1) (\<lambda>_.
          bindE (clear_witness_votes k db1) (\<lambda>db.
          bindE (update_account k (\<lambda>a. Inr (a\<lparr>a_proxy := a_name pobj\<rparr>)) db) (\<lambda>db.
          bindE (negate_all F (map uminus (amount (a_scorumpower acc) # a_proxied_vsf_votes acc))) (\<lambda>delta.
          adjust_proxied_witness_votes_all F k delta 0 db))))
      | None \<Rightarrow> update_account k (\<lambda>a. Inr (a\<lparr>a_proxy := SCORUM_PROXY_TO_SELF_ACCOUNT\<rparr>)) db1) = Inr db'"
    by (rule update_voting_proxy_start [OF F ok rank upd]) (rule that; assumption)
  have len: "length (a_proxied_vsf_votes acc) = SCORUM_MAX_PROXY_RECURSION_DEPTH" using acc(2) by (simp add: account_ok_def)
  let ?e = "\<lambda>w. - weight acc * vote_count db k w"
  have "tally_off db k (carried (map uminus (amount (a_scorumpower acc) # a_proxied_vsf_votes acc)) 0) ?e"
    unfolding carried_all [OF len] using votes by (simp add: tally_off_def votes_exact_def weight_def)
  with adjust_all_tally [OF F adj ok acc(1)] votes have
    dv1: "direct_voters db1" and off1: "tally_off db1 k 0 ?e" unfolding votes_exact_def by blast+
  have count1: "vote_count db1 k w = vote_count db k w" for w by (simp add: vote_count_def db1(3))
  show ?thesis
  proof (cases proxy)
    case None
    let ?b = "acc\<lparr>a_proxy := SCORUM_PROXY_TO_SELF_ACCOUNT\<rparr>"
    from rest None db1(2) have db': "db' = put_account k ?b db1" by (auto simp: res_simps)
    have "a_proxy acc \<noteq> SCORUM_PROXY_TO_SELF_ACCOUNT" using changes None row acc(1) by simp
    then have "vote_count db k w = 0" for w
      using vote_count_0 [OF _ acc(1)] votes by (simp add: votes_exact_def)
    then have "tally_off db1 k 0 (\<lambda>_. 0)" using off1 by simp
    then have "tally_off db' k 0 (\<lambda>_. 0)"
      unfolding db' by (intro tally_off_put_account [OF db1(2)]) (simp_all add: weight_def)
    moreover have "direct_voters db'" using dv1 db1(2) by (auto simp: db' direct_voters_def split: if_splits)
    ultimately show ?thesis unfolding votes_exact_off [of db' k] by blast
  next
    case (Some pr)
    obtain pid pobj where pr: "pr = (pid, pobj)" by fastforce
    from rest Some pr have steps: "bindE (clear_witness_votes k db1) (\<lambda>db.
          bindE (update_account k (\<lambda>a. Inr (a\<lparr>a_proxy := a_name pobj\<rparr>)) db) (\<lambda>db.
          bindE (negate_all F (map uminus (amount (a_scorumpower acc) # a_proxied_vsf_votes acc))) (\<lambda>delta.
          adjust_proxied_witness_votes_all F k delta 0 db))) = Inr db'"
      by (simp add: bindE_Inr_iff)
    let ?b = "acc\<lparr>a_witnesses_voted_for := 0, a_proxy := a_name pobj\<rparr>"
    from set_proxy_steps [OF F db1(1,2) steps] obtain ix db3 where
      ix: "foldE ix_remove (ix_ids_by (\<lambda>v. wv_account v = k) (witness_votes db1)) (witness_votes db1) = Inr ix" and
      db3: "db3 = put_account k ?b (db1\<lparr>witness_votes := ix\<rparr>)" "db_ok db3" and
      adj: "adjust_proxied_witness_votes_all F k (amount (a_scorumpower acc) # a_proxied_vsf_votes acc) 0 db3 = Inr db'"
      by metis
    have wf: "wf_index (witness_votes db1)" using db1(1) by (simp add: db_ok_def tables_ok_def)
    have acc2: "map_of (indices (accounts (db1\<lparr>witness_votes := ix\<rparr>))) k = Some acc" using db1(2) by simp
    have "tally_off (db1\<lparr>witness_votes := ix\<rparr>) k 0 (\<lambda>_. 0)"
      using off1 by (simp add: tally_off_def tally_clear [OF wf db1(2) ix] count1)
    then have off3: "tally_off db3 k 0 (\<lambda>_. 0)"
      unfolding db3(1) by (intro tally_off_put_account [OF acc2]) (simp_all add: weight_def)
    have dv3: "direct_voters db3"
      using dv1 foldE_remove_filter [OF wf ix] by (fastforce simp: db3(1) direct_voters_def)
    have row3: "map_of (indices (accounts db3)) k = Some ?b" by (simp add: db3(1))
    have ne: "a_proxy ?b \<noteq> SCORUM_PROXY_TO_SELF_ACCOUNT" using name Some pr by simp
    have "tally_off db3 k (carried (amount (a_scorumpower acc) # a_proxied_vsf_votes acc) 0) (\<lambda>_. 0)"
      using off3 tally_off_proxied [OF dv3 row3 ne] by blast
    with adjust_all_tally [OF F adj db3(2) row3 dv3] show ?thesis unfolding votes_exact_off [of db' k] by blast
  qed
qed

end
