(* ===== verification/Chain_Soundness.thy ===== *)
theory Chain_Soundness
  imports Witness_Tally
begin

text \<open>
  What the services rely on and what every operation has to keep: \<open>sound\<close> databases are well
  formed, their witness totals and proxy chains are in order, and nobody is in debt.
  \<open>keeps db db'\<close> says that a step keeps this; the lemmas show it for the services of
  \<open>Account_Service\<close>, some of them under the check the evaluators make before they call them.
  The locale \<open>custody\<close> is the interface between the ledger and the tables that hold balances for
  accounts: escrows, swap contracts and bets.
\<close>

section \<open>Soundness\<close>

definition account_solvent :: "account_object \<Rightarrow> bool" where
  "account_solvent a \<longleftrightarrow> 0 \<le> amount (a_balance a) \<and> 0 \<le> amount (a_scorumpower a)"

text \<open>
  The fee of an escrow is paid out when both sides have approved, a dispute is about an approved
  escrow, and the agent is a third party.
\<close>

definition escrow_solvent :: "escrow_object \<Rightarrow> bool" where
  "escrow_solvent e \<longleftrightarrow> 0 \<le> amount (e_scorum_balance e) \<and> 0 \<le> amount (e_pending_fee e) \<and>
     (e_to_approved e \<and> e_agent_approved e \<longrightarrow> amount (e_pending_fee e) = 0) \<and>
     (e_disputed e \<longrightarrow> e_to_approved e \<and> e_agent_approved e) \<and>
     e_agent e \<noteq> e_from e \<and> e_agent e \<noteq> e_to e"

text \<open>A swap contract that shows the secret has been paid out.\<close>

definition contract_solvent :: "atomicswap_contract_object \<Rightarrow> bool" where
  "contract_solvent c \<longleftrightarrow> 0 \<le> amount (s_amount c) \<and> (s_secret c \<noteq> [] \<longrightarrow> amount (s_amount c) = 0)"

definition bet_solvent :: "bet_data \<Rightarrow> bool" where
  "bet_solvent b \<longleftrightarrow> 0 \<le> amount (b_stake b) \<and> amount (b_stake b) < 2 ^ 63 \<and>
     wf_odds (b_odds b) \<and> fst (o_simplified (b_odds b)) < 2 ^ 31 \<and> is_wincase (b_wincase b)"

definition solvent :: "database \<Rightarrow> bool" where
  "solvent db \<longleftrightarrow>
     (\<forall>a \<in> snd ` set (indices (accounts db)). account_solvent a) \<and>
     (\<forall>e \<in> snd ` set (indices (escrows db)). escrow_solvent e) \<and>
     (\<forall>c \<in> snd ` set (indices (contracts db)). contract_solvent c) \<and>
     (\<forall>b \<in> snd ` set (indices (pending_bets db)). bet_solvent (p_data b)) \<and>
     (\<forall>b \<in> snd ` set (indices (matched_bets db)). bet_solvent (m_bet1_data b) \<and> bet_solvent (m_bet2_data b))"

text \<open>Votes are for witnesses that exist.\<close>

definition vote_refs :: "database \<Rightarrow> bool" where
  "vote_refs db \<longleftrightarrow> (\<forall>v \<in> snd ` set (indices (witness_votes db)). wv_witness v \<in> fst ` set (indices (witnesses db)))"

definition sound :: "database \<Rightarrow> bool" where
  "sound db \<longleftrightarrow> db_ok db \<and> votes_exact db \<and> vote_refs db \<and> proxies_settle db \<and> solvent db"

definition keeps :: "database \<Rightarrow> database \<Rightarrow> bool" where
  "keeps db db' \<longleftrightarrow> (sound db \<longrightarrow> sound db')"

lemma keeps_refl [intro]: "keeps db db"
  by (simp add: keeps_def)

lemma keeps_trans: "keeps db db1 \<Longrightarrow> keeps db1 db2 \<Longrightarrow> keeps db db2"
  by (simp add: keeps_def)

lemma keeps_foldE:
  assumes "foldE f xs db = Inr db'" and "\<And>x db db'. x \<in> set xs \<Longrightarrow> f x db = Inr db' \<Longrightarrow> keeps db db'"
  shows "keeps db db'"
  by (rule foldE_inv [OF assms(1), of "keeps db", OF keeps_refl]) (rule keeps_trans, assumption, rule assms(2))

lemma sound_account: "sound db \<Longrightarrow> map_of (indices (accounts db)) k = Some a \<Longrightarrow> account_ok a \<and> account_solvent a"
  by (auto simp: sound_def solvent_def intro: db_ok_account dest: map_of_snd)

text \<open>What an operation does: it keeps the database sound and moves nothing in or out of the ledger.\<close>

definition conserves :: "database \<Rightarrow> database \<Rightarrow> bool" where
  "conserves db db' \<longleftrightarrow> (sound db \<longrightarrow> sound db' \<and> ledger_move 0 db db')"

lemma conservesI: "keeps db db' \<Longrightarrow> ledger_move 0 db db' \<Longrightarrow> conserves db db'"
  by (simp add: conserves_def keeps_def)

lemma conserves_refl [intro]: "conserves db db"
  by (simp add: conserves_def ledger_move_refl)

lemma conserves_trans: "conserves db db1 \<Longrightarrow> conserves db1 db2 \<Longrightarrow> conserves db db2"
  unfolding conserves_def using ledger_move_trans [of 0 db db1 0 db2 0] by simp

lemma conserves_foldE:
  assumes "foldE f xs db = Inr db'" and "\<And>x db db'. x \<in> set xs \<Longrightarrow> f x db = Inr db' \<Longrightarrow> conserves db db'"
  shows "conserves db db'"
  by (rule foldE_inv [OF assms(1), of "conserves db", OF conserves_refl]) (rule conserves_trans, assumption, rule assms(2))

section \<open>Steps that leave the votes alone\<close>

text \<open>What the votes and the proxies depend on.\<close>

definition vote_view :: "database \<Rightarrow> _" where
  "vote_view db = (map (\<lambda>r. (fst r, a_name (snd r), a_proxy (snd r), weight (snd r))) (indices (accounts db)),
     indices (witness_votes db), map (\<lambda>r. (fst r, w_votes (snd r))) (indices (witnesses db)))"

lemma map_of_map_row: "map_of (map (\<lambda>r. (fst r, g (snd r))) rs) k = map_option g (map_of rs k)"
  by (induction rs) auto

lemma vote_view_parts:
  assumes "vote_view db' = vote_view db"
  shows "proxy_view db' = proxy_view db" "weight_of db' = weight_of db"
    "indices (witness_votes db') = indices (witness_votes db)"
    "map_option w_votes (map_of (indices (witnesses db')) w) = map_option w_votes (map_of (indices (witnesses db)) w)"
    "map_option a_proxy (map_of (indices (accounts db')) k) = map_option a_proxy (map_of (indices (accounts db)) k)"
    "fst ` set (indices (witnesses db')) = fst ` set (indices (witnesses db))"
proof -
  let ?g = "\<lambda>a. (a_name a, a_proxy a, weight a)"
  have a: "map (\<lambda>r. (fst r, ?g (snd r))) (indices (accounts db')) = map (\<lambda>r. (fst r, ?g (snd r))) (indices (accounts db))"
    and v: "indices (witness_votes db') = indices (witness_votes db)"
    and w: "map (\<lambda>r. (fst r, w_votes (snd r))) (indices (witnesses db')) = map (\<lambda>r. (fst r, w_votes (snd r))) (indices (witnesses db))"
    using assms by (simp_all add: vote_view_def)
  have row: "map_option ?g (map_of (indices (accounts db')) k) = map_option ?g (map_of (indices (accounts db)) k)" for k
    using arg_cong [OF a, of "\<lambda>m. map_of m k"] by (simp only: map_of_map_row [of ?g])
  have "map (\<lambda>r. (fst r, fst (snd r), fst (snd (snd r)))) (map (\<lambda>r. (fst r, ?g (snd r))) (indices (accounts db')))
      = map (\<lambda>r. (fst r, fst (snd r), fst (snd (snd r)))) (map (\<lambda>r. (fst r, ?g (snd r))) (indices (accounts db)))"
    using a by (rule arg_cong)
  then show "proxy_view db' = proxy_view db" by (simp add: proxy_view_def comp_def)
  have "map_option weight (map_of (indices (accounts db')) k) = map_option weight (map_of (indices (accounts db)) k)" for k
    using arg_cong [OF row [of k], of "map_option (snd \<circ> snd)"] by (simp add: option.map_comp comp_def)
  then have "weight_of db' k = weight_of db k" for k
    unfolding weight_of_def by (metis (no_types, lifting) option.case_eq_if option.map_disc_iff option.map_sel)
  then show "weight_of db' = weight_of db" by blast
  show "indices (witness_votes db') = indices (witness_votes db)" by (rule v)
  show "map_option w_votes (map_of (indices (witnesses db')) w) = map_option w_votes (map_of (indices (witnesses db)) w)"
    using arg_cong [OF w, of "\<lambda>m. map_of m w"] by (simp only: map_of_map_row)
  show "map_option a_proxy (map_of (indices (accounts db')) k) = map_option a_proxy (map_of (indices (accounts db)) k)"
    using arg_cong [OF row [of k], of "map_option (fst \<circ> snd)"] by (simp add: option.map_comp comp_def)
  show "fst ` set (indices (witnesses db')) = fst ` set (indices (witnesses db))"
    using arg_cong [OF w, of "\<lambda>m. fst ` set m"] by (simp add: image_image)
qed

lemma vote_view_same:
  assumes "vote_view db' = vote_view db"
  shows "votes_exact db' = votes_exact db" "vote_refs db' = vote_refs db" "proxies_settle db' = proxies_settle db"
proof -
  note p = vote_view_parts [OF assms]
  have "tally db' w = tally db w" for w unfolding tally_def p(2,3) ..
  moreover have "(\<forall>wit. map_of (indices (witnesses db')) w = Some wit \<longrightarrow> w_votes wit = t) \<longleftrightarrow>
      (\<forall>wit. map_of (indices (witnesses db)) w = Some wit \<longrightarrow> w_votes wit = t)" for w t
    using p(4) [of w] by (cases "map_of (indices (witnesses db')) w"; cases "map_of (indices (witnesses db)) w") auto
  moreover have "(\<forall>a. map_of (indices (accounts db')) k = Some a \<longrightarrow> a_proxy a = n) \<longleftrightarrow>
      (\<forall>a. map_of (indices (accounts db)) k = Some a \<longrightarrow> a_proxy a = n)" for k n
    using p(5) [of k] by (cases "map_of (indices (accounts db')) k"; cases "map_of (indices (accounts db)) k") auto
  ultimately show "votes_exact db' = votes_exact db"
    unfolding votes_exact_def direct_voters_def p(3) imp_conjL by (simp add: all_simps)
  show "vote_refs db' = vote_refs db" by (simp add: vote_refs_def p(3,6))
  show "proxies_settle db' = proxies_settle db"
    using proxies_settle_cong [of db db'] proxies_settle_cong [of db' db] p(1) by metis
qed

text \<open>A step that leaves the votes alone is sound if it keeps the tables and the solvency.\<close>

lemma keepsI:
  assumes "vote_view db' = vote_view db" and "db_ok db \<Longrightarrow> db_ok db'" and "sound db \<Longrightarrow> solvent db'"
  shows "keeps db db'"
  using assms vote_view_same [OF assms(1)] by (auto simp: keeps_def sound_def)

definition vote_fields :: "account_object \<Rightarrow> _" where
  "vote_fields a = (a_name a, a_proxy a, weight a)"

lemma vote_view_put_account:
  assumes "db_ok db" and "map_of (indices (accounts db)) k = Some a" and "vote_fields a' = vote_fields a"
  shows "vote_view (put_account k a' db) = vote_view db"
proof -
  have "map (\<lambda>r. (fst r, vote_fields (snd r))) (put_row k a' (indices (accounts db)))
      = map (\<lambda>r. (fst r, vote_fields (snd r))) (indices (accounts db))"
    by (rule map_put_row_same) (use assms in \<open>simp_all add: db_ok_def tables_ok_def wf_index_def\<close>)
  then show ?thesis by (simp add: vote_view_def vote_fields_def)
qed

lemma solvent_put_account:
  assumes "solvent db" and "account_solvent a"
  shows "solvent (put_account k a db)"
proof -
  have "\<forall>x \<in> snd ` set (put_row k a (indices (accounts db))). account_solvent x"
    using assms by (intro snd_put_row) (simp_all add: solvent_def)
  then show ?thesis using assms(1) by (simp add: solvent_def)
qed

lemma keeps_update_account:
  assumes upd: "update_account k m db = Inr db'"
    and m: "\<And>a a'. map_of (indices (accounts db)) k = Some a \<Longrightarrow> m a = Inr a' \<Longrightarrow> account_ok a \<Longrightarrow> account_solvent a \<Longrightarrow>
       account_ok a' \<and> account_solvent a' \<and> vote_fields a' = vote_fields a"
  shows "keeps db db'"
  unfolding keeps_def
proof
  assume s: "sound db"
  from upd obtain a a' where a: "map_of (indices (accounts db)) k = Some a" "m a = Inr a'"
    and db': "db' = put_account k a' db" by (auto simp: res_simps)
  note a' = m [OF a]
  have "account_ok a" "account_solvent a" using sound_account [OF s a(1)] by auto
  note a' = a' [OF this]
  have "keeps db db'"
    unfolding db'
  proof (rule keepsI)
    show "vote_view (put_account k a' db) = vote_view db"
      using s a(1) a' by (intro vote_view_put_account [where a = a]) (auto simp: sound_def)
    show "db_ok (put_account k a' db)" if "db_ok db" using that a(1) a' by (auto intro: db_ok_put_account)
    show "solvent (put_account k a' db)" using s a' by (auto simp: sound_def intro: solvent_put_account)
  qed
  with s show "sound db'" by (simp add: keeps_def)
qed

lemma keeps_dgp: "(dgp_ok (dgp db) \<Longrightarrow> dgp_ok p) \<Longrightarrow> keeps db (db\<lparr>dgp := p\<rparr>)"
  by (rule keepsI) (auto simp: vote_view_def sound_def solvent_def intro: db_ok_dgp dest: db_ok_dgp_ok)

lemma keeps_update_dgp:
  assumes "update_dgp m db = Inr db'" and "\<And>p. m (dgp db) = Inr p \<Longrightarrow> dgp_ok (dgp db) \<Longrightarrow> dgp_ok p"
  shows "keeps db db'"
  using assms by (auto simp: res_simps intro: keeps_dgp)

text \<open>Tables that nothing of this depends on.\<close>

definition sound_view :: "database \<Rightarrow> _" where
  "sound_view db = (ledger_view db, witnesses db, witness_votes db)"

lemma keeps_same:
  assumes "sound_view db' = sound_view db" and "tables_ok db \<Longrightarrow> tables_ok db'"
  shows "keeps db db'"
proof (rule keepsI)
  have lv: "ledger_view db' = ledger_view db" using assms(1) by (simp add: sound_view_def)
  show "vote_view db' = vote_view db" using assms(1) by (simp add: sound_view_def ledger_view_def vote_view_def)
  show "db_ok db'" if "db_ok db" using ledger_move_same [OF lv assms(2)] that by (simp add: ledger_move_def)
  show "solvent db'" if "sound db" using lv that by (simp add: sound_def solvent_def ledger_view_def)
qed

lemma conserves_same:
  assumes "sound_view db' = sound_view db" and "tables_ok db \<Longrightarrow> tables_ok db'"
  shows "conserves db db'"
  by (intro conservesI keeps_same ledger_move_same) (use assms in \<open>simp_all add: sound_view_def\<close>)

section \<open>Balances\<close>

lemmas account_frame = account_ok_def account_solvent_def vote_fields_def weight_def

lemma increase_balance_keeps:
  assumes F: "ext_ok F" and inc: "increase_balance F k amt db = Inr db'"
    and cover: "\<And>a. map_of (indices (accounts db)) k = Some a \<Longrightarrow> 0 \<le> amount (a_balance a) + amount amt"
  shows "keeps db db'"
proof -
  from inc obtain db1 where
    1: "update_account k (\<lambda>a. bindE (asset_add F (a_balance a) amt) (\<lambda>b. Inr (a\<lparr>a_balance := b\<rparr>))) db = Inr db1" and
    2: "update_dgp (\<lambda>p. bindE (asset_add F (dgp_circulating_capital p) amt) (\<lambda>c.
       Inr (p\<lparr>dgp_circulating_capital := c\<rparr>))) db1 = Inr db'"
    by (auto simp: increase_balance_def bindE_Inr_iff)
  have "keeps db db1"
    by (rule keeps_update_account [OF 1]) (use cover F in \<open>auto simp: account_frame res_simps fc_simps\<close>)
  moreover have "keeps db1 db'"
    by (rule keeps_update_dgp [OF 2]) (use F in \<open>auto simp: dgp_ok_def res_simps fc_simps\<close>)
  ultimately show ?thesis by (rule keeps_trans)
qed

lemma deposit_keeps:
  assumes "ext_ok F" and "increase_balance F k amt db = Inr db'" and "0 \<le> amount amt"
  shows "keeps db db'"
  unfolding keeps_def
proof
  assume s: "sound db"
  have "keeps db db'"
    by (rule increase_balance_keeps [OF assms(1,2)])
      (use sound_account [OF s] assms(3) in \<open>auto simp: account_solvent_def\<close>)
  with s show "sound db'" by (simp add: keeps_def)
qed

lemma decrease_balance_keeps:
  assumes "ext_ok F" and "decrease_balance F k amt db = Inr db'"
    and "map_of (indices (accounts db)) k = Some a" and "amount amt \<le> amount (a_balance a)"
  shows "keeps db db'"
proof -
  have "increase_balance F k (SCR (- amount amt)) db = Inr db'"
    using assms(2) decrease_balance_iff [OF assms(1) decrease_balance_symbol [OF assms(1,2)]] by simp
  then show ?thesis by (rule increase_balance_keeps [OF assms(1)]) (use assms(3,4) in simp)
qed

lemma burn_scr_keeps:
  assumes F: "ext_ok F" and "burn_scr F k amt db = Inr db'"
    and row: "map_of (indices (accounts db)) k = Some a" "amount amt \<le> amount (a_balance a)"
  shows "keeps db db'"
proof -
  from assms(2) obtain db1 where
    1: "update_account k (\<lambda>a.
       bindE (asset_add F (a_burned_scr a) amt) (\<lambda>x.
       bindE (asset_sub F (a_balance a) amt) (\<lambda>y.
       Inr (a\<lparr>a_burned_scr := x, a_balance := y\<rparr>)))) db = Inr db1" and
    2: "update_dgp (\<lambda>p.
       bindE (asset_add F (dgp_total_burned_scr p) amt) (\<lambda>x.
       bindE (asset_sub F (dgp_circulating_capital p) amt) (\<lambda>y.
       Inr (p\<lparr>dgp_total_burned_scr := x, dgp_circulating_capital := y\<rparr>)))) db1 = Inr db'"
    by (auto simp: burn_scr_def bindE_Inr_iff)
  have "keeps db db1"
    by (rule keeps_update_account [OF 1]) (use row F in \<open>auto simp: account_frame res_simps fc_simps\<close>)
  moreover have "keeps db1 db'"
    by (rule keeps_update_dgp [OF 2]) (use F in \<open>auto simp: dgp_ok_def res_simps fc_simps\<close>)
  ultimately show ?thesis by (rule keeps_trans)
qed

text \<open>The balance of an account, by its name.\<close>

definition balance_of :: "account_name \<Rightarrow> database \<Rightarrow> int" where
  "balance_of name db = (case get_account name db of Inl e \<Rightarrow> 0 | Inr k \<Rightarrow>
     (case map_of (indices (accounts db)) k of None \<Rightarrow> 0 | Some a \<Rightarrow> amount (a_balance a)))"

lemma balance_of_cong:
  assumes "accounts db' = accounts db"
  shows "balance_of n db' = balance_of n db" and "get_account n db' = get_account n db"
proof -
  show "get_account n db' = get_account n db" by (simp add: get_account_def assms)
  then show "balance_of n db' = balance_of n db" unfolding balance_of_def assms by simp
qed

lemma balance_of_row:
  "get_account n db = Inr k \<Longrightarrow> map_of (indices (accounts db)) k = Some a \<Longrightarrow> balance_of n db = amount (a_balance a)"
  by (simp add: balance_of_def)

lemma get_account_put_account:
  assumes "db_ok db" and "map_of (indices (accounts db)) k = Some a" and "a_name b = a_name a"
  shows "get_account n (put_account k b db) = get_account n db"
  using rewired_put_account [OF assms] by (simp add: rewired_def)

lemma balance_of_put_account:
  assumes ok: "db_ok db" and k: "get_account name db = Inr k" and a: "map_of (indices (accounts db)) k = Some a"
    and b: "a_name b = a_name a"
  shows "balance_of n (put_account k b db) = (if n = name then amount (a_balance b) else balance_of n db)"
proof -
  have name: "a_name a = name" using get_account_row [OF k ok] a by auto
  note g = get_account_put_account [OF ok a b]
  show ?thesis
  proof (cases "get_account n db")
    case (Inl x)
    then show ?thesis using k by (auto simp: balance_of_def g)
  next
    case (Inr k')
    from get_account_row [OF this ok] obtain a' where a': "map_of (indices (accounts db)) k' = Some a'" "a_name a' = n" by auto
    show ?thesis
    proof (cases "k' = k")
      case True
      then have "n = name" using a a' name by simp
      with k show ?thesis using balance_of_row [of n "put_account k b db" k b] by (simp add: g)
    next
      case False
      then have "n \<noteq> name" using Inr k by auto
      moreover have "balance_of n (put_account k b db) = amount (a_balance a')"
        by (rule balance_of_row [of n _ k']) (use Inr a' False in \<open>simp_all add: g\<close>)
      ultimately show ?thesis using balance_of_row [OF Inr a'(1)] by simp
    qed
  qed
qed

lemma increase_balance_effect:
  assumes F: "ext_ok F" and ok: "db_ok db" and k: "get_account name db = Inr k"
    and inc: "increase_balance F k amt db = Inr db'"
  shows "balance_of n db' = balance_of n db + (if n = name then amount amt else 0)"
    and "get_account n db' = get_account n db" and "db_ok db'"
proof -
  from inc F obtain a p where a: "map_of (indices (accounts db)) k = Some a"
    and db': "db' = (put_account k (a\<lparr>a_balance := SCR (amount (a_balance a) + amount amt)\<rparr>) db)\<lparr>dgp := p\<rparr>"
    by (auto simp: increase_balance_iff)
  let ?b = "a\<lparr>a_balance := SCR (amount (a_balance a) + amount amt)\<rparr>"
  have cut: "balance_of n (d\<lparr>dgp := p\<rparr>) = balance_of n d" "get_account n (d\<lparr>dgp := p\<rparr>) = get_account n d" for n d
    by (rule balance_of_cong; simp)+
  have "balance_of name db = amount (a_balance a)" using k a by (rule balance_of_row)
  then show "balance_of n db' = balance_of n db + (if n = name then amount amt else 0)"
    unfolding db' cut using balance_of_put_account [OF ok k a, of ?b n] by simp
  show "get_account n db' = get_account n db" unfolding db' cut by (rule get_account_put_account [OF ok a]) simp
  show "db_ok db'" using increase_balance_move [OF F inc] ok by (simp add: ledger_move_def)
qed

lemma decrease_balance_effect:
  assumes F: "ext_ok F" and ok: "db_ok db" and k: "get_account name db = Inr k"
    and dec: "decrease_balance F k amt db = Inr db'"
  shows "balance_of n db' = balance_of n db - (if n = name then amount amt else 0)"
    and "get_account n db' = get_account n db" and "db_ok db'"
proof -
  have "increase_balance F k (SCR (- amount amt)) db = Inr db'"
    using dec decrease_balance_iff [OF F decrease_balance_symbol [OF F dec]] by simp
  from increase_balance_effect [OF F ok k this]
  show "balance_of n db' = balance_of n db - (if n = name then amount amt else 0)"
    and "get_account n db' = get_account n db" and "db_ok db'" by simp_all
qed

text \<open>Updates of the other fields of an account.\<close>

lemma update_frame_keeps:
  assumes "update_account k m db = Inr db'"
    and "\<And>a a'. m a = Inr a' \<Longrightarrow> ledger_fields a' = ledger_fields a \<and> a_name a' = a_name a"
  shows "keeps db db'"
  by (rule keeps_update_account [OF assms(1)]) (drule assms(2), auto simp: account_frame ledger_fields_def)

lemma delegated_keeps:
  "increase_delegated_scorumpower F k amt db = Inr db' \<Longrightarrow> keeps db db'"
  "increase_received_scorumpower F k amt db = Inr db' \<Longrightarrow> keeps db db'"
  "decrease_received_scorumpower F k amt db = Inr db' \<Longrightarrow> keeps db db'"
  unfolding increase_delegated_scorumpower_def increase_received_scorumpower_def decrease_received_scorumpower_def
    bindE_Inr_iff
  by (auto elim!: update_frame_keeps simp: bindE_Inr_iff ledger_fields_def)

lemma account_flags_keep:
  "drop_challenged k db = Inr db' \<Longrightarrow> keeps db db'"
  "prove_authority k ro db = Inr db' \<Longrightarrow> keeps db db'"
  "increase_witnesses_voted_for k db = Inr db' \<Longrightarrow> keeps db db'"
  "decrease_witnesses_voted_for k db = Inr db' \<Longrightarrow> keeps db db'"
  "add_post k parent db = Inr db' \<Longrightarrow> keeps db db'"
  unfolding drop_challenged_def prove_authority_def increase_witnesses_voted_for_def decrease_witnesses_voted_for_def
    add_post_def Let_def bindE_Inr_iff
  by (auto elim!: update_frame_keeps simp: ledger_fields_def split: if_splits)

lemma authority_rows_keep:
  "create_authority_row v db = Inr db' \<Longrightarrow> keeps db db'"
  "create_owner_history_row h db = Inr db' \<Longrightarrow> keeps db db'"
  "update_authority i f db = Inr db' \<Longrightarrow> keeps db db'"
  unfolding create_authority_row_def create_owner_history_row_def update_authority_def
  by (auto intro!: keeps_same simp: bindE_Inr_iff sound_view_def ledger_view_def tables_ok_def split: prod.splits)

lemma update_owner_authority_keeps: "update_owner_authority k ow db = Inr db' \<Longrightarrow> keeps db db'"
  unfolding update_owner_authority_def Let_def bindE_Inr_iff
  by (auto intro: keeps_trans authority_rows_keep)

lemma update_acount_keeps:
  assumes "update_acount k i mk j ow ac po db = Inr db'"
  shows "keeps db db'"
proof -
  from assms obtain db1 m where 1: "update_account k m db = Inr db1"
    and m: "m = (\<lambda>acc.
       let acc = (if mk \<noteq> null_key then acc\<lparr>a_memo_key := mk\<rparr> else acc);
           acc = (if (ac \<noteq> None \<or> ow \<noteq> None) \<and> a_active_challenged acc
                  then acc\<lparr>a_active_challenged := False, a_last_active_proved := head_block_time db\<rparr> else acc);
           acc = acc\<lparr>a_last_account_update := head_block_time db\<rparr>;
           acc = (if length j > 0 then acc\<lparr>a_json_metadata := j\<rparr> else acc)
       in Inr acc)"
    and 2: "keeps db1 db'"
    unfolding update_acount_def Let_def bindE_Inr_iff
    by (auto intro: authority_rows_keep(3) split: if_splits)
  have "keeps db db1"
    by (rule update_frame_keeps [OF 1]) (auto simp: m Let_def ledger_fields_def split: if_splits)
  then show ?thesis using 2 by (rule keeps_trans)
qed

section \<open>Steps that move votes\<close>

text \<open>
  A \<open>calm\<close> step touches nothing the solvency depends on: it may change how votes are counted,
  drop votes, and update witnesses.
\<close>

definition purse_view :: "database \<Rightarrow> _" where
  "purse_view db = (map (\<lambda>r. (fst r, a_balance (snd r), a_scorumpower (snd r))) (indices (accounts db)),
     escrows db, contracts db, pending_bets db, matched_bets db, fst ` set (indices (witnesses db)))"

definition calm :: "database \<Rightarrow> database \<Rightarrow> bool" where
  "calm db db' \<longleftrightarrow> (wf_index (accounts db) \<longrightarrow> wf_index (accounts db') \<and> purse_view db' = purse_view db \<and>
     snd ` set (indices (witness_votes db')) \<subseteq> snd ` set (indices (witness_votes db)))"

lemma calm_refl [intro]: "calm db db"
  by (simp add: calm_def)

lemma calm_trans:
  assumes "calm db db1" and "calm db1 db2"
  shows "calm db db2"
  unfolding calm_def
proof
  assume "wf_index (accounts db)"
  with assms(1) have 1: "wf_index (accounts db1)" "purse_view db1 = purse_view db"
    "snd ` set (indices (witness_votes db1)) \<subseteq> snd ` set (indices (witness_votes db))" by (simp_all add: calm_def)
  with assms(2) have 2: "wf_index (accounts db2)" "purse_view db2 = purse_view db1"
    "snd ` set (indices (witness_votes db2)) \<subseteq> snd ` set (indices (witness_votes db1))" by (simp_all add: calm_def)
  from 2(3) 1(3) have "snd ` set (indices (witness_votes db2)) \<subseteq> snd ` set (indices (witness_votes db))"
    by (rule subset_trans)
  with 1 2 show "wf_index (accounts db2) \<and> purse_view db2 = purse_view db \<and>
     snd ` set (indices (witness_votes db2)) \<subseteq> snd ` set (indices (witness_votes db))" by simp
qed

lemma calm_foldE:
  assumes "foldE f xs db = Inr db'" and "\<And>x db db'. x \<in> set xs \<Longrightarrow> f x db = Inr db' \<Longrightarrow> calm db db'"
  shows "calm db db'"
  by (rule foldE_inv [OF assms(1), of "calm db", OF calm_refl]) (rule calm_trans, assumption, rule assms(2))

lemma calm_solvent:
  assumes "calm db db'" and "wf_index (accounts db)" and "solvent db"
  shows "solvent db'"
proof -
  have "map (\<lambda>r. (fst r, a_balance (snd r), a_scorumpower (snd r))) (indices (accounts db'))
      = map (\<lambda>r. (fst r, a_balance (snd r), a_scorumpower (snd r))) (indices (accounts db))"
    and rest: "escrows db' = escrows db" "contracts db' = contracts db" "pending_bets db' = pending_bets db"
      "matched_bets db' = matched_bets db"
    using assms(1,2) by (simp_all add: calm_def purse_view_def)
  from arg_cong [OF this(1), of "\<lambda>xs. \<forall>(i, b, s) \<in> set xs. 0 \<le> amount b \<and> 0 \<le> amount s"]
  have "(\<forall>a \<in> snd ` set (indices (accounts db')). account_solvent a)
      = (\<forall>a \<in> snd ` set (indices (accounts db)). account_solvent a)"
    by (simp add: account_solvent_def)
  with assms(3) rest show ?thesis by (simp add: solvent_def)
qed

lemma calm_vote_refs:
  assumes "calm db db'" and "wf_index (accounts db)" and "vote_refs db"
  shows "vote_refs db'"
proof -
  have "fst ` set (indices (witnesses db')) = fst ` set (indices (witnesses db))"
    and "snd ` set (indices (witness_votes db')) \<subseteq> snd ` set (indices (witness_votes db))"
    using assms(1,2) by (simp_all add: calm_def purse_view_def)
  with assms(3) show ?thesis unfolding vote_refs_def by (metis (no_types, lifting) subsetD)
qed

lemma update_account_view:
  assumes "update_account k m db = Inr db'" and "wf_index (accounts db)"
    and "\<And>a a'. m a = Inr a' \<Longrightarrow> g a' = g a"
  shows "wf_index (accounts db') \<and> map (\<lambda>r. (fst r, g (snd r))) (indices (accounts db'))
      = map (\<lambda>r. (fst r, g (snd r))) (indices (accounts db)) \<and> db' = db\<lparr>accounts := accounts db'\<rparr>"
proof -
  from assms(1) obtain ix where ix: "ix_modify account_clash k m (accounts db) = Inr ix"
    and db': "db' = db\<lparr>accounts := ix\<rparr>" by (auto simp: update_account_def bindE_Inr_iff)
  from ix obtain a a' where "map_of (indices (accounts db)) k = Some a" "m a = Inr a'"
    and rows: "indices ix = put_row k a' (indices (accounts db))" by (auto simp: ix_modify_eq_Inr)
  with assms(2,3) have "map (\<lambda>r. (fst r, g (snd r))) (indices ix) = map (\<lambda>r. (fst r, g (snd r))) (indices (accounts db))"
    unfolding rows by (intro map_put_row_same) (auto simp: wf_index_def)
  with wf_index_modify [OF assms(2) ix] show ?thesis by (simp add: db')
qed

lemma calm_update_account:
  assumes "update_account k m db = Inr db'"
    and "\<And>a a'. m a = Inr a' \<Longrightarrow> a_balance a' = a_balance a \<and> a_scorumpower a' = a_scorumpower a"
  shows "calm db db'"
  unfolding calm_def
proof
  assume "wf_index (accounts db)"
  from update_account_view [OF assms(1) this, of "\<lambda>a. (a_balance a, a_scorumpower a)"] assms(2)
  obtain "wf_index (accounts db')" "purse_view db' = purse_view db" "witness_votes db' = witness_votes db"
    unfolding purse_view_def by (metis (no_types, lifting) database.select_convs database.surjective database.update_convs(1))
  then show "wf_index (accounts db') \<and> purse_view db' = purse_view db \<and>
     snd ` set (indices (witness_votes db')) \<subseteq> snd ` set (indices (witness_votes db))" by simp
qed

lemma calm_update_witness_row:
  assumes "update_witness_row k m db = Inr db'"
  shows "calm db db'"
proof -
  from assms obtain w w' where "map_of (indices (witnesses db)) k = Some w"
    and "db' = db\<lparr>witnesses := (witnesses db)\<lparr>indices := put_row k w' (indices (witnesses db))\<rparr>\<rparr>"
    by (auto simp: res_simps)
  then show ?thesis by (auto simp: calm_def purse_view_def dest: map_of_in_keys)
qed

lemma calm_adjust_witness_votes: "adjust_witness_votes F k d db = Inr db' \<Longrightarrow> calm db db'"
  unfolding adjust_witness_votes_def adjust_witness_vote_def
  by (erule calm_foldE) (rule calm_update_witness_row)

lemma calm_add_proxied:
  "update_account p (add_proxied F i d) db = Inr db' \<Longrightarrow> calm db db'"
  by (erule calm_update_account) (auto simp: add_proxied_def bindE_Inr_iff)

lemma add_proxied_list_fields:
  assumes "foldE (\<lambda>i. add_proxied F (g i) (delta i)) is a = Inr a'"
  shows "\<exists>votes. a' = a\<lparr>a_proxied_vsf_votes := votes\<rparr>"
  by (rule foldE_inv [OF assms, of "\<lambda>x. \<exists>votes. x = a\<lparr>a_proxied_vsf_votes := votes\<rparr>"])
    (auto simp: add_proxied_def bindE_Inr_iff intro: exI [of _ "a_proxied_vsf_votes a"])

lemma calm_adjust_proxied:
  "adjust_proxied_witness_votes F k d depth db = Inr db' \<Longrightarrow> calm db db'"
proof (induction F k d depth db rule: adjust_proxied_witness_votes.induct)
  case (1 F k d depth db)
  from "1.prems" show ?case
    by (subst (asm) adjust_proxied_witness_votes.simps)
      (auto simp: bindE_Inr_iff split: if_splits intro: calm_adjust_witness_votes calm_trans [OF calm_add_proxied "1.IH"])
qed

lemma calm_adjust_all:
  "adjust_proxied_witness_votes_all F k d depth db = Inr db' \<Longrightarrow> calm db db'"
proof (induction F k d depth db rule: adjust_proxied_witness_votes_all.induct)
  case (1 F k d depth db)
  have upd: "calm db db1" if "update_account p (\<lambda>a. foldE (\<lambda>i. add_proxied F (i + depth) (d ! i)) js a) db = Inr db1" for p js db1
    by (rule calm_update_account [OF that]) (auto dest!: add_proxied_list_fields)
  from "1.prems" show ?case
    by (subst (asm) adjust_proxied_witness_votes_all.simps)
      (auto simp: bindE_Inr_iff split: if_splits intro: calm_adjust_witness_votes calm_trans [OF upd "1.IH"])
qed

lemma calm_clear_witness_votes:
  assumes "clear_witness_votes k db = Inr db'"
  shows "calm db db'"
proof -
  from assms obtain ix where ix: "foldE ix_remove (ix_ids_by (\<lambda>v. wv_account v = k) (witness_votes db)) (witness_votes db) = Inr ix"
    and upd: "update_account k (\<lambda>a. Inr (a\<lparr>a_witnesses_voted_for := 0\<rparr>)) (db\<lparr>witness_votes := ix\<rparr>) = Inr db'"
    by (auto simp: clear_witness_votes_def bindE_Inr_iff)
  have "set (indices ix) \<subseteq> set (indices (witness_votes db))"
    by (rule foldE_inv [OF ix]) (auto simp: ix_remove_eq_Inr drop_row_def)
  then have "calm db (db\<lparr>witness_votes := ix\<rparr>)" by (auto simp: calm_def purse_view_def)
  moreover have "calm (db\<lparr>witness_votes := ix\<rparr>) db'" by (rule calm_update_account [OF upd]) auto
  ultimately show ?thesis by (rule calm_trans)
qed

lemma calm_update_voting_proxy:
  assumes "update_voting_proxy F k proxy db = Inr db'"
  shows "calm db db'"
proof -
  have set_proxy: "calm d d'" if "update_account k (\<lambda>a. Inr (a\<lparr>a_proxy := n\<rparr>)) d = Inr d'" for n d d'
    by (rule calm_update_account [OF that]) auto
  from assms obtain delta db1 where 1: "adjust_proxied_witness_votes_all F k delta 0 db = Inr db1"
    and rest: "(case proxy of
        Some (pid, pobj) \<Rightarrow>
          bindE (proxy_walk (remdups [k, pid]) (a_proxy pobj) db1) (\<lambda>_.
          bindE (clear_witness_votes k db1) (\<lambda>db.
          bindE (update_account k (\<lambda>a. Inr (a\<lparr>a_proxy := a_name pobj\<rparr>)) db) (\<lambda>db.
          bindE (negate_all F delta) (\<lambda>delta.
          adjust_proxied_witness_votes_all F k delta 0 db))))
      | None \<Rightarrow>
          update_account k (\<lambda>a. Inr (a\<lparr>a_proxy := SCORUM_PROXY_TO_SELF_ACCOUNT\<rparr>)) db1) = Inr db'"
    unfolding update_voting_proxy_def bindE_Inr_iff by blast
  have "calm db1 db'"
  proof (cases proxy)
    case None
    with rest show ?thesis by (auto intro: set_proxy)
  next
    case (Some p)
    then obtain pid pobj where p: "proxy = Some (pid, pobj)" by (cases p) auto
    from rest obtain db2 db3 delta' where "clear_witness_votes k db1 = Inr db2"
      "update_account k (\<lambda>a. Inr (a\<lparr>a_proxy := a_name pobj\<rparr>)) db2 = Inr db3"
      "adjust_proxied_witness_votes_all F k delta' 0 db3 = Inr db'"
      by (auto simp: p bindE_Inr_iff)
    then show ?thesis
      using calm_clear_witness_votes set_proxy calm_adjust_all calm_trans by metis
  qed
  with calm_adjust_all [OF 1] show ?thesis by (rule calm_trans)
qed

lemma proxy_view_update_account:
  assumes "update_account k m db = Inr db'" and "wf_index (accounts db)"
    and "\<And>a a'. m a = Inr a' \<Longrightarrow> a_name a' = a_name a \<and> a_proxy a' = a_proxy a"
  shows "wf_index (accounts db') \<and> proxy_view db' = proxy_view db"
  using update_account_view [OF assms(1,2), of "\<lambda>a. (a_name a, a_proxy a)"] assms(3)
  by (auto simp: proxy_view_def)

lemma adjust_proxied_proxy_view:
  "adjust_proxied_witness_votes F k d depth db = Inr db' \<Longrightarrow> wf_index (accounts db) \<Longrightarrow> proxy_view db' = proxy_view db"
proof (induction F k d depth db rule: adjust_proxied_witness_votes.induct)
  case (1 F k d depth db)
  obtain acc where acc: "account_at k db = Inr acc"
    and body: "(if a_proxy acc \<noteq> SCORUM_PROXY_TO_SELF_ACCOUNT then
       if depth \<ge> SCORUM_MAX_PROXY_RECURSION_DEPTH then Inr db
       else
         bindE (get_account (a_proxy acc) db) (\<lambda>p.
         bindE (update_account p (add_proxied F depth d) db) (\<lambda>db'.
         adjust_proxied_witness_votes F p d (depth + 1) db'))
     else adjust_witness_votes F k d db) = Inr db'"
    using "1.prems"(1) unfolding adjust_proxied_witness_votes.simps [of F k] bindE_Inr_iff by blast
  show ?case
  proof (cases "a_proxy acc \<noteq> SCORUM_PROXY_TO_SELF_ACCOUNT \<and> \<not> SCORUM_MAX_PROXY_RECURSION_DEPTH \<le> depth")
    case True
    with body obtain p db1 where p: "get_account (a_proxy acc) db = Inr p"
      and 1: "update_account p (add_proxied F depth d) db = Inr db1"
      and 2: "adjust_proxied_witness_votes F p d (depth + 1) db1 = Inr db'" by (auto simp: bindE_Inr_iff)
    have "wf_index (accounts db1) \<and> proxy_view db1 = proxy_view db"
      by (rule proxy_view_update_account [OF 1 "1.prems"(2)]) (auto simp: add_proxied_def bindE_Inr_iff)
    with "1.IH" [of acc, OF _ _ 2] True show ?thesis by simp
  next
    case False
    with body have "\<exists>ix. db' = db\<lparr>witnesses := ix\<rparr>"
      by (auto split: if_splits dest: adjust_witness_votes_frame intro: exI [of _ "witnesses db"])
    then show ?thesis by (auto simp: proxy_view_def)
  qed
qed

lemma increase_scorumpower_keeps:
  assumes F: "ext_ok F" and inc: "increase_scorumpower F k amt db = Inr db'"
    and cover: "\<And>a. map_of (indices (accounts db)) k = Some a \<Longrightarrow> 0 \<le> amount (a_scorumpower a) + amount amt"
  shows "keeps db db'"
  unfolding keeps_def
proof
  assume s: "sound db"
  then have wf: "wf_index (accounts db)" by (simp add: sound_def db_ok_def tables_ok_def)
  from inc obtain db1 p where
    1: "update_account k (\<lambda>a. bindE (asset_add F (a_scorumpower a) amt) (\<lambda>b. Inr (a\<lparr>a_scorumpower := b\<rparr>))) db = Inr db1" and
    2: "adjust_proxied_witness_votes F k (amount amt) 0 (db1\<lparr>dgp := p\<rparr>) = Inr db'"
    by (auto simp: increase_scorumpower_def bindE_Inr_iff update_dgp_def)
  from 1 obtain a where a: "map_of (indices (accounts db)) k = Some a"
    and db1: "db1 = put_account k (a\<lparr>a_scorumpower := (a_scorumpower a)\<lparr>amount := amount (a_scorumpower a) + amount amt\<rparr>\<rparr>) db"
    using F by (auto simp: res_simps fc_simps)
  have v1: "wf_index (accounts db1) \<and> proxy_view db1 = proxy_view db"
    by (rule proxy_view_update_account [OF 1 wf]) (auto simp: bindE_Inr_iff)
  then have wf1: "wf_index (accounts (db1\<lparr>dgp := p\<rparr>))" by simp
  have "proxy_view db' = proxy_view (db1\<lparr>dgp := p\<rparr>)" by (rule adjust_proxied_proxy_view [OF 2 wf1])
  then have "proxy_view db' = proxy_view db" using v1 by (simp add: proxy_view_def)
  then have settle: "proxies_settle db'" using s proxies_settle_cong by (auto simp: sound_def)
  have "solvent db1"
    unfolding db1 using s cover [OF a] sound_account [OF s a]
    by (intro solvent_put_account) (simp_all add: sound_def account_solvent_def)
  then have "solvent (db1\<lparr>dgp := p\<rparr>)" "vote_refs (db1\<lparr>dgp := p\<rparr>)"
    using s by (simp_all add: solvent_def sound_def vote_refs_def db1)
  then have "solvent db'" "vote_refs db'"
    using calm_solvent [OF calm_adjust_proxied [OF 2] wf1] calm_vote_refs [OF calm_adjust_proxied [OF 2] wf1] by auto
  moreover have "db_ok db'" using increase_scorumpower_move [OF F inc] s by (simp add: ledger_move_def sound_def)
  moreover have "votes_exact db'" using votes_exact_increase_scorumpower [OF F _ _ inc] s by (simp add: sound_def)
  ultimately show "sound db'" using settle by (simp add: sound_def)
qed

lemma create_scorumpower_keeps:
  assumes "ext_ok F" and "create_scorumpower F k scorum db = Inr db'" and "0 \<le> amount scorum"
  shows "keeps db db'"
  unfolding keeps_def
proof
  assume s: "sound db"
  have "increase_scorumpower F k (SP (amount scorum)) db = Inr db'" using assms(2) by (simp add: create_scorumpower_def)
  then have "keeps db db'"
    by (rule increase_scorumpower_keeps [OF assms(1)])
      (use sound_account [OF s] assms(3) in \<open>auto simp: account_solvent_def\<close>)
  with s show "sound db'" by (simp add: keeps_def)
qed

lemma update_voting_proxy_keeps:
  assumes F: "ext_ok F" and upd: "update_voting_proxy F k proxy db = Inr db'"
    and row: "map_of (indices (accounts db)) k = Some a"
    and changes: "proxy = None \<Longrightarrow> a_proxy a \<noteq> SCORUM_PROXY_TO_SELF_ACCOUNT"
    and proxy: "\<And>pid pobj. proxy = Some (pid, pobj) \<Longrightarrow>
      account_at pid db = Inr pobj \<and> get_account (a_name pobj) db = Inr pid \<and> pid \<noteq> k \<and>
      a_name pobj \<noteq> SCORUM_PROXY_TO_SELF_ACCOUNT"
  shows "keeps db db'" and "sound db \<Longrightarrow> ledger_move 0 db db'"
proof -
  have move: "vote_move 0 db db'" if s: "sound db"
  proof -
    have ok: "db_ok db" "proxies_settle db" using s by (simp_all add: sound_def)
    from ok(2) row obtain n where n: "proxy_rank db k n" by (auto simp: proxies_settle_keys account_at_iff)
    show ?thesis by (rule update_voting_proxy_move [OF F ok(1) n upd]) (use proxy in blast)
  qed
  show "ledger_move 0 db db'" if "sound db" using move [OF that] by (rule vote_move_ledger)
  show "keeps db db'"
    unfolding keeps_def
  proof
    assume s: "sound db"
    then have ok: "db_ok db" "proxies_settle db" "votes_exact db" "wf_index (accounts db)"
      by (simp_all add: sound_def db_ok_def tables_ok_def)
    from ok(2) row obtain n where n: "proxy_rank db k n" by (auto simp: proxies_settle_keys account_at_iff)
    have "votes_exact db'"
      by (rule votes_exact_update_voting_proxy [OF F ok(1) n ok(3) upd row changes]) (use proxy in blast)+
    moreover have "proxies_settle db'"
      by (rule update_voting_proxy_settles [OF F ok(1,2) upd]) (use proxy in blast)
    moreover have "solvent db'" "vote_refs db'"
      using calm_solvent [OF calm_update_voting_proxy [OF upd] ok(4)]
        calm_vote_refs [OF calm_update_voting_proxy [OF upd] ok(4)] s by (auto simp: sound_def)
    moreover have "db_ok db'" using move [OF s] ok(1) by (simp add: vote_move_def)
    ultimately show "sound db'" by (simp add: sound_def)
  qed
qed

section \<open>New accounts\<close>

lemma put_row_fresh:
  assumes "wf_index ix"
  shows "put_row (next_id ix) v (indices ix) = indices ix @ [(next_id ix, v)]"
proof -
  have "put_row k v rs = rs @ [(k, v)]" if "fst ` set rs \<subseteq> {..<k}" for k and rs :: "'a rows"
    using that by (induction rs) auto
  then show ?thesis using assms by (simp add: wf_index_def)
qed

lemma find_append_Some: "List.find P xs = Some y \<Longrightarrow> List.find P (xs @ ys) = Some y"
  by (induction xs) (auto split: if_splits)

lemma proxies_settle_fresh:
  assumes "proxies_settle db" and "wf_index (accounts db)" and "a_proxy v = SCORUM_PROXY_TO_SELF_ACCOUNT"
    and rows: "indices (accounts db') = indices (accounts db) @ [(next_id (accounts db), v)]"
  shows "proxies_settle db'"
proof -
  have new: "proxy_rank db' (next_id (accounts db)) 0"
    using assms(2,3) wf_index_None [OF assms(2) order_refl]
    by (intro proxy_rank.self [where a = v]) (simp_all add: account_at_iff rows map_add_def)
  have old: "proxy_rank db k n \<Longrightarrow> proxy_rank db' k n" for k n
  proof (induction rule: proxy_rank.induct)
    case (self k a)
    then show ?case
      by (intro proxy_rank.self [where a = a]) (auto simp: account_at_iff rows map_add_def split: option.splits)
  next
    case (step k a p n)
    have row: "account_at k db' = Inr a"
      using step.hyps(1) wf_index_None [OF assms(2), of k]
      by (auto simp: account_at_iff rows map_add_def split: option.splits)
    have "get_account (a_proxy a) db' = Inr p"
      using step.hyps(3) by (auto simp: get_account_def res_simps ix_find_by_def rows dest: find_append_Some)
    then show ?case using row step by (intro proxy_rank.step [where a = a and p = p])
  qed
  show ?thesis unfolding proxies_settle_def rows
  proof
    fix k assume "k \<in> fst ` set (indices (accounts db) @ [(next_id (accounts db), v)])"
    then consider "k = next_id (accounts db)" | "k \<in> fst ` set (indices (accounts db))" by auto
    then show "\<exists>n. proxy_rank db' k n" by cases (use new old assms(1) proxies_settle_def in blast)+
  qed
qed

lemma create_account_row_keeps:
  assumes "create_account_row m db = Inr (k, db')"
    and "ledger_fields (m new_account_object) = ledger_fields new_account_object"
  shows "keeps db db'"
  unfolding keeps_def
proof
  let ?v = "m new_account_object"
  assume s: "sound db"
  then have wf: "wf_index (accounts db)" by (simp add: sound_def db_ok_def tables_ok_def)
  from assms(1) obtain ix where "ix_emplace account_clash (\<lambda>_. Inr ?v) (accounts db) = Inr (k, ix)"
    and db': "db' = db\<lparr>accounts := ix\<rparr>" by (auto simp: create_account_row_def bindE_Inr_iff)
  then have rows: "indices (accounts db') = indices (accounts db) @ [(next_id (accounts db), ?v)]"
    using put_row_fresh [OF wf, of ?v] by (auto simp: ix_emplace_eq_Inr)
  have v: "a_proxy ?v = SCORUM_PROXY_TO_SELF_ACCOUNT" "weight ?v = 0" "account_solvent ?v"
    using assms(2) by (simp_all add: ledger_fields_def new_account_object_def SCORUM_PROXY_TO_SELF_ACCOUNT_def
        weight_def account_solvent_def sum_list_replicate)
  have map_of: "map_of (indices (accounts db')) x = (if x = next_id (accounts db) then Some ?v else map_of (indices (accounts db)) x)" for x
    using wf_index_None [OF wf order_refl] by (auto simp: rows map_add_def split: option.splits)
  have wt: "weight_of db' = weight_of db"
    using wf_index_None [OF wf order_refl] v(2) by (auto simp: weight_of_def map_of fun_eq_iff)
  have "tally db' w = tally db w" for w unfolding tally_def wt by (simp add: db')
  moreover have "direct_voters db'"
    using s v(1) unfolding sound_def votes_exact_def direct_voters_def map_of by (simp add: db')
  ultimately have "votes_exact db'" using s unfolding votes_exact_def sound_def by (simp add: db')
  moreover have "db_ok db'" using create_account_row_move [OF assms] s by (simp add: ledger_move_def sound_def)
  moreover have "vote_refs db'" using s by (simp add: vote_refs_def sound_def db')
  moreover have "proxies_settle db'" using s by (intro proxies_settle_fresh [OF _ wf v(1) rows]) (simp add: sound_def)
  moreover have "solvent db'" using s v(3) by (simp add: solvent_def sound_def db') (use rows in \<open>auto simp: db'\<close>)
  ultimately show "sound db'" by (simp add: sound_def)
qed

lemma create_account_keeps:
  assumes "create_account n c mk j ow ac po db = Inr (k, db')"
  shows "keeps db db'"
proof -
  from assms obtain db1 where db1: "create_account_row (\<lambda>acc. acc\<lparr>a_name := n, a_recovery_account := c,
        a_memo_key := mk, a_created := head_block_time db, a_json_metadata := j\<rparr>) db = Inr (k, db1)"
    and rest: "keeps db1 db'"
    by (auto simp: create_account_def bindE_Inr_iff intro: authority_rows_keep(1) split: if_splits)
  have "keeps db db1" by (rule create_account_row_keeps [OF db1]) (simp add: ledger_fields_def)
  then show ?thesis using rest by (rule keeps_trans)
qed

lemma create_account_with_fee_keeps:
  assumes F: "ext_ok F" and "create_account_with_fee F n c mk j ow ac po fee db = Inr (k, db')"
    and "get_account c db = Inr ck" and row: "map_of (indices (accounts db)) ck = Some a" "amount fee \<le> amount (a_balance a)"
  shows "keeps db db'"
proof -
  from assms(2) obtain db1 db2 where
    1: "(if amount fee > 0 then bindE (get_account c db) (\<lambda>c. decrease_balance F c fee db) else Inr db) = Inr db1" and
    2: "create_account n c mk j ow ac po db1 = Inr (k, db2)" and
    3: "(if amount fee > 0 then create_scorumpower F k fee db2 else Inr db2) = Inr db'"
    by (auto simp: create_account_with_fee_def bindE_Inr_iff fc_assert_Inr_iff)
  have "keeps db db1"
    using 1 assms(3) decrease_balance_keeps [OF F _ row] by (auto split: if_splits)
  moreover have "keeps db2 db'" using 3 create_scorumpower_keeps [OF F] by (auto split: if_splits)
  ultimately show ?thesis using create_account_keeps [OF 2] keeps_trans by blast
qed

lemma create_delegation_row_keeps: "create_delegation_row v db = Inr db' \<Longrightarrow> keeps db db'"
  by (rule keeps_same)
    (auto simp: create_delegation_row_def bindE_Inr_iff sound_view_def ledger_view_def tables_ok_def intro: wf_index_emplace)

lemma create_account_with_delegation_keeps:
  assumes F: "ext_ok F" and "create_account_with_delegation F n c mk j ow ac po fee del db = Inr (k, db')"
    and "get_account c db = Inr ck" and row: "map_of (indices (accounts db)) ck = Some a" "amount fee \<le> amount (a_balance a)"
  shows "keeps db db'"
proof -
  from assms(2,3) obtain db1 db2 db3 db4 db5 where
    1: "update_account ck (\<lambda>c. bindE (asset_add F (a_delegated_scorumpower c) del) (\<lambda>x.
          Inr (c\<lparr>a_delegated_scorumpower := x\<rparr>))) db = Inr db1" and
    2: "decrease_balance F ck fee db1 = Inr db2" and
    3: "create_account n c mk j ow ac po db2 = Inr (k, db3)" and
    4: "update_account k (\<lambda>acc. Inr (acc\<lparr>a_received_scorumpower := del\<rparr>)) db3 = Inr db4" and
    5: "(if amount del > 0 then create_delegation_row \<lparr>d_delegator = c, d_delegatee = n, d_scorumpower = del,
           d_min_delegation_time = time_add F (head_block_time db4) SCORUM_CREATE_ACCOUNT_DELEGATION_TIME\<rparr> db4
         else Inr db4) = Inr db5" and
    6: "(if amount fee > 0 then create_scorumpower F k fee db5 else Inr db5) = Inr db'"
    by (auto simp: create_account_with_delegation_def bindE_Inr_iff fc_assert_Inr_iff)
  from 1 row obtain x where "db1 = put_account ck (a\<lparr>a_delegated_scorumpower := x\<rparr>) db"
    by (auto simp: update_account_iff bindE_Inr_iff)
  then have row1: "map_of (indices (accounts db1)) ck = Some (a\<lparr>a_delegated_scorumpower := x\<rparr>)" by simp
  have k1: "keeps db db1" by (rule update_frame_keeps [OF 1]) (auto simp: bindE_Inr_iff ledger_fields_def)
  have k2: "keeps db1 db2" by (rule decrease_balance_keeps [OF F 2 row1]) (use row(2) in simp)
  have k4: "keeps db3 db4" by (rule update_frame_keeps [OF 4]) (auto simp: ledger_fields_def)
  have k5: "keeps db4 db5" using 5 create_delegation_row_keeps by (auto split: if_splits)
  have k6: "keeps db5 db'" using 6 create_scorumpower_keeps [OF F] by (auto split: if_splits)
  show ?thesis
    using k1 k2 create_account_keeps [OF 3] k4 k5 k6 by (intro keeps_trans [of db db1 db'] keeps_trans [of db1 db2 db']
        keeps_trans [of db2 db3 db'] keeps_trans [of db3 db4 db'] keeps_trans [of db4 db5 db'])
qed

section \<open>Custody\<close>

text \<open>
  A table whose objects hold balances: the ledger counts \<open>hold v\<close> for an object \<open>v\<close>. Replacing
  the table by another moves exactly the difference of what the two hold, and keeps the
  database sound when the new objects are well formed and not in debt.
\<close>

locale custody =
  fixes tbl :: "database \<Rightarrow> 'v base_index"
    and set_tbl :: "'v base_index \<Rightarrow> database \<Rightarrow> database"
    and hold :: "'v \<Rightarrow> int"
    and row_ok :: "'v \<Rightarrow> bool"
    and row_solvent :: "'v \<Rightarrow> bool"
  assumes tbl_ok: "db_ok db \<Longrightarrow> wf_index (tbl db) \<and> (\<forall>v \<in> snd ` set (indices (tbl db)). row_ok v)"
    and tbl_solvent: "solvent db \<Longrightarrow> \<forall>v \<in> snd ` set (indices (tbl db)). row_solvent v"
    and replace_move: "wf_index ix \<Longrightarrow> (\<forall>v \<in> snd ` set (indices ix). row_ok v) \<Longrightarrow>
      ledger_move (row_sum hold (indices ix) - row_sum hold (indices (tbl db))) db (set_tbl ix db)"
    and replace_keeps: "wf_index ix \<Longrightarrow> (\<forall>v \<in> snd ` set (indices ix). row_ok v) \<Longrightarrow>
      (\<forall>v \<in> snd ` set (indices ix). row_solvent v) \<Longrightarrow> keeps db (set_tbl ix db)"
begin

lemma emplace_step:
  assumes "ix_emplace clash (\<lambda>_. Inr v) (tbl db) = Inr (k, ix)" and "row_ok v"
  shows "ledger_move (hold v) db (set_tbl ix db)" and "row_solvent v \<Longrightarrow> keeps db (set_tbl ix db)"
proof -
  have rows: "indices ix = put_row k v (indices (tbl db))" "row_sum hold (indices ix) = row_sum hold (indices (tbl db)) + hold v"
    using row_sum_emplace [OF assms(1), of hold] by auto
  have ok: "wf_index ix \<and> (\<forall>v \<in> snd ` set (indices ix). row_ok v)" if "db_ok db"
  proof
    show "wf_index ix" using tbl_ok [OF that] wf_index_emplace [OF _ assms(1)] by blast
    show "\<forall>v \<in> snd ` set (indices ix). row_ok v" unfolding rows(1) by (intro snd_put_row conjunct2 [OF tbl_ok [OF that]] assms(2))
  qed
  show "ledger_move (hold v) db (set_tbl ix db)"
    using replace_move [of ix db] ok rows(2) by (auto simp: ledger_move_def)
  show "keeps db (set_tbl ix db)" if v: "row_solvent v"
    unfolding keeps_def
  proof
    assume s: "sound db"
    then have "\<forall>v \<in> snd ` set (indices ix). row_solvent v"
      unfolding rows(1) by (intro snd_put_row tbl_solvent v) (simp add: sound_def)
    with replace_keeps [of ix db] ok s show "sound (set_tbl ix db)" by (auto simp: keeps_def sound_def)
  qed
qed

lemma put_step:
  assumes "map_of (indices (tbl db)) k = Some v" and "row_ok v'"
  shows "ledger_move (hold v' - hold v) db (set_tbl ((tbl db)\<lparr>indices := put_row k v' (indices (tbl db))\<rparr>) db)"
    and "row_solvent v' \<Longrightarrow> keeps db (set_tbl ((tbl db)\<lparr>indices := put_row k v' (indices (tbl db))\<rparr>) db)"
proof -
  let ?ix = "(tbl db)\<lparr>indices := put_row k v' (indices (tbl db))\<rparr>"
  have ok: "wf_index ?ix \<and> (\<forall>v \<in> snd ` set (indices ?ix). row_ok v)" if "db_ok db"
  proof
    have "k \<in> fst ` set (indices (tbl db))" using assms(1) by (rule map_of_in_keys)
    then show "wf_index ?ix" using tbl_ok [OF that] by (auto simp: wf_index_def)
    have "\<forall>v \<in> snd ` set (put_row k v' (indices (tbl db))). row_ok v"
      by (intro snd_put_row conjunct2 [OF tbl_ok [OF that]] assms(2))
    then show "\<forall>v \<in> snd ` set (indices ?ix). row_ok v" by simp
  qed
  have "row_sum hold (indices ?ix) - row_sum hold (indices (tbl db)) = hold v' - hold v" if "db_ok db"
    using tbl_ok [OF that] assms(1) by (simp add: row_sum_put_old wf_index_def)
  then show "ledger_move (hold v' - hold v) db (set_tbl ?ix db)"
    using replace_move [of ?ix db] ok by (auto simp: ledger_move_def)
  show "keeps db (set_tbl ?ix db)" if v: "row_solvent v'"
    unfolding keeps_def
  proof
    assume s: "sound db"
    have "\<forall>v \<in> snd ` set (put_row k v' (indices (tbl db))). row_solvent v"
      by (intro snd_put_row tbl_solvent v) (use s in \<open>simp add: sound_def\<close>)
    with replace_keeps [of ?ix db] ok s show "sound (set_tbl ?ix db)" by (auto simp: keeps_def sound_def)
  qed
qed

lemma modify_step:
  assumes "ix_modify clash k m (tbl db) = Inr ix" and "map_of (indices (tbl db)) k = Some v" and "m v = Inr v'"
    and "row_ok v'"
  shows "ledger_move (hold v' - hold v) db (set_tbl ix db)"
    and "row_solvent v' \<Longrightarrow> keeps db (set_tbl ix db)"
  using put_step [OF assms(2,4)] assms(1-3) by (auto simp: ix_modify_eq_Inr)

lemma remove_step:
  assumes "ix_remove k (tbl db) = Inr ix" and "map_of (indices (tbl db)) k = Some v"
  shows "ledger_move (- hold v) db (set_tbl ix db)" and "keeps db (set_tbl ix db)"
proof -
  have rows: "indices ix = drop_row k (indices (tbl db))" using assms(1) by (auto simp: ix_remove_eq_Inr)
  have ok: "wf_index ix \<and> (\<forall>v \<in> snd ` set (indices ix). row_ok v)" if "db_ok db"
  proof
    show "wf_index ix" using tbl_ok [OF that] wf_index_remove [OF _ assms(1)] by blast
    show "\<forall>v \<in> snd ` set (indices ix). row_ok v" unfolding rows by (intro snd_drop_row conjunct2 [OF tbl_ok [OF that]])
  qed
  have "row_sum hold (indices ix) - row_sum hold (indices (tbl db)) = - hold v" if "db_ok db"
    unfolding rows using tbl_ok [OF that] assms(2) by (simp add: row_sum_drop wf_index_def)
  then show "ledger_move (- hold v) db (set_tbl ix db)"
    using replace_move [of ix db] ok by (auto simp: ledger_move_def)
  show "keeps db (set_tbl ix db)"
    unfolding keeps_def
  proof
    assume s: "sound db"
    then have "\<forall>v \<in> snd ` set (indices ix). row_solvent v"
      unfolding rows by (intro snd_drop_row tbl_solvent) (simp add: sound_def)
    with replace_keeps [of ix db] ok s show "sound (set_tbl ix db)" by (auto simp: keeps_def sound_def)
  qed
qed

end

interpretation escrow_custody: custody escrows "\<lambda>ix db. db\<lparr>escrows := ix\<rparr>" escrow_sum escrow_ok escrow_solvent
proof
  fix ix :: "escrow_object base_index" and db
  assume ix: "wf_index ix" "\<forall>v \<in> snd ` set (indices ix). escrow_ok v"
  then show "ledger_move (row_sum escrow_sum (indices ix) - row_sum escrow_sum (indices (escrows db))) db (db\<lparr>escrows := ix\<rparr>)"
    by (simp add: ledger_move_def db_ok_def tables_ok_def pools_ok_def supply_sum_def gaps_def acc_sum_def locked_def pools_def)
  assume "\<forall>v \<in> snd ` set (indices ix). escrow_solvent v"
  with ix show "keeps db (db\<lparr>escrows := ix\<rparr>)"
    by (intro keepsI) (auto simp: vote_view_def db_ok_def tables_ok_def pools_ok_def sound_def solvent_def)
qed (auto simp: db_ok_def tables_ok_def solvent_def)

interpretation contract_custody: custody contracts "\<lambda>ix db. db\<lparr>contracts := ix\<rparr>" "\<lambda>c. amount (s_amount c)"
  "\<lambda>c. symbol (s_amount c) = SCORUM_SYMBOL" contract_solvent
proof
  fix ix :: "atomicswap_contract_object base_index" and db
  assume ix: "wf_index ix" "\<forall>v \<in> snd ` set (indices ix). symbol (s_amount v) = SCORUM_SYMBOL"
  then show "ledger_move (row_sum (\<lambda>c. amount (s_amount c)) (indices ix) - row_sum (\<lambda>c. amount (s_amount c)) (indices (contracts db)))
      db (db\<lparr>contracts := ix\<rparr>)"
    by (simp add: ledger_move_def db_ok_def tables_ok_def pools_ok_def supply_sum_def gaps_def acc_sum_def locked_def pools_def)
  assume "\<forall>v \<in> snd ` set (indices ix). contract_solvent v"
  with ix show "keeps db (db\<lparr>contracts := ix\<rparr>)"
    by (intro keepsI) (auto simp: vote_view_def db_ok_def tables_ok_def pools_ok_def sound_def solvent_def)
qed (auto simp: db_ok_def tables_ok_def solvent_def)

interpretation pending_custody: custody pending_bets "\<lambda>ix db. db\<lparr>pending_bets := ix\<rparr>" "\<lambda>b. amount (b_stake (p_data b))"
  "\<lambda>b. symbol (b_stake (p_data b)) = SCORUM_SYMBOL" "\<lambda>b. bet_solvent (p_data b)"
proof
  fix ix :: "pending_bet_object base_index" and db
  assume ix: "wf_index ix" "\<forall>v \<in> snd ` set (indices ix). symbol (b_stake (p_data v)) = SCORUM_SYMBOL"
  then show "ledger_move (row_sum (\<lambda>b. amount (b_stake (p_data b))) (indices ix) -
      row_sum (\<lambda>b. amount (b_stake (p_data b))) (indices (pending_bets db))) db (db\<lparr>pending_bets := ix\<rparr>)"
    by (simp add: ledger_move_def db_ok_def tables_ok_def pools_ok_def supply_sum_def gaps_def acc_sum_def locked_def pools_def)
  assume "\<forall>v \<in> snd ` set (indices ix). bet_solvent (p_data v)"
  with ix show "keeps db (db\<lparr>pending_bets := ix\<rparr>)"
    by (intro keepsI) (auto simp: vote_view_def db_ok_def tables_ok_def pools_ok_def sound_def solvent_def)
qed (auto simp: db_ok_def tables_ok_def solvent_def)

interpretation matched_custody: custody matched_bets "\<lambda>ix db. db\<lparr>matched_bets := ix\<rparr>" matched_sum
  "\<lambda>b. symbol (b_stake (m_bet1_data b)) = SCORUM_SYMBOL \<and> symbol (b_stake (m_bet2_data b)) = SCORUM_SYMBOL"
  "\<lambda>b. bet_solvent (m_bet1_data b) \<and> bet_solvent (m_bet2_data b)"
proof
  fix ix :: "matched_bet_object base_index" and db
  assume ix: "wf_index ix"
    "\<forall>v \<in> snd ` set (indices ix). symbol (b_stake (m_bet1_data v)) = SCORUM_SYMBOL \<and> symbol (b_stake (m_bet2_data v)) = SCORUM_SYMBOL"
  then show "ledger_move (row_sum matched_sum (indices ix) - row_sum matched_sum (indices (matched_bets db))) db (db\<lparr>matched_bets := ix\<rparr>)"
    by (simp add: ledger_move_def db_ok_def tables_ok_def pools_ok_def supply_sum_def gaps_def acc_sum_def locked_def pools_def)
  assume "\<forall>v \<in> snd ` set (indices ix). bet_solvent (m_bet1_data v) \<and> bet_solvent (m_bet2_data v)"
  with ix show "keeps db (db\<lparr>matched_bets := ix\<rparr>)"
    by (intro keepsI) (auto simp: vote_view_def db_ok_def tables_ok_def pools_ok_def sound_def solvent_def)
qed (auto simp: db_ok_def tables_ok_def solvent_def)

end
