(* ===== verification/Account_Evaluators.thy ===== *)
theory Account_Evaluators
  imports Operations Chain_Soundness
begin

text \<open>
  The evaluators of the operations on accounts, authorities, balances, witnesses and delegations
  (\<^verbatim>\<open>libraries/chain/evaluators/scorum_evaluators.cpp\<close>) with the small services only they use.
  The arguments of an \<open>_apply\<close> function are the members of the operation. Its lemmas say what the
  operation does to the ledger, to the running totals of votes and to the chains of proxies.
\<close>

section \<open>Services\<close>

definition SCORUM_HARDFORK_0_7 :: nat where
  "SCORUM_HARDFORK_0_7 = 7"

definition has_hardfork :: "nat \<Rightarrow> database \<Rightarrow> bool" where
  "has_hardfork hardfork db \<longleftrightarrow> last_hardfork db + 1 > hardfork"

definition get_withdraw_rest :: "ext_lib \<Rightarrow> nat \<Rightarrow> database \<Rightarrow> asset res" where
  "get_withdraw_rest F from db =
     (case ix_find_by (\<lambda>w. v_from_id w = Account_id from) (withdraws db) of
        None \<Rightarrow> Inr (SP 0)
      | Some i \<Rightarrow> bindE (ix_get (withdraws db) i) (\<lambda>wvo. asset_sub F (v_to_withdraw wvo) (v_withdrawn wvo)))"

definition find_witness :: "account_name \<Rightarrow> database \<Rightarrow> nat option" where
  "find_witness name db = ix_find_by (\<lambda>w. w_owner w = name) (witnesses db)"

definition get_witness :: "account_name \<Rightarrow> database \<Rightarrow> nat res" where
  "get_witness name db = ix_get_by (\<lambda>w. w_owner w = name) (witnesses db)"

definition default_chain_properties :: chain_properties where
  "default_chain_properties =
     \<lparr>account_creation_fee = SCORUM_MIN_ACCOUNT_CREATION_FEE, maximum_block_size = SCORUM_MIN_BLOCK_SIZE_LIMIT * 2\<rparr>"

definition new_witness_object :: witness_object where
  "new_witness_object =
     \<lparr>w_owner = [], w_created = 0, w_url = [], w_total_missed = 0, w_last_confirmed_block_num = 0, w_signing_key = null_key,
      w_proposed_chain_props = default_chain_properties, w_votes = 0, w_schedule = Schedule_none,
      w_virtual_last_update = 0, w_virtual_position = 0, w_virtual_scheduled_time = - 1, w_running_version = 0,
      w_hardfork_version_vote = 0, w_hardfork_time_vote = 0\<rparr>"

text \<open>The first witness of the index \<^verbatim>\<open>by_vote_name\<close>: the most votes, then the least name.\<close>

definition vote_name_before :: "witness_object \<Rightarrow> witness_object \<Rightarrow> bool" where
  "vote_name_before a b \<longleftrightarrow> w_votes a > w_votes b \<or> w_votes a = w_votes b \<and> w_owner a < w_owner b"

definition get_top_witness :: "database \<Rightarrow> witness_object res" where
  "get_top_witness db =
     (case map snd (indices (witnesses db)) of
        [] \<Rightarrow> Inl (Assert_exception ''Empty witness_index by_vote_name.'')
      | w # ws \<Rightarrow> Inr (fold (\<lambda>x best. if vote_name_before x best then x else best) ws w))"

definition create_internal :: "account_name \<Rightarrow> public_key \<Rightarrow> database \<Rightarrow> (nat \<times> database) res" where
  "create_internal owner block_signing_key db =
     bindE (ix_emplace witness_clash (\<lambda>_. Inr (new_witness_object\<lparr>w_owner := owner, w_signing_key := block_signing_key,
              w_hardfork_time_vote := genesis_time db\<rparr>)) (witnesses db)) (\<lambda>(k, ix).
     Inr (k, db\<lparr>witnesses := ix\<rparr>))"

definition create_witness ::
  "account_name \<Rightarrow> string \<Rightarrow> public_key \<Rightarrow> chain_properties \<Rightarrow> database \<Rightarrow> database res"
where
  "create_witness owner url block_signing_key props db =
     bindE (fc_assert (length owner \<noteq> 0) ''Witness owner_name should not be empty.'') (\<lambda>_.
     bindE (create_internal owner block_signing_key db) (\<lambda>(k, db).
     update_witness_row k (\<lambda>w. Inr (w\<lparr>w_url := url, w_created := head_block_time db, w_proposed_chain_props := props\<rparr>)) db))"

definition create_initial_witness :: "account_name \<Rightarrow> public_key \<Rightarrow> database \<Rightarrow> database res" where
  "create_initial_witness owner block_signing_key db =
     bindE (create_internal owner block_signing_key db) (\<lambda>(k, db).
     update_witness_row k (\<lambda>w. Inr (w\<lparr>w_schedule := Top20\<rparr>)) db)"

definition update_witness ::
  "nat \<Rightarrow> string \<Rightarrow> public_key \<Rightarrow> chain_properties \<Rightarrow> database \<Rightarrow> database res"
where
  "update_witness k url block_signing_key props db =
     update_witness_row k (\<lambda>w. Inr (w\<lparr>w_url := url, w_signing_key := block_signing_key,
       w_proposed_chain_props := props\<rparr>)) db"

definition find_witness_vote :: "nat \<Rightarrow> nat \<Rightarrow> database \<Rightarrow> nat option" where
  "find_witness_vote witness_id voter_id db =
     ix_find_by (\<lambda>v. wv_account v = voter_id \<and> wv_witness v = witness_id) (witness_votes db)"

definition get_witness_vote :: "nat \<Rightarrow> nat \<Rightarrow> database \<Rightarrow> nat res" where
  "get_witness_vote witness_id voter_id db =
     ix_get_by (\<lambda>v. wv_account v = voter_id \<and> wv_witness v = witness_id) (witness_votes db)"

definition create_rights :: "ext_lib \<Rightarrow> nat \<Rightarrow> nat \<Rightarrow> database \<Rightarrow> database res" where
  "create_rights F account time_to_life db =
     bindE (ix_emplace decline_clash (\<lambda>_. Inr \<lparr>dv_account = account,
              dv_effective_date = time_add F (head_block_time db) time_to_life\<rparr>) (decline_requests db)) (\<lambda>(k, ix).
     Inr (db\<lparr>decline_requests := ix\<rparr>))"

definition find_delegation :: "account_name \<Rightarrow> account_name \<Rightarrow> database \<Rightarrow> nat option" where
  "find_delegation delegator delegatee db =
     ix_find_by (\<lambda>d. d_delegator d = delegator \<and> d_delegatee d = delegatee) (delegations db)"

definition get_delegation :: "account_name \<Rightarrow> account_name \<Rightarrow> database \<Rightarrow> nat res" where
  "get_delegation delegator delegatee db =
     ix_get_by (\<lambda>d. d_delegator d = delegator \<and> d_delegatee d = delegatee) (delegations db)"

definition create_expiration :: "account_name \<Rightarrow> asset \<Rightarrow> nat \<Rightarrow> database \<Rightarrow> database res" where
  "create_expiration delegator scorumpower expiration db =
     bindE (ix_emplace (\<lambda>_ _. False) (\<lambda>_. Inr \<lparr>x_delegator = delegator, x_scorumpower = scorumpower,
              x_expiration = expiration\<rparr>) (delegation_expirations db)) (\<lambda>(k, ix).
     Inr (db\<lparr>delegation_expirations := ix\<rparr>))"

section \<open>Witnesses\<close>

definition witness_update_apply ::
  "account_name \<Rightarrow> string \<Rightarrow> public_key \<Rightarrow> chain_properties \<Rightarrow> database \<Rightarrow> database res"
where
  "witness_update_apply owner url block_signing_key props db =
     bindE (check_account_existence owner db) (\<lambda>_.
     bindE (fc_assert (length url \<le> SCORUM_MAX_WITNESS_URL_LENGTH) ''URL is too long'') (\<lambda>_.
     bindE (fc_assert (symbol (account_creation_fee props) = SCORUM_SYMBOL) ''account_creation_fee'') (\<lambda>_.
     if find_witness owner db = None then create_witness owner url block_signing_key props db
     else bindE (get_witness owner db) (\<lambda>w. update_witness w url block_signing_key props db))))"

definition account_witness_proxy_apply :: "ext_lib \<Rightarrow> account_name \<Rightarrow> account_name \<Rightarrow> database \<Rightarrow> database res" where
  "account_witness_proxy_apply F account proxy db =
     bindE (get_account account db) (\<lambda>k.
     bindE (account_at k db) (\<lambda>acc.
     bindE (fc_assert (a_proxy acc \<noteq> proxy) ''Proxy must change.'') (\<lambda>_.
     bindE (fc_assert (a_can_vote acc) ''Account has declined the ability to vote and cannot proxy votes.'') (\<lambda>_.
     bindE (if length proxy \<noteq> 0
            then bindE (get_account proxy db) (\<lambda>p. bindE (account_at p db) (\<lambda>pobj. Inr (Some (p, pobj))))
            else Inr None) (\<lambda>proxy_account.
     update_voting_proxy F k proxy_account db)))))"

definition account_witness_vote_apply ::
  "ext_lib \<Rightarrow> account_name \<Rightarrow> account_name \<Rightarrow> bool \<Rightarrow> database \<Rightarrow> database res"
where
  "account_witness_vote_apply F account witness approve db =
     bindE (get_account account db) (\<lambda>k.
     bindE (account_at k db) (\<lambda>voter.
     bindE (fc_assert (length (a_proxy voter) = 0)
              ''A proxy is currently set, please clear the proxy before voting for a witness.'') (\<lambda>_.
     bindE (if approve then fc_assert (a_can_vote voter) ''Account has declined its voting rights.'' else Inr ()) (\<lambda>_.
     bindE (get_witness witness db) (\<lambda>w.
     if find_witness_vote w k db = None then
       bindE (fc_assert approve ''Vote does not exist, user must indicate a desire to approve witness.'') (\<lambda>_.
       bindE (fc_assert (a_witnesses_voted_for voter < SCORUM_MAX_ACCOUNT_WITNESS_VOTES)
                ''Account has voted for too many witnesses.'') (\<lambda>_.
       bindE (ix_emplace witness_vote_clash (\<lambda>_. Inr \<lparr>wv_witness = w, wv_account = k\<rparr>) (witness_votes db)) (\<lambda>(i, ix).
       bindE (witness_vote_weight F voter) (\<lambda>weight0.
       bindE (adjust_witness_vote F w weight0 (db\<lparr>witness_votes := ix\<rparr>)) (\<lambda>db.
       increase_witnesses_voted_for k db)))))
     else
       bindE (fc_assert (\<not> approve) ''Vote currently exists, user must indicate a desire to reject witness.'') (\<lambda>_.
       bindE (witness_vote_weight F voter) (\<lambda>weight0.
       bindE (safe_neg F weight0) (\<lambda>neg.
       bindE (adjust_witness_vote F w neg db) (\<lambda>db.
       bindE (decrease_witnesses_voted_for k db) (\<lambda>db.
       bindE (get_witness_vote w k db) (\<lambda>i.
       bindE (ix_remove i (witness_votes db)) (\<lambda>ix.
       Inr (db\<lparr>witness_votes := ix\<rparr>)))))))))))))"

section \<open>Accounts\<close>

definition account_create_apply ::
  "ext_lib \<Rightarrow> asset \<Rightarrow> account_name \<Rightarrow> account_name \<Rightarrow> authority \<Rightarrow> authority \<Rightarrow> authority \<Rightarrow> public_key \<Rightarrow> string
   \<Rightarrow> database \<Rightarrow> database res"
where
  "account_create_apply F fee creator new_account_name owner active posting memo_key json_metadata db =
     bindE (get_account creator db) (\<lambda>c.
     bindE (account_at c db) (\<lambda>cobj.
     bindE (assertE (asset_ge (a_balance cobj) fee) ''Insufficient balance to create account.'') (\<lambda>_.
     bindE (asset_mul F (account_creation_fee (dgp_median_chain_props (dgp db)))
              SCORUM_CREATE_ACCOUNT_WITH_SCORUM_MODIFIER) (\<lambda>creation_fee.
     bindE (assertE (asset_ge fee creation_fee) ''Insufficient Fee'') (\<lambda>_.
     bindE (check_accounts_existence (account_auths owner) db) (\<lambda>_.
     bindE (check_accounts_existence (account_auths active) db) (\<lambda>_.
     bindE (check_accounts_existence (account_auths posting) db) (\<lambda>_.
     bindE (create_account_with_fee F new_account_name creator memo_key json_metadata owner active posting fee db) (\<lambda>(k, db).
     Inr db)))))))))"

definition account_create_with_delegation_apply ::
  "ext_lib \<Rightarrow> asset \<Rightarrow> asset \<Rightarrow> account_name \<Rightarrow> account_name \<Rightarrow> authority \<Rightarrow> authority \<Rightarrow> authority \<Rightarrow> public_key \<Rightarrow> string
   \<Rightarrow> database \<Rightarrow> database res"
where
  "account_create_with_delegation_apply F fee delegation creator new_account_name owner active posting memo_key
     json_metadata db =
     bindE (get_account creator db) (\<lambda>c.
     bindE (account_at c db) (\<lambda>cobj.
     bindE (assertE (asset_ge (a_balance cobj) fee) ''Insufficient balance to create account.'') (\<lambda>_.
     bindE (get_withdraw_rest F c db) (\<lambda>withdraw_rest.
     bindE (bindE (asset_sub F (a_scorumpower cobj) (a_delegated_scorumpower cobj)) (\<lambda>x. asset_sub F x withdraw_rest)) (\<lambda>available.
     bindE (assertE (asset_ge available delegation) ''Insufficient scorumpower to delegate to new account.'') (\<lambda>_.
     let median_creation_fee = account_creation_fee (dgp_median_chain_props (dgp db)) in
     bindE (bindE (safe_mul F (amount median_creation_fee) SCORUM_CREATE_ACCOUNT_WITH_SCORUM_MODIFIER)
              (\<lambda>x. safe_mul F x SCORUM_CREATE_ACCOUNT_DELEGATION_RATIO)) (\<lambda>target_delegation.
     bindE (safe_mul F (amount fee) SCORUM_CREATE_ACCOUNT_DELEGATION_RATIO) (\<lambda>x.
     bindE (asset_add F (SP x) delegation) (\<lambda>current_delegation.
     bindE (assertE (asset_ge current_delegation (SP target_delegation)) ''Inssufficient Delegation'') (\<lambda>_.
     bindE (assertE (asset_ge fee median_creation_fee) ''Insufficient Fee'') (\<lambda>_.
     bindE (check_accounts_existence (account_auths owner) db) (\<lambda>_.
     bindE (check_accounts_existence (account_auths active) db) (\<lambda>_.
     bindE (check_accounts_existence (account_auths posting) db) (\<lambda>_.
     bindE (create_account_with_delegation F new_account_name creator memo_key json_metadata owner active posting
              fee delegation db) (\<lambda>(k, db).
     Inr db)))))))))))))))"

definition account_update_apply ::
  "ext_lib \<Rightarrow> config \<Rightarrow> account_name \<Rightarrow> authority option \<Rightarrow> authority option \<Rightarrow> authority option \<Rightarrow> public_key \<Rightarrow> string
   \<Rightarrow> database \<Rightarrow> database res"
where
  "account_update_apply F cfg account owner active posting memo_key json_metadata db =
     bindE (authority_validate_opt posting) (\<lambda>_.
     bindE (get_account account db) (\<lambda>k.
     bindE (get_account_authority account db) (\<lambda>auth.
     bindE (case owner of
              None \<Rightarrow> Inr db
            | Some ow \<Rightarrow>
                bindE (ix_get (authorities db) auth) (\<lambda>account_auth.
                bindE (fc_assert (time_diff F (head_block_time db) (auth_last_owner_update account_auth)
                         > int (owner_update_limit cfg)) ''Owner authority can only be updated once an hour.'') (\<lambda>_.
                bindE (check_accounts_existence (account_auths ow) db) (\<lambda>_.
                update_owner_authority k ow db)))) (\<lambda>db.
     bindE (case active of None \<Rightarrow> Inr () | Some x \<Rightarrow> check_accounts_existence (account_auths x) db) (\<lambda>_.
     bindE (case posting of None \<Rightarrow> Inr () | Some x \<Rightarrow> check_accounts_existence (account_auths x) db) (\<lambda>_.
     update_acount k auth memo_key json_metadata owner active posting db))))))"

definition prove_authority_apply :: "account_name \<Rightarrow> bool \<Rightarrow> database \<Rightarrow> database res" where
  "prove_authority_apply challenged require_owner db =
     bindE (get_account challenged db) (\<lambda>k.
     bindE (account_at k db) (\<lambda>acc.
     bindE (fc_assert (a_owner_challenged acc \<or> a_active_challenged acc)
              ''Account is not challeneged. No need to prove authority.'') (\<lambda>_.
     prove_authority k require_owner db)))"

definition request_account_recovery_apply ::
  "ext_lib \<Rightarrow> config \<Rightarrow> account_name \<Rightarrow> account_name \<Rightarrow> authority \<Rightarrow> database \<Rightarrow> database res"
where
  "request_account_recovery_apply F cfg recovery_account account_to_recover new_owner_authority db =
     bindE (get_account account_to_recover db) (\<lambda>k.
     bindE (account_at k db) (\<lambda>acc.
     bindE (if length (a_recovery_account acc) \<noteq> 0
            then fc_assert (a_recovery_account acc = recovery_account)
                   ''Cannot recover an account that does not have you as there recovery partner.''
            else bindE (get_top_witness db) (\<lambda>top.
                 fc_assert (w_owner top = recovery_account)
                   ''Top witness must recover an account with no recovery partner.'')) (\<lambda>_.
     create_account_recovery F cfg account_to_recover new_owner_authority db)))"

definition recover_account_apply ::
  "ext_lib \<Rightarrow> config \<Rightarrow> account_name \<Rightarrow> authority \<Rightarrow> authority \<Rightarrow> database \<Rightarrow> database res"
where
  "recover_account_apply F cfg account_to_recover new_owner_authority recent_owner_authority db =
     bindE (get_account account_to_recover db) (\<lambda>k.
     bindE (account_at k db) (\<lambda>acc.
     bindE (fc_assert (time_diff F (head_block_time db) (a_last_account_recovery acc) > int (owner_update_limit cfg))
              ''Owner authority can only be updated once an hour.'') (\<lambda>_.
     submit_account_recovery k new_owner_authority recent_owner_authority db)))"

definition change_recovery_account_apply ::
  "ext_lib \<Rightarrow> config \<Rightarrow> account_name \<Rightarrow> account_name \<Rightarrow> database \<Rightarrow> database res"
where
  "change_recovery_account_apply F cfg account_to_recover new_recovery_account db =
     bindE (check_account_existence new_recovery_account db) (\<lambda>_.
     bindE (get_account account_to_recover db) (\<lambda>k.
     change_recovery_account F cfg k new_recovery_account db))"

definition decline_voting_rights_apply :: "ext_lib \<Rightarrow> config \<Rightarrow> account_name \<Rightarrow> bool \<Rightarrow> database \<Rightarrow> database res" where
  "decline_voting_rights_apply F cfg account decline db =
     bindE (get_account account db) (\<lambda>k.
     if decline then
       bindE (fc_assert (ix_find_by (\<lambda>r. dv_account r = k) (decline_requests db) = None)
                ''Cannot create new request because one already exists.'') (\<lambda>_.
       create_rights F k (owner_auth_recovery_period cfg) db)
     else
       bindE (ix_get_by (\<lambda>r. dv_account r = k) (decline_requests db)) (\<lambda>request.
       bindE (ix_remove request (decline_requests db)) (\<lambda>ix.
       Inr (db\<lparr>decline_requests := ix\<rparr>))))"

section \<open>Balances and scorum power\<close>

definition transfer_apply :: "ext_lib \<Rightarrow> account_name \<Rightarrow> account_name \<Rightarrow> asset \<Rightarrow> database \<Rightarrow> database res" where
  "transfer_apply F from to amt db =
     bindE (get_account from db) (\<lambda>f.
     bindE (get_account to db) (\<lambda>t.
     bindE (drop_challenged f db) (\<lambda>db.
     bindE (account_at f db) (\<lambda>from_account.
     bindE (assertE (asset_ge (a_balance from_account) amt) ''Account does not have sufficient funds for transfer.'') (\<lambda>_.
     bindE (decrease_balance F f amt db) (\<lambda>db.
     increase_balance F t amt db))))))"

definition transfer_to_scorumpower_apply ::
  "ext_lib \<Rightarrow> account_name \<Rightarrow> account_name \<Rightarrow> asset \<Rightarrow> database \<Rightarrow> database res"
where
  "transfer_to_scorumpower_apply F from to amt db =
     bindE (get_account from db) (\<lambda>f.
     bindE (if length to \<noteq> 0 then get_account to db else Inr f) (\<lambda>t.
     bindE (account_at f db) (\<lambda>from_account.
     bindE (assertE (asset_ge (a_balance from_account) amt) ''Account does not have sufficient SCR for transfer.'') (\<lambda>_.
     bindE (decrease_balance F f amt db) (\<lambda>db.
     create_scorumpower F t amt db)))))"

definition burn_apply :: "ext_lib \<Rightarrow> account_name \<Rightarrow> asset \<Rightarrow> database \<Rightarrow> database res" where
  "burn_apply F owner amt db =
     bindE (fc_assert (has_hardfork SCORUM_HARDFORK_0_7 db) ''Hardfork #7 is required'') (\<lambda>_.
     bindE (check_account_existence owner db) (\<lambda>_.
     bindE (get_account owner db) (\<lambda>k.
     bindE (account_at k db) (\<lambda>acc.
     bindE (assertE (asset_ge (a_balance acc) amt) ''Account does not have sufficient funds for burn.'') (\<lambda>_.
     burn_scr F k amt db)))))"

definition update_delegation :: "nat \<Rightarrow> asset \<Rightarrow> database \<Rightarrow> database res" where
  "update_delegation i scorumpower db =
     bindE (ix_modify delegation_clash i (\<lambda>d. Inr (d\<lparr>d_scorumpower := scorumpower\<rparr>)) (delegations db)) (\<lambda>ix.
     Inr (db\<lparr>delegations := ix\<rparr>))"

definition delegate_scorumpower_apply ::
  "ext_lib \<Rightarrow> config \<Rightarrow> account_name \<Rightarrow> account_name \<Rightarrow> asset \<Rightarrow> database \<Rightarrow> database res"
where
  "delegate_scorumpower_apply F cfg delegator delegatee scorumpower db =
     bindE (get_account delegator db) (\<lambda>r.
     bindE (get_account delegatee db) (\<lambda>e.
     bindE (account_at r db) (\<lambda>robj.
     bindE (asset_sub F (a_scorumpower robj) (a_delegated_scorumpower robj)) (\<lambda>x.
     bindE (get_withdraw_rest F r db) (\<lambda>rest.
     bindE (asset_sub F x rest) (\<lambda>available_shares.
     let fee = amount (account_creation_fee (dgp_median_chain_props (dgp db))) in
     bindE (safe_mul F fee SCORUM_MIN_DELEGATE_VESTING_SHARES_MODIFIER) (\<lambda>m.
     let min_delegation = SP m; min_update = SP fee in
     (case find_delegation delegator delegatee db of
        None \<Rightarrow>
          bindE (assertE (asset_ge available_shares scorumpower) ''Account does not have enough scorumpower to delegate.'') (\<lambda>_.
          bindE (assertE (asset_ge scorumpower min_delegation) ''Account must delegate a minimum'') (\<lambda>_.
          bindE (create_delegation_row \<lparr>d_delegator = delegator, d_delegatee = delegatee,
                   d_scorumpower = scorumpower, d_min_delegation_time = dgp_time (dgp db)\<rparr> db) (\<lambda>db.
          bindE (increase_delegated_scorumpower F r scorumpower db) (\<lambda>db.
          increase_received_scorumpower F e scorumpower db))))
      | Some i \<Rightarrow>
          bindE (ix_get (delegations db) i) (\<lambda>delegation.
          bindE (asset_ge scorumpower (d_scorumpower delegation)) (\<lambda>increasing.
          if increasing then
            bindE (asset_sub F scorumpower (d_scorumpower delegation)) (\<lambda>delta.
            bindE (assertE (asset_ge delta min_update) ''Scorum Power increase is not enough of a difference.'') (\<lambda>_.
            bindE (assertE (asset_ge available_shares delta) ''Account does not have enough scorumpower to delegate.'') (\<lambda>_.
            bindE (increase_delegated_scorumpower F r delta db) (\<lambda>db.
            bindE (increase_received_scorumpower F e delta db) (\<lambda>db.
            update_delegation i scorumpower db)))))
          else
            bindE (asset_sub F (d_scorumpower delegation) scorumpower) (\<lambda>delta.
            bindE (if amount scorumpower > 0 then
                     bindE (assertE (asset_ge delta min_update) ''Scorum Power decrease is not enough of a difference.'') (\<lambda>_.
                     assertE (asset_ge scorumpower min_delegation)
                       ''Delegation must be removed or leave minimum delegation amount'')
                   else fc_assert (amount (d_scorumpower delegation) > 0)
                          ''Delegation would set scorumpower to zero, but it is already zero'') (\<lambda>_.
            bindE (create_expiration delegator delta
                     (max (time_add F (head_block_time db) (cashout_window_seconds cfg)) (d_min_delegation_time delegation)) db) (\<lambda>db.
            bindE (decrease_received_scorumpower F e delta db) (\<lambda>db.
            if amount scorumpower > 0 then update_delegation i scorumpower db
            else bindE (ix_remove i (delegations db)) (\<lambda>ix. Inr (db\<lparr>delegations := ix\<rparr>))))))))))))))))"

section \<open>What the operations keep\<close>

lemmas evaluator_simps = bindE_Inr_iff fc_assert_Inr_iff assertE_iff

lemma get_account_name: "get_account name db = Inr k \<Longrightarrow> account_at k db = Inr a \<Longrightarrow> db_ok db \<Longrightarrow> a_name a = name"
  using get_account_row by (fastforce simp: account_at_iff)

subsection \<open>Transfers\<close>

lemma transfer_conserves:
  assumes F: "ext_ok F" and valid: "transfer_validate F from to amt memo = Inr ()"
    and app: "transfer_apply F from to amt db = Inr db'"
  shows "conserves db db'"
proof -
  have pos: "0 < amount amt" using valid by (simp add: transfer_validate_def res_simps)
  from app obtain f t db1 a db2 where 1: "drop_challenged f db = Inr db1" and a: "account_at f db1 = Inr a"
    and le: "asset_ge (a_balance a) amt = Inr True" and 2: "decrease_balance F f amt db1 = Inr db2"
    and 3: "increase_balance F t amt db2 = Inr db'"
    by (auto simp: transfer_apply_def evaluator_simps)
  have "keeps db1 db2"
    by (rule decrease_balance_keeps [OF F 2]) (use a le in \<open>auto simp: res_simps\<close>)
  moreover have "keeps db2 db'" by (rule deposit_keeps [OF F 3]) (use pos in simp)
  moreover have "ledger_move 0 db1 db'"
    by (rule ledger_move_trans [OF decrease_balance_move [OF F 2] increase_balance_move [OF F 3]]) simp
  ultimately have "conserves db1 db'" by (intro conservesI) (auto intro: keeps_trans)
  with conservesI [OF account_flags_keep(1) [OF 1] drop_challenged_move [OF 1]] show ?thesis by (rule conserves_trans)
qed

lemma transfer_to_scorumpower_conserves:
  assumes F: "ext_ok F" and valid: "transfer_to_scorumpower_validate from to amt = Inr ()"
    and app: "transfer_to_scorumpower_apply F from to amt db = Inr db'"
  shows "conserves db db'"
proof -
  have pos: "0 < amount amt" using valid by (auto simp: transfer_to_scorumpower_validate_def res_simps split: if_splits)
  from app obtain f t a db1 where a: "account_at f db = Inr a"
    and le: "asset_ge (a_balance a) amt = Inr True" and 1: "decrease_balance F f amt db = Inr db1"
    and 2: "create_scorumpower F t amt db1 = Inr db'"
    by (auto simp: transfer_to_scorumpower_apply_def evaluator_simps)
  have "keeps db db1"
    by (rule decrease_balance_keeps [OF F 1]) (use a le in \<open>auto simp: res_simps\<close>)
  moreover have "keeps db1 db'" by (rule create_scorumpower_keeps [OF F 2]) (use pos in simp)
  moreover have "ledger_move 0 db db'"
    by (rule ledger_move_trans [OF decrease_balance_move [OF F 1] create_scorumpower_move [OF F 2]]) simp
  ultimately show ?thesis by (intro conservesI) (auto intro: keeps_trans)
qed

lemma burn_conserves:
  assumes F: "ext_ok F" and app: "burn_apply F owner amt db = Inr db'"
  shows "conserves db db'"
proof -
  from app obtain k a where a: "account_at k db = Inr a" and le: "asset_ge (a_balance a) amt = Inr True"
    and 1: "burn_scr F k amt db = Inr db'"
    by (auto simp: burn_apply_def evaluator_simps)
  show ?thesis
    by (intro conservesI burn_scr_keeps [OF F 1] burn_scr_move [OF F 1]) (use a le in \<open>auto simp: res_simps\<close>)
qed

subsection \<open>Accounts\<close>

lemma account_create_conserves:
  assumes F: "ext_ok F"
    and app: "account_create_apply F fee creator name owner active posting memo_key json db = Inr db'"
  shows "conserves db db'"
proof -
  from app obtain c a k where c: "get_account creator db = Inr c" and a: "account_at c db = Inr a"
    and le: "asset_ge (a_balance a) fee = Inr True"
    and 1: "create_account_with_fee F name creator memo_key json owner active posting fee db = Inr (k, db')"
    by (auto simp: account_create_apply_def evaluator_simps)
  show ?thesis
    by (intro conservesI create_account_with_fee_keeps [OF F 1 c] create_account_with_fee_move [OF F 1])
      (use a le in \<open>auto simp: res_simps\<close>)
qed

lemma account_create_with_delegation_conserves:
  assumes F: "ext_ok F"
    and valid: "account_create_with_delegation_validate F fee delegation creator name owner active posting json = Inr ()"
    and app: "account_create_with_delegation_apply F fee delegation creator name owner active posting memo_key json db = Inr db'"
  shows "conserves db db'"
proof -
  have pos: "0 \<le> amount fee" using valid by (auto simp: account_create_with_delegation_validate_def res_simps)
  from app obtain c a k where c: "get_account creator db = Inr c" and a: "account_at c db = Inr a"
    and le: "asset_ge (a_balance a) fee = Inr True"
    and 1: "create_account_with_delegation F name creator memo_key json owner active posting fee delegation db = Inr (k, db')"
    unfolding account_create_with_delegation_apply_def Let_def by (auto simp: evaluator_simps)
  show ?thesis
    by (intro conservesI create_account_with_delegation_keeps [OF F 1 c] create_account_with_delegation_move [OF F 1 pos])
      (use a le in \<open>auto simp: res_simps\<close>)
qed

lemma update_owner_authority_conserves:
  "update_owner_authority k ow db = Inr db' \<Longrightarrow> conserves db db'"
proof -
  assume "update_owner_authority k ow db = Inr db'"
  then obtain ix ix' where "db' = db\<lparr>owner_histories := ix, authorities := ix'\<rparr>"
    by (auto simp: update_owner_authority_def Let_def bindE_Inr_iff create_owner_history_row_def update_authority_def)
  then show ?thesis by (intro conserves_same) (simp_all add: sound_view_def ledger_view_def tables_ok_def)
qed

lemma account_update_conserves:
  assumes "account_update_apply F cfg account owner active posting memo_key json db = Inr db'"
  shows "conserves db db'"
proof -
  from assms obtain k auth db1 where
    1: "(case owner of
              None \<Rightarrow> Inr db
            | Some ow \<Rightarrow>
                bindE (ix_get (authorities db) auth) (\<lambda>account_auth.
                bindE (fc_assert (time_diff F (head_block_time db) (auth_last_owner_update account_auth)
                         > int (owner_update_limit cfg)) ''Owner authority can only be updated once an hour.'') (\<lambda>_.
                bindE (check_accounts_existence (account_auths ow) db) (\<lambda>_.
                update_owner_authority k ow db)))) = Inr db1" and
    2: "update_acount k auth memo_key json owner active posting db1 = Inr db'"
    unfolding account_update_apply_def bindE_Inr_iff by blast
  have "conserves db db1" using 1 by (auto simp: evaluator_simps split: option.splits intro: update_owner_authority_conserves)
  moreover have "conserves db1 db'" by (intro conservesI update_acount_keeps [OF 2] update_acount_move [OF 2])
  ultimately show ?thesis by (rule conserves_trans)
qed

lemma prove_authority_conserves: "prove_authority_apply c ro db = Inr db' \<Longrightarrow> conserves db db'"
  by (auto simp: prove_authority_apply_def evaluator_simps intro: conservesI account_flags_keep(2) prove_authority_move)

lemma create_account_recovery_conserves:
  assumes "create_account_recovery F cfg acc auth db = Inr db'"
  shows "conserves db db'"
proof -
  from assms have "\<exists>ix. db' = db\<lparr>recovery_requests := ix\<rparr>"
    unfolding create_account_recovery_def Let_def
    by (auto simp: evaluator_simps split: option.splits if_splits)
  then show ?thesis by (elim exE) (auto intro!: conserves_same simp: sound_view_def ledger_view_def tables_ok_def)
qed

lemma request_account_recovery_conserves:
  "request_account_recovery_apply F cfg ra acc auth db = Inr db' \<Longrightarrow> conserves db db'"
  unfolding request_account_recovery_apply_def bindE_Inr_iff by (auto intro: create_account_recovery_conserves)

lemma conserves_update_frame:
  assumes "update_account k m db = Inr db'"
    and "\<And>a a'. m a = Inr a' \<Longrightarrow> ledger_fields a' = ledger_fields a \<and> a_name a' = a_name a"
  shows "conserves db db'"
proof (rule conservesI)
  show "keeps db db'" using assms by (rule update_frame_keeps)
  show "ledger_move 0 db db'" by (rule ledger_move_update_account [OF assms(1)]) (drule assms(2), simp)
qed

lemma recover_account_conserves:
  assumes "recover_account_apply F cfg name new_auth recent_auth db = Inr db'"
  shows "conserves db db'"
proof -
  from assms obtain k ix db1 where 1: "update_owner_authority k new_auth (db\<lparr>recovery_requests := ix\<rparr>) = Inr db1"
    and 2: "update_account k (\<lambda>a. Inr (a\<lparr>a_last_account_recovery := head_block_time db\<rparr>)) db1 = Inr db'"
    by (auto simp: recover_account_apply_def submit_account_recovery_def Let_def evaluator_simps split: option.splits)
  have "conserves db (db\<lparr>recovery_requests := ix\<rparr>)"
    by (rule conserves_same) (simp_all add: sound_view_def ledger_view_def tables_ok_def)
  then have "conserves db db1" using update_owner_authority_conserves [OF 1] by (rule conserves_trans)
  moreover have "conserves db1 db'" by (rule conserves_update_frame [OF 2]) (auto simp: ledger_fields_def)
  ultimately show ?thesis by (rule conserves_trans)
qed

lemma change_recovery_account_conserves:
  assumes "change_recovery_account_apply F cfg name new_name db = Inr db'"
  shows "conserves db db'"
proof -
  from assms have "\<exists>ix. db' = db\<lparr>change_recovery_requests := ix\<rparr>"
    unfolding change_recovery_account_apply_def change_recovery_account_def Let_def
    by (auto simp: evaluator_simps split: option.splits if_splits)
  then show ?thesis by (elim exE) (auto intro!: conserves_same simp: sound_view_def ledger_view_def tables_ok_def)
qed

lemma decline_voting_rights_conserves:
  assumes "decline_voting_rights_apply F cfg name decline db = Inr db'"
  shows "conserves db db'"
proof -
  from assms have "\<exists>ix. db' = db\<lparr>decline_requests := ix\<rparr>"
    by (auto simp: decline_voting_rights_apply_def create_rights_def evaluator_simps split: if_splits)
  then show ?thesis by (elim exE) (auto intro!: conserves_same simp: sound_view_def ledger_view_def tables_ok_def)
qed

subsection \<open>Delegations\<close>

lemma delegation_table_conserves:
  assumes "wf_index (delegations db) \<Longrightarrow> wf_index ix"
  shows "conserves db (db\<lparr>delegations := ix\<rparr>)"
  by (rule conserves_same) (use assms in \<open>auto simp: sound_view_def ledger_view_def tables_ok_def\<close>)

lemma create_delegation_row_conserves: "create_delegation_row v db = Inr db' \<Longrightarrow> conserves db db'"
  by (auto simp: create_delegation_row_def bindE_Inr_iff intro: delegation_table_conserves wf_index_emplace)

lemma update_delegation_conserves: "update_delegation i sp db = Inr db' \<Longrightarrow> conserves db db'"
  by (auto simp: update_delegation_def bindE_Inr_iff intro: delegation_table_conserves wf_index_modify)

lemma create_expiration_conserves:
  assumes "create_expiration d sp e db = Inr db'"
  shows "conserves db db'"
proof -
  from assms obtain k ix where "ix_emplace (\<lambda>_ _. False) (\<lambda>_. Inr \<lparr>x_delegator = d, x_scorumpower = sp,
              x_expiration = e\<rparr>) (delegation_expirations db) = Inr (k, ix)" "db' = db\<lparr>delegation_expirations := ix\<rparr>"
    by (auto simp: create_expiration_def bindE_Inr_iff)
  then show ?thesis
    by (intro conserves_same) (auto simp: sound_view_def ledger_view_def tables_ok_def intro: wf_index_emplace)
qed

lemma delegated_conserves:
  "increase_delegated_scorumpower F k amt db = Inr db' \<Longrightarrow> conserves db db'"
  "increase_received_scorumpower F k amt db = Inr db' \<Longrightarrow> conserves db db'"
  "decrease_received_scorumpower F k amt db = Inr db' \<Longrightarrow> conserves db db'"
  by (auto intro: conservesI delegated_keeps increase_delegated_move increase_received_move decrease_received_move)

lemma delegate_scorumpower_cases:
  assumes "delegate_scorumpower_apply F cfg delegator delegatee sp db = Inr db'"
  obtains
    (fresh) r e db1 db2 where "get_account delegator db = Inr r" "get_account delegatee db = Inr e"
      "find_delegation delegator delegatee db = None"
      "create_delegation_row \<lparr>d_delegator = delegator, d_delegatee = delegatee, d_scorumpower = sp,
         d_min_delegation_time = dgp_time (dgp db)\<rparr> db = Inr db1"
      "increase_delegated_scorumpower F r sp db1 = Inr db2" "increase_received_scorumpower F e sp db2 = Inr db'"
  | (raise) r e i del delta db1 db2 where "get_account delegator db = Inr r" "get_account delegatee db = Inr e"
      "find_delegation delegator delegatee db = Some i" "ix_get (delegations db) i = Inr del"
      "asset_ge sp (d_scorumpower del) = Inr True" "asset_sub F sp (d_scorumpower del) = Inr delta"
      "increase_delegated_scorumpower F r delta db = Inr db1" "increase_received_scorumpower F e delta db1 = Inr db2"
      "update_delegation i sp db2 = Inr db'"
  | (lower) r e i del delta t db1 db2 where "get_account delegator db = Inr r" "get_account delegatee db = Inr e"
      "find_delegation delegator delegatee db = Some i" "ix_get (delegations db) i = Inr del"
      "asset_ge sp (d_scorumpower del) = Inr False" "asset_sub F (d_scorumpower del) sp = Inr delta"
      "create_expiration delegator delta t db = Inr db1" "decrease_received_scorumpower F e delta db1 = Inr db2"
      "(if amount sp > 0 then update_delegation i sp db2
        else bindE (ix_remove i (delegations db2)) (\<lambda>ix. Inr (db2\<lparr>delegations := ix\<rparr>))) = Inr db'"
proof -
  note app = assms [unfolded delegate_scorumpower_apply_def Let_def bindE_Inr_iff]
  show thesis
  proof (cases "find_delegation delegator delegatee db")
    case None
    with app show thesis by (simp add: evaluator_simps, elim exE conjE) (rule fresh; (assumption | simp)?)
  next
    case (Some i)
    with app obtain del where del: "ix_get (delegations db) i = Inr del" by (auto simp: evaluator_simps)
    with app Some obtain b where b: "asset_ge sp (d_scorumpower del) = Inr b" by (auto simp: evaluator_simps)
    show thesis
    proof (cases b)
      case True
      then have b: "asset_ge sp (d_scorumpower del) = Inr True" using b by simp
      from app show thesis
        by (simp add: Some del b evaluator_simps, elim exE conjE)
          (rule raise; (assumption | rule Some | rule del | rule b)?)
    next
      case False
      then have b: "asset_ge sp (d_scorumpower del) = Inr False" using b by simp
      from app show thesis
        by (simp add: Some del b evaluator_simps del: if_split, elim exE conjE)
          (rule lower; (assumption | rule Some | rule del | rule b)?)
    qed
  qed
qed

lemma delegate_scorumpower_conserves:
  assumes "delegate_scorumpower_apply F cfg delegator delegatee sp db = Inr db'"
  shows "conserves db db'"
  using assms
proof (cases rule: delegate_scorumpower_cases)
  case (fresh r e db1 db2)
  then show ?thesis using create_delegation_row_conserves delegated_conserves conserves_trans by metis
next
  case (raise r e i del delta db1 db2)
  then show ?thesis using update_delegation_conserves delegated_conserves conserves_trans by metis
next
  case (lower r e i del delta t db1 db2)
  have "conserves db2 db'"
    using lower(9) by (auto simp: bindE_Inr_iff split: if_splits
        intro: update_delegation_conserves delegation_table_conserves wf_index_remove)
  with create_expiration_conserves [OF lower(7)] delegated_conserves(3) [OF lower(8)] show ?thesis
    using conserves_trans by metis
qed

subsection \<open>Witnesses and votes\<close>

lemma conserves_witnesses:
  assumes "vote_view (db\<lparr>witnesses := ix\<rparr>) = vote_view db" and "wf_index (witnesses db) \<Longrightarrow> wf_index ix"
  shows "conserves db (db\<lparr>witnesses := ix\<rparr>)"
  by (intro conservesI keepsI ledger_move_same assms(1))
    (use assms(2) in \<open>auto simp: db_ok_def tables_ok_def pools_ok_def ledger_view_def sound_def solvent_def\<close>)

lemma update_witness_row_conserves:
  assumes "update_witness_row k m db = Inr db'" and "\<And>w w'. m w = Inr w' \<Longrightarrow> w_votes w' = w_votes w"
  shows "conserves db db'"
  unfolding conserves_def
proof
  assume s: "sound db"
  from assms(1) obtain ix where ix: "ix_modify witness_clash k m (witnesses db) = Inr ix" and db': "db' = db\<lparr>witnesses := ix\<rparr>"
    by (auto simp: update_witness_row_def bindE_Inr_iff)
  from ix obtain w w' where "map_of (indices (witnesses db)) k = Some w" "m w = Inr w'"
    and rows: "indices ix = put_row k w' (indices (witnesses db))" by (auto simp: ix_modify_eq_Inr)
  with assms(2) s have "vote_view db' = vote_view db"
    unfolding vote_view_def db' by (simp add: rows) (rule map_put_row_same, auto simp: sound_def db_ok_def tables_ok_def wf_index_def)
  then have "conserves db db'" unfolding db' by (rule conserves_witnesses) (rule wf_index_modify [OF _ ix])
  with s show "sound db' \<and> ledger_move 0 db db'" by (simp add: conserves_def)
qed

lemma tally_unvoted: "vote_refs db \<Longrightarrow> w \<notin> fst ` set (indices (witnesses db)) \<Longrightarrow> tally db w = 0"
proof -
  assume "vote_refs db" "w \<notin> fst ` set (indices (witnesses db))"
  then have "tally db w = row_sum (\<lambda>_. 0) (indices (witness_votes db))"
    unfolding tally_def by (intro row_sum_cong) (auto simp: vote_refs_def)
  also have "row_sum (\<lambda>_. 0) rs = 0" for rs :: "witness_vote_object rows" by (induction rs) auto
  finally show ?thesis .
qed

lemma create_internal_conserves:
  assumes "create_internal owner key db = Inr (k, db')"
  shows "conserves db db'"
  unfolding conserves_def
proof
  assume s: "sound db"
  let ?v = "new_witness_object\<lparr>w_owner := owner, w_signing_key := key, w_hardfork_time_vote := genesis_time db\<rparr>"
  from assms obtain ix where ix: "ix_emplace witness_clash (\<lambda>_. Inr ?v) (witnesses db) = Inr (k, ix)"
    and db': "db' = db\<lparr>witnesses := ix\<rparr>" by (auto simp: create_internal_def bindE_Inr_iff)
  then have k: "k \<notin> fst ` set (indices (witnesses db))" and rows: "indices ix = put_row k ?v (indices (witnesses db))"
    by (auto simp: ix_emplace_eq_Inr)
  have tally: "tally db' w = tally db w" for w by (rule tally_cong) (simp_all add: db')
  have "w_votes ?v = tally db k" using tally_unvoted [OF _ k] s by (simp add: sound_def new_witness_object_def)
  then have "votes_exact db'"
    using s unfolding sound_def votes_exact_def tally by (auto simp: direct_voters_def db' rows)
  moreover have "vote_refs db'" "proxies_settle db'" "solvent db'"
    using s by (auto simp: sound_def vote_refs_def solvent_def db' rows intro: proxies_settle_cong [of db] simp: proxy_view_def)
  moreover have m: "ledger_move 0 db db'"
    unfolding db' by (rule ledger_move_same) (auto simp: ledger_view_def tables_ok_def intro: wf_index_emplace [OF _ ix])
  ultimately show "sound db' \<and> ledger_move 0 db db'" using s by (simp add: sound_def ledger_move_def)
qed

lemma witness_update_conserves:
  assumes "witness_update_apply owner url key props db = Inr db'"
  shows "conserves db db'"
proof -
  from assms consider "create_witness owner url key props db = Inr db'" | w where "update_witness w url key props db = Inr db'"
    by (auto simp: witness_update_apply_def evaluator_simps split: if_splits)
  then show ?thesis
  proof cases
    case 1
    then obtain k db1 where "create_internal owner key db = Inr (k, db1)"
      and 2: "update_witness_row k (\<lambda>w. Inr (w\<lparr>w_url := url, w_created := head_block_time db1, w_proposed_chain_props := props\<rparr>)) db1 = Inr db'"
      by (auto simp: create_witness_def evaluator_simps)
    then have "conserves db db1" by (simp add: create_internal_conserves)
    moreover have "conserves db1 db'" by (rule update_witness_row_conserves [OF 2]) auto
    ultimately show ?thesis by (rule conserves_trans)
  next
    case 2
    then show ?thesis unfolding update_witness_def by (rule update_witness_row_conserves) auto
  qed
qed

lemma account_witness_proxy_conserves:
  assumes F: "ext_ok F" and valid: "account_witness_proxy_validate account proxy = Inr ()"
    and app: "account_witness_proxy_apply F account proxy db = Inr db'"
  shows "conserves db db'"
  unfolding conserves_def
proof
  assume s: "sound db"
  then have ok: "db_ok db" by (simp add: sound_def)
  have ne: "proxy \<noteq> account" using valid by (auto simp: account_witness_proxy_validate_def res_simps split: if_splits)
  from app obtain k a pa where k: "get_account account db = Inr k" and a: "account_at k db = Inr a"
    and changes: "a_proxy a \<noteq> proxy"
    and pa: "(if length proxy \<noteq> 0
            then bindE (get_account proxy db) (\<lambda>p. bindE (account_at p db) (\<lambda>pobj. Inr (Some (p, pobj))))
            else Inr None) = Inr pa"
    and upd: "update_voting_proxy F k pa db = Inr db'"
    unfolding account_witness_proxy_apply_def bindE_Inr_iff by (auto simp: fc_assert_Inr_iff)
  have name: "a_name a = account" by (rule get_account_name [OF k a ok])
  have proxy: "account_at pid db = Inr pobj \<and> get_account (a_name pobj) db = Inr pid \<and> pid \<noteq> k \<and>
      a_name pobj \<noteq> SCORUM_PROXY_TO_SELF_ACCOUNT" if p: "pa = Some (pid, pobj)" for pid pobj
  proof -
    from pa p have g: "get_account proxy db = Inr pid" "account_at pid db = Inr pobj" "proxy \<noteq> []"
      by (auto simp: bindE_Inr_iff split: if_splits)
    have "a_name pobj = proxy" by (rule get_account_name [OF g(1,2) ok])
    with g name ne a show ?thesis by (auto simp: SCORUM_PROXY_TO_SELF_ACCOUNT_def)
  qed
  have "a_proxy a \<noteq> SCORUM_PROXY_TO_SELF_ACCOUNT" if "pa = None"
    using pa that changes by (auto simp: bindE_Inr_iff SCORUM_PROXY_TO_SELF_ACCOUNT_def split: if_splits)
  note u = update_voting_proxy_keeps [OF F upd a [unfolded account_at_iff] this proxy]
  from u s show "sound db' \<and> ledger_move 0 db db'" by (simp add: keeps_def)
qed

text \<open>A vote is added to or taken from the table and the total of the witness.\<close>

lemma vote_change_sound:
  assumes F: "ext_ok F" and s: "sound db" and a: "map_of (indices (accounts db)) k = Some a"
    and self: "a_proxy a = SCORUM_PROXY_TO_SELF_ACCOUNT" and w: "w \<in> fst ` set (indices (witnesses db))"
    and adj: "adjust_witness_vote F w d (db\<lparr>witness_votes := ix\<rparr>) = Inr db1" and wf: "wf_index ix"
    and sum: "\<And>f. row_sum f (indices ix) = row_sum f (indices (witness_votes db)) + c * f \<lparr>wv_witness = w, wv_account = k\<rparr>"
    and rows: "\<And>v. v \<in> snd ` set (indices ix) \<Longrightarrow> v = \<lparr>wv_witness = w, wv_account = k\<rparr> \<or> v \<in> snd ` set (indices (witness_votes db))"
    and d: "d = c * weight a"
  shows "sound db1 \<and> ledger_move 0 db db1"
proof -
  obtain wit wit' where wit: "map_of (indices (witnesses db)) w = Some wit" "w_votes wit' = w_votes wit + d"
    and db1: "db1 = db\<lparr>witness_votes := ix, witnesses := (witnesses db)\<lparr>indices := put_row w wit' (indices (witnesses db))\<rparr>\<rparr>"
    using adjust_witness_vote_votes [OF F adj] by auto
  have wt: "weight_of db1 = weight_of db" by (simp add: weight_of_def db1 fun_eq_iff)
  have "tally db1 x = tally db x + c * (if x = w then weight a else 0)" for x
    unfolding tally_def wt by (simp add: db1 sum) (simp add: weight_of_def a)
  then have "\<forall>x wx. map_of (indices (witnesses db1)) x = Some wx \<longrightarrow> w_votes wx = tally db1 x"
    using s wit d by (auto simp: sound_def votes_exact_def db1 split: if_splits)
  moreover have "direct_voters db1"
    unfolding direct_voters_def
  proof (intro allI impI)
    fix v b assume v: "v \<in> snd ` set (indices (witness_votes db1))" and b: "map_of (indices (accounts db1)) (wv_account v) = Some b"
    from v have "v \<in> snd ` set (indices ix)" by (simp add: db1)
    from rows [OF this] show "a_proxy b = SCORUM_PROXY_TO_SELF_ACCOUNT"
    proof
      assume "v \<in> snd ` set (indices (witness_votes db))"
      with s b show ?thesis unfolding sound_def votes_exact_def direct_voters_def by (simp add: db1)
    qed (use b a self in \<open>simp add: db1\<close>)
  qed
  moreover have "vote_refs db1"
    unfolding vote_refs_def
  proof
    fix v assume "v \<in> snd ` set (indices (witness_votes db1))"
    then have "v \<in> snd ` set (indices ix)" by (simp add: db1)
    from rows [OF this] have "wv_witness v \<in> fst ` set (indices (witnesses db))"
    proof
      assume "v \<in> snd ` set (indices (witness_votes db))"
      with s show ?thesis unfolding sound_def vote_refs_def by blast
    qed (use w in simp)
    then show "wv_witness v \<in> fst ` set (indices (witnesses db1))" by (simp add: db1)
  qed
  moreover have "proxies_settle db1" using s by (auto simp: sound_def db1 proxy_view_def intro: proxies_settle_cong [of db])
  moreover have "solvent db1" using s by (simp add: sound_def solvent_def db1)
  moreover have "ledger_move 0 db db1"
  proof (rule ledger_move_trans [OF _ vote_move_ledger [OF adjust_witness_vote_move [OF adj]]])
    show "ledger_move 0 db (db\<lparr>witness_votes := ix\<rparr>)"
      by (rule ledger_move_same) (use wf in \<open>auto simp: ledger_view_def tables_ok_def\<close>)
  qed simp
  ultimately show ?thesis using s by (simp add: sound_def votes_exact_def ledger_move_def)
qed

lemma voted_for_conserves:
  "increase_witnesses_voted_for k db = Inr db' \<Longrightarrow> conserves db db'"
  "decrease_witnesses_voted_for k db = Inr db' \<Longrightarrow> conserves db db'"
  by (auto intro: conservesI account_flags_keep(3,4) increase_witnesses_voted_for_move decrease_witnesses_voted_for_move)

lemma witness_vote_weight_eq:
  assumes "ext_ok F" and "witness_vote_weight F a = Inr x"
  shows "x = weight a"
proof -
  have "foldE (\<lambda>x acc. safe_add F acc x) xs y = Inr z \<Longrightarrow> z = y + sum_list xs" for xs y z
    by (induction xs arbitrary: y) (fastforce simp: bindE_Inr_iff safe_iffs [OF assms(1)])+
  then show ?thesis using assms(2) by (simp add: witness_vote_weight_def weight_def)
qed

lemma update_account_votes_commute:
  "update_account k m (db\<lparr>witness_votes := ix\<rparr>) = bindE (update_account k m db) (\<lambda>d. Inr (d\<lparr>witness_votes := ix\<rparr>))"
  by (cases "ix_modify account_clash k m (accounts db)") (simp_all add: update_account_def)

lemma adjust_witness_vote_votes_commute:
  "adjust_witness_vote F w d (db\<lparr>witness_votes := ix\<rparr>) = bindE (adjust_witness_vote F w d db) (\<lambda>d. Inr (d\<lparr>witness_votes := ix\<rparr>))"
  unfolding adjust_witness_vote_def update_witness_row_def
  by (simp split: sum.splits add: bindE_def)

lemma account_witness_vote_conserves:
  assumes F: "ext_ok F" and app: "account_witness_vote_apply F account witness approve db = Inr db'"
  shows "conserves db db'"
  unfolding conserves_def
proof
  assume s: "sound db"
  then have wf: "wf_index (witness_votes db)" "wf_index (witnesses db)" by (simp_all add: sound_def db_ok_def tables_ok_def)
  note app' = app [unfolded account_witness_vote_apply_def bindE_Inr_iff]
  from app' obtain k a w where a: "map_of (indices (accounts db)) k = Some a"
    and self: "a_proxy a = SCORUM_PROXY_TO_SELF_ACCOUNT" and w: "get_witness witness db = Inr w"
    and body: "(if find_witness_vote w k db = None then
       bindE (fc_assert approve ''Vote does not exist, user must indicate a desire to approve witness.'') (\<lambda>_.
       bindE (fc_assert (a_witnesses_voted_for a < SCORUM_MAX_ACCOUNT_WITNESS_VOTES)
                ''Account has voted for too many witnesses.'') (\<lambda>_.
       bindE (ix_emplace witness_vote_clash (\<lambda>_. Inr \<lparr>wv_witness = w, wv_account = k\<rparr>) (witness_votes db)) (\<lambda>(i, ix).
       bindE (witness_vote_weight F a) (\<lambda>weight0.
       bindE (adjust_witness_vote F w weight0 (db\<lparr>witness_votes := ix\<rparr>)) (\<lambda>db.
       increase_witnesses_voted_for k db)))))
     else
       bindE (fc_assert (\<not> approve) ''Vote currently exists, user must indicate a desire to reject witness.'') (\<lambda>_.
       bindE (witness_vote_weight F a) (\<lambda>weight0.
       bindE (safe_neg F weight0) (\<lambda>neg.
       bindE (adjust_witness_vote F w neg db) (\<lambda>db.
       bindE (decrease_witnesses_voted_for k db) (\<lambda>db.
       bindE (get_witness_vote w k db) (\<lambda>i.
       bindE (ix_remove i (witness_votes db)) (\<lambda>ix.
       Inr (db\<lparr>witness_votes := ix\<rparr>))))))))) = Inr db'"
    unfolding account_at_iff fc_assert_Inr_iff by (auto simp: SCORUM_PROXY_TO_SELF_ACCOUNT_def)
  let ?v = "\<lparr>wv_witness = w, wv_account = k\<rparr>"
  have wk: "w \<in> fst ` set (indices (witnesses db))"
    using w ix_find_by_Some [of _ "witnesses db" w] wf(2) map_of_in_keys by (fastforce simp: get_witness_def ix_get_by_iff wf_index_def)
  show "sound db' \<and> ledger_move 0 db db'"
  proof (cases "find_witness_vote w k db = None")
    case True
    with body obtain i ix x db1 where ix: "ix_emplace witness_vote_clash (\<lambda>_. Inr ?v) (witness_votes db) = Inr (i, ix)"
      and x: "witness_vote_weight F a = Inr x" and adj: "adjust_witness_vote F w x (db\<lparr>witness_votes := ix\<rparr>) = Inr db1"
      and inc: "increase_witnesses_voted_for k db1 = Inr db'" by (auto simp: evaluator_simps)
    have rows: "indices ix = put_row i ?v (indices (witness_votes db))" using ix by (auto simp: ix_emplace_eq_Inr)
    have "sound db1 \<and> ledger_move 0 db db1"
    proof (rule vote_change_sound [OF F s a self wk adj, where c = 1])
      show "wf_index ix" by (rule wf_index_emplace [OF wf(1) ix])
      show "row_sum f (indices ix) = row_sum f (indices (witness_votes db)) + 1 * f ?v" for f
        using row_sum_emplace [OF ix, of f] by auto
      show "v = ?v \<or> v \<in> snd ` set (indices (witness_votes db))" if "v \<in> snd ` set (indices ix)" for v
        using that set_put_row_subset [of i ?v "indices (witness_votes db)"] unfolding rows by force
      show "x = 1 * weight a" using witness_vote_weight_eq [OF F x] by simp
    qed
    with voted_for_conserves(1) [OF inc] s show ?thesis
      unfolding conserves_def by (auto intro: ledger_move_trans)
  next
    case False
    with body obtain x n db1 db2 i ix where x: "witness_vote_weight F a = Inr x" and n: "safe_neg F x = Inr n"
      and adj: "adjust_witness_vote F w n db = Inr db1" and dec: "decrease_witnesses_voted_for k db1 = Inr db2"
      and i: "get_witness_vote w k db2 = Inr i" and ix: "ix_remove i (witness_votes db2) = Inr ix"
      and db': "db' = db2\<lparr>witness_votes := ix\<rparr>" by (auto simp: evaluator_simps)
    have wv: "witness_votes db2 = witness_votes db"
      using adjust_witness_vote_frame [OF adj] dec by (auto simp: decrease_witnesses_voted_for_def update_account_iff)
    from i obtain v where v: "map_of (indices (witness_votes db)) i = Some v" "wv_account v = k \<and> wv_witness v = w"
      using ix_find_by_Some [of _ "witness_votes db" i] wf(1) by (auto simp: get_witness_vote_def ix_get_by_iff wf_index_def wv)
    then have v: "map_of (indices (witness_votes db)) i = Some ?v" by (cases v) simp
    have adj': "adjust_witness_vote F w n (db\<lparr>witness_votes := ix\<rparr>) = Inr (db1\<lparr>witness_votes := ix\<rparr>)"
      using adj by (simp add: adjust_witness_vote_votes_commute)
    have dec': "decrease_witnesses_voted_for k (db1\<lparr>witness_votes := ix\<rparr>) = Inr db'"
      using dec by (simp add: decrease_witnesses_voted_for_def update_account_votes_commute db')
    have rows: "indices ix = drop_row i (indices (witness_votes db))" using ix by (auto simp: ix_remove_eq_Inr wv)
    have "sound (db1\<lparr>witness_votes := ix\<rparr>) \<and> ledger_move 0 db (db1\<lparr>witness_votes := ix\<rparr>)"
    proof (rule vote_change_sound [OF F s a self wk adj', where c = "- 1"])
      show "wf_index ix" by (rule wf_index_remove [OF wf(1)]) (use ix wv in simp)
      show "row_sum f (indices ix) = row_sum f (indices (witness_votes db)) + - 1 * f ?v" for f
        unfolding rows using row_sum_drop [OF _ v, of f] wf(1) by (simp add: wf_index_def)
      show "u = ?v \<or> u \<in> snd ` set (indices (witness_votes db))" if "u \<in> snd ` set (indices ix)" for u
        using that unfolding rows by (auto simp: drop_row_def)
      show "n = - 1 * weight a" using witness_vote_weight_eq [OF F x] n by (simp add: safe_iffs [OF F])
    qed
    with voted_for_conserves(2) [OF dec'] s show ?thesis
      unfolding conserves_def by (auto intro: ledger_move_trans)
  qed
qed

end
