(* ===== verification/Sample_Chain.thy ===== *)
theory Sample_Chain
  imports Account_Evaluators
begin

text \<open>
  A small chain: three accounts, one witness and no contracts. The theorems about the services
  and evaluators are applied to it, and it is shown to satisfy what they ask of a database.
\<close>

definition sample_account :: "account_name \<Rightarrow> int \<Rightarrow> int \<Rightarrow> account_object" where
  "sample_account name scr sp =
     new_account_object\<lparr>a_name := name, a_balance := SCR scr, a_scorumpower := SP sp\<rparr>"

definition no_rows :: "'v base_index" where
  "no_rows = \<lparr>next_id = 0, indices = []\<rparr>"

definition sample_fund :: reward_fund_object where
  "sample_fund = \<lparr>f_activity_reward_balance = SCR 0, f_recent_claims = 0, f_last_update = 0,
     f_author_reward_curve = Linear, f_curation_reward_curve = Square_root\<rparr>"

definition sample_balancer :: "u64 \<Rightarrow> reward_balancer_object" where
  "sample_balancer s = \<lparr>rb_balance = \<lparr>amount = 0, symbol = s\<rparr>, rb_current_per_block_reward = \<lparr>amount = 0, symbol = s\<rparr>\<rparr>"

definition sample_stat :: budget_type_stat where
  "sample_stat = \<lparr>bs_volume = SCR 0, bs_budget_pending_outgo = SCR 0, bs_owner_pending_income = SCR 0\<rparr>"

definition sample_dgp :: dynamic_global_property_object where
  "sample_dgp = \<lparr>dgp_head_block_number = 1, dgp_time = 1000, dgp_current_witness = ''carol'',
     dgp_total_supply = SCR 9010000, dgp_circulating_capital = SCR 9010000, dgp_total_scorumpower = SP 1000000,
     dgp_total_witness_reward_scr = SCR 0, dgp_total_witness_reward_sp = SP 0,
     dgp_total_pending_scr = SCR 0, dgp_total_pending_sp = SP 0, dgp_total_burned_scr = SCR 0,
     dgp_median_chain_props = default_chain_properties, dgp_current_aslot = 1, dgp_recent_slots_filled = - 1,
     dgp_participation_count = 128, dgp_last_irreversible_block_num = 0,
     dgp_majority_version = 0, dgp_banner_budgets = sample_stat, dgp_post_budgets = sample_stat,
     dgp_pending_bets_volume = SCR 0, dgp_matched_bets_volume = SCR 0\<rparr>"

definition sample_db :: database where
  "sample_db = \<lparr>
     accounts = \<lparr>next_id = 3, indices = [(0, sample_account ''alice'' 5000000 600000), (1, sample_account ''bobby'' 3000000 300000),
       (2, sample_account ''carol'' 10000 100000)]\<rparr>,
     authorities = no_rows, owner_histories = no_rows, recovery_requests = no_rows, change_recovery_requests = no_rows,
     decline_requests = no_rows, delegations = no_rows, delegation_expirations = no_rows, withdraws = no_rows, withdraw_routes = no_rows, withdraw_route_statistics = no_rows,
     witnesses = \<lparr>next_id = 1, indices = [(0, new_witness_object\<lparr>w_owner := ''carol''\<rparr>)]\<rparr>,
     witness_votes = no_rows, current_virtual_time = 0, current_shuffled_witnesses = ''carol'' # replicate 20 [], num_scheduled_witnesses = 1, genesis_time = 0, escrows = no_rows, contracts = no_rows,
     games = no_rows, pending_bets = no_rows, matched_bets = no_rows, bet_uuid_history = no_rows, game_uuid_history = no_rows,
     betting_property = \<lparr>bp_moderator = ''carol'', bp_resolve_delay_sec = 86400\<rparr>,
     fund_scr = sample_fund, fund_sp = sample_fund\<lparr>f_activity_reward_balance := SP 0\<rparr>, fund_fifa = None,
     content_reward_scr = sample_balancer SCORUM_SYMBOL, voters_reward_scr = sample_balancer SCORUM_SYMBOL,
     voters_reward_sp = sample_balancer SP_SYMBOL,
     post_budgets = no_rows, banner_budgets = no_rows,
     advertising_property = \<lparr>adv_moderator = [], auction_post_coefficients = [100, 85, 75, 65], auction_banner_coefficients = [100, 85, 75, 65]\<rparr>, fund_budget = None, registration_pool = None,
     dev_pool = \<lparr>dc_sp_balance = SP 0, dc_scr_balance = SCR 0, dc_transfer_quorum = 50, dc_invite_quorum = 60, dc_dropout_quorum = 60,
       dc_change_quorum = 60, dc_budgets_auction_properties_quorum = 60, dc_advertising_moderator_quorum = 50,
       dc_betting_moderator_quorum = 50, dc_betting_resolve_delay_quorum = 50\<rparr>, witness_reward_migration = None,
     registration_committee = no_rows, registration_bonuses = no_rows, reg_pool_delegations = no_rows,
     dev_committee = \<lparr>next_id = 2, indices = [(0, ''alice''), (1, ''bobby'')]\<rparr>, proposals = no_rows, lock_withdraw_sp_until = 0, comments = no_rows, comment_votes = no_rows,
     comment_statistics_scr = no_rows, comment_statistics_sp = no_rows, blogging_statistics = no_rows,
     dgp = sample_dgp, last_hardfork = 7, current_hardfork_version = 0, next_hardfork = 0, next_hardfork_time = 0\<rparr>"

lemma sample_db_ok: "db_ok sample_db"
  by (simp add: db_ok_def tables_ok_def pools_ok_def dgp_ok_def account_ok_def sample_db_def sample_dgp_def sample_account_def
      sample_fund_def sample_balancer_def no_rows_def wf_index_def new_account_object_def)

lemma sample_sound: "sound sample_db"
proof -
  have accs: "map_of (indices (accounts sample_db)) k = Some a \<Longrightarrow> a_proxy a = SCORUM_PROXY_TO_SELF_ACCOUNT" for k a
    by (auto simp: sample_db_def sample_account_def new_account_object_def SCORUM_PROXY_TO_SELF_ACCOUNT_def split: if_splits)
  then have "proxies_settle sample_db"
    unfolding proxies_settle_keys account_at_iff by (auto intro!: exI [of _ 0] proxy_rank.self simp: account_at_iff)
  moreover have "votes_exact sample_db"
    by (auto simp: votes_exact_def direct_voters_def tally_def sample_db_def no_rows_def new_witness_object_def split: if_splits)
  moreover have "vote_refs sample_db" by (simp add: vote_refs_def sample_db_def no_rows_def)
  moreover have "solvent sample_db"
    by (simp add: solvent_def account_solvent_def sample_db_def sample_account_def no_rows_def)
  ultimately show ?thesis using sample_db_ok by (simp add: sound_def)
qed

lemma sample_supply: "gaps sample_db = [0, 0, 0, 0, 0]" "supply_sum sample_db = amount (dgp_total_supply (dgp sample_db))"
  by (simp_all add: gaps_def supply_sum_def acc_sum_def locked_def pools_def vsf_def sample_db_def sample_dgp_def sample_account_def
      sample_fund_def sample_balancer_def no_rows_def new_account_object_def SCORUM_MAX_PROXY_RECURSION_DEPTH_def
      SCORUM_PROXY_TO_SELF_ACCOUNT_def sum_list_replicate)

text \<open>An operation that returns on a concrete database.\<close>

lemma returns: "\<not> isl m \<Longrightarrow> \<exists>x. m = Inr x"
  by (cases m) simp_all

named_theorems run_simps \<open>how the services run on a concrete database\<close>

lemmas [run_simps] =
  get_account_def find_account_def check_account_existence_def account_at_def ix_get_def ix_find_def ix_get_by_def ix_find_by_def
  update_account_def update_dgp_def ix_modify_def ix_emplace_def ix_insert_def ix_remove_def collides_def
  increase_balance_def decrease_balance_def asset_add_def asset_add_amount_def asset_sub_def asset_sub_amount_def
  asset_neg_def mk_asset_def check_symbol_def asset_ge_def asset_lt_def assertE_def
  account_clash_def head_block_time_def drop_challenged_def ext_ref_eval

lemmas [run_simps] = sample_db_def sample_dgp_def sample_account_def no_rows_def new_account_object_def

lemma sample_transfer: "\<not> isl (transfer_apply ext_ref ''alice'' ''bobby'' (SCR 1000) sample_db)"
  by (simp add: transfer_apply_def run_simps Let_def)

end
