(* ===== verification/Escrow.thy ===== *)
theory Escrow
  imports Sample_Chain
begin

text \<open>
  Escrows: the service (\<^verbatim>\<open>services/escrow.cpp\<close>), the four evaluators of
  \<^verbatim>\<open>scorum_evaluators.cpp\<close> and the block task that returns what was not ratified in time
  (\<^verbatim>\<open>database::expire_escrow_ratification\<close>). The theorems show that escrows conserve the supply,
  who can move the money of an escrow in which state, and that the fee is paid exactly once.
\<close>

section \<open>The service\<close>

definition get_escrow :: "account_name \<Rightarrow> nat \<Rightarrow> database \<Rightarrow> nat res" where
  "get_escrow name escrow_id db = ix_get_by (\<lambda>e. e_from e = name \<and> e_escrow_id e = escrow_id) (escrows db)"

definition update_escrow :: "nat \<Rightarrow> (escrow_object \<Rightarrow> escrow_object res) \<Rightarrow> database \<Rightarrow> database res" where
  "update_escrow i m db = bindE (ix_modify escrow_clash i m (escrows db)) (\<lambda>ix. Inr (db\<lparr>escrows := ix\<rparr>))"

definition remove_escrow :: "nat \<Rightarrow> database \<Rightarrow> database res" where
  "remove_escrow i db = bindE (ix_remove i (escrows db)) (\<lambda>ix. Inr (db\<lparr>escrows := ix\<rparr>))"

definition create_escrow ::
  "nat \<Rightarrow> account_name \<Rightarrow> account_name \<Rightarrow> account_name \<Rightarrow> nat \<Rightarrow> nat \<Rightarrow> asset \<Rightarrow> asset \<Rightarrow> database \<Rightarrow> database res"
where
  "create_escrow escrow_id from to agent ratification_deadline escrow_expiration scorum_amount pending_fee db =
     bindE (ix_emplace escrow_clash (\<lambda>_. Inr \<lparr>e_escrow_id = escrow_id, e_from = from, e_to = to, e_agent = agent,
              e_ratification_deadline = ratification_deadline, e_escrow_expiration = escrow_expiration,
              e_scorum_balance = scorum_amount, e_pending_fee = pending_fee,
              e_to_approved = False, e_agent_approved = False, e_disputed = False\<rparr>) (escrows db)) (\<lambda>(k, ix).
     Inr (db\<lparr>escrows := ix\<rparr>))"

definition is_approved :: "escrow_object \<Rightarrow> bool" where
  "is_approved e \<longleftrightarrow> e_to_approved e \<and> e_agent_approved e"

section \<open>The evaluators\<close>

definition escrow_transfer_apply ::
  "ext_lib \<Rightarrow> account_name \<Rightarrow> account_name \<Rightarrow> account_name \<Rightarrow> nat \<Rightarrow> asset \<Rightarrow> asset \<Rightarrow> nat \<Rightarrow> nat \<Rightarrow> database \<Rightarrow> database res"
where
  "escrow_transfer_apply F from to agent escrow_id scorum_amount fee ratification_deadline escrow_expiration db =
     bindE (get_account from db) (\<lambda>f.
     bindE (check_account_existence to db) (\<lambda>_.
     bindE (check_account_existence agent db) (\<lambda>_.
     bindE (fc_assert (ratification_deadline > head_block_time db)
              ''The escorw ratification deadline must be after head block time.'') (\<lambda>_.
     bindE (fc_assert (escrow_expiration > head_block_time db)
              ''The escrow expiration must be after head block time.'') (\<lambda>_.
     bindE (fc_assert (symbol fee = SCORUM_SYMBOL) ''Fee must be in SCR.'') (\<lambda>_.
     bindE (asset_add F scorum_amount fee) (\<lambda>scorum_spent.
     bindE (account_at f db) (\<lambda>from_account.
     bindE (assertE (asset_ge (a_balance from_account) scorum_spent) ''Account cannot cover SCR costs of escrow.'') (\<lambda>_.
     bindE (decrease_balance F f scorum_spent db) (\<lambda>db.
     create_escrow escrow_id from to agent ratification_deadline escrow_expiration scorum_amount fee db))))))))))"

definition escrow_approve_apply ::
  "ext_lib \<Rightarrow> account_name \<Rightarrow> account_name \<Rightarrow> account_name \<Rightarrow> account_name \<Rightarrow> nat \<Rightarrow> bool \<Rightarrow> database \<Rightarrow> database res"
where
  "escrow_approve_apply F from to agent who escrow_id approve db =
     bindE (get_escrow from escrow_id db) (\<lambda>i.
     bindE (ix_get (escrows db) i) (\<lambda>escrow.
     bindE (fc_assert (e_to escrow = to) ''Operation to does not match escrow to.'') (\<lambda>_.
     bindE (fc_assert (e_agent escrow = agent) ''Operation agent does not match escrow agent.'') (\<lambda>_.
     bindE (fc_assert (e_ratification_deadline escrow \<ge> head_block_time db)
              ''The escrow ratification deadline has passed. Escrow can no longer be ratified.'') (\<lambda>_.
     let reject_escrow = \<not> approve in
     bindE (if who = to then
              bindE (fc_assert (\<not> e_to_approved escrow) ''Account to has already approved the escrow.'') (\<lambda>_.
              if \<not> reject_escrow then update_escrow i (\<lambda>esc. Inr (esc\<lparr>e_to_approved := True\<rparr>)) db else Inr db)
            else Inr db) (\<lambda>db.
     bindE (ix_get (escrows db) i) (\<lambda>escrow.
     bindE (if who = agent then
              bindE (fc_assert (\<not> e_agent_approved escrow) ''Account agent has already approved the escrow.'') (\<lambda>_.
              if \<not> reject_escrow then update_escrow i (\<lambda>esc. Inr (esc\<lparr>e_agent_approved := True\<rparr>)) db else Inr db)
            else Inr db) (\<lambda>db.
     bindE (ix_get (escrows db) i) (\<lambda>escrow.
     if reject_escrow then
       bindE (get_account from db) (\<lambda>f.
       bindE (increase_balance F f (e_scorum_balance escrow) db) (\<lambda>db.
       bindE (increase_balance F f (e_pending_fee escrow) db) (\<lambda>db.
       remove_escrow i db)))
     else if e_to_approved escrow \<and> e_agent_approved escrow then
       bindE (get_account agent db) (\<lambda>a.
       bindE (increase_balance F a (e_pending_fee escrow) db) (\<lambda>db.
       update_escrow i (\<lambda>esc. Inr (esc\<lparr>e_pending_fee := (e_pending_fee esc)\<lparr>amount := 0\<rparr>\<rparr>)) db))
     else Inr db)))))))))"

definition escrow_dispute_apply ::
  "account_name \<Rightarrow> account_name \<Rightarrow> account_name \<Rightarrow> nat \<Rightarrow> database \<Rightarrow> database res"
where
  "escrow_dispute_apply from to agent escrow_id db =
     bindE (check_account_existence from db) (\<lambda>_.
     bindE (get_escrow from escrow_id db) (\<lambda>i.
     bindE (ix_get (escrows db) i) (\<lambda>e.
     bindE (fc_assert (head_block_time db < e_escrow_expiration e) ''Disputing the escrow must happen before expiration.'') (\<lambda>_.
     bindE (fc_assert (e_to_approved e \<and> e_agent_approved e)
              ''The escrow must be approved by all parties before a dispute can be raised.'') (\<lambda>_.
     bindE (fc_assert (\<not> e_disputed e) ''The escrow is already under dispute.'') (\<lambda>_.
     bindE (fc_assert (e_to e = to) ''Operation to does not match escrow to.'') (\<lambda>_.
     bindE (fc_assert (e_agent e = agent) ''Operation agent does not match escrow agent.'') (\<lambda>_.
     update_escrow i (\<lambda>esc. Inr (esc\<lparr>e_disputed := True\<rparr>)) db))))))))"

definition escrow_release_apply ::
  "ext_lib \<Rightarrow> account_name \<Rightarrow> account_name \<Rightarrow> account_name \<Rightarrow> account_name \<Rightarrow> account_name \<Rightarrow> nat \<Rightarrow> asset
   \<Rightarrow> database \<Rightarrow> database res"
where
  "escrow_release_apply F from to agent who receiver escrow_id scorum_amount db =
     bindE (check_account_existence from db) (\<lambda>_.
     bindE (get_account receiver db) (\<lambda>r.
     bindE (get_escrow from escrow_id db) (\<lambda>i.
     bindE (ix_get (escrows db) i) (\<lambda>e.
     bindE (assertE (asset_ge (e_scorum_balance e) scorum_amount) ''Release amount exceeds escrow balance.'') (\<lambda>_.
     bindE (fc_assert (e_to e = to) ''Operation to does not match escrow to.'') (\<lambda>_.
     bindE (fc_assert (e_agent e = agent) ''Operation agent does not match escrow agent.'') (\<lambda>_.
     bindE (fc_assert (receiver = e_from e \<or> receiver = e_to e) ''Funds must be released to from or to'') (\<lambda>_.
     bindE (fc_assert (e_to_approved e \<and> e_agent_approved e) ''Funds cannot be released prior to escrow approval.'') (\<lambda>_.
     bindE (if e_disputed e then
              fc_assert (who = e_agent e) ''Only agent can release funds in a disputed escrow.''
            else
              bindE (fc_assert (who = e_from e \<or> who = e_to e)
                       ''Only from and to can release funds from a non-disputed escrow'') (\<lambda>_.
              if e_escrow_expiration e > head_block_time db then
                if who = e_from e then fc_assert (receiver = e_to e) ''Only from can release funds to to.''
                else if who = e_to e then fc_assert (receiver = e_from e) ''Only to can release funds to from.''
                else Inr ()
              else Inr ())) (\<lambda>_.
     bindE (increase_balance F r scorum_amount db) (\<lambda>db.
     bindE (update_escrow i (\<lambda>esc. bindE (asset_sub F (e_scorum_balance esc) scorum_amount) (\<lambda>b.
              Inr (esc\<lparr>e_scorum_balance := b\<rparr>))) db) (\<lambda>db.
     bindE (ix_get (escrows db) i) (\<lambda>e.
     if amount (e_scorum_balance e) = 0 then remove_escrow i db else Inr db)))))))))))))"

section \<open>Expiration\<close>

text \<open>
  The ids of the escrows that are not approved and past their deadline, in the order of the
  index \<^verbatim>\<open>by_ratification_deadline\<close> (approved or not, deadline, id).
\<close>

definition unratified :: "database \<Rightarrow> nat list" where
  "unratified db =
     map fst (sort_key (\<lambda>r. e_ratification_deadline (snd r))
       (filter (\<lambda>r. \<not> is_approved (snd r) \<and> e_ratification_deadline (snd r) \<le> head_block_time db) (indices (escrows db))))"

definition expire_escrow :: "ext_lib \<Rightarrow> nat \<Rightarrow> database \<Rightarrow> database res" where
  "expire_escrow F i db =
     bindE (ix_get (escrows db) i) (\<lambda>old_escrow.
     bindE (get_account (e_from old_escrow) db) (\<lambda>f.
     bindE (asset_add F (e_scorum_balance old_escrow) (e_pending_fee old_escrow)) (\<lambda>s.
     bindE (increase_balance F f s db) (\<lambda>db.
     remove_escrow i db))))"

definition expire_escrow_ratification :: "ext_lib \<Rightarrow> database \<Rightarrow> database res" where
  "expire_escrow_ratification F db = foldE (expire_escrow F) (unratified db) db"

section \<open>The steps on the table\<close>

abbreviation put_escrow :: "nat \<Rightarrow> escrow_object \<Rightarrow> database \<Rightarrow> database" where
  "put_escrow i e db \<equiv> db\<lparr>escrows := (escrows db)\<lparr>indices := put_row i e (indices (escrows db))\<rparr>\<rparr>"

lemma get_escrow_row:
  assumes "get_escrow from escrow_id db = Inr i" and "db_ok db"
  shows "\<exists>e. map_of (indices (escrows db)) i = Some e \<and> e_from e = from \<and> e_escrow_id e = escrow_id"
  using assms ix_find_by_Some [of _ "escrows db" i]
  by (auto simp: get_escrow_def ix_get_by_iff db_ok_def tables_ok_def wf_index_def)

lemma update_escrow_iff:
  "update_escrow i m db = Inr db' \<longleftrightarrow>
     (\<exists>e e'. map_of (indices (escrows db)) i = Some e \<and> m e = Inr e' \<and>
        \<not> collides escrow_clash i e' (indices (escrows db)) \<and> db' = put_escrow i e' db)"
  by (auto simp: update_escrow_def bindE_Inr_iff ix_modify_eq_Inr)

lemma update_escrow_step:
  assumes "update_escrow i m db = Inr db'" and "map_of (indices (escrows db)) i = Some e" and "m e = Inr e'" and "escrow_ok e'"
  shows "ledger_move (escrow_sum e' - escrow_sum e) db db'" and "escrow_solvent e' \<Longrightarrow> keeps db db'"
proof -
  from assms(1) obtain ix where ix: "ix_modify escrow_clash i m (escrows db) = Inr ix" and db': "db' = db\<lparr>escrows := ix\<rparr>"
    by (auto simp: update_escrow_def bindE_Inr_iff)
  note step = escrow_custody.modify_step [OF ix assms(2-4)]
  from step(1) show "ledger_move (escrow_sum e' - escrow_sum e) db db'" unfolding db' .
  from step(2) show "keeps db db'" if "escrow_solvent e'" using that unfolding db' .
qed

lemma remove_escrow_step:
  assumes "remove_escrow i db = Inr db'" and "map_of (indices (escrows db)) i = Some e"
  shows "ledger_move (- escrow_sum e) db db'" and "keeps db db'"
  using assms(1) escrow_custody.remove_step [OF _ assms(2)] by (auto simp: remove_escrow_def bindE_Inr_iff)

lemma sound_escrow:
  assumes "sound db" and "map_of (indices (escrows db)) i = Some e"
  shows "escrow_ok e" and "escrow_solvent e"
proof -
  have "e \<in> snd ` set (indices (escrows db))" using assms(2) by (rule map_of_snd)
  with assms(1) show "escrow_ok e" "escrow_solvent e"
    using escrow_custody.tbl_ok [of db] escrow_custody.tbl_solvent [of db] by (auto simp: sound_def)
qed

lemma increase_balance_escrows [simp]:
  assumes "increase_balance F k amt db = Inr db'"
  shows "escrows db' = escrows db"
  using assms by (auto simp: increase_balance_def bindE_Inr_iff update_account_def update_dgp_def)

lemma increase_balance_escrows_commute:
  "increase_balance F k amt (db\<lparr>escrows := ix\<rparr>) = bindE (increase_balance F k amt db) (\<lambda>d. Inr (d\<lparr>escrows := ix\<rparr>))"
  by (simp add: increase_balance_def update_account_def update_dgp_def bindE_def split: sum.splits)

lemma put_row_put_row [simp]: "put_row k v (put_row k w rs) = put_row k v rs"
  by (induction rs) auto

text \<open>Paying out of an escrow that is removed afterwards.\<close>

lemma pay_and_remove_conserves:
  assumes F: "ext_ok F" and inc: "increase_balance F k amt db = Inr db1" and rem: "remove_escrow i db1 = Inr db'"
    and e: "map_of (indices (escrows db)) i = Some e" and amt: "amount amt = escrow_sum e"
  shows "conserves db db'"
  unfolding conserves_def
proof
  assume s: "sound db"
  have e1: "map_of (indices (escrows db1)) i = Some e" using e inc by simp
  have "0 \<le> amount amt" using sound_escrow(2) [OF s e] amt by (simp add: escrow_sum_def escrow_solvent_def)
  then have "keeps db db1" by (rule deposit_keeps [OF F inc])
  then have "sound db'" using s remove_escrow_step(2) [OF rem e1] by (simp add: keeps_def)
  moreover have "ledger_move 0 db db'"
    by (rule ledger_move_trans [OF increase_balance_move [OF F inc] remove_escrow_step(1) [OF rem e1]]) (simp add: amt)
  ultimately show "sound db' \<and> ledger_move 0 db db'" by simp
qed

lemma expire_escrow_conserves:
  assumes F: "ext_ok F" and "expire_escrow F i db = Inr db'"
  shows "conserves db db'"
proof -
  from assms(2) obtain e k x db1 where e: "map_of (indices (escrows db)) i = Some e"
    and x: "asset_add F (e_scorum_balance e) (e_pending_fee e) = Inr x"
    and inc: "increase_balance F k x db = Inr db1" and rem: "remove_escrow i db1 = Inr db'"
    by (auto simp: expire_escrow_def bindE_Inr_iff ix_get_iff)
  show ?thesis by (rule pay_and_remove_conserves [OF F inc rem e]) (use x F in \<open>auto simp: escrow_sum_def fc_simps\<close>)
qed

lemma expire_escrow_ratification_conserves:
  "ext_ok F \<Longrightarrow> expire_escrow_ratification F db = Inr db' \<Longrightarrow> conserves db db'"
  unfolding expire_escrow_ratification_def by (erule conserves_foldE) (rule expire_escrow_conserves)

lemma escrow_transfer_conserves:
  assumes F: "ext_ok F" and valid: "escrow_transfer_validate F from to agent fee amt rd ee json = Inr ()"
    and app: "escrow_transfer_apply F from to agent eid amt fee rd ee db = Inr db'"
  shows "conserves db db'"
proof -
  have pos: "0 < amount amt" "0 \<le> amount fee" and sym: "symbol amt = SCORUM_SYMBOL" "symbol fee = SCORUM_SYMBOL"
    and third: "agent \<noteq> from" "agent \<noteq> to"
    using valid by (auto simp: escrow_transfer_validate_def res_simps)
  from app obtain f spent a db1 where x: "asset_add F amt fee = Inr spent" and a: "account_at f db = Inr a"
    and le: "asset_ge (a_balance a) spent = Inr True" and dec: "decrease_balance F f spent db = Inr db1"
    and crt: "create_escrow eid from to agent rd ee amt fee db1 = Inr db'"
    by (auto simp: escrow_transfer_apply_def evaluator_simps)
  let ?e = "\<lparr>e_escrow_id = eid, e_from = from, e_to = to, e_agent = agent, e_ratification_deadline = rd,
     e_escrow_expiration = ee, e_scorum_balance = amt, e_pending_fee = fee,
     e_to_approved = False, e_agent_approved = False, e_disputed = False\<rparr>"
  from crt obtain k ix where ix: "ix_emplace escrow_clash (\<lambda>_. Inr ?e) (escrows db1) = Inr (k, ix)"
    and db': "db' = db1\<lparr>escrows := ix\<rparr>" by (auto simp: create_escrow_def bindE_Inr_iff)
  have ok: "escrow_ok ?e" "escrow_solvent ?e" using pos sym third by (simp_all add: escrow_ok_def escrow_solvent_def)
  have "keeps db db1" by (rule decrease_balance_keeps [OF F dec]) (use a le in \<open>auto simp: res_simps\<close>)
  moreover have "keeps db1 db'" unfolding db' by (rule escrow_custody.emplace_step(2) [OF ix ok])
  moreover have "ledger_move 0 db db'"
    unfolding db'
    by (rule ledger_move_trans [OF decrease_balance_move [OF F dec] escrow_custody.emplace_step(1) [OF ix ok(1)]])
      (use x F in \<open>auto simp: escrow_sum_def fc_simps\<close>)
  ultimately show ?thesis by (intro conservesI) (auto intro: keeps_trans)
qed

lemma escrow_dispute_conserves:
  assumes "escrow_dispute_apply from to agent eid db = Inr db'"
  shows "conserves db db'"
  unfolding conserves_def
proof
  assume s: "sound db"
  from assms obtain i e where e: "map_of (indices (escrows db)) i = Some e" and ap: "e_to_approved e \<and> e_agent_approved e"
    and upd: "update_escrow i (\<lambda>esc. Inr (esc\<lparr>e_disputed := True\<rparr>)) db = Inr db'"
    by (auto simp: escrow_dispute_apply_def evaluator_simps ix_get_iff)
  let ?e = "e\<lparr>e_disputed := True\<rparr>"
  have ok: "escrow_ok ?e" "escrow_solvent ?e" "escrow_sum ?e = escrow_sum e"
    using sound_escrow [OF s e] ap by (simp_all add: escrow_ok_def escrow_solvent_def escrow_sum_def)
  from update_escrow_step [OF upd e refl ok(1)] ok s show "sound db' \<and> ledger_move 0 db db'" by (simp add: keeps_def)
qed

section \<open>Approval\<close>

text \<open>The escrow with the approval of \<open>who\<close> noted.\<close>

definition approved_by :: "account_name \<Rightarrow> escrow_object \<Rightarrow> escrow_object" where
  "approved_by who e = e\<lparr>e_to_approved := e_to_approved e \<or> who = e_to e, e_agent_approved := e_agent_approved e \<or> who = e_agent e\<rparr>"

lemma escrow_approve_cases:
  assumes app: "escrow_approve_apply F from to agent who eid approve db = Inr db'" and ok: "db_ok db"
    and who: "who = to \<or> who = agent"
  obtains
    (reject) i e f db1 db2 where "\<not> approve" "get_escrow from eid db = Inr i" "map_of (indices (escrows db)) i = Some e"
      "e_to e = to" "e_agent e = agent" "e_from e = from" "\<not> is_approved e" "get_account from db = Inr f"
      "increase_balance F f (e_scorum_balance e) db = Inr db1" "increase_balance F f (e_pending_fee e) db1 = Inr db2"
      "remove_escrow i db2 = Inr db'"
  | (ratify) i e a db1 where "approve" "get_escrow from eid db = Inr i" "map_of (indices (escrows db)) i = Some e"
      "e_to e = to" "e_agent e = agent" "e_from e = from" "\<not> is_approved e" "is_approved (approved_by who e)"
      "get_account agent db = Inr a" "increase_balance F a (e_pending_fee e) db = Inr db1"
      "db' = put_escrow i ((approved_by who e)\<lparr>e_pending_fee := (e_pending_fee e)\<lparr>amount := 0\<rparr>\<rparr>) db1"
  | (wait) i e where "approve" "get_escrow from eid db = Inr i" "map_of (indices (escrows db)) i = Some e"
      "e_to e = to" "e_agent e = agent" "e_from e = from" "\<not> is_approved e" "\<not> is_approved (approved_by who e)"
      "db' = put_escrow i (approved_by who e) db" "who = to \<longrightarrow> \<not> e_to_approved e" "who = agent \<longrightarrow> \<not> e_agent_approved e"
proof -
  from app obtain i e d1 e1 d2 e2 where i: "get_escrow from eid db = Inr i" and e: "map_of (indices (escrows db)) i = Some e"
    and to: "e_to e = to" and ag: "e_agent e = agent"
    and 1: "(if who = to then
              bindE (fc_assert (\<not> e_to_approved e) ''Account to has already approved the escrow.'') (\<lambda>_.
              if \<not> \<not> approve then update_escrow i (\<lambda>esc. Inr (esc\<lparr>e_to_approved := True\<rparr>)) db else Inr db)
            else Inr db) = Inr d1" and e1: "map_of (indices (escrows d1)) i = Some e1"
    and 2: "(if who = agent then
              bindE (fc_assert (\<not> e_agent_approved e1) ''Account agent has already approved the escrow.'') (\<lambda>_.
              if \<not> \<not> approve then update_escrow i (\<lambda>esc. Inr (esc\<lparr>e_agent_approved := True\<rparr>)) d1 else Inr d1)
            else Inr d1) = Inr d2" and e2: "map_of (indices (escrows d2)) i = Some e2"
    and 3: "(if \<not> approve then
       bindE (get_account from d2) (\<lambda>f.
       bindE (increase_balance F f (e_scorum_balance e2) d2) (\<lambda>db.
       bindE (increase_balance F f (e_pending_fee e2) db) (\<lambda>db.
       remove_escrow i db)))
     else if e_to_approved e2 \<and> e_agent_approved e2 then
       bindE (get_account agent d2) (\<lambda>a.
       bindE (increase_balance F a (e_pending_fee e2) d2) (\<lambda>db.
       update_escrow i (\<lambda>esc. Inr (esc\<lparr>e_pending_fee := (e_pending_fee esc)\<lparr>amount := 0\<rparr>\<rparr>)) db))
     else Inr d2) = Inr db'"
    unfolding escrow_approve_apply_def Let_def bindE_Inr_iff ix_get_iff fc_assert_Inr_iff by (elim exE conjE) (rule that)
  have frm: "e_from e = from" using get_escrow_row [OF i ok] e by auto
  have nt: "who = to \<longrightarrow> \<not> e_to_approved e" "who = agent \<longrightarrow> \<not> e_agent_approved e"
    using 1 2 e e1 by (auto simp: bindE_Inr_iff fc_assert_Inr_iff update_escrow_iff split: if_splits)
  have na: "\<not> is_approved e"
    using 1 2 e e1 who to by (auto simp: is_approved_def bindE_Inr_iff fc_assert_Inr_iff update_escrow_iff split: if_splits)
  show thesis
  proof (cases approve)
    case False
    then have "d2 = db" "e2 = e" using 1 2 e e1 e2 by (auto simp: bindE_Inr_iff split: if_splits)
    with 3 False i e to ag frm na show thesis by (auto simp: bindE_Inr_iff intro: reject)
  next
    case True
    then have d2: "d2 = put_escrow i (approved_by who e) db"
      using 1 2 e e1 who to ag
      by (auto simp: bindE_Inr_iff fc_assert_Inr_iff update_escrow_iff approved_by_def split: if_splits)
    then have e2: "e2 = approved_by who e" using e2 by simp
    show thesis
    proof (cases "is_approved (approved_by who e)")
      case ap: True
      with 3 True obtain a d3 where a: "get_account agent d2 = Inr a"
        and inc: "increase_balance F a (e_pending_fee e) d2 = Inr d3"
        and upd: "update_escrow i (\<lambda>esc. Inr (esc\<lparr>e_pending_fee := (e_pending_fee esc)\<lparr>amount := 0\<rparr>\<rparr>)) d3 = Inr db'"
        by (auto simp: e2 is_approved_def bindE_Inr_iff approved_by_def)
      from inc obtain db1 where db1: "increase_balance F a (e_pending_fee e) db = Inr db1"
        and d3: "d3 = db1\<lparr>escrows := (escrows db)\<lparr>indices := put_row i (approved_by who e) (indices (escrows db))\<rparr>\<rparr>"
        by (auto simp: d2 increase_balance_escrows_commute bindE_Inr_iff)
      have "db' = put_escrow i ((approved_by who e)\<lparr>e_pending_fee := (e_pending_fee e)\<lparr>amount := 0\<rparr>\<rparr>) db1"
        using upd db1 by (auto simp: update_escrow_iff d3) (auto simp: approved_by_def)
      moreover have "get_account agent db = Inr a" using a by (simp add: d2 get_account_def)
      ultimately show thesis using True i e to ag frm na ap db1 by (intro ratify)
    next
      case False
      then show thesis using 3 True i e to ag frm na d2 nt by (intro wait) (auto simp: e2 is_approved_def)
    qed
  qed
qed

lemma escrow_approve_conserves:
  assumes F: "ext_ok F" and valid: "escrow_approve_validate from to agent who = Inr ()"
    and app: "escrow_approve_apply F from to agent who eid approve db = Inr db'"
  shows "conserves db db'"
  unfolding conserves_def
proof
  assume s: "sound db"
  then have ok: "db_ok db" by (simp add: sound_def)
  have who: "who = to \<or> who = agent" using valid by (simp add: escrow_approve_validate_def res_simps)
  from app ok who show "sound db' \<and> ledger_move 0 db db'"
  proof (cases rule: escrow_approve_cases)
    case (reject i e f db1 db2)
    have e2: "map_of (indices (escrows db2)) i = Some e" using reject(3,9,10) by simp
    have "0 \<le> amount (e_scorum_balance e)" "0 \<le> amount (e_pending_fee e)"
      using sound_escrow(2) [OF s reject(3)] by (simp_all add: escrow_solvent_def)
    then have "sound db'"
      using deposit_keeps [OF F reject(9)] deposit_keeps [OF F reject(10)] remove_escrow_step(2) [OF reject(11) e2] s
      by (simp add: keeps_def)
    moreover have "ledger_move 0 db db'"
      by (rule ledger_move_trans [OF ledger_move_trans [OF increase_balance_move [OF F reject(9)]
              increase_balance_move [OF F reject(10)] refl] remove_escrow_step(1) [OF reject(11) e2]]) (simp add: escrow_sum_def)
    ultimately show ?thesis by simp
  next
    case (ratify i e a db1)
    let ?e = "(approved_by who e)\<lparr>e_pending_fee := (e_pending_fee e)\<lparr>amount := 0\<rparr>\<rparr>"
    note se = sound_escrow [OF s ratify(3)]
    have e1: "map_of (indices (escrows db1)) i = Some e" using ratify(3,10) by simp
    have ok: "escrow_ok ?e" "escrow_solvent ?e"
      using se by (simp_all add: approved_by_def escrow_ok_def escrow_solvent_def)
    have "0 \<le> amount (e_pending_fee e)" using se(2) by (simp add: escrow_solvent_def)
    then have "sound db'"
      using deposit_keeps [OF F ratify(10)] escrow_custody.put_step(2) [OF e1 ok] s unfolding ratify(11) by (simp add: keeps_def)
    moreover have "ledger_move 0 db db'"
      unfolding ratify(11)
      by (rule ledger_move_trans [OF increase_balance_move [OF F ratify(10)] escrow_custody.put_step(1) [OF e1 ok(1)]])
        (simp add: escrow_sum_def approved_by_def)
    ultimately show ?thesis by simp
  next
    case (wait i e)
    let ?e = "approved_by who e"
    have ok: "escrow_ok ?e" "escrow_solvent ?e" "escrow_sum ?e = escrow_sum e"
      using sound_escrow [OF s wait(3)] wait(8)
      by (auto simp: approved_by_def escrow_ok_def escrow_solvent_def escrow_sum_def is_approved_def)
    show ?thesis
      using escrow_custody.put_step [OF wait(3) ok(1)] ok(2,3) s unfolding wait(9) by (simp add: keeps_def)
  qed
qed

section \<open>Release\<close>

text \<open>Who may release to whom, as the checks of the evaluator have it.\<close>

definition may_release :: "nat \<Rightarrow> escrow_object \<Rightarrow> account_name \<Rightarrow> account_name \<Rightarrow> bool" where
  "may_release now e who receiver \<longleftrightarrow>
     is_approved e \<and> receiver \<in> {e_from e, e_to e} \<and>
     (if e_disputed e then who = e_agent e
      else who \<in> {e_from e, e_to e} \<and>
        (now < e_escrow_expiration e \<longrightarrow> (if who = e_from e then receiver = e_to e else receiver = e_from e)))"

lemma escrow_release_cases:
  assumes F: "ext_ok F" and app: "escrow_release_apply F from to agent who receiver eid amt db = Inr db'" and ok: "db_ok db"
  obtains i e r db1 where "get_escrow from eid db = Inr i" "map_of (indices (escrows db)) i = Some e"
    "e_from e = from" "e_to e = to" "e_agent e = agent" "amount amt \<le> amount (e_scorum_balance e)"
    "may_release (head_block_time db) e who receiver"
    "get_account receiver db = Inr r" "increase_balance F r amt db = Inr db1"
    "let e' = e\<lparr>e_scorum_balance := (e_scorum_balance e)\<lparr>amount := amount (e_scorum_balance e) - amount amt\<rparr>\<rparr>
     in if amount (e_scorum_balance e) = amount amt then remove_escrow i (put_escrow i e' db1) = Inr db'
        else db' = put_escrow i e' db1"
proof -
  from app obtain r i e db1 d e2 where r: "get_account receiver db = Inr r" and i: "get_escrow from eid db = Inr i"
    and e: "map_of (indices (escrows db)) i = Some e" and le: "asset_ge (e_scorum_balance e) amt = Inr True"
    and to: "e_to e = to" and ag: "e_agent e = agent" and rcv: "receiver = e_from e \<or> receiver = e_to e"
    and ap: "e_to_approved e \<and> e_agent_approved e"
    and may: "(if e_disputed e then
              fc_assert (who = e_agent e) ''Only agent can release funds in a disputed escrow.''
            else
              bindE (fc_assert (who = e_from e \<or> who = e_to e)
                       ''Only from and to can release funds from a non-disputed escrow'') (\<lambda>_.
              if e_escrow_expiration e > head_block_time db then
                if who = e_from e then fc_assert (receiver = e_to e) ''Only from can release funds to to.''
                else if who = e_to e then fc_assert (receiver = e_from e) ''Only to can release funds to from.''
                else Inr ()
              else Inr ())) = Inr ()"
    and inc: "increase_balance F r amt db = Inr db1"
    and upd: "update_escrow i (\<lambda>esc. bindE (asset_sub F (e_scorum_balance esc) amt) (\<lambda>b.
              Inr (esc\<lparr>e_scorum_balance := b\<rparr>))) db1 = Inr d"
    and e2: "map_of (indices (escrows d)) i = Some e2"
    and fin: "(if amount (e_scorum_balance e2) = 0 then remove_escrow i d else Inr d) = Inr db'"
    unfolding escrow_release_apply_def bindE_Inr_iff ix_get_iff fc_assert_Inr_iff assertE_iff
    by (elim exE conjE) (rule that; (assumption | simp)?)
  let ?e = "e\<lparr>e_scorum_balance := (e_scorum_balance e)\<lparr>amount := amount (e_scorum_balance e) - amount amt\<rparr>\<rparr>"
  have d: "d = put_escrow i ?e db1"
    using upd e inc F by (auto simp: update_escrow_iff bindE_Inr_iff fc_simps)
  with e2 have e2: "e2 = ?e" by simp
  have "may_release (head_block_time db) e who receiver"
    using may ap rcv by (auto simp: may_release_def is_approved_def bindE_Inr_iff fc_assert_Inr_iff split: if_splits)
  moreover have "e_from e = from" using get_escrow_row [OF i ok] e by auto
  ultimately show thesis
    using that [OF i e _ to ag _ _ r inc] le fin by (auto simp: e2 d res_simps split: if_splits)
qed

lemma escrow_release_conserves:
  assumes F: "ext_ok F" and valid: "escrow_release_validate from to agent who receiver amt = Inr ()"
    and app: "escrow_release_apply F from to agent who receiver eid amt db = Inr db'"
  shows "conserves db db'"
  unfolding conserves_def
proof
  assume s: "sound db"
  have pos: "0 \<le> amount amt" using valid by (simp add: escrow_release_validate_def res_simps)
  obtain i e r db1 where e: "map_of (indices (escrows db)) i = Some e" and le: "amount amt \<le> amount (e_scorum_balance e)"
    and may: "may_release (head_block_time db) e who receiver" and inc: "increase_balance F r amt db = Inr db1"
    and fin: "let e' = e\<lparr>e_scorum_balance := (e_scorum_balance e)\<lparr>amount := amount (e_scorum_balance e) - amount amt\<rparr>\<rparr>
     in if amount (e_scorum_balance e) = amount amt then remove_escrow i (put_escrow i e' db1) = Inr db'
        else db' = put_escrow i e' db1"
    by (rule escrow_release_cases [OF F app]) (use s in \<open>auto simp: sound_def\<close>)
  let ?e = "e\<lparr>e_scorum_balance := (e_scorum_balance e)\<lparr>amount := amount (e_scorum_balance e) - amount amt\<rparr>\<rparr>"
  note se = sound_escrow [OF s e]
  have e1: "map_of (indices (escrows db1)) i = Some e" using e inc by simp
  have ok: "escrow_ok ?e" "escrow_solvent ?e" using se le by (auto simp: escrow_ok_def escrow_solvent_def)
  have "sound (put_escrow i ?e db1)"
    using deposit_keeps [OF F inc pos] escrow_custody.put_step(2) [OF e1 ok] s by (simp add: keeps_def)
  moreover have m: "ledger_move 0 db (put_escrow i ?e db1)"
    by (rule ledger_move_trans [OF increase_balance_move [OF F inc] escrow_custody.put_step(1) [OF e1 ok(1)]])
      (simp add: escrow_sum_def)
  ultimately show "sound db' \<and> ledger_move 0 db db'"
  proof (cases "amount (e_scorum_balance e) = amount amt")
    case True
    with fin have rem: "remove_escrow i (put_escrow i ?e db1) = Inr db'" by (simp add: Let_def)
    have e2: "map_of (indices (escrows (put_escrow i ?e db1))) i = Some ?e" by simp
    have "escrow_sum ?e = 0"
      using True se(2) may by (simp add: escrow_sum_def escrow_solvent_def may_release_def is_approved_def)
    with remove_escrow_step [OF rem e2] \<open>sound (put_escrow i ?e db1)\<close> m show ?thesis
      by (auto simp: keeps_def intro: ledger_move_trans)
  qed (use fin in \<open>simp add: Let_def\<close>)
qed

section \<open>The life of an escrow\<close>

text \<open>
  The abstract escrow: offered with the approvals so far, its balance and its fee; ratified or
  disputed with its balance; closed. A step pays out to the parties.
\<close>

datatype phase = Offered bool bool int int | Ratified int | Disputed int | Closed

datatype party = Sender | Recipient | Agent

inductive escrow_step :: "phase \<Rightarrow> (party \<times> int) list \<Rightarrow> phase \<Rightarrow> bool" where
  withdraw: "\<not> (t \<and> a) \<Longrightarrow> escrow_step (Offered t a b f) [(Sender, b + f)] Closed"
| accept_to: "escrow_step (Offered False False b f) [] (Offered True False b f)"
| accept_agent: "escrow_step (Offered False False b f) [] (Offered False True b f)"
| ratify: "t \<noteq> a \<Longrightarrow> escrow_step (Offered t a b f) [(Agent, f)] (Ratified b)"
| dispute: "escrow_step (Ratified b) [] (Disputed b)"
| release: "p \<noteq> Agent \<Longrightarrow> 0 \<le> x \<Longrightarrow> x \<le> b \<Longrightarrow> escrow_step (Ratified b) [(p, x)] (if x = b then Closed else Ratified (b - x))"
| settle: "p \<noteq> Agent \<Longrightarrow> 0 \<le> x \<Longrightarrow> x \<le> b \<Longrightarrow> escrow_step (Disputed b) [(p, x)] (if x = b then Closed else Disputed (b - x))"

inductive_simps escrow_step_Closed: "escrow_step Closed ps q"

inductive escrow_run :: "phase \<Rightarrow> (party \<times> int) list \<Rightarrow> phase \<Rightarrow> bool" where
  stay: "escrow_run p [] p"
| go: "escrow_run p ps q \<Longrightarrow> escrow_step q qs r \<Longrightarrow> escrow_run p (ps @ qs) r"

fun held :: "phase \<Rightarrow> int" where
  "held (Offered t a b f) = b + f"
| "held (Ratified b) = b"
| "held (Disputed b) = b"
| "held Closed = 0"

definition paid :: "(party \<Rightarrow> bool) \<Rightarrow> (party \<times> int) list \<Rightarrow> int" where
  "paid P ps = sum_list (map snd (filter (P \<circ> fst) ps))"

lemma paid_simps [simp]:
  "paid P [] = 0" "paid P (r # ps) = (if P (fst r) then snd r else 0) + paid P ps" "paid P (ps @ qs) = paid P ps + paid P qs"
  by (simp_all add: paid_def)

definition escrow_phase :: "escrow_object option \<Rightarrow> phase" where
  "escrow_phase oe = (case oe of None \<Rightarrow> Closed | Some e \<Rightarrow>
     if \<not> is_approved e then Offered (e_to_approved e) (e_agent_approved e) (amount (e_scorum_balance e)) (amount (e_pending_fee e))
     else if e_disputed e then Disputed (amount (e_scorum_balance e))
     else Ratified (amount (e_scorum_balance e)))"

fun party_name :: "escrow_object \<Rightarrow> party \<Rightarrow> account_name" where
  "party_name e Sender = e_from e"
| "party_name e Recipient = e_to e"
| "party_name e Agent = e_agent e"

text \<open>
  A concrete step on the escrow \<open>i\<close> that stood in the table as \<open>e\<close> implements an abstract one:
  every balance grows by exactly what the abstract step pays to that account.
\<close>

definition implements_step :: "nat \<Rightarrow> escrow_object \<Rightarrow> database \<Rightarrow> database \<Rightarrow> bool" where
  "implements_step i e db db' \<longleftrightarrow>
     (\<exists>ps. escrow_step (escrow_phase (Some e)) ps (escrow_phase (map_of (indices (escrows db')) i)) \<and>
        (\<forall>n. balance_of n db' = balance_of n db + paid (\<lambda>p. party_name e p = n) ps) \<and>
        (\<forall>j. j \<noteq> i \<longrightarrow> map_of (indices (escrows db')) j = map_of (indices (escrows db)) j))"

lemma implements_stepI:
  assumes "escrow_step (escrow_phase (Some e)) ps (escrow_phase (map_of (indices (escrows db')) i))"
    and "\<And>n. balance_of n db' = balance_of n db + paid (\<lambda>p. party_name e p = n) ps"
    and "\<And>j. j \<noteq> i \<Longrightarrow> map_of (indices (escrows db')) j = map_of (indices (escrows db)) j"
  shows "implements_step i e db db'"
  using assms unfolding implements_step_def by blast

lemma balance_of_escrows [simp]: "balance_of n (db\<lparr>escrows := ix\<rparr>) = balance_of n db"
  by (rule balance_of_cong) simp

lemma remove_escrow_effect:
  assumes "remove_escrow i db = Inr db'"
  shows "balance_of n db' = balance_of n db"
    and "map_of (indices (escrows db')) j = (if j = i then None else map_of (indices (escrows db)) j)"
  using assms by (auto simp: remove_escrow_def bindE_Inr_iff ix_remove_eq_Inr)

text \<open>Along any run nothing is lost, and the agent is paid the fee once or not at all.\<close>

lemma escrow_step_held: "escrow_step p ps q \<Longrightarrow> held q + paid (\<lambda>_. True) ps = held p"
  by (induction rule: escrow_step.induct) auto

lemma escrow_run_held: "escrow_run p ps q \<Longrightarrow> held q + paid (\<lambda>_. True) ps = held p"
  by (induction rule: escrow_run.induct) (auto dest: escrow_step_held)

lemma escrow_run_fee:
  assumes "escrow_run (Offered False False b f) ps q"
  shows "(\<exists>t a. q = Offered t a b f \<and> \<not> (t \<and> a) \<and> paid (\<lambda>p. p = Agent) ps = 0) \<or>
    (\<exists>b'. q \<in> {Ratified b', Disputed b'} \<and> paid (\<lambda>p. p = Agent) ps = f) \<or>
    (q = Closed \<and> paid (\<lambda>p. p = Agent) ps \<in> {0, f})"
  using assms
proof (induction "Offered False False b f" ps q rule: escrow_run.induct)
  case (go ps q qs r)
  from go.hyps(3) go.hyps(2) show ?case by (cases rule: escrow_step.cases) auto
qed auto

text \<open>The evaluators implement the abstract steps.\<close>

lemma phase_put [simp]: "map_of (indices (escrows (put_escrow i e db))) j = (if j = i then Some e else map_of (indices (escrows db)) j)"
  by simp

lemma dispute_refines:
  assumes "escrow_dispute_apply from to agent eid db = Inr db'"
  shows "\<exists>i e. map_of (indices (escrows db)) i = Some e \<and> implements_step i e db db'"
proof -
  from assms obtain i e where e: "map_of (indices (escrows db)) i = Some e" "is_approved e" "\<not> e_disputed e"
    and db': "db' = put_escrow i (e\<lparr>e_disputed := True\<rparr>) db"
    by (auto simp: escrow_dispute_apply_def evaluator_simps ix_get_iff update_escrow_iff is_approved_def)
  have "implements_step i e db db'"
    unfolding db'
    by (rule implements_stepI [where ps = "[]"])
      (use e escrow_step.dispute in \<open>auto simp: escrow_phase_def is_approved_def\<close>)
  with e show ?thesis by blast
qed

lemma expire_refines:
  assumes F: "ext_ok F" and ok: "db_ok db" and e: "map_of (indices (escrows db)) i = Some e" "\<not> is_approved e"
    and "expire_escrow F i db = Inr db'"
  shows "implements_step i e db db'"
proof -
  from assms(5) e obtain k x db1 where k: "get_account (e_from e) db = Inr k"
    and x: "asset_add F (e_scorum_balance e) (e_pending_fee e) = Inr x"
    and inc: "increase_balance F k x db = Inr db1" and rem: "remove_escrow i db1 = Inr db'"
    by (auto simp: expire_escrow_def bindE_Inr_iff ix_get_iff)
  note eff = increase_balance_effect [OF F ok k inc] remove_escrow_effect [OF rem]
  show ?thesis
  proof (rule implements_stepI)
    show "escrow_step (escrow_phase (Some e)) [(Sender, amount (e_scorum_balance e) + amount (e_pending_fee e))]
        (escrow_phase (map_of (indices (escrows db')) i))"
      using e(2) by (auto simp: eff(5) escrow_phase_def is_approved_def intro!: escrow_step.withdraw)
  qed (use eff inc x F in \<open>auto simp: fc_simps\<close>)
qed


text \<open>An escrow on the sample chain, offered and ratified.\<close>

definition sample_escrow :: "bool \<Rightarrow> escrow_object" where
  "sample_escrow ratified = \<lparr>e_escrow_id = 7, e_from = ''alice'', e_to = ''bobby'', e_agent = ''carol'',
     e_ratification_deadline = 2000, e_escrow_expiration = 3000, e_scorum_balance = SCR 1000,
     e_pending_fee = SCR (if ratified then 0 else 10),
     e_to_approved = True, e_agent_approved = ratified, e_disputed = False\<rparr>"

definition sample_escrow_db :: "bool \<Rightarrow> database" where
  "sample_escrow_db ratified = sample_db\<lparr>escrows := \<lparr>next_id = 1, indices = [(0, sample_escrow ratified)]\<rparr>\<rparr>"

lemma sample_escrow_sound: "sound (sample_escrow_db r)"
proof -
  have "keeps sample_db (sample_escrow_db r)"
    unfolding sample_escrow_db_def
    by (rule escrow_custody.replace_keeps) (simp_all add: wf_index_def sample_escrow_def escrow_ok_def escrow_solvent_def)
  with sample_sound show ?thesis by (simp add: keeps_def)
qed

lemmas [run_simps] = sample_escrow_db_def sample_escrow_def get_escrow_def update_escrow_def remove_escrow_def escrow_clash_def
  Let_def drop_row_def

lemma valid_names: "is_valid_account_name ''alice''" "is_valid_account_name ''bobby''" "is_valid_account_name ''carol''"
  by code_simp+


text \<open>
  C26: a release goes through only on an approved escrow, to its sender or its recipient, at the
  order of the agent if it is disputed and of one of the two sides if not, and before the
  expiration only to the other side. It is one of the abstract steps: it moves exactly the
  released amount, at most the balance of the escrow, to the receiver.
\<close>
theorem escrow_release_refines:
  assumes F: "ext_ok F" and s: "sound db" and valid: "escrow_release_validate from to agent who receiver amt = Inr ()"
    and app: "escrow_release_apply F from to agent who receiver eid amt db = Inr db'"
  shows "\<exists>i e. get_escrow from eid db = Inr i \<and> map_of (indices (escrows db)) i = Some e \<and>
    may_release (head_block_time db) e who receiver \<and> implements_step i e db db' \<and>
    balance_of receiver db' = balance_of receiver db + amount amt"
proof -
  have ok: "db_ok db" using s by (simp add: sound_def)
  have pos: "0 \<le> amount amt" using valid by (simp add: escrow_release_validate_def res_simps)
  obtain i e r db1 where i: "get_escrow from eid db = Inr i" and e: "map_of (indices (escrows db)) i = Some e"
    and le: "amount amt \<le> amount (e_scorum_balance e)"
    and may: "may_release (head_block_time db) e who receiver" and r: "get_account receiver db = Inr r"
    and inc: "increase_balance F r amt db = Inr db1"
    and fin: "let e' = e\<lparr>e_scorum_balance := (e_scorum_balance e)\<lparr>amount := amount (e_scorum_balance e) - amount amt\<rparr>\<rparr>
     in if amount (e_scorum_balance e) = amount amt then remove_escrow i (put_escrow i e' db1) = Inr db'
        else db' = put_escrow i e' db1"
    by (rule escrow_release_cases [OF F app ok]) blast
  let ?e = "e\<lparr>e_scorum_balance := (e_scorum_balance e)\<lparr>amount := amount (e_scorum_balance e) - amount amt\<rparr>\<rparr>"
  let ?p = "if receiver = e_from e then Sender else Recipient"
  note eff = increase_balance_effect [OF F ok r inc]
  have rows: "map_of (indices (escrows db')) j =
      (if j = i then (if amount amt = amount (e_scorum_balance e) then None else Some ?e) else map_of (indices (escrows db)) j)" for j
    using fin inc remove_escrow_effect(2) [of i "put_escrow i ?e db1" db' j] by (auto simp: Let_def split: if_splits)
  have bal: "balance_of n db' = balance_of n db + (if n = receiver then amount amt else 0)" for n
    using fin eff(1) [of n] remove_escrow_effect(1) [of i "put_escrow i ?e db1" db' n] by (auto simp: Let_def split: if_splits)
  have name: "party_name e ?p = receiver" "?p \<noteq> Agent" using may by (auto simp: may_release_def)
  have "implements_step i e db db'"
  proof (rule implements_stepI)
    show "escrow_step (escrow_phase (Some e)) [(?p, amount amt)] (escrow_phase (map_of (indices (escrows db')) i))"
      using escrow_step.release [OF name(2) pos le] escrow_step.settle [OF name(2) pos le] may
      by (auto simp: rows escrow_phase_def may_release_def is_approved_def)
    show "balance_of n db' = balance_of n db + paid (\<lambda>p. party_name e p = n) [(?p, amount amt)]" for n
      using name(1) by (simp add: bal)
  qed (simp add: rows)
  with i e may bal show ?thesis by auto
qed

theorem escrow_release_refines_witness:
  "\<exists>db'. escrow_release_apply ext_ref ''alice'' ''bobby'' ''carol'' ''alice'' ''bobby'' 7 (SCR 400) (sample_escrow_db True) = Inr db' \<and>
     (\<exists>i e. get_escrow ''alice'' 7 (sample_escrow_db True) = Inr i \<and>
        map_of (indices (escrows (sample_escrow_db True))) i = Some e \<and>
        may_release (head_block_time (sample_escrow_db True)) e ''alice'' ''bobby'' \<and>
        implements_step i e (sample_escrow_db True) db' \<and>
        balance_of ''bobby'' db' = balance_of ''bobby'' (sample_escrow_db True) + 400)"
proof -
  have "\<not> isl (escrow_release_apply ext_ref ''alice'' ''bobby'' ''carol'' ''alice'' ''bobby'' 7 (SCR 400) (sample_escrow_db True))"
    by (simp add: escrow_release_apply_def run_simps)
  then obtain db' where db': "escrow_release_apply ext_ref ''alice'' ''bobby'' ''carol'' ''alice'' ''bobby'' 7 (SCR 400) (sample_escrow_db True) = Inr db'"
    using returns by blast
  have "escrow_release_validate ''alice'' ''bobby'' ''carol'' ''alice'' ''bobby'' (SCR 400) = Inr ()"
    by (simp add: escrow_release_validate_def validate_account_name_def valid_names)
  from db' escrow_release_refines [OF ext_ok_ref sample_escrow_sound this db'] show ?thesis by auto
qed

end
