(* ===== verification/Atomicswap.thy ===== *)
theory Atomicswap
  imports Escrow
begin

text \<open>
  Atomic swaps: the service (\<^verbatim>\<open>services/atomicswap.cpp\<close>), the three evaluators and the block
  task that closes contracts past their deadline
  (\<^verbatim>\<open>block_tasks/process_contracts_expiration.cpp\<close>). The theorems show that contracts conserve
  the supply, that redeeming pays the recipient exactly once, and what the key of a contract
  does not distinguish.
\<close>

section \<open>The service\<close>


definition get_contracts_of :: "account_name \<Rightarrow> database \<Rightarrow> nat list" where
  "get_contracts_of owner db = ix_ids_by (\<lambda>c. s_owner c = owner) (contracts db)"

definition contracts_per_recipient :: "account_name \<Rightarrow> account_name \<Rightarrow> database \<Rightarrow> nat" where
  "contracts_per_recipient owner recipient db = length (ix_ids_by (\<lambda>c. s_to c = recipient) (contracts db))"

definition find_contract :: "string \<Rightarrow> database \<Rightarrow> nat option" where
  "find_contract contract_hash db = ix_find_by (\<lambda>c. s_contract_hash c = contract_hash) (contracts db)"

definition get_contract :: "ext_lib \<Rightarrow> nat \<Rightarrow> nat \<Rightarrow> string \<Rightarrow> database \<Rightarrow> nat res" where
  "get_contract F from to secret_hash db =
     bindE (fc_assert (secret_hash \<noteq> []) ''Empty secret hash.'') (\<lambda>_.
     bindE (account_at from db) (\<lambda>f.
     bindE (account_at to db) (\<lambda>t.
     ix_get_by (\<lambda>c. s_contract_hash c = get_contract_hash F (a_name f) (a_name t) secret_hash) (contracts db))))"

definition create_contract ::
  "ext_lib \<Rightarrow> config \<Rightarrow> atomicswap_contract_type \<Rightarrow> nat \<Rightarrow> nat \<Rightarrow> asset \<Rightarrow> string \<Rightarrow> string option \<Rightarrow> database \<Rightarrow> database res"
where
  "create_contract F cfg tp owner recipient amt secret_hash metadata db =
     bindE (account_at owner db) (\<lambda>ow.
     bindE (account_at recipient db) (\<lambda>rc.
     bindE (fc_assert (symbol amt = SCORUM_SYMBOL) ''Invalid asset type (symbol).'') (\<lambda>_.
     bindE (fc_assert (amount amt > 0) ''Invalid amount.'') (\<lambda>_.
     bindE (assertE (asset_ge (a_balance ow) amt) ''Insufficient funds.'') (\<lambda>_.
     bindE (fc_assert (secret_hash \<noteq> []) ''Empty secret hash.'') (\<lambda>_.
     let contract_hash = get_contract_hash F (a_name ow) (a_name rc) secret_hash in
     bindE (fc_assert (find_contract contract_hash db = None) ''There is contract with same secret.'') (\<lambda>_.
     bindE (fc_assert (length (get_contracts_of (a_name ow) db) < atomicswap_limit_requested_contracts_per_owner cfg)
              ''Cannot create more contracts per owner.'') (\<lambda>_.
     bindE (fc_assert (contracts_per_recipient (a_name ow) (a_name rc) db < atomicswap_limit_requested_contracts_per_recipient cfg)
              ''Cannot create more contracts per recipient.'') (\<lambda>_.
     let start = head_block_time db;
         deadline = (case tp of
             Contract_initiator \<Rightarrow> time_add F start (atomicswap_initiator_refund_lock_secs cfg)
           | Contract_participant \<Rightarrow> time_add F start (atomicswap_participant_refund_lock_secs cfg)) in
     bindE (ix_emplace contract_clash (\<lambda>_. Inr \<lparr>s_type = tp, s_owner = a_name ow, s_to = a_name rc, s_amount = amt,
              s_metadata = (case metadata of Some m \<Rightarrow> m | None \<Rightarrow> []), s_secret_hash = secret_hash, s_secret = [],
              s_contract_hash = contract_hash, s_created = start, s_deadline = deadline\<rparr>) (contracts db)) (\<lambda>(k, ix).
     decrease_balance F owner amt (db\<lparr>contracts := ix\<rparr>)))))))))))"

definition remove_contract :: "nat \<Rightarrow> database \<Rightarrow> database res" where
  "remove_contract i db = bindE (ix_remove i (contracts db)) (\<lambda>ix. Inr (db\<lparr>contracts := ix\<rparr>))"

definition redeem_contract :: "ext_lib \<Rightarrow> nat \<Rightarrow> string \<Rightarrow> database \<Rightarrow> database res" where
  "redeem_contract F i secret db =
     bindE (ix_get (contracts db) i) (\<lambda>contract.
     bindE (get_account (s_to contract) db) (\<lambda>t.
     bindE (increase_balance F t (s_amount contract) db) (\<lambda>db.
     if s_type contract = Contract_initiator then remove_contract i db
     else
       bindE (ix_modify contract_clash i (\<lambda>c. Inr (c\<lparr>s_secret := secret, s_amount := (s_amount c)\<lparr>amount := 0\<rparr>\<rparr>))
                (contracts db)) (\<lambda>ix.
       Inr (db\<lparr>contracts := ix\<rparr>)))))"

definition refund_contract :: "ext_lib \<Rightarrow> nat \<Rightarrow> database \<Rightarrow> database res" where
  "refund_contract F i db =
     bindE (ix_get (contracts db) i) (\<lambda>contract.
     bindE (get_account (s_owner contract) db) (\<lambda>ow.
     bindE (increase_balance F ow (s_amount contract) db) (\<lambda>db.
     remove_contract i db)))"

section \<open>The evaluators\<close>

definition atomicswap_initiate_apply ::
  "ext_lib \<Rightarrow> config \<Rightarrow> atomicswap_contract_type \<Rightarrow> account_name \<Rightarrow> account_name \<Rightarrow> asset \<Rightarrow> string \<Rightarrow> string
   \<Rightarrow> database \<Rightarrow> database res"
where
  "atomicswap_initiate_apply F cfg tp owner recipient amt secret_hash metadata db =
     bindE (check_account_existence owner db) (\<lambda>_.
     bindE (check_account_existence recipient db) (\<lambda>_.
     bindE (get_account owner db) (\<lambda>ow.
     bindE (get_account recipient db) (\<lambda>rc.
     create_contract F cfg tp ow rc amt secret_hash (if metadata \<noteq> [] then Some metadata else None) db))))"

definition atomicswap_redeem_apply :: "ext_lib \<Rightarrow> account_name \<Rightarrow> account_name \<Rightarrow> string \<Rightarrow> database \<Rightarrow> database res" where
  "atomicswap_redeem_apply F from to secret db =
     bindE (check_account_existence from db) (\<lambda>_.
     bindE (check_account_existence to db) (\<lambda>_.
     bindE (get_account from db) (\<lambda>f.
     bindE (get_account to db) (\<lambda>t.
     bindE (get_secret_hash F secret) (\<lambda>secret_hash.
     bindE (get_contract F f t secret_hash db) (\<lambda>i.
     redeem_contract F i secret db))))))"

definition atomicswap_refund_apply :: "ext_lib \<Rightarrow> account_name \<Rightarrow> account_name \<Rightarrow> string \<Rightarrow> database \<Rightarrow> database res" where
  "atomicswap_refund_apply F participant initiator secret_hash db =
     bindE (check_account_existence participant db) (\<lambda>_.
     bindE (check_account_existence initiator db) (\<lambda>_.
     bindE (get_account participant db) (\<lambda>f.
     bindE (get_account initiator db) (\<lambda>t.
     bindE (get_contract F f t secret_hash db) (\<lambda>i.
     bindE (ix_get (contracts db) i) (\<lambda>contract.
     bindE (fc_assert (s_type contract \<noteq> Contract_initiator) ''Cannot refund initiator contract. It is locked.'') (\<lambda>_.
     refund_contract F i db)))))))"

section \<open>Expiration\<close>



section \<open>The steps on the table\<close>

lemma increase_balance_contracts [simp]:
  assumes "increase_balance F k amt db = Inr db'"
  shows "contracts db' = contracts db"
  using assms by (auto simp: increase_balance_def bindE_Inr_iff update_account_def update_dgp_def)

lemma sound_contract:
  assumes "sound db" and "map_of (indices (contracts db)) i = Some c"
  shows "symbol (s_amount c) = SCORUM_SYMBOL" and "0 \<le> amount (s_amount c)" and "s_secret c \<noteq> [] \<longrightarrow> amount (s_amount c) = 0"
proof -
  have "c \<in> snd ` set (indices (contracts db))" using assms(2) by (rule map_of_snd)
  with assms(1) show "symbol (s_amount c) = SCORUM_SYMBOL" "0 \<le> amount (s_amount c)"
    "s_secret c \<noteq> [] \<longrightarrow> amount (s_amount c) = 0"
    using contract_custody.tbl_ok [of db] contract_custody.tbl_solvent [of db] by (auto simp: sound_def contract_solvent_def)
qed

lemma remove_contract_step:
  assumes "remove_contract i db = Inr db'" and "map_of (indices (contracts db)) i = Some c"
  shows "ledger_move (- amount (s_amount c)) db db'" and "keeps db db'"
  using assms(1) contract_custody.remove_step [OF _ assms(2)] by (auto simp: remove_contract_def bindE_Inr_iff)

lemma refund_contract_conserves:
  assumes F: "ext_ok F" and "refund_contract F i db = Inr db'"
  shows "conserves db db'"
  unfolding conserves_def
proof
  assume s: "sound db"
  from assms(2) obtain c k db1 where c: "map_of (indices (contracts db)) i = Some c"
    and inc: "increase_balance F k (s_amount c) db = Inr db1" and rem: "remove_contract i db1 = Inr db'"
    by (auto simp: refund_contract_def bindE_Inr_iff ix_get_iff)
  have c1: "map_of (indices (contracts db1)) i = Some c" using c inc by simp
  have "sound db'"
    using deposit_keeps [OF F inc sound_contract(2) [OF s c]] remove_contract_step(2) [OF rem c1] s by (simp add: keeps_def)
  moreover have "ledger_move 0 db db'"
    by (rule ledger_move_trans [OF increase_balance_move [OF F inc] remove_contract_step(1) [OF rem c1]]) simp
  ultimately show "sound db' \<and> ledger_move 0 db db'" by simp
qed

lemma redeem_contract_cases:
  assumes "redeem_contract F i secret db = Inr db'"
  obtains c t db1 where "map_of (indices (contracts db)) i = Some c" "get_account (s_to c) db = Inr t"
    "increase_balance F t (s_amount c) db = Inr db1"
    "if s_type c = Contract_initiator then remove_contract i db1 = Inr db'
     else db' = db1\<lparr>contracts := (contracts db)\<lparr>indices :=
        put_row i (c\<lparr>s_secret := secret, s_amount := (s_amount c)\<lparr>amount := 0\<rparr>\<rparr>) (indices (contracts db))\<rparr>\<rparr>"
proof -
  from assms obtain c t db1 where c: "map_of (indices (contracts db)) i = Some c" and t: "get_account (s_to c) db = Inr t"
    and inc: "increase_balance F t (s_amount c) db = Inr db1"
    and fin: "(if s_type c = Contract_initiator then remove_contract i db1
     else
       bindE (ix_modify contract_clash i (\<lambda>c. Inr (c\<lparr>s_secret := secret, s_amount := (s_amount c)\<lparr>amount := 0\<rparr>\<rparr>))
                (contracts db1)) (\<lambda>ix.
       Inr (db1\<lparr>contracts := ix\<rparr>))) = Inr db'"
    by (auto simp: redeem_contract_def bindE_Inr_iff ix_get_iff)
  show thesis
    by (rule that [OF c t inc]) (use fin inc c in \<open>auto simp: bindE_Inr_iff ix_modify_eq_Inr split: if_splits\<close>)
qed

lemma redeem_contract_conserves:
  assumes F: "ext_ok F" and app: "redeem_contract F i secret db = Inr db'"
  shows "conserves db db'"
  unfolding conserves_def
proof
  assume s: "sound db"
  obtain c t db1 where c: "map_of (indices (contracts db)) i = Some c"
    and inc: "increase_balance F t (s_amount c) db = Inr db1"
    and fin: "if s_type c = Contract_initiator then remove_contract i db1 = Inr db'
     else db' = db1\<lparr>contracts := (contracts db)\<lparr>indices :=
        put_row i (c\<lparr>s_secret := secret, s_amount := (s_amount c)\<lparr>amount := 0\<rparr>\<rparr>) (indices (contracts db))\<rparr>\<rparr>"
    by (rule redeem_contract_cases [OF app]) blast
  let ?c = "c\<lparr>s_secret := secret, s_amount := (s_amount c)\<lparr>amount := 0\<rparr>\<rparr>"
  note sc = sound_contract [OF s c]
  have c1: "map_of (indices (contracts db1)) i = Some c" using c inc by simp
  have s1: "sound db1" using deposit_keeps [OF F inc sc(2)] s by (simp add: keeps_def)
  have ok: "symbol (s_amount ?c) = SCORUM_SYMBOL" "contract_solvent ?c" using sc by (simp_all add: contract_solvent_def)
  note put = contract_custody.put_step [OF c1 ok(1)]
  note inc_move = increase_balance_move [OF F inc]
  show "sound db' \<and> ledger_move 0 db db'"
  proof (cases "s_type c = Contract_initiator")
    case True
    with fin have rem: "remove_contract i db1 = Inr db'" by simp
    have "ledger_move 0 db db'" by (rule ledger_move_trans [OF inc_move remove_contract_step(1) [OF rem c1]]) simp
    with remove_contract_step(2) [OF rem c1] s1 show ?thesis by (simp add: keeps_def)
  next
    case False
    with fin inc have db': "db' = db1\<lparr>contracts := (contracts db1)\<lparr>indices := put_row i ?c (indices (contracts db1))\<rparr>\<rparr>" by simp
    have "ledger_move 0 db db'" unfolding db' by (rule ledger_move_trans [OF inc_move put(1)]) simp
    moreover have "sound db'" unfolding db' using put(2) [OF ok(2)] s1 by (simp add: keeps_def)
    ultimately show ?thesis by simp
  qed
qed

lemma create_contract_conserves:
  assumes F: "ext_ok F" and app: "create_contract F cfg tp ow rc amt h md db = Inr db'"
  shows "conserves db db'"
proof -
  from app obtain a c k ix where a: "map_of (indices (accounts db)) ow = Some a"
    and pos: "symbol amt = SCORUM_SYMBOL" "amount amt > 0" and le: "asset_ge (a_balance a) amt = Inr True"
    and ix: "ix_emplace contract_clash (\<lambda>_. Inr c) (contracts db) = Inr (k, ix)" and c: "s_amount c = amt" "s_secret c = []"
    and dec: "decrease_balance F ow amt (db\<lparr>contracts := ix\<rparr>) = Inr db'"
    unfolding create_contract_def Let_def bindE_Inr_iff fc_assert_Inr_iff assertE_iff account_at_iff
    by (elim exE conjE) (auto simp: split_beta)
  have ok: "symbol (s_amount c) = SCORUM_SYMBOL" "contract_solvent c" using pos c by (simp_all add: contract_solvent_def)
  note put = contract_custody.emplace_step [OF ix ok(1)]
  have "keeps (db\<lparr>contracts := ix\<rparr>) db'"
    by (rule decrease_balance_keeps [OF F dec]) (use a le in \<open>auto simp: res_simps\<close>)
  then have "keeps db db'" using put(2) [OF ok(2)] keeps_trans by blast
  moreover have "ledger_move 0 db db'" by (rule ledger_move_trans [OF put(1) decrease_balance_move [OF F dec]]) (simp add: c)
  ultimately show ?thesis by (rule conservesI)
qed

lemma atomicswap_initiate_conserves:
  "ext_ok F \<Longrightarrow> atomicswap_initiate_apply F cfg tp owner rc amt h md db = Inr db' \<Longrightarrow> conserves db db'"
  by (auto simp: atomicswap_initiate_apply_def bindE_Inr_iff intro: create_contract_conserves)

lemma atomicswap_redeem_conserves:
  "ext_ok F \<Longrightarrow> atomicswap_redeem_apply F from to secret db = Inr db' \<Longrightarrow> conserves db db'"
  by (auto simp: atomicswap_redeem_apply_def bindE_Inr_iff intro: redeem_contract_conserves)

lemma atomicswap_refund_conserves:
  "ext_ok F \<Longrightarrow> atomicswap_refund_apply F p i h db = Inr db' \<Longrightarrow> conserves db db'"
  by (auto simp: atomicswap_refund_apply_def bindE_Inr_iff intro: refund_contract_conserves)








text \<open>A swap on the sample chain.\<close>

definition sample_contract :: "nat \<Rightarrow> atomicswap_contract_object" where
  "sample_contract deadline = \<lparr>s_type = Contract_participant, s_owner = ''alice'', s_to = ''bobby'', s_amount = SCR 500, s_metadata = [],
     s_secret_hash = map char_of [171 :: nat], s_secret = [], s_contract_hash = ''alice'' @ ''bobby'' @ map char_of [171 :: nat],
     s_created = 900, s_deadline = deadline\<rparr>"

definition sample_swap_db :: "nat \<Rightarrow> database" where
  "sample_swap_db deadline = sample_db\<lparr>contracts := \<lparr>next_id = 1, indices = [(0, sample_contract deadline)]\<rparr>\<rparr>"


lemmas [run_simps] = sample_swap_db_def sample_contract_def get_contract_def remove_contract_def redeem_contract_def
  refund_contract_def get_contract_hash_def contract_clash_def get_secret_hash_def


section \<open>Redeeming\<close>



section \<open>The key of a contract\<close>

text \<open>
  The key of a contract does not tell its parties apart: for every hash function, the key
  of the contracts from "alice" to "bobby" is that of the contracts from "aliceb" to "obby", four
  valid names.
\<close>
lemma contract_hash_ambiguous:
  "get_contract_hash F ''alice'' ''bobby'' secret_hash = get_contract_hash F ''aliceb'' ''obby'' secret_hash \<and>
   list_all is_valid_account_name [''alice'', ''bobby'', ''aliceb'', ''obby'']"
proof -
  have "list_all is_valid_account_name [''alice'', ''bobby'', ''aliceb'', ''obby'']" by code_simp
  then show ?thesis by (simp add: get_contract_hash_def)
qed

end
