(* ===== verification/Supply_Invariants.thy ===== *)
theory Supply_Invariants
  imports Sample_Chain
begin

text \<open>
  \<^verbatim>\<open>database::validate_invariants\<close>, the check of the supply that the node can run on every block:
  it adds up everything the chain holds and compares the sums with the totals of the dynamic
  global properties. The theorem shows when it passes: exactly when the ledger of
  \<open>Supply_Ledger\<close> balances.
\<close>

section \<open>The check\<close>

text \<open>Everything that is added up after the accounts, in the order of the code.\<close>

definition supply_terms :: "database \<Rightarrow> asset list" where
  "supply_terms db =
     concat (map (\<lambda>r. [e_scorum_balance (snd r), e_pending_fee (snd r)]) (indices (escrows db))) @
     [f_activity_reward_balance (fund_scr db), SCR (amount (f_activity_reward_balance (fund_sp db)))] @
     (case fund_fifa db of None \<Rightarrow> [] | Some f \<Rightarrow> [SCR (amount (f_activity_reward_balance f))]) @
     [SCR (amount (dgp_total_scorumpower (dgp db))), dgp_total_burned_scr (dgp db), rb_balance (content_reward_scr db),
      rb_balance (voters_reward_scr db), SCR (amount (rb_balance (voters_reward_sp db)))] @
     concat (map (\<lambda>r. [ab_balance (snd r), ab_owner_pending_income (snd r), ab_budget_pending_outgo (snd r)])
       (indices (post_budgets db))) @
     concat (map (\<lambda>r. [ab_balance (snd r), ab_owner_pending_income (snd r), ab_budget_pending_outgo (snd r)])
       (indices (banner_budgets db))) @
     (case fund_budget db of None \<Rightarrow> [] | Some b \<Rightarrow> [SCR (amount (fb_balance b))]) @
     (case registration_pool db of None \<Rightarrow> [] | Some p \<Rightarrow> [rp_balance p, SCR (amount (rp_delegated p))]) @
     [SCR (amount (dc_sp_balance (dev_pool db))), dc_scr_balance (dev_pool db)] @
     (case witness_reward_migration db of None \<Rightarrow> [] | Some x \<Rightarrow> [SCR x]) @
     map (\<lambda>r. s_amount (snd r)) (indices (contracts db)) @
     concat (map (\<lambda>r. [b_stake (m_bet1_data (snd r)), b_stake (m_bet2_data (snd r))]) (indices (matched_bets db))) @
     map (\<lambda>r. b_stake (p_data (snd r))) (indices (pending_bets db))"

definition add_terms :: "ext_lib \<Rightarrow> asset list \<Rightarrow> asset \<Rightarrow> asset res" where
  "add_terms F xs s = foldE (\<lambda>x t. asset_add F t x) xs s"

definition asset_maximum :: "u64 \<Rightarrow> asset" where
  "asset_maximum s = \<lparr>amount = SCORUM_MAX_SHARE_SUPPLY, symbol = s\<rparr>"

definition validate_invariants :: "ext_lib \<Rightarrow> database \<Rightarrow> unit res" where
  "validate_invariants F db =
     (let gpo = dgp db in
     bindE (accounts_circulating_capital F db) (\<lambda>circ.
     bindE (add_terms F [t_scr circ, t_pending_scr circ, SCR (amount (t_pending_sp circ))] (SCR 0)) (\<lambda>s0.
     bindE (foldE (\<lambda>r _. fc_assert (w_votes (snd r) \<le> amount (dgp_total_scorumpower gpo)) ''votes'') (indices (witnesses db)) ()) (\<lambda>_.
     bindE (add_terms F (supply_terms db) s0) (\<lambda>total_supply.
     bindE (assertE (asset_le total_supply (asset_maximum SCORUM_SYMBOL)) ''Assets SCR overflow'') (\<lambda>_.
     bindE (assertE (asset_le (t_sp circ) (asset_maximum SP_SYMBOL)) ''Assets SP overflow'') (\<lambda>_.
     bindE (fc_assert (dgp_total_supply gpo = total_supply) ''gpo.total_supply'') (\<lambda>_.
     bindE (fc_assert (dgp_total_scorumpower gpo = t_sp circ) ''gpo.total_scorumpower'') (\<lambda>_.
     bindE (safe_sub F (amount (dgp_circulating_capital gpo)) (amount (dgp_total_scorumpower gpo))) (\<lambda>x.
     bindE (fc_assert (x = amount (t_scr circ)) ''gpo.circulating_capital'') (\<lambda>_.
     bindE (fc_assert (amount (dgp_total_scorumpower gpo) = t_vsf_votes circ) ''total_vsf_votes'') (\<lambda>_.
     bindE (fc_assert (dgp_total_pending_scr gpo = t_pending_scr circ) ''total_pending_scr'') (\<lambda>_.
     fc_assert (dgp_total_pending_sp gpo = t_pending_sp circ) ''total_pending_sp'')))))))))))))"

section \<open>Nothing negative\<close>

definition account_nonneg :: "account_object \<Rightarrow> bool" where
  "account_nonneg a \<longleftrightarrow> 0 \<le> amount (a_balance a) \<and> 0 \<le> amount (a_scorumpower a) \<and> 0 \<le> amount (a_pending_scr_reward a) \<and>
     0 \<le> amount (a_pending_sp_reward a) \<and> list_all ((\<le>) 0) (a_proxied_vsf_votes a)"

definition nothing_negative :: "database \<Rightarrow> bool" where
  "nothing_negative db \<longleftrightarrow>
     list_all (\<lambda>r. account_nonneg (snd r)) (indices (accounts db)) \<and> list_all (\<lambda>x. 0 \<le> amount x) (supply_terms db)"

lemma add_terms_iff:
  assumes "ext_ok F" and "list_all (\<lambda>x. symbol x = SCORUM_SYMBOL \<and> 0 \<le> amount x) xs" and "0 \<le> n" and "in_i64 n"
  shows "add_terms F xs (SCR n) = Inr t \<longleftrightarrow> t = SCR (n + sum_list (map amount xs)) \<and> n + sum_list (map amount xs) < 2 ^ 63"
  using assms(2-)
proof (induction xs arbitrary: n)
  case Nil
  then show ?case by (auto simp: add_terms_def in_i64_def)
next
  case (Cons x xs)
  have pos: "0 \<le> sum_list (map amount xs)" using Cons.prems(1) by (intro sum_list_nonneg) (auto simp: list_all_iff)
  show ?case
  proof (cases "in_i64 (n + amount x)")
    case True
    have "add_terms F (x # xs) (SCR n) = add_terms F xs (SCR (n + amount x))"
      using Cons.prems True by (simp add: add_terms_def asset_add_def asset_add_amount_def safe_returns [OF assms(1)])
    also have "\<dots> = Inr t \<longleftrightarrow> t = SCR (n + amount x + sum_list (map amount xs)) \<and> n + amount x + sum_list (map amount xs) < 2 ^ 63"
      using Cons.prems True by (intro Cons.IH) simp_all
    finally show ?thesis by (simp add: add.assoc)
  next
    case False
    then have "\<not> add_terms F (x # xs) (SCR n) = Inr t"
      using assms(1) by (auto simp: add_terms_def bindE_Inr_iff fc_simps)
    moreover have "\<not> n + (amount x + sum_list (map amount xs)) < 2 ^ 63"
      using False Cons.prems pos by (auto simp: in_i64_def)
    ultimately show ?thesis by simp
  qed
qed

section \<open>The totals of the accounts\<close>

lemma foldE_safe_add_iff:
  assumes "ext_ok F" and "list_all ((\<le>) 0) xs" and "0 \<le> n" and "in_i64 n"
  shows "foldE (\<lambda>x acc. safe_add F acc x) xs n = Inr y \<longleftrightarrow> y = n + sum_list xs \<and> n + sum_list xs < 2 ^ 63"
  using assms(2-)
proof (induction xs arbitrary: n)
  case Nil
  then show ?case by (auto simp: in_i64_def)
next
  case (Cons x xs)
  have pos: "0 \<le> sum_list xs" using Cons.prems(1) by (intro sum_list_nonneg) (auto simp: list_all_iff)
  show ?case
  proof (cases "in_i64 (n + x)")
    case True
    have "foldE (\<lambda>x acc. safe_add F acc x) xs (n + x) = Inr y \<longleftrightarrow> y = n + x + sum_list xs \<and> n + x + sum_list xs < 2 ^ 63"
      using Cons.prems True by (intro Cons.IH) simp_all
    then show ?thesis by (simp add: safe_returns [OF assms(1)] True add.assoc)
  next
    case False
    then have "\<not> safe_add F n x = Inr z" for z using assms(1) by (simp add: safe_iffs)
    moreover have "\<not> n + (x + sum_list xs) < 2 ^ 63" using False Cons.prems pos by (auto simp: in_i64_def)
    ultimately show ?thesis by (simp add: bindE_Inr_iff)
  qed
qed

lemma vsf_nonneg: "account_ok a \<Longrightarrow> account_nonneg a \<Longrightarrow> 0 \<le> vsf a"
  by (auto simp: vsf_def account_nonneg_def account_ok_def SCORUM_MAX_PROXY_RECURSION_DEPTH_def list_all_length
      intro!: add_nonneg_nonneg sum_list_nonneg) (auto simp: in_set_conv_nth)

lemma account_vsf_votes_iff:
  assumes "ext_ok F" and "account_nonneg a" and "amount (a_scorumpower a) < 2 ^ 63"
  shows "account_vsf_votes F a = Inr v \<longleftrightarrow>
    v = vsf a \<and> (a_proxy a = SCORUM_PROXY_TO_SELF_ACCOUNT \<longrightarrow> vsf a < 2 ^ 63)"
proof (cases "a_proxy a = SCORUM_PROXY_TO_SELF_ACCOUNT")
  case True
  have "foldE (\<lambda>x acc. safe_add F acc x) (a_proxied_vsf_votes a) (amount (a_scorumpower a)) = Inr v \<longleftrightarrow>
      v = amount (a_scorumpower a) + sum_list (a_proxied_vsf_votes a) \<and>
      amount (a_scorumpower a) + sum_list (a_proxied_vsf_votes a) < 2 ^ 63"
    by (rule foldE_safe_add_iff [OF assms(1)]) (use assms(2,3) in \<open>simp_all add: account_nonneg_def in_i64_def\<close>)
  then show ?thesis using True by (simp add: account_vsf_votes_def witness_vote_weight_def vsf_def)
qed (auto simp: account_vsf_votes_def vsf_def)

definition totals :: "int \<Rightarrow> int \<Rightarrow> int \<Rightarrow> int \<Rightarrow> int \<Rightarrow> accounts_total" where
  "totals x y z u v = \<lparr>t_scr = SCR x, t_sp = SP y, t_pending_scr = SCR z, t_pending_sp = SP u, t_vsf_votes = v\<rparr>"

lemma add_account_total_iff:
  assumes F: "ext_ok F" and ok: "account_ok a" "account_nonneg a" and t: "0 \<le> x" "0 \<le> y" "0 \<le> z" "0 \<le> u" "0 \<le> v"
  shows "add_account_total F a (totals x y z u v) = Inr t' \<longleftrightarrow>
    t' = totals (x + amount (a_balance a)) (y + amount (a_scorumpower a)) (z + amount (a_pending_scr_reward a))
           (u + amount (a_pending_sp_reward a)) (v + vsf a) \<and>
    x + amount (a_balance a) < 2 ^ 63 \<and> y + amount (a_scorumpower a) < 2 ^ 63 \<and> z + amount (a_pending_scr_reward a) < 2 ^ 63 \<and>
    u + amount (a_pending_sp_reward a) < 2 ^ 63 \<and> v + vsf a < 2 ^ 63"
    (is "_ \<longleftrightarrow> ?eq \<and> ?b1 \<and> ?b2 \<and> ?b3 \<and> ?b4 \<and> ?b5")
proof -
  have nn: "0 \<le> amount (a_balance a)" "0 \<le> amount (a_scorumpower a)" "0 \<le> amount (a_pending_scr_reward a)"
    "0 \<le> amount (a_pending_sp_reward a)" "0 \<le> vsf a"
    using ok vsf_nonneg by (auto simp: account_nonneg_def)
  have rng: "0 \<le> i \<Longrightarrow> in_i64 i \<longleftrightarrow> i < 2 ^ 63" for i by (auto simp: in_i64_def)
  show ?thesis
  proof (cases "?b2 \<and> ?b5")
    case True
    then have "account_vsf_votes F a = Inr w \<longleftrightarrow> w = vsf a" for w
      using account_vsf_votes_iff [OF F ok(2)] t nn by auto
    then show ?thesis
      using ok(1) nn t True unfolding add_account_total_def totals_def
      by (auto simp: bindE_Inr_iff asset_add_iff [OF F] safe_iffs [OF F] account_ok_def rng)
  next
    case False
    have "\<not> add_account_total F a (totals x y z u v) = Inr t'"
    proof
      assume "add_account_total F a (totals x y z u v) = Inr t'"
      then obtain w where "in_i64 (y + amount (a_scorumpower a))" "account_vsf_votes F a = Inr w" "in_i64 (v + w)"
        by (auto simp: add_account_total_def totals_def bindE_Inr_iff asset_add_iff [OF F] safe_iffs [OF F])
      moreover from this have "w = vsf a" using account_vsf_votes_iff [OF F ok(2), of w] t nn by (simp add: rng)
      ultimately show False using False t nn by (simp add: rng)
    qed
    with False show ?thesis by blast
  qed
qed

lemma add_accounts_iff:
  assumes F: "ext_ok F" and "list_all (\<lambda>a. account_ok a \<and> account_nonneg a) as"
    and "0 \<le> x" "0 \<le> y" "0 \<le> z" "0 \<le> u" "0 \<le> v" and "x < 2 ^ 63" "y < 2 ^ 63" "z < 2 ^ 63" "u < 2 ^ 63" "v < 2 ^ 63"
  defines "S \<equiv> \<lambda>f. sum_list (map f as)"
  shows "foldE (add_account_total F) as (totals x y z u v) = Inr t' \<longleftrightarrow>
    t' = totals (x + S (\<lambda>a. amount (a_balance a))) (y + S (\<lambda>a. amount (a_scorumpower a)))
           (z + S (\<lambda>a. amount (a_pending_scr_reward a))) (u + S (\<lambda>a. amount (a_pending_sp_reward a))) (v + S vsf) \<and>
    x + S (\<lambda>a. amount (a_balance a)) < 2 ^ 63 \<and> y + S (\<lambda>a. amount (a_scorumpower a)) < 2 ^ 63 \<and>
    z + S (\<lambda>a. amount (a_pending_scr_reward a)) < 2 ^ 63 \<and> u + S (\<lambda>a. amount (a_pending_sp_reward a)) < 2 ^ 63 \<and>
    v + S vsf < 2 ^ 63"
  using assms(2-12) unfolding S_def
proof (induction as arbitrary: x y z u v)
  case Nil
  then show ?case by auto
next
  case (Cons a as)
  have a: "account_ok a" "account_nonneg a" and as: "list_all (\<lambda>a. account_ok a \<and> account_nonneg a) as"
    using Cons.prems(1) by simp_all
  have nn: "0 \<le> amount (a_balance a)" "0 \<le> amount (a_scorumpower a)" "0 \<le> amount (a_pending_scr_reward a)"
    "0 \<le> amount (a_pending_sp_reward a)" "0 \<le> vsf a"
    using a vsf_nonneg by (auto simp: account_nonneg_def)
  have ss: "0 \<le> sum_list (map (\<lambda>a. amount (a_balance a)) as)" "0 \<le> sum_list (map (\<lambda>a. amount (a_scorumpower a)) as)"
    "0 \<le> sum_list (map (\<lambda>a. amount (a_pending_scr_reward a)) as)" "0 \<le> sum_list (map (\<lambda>a. amount (a_pending_sp_reward a)) as)"
    "0 \<le> sum_list (map vsf as)"
    using as by (auto simp: list_all_iff account_nonneg_def intro!: sum_list_nonneg vsf_nonneg)
  note one = add_account_total_iff [OF F a Cons.prems(2-6)]
  show ?case
  proof (cases "x + amount (a_balance a) < 2 ^ 63 \<and> y + amount (a_scorumpower a) < 2 ^ 63 \<and> z + amount (a_pending_scr_reward a) < 2 ^ 63 \<and>
      u + amount (a_pending_sp_reward a) < 2 ^ 63 \<and> v + vsf a < 2 ^ 63")
    case True
    then have "foldE (add_account_total F) (a # as) (totals x y z u v) =
        foldE (add_account_total F) as (totals (x + amount (a_balance a)) (y + amount (a_scorumpower a))
          (z + amount (a_pending_scr_reward a)) (u + amount (a_pending_sp_reward a)) (v + vsf a))"
      using one [of "totals (x + amount (a_balance a)) (y + amount (a_scorumpower a))
          (z + amount (a_pending_scr_reward a)) (u + amount (a_pending_sp_reward a)) (v + vsf a)"] by simp
    then show ?thesis
      using Cons.IH [OF as, of "x + amount (a_balance a)" "y + amount (a_scorumpower a)" "z + amount (a_pending_scr_reward a)"
          "u + amount (a_pending_sp_reward a)" "v + vsf a"] True Cons.prems(2-6) nn
      by (simp add: add.assoc)
  next
    case False
    then have "\<not> foldE (add_account_total F) (a # as) (totals x y z u v) = Inr t'"
      using one by (auto simp: bindE_Inr_iff)
    moreover have "\<not> (x + sum_list (map (\<lambda>a. amount (a_balance a)) (a # as)) < 2 ^ 63 \<and>
        y + sum_list (map (\<lambda>a. amount (a_scorumpower a)) (a # as)) < 2 ^ 63 \<and>
        z + sum_list (map (\<lambda>a. amount (a_pending_scr_reward a)) (a # as)) < 2 ^ 63 \<and>
        u + sum_list (map (\<lambda>a. amount (a_pending_sp_reward a)) (a # as)) < 2 ^ 63 \<and> v + sum_list (map vsf (a # as)) < 2 ^ 63)"
      using False ss by simp linarith
    ultimately show ?thesis by blast
  qed
qed

lemma sum_list_sort_key: "sum_list (map f (sort_key k xs)) = (sum_list (map f xs) :: int)"
proof -
  have "mset (map f (sort_key k xs)) = mset (map f xs)" by simp
  then show ?thesis by (metis sum_mset_sum_list)
qed

lemma accounts_circulating_capital_iff:
  assumes F: "ext_ok F" and "db_ok db" and "list_all (\<lambda>r. account_nonneg (snd r)) (indices (accounts db))"
  shows "accounts_circulating_capital F db = Inr t \<longleftrightarrow>
    t = totals (acc_sum (\<lambda>a. amount (a_balance a)) db) (acc_sum (\<lambda>a. amount (a_scorumpower a)) db)
          (acc_sum (\<lambda>a. amount (a_pending_scr_reward a)) db) (acc_sum (\<lambda>a. amount (a_pending_sp_reward a)) db) (acc_sum vsf db) \<and>
    acc_sum (\<lambda>a. amount (a_balance a)) db < 2 ^ 63 \<and> acc_sum (\<lambda>a. amount (a_scorumpower a)) db < 2 ^ 63 \<and>
    acc_sum (\<lambda>a. amount (a_pending_scr_reward a)) db < 2 ^ 63 \<and> acc_sum (\<lambda>a. amount (a_pending_sp_reward a)) db < 2 ^ 63 \<and>
    acc_sum vsf db < 2 ^ 63"
proof -
  let ?as = "sort_key a_name (map snd (indices (accounts db)))"
  have "list_all (\<lambda>a. account_ok a \<and> account_nonneg a) ?as"
    using assms(2,3) by (auto simp: list_all_iff db_ok_def)
  note iff = add_accounts_iff [OF F this, of 0 0 0 0 0 t]
  have sums: "sum_list (map f ?as) = acc_sum f db" for f
    by (simp add: sum_list_sort_key acc_sum_def row_sum_def comp_def)
  show ?thesis using iff unfolding accounts_circulating_capital_def totals_def sums by simp
qed

section \<open>When the check passes\<close>

lemma sum_terms2: "sum_list (map amount (concat (map (\<lambda>r. [f (snd r), g (snd r)]) rs))) = row_sum (\<lambda>v. amount (f v) + amount (g v)) rs"
  by (induction rs) auto

lemma sum_terms3: "sum_list (map amount (concat (map (\<lambda>r. [f (snd r), g (snd r), h (snd r)]) rs)))
    = row_sum (\<lambda>v. amount (f v) + amount (g v) + amount (h v)) rs"
  by (induction rs) auto

lemma sum_terms1: "sum_list (map amount (map (\<lambda>r. f (snd r)) rs)) = row_sum (\<lambda>v. amount (f v)) rs"
  by (induction rs) auto

lemma supply_terms_sum: "sum_list (map amount (supply_terms db)) =
    amount (dgp_total_scorumpower (dgp db)) + amount (dgp_total_burned_scr (dgp db)) + locked db + pools db"
  unfolding supply_terms_def locked_def pools_def escrow_sum_def [abs_def] matched_sum_def [abs_def] budget_sum_def [abs_def]
    map_append sum_list_append sum_terms1 [of s_amount] sum_terms1 [of "\<lambda>b. b_stake (p_data b)"]
    sum_terms2 [of e_scorum_balance e_pending_fee]
    sum_terms2 [of "\<lambda>m. b_stake (m_bet1_data m)" "\<lambda>m. b_stake (m_bet2_data m)", simplified] sum_terms3
  by (simp split: option.splits)

lemma supply_terms_symbols: "db_ok db \<Longrightarrow> list_all (\<lambda>x. symbol x = SCORUM_SYMBOL) (supply_terms db)"
  unfolding supply_terms_def
  by (auto simp: list_all_iff db_ok_def pools_ok_def dgp_ok_def escrow_ok_def budget_ok_def split: option.splits)

lemma supply_terms_ge_power: "nothing_negative db \<Longrightarrow> amount (dgp_total_scorumpower (dgp db)) \<le> sum_list (map amount (supply_terms db))"
proof -
  assume "nothing_negative db"
  then have nn: "\<forall>y \<in> set (map amount (supply_terms db)). 0 \<le> y" by (auto simp: nothing_negative_def list_all_iff)
  have "amount (dgp_total_scorumpower (dgp db)) \<in> set (map amount (supply_terms db))" by (simp add: supply_terms_def)
  then show ?thesis using nn by (metis member_le_sum_list)
qed

text \<open>
  C1: with no negative holdings, \<^verbatim>\<open>validate_invariants\<close> passes exactly when the ledger balances:
  everything the chain holds adds up to the total supply, which is within its maximum; the
  circulating capital, the total scorum power, the votes of all accounts and the pending rewards
  are the sums over the accounts; and no witness has more votes than there is scorum power.
\<close>
theorem validate_invariants_iff:
  assumes F: "ext_ok F" and ok: "db_ok db" and nn: "nothing_negative db"
  shows "validate_invariants F db = Inr () \<longleftrightarrow>
    supply_sum db = amount (dgp_total_supply (dgp db)) \<and> supply_sum db \<le> SCORUM_MAX_SHARE_SUPPLY \<and>
    gaps db = [0, 0, 0, 0, 0] \<and>
    list_all (\<lambda>r. w_votes (snd r) \<le> amount (dgp_total_scorumpower (dgp db))) (indices (witnesses db))"
  (is "_ \<longleftrightarrow> ?R")
proof -
  let ?b = "acc_sum (\<lambda>a. amount (a_balance a)) db" and ?p = "acc_sum (\<lambda>a. amount (a_scorumpower a)) db"
    and ?ps = "acc_sum (\<lambda>a. amount (a_pending_scr_reward a)) db" and ?pp = "acc_sum (\<lambda>a. amount (a_pending_sp_reward a)) db"
    and ?v = "acc_sum vsf db" and ?T = "sum_list (map amount (supply_terms db))"
  have acc: "list_all (\<lambda>r. account_nonneg (snd r)) (indices (accounts db))"
    and terms: "list_all (\<lambda>x. symbol x = SCORUM_SYMBOL \<and> 0 \<le> amount x) (supply_terms db)"
    using nn supply_terms_symbols [OF ok] by (auto simp: nothing_negative_def list_all_iff)
  have pos: "0 \<le> ?b" "0 \<le> ?p" "0 \<le> ?ps" "0 \<le> ?pp" "0 \<le> ?v" "0 \<le> ?T"
    using acc ok terms unfolding acc_sum_def
    by (auto simp: list_all_iff db_ok_def account_nonneg_def [symmetric] intro!: row_sum_nonneg sum_list_nonneg vsf_nonneg)
      (auto simp: account_nonneg_def)
  have sum: "supply_sum db = ?b + ?ps + ?pp + ?T" by (simp add: supply_sum_def supply_terms_sum)
  have wit: "foldE (\<lambda>r _. fc_assert (w_votes (snd r) \<le> m) msg) rs () = Inr () \<longleftrightarrow> list_all (\<lambda>r. w_votes (snd r) \<le> m) rs"
    for m msg and rs :: "witness_object rows" by (induction rs) (auto simp: bindE_Inr_iff fc_assert_Inr_iff)
  have sym: "dgp_total_supply (dgp db) = SCR x \<longleftrightarrow> amount (dgp_total_supply (dgp db)) = x"
    "dgp_total_scorumpower (dgp db) = SP x \<longleftrightarrow> amount (dgp_total_scorumpower (dgp db)) = x"
    "dgp_total_pending_scr (dgp db) = SCR x \<longleftrightarrow> amount (dgp_total_pending_scr (dgp db)) = x"
    "dgp_total_pending_sp (dgp db) = SP x \<longleftrightarrow> amount (dgp_total_pending_sp (dgp db)) = x" for x
    using db_ok_dgp_ok [OF ok] by (auto simp: dgp_ok_def intro!: asset_eqI)
  have heads: "add_terms F [SCR ?b, SCR ?ps, SCR ?pp] (SCR 0) = Inr t \<longleftrightarrow> t = SCR (?b + ?ps + ?pp) \<and> ?b + ?ps + ?pp < 2 ^ 63" for t
    using add_terms_iff [OF F, of "[SCR ?b, SCR ?ps, SCR ?pp]" 0 t] pos by (simp add: in_i64_def add.assoc)
  have rest: "add_terms F (supply_terms db) (SCR n) = Inr t \<longleftrightarrow> t = SCR (n + ?T) \<and> n + ?T < 2 ^ 63" if "0 \<le> n" "n < 2 ^ 63" for n t
    using add_terms_iff [OF F terms that(1)] that by (simp add: in_i64_def)
  have lt: "SCORUM_MAX_SHARE_SUPPLY < 2 ^ 63" by (simp add: SCORUM_MAX_SHARE_SUPPLY_def)
  have small: "?p < 2 ^ 63" "?v < 2 ^ 63" "?b < 2 ^ 63" "?ps < 2 ^ 63" "?pp < 2 ^ 63" "?b + ?ps + ?pp < 2 ^ 63"
    "?b + ?ps + ?pp + ?T < 2 ^ 63" "?p \<le> SCORUM_MAX_SHARE_SUPPLY" if ?R
  proof -
    have "?p \<le> ?T" "?v \<le> ?T" using that supply_terms_ge_power [OF nn] by (simp_all add: gaps_def)
    then show "?p < 2 ^ 63" "?v < 2 ^ 63" "?b < 2 ^ 63" "?ps < 2 ^ 63" "?pp < 2 ^ 63" "?b + ?ps + ?pp < 2 ^ 63"
    "?b + ?ps + ?pp + ?T < 2 ^ 63" "?p \<le> SCORUM_MAX_SHARE_SUPPLY"
      using that pos lt sum by simp_all
  qed
  have caps: "accounts_circulating_capital F db = Inr t \<longleftrightarrow> t = totals ?b ?p ?ps ?pp ?v \<and>
      ?b < 2 ^ 63 \<and> ?p < 2 ^ 63 \<and> ?ps < 2 ^ 63 \<and> ?pp < 2 ^ 63 \<and> ?v < 2 ^ 63" for t
    by (rule accounts_circulating_capital_iff [OF F ok acc])
  have tot: "t_scr (totals x y z u v) = SCR x" "t_sp (totals x y z u v) = SP y" "t_pending_scr (totals x y z u v) = SCR z"
    "t_pending_sp (totals x y z u v) = SP u" "t_vsf_votes (totals x y z u v) = v" for x y z u v by (simp_all add: totals_def)
  show ?thesis
  proof
    assume "validate_invariants F db = Inr ()"
    then obtain s where "add_terms F (supply_terms db) (SCR (?b + ?ps + ?pp)) = Inr s" "?b + ?ps + ?pp < 2 ^ 63"
      "list_all (\<lambda>r. w_votes (snd r) \<le> amount (dgp_total_scorumpower (dgp db))) (indices (witnesses db))"
      "asset_le s (asset_maximum SCORUM_SYMBOL) = Inr True" "dgp_total_supply (dgp db) = s"
      "dgp_total_scorumpower (dgp db) = SP ?p" "amount (dgp_circulating_capital (dgp db)) - amount (dgp_total_scorumpower (dgp db)) = ?b"
      "amount (dgp_total_scorumpower (dgp db)) = ?v" "dgp_total_pending_scr (dgp db) = SCR ?ps" "dgp_total_pending_sp (dgp db) = SP ?pp"
      unfolding validate_invariants_def Let_def
      by (auto simp: bindE_Inr_iff caps tot heads wit fc_assert_Inr_iff assertE_iff asset_order_iffs safe_iffs [OF F])
    then show ?R using rest [of "?b + ?ps + ?pp" s] pos
      by (auto simp: sum sym gaps_def asset_order_iffs asset_maximum_def)
  next
    assume r: ?R
    note s = small [OF r]
    have "list_all (\<lambda>r. w_votes (snd r) \<le> ?p) (indices (witnesses db))" using r by (auto simp: gaps_def)
    note s = s this
    show "validate_invariants F db = Inr ()"
      unfolding validate_invariants_def Let_def using r s pos db_ok_dgp_ok [OF ok]
      by (simp add: bindE_Inr_iff caps tot heads wit rest fc_assert_Inr_iff assertE_iff asset_order_iffs safe_iffs [OF F] sum sym gaps_def
          in_i64_def asset_maximum_def dgp_ok_def)
  qed
qed

lemma sample_nothing_negative: "nothing_negative sample_db"
  by (simp add: nothing_negative_def supply_terms_def account_nonneg_def run_simps sample_fund_def sample_balancer_def
      SCORUM_MAX_PROXY_RECURSION_DEPTH_def
      list_all_iff)

theorem validate_invariants_iff_witness: "validate_invariants ext_ref sample_db = Inr ()"
proof -
  have "amount (dgp_total_supply (dgp sample_db)) \<le> SCORUM_MAX_SHARE_SUPPLY"
    "list_all (\<lambda>r. w_votes (snd r) \<le> amount (dgp_total_scorumpower (dgp sample_db))) (indices (witnesses sample_db))"
    by (simp_all add: run_simps SCORUM_MAX_SHARE_SUPPLY_def new_witness_object_def)
  then show ?thesis
    using validate_invariants_iff [OF ext_ok_ref sample_db_ok sample_nothing_negative] sample_supply by simp
qed

end
