(* ===== verification/Betting_Math.thy ===== *)
theory Betting_Math
  imports Asset_Model
begin

text \<open>
  How two opposite bets are matched (\<^verbatim>\<open>libraries/chain/betting/betting_math.cpp\<close>): the gain of a
  bet and the stakes that cover each other. The theorem shows that the matched stakes stay
  within the stakes, that one of the bets is matched in full, and that whoever wins is paid at
  least what the odds promise.
\<close>

definition calculate_gain :: "ext_lib \<Rightarrow> asset \<Rightarrow> odds \<Rightarrow> asset res" where
  "calculate_gain F bet_stake k =
     bindE (fc_assert (symbol bet_stake = SCORUM_SYMBOL) ''Invalid symbol for stake'') (\<lambda>_.
     bindE (asset_mul_odds F bet_stake k) (\<lambda>r.
     asset_sub F r bet_stake))"

record matched_stake_type =
  bet1_matched :: asset
  bet2_matched :: asset

definition calculate_matched_stake :: "ext_lib \<Rightarrow> asset \<Rightarrow> asset \<Rightarrow> odds \<Rightarrow> odds \<Rightarrow> matched_stake_type res" where
  "calculate_matched_stake F bet1_stake bet2_stake bet1_odds bet2_odds =
     bindE (fc_assert (symbol bet1_stake = SCORUM_SYMBOL \<and> symbol bet1_stake = symbol bet2_stake)
              ''Invalid symbol for stake'') (\<lambda>_.
     bindE (odds_simplified bet1_odds) (\<lambda>f1.
     bindE (odds_inverted bet2_odds) (\<lambda>i2.
     bindE (odds_simplified bet2_odds) (\<lambda>f2.
     bindE (odds_inverted bet1_odds) (\<lambda>i1.
     bindE (fc_assert (f1 = i2 \<and> f2 = i1) ''Odds for bet 1 ans bet 2 must make 1 in summ of it's probability'') (\<lambda>_.
     bindE (asset_mul_odds F bet1_stake bet1_odds) (\<lambda>r1.
     bindE (asset_mul_odds F bet2_stake bet2_odds) (\<lambda>r2.
     bindE (asset_sub F r1 bet1_stake) (\<lambda>p1.
     bindE (asset_sub F r2 bet2_stake) (\<lambda>p2.
     bindE (asset_gt r1 r2) (\<lambda>gt.
     if gt then Inr \<lparr>bet1_matched = p2, bet2_matched = bet2_stake\<rparr>
     else
       bindE (asset_lt r1 r2) (\<lambda>lt.
       if lt then Inr \<lparr>bet1_matched = bet1_stake, bet2_matched = p1\<rparr>
       else Inr \<lparr>bet1_matched = bet1_stake, bet2_matched = bet2_stake\<rparr>))))))))))))"

section \<open>The arithmetic of complementary odds\<close>

text \<open>
  With \<open>r1\<close> and \<open>r2\<close> what the two stakes would return at the odds \<open>n / d\<close> and \<open>n / (n - d)\<close>,
  rounded down: the smaller of them bounds the share of the other side.
\<close>

lemma div_mult_le_int: "0 < d \<Longrightarrow> x div d * d \<le> (x :: int)"
  using pos_mod_sign [of d x] div_mult_mod_eq [of x d] by linarith

lemma div_mult_gt_int: "0 < d \<Longrightarrow> (x :: int) < (x div d + 1) * d"
  unfolding distrib_right using pos_mod_bound [of d x] div_mult_mod_eq [of x d] by linarith

lemma share_le:
  fixes n d s1 s2 :: int
  assumes "0 < d" "d < n" and "s1 * n div d \<le> s2 * n div (n - d)"
  shows "s1 * n div d - s1 \<le> s2"
proof -
  let ?r1 = "s1 * n div d" and ?r2 = "s2 * n div (n - d)"
  have "?r1 * d \<le> s1 * n" using assms by (intro div_mult_le_int)
  moreover have "?r2 * (n - d) \<le> s2 * n" using assms by (intro div_mult_le_int) simp
  moreover have "?r1 * (n - d) \<le> ?r2 * (n - d)" using assms by (intro mult_right_mono) auto
  ultimately have "?r1 * n \<le> (s1 + s2) * n" by (simp add: algebra_simps)
  then show ?thesis using assms by simp
qed

lemma share_returns:
  fixes n d s :: int
  assumes "0 < d" "d < n"
  shows "(s * n div d - s) * n div (n - d) \<le> s * n div d"
proof -
  let ?r = "s * n div d"
  have "?r * d \<le> s * n" using assms by (intro div_mult_le_int)
  then have "(?r - s) * n \<le> ?r * (n - d)" by (simp add: algebra_simps)
  then have "(?r - s) * n div (n - d) \<le> ?r * (n - d) div (n - d)" using assms by (intro zdiv_mono1) auto
  then show ?thesis using assms by simp
qed

lemma equal_returns:
  fixes n d s1 s2 :: int
  assumes "0 < d" "d < n" and eq: "s1 * n div d = s2 * n div (n - d)"
  shows "s1 + s2 = s1 * n div d"
proof -
  let ?r = "s1 * n div d"
  have "s1 * n < (?r + 1) * d" "s2 * n < (?r + 1) * (n - d)"
    using div_mult_gt_int [of d "s1 * n"] div_mult_gt_int [of "n - d" "s2 * n"] assms by simp_all
  then have "(s1 + s2) * n < (?r + 1) * n" by (simp add: algebra_simps)
  then have "s1 + s2 < ?r + 1" using assms by simp
  moreover have "?r \<le> s1 + s2" using share_le [OF assms(1,2), of s1 s2] eq by simp
  ultimately show ?thesis by simp
qed

section \<open>Matching\<close>

lemma asset_mul_odds_iff:
  assumes F: "ext_ok F" and w: "wf_odds k" and k: "o_simplified k = (n, d)" and n: "n < 2 ^ 31"
    and a: "0 \<le> amount a" "amount a < 2 ^ 63"
  shows "asset_mul_odds F a k = Inr b \<longleftrightarrow>
    b = a\<lparr>amount := to_i64 (amount a * n div d)\<rparr> \<and> amount a * n div d < 2 ^ 64"
proof -
  have nd: "0 < d" "d < n" using w k by (auto simp: wf_odds_def)
  have "multiply_by_fractional F (amount a) n d = Inr r \<longleftrightarrow> amount a * n div d < 2 ^ 64 \<and> r = to_i64 (amount a * n div d)" for r
    by (rule multiply_by_fractional_eq [OF F]) (use a nd n in auto)
  then show ?thesis
    using nd by (auto simp: asset_mul_odds_def odds_simplified_def make_fraction_def asset_mul_fraction_def k bindE_Inr_iff)
qed

lemma to_i64_inj:
  assumes "0 \<le> x" "x < 2 ^ 64" "0 \<le> y" "y < 2 ^ 64"
  shows "to_i64 x = to_i64 y \<longleftrightarrow> x = y"
proof
  assume "to_i64 x = to_i64 y"
  then have "(x + 2 ^ 63) mod 2 ^ 64 = (y + 2 ^ 63) mod 2 ^ 64" by (simp add: to_i64_def)
  then have "x mod 2 ^ 64 = y mod 2 ^ 64" by (simp add: mod_eq_dvd_iff)
  with assms show "x = y" by (simp add: mod_pos_pos_trivial)
qed simp

text \<open>A product that wraps around is negative and no bet is matched at it.\<close>

lemma to_i64_pos: "0 \<le> x \<Longrightarrow> x < 2 ^ 64 \<Longrightarrow> 0 < to_i64 x \<Longrightarrow> to_i64 x = x \<and> x < 2 ^ 63"
proof -
  assume x: "0 \<le> x" "x < 2 ^ 64" "0 < to_i64 x"
  have "x < 2 ^ 63"
  proof (rule ccontr)
    assume "\<not> x < 2 ^ 63"
    moreover have "(x + 2 ^ 63) mod 2 ^ 64 = (x - 2 ^ 63) mod 2 ^ 64"
      using mod_add_self2 [of "x - 2 ^ 63" "2 ^ 64"] by (simp add: add.commute)
    ultimately show False using x by (simp add: to_i64_def mod_pos_pos_trivial)
  qed
  with x show ?thesis by (simp add: to_i64_id in_i64_def)
qed

lemma SCR_amount: "symbol a = SCORUM_SYMBOL \<Longrightarrow> a\<lparr>amount := x\<rparr> = SCR x"
  by (cases a) simp

lemma calculate_matched_stake_cases:
  assumes F: "ext_ok F" and m: "calculate_matched_stake F s1 s2 o1 o2 = Inr m"
    and o1: "wf_odds o1" "o_simplified o1 = (n, d)" "n < 2 ^ 31"
    and s: "0 \<le> amount s1" "amount s1 < 2 ^ 63" "0 \<le> amount s2" "amount s2 < 2 ^ 63" and o2: "wf_odds o2"
  defines "r1 \<equiv> to_i64 (amount s1 * n div d)" and "r2 \<equiv> to_i64 (amount s2 * n div (n - d))"
  shows "o_simplified o2 = (n, n - d)" and "symbol s1 = SCORUM_SYMBOL" and "symbol s2 = SCORUM_SYMBOL"
    and "amount s1 * n div d < 2 ^ 64" and "amount s2 * n div (n - d) < 2 ^ 64"
    and "m = (if r2 < r1 then \<lparr>bet1_matched = SCR (r2 - amount s2), bet2_matched = s2\<rparr>
              else if r1 < r2 then \<lparr>bet1_matched = s1, bet2_matched = SCR (r1 - amount s1)\<rparr>
              else \<lparr>bet1_matched = s1, bet2_matched = s2\<rparr>)"
proof -
  have nd: "0 < d" "d < n" and i1: "o_inverted o1 = (n, n - d)" using o1 by (auto simp: wf_odds_def)
  obtain n2 d2 where o2s: "o_simplified o2 = (n2, d2)" by (cases "o_simplified o2")
  then have nd2: "0 < d2" "d2 < n2" using o2 by (auto simp: wf_odds_def)
  from m obtain f1 i2 f2 i1' a1 a2 p1 p2 gt where sy: "symbol s1 = SCORUM_SYMBOL \<and> symbol s1 = symbol s2"
    and f2: "odds_simplified o2 = Inr f2" and i1': "odds_inverted o1 = Inr i1'" and eq: "f1 = i2 \<and> f2 = i1'"
    and a1: "asset_mul_odds F s1 o1 = Inr a1" and a2: "asset_mul_odds F s2 o2 = Inr a2"
    and p1: "asset_sub F a1 s1 = Inr p1" and p2: "asset_sub F a2 s2 = Inr p2" and gt: "asset_gt a1 a2 = Inr gt"
    and res: "(if gt then Inr \<lparr>bet1_matched = p2, bet2_matched = s2\<rparr>
       else bindE (asset_lt a1 a2) (\<lambda>lt. if lt then Inr \<lparr>bet1_matched = s1, bet2_matched = p1\<rparr>
         else Inr \<lparr>bet1_matched = s1, bet2_matched = s2\<rparr>)) = Inr m"
    unfolding calculate_matched_stake_def bindE_Inr_iff fc_assert_Inr_iff by (elim exE conjE) (rule that, (assumption | simp)+)
  from f2 i1' eq nd nd2 show o2': "o_simplified o2 = (n, n - d)"
    by (auto simp: odds_simplified_def odds_inverted_def make_fraction_def i1 o2s)
  from sy show sym: "symbol s1 = SCORUM_SYMBOL" "symbol s2 = SCORUM_SYMBOL" by auto
  have "a1 = s1\<lparr>amount := r1\<rparr> \<and> amount s1 * n div d < 2 ^ 64"
    using a1 asset_mul_odds_iff [OF F o1(1,2,3) s(1,2)] by (simp add: r1_def)
  moreover have "a2 = s2\<lparr>amount := r2\<rparr> \<and> amount s2 * n div (n - d) < 2 ^ 64"
    using a2 asset_mul_odds_iff [OF F o2 o2' o1(3) s(3,4)] by (simp add: r2_def)
  ultimately show lt: "amount s1 * n div d < 2 ^ 64" "amount s2 * n div (n - d) < 2 ^ 64"
    and "m = (if r2 < r1 then \<lparr>bet1_matched = SCR (r2 - amount s2), bet2_matched = s2\<rparr>
              else if r1 < r2 then \<lparr>bet1_matched = s1, bet2_matched = SCR (r1 - amount s1)\<rparr>
              else \<lparr>bet1_matched = s1, bet2_matched = s2\<rparr>)"
    using p1 p2 gt res sym by (auto simp: asset_sub_iff [OF F] asset_order_iffs bindE_Inr_iff SCR_amount split: if_splits)
qed

lemma matched_stakes:
  assumes F: "ext_ok F" and m: "calculate_matched_stake F s1 s2 o1 o2 = Inr m"
    and o1: "wf_odds o1" "o_simplified o1 = (n1, d1)" "n1 < 2 ^ 31" and o2: "wf_odds o2" "o_simplified o2 = (n2, d2)"
    and s: "0 \<le> amount s1" "amount s1 < 2 ^ 63" "0 \<le> amount s2" "amount s2 < 2 ^ 63"
    and pos: "0 < amount (bet1_matched m)" "0 < amount (bet2_matched m)"
  defines "m1 \<equiv> amount (bet1_matched m)" and "m2 \<equiv> amount (bet2_matched m)"
  shows "m1 \<le> amount s1 \<and> m2 \<le> amount s2 \<and>
    (m1 = amount s1 \<and> m1 + m2 = m1 * n1 div d1 \<or> m2 = amount s2 \<and> m1 + m2 = m2 * n2 div d2) \<and>
    m1 * n1 div d1 \<le> m1 + m2 \<and> m2 * n2 div d2 \<le> m1 + m2"
proof -
  note c = calculate_matched_stake_cases [OF F m o1 s o2(1)]
  have nd: "0 < d1" "d1 < n1" using o1 by (auto simp: wf_odds_def)
  have k: "n2 = n1" "d2 = n1 - d1" using c(1) o2(2) by simp_all
  let ?x1 = "amount s1 * n1 div d1" and ?x2 = "amount s2 * n1 div (n1 - d1)"
  have x: "0 \<le> ?x1" "0 \<le> ?x2" using s nd by (simp_all add: pos_imp_zdiv_nonneg_iff)
  have x1: "0 < to_i64 ?x1 \<Longrightarrow> to_i64 ?x1 = ?x1" and x2: "0 < to_i64 ?x2 \<Longrightarrow> to_i64 ?x2 = ?x2"
    using to_i64_pos [OF x(1) c(4)] to_i64_pos [OF x(2) c(5)] by simp_all
  have nd': "0 < n1 - d1" "n1 - d1 < n1" "n1 - (n1 - d1) = d1" using nd by simp_all
  consider (less) "to_i64 ?x2 < to_i64 ?x1" | (more) "to_i64 ?x1 < to_i64 ?x2" | (same) "to_i64 ?x1 = to_i64 ?x2" by linarith
  then show ?thesis
  proof cases
    case less
    then have mm: "m1 = to_i64 ?x2 - amount s2" "m2 = amount s2" using c(6) by (simp_all add: m1_def m2_def)
    with pos less s have e: "to_i64 ?x2 = ?x2" "to_i64 ?x1 = ?x1" using x1 x2 by (simp_all add: m1_def)
    show ?thesis
      using share_le [OF nd'(1,2), of "amount s2" "amount s1"] share_returns [OF nd'(1,2), of "amount s2"] less mm e
      by (simp add: k nd'(3))
  next
    case more
    then have mm: "m1 = amount s1" "m2 = to_i64 ?x1 - amount s1" using c(6) by (simp_all add: m1_def m2_def)
    with pos more s have e: "to_i64 ?x2 = ?x2" "to_i64 ?x1 = ?x1" using x1 x2 by (simp_all add: m2_def)
    show ?thesis
      using share_le [OF nd, of "amount s1" "amount s2"] share_returns [OF nd, of "amount s1"] more mm e
      by (simp add: k)
  next
    case same
    then have mm: "m1 = amount s1" "m2 = amount s2" using c(6) by (simp_all add: m1_def m2_def)
    have "?x1 = ?x2" using same c(4,5) x by (auto simp: to_i64_inj)
    with equal_returns [OF nd, of "amount s1" "amount s2"] show ?thesis by (simp add: mm k)
  qed
qed

lemma matched_stake_bounds:
  assumes F: "ext_ok F" and m: "calculate_matched_stake F s1 s2 o1 o2 = Inr m"
    and o1: "wf_odds o1" "o_simplified o1 = (n, d)" "n < 2 ^ 31" and o2: "wf_odds o2"
    and s: "0 \<le> amount s1" "amount s1 < 2 ^ 63" "0 \<le> amount s2" "amount s2 < 2 ^ 63"
    and pos: "0 < amount (bet1_matched m)" "0 < amount (bet2_matched m)"
  shows "amount (bet1_matched m) \<le> amount s1" and "amount (bet2_matched m) \<le> amount s2"
    and "symbol (bet1_matched m) = SCORUM_SYMBOL" and "symbol (bet2_matched m) = SCORUM_SYMBOL"
proof -
  note c = calculate_matched_stake_cases [OF F m o1 s o2]
  from matched_stakes [OF F m o1 o2 c(1) s pos]
  show "amount (bet1_matched m) \<le> amount s1" and "amount (bet2_matched m) \<le> amount s2" by simp_all
  show "symbol (bet1_matched m) = SCORUM_SYMBOL" and "symbol (bet2_matched m) = SCORUM_SYMBOL"
    using c(2,3,6) by (simp_all split: if_splits)
qed

text \<open>
  C10: when two opposite bets are matched, the matched stakes are within the stakes, one of the
  bets is matched in full and its winner is paid exactly the stake times the odds, rounded down;
  the winner of the other bet is paid at least its matched stake times its odds.
\<close>
theorem matched_stake_pays_odds:
  assumes F: "ext_ok F" and m: "calculate_matched_stake F s1 s2 o1 o2 = Inr m"
    and o1: "wf_odds o1" "o_simplified o1 = (n1, d1)" "n1 < 2 ^ 31" and o2: "wf_odds o2" "o_simplified o2 = (n2, d2)"
    and s: "0 \<le> amount s1" "amount s1 < 2 ^ 63" "0 \<le> amount s2" "amount s2 < 2 ^ 63"
    and pos: "0 < amount (bet1_matched m)" "0 < amount (bet2_matched m)"
  defines "m1 \<equiv> amount (bet1_matched m)" and "m2 \<equiv> amount (bet2_matched m)"
  shows "m1 \<le> amount s1 \<and> m2 \<le> amount s2 \<and>
    (m1 = amount s1 \<and> m1 + m2 = m1 * n1 div d1 \<or> m2 = amount s2 \<and> m1 + m2 = m2 * n2 div d2) \<and>
    m1 * n1 div d1 \<le> m1 + m2 \<and> m2 * n2 div d2 \<le> m1 + m2"
  using matched_stakes [OF F m o1 o2 s pos] by (simp only: m1_def m2_def)

definition sample_odds :: "int \<Rightarrow> int \<Rightarrow> odds" where
  "sample_odds n d = \<lparr>o_base = (n, d), o_simplified = (n, d), o_inverted = (n, n - d)\<rparr>"

lemma sample_odds_wf: "wf_odds (sample_odds 5 2)" "wf_odds (sample_odds 5 3)"
  by (simp_all add: wf_odds_def sample_odds_def coprime_iff_gcd_eq_1 gcd_non_0_int)

lemma sample_match: "calculate_matched_stake ext_ref (SCR 100) (SCR 90) (sample_odds 5 2) (sample_odds 5 3)
    = Inr \<lparr>bet1_matched = SCR 60, bet2_matched = SCR 90\<rparr>"
proof -
  have "asset_mul_odds ext_ref (SCR 100) (sample_odds 5 2) = Inr (SCR 250)"
    "asset_mul_odds ext_ref (SCR 90) (sample_odds 5 3) = Inr (SCR 150)"
    using asset_mul_odds_eq(1) [OF ext_ok_ref sample_odds_wf(1), of 5 2 "SCR 100"]
      asset_mul_odds_eq(1) [OF ext_ok_ref sample_odds_wf(2), of 5 3 "SCR 90"] by (simp_all add: sample_odds_def)
  then show ?thesis
    by (simp add: calculate_matched_stake_def odds_simplified_def odds_inverted_def make_fraction_def asset_order_eqs
        asset_sub_def asset_sub_amount_def ext_ref_eval) (simp add: sample_odds_def)
qed

theorem matched_stake_pays_odds_witness:
  "calculate_matched_stake ext_ref (SCR 100) (SCR 90) (sample_odds 5 2) (sample_odds 5 3)
     = Inr \<lparr>bet1_matched = SCR 60, bet2_matched = SCR 90\<rparr> \<and>
   (60::int) \<le> 100 \<and> (60 + 90 :: int) = 90 * 5 div 3 \<and> (60 * 5 div 2 :: int) \<le> 60 + 90"
proof -
  from matched_stake_pays_odds [OF ext_ok_ref sample_match sample_odds_wf(1) _ _ sample_odds_wf(2), of 5 2 5 3] sample_match show ?thesis
    by (simp add: sample_odds_def)
qed

end
