(* ===== verification/Betting_Service.thy ===== *)
theory Betting_Service
  imports Sample_Chain Betting_Math
begin

text \<open>
  The betting exchange: the service that creates, cancels and restores bets
  (\<^verbatim>\<open>libraries/chain/betting/betting_service.cpp\<close>), the matcher (\<^verbatim>\<open>betting_matcher.cpp\<close>) and the
  resolver that pays the winners (\<^verbatim>\<open>betting_resolver.cpp\<close>), with the small services of games and
  pending bets. Virtual operations, which only notify plugins, are left out. A range of an index
  is the list of the ids in the order of the index; the loops read each object when they come to
  it.
\<close>

section \<open>Ranges of the indices\<close>

definition pending_by_market :: "uuid \<Rightarrow> database \<Rightarrow> nat list" where
  "pending_by_market u db =
     map fst (sort_by (\<lambda>r s. market_less (p_market (snd r)) (p_market (snd s)))
       (filter (\<lambda>r. p_game_uuid (snd r) = u) (indices (pending_bets db))))"

definition matched_by_market :: "uuid \<Rightarrow> database \<Rightarrow> nat list" where
  "matched_by_market u db =
     map fst (sort_by (\<lambda>r s. market_less (m_market (snd r)) (m_market (snd s)))
       (filter (\<lambda>r. m_game_uuid (snd r) = u) (indices (matched_bets db))))"

definition pending_by_kind :: "uuid \<Rightarrow> pending_bet_kind \<Rightarrow> database \<Rightarrow> nat list" where
  "pending_by_kind u k db =
     ix_ids_by (\<lambda>b. p_game_uuid b = u \<and> b_kind (p_data b) = k) (pending_bets db)"

definition pending_by_created :: "uuid \<Rightarrow> nat \<Rightarrow> database \<Rightarrow> nat list" where
  "pending_by_created u t db =
     map fst (sort_key (\<lambda>r. b_created (p_data (snd r)))
       (filter (\<lambda>r. p_game_uuid (snd r) = u \<and> t \<le> b_created (p_data (snd r))) (indices (pending_bets db))))"

definition matched_by_created :: "uuid \<Rightarrow> nat \<Rightarrow> database \<Rightarrow> nat list" where
  "matched_by_created u t db =
     map fst (sort_key (\<lambda>r. m_created (snd r))
       (filter (\<lambda>r. m_game_uuid (snd r) = u \<and> t \<le> m_created (snd r)) (indices (matched_bets db))))"

definition pending_by_wincase :: "uuid \<Rightarrow> wincase_type \<Rightarrow> database \<Rightarrow> nat list" where
  "pending_by_wincase u w db =
     map fst (sort_key (\<lambda>r. b_created (p_data (snd r)))
       (filter (\<lambda>r. p_game_uuid (snd r) = u \<and> \<not> wincase_less (b_wincase (p_data (snd r))) w
          \<and> \<not> wincase_less w (b_wincase (p_data (snd r)))) (indices (pending_bets db))))"

text \<open>\<^verbatim>\<open>boost::set_intersection\<close> of two ordered ranges, with the elements of the first.\<close>

fun set_intersection :: "('a \<Rightarrow> 'b \<Rightarrow> bool) \<Rightarrow> ('b \<Rightarrow> 'a \<Rightarrow> bool) \<Rightarrow> 'a list \<Rightarrow> 'b list \<Rightarrow> 'a list" where
  "set_intersection lt gt [] ys = []"
| "set_intersection lt gt xs [] = []"
| "set_intersection lt gt (x # xs) (y # ys) =
     (if lt x y then set_intersection lt gt xs (y # ys)
      else if gt y x then set_intersection lt gt (x # xs) ys
      else x # set_intersection lt gt xs ys)"

section \<open>The service\<close>

definition is_betting_moderator :: "account_name \<Rightarrow> database \<Rightarrow> bool" where
  "is_betting_moderator name db \<longleftrightarrow> bp_moderator (betting_property db) = name"

definition find_pending_bet :: "uuid \<Rightarrow> database \<Rightarrow> nat option" where
  "find_pending_bet u db = ix_find_by (\<lambda>b. b_uuid (p_data b) = u) (pending_bets db)"

definition get_pending_bet :: "uuid \<Rightarrow> database \<Rightarrow> nat res" where
  "get_pending_bet u db = ix_get_by (\<lambda>b. b_uuid (p_data b) = u) (pending_bets db)"

definition update_pending_stake :: "(asset \<Rightarrow> asset res) \<Rightarrow> nat \<Rightarrow> database \<Rightarrow> database res" where
  "update_pending_stake f i db =
     bindE (ix_modify pending_bet_clash i (\<lambda>b. bindE (f (b_stake (p_data b))) (\<lambda>s.
              Inr (b\<lparr>p_data := (p_data b)\<lparr>b_stake := s\<rparr>\<rparr>))) (pending_bets db)) (\<lambda>ix.
     Inr (db\<lparr>pending_bets := ix\<rparr>))"

definition add_pending_volume :: "ext_lib \<Rightarrow> asset \<Rightarrow> database \<Rightarrow> database res" where
  "add_pending_volume F x = update_dgp (\<lambda>p. bindE (asset_add F (dgp_pending_bets_volume p) x) (\<lambda>v.
     Inr (p\<lparr>dgp_pending_bets_volume := v\<rparr>)))"

definition sub_pending_volume :: "ext_lib \<Rightarrow> asset \<Rightarrow> database \<Rightarrow> database res" where
  "sub_pending_volume F x = update_dgp (\<lambda>p. bindE (asset_sub F (dgp_pending_bets_volume p) x) (\<lambda>v.
     Inr (p\<lparr>dgp_pending_bets_volume := v\<rparr>)))"

definition add_matched_volume :: "ext_lib \<Rightarrow> asset \<Rightarrow> database \<Rightarrow> database res" where
  "add_matched_volume F x = update_dgp (\<lambda>p. bindE (asset_add F (dgp_matched_bets_volume p) x) (\<lambda>v.
     Inr (p\<lparr>dgp_matched_bets_volume := v\<rparr>)))"

definition sub_matched_volume :: "ext_lib \<Rightarrow> asset \<Rightarrow> database \<Rightarrow> database res" where
  "sub_matched_volume F x = update_dgp (\<lambda>p. bindE (asset_sub F (dgp_matched_bets_volume p) x) (\<lambda>v.
     Inr (p\<lparr>dgp_matched_bets_volume := v\<rparr>)))"

definition create_pending_bet ::
  "ext_lib \<Rightarrow> account_name \<Rightarrow> asset \<Rightarrow> odds \<Rightarrow> wincase_type \<Rightarrow> uuid \<Rightarrow> uuid \<Rightarrow> pending_bet_kind \<Rightarrow> database
   \<Rightarrow> (nat \<times> database) res"
where
  "create_pending_bet F better stake k wincase game_uuid bet_uuid kind db =
     bindE (get_account better db) (\<lambda>acc.
     bindE (account_at acc db) (\<lambda>a.
     bindE (assertE (asset_ge (a_balance a) stake) ''Insufficient funds'') (\<lambda>_.
     bindE (ix_emplace (=) (\<lambda>_. Inr bet_uuid) (bet_uuid_history db)) (\<lambda>(h, hist).
     let db = db\<lparr>bet_uuid_history := hist\<rparr> in
     bindE (ix_emplace pending_bet_clash (\<lambda>_. Inr \<lparr>p_game_uuid = game_uuid, p_market = create_market wincase,
              p_data = \<lparr>b_uuid = bet_uuid, b_created = dgp_time (dgp db), b_better = better, b_wincase = wincase,
                b_stake = stake, b_odds = k, b_kind = kind\<rparr>\<rparr>) (pending_bets db)) (\<lambda>(i, ix).
     bindE (add_pending_volume F stake (db\<lparr>pending_bets := ix\<rparr>)) (\<lambda>db.
     bindE (decrease_balance F acc stake db) (\<lambda>db.
     Inr (i, db))))))))"

definition remove_pending_bet :: "nat \<Rightarrow> database \<Rightarrow> database res" where
  "remove_pending_bet i db = bindE (ix_remove i (pending_bets db)) (\<lambda>ix. Inr (db\<lparr>pending_bets := ix\<rparr>))"

definition remove_matched_bet :: "nat \<Rightarrow> database \<Rightarrow> database res" where
  "remove_matched_bet i db = bindE (ix_remove i (matched_bets db)) (\<lambda>ix. Inr (db\<lparr>matched_bets := ix\<rparr>))"

definition cancel_pending_bet :: "ext_lib \<Rightarrow> nat \<Rightarrow> database \<Rightarrow> database res" where
  "cancel_pending_bet F i db =
     bindE (ix_get (pending_bets db) i) (\<lambda>bet.
     bindE (get_account (b_better (p_data bet)) db) (\<lambda>acc.
     bindE (increase_balance F acc (b_stake (p_data bet)) db) (\<lambda>db.
     bindE (sub_pending_volume F (b_stake (p_data bet)) db) (\<lambda>db.
     remove_pending_bet i db))))"

definition cancel_pending_bets :: "ext_lib \<Rightarrow> nat list \<Rightarrow> database \<Rightarrow> database res" where
  "cancel_pending_bets F ids db = foldE (cancel_pending_bet F) ids db"

definition return_bet :: "ext_lib \<Rightarrow> bet_data \<Rightarrow> database \<Rightarrow> database res" where
  "return_bet F bet db =
     bindE (get_account (b_better bet) db) (\<lambda>acc.
     bindE (increase_balance F acc (b_stake bet) db) (\<lambda>db.
     sub_matched_volume F (b_stake bet) db))"

definition cancel_matched_bet :: "ext_lib \<Rightarrow> nat \<Rightarrow> database \<Rightarrow> database res" where
  "cancel_matched_bet F i db =
     bindE (ix_get (matched_bets db) i) (\<lambda>bet.
     bindE (return_bet F (m_bet1_data bet) db) (\<lambda>db.
     bindE (return_bet F (m_bet2_data bet) db) (\<lambda>db.
     remove_matched_bet i db)))"

definition cancel_matched_bets :: "ext_lib \<Rightarrow> nat list \<Rightarrow> database \<Rightarrow> database res" where
  "cancel_matched_bets F ids db = foldE (cancel_matched_bet F) ids db"

text \<open>A matched stake goes back to the pending bet it came from, which is created again when it is gone.\<close>

definition restore_pending_bet :: "ext_lib \<Rightarrow> bet_data \<Rightarrow> uuid \<Rightarrow> database \<Rightarrow> database res" where
  "restore_pending_bet F bet game_uuid db =
     bindE (if find_pending_bet (b_uuid bet) db \<noteq> None then
              bindE (get_pending_bet (b_uuid bet) db) (\<lambda>i.
              update_pending_stake (\<lambda>s. asset_add F s (b_stake bet)) i db)
            else
              bindE (ix_emplace pending_bet_clash (\<lambda>_. Inr \<lparr>p_game_uuid = game_uuid,
                       p_market = create_market (b_wincase bet), p_data = bet\<rparr>) (pending_bets db)) (\<lambda>(i, ix).
              Inr (db\<lparr>pending_bets := ix\<rparr>))) (\<lambda>db.
     bindE (add_pending_volume F (b_stake bet) db) (\<lambda>db.
     sub_matched_volume F (b_stake bet) db))"

definition find_game :: "uuid \<Rightarrow> database \<Rightarrow> nat option" where
  "find_game u db = ix_find_by (\<lambda>g. g_uuid g = u) (games db)"

definition get_game :: "uuid \<Rightarrow> database \<Rightarrow> nat res" where
  "get_game u db = ix_get_by (\<lambda>g. g_uuid g = u) (games db)"

text \<open>Both checks of the code look at the matched bets.\<close>

definition cancel_game :: "uuid \<Rightarrow> database \<Rightarrow> database res" where
  "cancel_game u db =
     bindE (fc_assert (matched_by_market u db = []) ''Cannot cancel game which has associated bets'') (\<lambda>_.
     bindE (fc_assert (matched_by_market u db = []) ''Cannot cancel game which has associated bets'') (\<lambda>_.
     bindE (get_game u db) (\<lambda>i.
     bindE (ix_remove i (games db)) (\<lambda>ix.
     Inr (db\<lparr>games := ix\<rparr>)))))"

definition cancel_bets :: "ext_lib \<Rightarrow> uuid \<Rightarrow> database \<Rightarrow> database res" where
  "cancel_bets F u db =
     bindE (cancel_pending_bets F (pending_by_market u db) db) (\<lambda>db.
     cancel_matched_bets F (matched_by_market u db) db)"

definition undo_matched_bet :: "ext_lib \<Rightarrow> uuid \<Rightarrow> nat \<Rightarrow> nat \<Rightarrow> database \<Rightarrow> database res" where
  "undo_matched_bet F u created_after i db =
     bindE (ix_get (matched_bets db) i) (\<lambda>bet.
     bindE (if b_created (m_bet1_data bet) \<ge> created_after then return_bet F (m_bet1_data bet) db
            else restore_pending_bet F (m_bet1_data bet) u db) (\<lambda>db.
     if b_created (m_bet2_data bet) \<ge> created_after then return_bet F (m_bet2_data bet) db
     else restore_pending_bet F (m_bet2_data bet) u db))"

definition cancel_bets_after :: "ext_lib \<Rightarrow> uuid \<Rightarrow> nat \<Rightarrow> database \<Rightarrow> database res" where
  "cancel_bets_after F u created_after db =
     (let matched_bets' = matched_by_created u created_after db;
          pending_bets' = pending_by_created u created_after db in
     bindE (cancel_pending_bets F pending_bets' db) (\<lambda>db.
     bindE (foldE (undo_matched_bet F u created_after) matched_bets' db) (\<lambda>db.
     foldE remove_matched_bet matched_bets' db)))"

text \<open>The bets of a range with their markets, for the intersection with the cancelled markets.\<close>

definition cancel_bets_of_markets :: "ext_lib \<Rightarrow> uuid \<Rightarrow> market_type list \<Rightarrow> database \<Rightarrow> database res" where
  "cancel_bets_of_markets F u cancelled_markets db =
     (let pending = sort_by (\<lambda>r s. market_less (p_market (snd r)) (p_market (snd s)))
            (filter (\<lambda>r. p_game_uuid (snd r) = u) (indices (pending_bets db)));
          filtered = set_intersection (\<lambda>r m. market_less (p_market (snd r)) m) (\<lambda>m r. market_less m (p_market (snd r)))
            pending cancelled_markets in
     bindE (cancel_pending_bets F (map fst filtered) db) (\<lambda>db.
     let matched = sort_by (\<lambda>r s. market_less (m_market (snd r)) (m_market (snd s)))
            (filter (\<lambda>r. m_game_uuid (snd r) = u) (indices (matched_bets db)));
          filtered = set_intersection (\<lambda>r m. market_less (m_market (snd r)) m) (\<lambda>m r. market_less m (m_market (snd r)))
            matched cancelled_markets in
     cancel_matched_bets F (map fst filtered) db))"

section \<open>The matcher\<close>

definition can_be_matched :: "ext_lib \<Rightarrow> pending_bet_object \<Rightarrow> bool res" where
  "can_be_matched F bet =
     bindE (asset_mul_odds F (b_stake (p_data bet)) (b_odds (p_data bet))) (\<lambda>r.
     asset_gt r (b_stake (p_data bet)))"

text \<open>The inverted odds are converted to odds for the comparison.\<close>

definition is_bets_matched :: "pending_bet_object \<Rightarrow> pending_bet_object \<Rightarrow> bool res" where
  "is_bets_matched bet1 bet2 =
     bindE (odds_inverted (b_odds (p_data bet1))) (\<lambda>f.
     bindE (odds_of_fraction False False f) (\<lambda>k.
     Inr (odds_eq k (b_odds (p_data bet2)))))"

definition create_matched_bet ::
  "pending_bet_object \<Rightarrow> pending_bet_object \<Rightarrow> matched_stake_type \<Rightarrow> nat \<Rightarrow> database \<Rightarrow> database res"
where
  "create_matched_bet bet1 bet2 matched time db =
     bindE (fc_assert (p_game_uuid bet1 = p_game_uuid bet2) ''bets game id is not equal.'') (\<lambda>_.
     bindE (fc_assert (wincase_equal (b_wincase (p_data bet1)) (create_opposite (b_wincase (p_data bet2)))) ''wincase'') (\<lambda>_.
     bindE (ix_emplace (\<lambda>_ _. False) (\<lambda>_. Inr \<lparr>m_game_uuid = p_game_uuid bet1, m_market = p_market bet1, m_created = time,
              m_bet1_data = (p_data bet1)\<lparr>b_stake := bet1_matched matched\<rparr>,
              m_bet2_data = (p_data bet2)\<lparr>b_stake := bet2_matched matched\<rparr>\<rparr>) (matched_bets db)) (\<lambda>(i, ix).
     Inr (db\<lparr>matched_bets := ix\<rparr>))))"

definition match_pair :: "ext_lib \<Rightarrow> nat \<Rightarrow> nat \<Rightarrow> matched_stake_type \<Rightarrow> database \<Rightarrow> database res" where
  "match_pair F i1 i2 matched db =
     bindE (ix_get (pending_bets db) i1) (\<lambda>bet1.
     bindE (ix_get (pending_bets db) i2) (\<lambda>bet2.
     bindE (create_matched_bet bet1 bet2 matched (dgp_time (dgp db)) db) (\<lambda>db.
     bindE (update_pending_stake (\<lambda>s. asset_sub F s (bet1_matched matched)) i1 db) (\<lambda>db.
     bindE (update_pending_stake (\<lambda>s. asset_sub F s (bet2_matched matched)) i2 db) (\<lambda>db.
     bindE (asset_add F (bet1_matched matched) (bet2_matched matched)) (\<lambda>both.
     bindE (add_matched_volume F both db) (\<lambda>db.
     sub_pending_volume F both db)))))))"

fun match_bets :: "ext_lib \<Rightarrow> nat \<Rightarrow> nat list \<Rightarrow> database \<Rightarrow> (nat list \<times> database) res" where
  "match_bets F i2 [] db = Inr ([], db)"
| "match_bets F i2 (i1 # ids) db =
     bindE (ix_get (pending_bets db) i1) (\<lambda>bet1.
     bindE (ix_get (pending_bets db) i2) (\<lambda>bet2.
     bindE (is_bets_matched bet1 bet2) (\<lambda>fits.
     if \<not> fits then match_bets F i2 ids db
     else
       bindE (calculate_matched_stake F (b_stake (p_data bet1)) (b_stake (p_data bet2))
                (b_odds (p_data bet1)) (b_odds (p_data bet2))) (\<lambda>matched.
       bindE (if amount (bet1_matched matched) > 0 \<and> amount (bet2_matched matched) > 0
              then match_pair F i1 i2 matched db else Inr db) (\<lambda>db.
       bindE (bindE (ix_get (pending_bets db) i1) (can_be_matched F)) (\<lambda>more1.
       bindE (bindE (ix_get (pending_bets db) i2) (can_be_matched F)) (\<lambda>more2.
       let spent = (if more1 then [] else [i1]) in
       if \<not> more2 then Inr (spent @ [i2], db)
       else bindE (match_bets F i2 ids db) (\<lambda>(rest, db). Inr (spent @ rest, db)))))))))"

text \<open>
  The bets of the fixed list, each with the bets it is matched with.
\<close>

definition matching_fix :: "(uuid \<times> uuid list) list" where
  "matching_fix =
     [(''84911b2d-91d9-4375-80c3-8ccbc078e992'',
       [''87e01c87-facd-4c68-93da-4e2dd4e1f546'',
        ''26e1f127-5d27-4c40-b551-f36e8e2a1ad2'',
        ''be0a2d8c-c525-42a2-a537-a7eab03aa319'']),
      (''c2dd413d-59a5-4bc8-b9f8-4efefb848cc7'',
       [''c4193c3e-3ad9-4aa9-a2d5-df2637b23d32'',
        ''2da620fc-40bf-41b3-950b-89d509adf7cf'']),
      (''8256c36f-7399-4c01-967a-888f3730ec02'',
       [''d0934027-e040-4f25-9202-c3e45b00bdd2'']),
      (''b4d3a62a-3ed2-48ee-8880-b23e6af9954b'',
       [''bddff0ce-2e45-4f75-a9a6-dfbca27acd61'']),
      (''f45e1c57-64f4-4d18-a6f4-898df5a06b74'',
       [''d26688cc-4d7b-49fa-801a-b6a3173ab0d3'']),
      (''11d1cd20-5809-481a-b07e-2017ecc5e5f8'',
       [''d26688cc-4d7b-49fa-801a-b6a3173ab0d3'']),
      (''ba75d8ec-f800-414d-a9e1-8d90a6f443b7'',
       [''d458ba6c-61b4-4cca-889d-8f10398bf232'',
        ''d26688cc-4d7b-49fa-801a-b6a3173ab0d3'']),
      (''bcda6311-9b6f-43ab-b834-ff04d90f31ea'',
       [''10dc5d25-d690-4429-971f-8a7c1d0eec8f'']),
      (''7fc9e455-dd36-46b9-8534-8b230fa5c8b9'',
       [''10dc5d25-d690-4429-971f-8a7c1d0eec8f'']),
      (''de35cb6b-fa81-4f4a-a0ae-86566162b744'',
       [''ffb58868-1a17-471d-bf2c-e22c56111480'',
        ''605312d9-3c72-4552-8134-8e25974cbccd'']),
      (''d522f55f-db34-4be9-920d-4b82b8b7c635'',
       [''10121a46-8178-478b-a80d-e265dc183560'',
        ''54cc0f28-0bc1-429b-ac98-3c543b64e3cd'']),
      (''a1a1f581-c614-440f-a599-b6f0cc3f997d'',
       [''cd6ea2db-6a39-449f-9d1d-ab994cdc491d'',
        ''3eedea83-ccef-4797-8519-18bbd9c893fd'']),
      (''29fba9fc-edf7-4a3e-ba97-4429196e7e6c'',
       [''c549c186-b3b2-4280-9e4b-4d5d029830ac'',
        ''f1990e32-0bfa-46c9-9bb6-ef14c3ce6bf3'']),
      (''dcfe2858-9599-4606-840b-25219d87816d'',
       [''491f5618-14eb-4d61-91e6-090b247e0be0'',
        ''e15738c5-036c-4376-881d-6f35ce8fee50'']),
      (''a58fc953-7e7e-4d54-a0c1-a2a21f7d2f96'',
       [''8a938b00-819a-45b9-a3e3-913f5b12b42c'',
        ''299396a3-6f29-4cb5-b13f-09ad4bbce295'']),
      (''8765a564-daaf-4971-b265-f43e6188b7aa'',
       [''24494b24-407d-4c40-a742-9d2fadab55a5'',
        ''9bbc2474-bbf1-4a3a-93e2-28e484d6899e'']),
      (''72437504-9062-4730-974b-1ebcc66fd4e3'',
       [''b660383c-9fd3-4f03-a1ac-c80ebb6e0826'',
        ''d6a616f5-803b-4c4a-8fb4-27873f95a2c2'']),
      (''5aed38ca-8a81-40de-890e-863cf27c0aee'',
       [''c55e1f47-1e6d-44ec-9b37-12df4f6605ea'',
        ''2d88eb1c-bf49-482f-a3fa-11d324b24c27'']),
      (''a34d64cd-6a7f-4447-89d3-46dd8b60f012'',
       [''76031c54-0856-4af5-8680-169ef19c4845'',
        ''e381cdff-7e4f-4aaf-b2a7-606b5eac2718'']),
      (''c7540a6f-4dd9-4d1c-8693-e009116c55e7'',
       [''0460535a-7284-4dee-802b-1e3e634ee688'']),
      (''ef23721e-1134-4d07-be02-1cd3b6880f83'',
       [''0460535a-7284-4dee-802b-1e3e634ee688'']),
      (''10976313-8081-4023-818f-30d9e6ffedc9'',
       [''0460535a-7284-4dee-802b-1e3e634ee688'']),
      (''fe30cb81-0e8f-4ed5-b260-38c9e44a4725'',
       [''0460535a-7284-4dee-802b-1e3e634ee688'']),
      (''9effbf85-ab41-468a-8c4a-991ea23a8a50'',
       [''0460535a-7284-4dee-802b-1e3e634ee688'']),
      (''3568f452-47d9-456c-b085-c8ba83603016'',
       [''d249b968-9359-42d8-a4aa-13af57bd6bae'',
        ''25a10696-58f2-4884-96d0-19ac235c04c8'']),
      (''bb1374e9-d014-4245-b2cd-e1ee0a0ca36b'',
       [''0460535a-7284-4dee-802b-1e3e634ee688'']),
      (''d8ca2fcc-f6d0-4a06-b8d8-257424878b69'',
       [''0460535a-7284-4dee-802b-1e3e634ee688'']),
      (''4de53ab4-eb14-4d5b-a02b-774c8d93c209'',
       [''0460535a-7284-4dee-802b-1e3e634ee688'']),
      (''f59e6dc1-1d41-451e-8239-f9aaee629111'',
       [''5c29e81d-4fd9-4f20-ba3b-03ab01d3c70f''])]"

text \<open>
  The matcher takes the bets on the opposite wincase of the same game, oldest first, except for
  the bets of a fixed list (\<^verbatim>\<open>matching_fix\<close>), which are matched with the bets the list names.
\<close>

definition betting_match :: "ext_lib \<Rightarrow> nat \<Rightarrow> database \<Rightarrow> (nat list \<times> database) res" where
  "betting_match F i2 db =
     bindE (ix_get (pending_bets db) i2) (\<lambda>bet2.
     case map_of matching_fix (b_uuid (p_data bet2)) of
       Some uuids \<Rightarrow>
         bindE (foldE (\<lambda>u bets. bindE (get_pending_bet u db) (\<lambda>i. Inr (bets @ [i]))) uuids []) (\<lambda>bets.
         match_bets F i2 bets db)
     | None \<Rightarrow>
         match_bets F i2 (pending_by_wincase (p_game_uuid bet2) (create_opposite (b_wincase (p_data bet2))) db) db)"

section \<open>The resolver\<close>

text \<open>The payouts by bet, in the order of the uuids.\<close>

type_synonym payouts = "(uuid \<times> account_name \<times> asset) list"

fun post_payout :: "ext_lib \<Rightarrow> bet_data \<Rightarrow> asset \<Rightarrow> payouts \<Rightarrow> payouts res" where
  "post_payout F bet income [] = Inr [(b_uuid bet, b_better bet, income)]"
| "post_payout F bet income ((u, better, x) # ps) =
     (if b_uuid bet = u then bindE (asset_add F x income) (\<lambda>y. Inr ((u, better, y) # ps))
      else if b_uuid bet < u then Inr ((b_uuid bet, b_better bet, income) # (u, better, x) # ps)
      else bindE (post_payout F bet income ps) (\<lambda>ps. Inr ((u, better, x) # ps)))"

definition resolve_bet ::
  "ext_lib \<Rightarrow> wincase_type list \<Rightarrow> matched_bet_object \<Rightarrow> payouts \<Rightarrow> payouts res"
where
  "resolve_bet F results bet ps =
     (let wins = (\<lambda>w. \<exists>r \<in> set results. \<not> wincase_less r w \<and> \<not> wincase_less w r) in
     bindE (asset_add F (b_stake (m_bet1_data bet)) (b_stake (m_bet2_data bet))) (\<lambda>income.
     if wins (b_wincase (m_bet1_data bet)) then post_payout F (m_bet1_data bet) income ps
     else if wins (b_wincase (m_bet2_data bet)) then post_payout F (m_bet2_data bet) income ps
     else
       bindE (post_payout F (m_bet1_data bet) (b_stake (m_bet1_data bet)) ps) (\<lambda>ps.
       post_payout F (m_bet2_data bet) (b_stake (m_bet2_data bet)) ps)))"

definition pay_out :: "ext_lib \<Rightarrow> uuid \<times> account_name \<times> asset \<Rightarrow> database \<Rightarrow> database res" where
  "pay_out F p db =
     (case p of (u, better, income) \<Rightarrow>
     bindE (get_account better db) (\<lambda>acc.
     bindE (increase_balance F acc income db) (\<lambda>db.
     sub_matched_volume F income db)))"

definition resolve_matched_bets :: "ext_lib \<Rightarrow> uuid \<Rightarrow> wincase_type list \<Rightarrow> database \<Rightarrow> database res" where
  "resolve_matched_bets F u results db =
     (let bets = matched_by_market u db in
     bindE (foldE (\<lambda>i ps. bindE (ix_get (matched_bets db) i) (\<lambda>bet. resolve_bet F results bet ps)) bets []) (\<lambda>ps.
     bindE (foldE (pay_out F) ps db) (\<lambda>db.
     foldE remove_matched_bet bets db)))"

end
