(* ===== verification/Betting_Ledger.thy ===== *)
theory Betting_Ledger
  imports Betting_Service
begin

text \<open>
  What the steps of the betting exchange do to the ledger. A step is described by its flow: by
  how much it changes what the chain holds, and by how much the two volumes of the betting
  statistics run ahead of the stakes they stand for. Every operation of the exchange has the
  flow 0: it conserves the supply and keeps the statistics exact.
\<close>

section \<open>Flows\<close>

definition pending_gap :: "database \<Rightarrow> int" where
  "pending_gap db = amount (dgp_pending_bets_volume (dgp db)) - row_sum (\<lambda>b. amount (b_stake (p_data b))) (indices (pending_bets db))"

definition matched_gap :: "database \<Rightarrow> int" where
  "matched_gap db = amount (dgp_matched_bets_volume (dgp db)) - row_sum matched_sum (indices (matched_bets db))"

definition bet_flow :: "int \<Rightarrow> int \<Rightarrow> int \<Rightarrow> database \<Rightarrow> database \<Rightarrow> bool" where
  "bet_flow d a b db db' \<longleftrightarrow>
     (sound db \<longrightarrow> sound db' \<and> ledger_move d db db' \<and> pending_gap db' = pending_gap db + a \<and> matched_gap db' = matched_gap db + b)"

lemma bet_flow_refl [intro]: "bet_flow 0 0 0 db db"
  by (simp add: bet_flow_def ledger_move_refl)

lemma bet_flow_trans:
  "bet_flow d a b db db1 \<Longrightarrow> bet_flow d' a' b' db1 db2 \<Longrightarrow> d + d' = d'' \<Longrightarrow> a + a' = a'' \<Longrightarrow> b + b' = b'' \<Longrightarrow>
    bet_flow d'' a'' b'' db db2"
  unfolding bet_flow_def using ledger_move_trans [of d db db1 d' db2 d''] by auto

lemma bet_flowI: "(sound db \<Longrightarrow> bet_flow d a b db db') \<Longrightarrow> bet_flow d a b db db'"
  by (simp add: bet_flow_def)

lemma bet_flow_foldE:
  assumes "foldE f xs db = Inr db'" and "\<And>x db db'. x \<in> set xs \<Longrightarrow> f x db = Inr db' \<Longrightarrow> bet_flow 0 0 0 db db'"
  shows "bet_flow 0 0 0 db db'"
  by (rule foldE_inv [OF assms(1), of "bet_flow 0 0 0 db", OF bet_flow_refl])
    (rule bet_flow_trans, assumption, rule assms(2), simp_all)

lemma bet_flow_conserves: "bet_flow 0 a b db db' \<Longrightarrow> conserves db db'"
  by (simp add: bet_flow_def conserves_def)

lemma bet_flow_frame:
  assumes "keeps db db'" and "ledger_move d db db'" and "pending_bets db' = pending_bets db" and "matched_bets db' = matched_bets db"
    and "dgp_pending_bets_volume (dgp db') = dgp_pending_bets_volume (dgp db)"
    and "dgp_matched_bets_volume (dgp db') = dgp_matched_bets_volume (dgp db)"
  shows "bet_flow d 0 0 db db'"
  using assms by (simp add: bet_flow_def keeps_def pending_gap_def matched_gap_def)

section \<open>Primitive steps\<close>

lemma increase_balance_betting:
  assumes "increase_balance F k amt db = Inr db'"
  shows "pending_bets db' = pending_bets db" "matched_bets db' = matched_bets db" "games db' = games db"
    "dgp_pending_bets_volume (dgp db') = dgp_pending_bets_volume (dgp db)"
    "dgp_matched_bets_volume (dgp db') = dgp_matched_bets_volume (dgp db)"
  using assms by (auto simp: increase_balance_def bindE_Inr_iff update_account_def update_dgp_def)

lemma decrease_balance_betting:
  assumes "decrease_balance F k amt db = Inr db'"
  shows "pending_bets db' = pending_bets db" "matched_bets db' = matched_bets db" "games db' = games db"
    "dgp_pending_bets_volume (dgp db') = dgp_pending_bets_volume (dgp db)"
    "dgp_matched_bets_volume (dgp db') = dgp_matched_bets_volume (dgp db)"
  using assms increase_balance_betting by (auto simp: decrease_balance_def bindE_Inr_iff)

lemma deposit_flow:
  assumes "ext_ok F" and "increase_balance F k amt db = Inr db'" and "0 \<le> amount amt"
  shows "bet_flow (amount amt) 0 0 db db'"
  by (intro bet_flow_frame deposit_keeps [OF assms] increase_balance_move [OF assms(1,2)] increase_balance_betting [OF assms(2)])

lemma withdraw_flow:
  assumes "ext_ok F" and "decrease_balance F k amt db = Inr db'"
    and "map_of (indices (accounts db)) k = Some a" and "amount amt \<le> amount (a_balance a)"
  shows "bet_flow (- amount amt) 0 0 db db'"
  by (intro bet_flow_frame decrease_balance_keeps [OF assms] decrease_balance_move [OF assms(1,2)] decrease_balance_betting [OF assms(2)])

lemma volume_step:
  assumes "update_dgp m db = Inr db'"
    and "\<And>p. m (dgp db) = Inr p \<Longrightarrow> p = (dgp db)\<lparr>dgp_pending_bets_volume := v\<rparr> \<or> p = (dgp db)\<lparr>dgp_matched_bets_volume := v\<rparr>"
  shows "bet_flow 0 (amount (dgp_pending_bets_volume (dgp db')) - amount (dgp_pending_bets_volume (dgp db)))
    (amount (dgp_matched_bets_volume (dgp db')) - amount (dgp_matched_bets_volume (dgp db))) db db'"
proof -
  from assms obtain p where db': "db' = db\<lparr>dgp := p\<rparr>"
    and p: "p = (dgp db)\<lparr>dgp_pending_bets_volume := v\<rparr> \<or> p = (dgp db)\<lparr>dgp_matched_bets_volume := v\<rparr>"
    by (auto simp: update_dgp_iff)
  then have ok: "dgp_ok p" if "dgp_ok (dgp db)" using that by (auto simp: dgp_ok_def)
  have "keeps db db'" unfolding db' by (rule keeps_dgp) (rule ok)
  moreover have "ledger_move 0 db db'"
    using p db_ok_dgp [of db p] ok db_ok_dgp_ok [of db] by (auto simp: ledger_move_def db' supply_sum_def gaps_def)
  ultimately show ?thesis by (simp add: bet_flow_def keeps_def pending_gap_def matched_gap_def db')
qed

lemma volume_flows:
  assumes "ext_ok F"
  shows "add_pending_volume F x db = Inr db' \<Longrightarrow> bet_flow 0 (amount x) 0 db db'"
    and "sub_pending_volume F x db = Inr db' \<Longrightarrow> bet_flow 0 (- amount x) 0 db db'"
    and "add_matched_volume F x db = Inr db' \<Longrightarrow> bet_flow 0 0 (amount x) db db'"
    and "sub_matched_volume F x db = Inr db' \<Longrightarrow> bet_flow 0 0 (- amount x) db db'"
proof -
  let ?p = "dgp_pending_bets_volume (dgp db)" and ?m = "dgp_matched_bets_volume (dgp db)"
  note iffs = bindE_Inr_iff asset_add_iff [OF assms] asset_sub_iff [OF assms] update_dgp_iff
  show "bet_flow 0 (amount x) 0 db db'" if "add_pending_volume F x db = Inr db'"
    using volume_step [where v = "?p\<lparr>amount := amount ?p + amount x\<rparr>", OF that [unfolded add_pending_volume_def]] that
    by (auto simp: add_pending_volume_def iffs)
  show "bet_flow 0 (- amount x) 0 db db'" if "sub_pending_volume F x db = Inr db'"
    using volume_step [where v = "?p\<lparr>amount := amount ?p - amount x\<rparr>", OF that [unfolded sub_pending_volume_def]] that
    by (auto simp: sub_pending_volume_def iffs)
  show "bet_flow 0 0 (amount x) db db'" if "add_matched_volume F x db = Inr db'"
    using volume_step [where v = "?m\<lparr>amount := amount ?m + amount x\<rparr>", OF that [unfolded add_matched_volume_def]] that
    by (auto simp: add_matched_volume_def iffs)
  show "bet_flow 0 0 (- amount x) db db'" if "sub_matched_volume F x db = Inr db'"
    using volume_step [where v = "?m\<lparr>amount := amount ?m - amount x\<rparr>", OF that [unfolded sub_matched_volume_def]] that
    by (auto simp: sub_matched_volume_def iffs)
qed

definition bets_view :: "database \<Rightarrow> _" where
  "bets_view db = (pending_bets db, matched_bets db, games db)"

lemma bets_view_same [simp]:
  "increase_balance F k amt db = Inr db' \<Longrightarrow> bets_view db' = bets_view db"
  "decrease_balance F k amt db = Inr db' \<Longrightarrow> bets_view db' = bets_view db"
  "add_pending_volume F x db = Inr db' \<Longrightarrow> bets_view db' = bets_view db"
  "sub_pending_volume F x db = Inr db' \<Longrightarrow> bets_view db' = bets_view db"
  "add_matched_volume F x db = Inr db' \<Longrightarrow> bets_view db' = bets_view db"
  "sub_matched_volume F x db = Inr db' \<Longrightarrow> bets_view db' = bets_view db"
  by (auto simp: increase_balance_betting decrease_balance_betting bets_view_def add_pending_volume_def sub_pending_volume_def
      add_matched_volume_def sub_matched_volume_def update_dgp_iff)

lemma bets_viewD:
  "bets_view db' = bets_view db \<Longrightarrow> pending_bets db' = pending_bets db"
  "bets_view db' = bets_view db \<Longrightarrow> matched_bets db' = matched_bets db"
  "bets_view db' = bets_view db \<Longrightarrow> games db' = games db"
  by (simp_all add: bets_view_def)


section \<open>Rows of bets\<close>

lemma sound_pending:
  assumes "sound db" and "map_of (indices (pending_bets db)) i = Some b"
  shows "bet_solvent (p_data b)" and "symbol (b_stake (p_data b)) = SCORUM_SYMBOL"
  using assms pending_custody.tbl_ok [of db] pending_custody.tbl_solvent [of db] map_of_snd [OF assms(2)]
  by (auto simp: sound_def)

lemma sound_matched:
  assumes "sound db" and "map_of (indices (matched_bets db)) i = Some b"
  shows "bet_solvent (m_bet1_data b)" "bet_solvent (m_bet2_data b)"
    "symbol (b_stake (m_bet1_data b)) = SCORUM_SYMBOL" "symbol (b_stake (m_bet2_data b)) = SCORUM_SYMBOL"
  using assms matched_custody.tbl_ok [of db] matched_custody.tbl_solvent [of db] map_of_snd [OF assms(2)]
  by (auto simp: sound_def)

lemma create_pending_flow:
  assumes "ix_emplace pending_bet_clash (\<lambda>_. Inr v) (pending_bets db) = Inr (k, ix)"
    and "bet_solvent (p_data v)" and "symbol (b_stake (p_data v)) = SCORUM_SYMBOL"
  shows "bet_flow (amount (b_stake (p_data v))) (- amount (b_stake (p_data v))) 0 db (db\<lparr>pending_bets := ix\<rparr>)"
proof -
  have "row_sum f (indices ix) = row_sum f (indices (pending_bets db)) + f v" for f
    using row_sum_emplace [OF assms(1), of f] by (metis sum.inject(2))
  then show ?thesis
    using pending_custody.emplace_step [OF assms(1,3)] assms(2) by (simp add: bet_flow_def keeps_def pending_gap_def matched_gap_def)
qed

lemma remove_pending_flow:
  assumes "remove_pending_bet i db = Inr db'" and "map_of (indices (pending_bets db)) i = Some b"
  shows "bet_flow (- amount (b_stake (p_data b))) (amount (b_stake (p_data b))) 0 db db'"
proof (rule bet_flowI)
  assume s: "sound db"
  from assms(1) obtain ix where ix: "ix_remove i (pending_bets db) = Inr ix" and db': "db' = db\<lparr>pending_bets := ix\<rparr>"
    by (auto simp: remove_pending_bet_def bindE_Inr_iff)
  then have "indices ix = drop_row i (indices (pending_bets db))" by (auto simp: ix_remove_eq_Inr)
  moreover have "wf_index (pending_bets db)" using s by (simp add: sound_def db_ok_def tables_ok_def)
  ultimately have "row_sum f (indices ix) = row_sum f (indices (pending_bets db)) - f b" for f
    using assms(2) by (simp add: row_sum_drop wf_index_def)
  then show ?thesis
    using pending_custody.remove_step [OF ix assms(2)] by (simp add: bet_flow_def keeps_def pending_gap_def matched_gap_def db')
qed

lemma stake_flow:
  assumes "update_pending_stake f i db = Inr db'" and "map_of (indices (pending_bets db)) i = Some b"
    and "f (b_stake (p_data b)) = Inr x" and "symbol x = SCORUM_SYMBOL" and "0 \<le> amount x" "amount x < 2 ^ 63"
  shows "bet_flow (amount x - amount (b_stake (p_data b))) (amount (b_stake (p_data b)) - amount x) 0 db db'"
    and "\<exists>ix. db' = db\<lparr>pending_bets := ix\<rparr> \<and>
      indices ix = put_row i (b\<lparr>p_data := (p_data b)\<lparr>b_stake := x\<rparr>\<rparr>) (indices (pending_bets db))"
proof -
  let ?b = "b\<lparr>p_data := (p_data b)\<lparr>b_stake := x\<rparr>\<rparr>"
  from assms(1) obtain ix where ix: "ix_modify pending_bet_clash i (\<lambda>b. bindE (f (b_stake (p_data b))) (\<lambda>s.
              Inr (b\<lparr>p_data := (p_data b)\<lparr>b_stake := s\<rparr>\<rparr>))) (pending_bets db) = Inr ix" and db': "db' = db\<lparr>pending_bets := ix\<rparr>"
    by (auto simp: update_pending_stake_def bindE_Inr_iff)
  then have rows: "indices ix = put_row i ?b (indices (pending_bets db))"
    using assms(2,3) by (auto simp: ix_modify_eq_Inr)
  with db' show "\<exists>ix. db' = db\<lparr>pending_bets := ix\<rparr> \<and> indices ix = put_row i ?b (indices (pending_bets db))" by blast
  show "bet_flow (amount x - amount (b_stake (p_data b))) (amount (b_stake (p_data b)) - amount x) 0 db db'"
  proof (rule bet_flowI)
    assume s: "sound db"
    then have "wf_index (pending_bets db)" by (simp add: sound_def db_ok_def tables_ok_def)
    then have "row_sum g (indices ix) = row_sum g (indices (pending_bets db)) + g ?b - g b" for g
      using assms(2) by (simp add: rows row_sum_put_old wf_index_def)
    moreover have "bet_solvent (p_data ?b)" using sound_pending(1) [OF s assms(2)] assms(5,6) by (simp add: bet_solvent_def)
    ultimately show ?thesis
      using pending_custody.modify_step [OF ix assms(2), of ?b] assms(3,4)
      by (simp add: bet_flow_def keeps_def pending_gap_def matched_gap_def db')
  qed
qed

lemma create_matched_flow:
  assumes "ix_emplace (\<lambda>_ _. False) (\<lambda>_. Inr v) (matched_bets db) = Inr (k, ix)"
    and "bet_solvent (m_bet1_data v)" "bet_solvent (m_bet2_data v)"
    and "symbol (b_stake (m_bet1_data v)) = SCORUM_SYMBOL" "symbol (b_stake (m_bet2_data v)) = SCORUM_SYMBOL"
  shows "bet_flow (matched_sum v) 0 (- matched_sum v) db (db\<lparr>matched_bets := ix\<rparr>)"
proof -
  have "row_sum f (indices ix) = row_sum f (indices (matched_bets db)) + f v" for f
    using row_sum_emplace [OF assms(1), of f] by (metis sum.inject(2))
  then show ?thesis
    using matched_custody.emplace_step [OF assms(1)] assms(2-) by (simp add: bet_flow_def keeps_def pending_gap_def matched_gap_def)
qed

lemma remove_matched_flow:
  assumes "remove_matched_bet i db = Inr db'" and "map_of (indices (matched_bets db)) i = Some b"
  shows "bet_flow (- matched_sum b) 0 (matched_sum b) db db'"
    and "\<exists>ix. db' = db\<lparr>matched_bets := ix\<rparr> \<and> indices ix = drop_row i (indices (matched_bets db))"
proof -
  from assms(1) obtain ix where ix: "ix_remove i (matched_bets db) = Inr ix" and db': "db' = db\<lparr>matched_bets := ix\<rparr>"
    by (auto simp: remove_matched_bet_def bindE_Inr_iff)
  then have rows: "indices ix = drop_row i (indices (matched_bets db))" by (auto simp: ix_remove_eq_Inr)
  with db' show "\<exists>ix. db' = db\<lparr>matched_bets := ix\<rparr> \<and> indices ix = drop_row i (indices (matched_bets db))" by blast
  show "bet_flow (- matched_sum b) 0 (matched_sum b) db db'"
  proof (rule bet_flowI)
    assume s: "sound db"
    then have "wf_index (matched_bets db)" by (simp add: sound_def db_ok_def tables_ok_def)
    then have "row_sum f (indices ix) = row_sum f (indices (matched_bets db)) - f b" for f
      using assms(2) by (simp add: rows row_sum_drop wf_index_def)
    then show ?thesis
      using matched_custody.remove_step [OF ix assms(2)] by (simp add: bet_flow_def keeps_def pending_gap_def matched_gap_def db')
  qed
qed

section \<open>Cancelling\<close>

lemma cancel_pending_bet_flow:
  assumes F: "ext_ok F" and c: "cancel_pending_bet F i db = Inr db'"
  shows "bet_flow 0 0 0 db db'"
proof (rule bet_flowI)
  assume s: "sound db"
  from c obtain b acc db1 db2 where b: "map_of (indices (pending_bets db)) i = Some b"
    and 1: "increase_balance F acc (b_stake (p_data b)) db = Inr db1"
    and 2: "sub_pending_volume F (b_stake (p_data b)) db1 = Inr db2" and 3: "remove_pending_bet i db2 = Inr db'"
    by (auto simp: cancel_pending_bet_def bindE_Inr_iff ix_get_iff)
  have "pending_bets db2 = pending_bets db" 
    using 1 2 by (intro bets_viewD(1)) simp
  with b have b2: "map_of (indices (pending_bets db2)) i = Some b" by simp
  have pos: "0 \<le> amount (b_stake (p_data b))" using sound_pending(1) [OF s b] by (simp add: bet_solvent_def)
  show ?thesis
    by (rule bet_flow_trans [OF bet_flow_trans [OF deposit_flow [OF F 1 pos] volume_flows(2) [OF F 2] refl refl refl]
          remove_pending_flow [OF 3 b2]]) simp_all
qed

lemma cancel_pending_bets_flow:
  "ext_ok F \<Longrightarrow> cancel_pending_bets F ids db = Inr db' \<Longrightarrow> bet_flow 0 0 0 db db'"
  unfolding cancel_pending_bets_def by (erule bet_flow_foldE) (rule cancel_pending_bet_flow)

lemma cancel_pending_bets_matched:
  assumes "cancel_pending_bets F ids db = Inr db'"
  shows "matched_bets db' = matched_bets db"
proof -
  have "matched_bets db2 = matched_bets db1" if "cancel_pending_bet F i db1 = Inr db2" for i db1 db2
    using that by (auto simp: cancel_pending_bet_def bindE_Inr_iff remove_pending_bet_def dest!: bets_view_same bets_viewD(2))
  then show ?thesis
    using foldE_inv [OF assms [unfolded cancel_pending_bets_def], of "\<lambda>d. matched_bets d = matched_bets db"] by simp
qed

lemma return_bet_flow:
  assumes F: "ext_ok F" and "return_bet F b db = Inr db'" and "0 \<le> amount (b_stake b)"
  shows "bet_flow (amount (b_stake b)) 0 (- amount (b_stake b)) db db'" and "bets_view db' = bets_view db"
proof -
  from assms obtain acc db1 where 1: "increase_balance F acc (b_stake b) db = Inr db1"
    and 2: "sub_matched_volume F (b_stake b) db1 = Inr db'" by (auto simp: return_bet_def bindE_Inr_iff)
  show "bet_flow (amount (b_stake b)) 0 (- amount (b_stake b)) db db'"
    by (rule bet_flow_trans [OF deposit_flow [OF F 1 assms(3)] volume_flows(4) [OF F 2]]) simp_all
  show "bets_view db' = bets_view db" using 1 2 by simp
qed

lemma cancel_matched_bet_flow:
  assumes F: "ext_ok F" and c: "cancel_matched_bet F i db = Inr db'"
  shows "bet_flow 0 0 0 db db'"
proof (rule bet_flowI)
  assume s: "sound db"
  from c obtain b db1 db2 where b: "map_of (indices (matched_bets db)) i = Some b"
    and 1: "return_bet F (m_bet1_data b) db = Inr db1" and 2: "return_bet F (m_bet2_data b) db1 = Inr db2"
    and 3: "remove_matched_bet i db2 = Inr db'"
    by (auto simp: cancel_matched_bet_def bindE_Inr_iff ix_get_iff)
  have pos: "0 \<le> amount (b_stake (m_bet1_data b))" "0 \<le> amount (b_stake (m_bet2_data b))"
    using sound_matched(1,2) [OF s b] by (simp_all add: bet_solvent_def)
  note f1 = return_bet_flow [OF F 1 pos(1)] and f2 = return_bet_flow [OF F 2 pos(2)]
  have "matched_bets db2 = matched_bets db" using f1(2) f2(2) by (intro bets_viewD(2)) simp
  with b have b2: "map_of (indices (matched_bets db2)) i = Some b" by simp
  show ?thesis
    by (rule bet_flow_trans [OF bet_flow_trans [OF f1(1) f2(1) refl refl refl] remove_matched_flow(1) [OF 3 b2]])
      (simp_all add: matched_sum_def)
qed

lemma cancel_matched_bets_flow:
  "ext_ok F \<Longrightarrow> cancel_matched_bets F ids db = Inr db' \<Longrightarrow> bet_flow 0 0 0 db db'"
  unfolding cancel_matched_bets_def by (erule bet_flow_foldE) (rule cancel_matched_bet_flow)

lemma cancel_bets_flow:
  assumes "ext_ok F" and "cancel_bets F u db = Inr db'"
  shows "bet_flow 0 0 0 db db'"
proof -
  from assms(2) obtain db1 where "cancel_pending_bets F (pending_by_market u db) db = Inr db1"
    and "cancel_matched_bets F (matched_by_market u db1) db1 = Inr db'" by (auto simp: cancel_bets_def bindE_Inr_iff)
  from bet_flow_trans [OF cancel_pending_bets_flow [OF assms(1) this(1)] cancel_matched_bets_flow [OF assms(1) this(2)]]
  show ?thesis by simp
qed

lemma cancel_bets_of_markets_flow:
  assumes "ext_ok F" and "cancel_bets_of_markets F u ms db = Inr db'"
  shows "bet_flow 0 0 0 db db'"
proof -
  from assms(2) obtain ids ids' db1 where "cancel_pending_bets F ids db = Inr db1" and "cancel_matched_bets F ids' db1 = Inr db'"
    by (auto simp: cancel_bets_of_markets_def bindE_Inr_iff Let_def)
  from bet_flow_trans [OF cancel_pending_bets_flow [OF assms(1) this(1)] cancel_matched_bets_flow [OF assms(1) this(2)]]
  show ?thesis by simp
qed

section \<open>Restoring\<close>

lemma restore_pending_bet_flow:
  assumes F: "ext_ok F" and r: "restore_pending_bet F b u db = Inr db'"
    and ok: "bet_solvent b" "symbol (b_stake b) = SCORUM_SYMBOL"
  shows "bet_flow (amount (b_stake b)) 0 (- amount (b_stake b)) db db'" and "matched_bets db' = matched_bets db"
proof -
  from r obtain db1 db2 where 1: "(if find_pending_bet (b_uuid b) db \<noteq> None then
              bindE (get_pending_bet (b_uuid b) db) (\<lambda>i. update_pending_stake (\<lambda>s. asset_add F s (b_stake b)) i db)
            else bindE (ix_emplace pending_bet_clash (\<lambda>_. Inr \<lparr>p_game_uuid = u,
                       p_market = create_market (b_wincase b), p_data = b\<rparr>) (pending_bets db)) (\<lambda>(i, ix).
              Inr (db\<lparr>pending_bets := ix\<rparr>))) = Inr db1"
    and 2: "add_pending_volume F (b_stake b) db1 = Inr db2" and 3: "sub_matched_volume F (b_stake b) db2 = Inr db'"
    unfolding restore_pending_bet_def bindE_Inr_iff by (elim exE conjE) (rule that)
  have first: "bet_flow (amount (b_stake b)) (- amount (b_stake b)) 0 db db1 \<and> matched_bets db1 = matched_bets db"
  proof (cases "find_pending_bet (b_uuid b) db \<noteq> None")
    case True
    with 1 obtain i where upd: "update_pending_stake (\<lambda>s. asset_add F s (b_stake b)) i db = Inr db1" by (auto simp: bindE_Inr_iff)
    then obtain p x where p: "map_of (indices (pending_bets db)) i = Some p"
      and x: "asset_add F (b_stake (p_data p)) (b_stake b) = Inr x"
      by (auto simp: update_pending_stake_def bindE_Inr_iff ix_modify_eq_Inr)
    then have amt: "amount x = amount (b_stake (p_data p)) + amount (b_stake b)" "amount x < 2 ^ 63" "symbol x = SCORUM_SYMBOL"
      using ok by (auto simp: asset_add_iff [OF F] in_i64_def)
    have "bet_flow (amount (b_stake b)) (- amount (b_stake b)) 0 db db1"
    proof (rule bet_flowI)
      assume s: "sound db"
      then have "0 \<le> amount x" using sound_pending(1) [OF s p] ok amt by (simp add: bet_solvent_def)
      from stake_flow(1) [OF upd p x amt(3) this amt(2)] show ?thesis by (simp add: amt)
    qed
    moreover have "matched_bets db1 = matched_bets db" using upd by (auto simp: update_pending_stake_def bindE_Inr_iff)
    ultimately show ?thesis ..
  next
    case False
    with 1 show ?thesis using create_pending_flow ok by (fastforce simp: bindE_Inr_iff)
  qed
  show "bet_flow (amount (b_stake b)) 0 (- amount (b_stake b)) db db'"
    by (rule bet_flow_trans [OF bet_flow_trans [OF conjunct1 [OF first] volume_flows(1) [OF F 2] refl refl refl]
          volume_flows(4) [OF F 3]]) simp_all
  have "matched_bets db' = matched_bets db1" using 2 3 by (intro bets_viewD(2)) simp
  with first show "matched_bets db' = matched_bets db" by simp
qed

lemma put_back_flow:
  assumes F: "ext_ok F" and "(if c then return_bet F b db else restore_pending_bet F b u db) = Inr db'"
    and ok: "bet_solvent b" "symbol (b_stake b) = SCORUM_SYMBOL"
  shows "bet_flow (amount (b_stake b)) 0 (- amount (b_stake b)) db db' \<and> matched_bets db' = matched_bets db"
proof (cases c)
  case True
  with assms(2) have r: "return_bet F b db = Inr db'" by simp
  have "0 \<le> amount (b_stake b)" using ok(1) by (simp add: bet_solvent_def)
  from return_bet_flow [OF F r this] show ?thesis using bets_viewD(2) by blast
next
  case False
  with assms(2) have r: "restore_pending_bet F b u db = Inr db'" by simp
  from restore_pending_bet_flow [OF F r ok] show ?thesis by blast
qed

lemma undo_matched_bet_flow:
  assumes F: "ext_ok F" and u: "undo_matched_bet F u t i db = Inr db'" and b: "map_of (indices (matched_bets db)) i = Some b"
  shows "bet_flow (matched_sum b) 0 (- matched_sum b) db db'" and "sound db \<Longrightarrow> matched_bets db' = matched_bets db"
proof -
  have both: "bet_flow (matched_sum b) 0 (- matched_sum b) db db' \<and> matched_bets db' = matched_bets db" if s: "sound db"
  proof -
    from u b obtain db1 where
      1: "(if b_created (m_bet1_data b) \<ge> t then return_bet F (m_bet1_data b) db else restore_pending_bet F (m_bet1_data b) u db) = Inr db1" and
      2: "(if b_created (m_bet2_data b) \<ge> t then return_bet F (m_bet2_data b) db1 else restore_pending_bet F (m_bet2_data b) u db1) = Inr db'"
      by (auto simp: undo_matched_bet_def bindE_Inr_iff ix_get_iff)
    note ok = sound_matched [OF s b]
    note f1 = put_back_flow [OF F 1 ok(1,3)] and f2 = put_back_flow [OF F 2 ok(2,4)]
    show ?thesis
      using bet_flow_trans [OF conjunct1 [OF f1] conjunct1 [OF f2] refl refl refl] f1 f2 by (simp add: matched_sum_def)
  qed
  show "bet_flow (matched_sum b) 0 (- matched_sum b) db db'" by (rule bet_flowI) (use both in simp)
  show "matched_bets db' = matched_bets db" if "sound db" using both [OF that] by simp
qed

text \<open>The matched stakes of a list of bets.\<close>

definition stakes_of :: "nat list \<Rightarrow> database \<Rightarrow> int" where
  "stakes_of ids db = sum_list (map (\<lambda>i. matched_sum (the (map_of (indices (matched_bets db)) i))) ids)"

lemma undo_all_flow:
  assumes F: "ext_ok F" and "foldE (undo_matched_bet F u t) ids db = Inr db'" and "sound db"
    and "\<And>i. i \<in> set ids \<Longrightarrow> i \<in> dom (map_of (indices (matched_bets db)))"
  shows "bet_flow (stakes_of ids db) 0 (- stakes_of ids db) db db' \<and> matched_bets db' = matched_bets db"
  using assms(2-)
proof (induction ids arbitrary: db)
  case Nil
  then show ?case by (auto simp: stakes_of_def)
next
  case (Cons i ids)
  then obtain b db1 where b: "map_of (indices (matched_bets db)) i = Some b" and 1: "undo_matched_bet F u t i db = Inr db1"
    and 2: "foldE (undo_matched_bet F u t) ids db1 = Inr db'" by (fastforce simp: bindE_Inr_iff)
  note step = undo_matched_bet_flow [OF F 1 b]
  have s1: "sound db1" using step(1) Cons.prems(2) by (simp add: bet_flow_def)
  have m1: "matched_bets db1 = matched_bets db" by (rule step(2) [OF Cons.prems(2)])
  have IH: "bet_flow (stakes_of ids db1) 0 (- stakes_of ids db1) db1 db' \<and> matched_bets db' = matched_bets db1"
    by (rule Cons.IH [OF 2 s1]) (use Cons.prems(3) m1 in simp)
  show ?case
    using bet_flow_trans [OF step(1) conjunct1 [OF IH] refl refl refl] IH m1 b by (simp add: stakes_of_def)
qed

lemma remove_all_flow:
  assumes "foldE remove_matched_bet ids db = Inr db'" and "distinct ids" and "sound db"
    and "\<And>i. i \<in> set ids \<Longrightarrow> i \<in> dom (map_of (indices (matched_bets db)))"
  shows "bet_flow (- stakes_of ids db) 0 (stakes_of ids db) db db'"
  using assms
proof (induction ids arbitrary: db)
  case Nil
  then show ?case by (auto simp: stakes_of_def)
next
  case (Cons i ids)
  then obtain b db1 where b: "map_of (indices (matched_bets db)) i = Some b" and 1: "remove_matched_bet i db = Inr db1"
    and 2: "foldE remove_matched_bet ids db1 = Inr db'" by (fastforce simp: bindE_Inr_iff)
  note step = remove_matched_flow [OF 1 b]
  have s1: "sound db1" using step(1) Cons.prems(3) by (simp add: bet_flow_def)
  from step(2) have m1: "map_of (indices (matched_bets db1)) j = (if j = i then None else map_of (indices (matched_bets db)) j)" for j
    by (auto simp: map_of_drop_row)
  have "stakes_of ids db1 = stakes_of ids db"
    unfolding stakes_of_def using Cons.prems(2) m1 by (intro arg_cong [of _ _ sum_list] map_cong refl) auto
  moreover have "bet_flow (- stakes_of ids db1) 0 (stakes_of ids db1) db1 db'"
    by (rule Cons.IH [OF 2 _ s1]) (use Cons.prems(2,4) m1 in \<open>auto simp: dom_def\<close>)
  ultimately show ?case
    using bet_flow_trans [OF step(1), of "- stakes_of ids db" 0 "stakes_of ids db" db', OF _ refl refl refl] b by (simp add: stakes_of_def)
qed

lemma distinct_fst_sort_key: "distinct (map fst (sort_key f xs)) \<longleftrightarrow> distinct (map fst xs)"
proof -
  have "mset (map fst (sort_key f xs)) = mset (map fst xs)" by simp
  then show ?thesis by (metis mset_eq_imp_distinct_iff)
qed

lemma map_of_iff_set: "distinct (map fst rs) \<Longrightarrow> map_of rs i = Some v \<longleftrightarrow> (i, v) \<in> set rs"
  by simp

lemma matched_ranges:
  assumes "sound db"
  shows "distinct (matched_by_market u db)" "distinct (matched_by_created u t db)"
    "i \<in> set (matched_by_market u db) \<longleftrightarrow> (\<exists>b. map_of (indices (matched_bets db)) i = Some b \<and> m_game_uuid b = u)"
    "i \<in> set (matched_by_created u t db) \<longleftrightarrow> (\<exists>b. map_of (indices (matched_bets db)) i = Some b \<and> m_game_uuid b = u \<and> t \<le> m_created b)"
proof -
  have d: "distinct (map fst (indices (matched_bets db)))"
    using assms by (simp add: sound_def db_ok_def tables_ok_def wf_index_def sorted_rows_distinct)
  then show "distinct (matched_by_market u db)" "distinct (matched_by_created u t db)"
    unfolding matched_by_market_def matched_by_created_def
    by (auto intro!: distinct_sort_by simp: distinct_map_filter distinct_fst_sort_key)
  show "i \<in> set (matched_by_market u db) \<longleftrightarrow> (\<exists>b. map_of (indices (matched_bets db)) i = Some b \<and> m_game_uuid b = u)"
    "i \<in> set (matched_by_created u t db) \<longleftrightarrow> (\<exists>b. map_of (indices (matched_bets db)) i = Some b \<and> m_game_uuid b = u \<and> t \<le> m_created b)"
    unfolding map_of_iff_set [OF d] by (force simp: matched_by_market_def matched_by_created_def set_sort_by)+
qed

lemma cancel_bets_after_flow:
  assumes F: "ext_ok F" and c: "cancel_bets_after F u t db = Inr db'"
  shows "bet_flow 0 0 0 db db'"
proof (rule bet_flowI)
  assume s: "sound db"
  let ?ids = "matched_by_created u t db"
  from c obtain db1 db2 where 1: "cancel_pending_bets F (pending_by_created u t db) db = Inr db1"
    and 2: "foldE (undo_matched_bet F u t) ?ids db1 = Inr db2" and 3: "foldE remove_matched_bet ?ids db2 = Inr db'"
    by (auto simp: cancel_bets_after_def bindE_Inr_iff Let_def)
  note f1 = cancel_pending_bets_flow [OF F 1]
  have s1: "sound db1" using f1 s by (simp add: bet_flow_def)
  have m1: "matched_bets db1 = matched_bets db" using 1 cancel_pending_bets_matched by simp
  have rows: "\<And>i. i \<in> set ?ids \<Longrightarrow> i \<in> dom (map_of (indices (matched_bets db1)))"
    using matched_ranges(4) [OF s] m1 by auto
  have f2: "bet_flow (stakes_of ?ids db1) 0 (- stakes_of ?ids db1) db1 db2 \<and> matched_bets db2 = matched_bets db1"
    by (rule undo_all_flow [OF F 2 s1 rows])
  have s2: "sound db2" using f2 s1 by (simp add: bet_flow_def)
  have f3: "bet_flow (- stakes_of ?ids db2) 0 (stakes_of ?ids db2) db2 db'"
    by (rule remove_all_flow [OF 3 matched_ranges(2) [OF s] s2]) (use rows f2 in simp)
  have "stakes_of ?ids db2 = stakes_of ?ids db1" using f2 by (simp add: stakes_of_def)
  then show ?thesis
    using bet_flow_trans [OF bet_flow_trans [OF f1 conjunct1 [OF f2] refl refl refl] f3] by simp
qed

section \<open>Matching\<close>

lemma wincase_opposite_distinct:
  assumes "is_wincase v" "is_wincase w" and "wincase_equal v (create_opposite w)"
  shows "v \<noteq> w"
  using assms by (auto simp: wincase_equal_iff)

lemma match_pair_flow:
  assumes F: "ext_ok F" and p: "match_pair F i1 i2 m db = Inr db'"
    and b1: "map_of (indices (pending_bets db)) i1 = Some b1" and b2: "map_of (indices (pending_bets db)) i2 = Some b2"
    and m: "calculate_matched_stake F (b_stake (p_data b1)) (b_stake (p_data b2)) (b_odds (p_data b1)) (b_odds (p_data b2)) = Inr m"
    and pos: "0 < amount (bet1_matched m)" "0 < amount (bet2_matched m)"
  shows "bet_flow 0 0 0 db db'"
proof (rule bet_flowI)
  assume s: "sound db"
  let ?m1 = "amount (bet1_matched m)" and ?m2 = "amount (bet2_matched m)"
    and ?s1 = "b_stake (p_data b1)" and ?s2 = "b_stake (p_data b2)"
  note ok1 = sound_pending [OF s b1] and ok2 = sound_pending [OF s b2]
  obtain n d where nd: "o_simplified (b_odds (p_data b1)) = (n, d)" by (cases "o_simplified (b_odds (p_data b1))")
  have o1: "wf_odds (b_odds (p_data b1))" "n < 2 ^ 31" and o2: "wf_odds (b_odds (p_data b2))" and
    st: "0 \<le> amount ?s1" "amount ?s1 < 2 ^ 63" "0 \<le> amount ?s2" "amount ?s2 < 2 ^ 63"
    using ok1(1) ok2(1) nd by (simp_all add: bet_solvent_def)
  have le: "?m1 \<le> amount ?s1" "?m2 \<le> amount ?s2" and sym: "symbol (bet1_matched m) = SCORUM_SYMBOL" "symbol (bet2_matched m) = SCORUM_SYMBOL"
    using matched_stake_bounds [OF F m o1(1) nd o1(2) o2 st pos] by auto
  from p b1 b2 obtain db1 db2 db3 db4 both where
    1: "create_matched_bet b1 b2 m (dgp_time (dgp db)) db = Inr db1" and
    2: "update_pending_stake (\<lambda>s. asset_sub F s (bet1_matched m)) i1 db1 = Inr db2" and
    3: "update_pending_stake (\<lambda>s. asset_sub F s (bet2_matched m)) i2 db2 = Inr db3" and
    4: "asset_add F (bet1_matched m) (bet2_matched m) = Inr both" and
    5: "add_matched_volume F both db3 = Inr db4" and 6: "sub_pending_volume F both db4 = Inr db'"
    by (auto simp: match_pair_def bindE_Inr_iff ix_get_iff)
  have f1: "bet_flow (?m1 + ?m2) 0 (- (?m1 + ?m2)) db db1" and db1: "pending_bets db1 = pending_bets db" and ne: "i1 \<noteq> i2"
  proof -
    let ?v = "\<lparr>m_game_uuid = p_game_uuid b1, m_market = p_market b1, m_created = dgp_time (dgp db),
              m_bet1_data = (p_data b1)\<lparr>b_stake := bet1_matched m\<rparr>, m_bet2_data = (p_data b2)\<lparr>b_stake := bet2_matched m\<rparr>\<rparr>"
    from 1 obtain k ix where opp: "wincase_equal (b_wincase (p_data b1)) (create_opposite (b_wincase (p_data b2)))"
      and ix: "ix_emplace (\<lambda>_ _. False) (\<lambda>_. Inr ?v) (matched_bets db) = Inr (k, ix)" and db1: "db1 = db\<lparr>matched_bets := ix\<rparr>"
      by (auto simp: create_matched_bet_def bindE_Inr_iff fc_assert_Inr_iff)
    show "pending_bets db1 = pending_bets db" by (simp add: db1)
    show "i1 \<noteq> i2" using opp b1 b2 wincase_opposite_distinct [of "b_wincase (p_data b1)" "b_wincase (p_data b2)"] ok1(1) ok2(1)
      by (auto simp: bet_solvent_def)
    show "bet_flow (?m1 + ?m2) 0 (- (?m1 + ?m2)) db db1"
      using create_matched_flow [OF ix] ok1(1) ok2(1) pos le sym by (simp add: db1 bet_solvent_def matched_sum_def)
  qed
  have sub1: "asset_sub F ?s1 (bet1_matched m) = Inr (SCR (amount ?s1 - ?m1))"
    using 2 b1 db1 SCR_amount ok1(2) by (auto simp: update_pending_stake_def bindE_Inr_iff ix_modify_eq_Inr asset_sub_iff [OF F])
  note f2 = stake_flow [OF 2 _ sub1, unfolded db1, OF b1]
  then obtain ix where db2: "db2 = db1\<lparr>pending_bets := ix\<rparr>"
    and ix: "indices ix = put_row i1 (b1\<lparr>p_data := (p_data b1)\<lparr>b_stake := SCR (amount ?s1 - ?m1)\<rparr>\<rparr>) (indices (pending_bets db))"
    using le pos st by auto
  have "wf_index (pending_bets db)" using s by (simp add: sound_def db_ok_def tables_ok_def)
  then have b2': "map_of (indices (pending_bets db2)) i2 = Some b2"
    using b2 ne by (simp add: db2 ix map_of_put_row wf_index_def)
  have sub2: "asset_sub F ?s2 (bet2_matched m) = Inr (SCR (amount ?s2 - ?m2))"
    using 3 b2' SCR_amount ok2(2) by (auto simp: update_pending_stake_def bindE_Inr_iff ix_modify_eq_Inr asset_sub_iff [OF F])
  note f3 = stake_flow(1) [OF 3 b2' sub2]
  have both: "amount both = ?m1 + ?m2" using 4 by (auto simp: asset_add_iff [OF F])
  have g2: "bet_flow (- ?m1) ?m1 0 db1 db2" using f2(1) le pos st by simp
  have g3: "bet_flow (- ?m2) ?m2 0 db2 db3" using f3 le pos st by simp
  have "bet_flow 0 (?m1 + ?m2) (- (?m1 + ?m2)) db db3"
    by (rule bet_flow_trans [OF bet_flow_trans [OF f1 g2 refl refl refl] g3]) simp_all
  from bet_flow_trans [OF bet_flow_trans [OF this volume_flows(3) [OF F 5] refl refl refl] volume_flows(2) [OF F 6]]
  show ?thesis by (simp add: both)
qed

lemma match_bets_flow:
  assumes F: "ext_ok F"
  shows "match_bets F i2 ids db = Inr (spent, db') \<Longrightarrow> bet_flow 0 0 0 db db'"
proof (induction ids arbitrary: db spent)
  case Nil
  then show ?case by auto
next
  case (Cons i1 ids)
  from Cons.prems obtain b1 b2 fits where b1: "map_of (indices (pending_bets db)) i1 = Some b1"
    and b2: "map_of (indices (pending_bets db)) i2 = Some b2" and fits: "is_bets_matched b1 b2 = Inr fits"
    by (auto simp: bindE_Inr_iff ix_get_iff)
  show ?case
  proof (cases fits)
    case False
    with Cons b1 b2 fits show ?thesis by (simp add: ix_get_def ix_find_def)
  next
    case True
    have g: "ix_get (pending_bets db) i1 = Inr b1" "ix_get (pending_bets db) i2 = Inr b2" using b1 b2 by (simp_all add: ix_get_iff)
    from Cons.prems obtain m db1 more1 more2 where
      m: "calculate_matched_stake F (b_stake (p_data b1)) (b_stake (p_data b2)) (b_odds (p_data b1)) (b_odds (p_data b2)) = Inr m"
      and 1: "(if amount (bet1_matched m) > 0 \<and> amount (bet2_matched m) > 0 then match_pair F i1 i2 m db else Inr db) = Inr db1"
      and rest: "(let spent = (if more1 then [] else [i1]) in if \<not> more2 then Inr (spent @ [i2], db1)
       else bindE (match_bets F i2 ids db1) (\<lambda>(rest, db). Inr (spent @ rest, db))) = Inr (spent, db')"
      unfolding match_bets.simps g fits [unfolded eqTrueI [OF True]] bindE_simps not_True_eq_False if_False bindE_Inr_iff
      by (elim exE conjE) (rule that)
    from rest have 2: "db' = db1 \<or> (\<exists>rest. match_bets F i2 ids db1 = Inr (rest, db'))"
      by (cases more2) (auto simp: Let_def bindE_Inr_iff)
    have "bet_flow 0 0 0 db db1"
      using 1 match_pair_flow [OF F _ b1 b2 m] by (auto split: if_splits)
    moreover have "bet_flow 0 0 0 db1 db'" using 2 Cons.IH by auto
    ultimately show ?thesis using bet_flow_trans [of 0 0 0 db db1 0 0 0 db'] by simp
  qed
qed

lemma betting_match_flow:
  "ext_ok F \<Longrightarrow> betting_match F i2 db = Inr (spent, db') \<Longrightarrow> bet_flow 0 0 0 db db'"
  by (auto simp: betting_match_def bindE_Inr_iff split: option.splits intro: match_bets_flow)

section \<open>Placing a bet\<close>

lemma bet_flow_history: "bet_flow 0 0 0 db (db\<lparr>bet_uuid_history := ix\<rparr>)"
  by (rule bet_flow_frame) (auto intro!: keeps_same ledger_move_same simp: sound_view_def ledger_view_def tables_ok_def)

lemma create_pending_bet_flow:
  assumes F: "ext_ok F" and c: "create_pending_bet F better stake k w g u kind db = Inr (i, db')"
    and ok: "0 \<le> amount stake" "amount stake < 2 ^ 63" "wf_odds k" "fst (o_simplified k) < 2 ^ 31" "is_wincase w"
  shows "bet_flow 0 0 0 db db'"
proof -
  let ?v = "\<lparr>p_game_uuid = g, p_market = create_market w, p_data = \<lparr>b_uuid = u, b_created = dgp_time (dgp db), b_better = better,
     b_wincase = w, b_stake = stake, b_odds = k, b_kind = kind\<rparr>\<rparr>"
  from c obtain acc a hist ix db1 where a: "map_of (indices (accounts db)) acc = Some a"
    and le: "asset_ge (a_balance a) stake = Inr True"
    and ix: "ix_emplace pending_bet_clash (\<lambda>_. Inr ?v) (pending_bets (db\<lparr>bet_uuid_history := hist\<rparr>)) = Inr (i, ix)"
    and 1: "add_pending_volume F stake (db\<lparr>bet_uuid_history := hist, pending_bets := ix\<rparr>) = Inr db1"
    and 2: "decrease_balance F acc stake db1 = Inr db'"
    by (auto simp: create_pending_bet_def bindE_Inr_iff account_at_iff assertE_iff Let_def)
  have sym: "symbol stake = SCORUM_SYMBOL" using decrease_balance_symbol [OF F 2] .
  have "accounts db1 = accounts db" using 1 by (auto simp: add_pending_volume_def update_dgp_iff)
  with a have a1: "map_of (indices (accounts db1)) acc = Some a" by simp
  have "amount stake \<le> amount (a_balance a)" using le by (auto simp: asset_order_iffs)
  note f4 = withdraw_flow [OF F 2 a1 this]
  have f2: "bet_flow (amount stake) (- amount stake) 0 (db\<lparr>bet_uuid_history := hist\<rparr>) (db\<lparr>bet_uuid_history := hist, pending_bets := ix\<rparr>)"
    using create_pending_flow [OF ix] ok sym by (simp add: bet_solvent_def)
  show ?thesis
    by (rule bet_flow_trans [OF bet_flow_trans [OF bet_flow_trans [OF bet_flow_history f2 refl refl refl]
            volume_flows(1) [OF F 1] refl refl refl] f4]) simp_all
qed

section \<open>Resolving\<close>

definition payout_sum :: "payouts \<Rightarrow> int" where
  "payout_sum ps = sum_list (map (\<lambda>p. amount (snd (snd p))) ps)"

definition payouts_nonneg :: "payouts \<Rightarrow> bool" where
  "payouts_nonneg ps \<longleftrightarrow> list_all (\<lambda>p. 0 \<le> amount (snd (snd p))) ps"

lemma post_payout_sum:
  assumes F: "ext_ok F"
  shows "post_payout F b x ps = Inr ps' \<Longrightarrow> payouts_nonneg ps \<Longrightarrow> 0 \<le> amount x \<Longrightarrow>
    payout_sum ps' = payout_sum ps + amount x \<and> payouts_nonneg ps'"
proof (induction ps arbitrary: ps')
  case (Cons p ps)
  obtain u better y where p: "p = (u, better, y)" by (cases p)
  show ?case
  proof (cases "b_uuid b = u \<or> b_uuid b < u")
    case True
    with Cons.prems show ?thesis
      by (auto simp: p bindE_Inr_iff asset_add_iff [OF F] payout_sum_def payouts_nonneg_def split: if_splits)
  next
    case False
    with Cons.prems obtain qs where qs: "post_payout F b x ps = Inr qs" "ps' = (u, better, y) # qs"
      by (auto simp: p bindE_Inr_iff)
    with Cons.IH [OF qs(1)] Cons.prems show ?thesis by (simp add: p payout_sum_def payouts_nonneg_def)
  qed
qed (simp add: payout_sum_def payouts_nonneg_def)

lemma resolve_bet_sum:
  assumes F: "ext_ok F" and r: "resolve_bet F rs b ps = Inr ps'" and n: "payouts_nonneg ps"
    and pos: "0 \<le> amount (b_stake (m_bet1_data b))" "0 \<le> amount (b_stake (m_bet2_data b))"
  shows "payout_sum ps' = payout_sum ps + matched_sum b \<and> payouts_nonneg ps'"
proof -
  let ?w = "\<lambda>w. \<exists>r \<in> set rs. \<not> wincase_less r w \<and> \<not> wincase_less w r"
  from r obtain x where "asset_add F (b_stake (m_bet1_data b)) (b_stake (m_bet2_data b)) = Inr x"
    and r': "(if ?w (b_wincase (m_bet1_data b)) then post_payout F (m_bet1_data b) x ps
      else if ?w (b_wincase (m_bet2_data b)) then post_payout F (m_bet2_data b) x ps
      else bindE (post_payout F (m_bet1_data b) (b_stake (m_bet1_data b)) ps) (\<lambda>ps.
        post_payout F (m_bet2_data b) (b_stake (m_bet2_data b)) ps)) = Inr ps'"
    unfolding resolve_bet_def Let_def bindE_Inr_iff by (elim exE conjE) (rule that)
  then have x: "amount x = matched_sum b" "0 \<le> amount x" using pos by (auto simp: asset_add_iff [OF F] matched_sum_def)
  show ?thesis
  proof (cases "?w (b_wincase (m_bet1_data b)) \<or> ?w (b_wincase (m_bet2_data b))")
    case True
    then obtain c where "post_payout F c x ps = Inr ps'" using r' by meson
    from post_payout_sum [OF F this n x(2)] show ?thesis by (simp add: x(1))
  next
    case False
    then obtain qs where qs: "post_payout F (m_bet1_data b) (b_stake (m_bet1_data b)) ps = Inr qs"
      "post_payout F (m_bet2_data b) (b_stake (m_bet2_data b)) qs = Inr ps'"
      using r' by (simp only: if_False de_Morgan_disj bindE_Inr_iff) blast
    note one = post_payout_sum [OF F qs(1) n pos(1)]
    from post_payout_sum [OF F qs(2) conjunct2 [OF one] pos(2)] one show ?thesis by (simp add: matched_sum_def)
  qed
qed

lemma pay_out_flow:
  assumes F: "ext_ok F" and "pay_out F p db = Inr db'" and "0 \<le> amount (snd (snd p))"
  shows "bet_flow (amount (snd (snd p))) 0 (- amount (snd (snd p))) db db'" and "matched_bets db' = matched_bets db"
proof -
  obtain u better x where p: "p = (u, better, x)" by (cases p)
  from assms obtain acc db1 where 1: "increase_balance F acc x db = Inr db1" and 2: "sub_matched_volume F x db1 = Inr db'"
    by (auto simp: pay_out_def p bindE_Inr_iff)
  show "bet_flow (amount (snd (snd p))) 0 (- amount (snd (snd p))) db db'"
    using bet_flow_trans [OF deposit_flow [OF F 1] volume_flows(4) [OF F 2] refl refl refl] assms(3) by (simp add: p)
  show "matched_bets db' = matched_bets db" using 1 2 by (intro bets_viewD(2)) simp
qed

lemma pay_all_flow:
  assumes F: "ext_ok F"
  shows "foldE (pay_out F) ps db = Inr db' \<Longrightarrow> payouts_nonneg ps \<Longrightarrow>
    bet_flow (payout_sum ps) 0 (- payout_sum ps) db db' \<and> matched_bets db' = matched_bets db"
proof (induction ps arbitrary: db)
  case (Cons p ps)
  then obtain db1 where 1: "pay_out F p db = Inr db1" and 2: "foldE (pay_out F) ps db1 = Inr db'" by (auto simp: bindE_Inr_iff)
  have "0 \<le> amount (snd (snd p))" "payouts_nonneg ps" using Cons.prems(2) by (simp_all add: payouts_nonneg_def)
  note f1 = pay_out_flow [OF F 1 this(1)] and f2 = Cons.IH [OF 2 this(2)]
  show ?case using bet_flow_trans [OF f1(1) conjunct1 [OF f2] refl refl refl] f1(2) f2 by (simp add: payout_sum_def)
qed (auto simp: payout_sum_def)

lemma resolve_all_sum:
  assumes F: "ext_ok F" and s: "sound db"
  shows "foldE (\<lambda>i ps. bindE (ix_get (matched_bets db) i) (\<lambda>b. resolve_bet F rs b ps)) ids ps = Inr ps' \<Longrightarrow> payouts_nonneg ps \<Longrightarrow>
    payout_sum ps' = payout_sum ps + stakes_of ids db \<and> payouts_nonneg ps'"
proof (induction ids arbitrary: ps)
  case (Cons i ids)
  then obtain b qs where b: "map_of (indices (matched_bets db)) i = Some b" and 1: "resolve_bet F rs b ps = Inr qs"
    and 2: "foldE (\<lambda>i ps. bindE (ix_get (matched_bets db) i) (\<lambda>b. resolve_bet F rs b ps)) ids qs = Inr ps'"
    by (auto simp: bindE_Inr_iff ix_get_iff)
  have "payout_sum qs = payout_sum ps + matched_sum b \<and> payouts_nonneg qs"
    by (rule resolve_bet_sum [OF F 1 Cons.prems(2)]) (use sound_matched(1,2) [OF s b] in \<open>simp_all add: bet_solvent_def\<close>)
  with Cons.IH [OF 2] b show ?case by (simp add: stakes_of_def)
qed (simp add: stakes_of_def)

lemma resolve_matched_bets_flow:
  assumes F: "ext_ok F" and r: "resolve_matched_bets F u rs db = Inr db'"
  shows "bet_flow 0 0 0 db db'"
proof (rule bet_flowI)
  assume s: "sound db"
  let ?ids = "matched_by_market u db"
  from r obtain ps db1 where 1: "foldE (\<lambda>i ps. bindE (ix_get (matched_bets db) i) (\<lambda>b. resolve_bet F rs b ps)) ?ids [] = Inr ps"
    and 2: "foldE (pay_out F) ps db = Inr db1" and 3: "foldE remove_matched_bet ?ids db1 = Inr db'"
    by (auto simp: resolve_matched_bets_def Let_def bindE_Inr_iff)
  have ps: "payout_sum ps = stakes_of ?ids db" "payouts_nonneg ps"
    using resolve_all_sum [OF F s 1] by (simp_all add: payout_sum_def payouts_nonneg_def)
  note f1 = pay_all_flow [OF F 2 ps(2)]
  have s1: "sound db1" using f1 s by (simp add: bet_flow_def)
  have "bet_flow (- stakes_of ?ids db1) 0 (stakes_of ?ids db1) db1 db'"
    by (rule remove_all_flow [OF 3 matched_ranges(1) [OF s] s1]) (use matched_ranges(3) [OF s] f1 in auto)
  moreover have "stakes_of ?ids db1 = stakes_of ?ids db" using f1 by (simp add: stakes_of_def)
  ultimately show ?thesis using bet_flow_trans [OF conjunct1 [OF f1]] ps(1) by simp
qed

lemma bet_flow_games:
  assumes "wf_index (games db) \<Longrightarrow> wf_index ix"
  shows "bet_flow 0 0 0 db (db\<lparr>games := ix\<rparr>)"
  by (rule bet_flow_frame)
    (use assms in \<open>auto intro!: keeps_same ledger_move_same simp: sound_view_def ledger_view_def tables_ok_def\<close>)

lemma cancel_game_flow: "cancel_game u db = Inr db' \<Longrightarrow> bet_flow 0 0 0 db db'"
  by (auto simp: cancel_game_def bindE_Inr_iff intro: bet_flow_games wf_index_remove)

end
