(* ===== verification/Betting_Evaluators.thy ===== *)
theory Betting_Evaluators
  imports Betting_Ledger
begin

text \<open>
  The operations on games and bets: the services of games (\<^verbatim>\<open>services/game.cpp\<close>), the evaluators
  (\<^verbatim>\<open>evaluators/create_game_evaluator.cpp\<close>, \<^verbatim>\<open>post_bet_evalulator.cpp\<close> and the others) and the block
  tasks that start games, resolve bets and drop games nobody resolved. Each operation and task
  has the flow 0, so that every run of the exchange conserves the supply and keeps the betting
  statistics exact.
\<close>

section \<open>Games\<close>

definition SCORUM_BETTING_START_TIME_DIFF_MAX :: nat where
  "SCORUM_BETTING_START_TIME_DIFF_MAX = 12 * 3600"

definition update_game :: "nat \<Rightarrow> (game_object \<Rightarrow> game_object) \<Rightarrow> database \<Rightarrow> database res" where
  "update_game i f db = bindE (ix_modify game_clash i (\<lambda>g. Inr (f g)) (games db)) (\<lambda>ix. Inr (db\<lparr>games := ix\<rparr>))"

definition create_game ::
  "ext_lib \<Rightarrow> uuid \<Rightarrow> string \<Rightarrow> nat \<Rightarrow> nat \<Rightarrow> game_type \<Rightarrow> market_type list \<Rightarrow> database \<Rightarrow> database res"
where
  "create_game F u json_metadata start auto_resolve_delay_sec game markets db =
     bindE (ix_emplace (=) (\<lambda>_. Inr u) (game_uuid_history db)) (\<lambda>(h, hist).
     bindE (ix_emplace game_clash (\<lambda>_. Inr \<lparr>g_uuid = u, g_json_metadata = json_metadata, g_start_time = start,
              g_original_start_time = start, g_last_update = head_block_time db, g_bets_resolve_time = time_maximum,
              g_auto_resolve_time = time_add F start auto_resolve_delay_sec, g_status = Gs_created, g_game = game,
              g_markets = markets, g_results = []\<rparr>) (games db)) (\<lambda>(i, ix).
     Inr (db\<lparr>game_uuid_history := hist, games := ix\<rparr>)))"

definition finish_game :: "ext_lib \<Rightarrow> nat \<Rightarrow> wincase_type list \<Rightarrow> database \<Rightarrow> database res" where
  "finish_game F i wincases db =
     update_game i (\<lambda>g. g\<lparr>g_bets_resolve_time := (if g_status g = Gs_started
                then time_add F (head_block_time db) (bp_resolve_delay_sec (betting_property db)) else g_bets_resolve_time g),
              g_status := Gs_finished, g_last_update := head_block_time db, g_auto_resolve_time := time_maximum,
              g_results := wincases\<rparr>) db"

definition update_markets :: "nat \<Rightarrow> market_type list \<Rightarrow> database \<Rightarrow> database res" where
  "update_markets i markets db = update_game i (\<lambda>g. g\<lparr>g_markets := markets\<rparr>) db"

definition get_games :: "nat \<Rightarrow> database \<Rightarrow> nat list" where
  "get_games start db =
     map fst (sort_key (\<lambda>r. g_start_time (snd r)) (filter (\<lambda>r. g_start_time (snd r) \<le> start) (indices (games db))))"

text \<open>\<^verbatim>\<open>boost::set_difference\<close> of two ordered ranges.\<close>

fun set_difference :: "('a \<Rightarrow> 'a \<Rightarrow> bool) \<Rightarrow> 'a list \<Rightarrow> 'a list \<Rightarrow> 'a list" where
  "set_difference lt [] ys = []"
| "set_difference lt xs [] = xs"
| "set_difference lt (x # xs) (y # ys) =
     (if lt x y then x # set_difference lt xs (y # ys)
      else if lt y x then set_difference lt (x # xs) ys
      else set_difference lt xs ys)"

section \<open>Evaluators\<close>

definition create_game_apply ::
  "ext_lib \<Rightarrow> uuid \<Rightarrow> account_name \<Rightarrow> string \<Rightarrow> nat \<Rightarrow> nat \<Rightarrow> game_type \<Rightarrow> market_type list \<Rightarrow> database \<Rightarrow> database res"
where
  "create_game_apply F u moderator json_metadata start_time auto_resolve_delay_sec game markets db =
     bindE (fc_assert (start_time > head_block_time db) ''Game should start after head block time'') (\<lambda>_.
     bindE (fc_assert (ix_find_by (\<lambda>x. x = u) (game_uuid_history db) = None) ''Game already exists'') (\<lambda>_.
     bindE (check_account_existence moderator db) (\<lambda>_.
     bindE (fc_assert (is_betting_moderator moderator db) ''User isn't a betting moderator'') (\<lambda>_.
     bindE (fc_assert (auto_resolve_delay_sec > 0) ''Auto resolve delay is not set.'') (\<lambda>_.
     create_game F u json_metadata start_time auto_resolve_delay_sec game (flat_set market_less markets) db)))))"

definition cancel_game_apply :: "ext_lib \<Rightarrow> uuid \<Rightarrow> account_name \<Rightarrow> database \<Rightarrow> database res" where
  "cancel_game_apply F u moderator db =
     bindE (check_account_existence moderator db) (\<lambda>_.
     bindE (fc_assert (is_betting_moderator moderator db) ''User isn't a betting moderator'') (\<lambda>_.
     bindE (fc_assert (find_game u db \<noteq> None) ''Game doesn't exist'') (\<lambda>_.
     bindE (get_game u db) (\<lambda>i.
     bindE (ix_get (games db) i) (\<lambda>game.
     bindE (fc_assert (g_status game \<noteq> Gs_finished) ''Cannot cancel the game after it is finished'') (\<lambda>_.
     bindE (cancel_pending_bets F (pending_by_market u db) db) (\<lambda>db.
     bindE (cancel_matched_bets F (matched_by_market u db) db) (\<lambda>db.
     cancel_game u db))))))))"

definition update_game_markets_apply ::
  "ext_lib \<Rightarrow> uuid \<Rightarrow> account_name \<Rightarrow> market_type list \<Rightarrow> database \<Rightarrow> database res"
where
  "update_game_markets_apply F u moderator markets db =
     bindE (check_account_existence moderator db) (\<lambda>_.
     bindE (fc_assert (is_betting_moderator moderator db) ''User isn't a betting moderator'') (\<lambda>_.
     bindE (fc_assert (find_game u db \<noteq> None) ''Game doesn't exist'') (\<lambda>_.
     bindE (get_game u db) (\<lambda>i.
     bindE (ix_get (games db) i) (\<lambda>game.
     bindE (fc_assert (g_status game \<noteq> Gs_finished) ''Cannot change the markets when game is finished'') (\<lambda>_.
     let set_of_markets = flat_set market_less markets in
     bindE (fc_assert (length set_of_markets = length markets) ''You provided duplicates in market list.'') (\<lambda>_.
     bindE (validate_game (g_game game) set_of_markets) (\<lambda>_.
     bindE (validate_markets set_of_markets) (\<lambda>_.
     let cancelled_markets = set_difference market_less (g_markets game) set_of_markets in
     bindE (fc_assert (g_status game = Gs_created \<or> cancelled_markets = []) ''Cannot cancel markets after game was started'') (\<lambda>_.
     bindE (cancel_bets_of_markets F (g_uuid game) cancelled_markets db) (\<lambda>db.
     update_markets i set_of_markets db)))))))))))"

definition update_game_start_time_apply :: "ext_lib \<Rightarrow> uuid \<Rightarrow> account_name \<Rightarrow> nat \<Rightarrow> database \<Rightarrow> database res" where
  "update_game_start_time_apply F u moderator start_time db =
     bindE (fc_assert (start_time > head_block_time db) ''Game should start after head block time'') (\<lambda>_.
     bindE (check_account_existence moderator db) (\<lambda>_.
     bindE (fc_assert (is_betting_moderator moderator db) ''User isn't a betting moderator'') (\<lambda>_.
     bindE (fc_assert (find_game u db \<noteq> None) ''Game doesn't exist'') (\<lambda>_.
     bindE (get_game u db) (\<lambda>i.
     bindE (ix_get (games db) i) (\<lambda>game.
     bindE (fc_assert (g_status game = Gs_created \<or> g_status game = Gs_started) ''Cannot change the start time when game is finished'') (\<lambda>_.
     bindE (fc_assert (time_diff F (max (g_original_start_time game) start_time) (min (g_original_start_time game) start_time)
              \<le> int SCORUM_BETTING_START_TIME_DIFF_MAX) ''Cannot change start time more than 12 hours'') (\<lambda>_.
     bindE (cancel_bets_after F u (g_start_time game) db) (\<lambda>db.
     update_game i (\<lambda>g. g\<lparr>g_auto_resolve_time := time_shift F (g_auto_resolve_time g) (time_diff F start_time (g_start_time g)),
                g_start_time := start_time, g_status := Gs_created\<rparr>) db)))))))))"

text \<open>Of every market without a third outcome one of the two sides must win.\<close>

definition validate_all_winners_present :: "market_type list \<Rightarrow> wincase_type list \<Rightarrow> unit res" where
  "validate_all_winners_present markets winners =
     foldE (\<lambda>m _. let pair = create_wincases m in
       fc_assert (list_ex (\<lambda>w. wincase_equal (fst pair) w \<or> wincase_equal (snd pair) w) winners)
         ''Wincase winners list do not contain neither'') (filter (\<lambda>m. \<not> has_trd_state m) markets) ()"

definition validate_opposite_winners_absent :: "wincase_type list \<Rightarrow> unit res" where
  "validate_opposite_winners_absent winners =
     fc_assert (set_intersection wincase_less wincase_less winners (map create_opposite winners) = [])
       ''You've provided opposite wincases from same market as winners''"

definition post_game_results_apply ::
  "ext_lib \<Rightarrow> uuid \<Rightarrow> account_name \<Rightarrow> wincase_type list \<Rightarrow> database \<Rightarrow> database res"
where
  "post_game_results_apply F u moderator wincases db =
     bindE (check_account_existence moderator db) (\<lambda>_.
     bindE (fc_assert (is_betting_moderator moderator db) ''User isn't a betting moderator'') (\<lambda>_.
     bindE (fc_assert (find_game u db \<noteq> None) ''Game doesn't exist'') (\<lambda>_.
     bindE (get_game u db) (\<lambda>i.
     bindE (ix_get (games db) i) (\<lambda>game.
     bindE (fc_assert (g_status game \<noteq> Gs_created) ''The game is not started yet'') (\<lambda>_.
     bindE (fc_assert (g_bets_resolve_time game > head_block_time db) ''Unable to post game results after bets were resolved'') (\<lambda>_.
     let winners = flat_set wincase_less wincases in
     bindE (foldE (\<lambda>w _. fc_assert (is_belong_markets w (g_markets game)) ''Wincase doesn't belong to game markets'') winners ()) (\<lambda>_.
     bindE (validate_all_winners_present (g_markets game) winners) (\<lambda>_.
     bindE (validate_opposite_winners_absent winners) (\<lambda>_.
     bindE (cancel_pending_bets F (pending_by_market (g_uuid game) db) db) (\<lambda>db.
     finish_game F i winners db)))))))))))"

definition post_bet_apply ::
  "ext_lib \<Rightarrow> uuid \<Rightarrow> account_name \<Rightarrow> uuid \<Rightarrow> wincase_type \<Rightarrow> int \<times> int \<Rightarrow> asset \<Rightarrow> bool \<Rightarrow> database \<Rightarrow> database res"
where
  "post_bet_apply F u better game_uuid wincase od stake live db =
     bindE (fc_assert (find_game game_uuid db \<noteq> None) ''Game doesn't exist'') (\<lambda>_.
     bindE (fc_assert (ix_find_by (\<lambda>x. x = u) (bet_uuid_history db) = None) ''Bet already exists'') (\<lambda>_.
     bindE (get_game game_uuid db) (\<lambda>g.
     bindE (ix_get (games db) g) (\<lambda>game.
     bindE (fc_assert (is_belong_markets wincase (g_markets game)) ''Wincase doesn't belong to game markets'') (\<lambda>_.
     bindE (fc_assert (g_status game \<noteq> Gs_finished) ''Cannot post bet for game that is finished'') (\<lambda>_.
     bindE (fc_assert (g_status game = Gs_created \<or> live) ''Cannot create non-live bet after game was started'') (\<lambda>_.
     bindE (fc_assert (find_account better db \<noteq> None) ''Account must exist.'') (\<lambda>_.
     bindE (odds_initialize (fst od) (snd od)) (\<lambda>k.
     bindE (create_pending_bet F better stake k wincase (g_uuid game) u (if live then Live else Non_live) db) (\<lambda>(i, db).
     bindE (betting_match F i db) (\<lambda>(bets_to_cancel, db).
     cancel_pending_bets F bets_to_cancel db)))))))))))"

definition cancel_pending_bets_apply :: "ext_lib \<Rightarrow> uuid list \<Rightarrow> account_name \<Rightarrow> database \<Rightarrow> database res" where
  "cancel_pending_bets_apply F bet_uuids better db =
     bindE (check_account_existence better db) (\<lambda>_.
     bindE (foldE (\<lambda>u _.
              bindE (fc_assert (find_pending_bet u db \<noteq> None) ''Bet doesn't exist'') (\<lambda>_.
              bindE (get_pending_bet u db) (\<lambda>i.
              bindE (ix_get (pending_bets db) i) (\<lambda>b.
              fc_assert (b_better (p_data b) = better) ''Invalid better'')))) bet_uuids ()) (\<lambda>_.
     foldE (\<lambda>u db. bindE (get_pending_bet u db) (\<lambda>i. cancel_pending_bet F i db)) bet_uuids db))"

section \<open>Block tasks\<close>

definition start_game :: "ext_lib \<Rightarrow> nat \<Rightarrow> database \<Rightarrow> database res" where
  "start_game F i db =
     bindE (ix_get (games db) i) (\<lambda>game.
     if g_status game = Gs_created then
       bindE (update_game i (\<lambda>g. g\<lparr>g_status := Gs_started\<rparr>) db) (\<lambda>db.
       cancel_pending_bets F (pending_by_kind (g_uuid game) Non_live db) db)
     else Inr db)"

definition process_games_startup :: "ext_lib \<Rightarrow> database \<Rightarrow> database res" where
  "process_games_startup F db = foldE (start_game F) (get_games (head_block_time db) db) db"

definition auto_resolve_game :: "ext_lib \<Rightarrow> nat \<Rightarrow> database \<Rightarrow> database res" where
  "auto_resolve_game F i db =
     bindE (ix_get (games db) i) (\<lambda>game.
     bindE (cancel_bets F (g_uuid game) db) (\<lambda>db.
     cancel_game (g_uuid game) db))"

definition process_bets_auto_resolving :: "ext_lib \<Rightarrow> database \<Rightarrow> database res" where
  "process_bets_auto_resolving F db =
     foldE (auto_resolve_game F) (map fst (sort_key (\<lambda>r. g_auto_resolve_time (snd r))
       (filter (\<lambda>r. g_auto_resolve_time (snd r) \<le> dgp_time (dgp db)) (indices (games db))))) db"

definition resolve_game :: "ext_lib \<Rightarrow> nat \<Rightarrow> database \<Rightarrow> database res" where
  "resolve_game F i db =
     bindE (ix_get (games db) i) (\<lambda>game.
     bindE (resolve_matched_bets F (g_uuid game) (g_results game) db) (\<lambda>db.
     bindE (cancel_pending_bets F (pending_by_market (g_uuid game) db) db) (\<lambda>db.
     cancel_game (g_uuid game) db)))"

definition process_bets_resolving :: "ext_lib \<Rightarrow> database \<Rightarrow> database res" where
  "process_bets_resolving F db =
     foldE (resolve_game F) (map fst (sort_key (\<lambda>r. g_bets_resolve_time (snd r))
       (filter (\<lambda>r. g_bets_resolve_time (snd r) \<le> dgp_time (dgp db)) (indices (games db))))) db"

section \<open>Flows\<close>

lemma update_game_flow: "update_game i f db = Inr db' \<Longrightarrow> bet_flow 0 0 0 db db'"
  by (auto simp: update_game_def bindE_Inr_iff intro: bet_flow_games wf_index_modify)

lemma zdiv_le_dividend: "0 \<le> (a :: int) \<Longrightarrow> 0 < b \<Longrightarrow> a div b \<le> a"
  using div_mult_le_int [of b a] mult_left_mono [of 1 b "a div b"] by (simp add: pos_imp_zdiv_nonneg_iff)

lemma bet_flow0_trans: "bet_flow 0 0 0 db db1 \<Longrightarrow> bet_flow 0 0 0 db1 db2 \<Longrightarrow> bet_flow 0 0 0 db db2"
  using bet_flow_trans [of 0 0 0 db db1 0 0 0 db2] by simp

lemma create_game_apply_flow:
  assumes "create_game_apply F u m json st delay g markets db = Inr db'"
  shows "bet_flow 0 0 0 db db'"
proof -
  from assms obtain hist v k ix where "ix_emplace game_clash (\<lambda>_. Inr v) (games db) = Inr (k, ix)"
    and db': "db' = db\<lparr>game_uuid_history := hist, games := ix\<rparr>"
    by (auto simp: create_game_apply_def create_game_def bindE_Inr_iff)
  then have "wf_index (games db) \<Longrightarrow> wf_index ix" using wf_index_emplace by blast
  then show ?thesis unfolding db'
    by (intro bet_flow_frame) (auto intro!: keeps_same ledger_move_same simp: sound_view_def ledger_view_def tables_ok_def)
qed

lemma cancel_game_apply_flow:
  assumes F: "ext_ok F" and "cancel_game_apply F u m db = Inr db'"
  shows "bet_flow 0 0 0 db db'"
proof -
  from assms(2) obtain ids ids' db1 db2 where "cancel_pending_bets F ids db = Inr db1" "cancel_matched_bets F ids' db1 = Inr db2"
    "cancel_game u db2 = Inr db'" by (auto simp: cancel_game_apply_def bindE_Inr_iff)
  then show ?thesis using cancel_pending_bets_flow [OF F] cancel_matched_bets_flow [OF F] cancel_game_flow bet_flow0_trans by metis
qed

lemma update_game_markets_apply_flow:
  assumes F: "ext_ok F" and "update_game_markets_apply F u m ms db = Inr db'"
  shows "bet_flow 0 0 0 db db'"
proof -
  from assms(2) obtain g cs db1 i ms' where "cancel_bets_of_markets F g cs db = Inr db1" "update_markets i ms' db1 = Inr db'"
    unfolding update_game_markets_apply_def Let_def bindE_Inr_iff by (elim exE conjE) (rule that)
  then show ?thesis
    using cancel_bets_of_markets_flow [OF F] update_game_flow bet_flow0_trans unfolding update_markets_def by metis
qed

lemma update_game_start_time_apply_flow:
  assumes F: "ext_ok F" and "update_game_start_time_apply F u m t db = Inr db'"
  shows "bet_flow 0 0 0 db db'"
proof -
  from assms(2) obtain t' db1 i f where "cancel_bets_after F u t' db = Inr db1" "update_game i f db1 = Inr db'"
    unfolding update_game_start_time_apply_def bindE_Inr_iff by (elim exE conjE) (rule that)
  then show ?thesis using cancel_bets_after_flow [OF F] update_game_flow bet_flow0_trans by metis
qed

lemma post_game_results_apply_flow:
  assumes F: "ext_ok F" and "post_game_results_apply F u m ws db = Inr db'"
  shows "bet_flow 0 0 0 db db'"
proof -
  from assms(2) obtain ids db1 i ws' where 1: "cancel_pending_bets F ids db = Inr db1" and 2: "finish_game F i ws' db1 = Inr db'"
    unfolding post_game_results_apply_def Let_def bindE_Inr_iff by (elim exE conjE) (rule that)
  from bet_flow0_trans [OF cancel_pending_bets_flow [OF F 1] update_game_flow [OF 2 [unfolded finish_game_def]]] show ?thesis .
qed

lemma post_bet_apply_flow:
  assumes F: "ext_ok F" and p: "post_bet_apply F u better g w od stake live db = Inr db'"
    and ok: "0 \<le> amount stake" "in_i64 (amount stake)" "in_i32 (fst od)" "is_wincase w"
  shows "bet_flow 0 0 0 db db'"
proof -
  from p obtain k g' i spent db1 db2 where k: "odds_initialize (fst od) (snd od) = Inr k"
    and 1: "create_pending_bet F better stake k w g' u (if live then Live else Non_live) db = Inr (i, db1)"
    and 2: "betting_match F i db1 = Inr (spent, db2)" and 3: "cancel_pending_bets F spent db2 = Inr db'"
    by (auto simp: post_bet_apply_def bindE_Inr_iff)
  have nd: "0 < snd od" "snd od < fst od" using odds_initialize_Inr [OF k] by simp_all
  have "fst od div gcd (fst od) (snd od) \<le> fst od" using nd by (intro zdiv_le_dividend) simp_all
  moreover have "fst (o_simplified k) = fst od div gcd (fst od) (snd od)" using k by (auto simp: odds_initialize_eq [OF nd])
  ultimately have "fst (o_simplified k) \<le> fst od" by simp
  then have "fst (o_simplified k) < 2 ^ 31" using ok(3) by (simp add: in_i32_def)
  then have "bet_flow 0 0 0 db db1"
    using create_pending_bet_flow [OF F 1] wf_odds_initialize [OF k] ok by (simp add: in_i64_def)
  then show ?thesis using betting_match_flow [OF F 2] cancel_pending_bets_flow [OF F 3] bet_flow0_trans by metis
qed

lemma cancel_pending_bets_apply_flow:
  assumes F: "ext_ok F" and "cancel_pending_bets_apply F us better db = Inr db'"
  shows "bet_flow 0 0 0 db db'"
proof -
  from assms(2) have "foldE (\<lambda>u db. bindE (get_pending_bet u db) (\<lambda>i. cancel_pending_bet F i db)) us db = Inr db'"
    by (auto simp: cancel_pending_bets_apply_def bindE_Inr_iff)
  then show ?thesis by (rule bet_flow_foldE) (auto simp: bindE_Inr_iff intro: cancel_pending_bet_flow [OF F])
qed

lemma process_games_startup_flow:
  assumes F: "ext_ok F" and "process_games_startup F db = Inr db'"
  shows "bet_flow 0 0 0 db db'"
proof (rule bet_flow_foldE [OF assms(2) [unfolded process_games_startup_def]])
  fix i db db' assume "start_game F i db = Inr db'"
  then consider "db' = db" | f ids db1 where "update_game i f db = Inr db1" "cancel_pending_bets F ids db1 = Inr db'"
    by (auto simp: start_game_def bindE_Inr_iff split: if_splits)
  then show "bet_flow 0 0 0 db db'"
    by cases (use update_game_flow cancel_pending_bets_flow [OF F] bet_flow0_trans in \<open>blast+\<close>)
qed

lemma process_bets_auto_resolving_flow:
  assumes F: "ext_ok F" and "process_bets_auto_resolving F db = Inr db'"
  shows "bet_flow 0 0 0 db db'"
proof (rule bet_flow_foldE [OF assms(2) [unfolded process_bets_auto_resolving_def]])
  fix i db db' assume "auto_resolve_game F i db = Inr db'"
  then obtain u db1 where "cancel_bets F u db = Inr db1" "cancel_game u db1 = Inr db'"
    by (auto simp: auto_resolve_game_def bindE_Inr_iff)
  then show "bet_flow 0 0 0 db db'" using cancel_bets_flow [OF F] cancel_game_flow bet_flow0_trans by blast
qed

lemma process_bets_resolving_flow:
  assumes F: "ext_ok F" and "process_bets_resolving F db = Inr db'"
  shows "bet_flow 0 0 0 db db'"
proof (rule bet_flow_foldE [OF assms(2) [unfolded process_bets_resolving_def]])
  fix i db db' assume "resolve_game F i db = Inr db'"
  then obtain u rs ids db1 db2 where "resolve_matched_bets F u rs db = Inr db1" "cancel_pending_bets F ids db1 = Inr db2"
    "cancel_game u db2 = Inr db'" by (auto simp: resolve_game_def bindE_Inr_iff)
  then show "bet_flow 0 0 0 db db'"
    using resolve_matched_bets_flow [OF F] cancel_pending_bets_flow [OF F] cancel_game_flow bet_flow0_trans by metis
qed

end
