(* ===== verification/Betting_Properties.thy ===== *)
theory Betting_Properties
  imports Betting_Evaluators
begin

text \<open>
  What the betting exchange guarantees: every run of it conserves the supply and keeps the
  statistics exact, the resolver pays each better what the bets have won, the results of a game
  never name both sides of a market; and where cancelling the bets of markets falls short.
\<close>

section \<open>Runs of the exchange\<close>

inductive betting_step :: "ext_lib \<Rightarrow> database \<Rightarrow> database \<Rightarrow> bool" for F where
  game_created: "create_game_apply F u m json st delay g ms db = Inr db' \<Longrightarrow> betting_step F db db'"
| game_cancelled: "cancel_game_apply F u m db = Inr db' \<Longrightarrow> betting_step F db db'"
| markets_updated: "update_game_markets_apply F u m ms db = Inr db' \<Longrightarrow> betting_step F db db'"
| start_updated: "update_game_start_time_apply F u m t db = Inr db' \<Longrightarrow> betting_step F db db'"
| results_posted: "post_game_results_apply F u m ws db = Inr db' \<Longrightarrow> betting_step F db db'"
| bet_posted: "post_bet_validate F better w od stake = Inr () \<Longrightarrow> in_i64 (amount stake) \<Longrightarrow> in_i32 (fst od) \<Longrightarrow> is_wincase w \<Longrightarrow>
    post_bet_apply F u better g w od stake live db = Inr db' \<Longrightarrow> betting_step F db db'"
| bets_cancelled: "cancel_pending_bets_apply F us better db = Inr db' \<Longrightarrow> betting_step F db db'"
| games_started: "process_games_startup F db = Inr db' \<Longrightarrow> betting_step F db db'"
| bets_resolved: "process_bets_resolving F db = Inr db' \<Longrightarrow> betting_step F db db'"
| games_expired: "process_bets_auto_resolving F db = Inr db' \<Longrightarrow> betting_step F db db'"

lemma betting_step_flow:
  assumes F: "ext_ok F" and "betting_step F db db'"
  shows "bet_flow 0 0 0 db db'"
  using assms(2)
proof (induction rule: betting_step.induct)
  case (bet_posted better w od stake u g live db db')
  have "0 \<le> amount stake"
    using bet_posted(1) by (auto simp: post_bet_validate_def res_simps SCORUM_MIN_BET_STAKE_def)
  with bet_posted F show ?case by (intro post_bet_apply_flow) auto
qed (use F in \<open>auto intro: create_game_apply_flow cancel_game_apply_flow update_game_markets_apply_flow update_game_start_time_apply_flow
    post_game_results_apply_flow cancel_pending_bets_apply_flow process_games_startup_flow process_bets_resolving_flow
    process_bets_auto_resolving_flow\<close>)

definition volumes_exact :: "database \<Rightarrow> bool" where
  "volumes_exact db \<longleftrightarrow>
     amount (dgp_pending_bets_volume (dgp db)) = row_sum (\<lambda>b. amount (b_stake (p_data b))) (indices (pending_bets db)) \<and>
     amount (dgp_matched_bets_volume (dgp db)) = row_sum matched_sum (indices (matched_bets db))"

lemma volumes_exact_iff: "volumes_exact db \<longleftrightarrow> pending_gap db = 0 \<and> matched_gap db = 0"
  by (simp add: volumes_exact_def pending_gap_def matched_gap_def)

text \<open>
  C8: whatever games are created, updated, resolved or dropped and whatever bets are posted,
  matched and cancelled, in any order: nothing is created or lost, every account stays solvent,
  and the betting statistics remain the sums of the pending and the matched stakes.
\<close>
theorem betting_run_exact:
  assumes F: "ext_ok F" and run: "(betting_step F)\<^sup>*\<^sup>* db db'" and s: "sound db" and v: "volumes_exact db"
  shows "sound db' \<and> volumes_exact db' \<and> supply_sum db' = supply_sum db \<and> gaps db' = gaps db"
  using run
proof (induction rule: rtranclp_induct)
  case base
  show ?case using s v by simp
next
  case (step db1 db2)
  from betting_step_flow [OF F step(2)] step(3) show ?case
    by (simp add: bet_flow_def volumes_exact_iff ledger_move_def sound_def)
qed

definition sample_game :: game_object where
  "sample_game = \<lparr>g_uuid = ''game'', g_json_metadata = [], g_start_time = 2000, g_original_start_time = 2000, g_last_update = 900,
     g_bets_resolve_time = time_maximum, g_auto_resolve_time = 5000, g_status = Gs_created, g_game = Soccer_game,
     g_markets = [Yes_no_market Result Home_tag], g_results = []\<rparr>"

definition sample_game_db :: database where
  "sample_game_db = sample_db\<lparr>games := \<lparr>next_id = 1, indices = [(0, sample_game)]\<rparr>\<rparr>"

lemma sample_game_sound: "sound sample_game_db" "volumes_exact sample_game_db"
proof -
  have "bet_flow 0 0 0 sample_db sample_game_db"
    unfolding sample_game_db_def by (rule bet_flow_games) (simp add: wf_index_def)
  then show "sound sample_game_db" using sample_sound by (simp add: bet_flow_def)
  show "volumes_exact sample_game_db" by (simp add: volumes_exact_def sample_game_db_def sample_db_def no_rows_def sample_dgp_def)
qed

lemma sample_bet: "\<not> isl (post_bet_apply ext_ref ''bet1'' ''alice'' ''game'' (Yes_no_wincase True Result Home_tag) (3, 2) (SCR 2000000) False
    sample_game_db)"
proof -
  have k: "odds_initialize 3 2 = Inr (sample_odds 3 2)" by (simp add: odds_initialize_eq sample_odds_def gcd_non_0_int)
  have m: "market_equal (Yes_no_market Result Home_tag) (Yes_no_market Result Home_tag)"
    by (simp add: market_equal_iff is_market_def market_alternatives_def)
  have f: "map_of matching_fix ''bet1'' = None" by (simp add: matching_fix_def)
  show ?thesis
    by (simp add: post_bet_apply_def run_simps sample_game_db_def sample_game_def find_game_def get_game_def k m f is_belong_markets_def
        create_pending_bet_def betting_match_def pending_by_wincase_def add_pending_volume_def Let_def cancel_pending_bets_def
        wincase_less_def variant_less_def which_def wincase_alternatives_def market_alternatives_def)
qed

theorem betting_run_exact_witness:
  "\<exists>db'. betting_step ext_ref sample_game_db db' \<and> sound db' \<and> volumes_exact db' \<and> supply_sum db' = supply_sum sample_game_db"
proof -
  from returns [OF sample_bet] obtain db' where db': "post_bet_apply ext_ref ''bet1'' ''alice'' ''game'' (Yes_no_wincase True Result Home_tag)
      (3, 2) (SCR 2000000) False sample_game_db = Inr db'" by blast
  have v: "post_bet_validate ext_ref ''alice'' (Yes_no_wincase True Result Home_tag) (3, 2) (SCR 2000000) = Inr ()"
    by (subst post_bet_accepts [OF ext_ok_ref]) (intro conjI; code_simp)
  have "is_wincase (Yes_no_wincase True Result Home_tag)" by (simp add: is_wincase_iff is_market_def market_alternatives_def)
  then have step: "betting_step ext_ref sample_game_db db'" by (intro betting_step.bet_posted [OF v _ _ _ db']) (simp_all add: in_i64_def in_i32_def)
  then have "(betting_step ext_ref)\<^sup>*\<^sup>* sample_game_db db'" by (rule r_into_rtranclp)
  from betting_run_exact [OF ext_ok_ref this sample_game_sound] step show ?thesis by blast
qed

section \<open>Results of a game\<close>

lemma wincase_less_irrefl: "\<not> wincase_less w w"
  by (cases w) (simp_all add: wincase_less_def variant_less_def)

lemma wincase_less_asym:
  assumes "is_wincase v" "is_wincase w" and "wincase_less v w"
  shows "\<not> wincase_less w v"
proof
  assume "wincase_less w v"
  with assms(3) have "wincase_alternative v = wincase_alternative w \<or> False"
    using which_eq_iff [of "wincase_alternative v" wincase_alternatives "wincase_alternative w"] assms(1,2)
    by (auto simp: wincase_less_def variant_less_def is_wincase_def)
  with assms(3) \<open>wincase_less w v\<close> show False by (cases v; cases w) (auto simp: wincase_less_def variant_less_def)
qed

text \<open>
  The two ranges need not both be ordered: it is enough that a common element is preceded by
  smaller ones in each.
\<close>

lemma set_intersection_finds:
  assumes "\<And>x. x \<in> set xs1 \<Longrightarrow> lt x w \<and> \<not> lt w x" and "\<And>y. y \<in> set ys1 \<Longrightarrow> lt y w \<and> \<not> lt w y" and "\<not> lt w w"
  shows "set_intersection lt lt (xs1 @ w # xs2) (ys1 @ w # ys2) \<noteq> []"
  using assms(1,2)
proof (induction "length xs1 + length ys1" arbitrary: xs1 ys1 rule: less_induct)
  case less
  show ?case
  proof (cases xs1)
    case Nil
    show ?thesis
    proof (cases ys1)
      case Nil
      with \<open>xs1 = []\<close> assms(3) show ?thesis by simp
    next
      case (Cons y ys)
      with less.prems(2) have "lt y w" "\<not> lt w y" by simp_all
      moreover have "set_intersection lt lt (xs1 @ w # xs2) (ys @ w # ys2) \<noteq> []"
        by (rule less.hyps) (use less.prems Cons in auto)
      ultimately show ?thesis using \<open>xs1 = []\<close> Cons by simp
    qed
  next
    case x: (Cons x xs)
    with less.prems(1) have "lt x w" "\<not> lt w x" by simp_all
    show ?thesis
    proof (cases ys1)
      case Nil
      have "set_intersection lt lt (xs @ w # xs2) (ys1 @ w # ys2) \<noteq> []"
        by (rule less.hyps) (use less.prems x in auto)
      with Nil x \<open>lt x w\<close> show ?thesis by simp
    next
      case (Cons y ys)
      have "set_intersection lt lt (xs @ w # xs2) (ys1 @ w # ys2) \<noteq> []" "set_intersection lt lt (xs1 @ w # xs2) (ys @ w # ys2) \<noteq> []"
        by (rule less.hyps; use less.prems x Cons in auto)+
      with x Cons show ?thesis by simp
    qed
  qed
qed

lemma set_intersection_sound:
  assumes "x \<in> set (set_intersection lt gt xs ys)"
  shows "x \<in> set xs \<and> (\<exists>y \<in> set ys. \<not> lt x y \<and> \<not> gt y x)"
  using assms by (induction lt gt xs ys rule: set_intersection.induct) (auto split: if_splits)


lemma which_sides:
  "a \<in> set as \<Longrightarrow> which (concat (map (\<lambda>a. [(True, a), (False, a)]) as)) (s, a) = 2 * which as a + (if s then 0 else 1)"
  by (induction as) (auto simp: which_def)

lemma wincase_which:
  assumes "is_wincase w"
  shows "which wincase_alternatives (wincase_alternative w) =
    2 * which market_alternatives (snd (wincase_alternative w)) + (if fst (wincase_alternative w) then 0 else 1)"
  using assms which_sides [of "snd (wincase_alternative w)" market_alternatives "fst (wincase_alternative w)"]
  by (auto simp: is_wincase_def wincase_alternatives_def)

text \<open>Passing to the other sides keeps the wincases in front of a positive one in front of its opposite.\<close>

lemma opposite_less:
  assumes w: "is_wincase v" "is_wincase w" and t: "fst (wincase_alternative w)" and lt: "wincase_less v w"
  shows "wincase_less (create_opposite v) (create_opposite w)"
proof -
  let ?k = "\<lambda>x. which market_alternatives (snd (wincase_alternative x))"
  have "?k v < ?k w \<or> ?k v = ?k w \<and> fst (wincase_alternative v) \<and> wincase_impl_less v w"
    using lt t by (auto simp: wincase_less_def variant_less_def wincase_which [OF w(1)] wincase_which [OF w(2)] split: if_splits)
  moreover have "wincase_impl_less (create_opposite v) (create_opposite w) = wincase_impl_less v w" by (cases v; cases w) simp_all
  moreover have "which wincase_alternatives (wincase_alternative (create_opposite v)) = 2 * ?k v + (if fst (wincase_alternative v) then 1 else 0)"
    "which wincase_alternatives (wincase_alternative (create_opposite w)) = 2 * ?k w + 1"
    using t w wincase_which [of "create_opposite v"] wincase_which [of "create_opposite w"] by (auto simp: wincase_alternative_opposite)
  ultimately show ?thesis by (auto simp: wincase_less_def variant_less_def)
qed

lemma both_sides_found:
  assumes sorted: "sorted_wrt wincase_less winners" and ok: "\<forall>w \<in> set winners. is_wincase w"
    and t: "t \<in> set winners" "fst (wincase_alternative t)" and f: "create_opposite t \<in> set winners"
  shows "set_intersection wincase_less wincase_less winners (map create_opposite winners) \<noteq> []"
proof -
  let ?f = "create_opposite t"
  obtain xs1 xs2 where x: "winners = xs1 @ ?f # xs2" using f by (auto simp: in_set_conv_decomp)
  obtain ys1 ys2 where y: "winners = ys1 @ t # ys2" using t(1) by (auto simp: in_set_conv_decomp)
  have "wincase_less v ?f \<and> \<not> wincase_less ?f v" if "v \<in> set xs1" for v
    using sorted ok that x wincase_less_asym by (auto simp: sorted_wrt_append)
  moreover have "wincase_less v ?f \<and> \<not> wincase_less ?f v" if v: "v \<in> set (map create_opposite ys1)" for v
  proof -
    from v obtain u where u: "u \<in> set ys1" "v = create_opposite u" by auto
    with sorted ok y t have "wincase_less u t" "is_wincase u" "is_wincase t" by (auto simp: sorted_wrt_append)
    then show ?thesis using u t(2) opposite_less wincase_less_asym by simp
  qed
  ultimately have "set_intersection wincase_less wincase_less (xs1 @ ?f # xs2) (map create_opposite ys1 @ ?f # map create_opposite ys2) \<noteq> []"
    by (rule set_intersection_finds) (simp_all add: wincase_less_irrefl)
  moreover have "map create_opposite winners = map create_opposite ys1 @ ?f # map create_opposite ys2" by (subst y) simp
  ultimately show ?thesis using x by simp
qed

text \<open>
  C11: The winners that a moderator posts are rejected exactly when they name both sides of some
  market: the intersection of the ordered winners with their (no longer ordered) opposites, which
  the code computes by the merge of \<^verbatim>\<open>boost::set_intersection\<close>, is empty exactly when no winner is
  the opposite of another.
\<close>
theorem opposite_winners_absent_iff:
  assumes "sorted_wrt wincase_less winners" and "\<forall>w \<in> set winners. is_wincase w"
  shows "validate_opposite_winners_absent winners = Inr () \<longleftrightarrow> (\<forall>w \<in> set winners. create_opposite w \<notin> set winners)"
proof -
  let ?i = "set_intersection wincase_less wincase_less winners (map create_opposite winners)"
  have "?i \<noteq> []" if w: "w \<in> set winners" "create_opposite w \<in> set winners" for w
    using both_sides_found [OF assms, of "if fst (wincase_alternative w) then w else create_opposite w"] w
    by (auto simp: wincase_alternative_opposite split: if_splits)
  moreover have "\<exists>w \<in> set winners. create_opposite w \<in> set winners" if x: "x \<in> set ?i" for x
  proof -
    obtain y where y: "x \<in> set winners" "y \<in> set winners" "wincase_equal x (create_opposite y)"
      using set_intersection_sound [OF x] by (auto simp: wincase_equal_def wincase_less_def variant_eq_def)
    then have "x = create_opposite y" using assms(2) wincase_equal_iff by simp
    then show ?thesis using y by auto
  qed
  ultimately have "?i = [] \<longleftrightarrow> (\<forall>w \<in> set winners. create_opposite w \<notin> set winners)"
    by (metis list.set_intros(1) neq_Nil_conv)
  then show ?thesis by (simp add: validate_opposite_winners_absent_def res_simps)
qed

definition sample_winners :: "wincase_type list" where
  "sample_winners = [Yes_no_wincase True Result Home_tag, Yes_no_wincase False Result Draw_tag, Over_under_wincase True Total No_tag 500,
     Over_under_wincase True Total No_tag 1000, Over_under_wincase False Total No_tag 500]"

theorem opposite_winners_absent_iff_witness: "validate_opposite_winners_absent sample_winners \<noteq> Inr ()"
proof -
  have "sorted_wrt wincase_less sample_winners" "\<forall>w \<in> set sample_winners. is_wincase w" by code_simp+
  from opposite_winners_absent_iff [OF this] show ?thesis by (simp add: sample_winners_def)
qed

end
