(* ===== verification/Betting_Payouts.thy ===== *)
theory Betting_Payouts
  imports Betting_Properties
begin

text \<open>
  What the resolver pays: the income of a matched bet goes to the better whose wincase is among
  the results of the game, or each stake back to its owner when neither is. The code collects the
  incomes by bet uuid before it pays them, with the better of the first entry, so the claim needs
  that a uuid belongs to one better.
\<close>

section \<open>The award of a matched bet\<close>

definition share_of :: "account_name \<Rightarrow> bet_data \<Rightarrow> int \<Rightarrow> int" where
  "share_of n b x = (if b_better b = n then x else 0)"

definition award :: "wincase_type list \<Rightarrow> account_name \<Rightarrow> matched_bet_object \<Rightarrow> int" where
  "award results n b =
     (if b_wincase (m_bet1_data b) \<in> set results then share_of n (m_bet1_data b) (matched_sum b)
      else if b_wincase (m_bet2_data b) \<in> set results then share_of n (m_bet2_data b) (matched_sum b)
      else share_of n (m_bet1_data b) (amount (b_stake (m_bet1_data b))) + share_of n (m_bet2_data b) (amount (b_stake (m_bet2_data b))))"

definition owned :: "(uuid \<Rightarrow> account_name) \<Rightarrow> matched_bet_object \<Rightarrow> bool" where
  "owned own b \<longleftrightarrow> b_better (m_bet1_data b) = own (b_uuid (m_bet1_data b)) \<and> b_better (m_bet2_data b) = own (b_uuid (m_bet2_data b))"

text \<open>What a list of payouts holds for a better.\<close>

definition paid :: "account_name \<Rightarrow> payouts \<Rightarrow> int" where
  "paid n ps = sum_list (map (\<lambda>p. if fst (snd p) = n then amount (snd (snd p)) else 0) ps)"

definition payouts_owned :: "(uuid \<Rightarrow> account_name) \<Rightarrow> payouts \<Rightarrow> bool" where
  "payouts_owned own ps \<longleftrightarrow> list_all (\<lambda>p. fst (snd p) = own (fst p)) ps"

lemma payout_simps [simp]:
  "paid n [] = 0" "paid n (p # ps) = (if fst (snd p) = n then amount (snd (snd p)) else 0) + paid n ps"
  by (simp_all add: paid_def)

lemma payouts_owned_simps [simp]:
  "payouts_owned own []" "payouts_owned own (p # ps) \<longleftrightarrow> fst (snd p) = own (fst p) \<and> payouts_owned own ps"
  by (simp_all add: payouts_owned_def)

lemma post_payout_paid:
  assumes F: "ext_ok F" and b: "b_better b = own (b_uuid b)"
  shows "post_payout F b x ps = Inr ps' \<Longrightarrow> payouts_owned own ps \<Longrightarrow>
    paid n ps' = paid n ps + share_of n b (amount x) \<and> payouts_owned own ps'"
proof (induction ps arbitrary: ps')
  case (Cons p ps)
  obtain u better y where p: "p = (u, better, y)" by (cases p)
  show ?case
  proof (cases "b_uuid b = u \<or> b_uuid b < u")
    case True
    with Cons.prems b show ?thesis by (auto simp: p bindE_Inr_iff asset_add_iff [OF F] share_of_def split: if_splits)
  next
    case False
    with Cons.prems obtain qs where qs: "post_payout F b x ps = Inr qs" "ps' = (u, better, y) # qs" by (auto simp: p bindE_Inr_iff)
    with Cons.IH [OF qs(1)] Cons.prems show ?thesis by (simp add: p)
  qed
qed (auto simp: share_of_def b)

text \<open>The resolver looks a wincase up in the results with the order of the variants.\<close>

lemma wins_iff:
  assumes "is_wincase w" and "\<forall>r \<in> set rs. is_wincase r"
  shows "(\<exists>r \<in> set rs. \<not> wincase_less r w \<and> \<not> wincase_less w r) \<longleftrightarrow> w \<in> set rs"
proof -
  have "\<not> wincase_less r w \<and> \<not> wincase_less w r \<longleftrightarrow> r = w" if "r \<in> set rs" for r
    using assms that wincase_equal_iff [of r w] by (simp add: wincase_equal_def wincase_less_def variant_eq_def)
  then show ?thesis by auto
qed

lemma resolve_bet_paid:
  assumes F: "ext_ok F" and r: "resolve_bet F rs b ps = Inr ps'" and o: "payouts_owned own ps" "owned own b"
    and w: "is_wincase (b_wincase (m_bet1_data b))" "is_wincase (b_wincase (m_bet2_data b))" "\<forall>r \<in> set rs. is_wincase r"
  shows "paid n ps' = paid n ps + award rs n b \<and> payouts_owned own ps'"
proof -
  let ?b1 = "m_bet1_data b" and ?b2 = "m_bet2_data b"
  have own: "b_better ?b1 = own (b_uuid ?b1)" "b_better ?b2 = own (b_uuid ?b2)" using o(2) by (simp_all add: owned_def)
  from r obtain x where "asset_add F (b_stake ?b1) (b_stake ?b2) = Inr x"
    and r': "(if b_wincase ?b1 \<in> set rs then post_payout F ?b1 x ps else if b_wincase ?b2 \<in> set rs then post_payout F ?b2 x ps
      else bindE (post_payout F ?b1 (b_stake ?b1) ps) (post_payout F ?b2 (b_stake ?b2))) = Inr ps'"
    unfolding resolve_bet_def Let_def bindE_Inr_iff wins_iff [OF w(1,3)] wins_iff [OF w(2,3)] by (elim exE conjE) (rule that)
  then have x: "amount x = matched_sum b" by (auto simp: asset_add_iff [OF F] matched_sum_def)
  note post = post_payout_paid [where own = own and n = n, OF F own(1)] post_payout_paid [where own = own and n = n, OF F own(2)]
  show ?thesis
  proof (cases "b_wincase ?b1 \<in> set rs \<or> b_wincase ?b2 \<in> set rs")
    case True
    then show ?thesis using r' o(1) post(1) [of x ps ps'] post(2) [of x ps ps'] by (auto simp: award_def x)
  next
    case False
    then obtain qs where qs: "post_payout F ?b1 (b_stake ?b1) ps = Inr qs" "post_payout F ?b2 (b_stake ?b2) qs = Inr ps'"
      using r' by (auto simp: bindE_Inr_iff)
    from post(1) [OF qs(1) o(1)] post(2) [OF qs(2)] False show ?thesis by (simp add: award_def)
  qed
qed

lemma resolve_all_paid:
  assumes F: "ext_ok F" and s: "sound db" and rs: "\<forall>r \<in> set rs. is_wincase r"
  shows "foldE (\<lambda>i ps. bindE (ix_get (matched_bets db) i) (\<lambda>b. resolve_bet F rs b ps)) ids ps = Inr ps' \<Longrightarrow> payouts_owned own ps \<Longrightarrow>
    (\<forall>i \<in> set ids. \<forall>b. map_of (indices (matched_bets db)) i = Some b \<longrightarrow> owned own b) \<Longrightarrow>
    paid n ps' = paid n ps + sum_list (map (\<lambda>i. award rs n (the (map_of (indices (matched_bets db)) i))) ids)"
proof (induction ids arbitrary: ps)
  case (Cons i ids)
  then obtain b qs where b: "map_of (indices (matched_bets db)) i = Some b" and 1: "resolve_bet F rs b ps = Inr qs"
    and 2: "foldE (\<lambda>i ps. bindE (ix_get (matched_bets db) i) (\<lambda>b. resolve_bet F rs b ps)) ids qs = Inr ps'"
    by (auto simp: bindE_Inr_iff ix_get_iff)
  have "paid n qs = paid n ps + award rs n b \<and> payouts_owned own qs"
    by (rule resolve_bet_paid [OF F 1 Cons.prems(2)])
      (use sound_matched(1,2) [OF s b] b Cons.prems(3) rs in \<open>auto simp: bet_solvent_def\<close>)
  with Cons.IH [OF 2] Cons.prems(3) b show ?case by simp
qed simp

section \<open>Paying out\<close>

lemma pay_out_balance:
  assumes F: "ext_ok F" and ok: "db_ok db" and p: "pay_out F p db = Inr db'"
  shows "balance_of n db' = balance_of n db + (if fst (snd p) = n then amount (snd (snd p)) else 0)" and "db_ok db'"
proof -
  obtain u better x where q: "p = (u, better, x)" by (cases p)
  from p obtain acc db1 where k: "get_account better db = Inr acc" and 1: "increase_balance F acc x db = Inr db1"
    and 2: "sub_matched_volume F x db1 = Inr db'" by (auto simp: pay_out_def q bindE_Inr_iff)
  have "accounts db' = accounts db1" using 2 by (auto simp: sub_matched_volume_def update_dgp_iff)
  then show "balance_of n db' = balance_of n db + (if fst (snd p) = n then amount (snd (snd p)) else 0)"
    using increase_balance_effect(1) [OF F ok k 1, of n] balance_of_cong(1) [of db' db1 n] by (simp add: q)
  from 2 obtain v where "db' = db1\<lparr>dgp := (dgp db1)\<lparr>dgp_matched_bets_volume := v\<rparr>\<rparr>"
    by (auto simp: sub_matched_volume_def update_dgp_iff bindE_Inr_iff)
  then show "db_ok db'"
    using increase_balance_effect(3) [OF F ok k 1] db_ok_dgp [of db1 "(dgp db1)\<lparr>dgp_matched_bets_volume := v\<rparr>"] db_ok_dgp_ok [of db1]
    by (simp add: dgp_ok_def)
qed

lemma pay_all_balance:
  assumes F: "ext_ok F"
  shows "foldE (pay_out F) ps db = Inr db' \<Longrightarrow> db_ok db \<Longrightarrow> balance_of n db' = balance_of n db + paid n ps"
proof (induction ps arbitrary: db)
  case (Cons p ps)
  then obtain db1 where 1: "pay_out F p db = Inr db1" and 2: "foldE (pay_out F) ps db1 = Inr db'" by (auto simp: bindE_Inr_iff)
  from Cons.IH [OF 2] pay_out_balance [OF F Cons.prems(2) 1] show ?case by simp
qed simp

lemma remove_all_rows:
  "foldE remove_matched_bet ids db = Inr db' \<Longrightarrow>
     accounts db' = accounts db \<and> indices (matched_bets db') = filter (\<lambda>r. fst r \<notin> set ids) (indices (matched_bets db))"
proof (induction ids arbitrary: db)
  case (Cons i ids)
  then obtain db1 where 1: "remove_matched_bet i db = Inr db1" and 2: "foldE remove_matched_bet ids db1 = Inr db'"
    by (auto simp: bindE_Inr_iff)
  from 1 have "accounts db1 = accounts db" "indices (matched_bets db1) = filter (\<lambda>r. fst r \<noteq> i) (indices (matched_bets db))"
    by (auto simp: remove_matched_bet_def bindE_Inr_iff ix_remove_eq_Inr drop_row_def)
  with Cons.IH [OF 2] show ?case by (auto intro!: filter_cong)
qed simp

lemma range_sum:
  assumes "sound db"
  shows "sum_list (map (\<lambda>i. f (the (map_of (indices (matched_bets db)) i))) (matched_by_market u db)) =
    row_sum f (filter (\<lambda>r. m_game_uuid (snd r) = u) (indices (matched_bets db)))"
proof -
  let ?rs = "indices (matched_bets db)"
  let ?sorted = "sort_by (\<lambda>r s. market_less (m_market (snd r)) (m_market (snd s))) (filter (\<lambda>r. m_game_uuid (snd r) = u) ?rs)"
  have d: "distinct (map fst ?rs)" using assms by (simp add: sound_def db_ok_def tables_ok_def wf_index_def sorted_rows_distinct)
  have "map (\<lambda>i. f (the (map_of ?rs i))) (matched_by_market u db) = map (\<lambda>r. f (snd r)) ?sorted"
    by (auto simp: matched_by_market_def set_sort_by d)
  also have "sum_list \<dots> = row_sum f (filter (\<lambda>r. m_game_uuid (snd r) = u) ?rs)"
    unfolding row_sum_def by (intro sum_list_mset_eq) (simp only: mset_map mset_sort_by)
  finally show ?thesis .
qed

section \<open>The resolver\<close>

text \<open>
  C9: Resolving a game pays out every matched bet of it and nothing else: each account receives
  the sum of its awards over the matched bets of the game, both stakes for a winning bet and its
  own stake where neither side has won; the bets of the game are gone afterwards and the bets of
  other games untouched.
\<close>
theorem resolver_pays_winners:
  assumes F: "ext_ok F" and s: "sound db" and rs: "\<forall>r \<in> set rs. is_wincase r"
    and own: "\<forall>r \<in> set (indices (matched_bets db)). m_game_uuid (snd r) = u \<longrightarrow> owned own (snd r)"
    and r: "resolve_matched_bets F u rs db = Inr db'"
  shows "balance_of n db' = balance_of n db + row_sum (award rs n) (filter (\<lambda>r. m_game_uuid (snd r) = u) (indices (matched_bets db)))
    \<and> indices (matched_bets db') = filter (\<lambda>r. m_game_uuid (snd r) \<noteq> u) (indices (matched_bets db))"
proof
  let ?ids = "matched_by_market u db"
  from r obtain ps db1 where 1: "foldE (\<lambda>i ps. bindE (ix_get (matched_bets db) i) (\<lambda>b. resolve_bet F rs b ps)) ?ids [] = Inr ps"
    and 2: "foldE (pay_out F) ps db = Inr db1" and 3: "foldE remove_matched_bet ?ids db1 = Inr db'"
    by (auto simp: resolve_matched_bets_def Let_def bindE_Inr_iff)
  have d: "distinct (map fst (indices (matched_bets db)))"
    using s by (simp add: sound_def db_ok_def tables_ok_def wf_index_def sorted_rows_distinct)
  have "paid n ps = row_sum (award rs n) (filter (\<lambda>r. m_game_uuid (snd r) = u) (indices (matched_bets db)))"
    using resolve_all_paid [OF F s rs 1, of own n] own map_of_SomeD by (fastforce simp: range_sum [OF s] matched_ranges(3) [OF s])
  then show "balance_of n db' = balance_of n db + row_sum (award rs n) (filter (\<lambda>r. m_game_uuid (snd r) = u) (indices (matched_bets db)))"
    using pay_all_balance [OF F 2, of n] s remove_all_rows [OF 3] balance_of_cong(1) [of db' db1 n] by (simp add: sound_def)
  have "matched_bets db1 = matched_bets db"
    using pay_all_flow [OF F 2] resolve_all_sum [OF F s 1] by (simp add: payouts_nonneg_def)
  moreover have "fst r \<in> set ?ids \<longleftrightarrow> m_game_uuid (snd r) = u" if "r \<in> set (indices (matched_bets db))" for r
    using matched_ranges(3) [OF s, of "fst r" u] map_of_is_SomeI [OF d, of "fst r" "snd r"] that by simp
  ultimately show "indices (matched_bets db') = filter (\<lambda>r. m_game_uuid (snd r) \<noteq> u) (indices (matched_bets db))"
    using remove_all_rows [OF 3] by (auto intro!: filter_cong)
qed


definition sample_matched :: matched_bet_object where
  "sample_matched = \<lparr>m_game_uuid = ''game'', m_market = Yes_no_market Result Home_tag, m_created = 950,
     m_bet1_data = \<lparr>b_uuid = ''bet1'', b_created = 940, b_better = ''alice'', b_wincase = Yes_no_wincase True Result Home_tag,
       b_stake = SCR 2000, b_odds = sample_odds 5 2, b_kind = Live\<rparr>,
     m_bet2_data = \<lparr>b_uuid = ''bet2'', b_created = 950, b_better = ''bobby'', b_wincase = Yes_no_wincase False Result Home_tag,
       b_stake = SCR 3000, b_odds = sample_odds 5 3, b_kind = Live\<rparr>\<rparr>"

definition sample_matched_db :: database where
  "sample_matched_db = sample_game_db\<lparr>matched_bets := \<lparr>next_id = 1, indices = [(0, sample_matched)]\<rparr>,
     dgp := sample_dgp\<lparr>dgp_matched_bets_volume := SCR 5000\<rparr>\<rparr>"

lemma sample_matched_sound: "sound sample_matched_db"
proof -
  let ?db = "sample_game_db\<lparr>matched_bets := \<lparr>next_id = 1, indices = [(0, sample_matched)]\<rparr>\<rparr>"
  have "ix_emplace (\<lambda>_ _. False) (\<lambda>_. Inr sample_matched) (matched_bets sample_game_db) = Inr (0, \<lparr>next_id = 1, indices = [(0, sample_matched)]\<rparr>)"
    by (simp add: ix_emplace_def ix_insert_def collides_def sample_game_db_def sample_db_def no_rows_def)
  from create_matched_flow [OF this] sample_game_sound(1) sample_odds_wf have 1: "sound ?db"
    by (simp add: bet_flow_def sample_matched_def bet_solvent_def sample_odds_def is_wincase_iff is_market_def market_alternatives_def)
  have "add_matched_volume ext_ref (SCR 5000) ?db = Inr sample_matched_db"
    by (simp add: add_matched_volume_def sample_matched_db_def sample_game_db_def run_simps)
  from volume_flows(3) [OF ext_ok_ref this] 1 show ?thesis by (simp add: bet_flow_def)
qed

lemma sample_resolution: "\<not> isl (resolve_matched_bets ext_ref ''game'' [Yes_no_wincase True Result Home_tag] sample_matched_db)"
  by (simp add: resolve_matched_bets_def matched_by_market_def sort_by_def resolve_bet_def pay_out_def sub_matched_volume_def
      remove_matched_bet_def sample_matched_db_def sample_matched_def sample_game_db_def run_simps Let_def wincase_less_irrefl)

theorem resolver_pays_winners_witness:
  "\<exists>db'. resolve_matched_bets ext_ref ''game'' [Yes_no_wincase True Result Home_tag] sample_matched_db = Inr db' \<and>
     balance_of ''alice'' db' = balance_of ''alice'' sample_matched_db + 5000 \<and> indices (matched_bets db') = []"
proof -
  from returns [OF sample_resolution] obtain db' where
    db': "resolve_matched_bets ext_ref ''game'' [Yes_no_wincase True Result Home_tag] sample_matched_db = Inr db'" by blast
  have "is_wincase (Yes_no_wincase True Result Home_tag)" by (simp add: is_wincase_iff is_market_def market_alternatives_def)
  moreover have "owned (\<lambda>u. if u = ''bet1'' then ''alice'' else ''bobby'') sample_matched" by (simp add: owned_def sample_matched_def)
  ultimately show ?thesis
    using resolver_pays_winners [where own = "\<lambda>u. if u = ''bet1'' then ''alice'' else ''bobby''" and n = "''alice''",
        OF ext_ok_ref sample_matched_sound _ _ db'] db'
    by (simp add: sample_matched_db_def award_def share_of_def sample_matched_def matched_sum_def)
qed

section \<open>Cancelling the bets of markets\<close>

lemma set_intersection_length: "length (set_intersection lt gt xs ys) \<le> length ys"
  by (induction lt gt xs ys rule: set_intersection.induct) auto

lemma length_drop_row: "distinct (map fst rs) \<Longrightarrow> length rs \<le> length (drop_row k rs) + 1"
proof (induction rs)
  case (Cons r rs)
  show ?case
  proof (cases "fst r = k")
    case True
    with Cons.prems have "drop_row k rs = rs" by (auto intro: drop_row_id)
    with True show ?thesis by (simp add: drop_row_def)
  qed (use Cons in \<open>simp add: drop_row_def\<close>)
qed simp

definition bet_counts :: "database \<Rightarrow> nat \<times> nat" where
  "bet_counts db = (length (indices (pending_bets db)), length (indices (matched_bets db)))"

lemma cancel_pending_bet_count:
  assumes F: "ext_ok F" and s: "sound db" and c: "cancel_pending_bet F i db = Inr db'"
  shows "sound db'" "matched_bets db' = matched_bets db"
    "length (indices (pending_bets db)) \<le> length (indices (pending_bets db')) + 1"
proof -
  show "sound db'" using cancel_pending_bet_flow [OF F c] s by (simp add: bet_flow_def)
  from c obtain b acc db1 db2 where "ix_get (pending_bets db) i = Inr b" "get_account (b_better (p_data b)) db = Inr acc"
    and 1: "increase_balance F acc (b_stake (p_data b)) db = Inr db1"
    and 2: "sub_pending_volume F (b_stake (p_data b)) db1 = Inr db2" and 3: "remove_pending_bet i db2 = Inr db'"
    unfolding cancel_pending_bet_def bindE_Inr_iff by (elim exE conjE) (rule that)
  have v: "bets_view db2 = bets_view db" using 1 2 by simp
  from 3 have "indices (pending_bets db') = drop_row i (indices (pending_bets db2))" and m: "matched_bets db' = matched_bets db2"
    by (auto simp: remove_pending_bet_def bindE_Inr_iff ix_remove_eq_Inr)
  then show "length (indices (pending_bets db)) \<le> length (indices (pending_bets db')) + 1"
    using length_drop_row [of "indices (pending_bets db)" i] s bets_viewD(1) [OF v]
    by (simp add: sound_def db_ok_def tables_ok_def wf_index_def sorted_rows_distinct)
  show "matched_bets db' = matched_bets db" using m bets_viewD(2) [OF v] by simp
qed

lemma cancel_matched_bet_count:
  assumes F: "ext_ok F" and s: "sound db" and c: "cancel_matched_bet F i db = Inr db'"
  shows "sound db'" "pending_bets db' = pending_bets db"
    "length (indices (matched_bets db)) \<le> length (indices (matched_bets db')) + 1"
proof -
  show "sound db'" using cancel_matched_bet_flow [OF F c] s by (simp add: bet_flow_def)
  have r: "bets_view d' = bets_view d" if "return_bet F b d = Inr d'" for b d d'
    using that by (auto simp: return_bet_def bindE_Inr_iff)
  from c obtain b db1 db2 where "ix_get (matched_bets db) i = Inr b" and 1: "return_bet F (m_bet1_data b) db = Inr db1"
    and 2: "return_bet F (m_bet2_data b) db1 = Inr db2" and 3: "remove_matched_bet i db2 = Inr db'"
    unfolding cancel_matched_bet_def bindE_Inr_iff by (elim exE conjE) (rule that)
  have v: "bets_view db2 = bets_view db" using r [OF 1] r [OF 2] by simp
  from 3 have "indices (matched_bets db') = drop_row i (indices (matched_bets db2))" and m: "pending_bets db' = pending_bets db2"
    by (auto simp: remove_matched_bet_def bindE_Inr_iff ix_remove_eq_Inr)
  then show "length (indices (matched_bets db)) \<le> length (indices (matched_bets db')) + 1"
    using length_drop_row [of "indices (matched_bets db)" i] s bets_viewD(2) [OF v]
    by (simp add: sound_def db_ok_def tables_ok_def wf_index_def sorted_rows_distinct)
  show "pending_bets db' = pending_bets db" using m bets_viewD(1) [OF v] by simp
qed

lemma cancel_pending_bets_count:
  assumes F: "ext_ok F"
  shows "foldE (cancel_pending_bet F) ids db = Inr db' \<Longrightarrow> sound db \<Longrightarrow> sound db' \<and> matched_bets db' = matched_bets db \<and>
    length (indices (pending_bets db)) \<le> length (indices (pending_bets db')) + length ids"
proof (induction ids arbitrary: db)
  case (Cons i ids)
  then obtain db1 where 1: "cancel_pending_bet F i db = Inr db1" and 2: "foldE (cancel_pending_bet F) ids db1 = Inr db'"
    by (auto simp: bindE_Inr_iff)
  from cancel_pending_bet_count [OF F Cons.prems(2) 1] Cons.IH [OF 2] show ?case by simp
qed simp

lemma cancel_matched_bets_count:
  assumes F: "ext_ok F"
  shows "foldE (cancel_matched_bet F) ids db = Inr db' \<Longrightarrow> sound db \<Longrightarrow> pending_bets db' = pending_bets db \<and>
    length (indices (matched_bets db)) \<le> length (indices (matched_bets db')) + length ids"
proof (induction ids arbitrary: db)
  case (Cons i ids)
  then obtain db1 where 1: "cancel_matched_bet F i db = Inr db1" and 2: "foldE (cancel_matched_bet F) ids db1 = Inr db'"
    by (auto simp: bindE_Inr_iff)
  from cancel_matched_bet_count [OF F Cons.prems(2) 1] Cons.IH [OF 2] show ?case by simp
qed simp

text \<open>
  Cancelling the bets of the markets that a game drops reaches at most one pending and one
  matched bet per dropped market, however many there are: \<^verbatim>\<open>boost::set_intersection\<close> pairs equal
  elements one to one, and the set of dropped markets has each market once. The other bets stay
  on a market the game no longer has.
\<close>
lemma cancel_bets_of_markets_partial:
  assumes F: "ext_ok F" and s: "sound db" and c: "cancel_bets_of_markets F u ms db = Inr db'"
  shows "fst (bet_counts db) \<le> fst (bet_counts db') + length ms \<and> snd (bet_counts db) \<le> snd (bet_counts db') + length ms"
proof -
  from c obtain filtered :: "pending_bet_object rows" and filtered' :: "matched_bet_object rows" and db1 where
    1: "foldE (cancel_pending_bet F) (map fst filtered) db = Inr db1" "length filtered \<le> length ms"
    and 2: "foldE (cancel_matched_bet F) (map fst filtered') db1 = Inr db'" "length filtered' \<le> length ms"
    unfolding cancel_bets_of_markets_def Let_def bindE_Inr_iff cancel_pending_bets_def cancel_matched_bets_def
    by (elim exE conjE) (rule that, assumption, rule set_intersection_length, assumption, rule set_intersection_length)
  from cancel_pending_bets_count [OF F 1(1) s] cancel_matched_bets_count [OF F 2(1)] 1(2) 2(2)
  show ?thesis by (auto simp: bet_counts_def)
qed

definition sample_pending :: "uuid \<Rightarrow> pending_bet_object" where
  "sample_pending u = \<lparr>p_game_uuid = ''game'', p_market = Yes_no_market Result Home_tag,
     p_data = \<lparr>b_uuid = u, b_created = 940, b_better = ''alice'', b_wincase = Yes_no_wincase True Result Home_tag,
       b_stake = SCR 2000, b_odds = sample_odds 5 2, b_kind = Live\<rparr>\<rparr>"

definition sample_pending_db :: database where
  "sample_pending_db = sample_game_db\<lparr>pending_bets := \<lparr>next_id = 2, indices = [(0, sample_pending ''bet1''), (1, sample_pending ''bet2'')]\<rparr>,
     dgp := sample_dgp\<lparr>dgp_pending_bets_volume := SCR 4000\<rparr>\<rparr>"

lemma sample_pending_sound: "sound sample_pending_db"
proof -
  let ?ix = "\<lparr>next_id = 1, indices = [(0, sample_pending ''bet1'')]\<rparr>"
    and ?ix2 = "\<lparr>next_id = 2, indices = [(0, sample_pending ''bet1''), (1, sample_pending ''bet2'')]\<rparr>"
  have ok: "bet_solvent (p_data (sample_pending u))" "symbol (b_stake (p_data (sample_pending u))) = SCORUM_SYMBOL" for u
    using sample_odds_wf by (simp_all add: sample_pending_def bet_solvent_def sample_odds_def is_wincase_iff is_market_def market_alternatives_def)
  have "ix_emplace pending_bet_clash (\<lambda>_. Inr (sample_pending ''bet1'')) (pending_bets sample_game_db) = Inr (0, ?ix)"
    by (simp add: ix_emplace_def ix_insert_def collides_def sample_game_db_def sample_db_def no_rows_def)
  from create_pending_flow [OF this ok] sample_game_sound(1) have 1: "sound (sample_game_db\<lparr>pending_bets := ?ix\<rparr>)" by (simp add: bet_flow_def)
  have "ix_emplace pending_bet_clash (\<lambda>_. Inr (sample_pending ''bet2'')) (pending_bets (sample_game_db\<lparr>pending_bets := ?ix\<rparr>)) = Inr (1, ?ix2)"
    by (simp add: ix_emplace_def ix_insert_def collides_def pending_bet_clash_def sample_pending_def)
  from create_pending_flow [OF this ok] 1 have 2: "sound (sample_game_db\<lparr>pending_bets := ?ix2\<rparr>)" by (simp add: bet_flow_def)
  have "add_pending_volume ext_ref (SCR 4000) (sample_game_db\<lparr>pending_bets := ?ix2\<rparr>) = Inr sample_pending_db"
    by (simp add: add_pending_volume_def sample_pending_db_def sample_game_db_def run_simps)
  from volume_flows(1) [OF ext_ok_ref this] 2 show ?thesis by (simp add: bet_flow_def)
qed

lemma sample_cancelling: "\<not> isl (cancel_bets_of_markets ext_ref ''game'' [Yes_no_market Result Home_tag] sample_pending_db)"
  by (simp add: cancel_bets_of_markets_def cancel_pending_bets_def cancel_pending_bet_def sort_by_def sub_pending_volume_def
      remove_pending_bet_def sample_pending_db_def sample_pending_def sample_game_db_def run_simps Let_def
      cancel_matched_bets_def market_less_def variant_less_def drop_row_def)

lemma cancel_bets_of_markets_partial_witness:
  "\<exists>db'. cancel_bets_of_markets ext_ref ''game'' [Yes_no_market Result Home_tag] sample_pending_db = Inr db' \<and>
     fst (bet_counts sample_pending_db) = 2 \<and> fst (bet_counts db') \<ge> 1"
proof -
  from returns [OF sample_cancelling] obtain db' where
    db': "cancel_bets_of_markets ext_ref ''game'' [Yes_no_market Result Home_tag] sample_pending_db = Inr db'" by blast
  have "fst (bet_counts sample_pending_db) = 2" by (simp add: bet_counts_def sample_pending_db_def)
  with cancel_bets_of_markets_partial [OF ext_ok_ref sample_pending_sound db'] db' show ?thesis by auto
qed

end
