(* ===== verification/Fork_Database.thy ===== *)
theory Fork_Database
  imports Scorum_Prelude
begin

text \<open>
  The fork database: \<^verbatim>\<open>libraries/chain/database/fork_database.cpp\<close>. The items are heap objects
  that the index, the cache of unlinked blocks and the head pointer own; the link of an item to its
  predecessor is a weak pointer, which no longer locks once the predecessor has been dropped. The
  heap is the list of the items ever made, a pointer is a position in it, and an item is alive
  while the index, the cache or the head holds it.

  The id of a block is the hash of its header with the first word replaced by the block number:
  a pair of the number and the rest of the hash, which is the parameter \<open>H\<close>. The body of a block
  other than the link to its predecessor is one opaque value.

  The lemmas show that the loops over the links end, and that the two branches the database
  switches between lead from the two given blocks to the same predecessor and share nothing
  below it.
\<close>

section \<open>Blocks\<close>

type_synonym u32 = "32 word"
type_synonym block_id = "u32 \<times> nat"

definition no_block_id :: block_id where
  "no_block_id = (0, 0)"

record signed_block =
  sb_previous :: block_id
  sb_body :: nat

type_synonym block_hash = "signed_block \<Rightarrow> nat"

definition num_from_id :: "block_id \<Rightarrow> u32" where
  "num_from_id i = fst i"

definition block_num :: "signed_block \<Rightarrow> u32" where
  "block_num b = num_from_id (sb_previous b) + 1"

definition id_of_block :: "block_hash \<Rightarrow> signed_block \<Rightarrow> block_id" where
  "id_of_block H b = (block_num b, H b)"

section \<open>Data\<close>

record fork_item =
  fi_prev :: "nat option"
  fi_num :: u32
  fi_invalid :: bool
  fi_id :: block_id
  fi_data :: signed_block

record fork_database =
  fd_heap :: "fork_item list"
  fd_index :: "nat list"
  fd_unlinked :: "nat list"
  fd_head :: "nat option"
  fd_max_size :: u32

definition empty_fork_database :: fork_database where
  "empty_fork_database = \<lparr>fd_heap = [], fd_index = [], fd_unlinked = [], fd_head = None, fd_max_size = 1024\<rparr>"

definition item_at :: "fork_database \<Rightarrow> nat \<Rightarrow> fork_item" where
  "item_at d p = fd_heap d ! p"

definition previous_id :: "fork_item \<Rightarrow> block_id" where
  "previous_id i = sb_previous (fi_data i)"

definition make_item :: "block_hash \<Rightarrow> signed_block \<Rightarrow> fork_item" where
  "make_item H b = \<lparr>fi_prev = None, fi_num = block_num b, fi_invalid = False, fi_id = id_of_block H b, fi_data = b\<rparr>"

text \<open>\<^verbatim>\<open>weak_ptr::lock\<close> of the link of an item.\<close>

definition alive :: "fork_database \<Rightarrow> nat \<Rightarrow> bool" where
  "alive d p \<longleftrightarrow> p \<in> set (fd_index d) \<or> p \<in> set (fd_unlinked d) \<or> fd_head d = Some p"

definition lock_prev :: "fork_database \<Rightarrow> nat \<Rightarrow> nat option" where
  "lock_prev d p = (case fi_prev (item_at d p) of None \<Rightarrow> None | Some q \<Rightarrow> if alive d q then Some q else None)"

definition find_in :: "fork_database \<Rightarrow> nat list \<Rightarrow> block_id \<Rightarrow> nat option" where
  "find_in d ps i = find (\<lambda>p. fi_id (item_at d p) = i) ps"

section \<open>Operations\<close>

definition fork_reset :: "fork_database \<Rightarrow> fork_database" where
  "fork_reset d = d\<lparr>fd_head := None, fd_index := []\<rparr>"

definition fork_pop_block :: "fork_database \<Rightarrow> fork_database res" where
  "fork_pop_block d =
     (case fd_head d of
        None \<Rightarrow> Inl (Assert_exception ''cannot pop an empty fork database'')
      | Some h \<Rightarrow>
          (case lock_prev d h of
             None \<Rightarrow> Inl (Assert_exception ''popping head block would leave fork DB empty'')
           | Some p \<Rightarrow> Inr (d\<lparr>fd_head := Some p\<rparr>)))"

text \<open>Insertion into an index with unique ids; an item whose id is there already is not inserted.\<close>

definition index_insert :: "nat \<Rightarrow> fork_database \<Rightarrow> fork_database" where
  "index_insert p d =
     (if find_in d (fd_index d) (fi_id (item_at d p)) = None then d\<lparr>fd_index := fd_index d @ [p]\<rparr> else d)"

definition alloc_item :: "fork_item \<Rightarrow> fork_database \<Rightarrow> nat \<times> fork_database" where
  "alloc_item i d = (length (fd_heap d), d\<lparr>fd_heap := fd_heap d @ [i]\<rparr>)"

definition start_block :: "block_hash \<Rightarrow> signed_block \<Rightarrow> fork_database \<Rightarrow> fork_database" where
  "start_block H b d =
     (let (p, d) = alloc_item (make_item H b) d; d = index_insert p d
      in d\<lparr>fd_head := Some p\<rparr>)"

definition oldest_num :: "fork_database \<Rightarrow> nat \<Rightarrow> int" where
  "oldest_num d h = max 0 (uint (fi_num (item_at d h)) - uint (fd_max_size d))"

definition push_item :: "nat \<Rightarrow> fork_database \<Rightarrow> fork_database res" where
  "push_item p d =
     bindE (case fd_head d of None \<Rightarrow> Inr ()
            | Some h \<Rightarrow> fc_assert (uint (fi_num (item_at d p)) > oldest_num d h) ''attempting to push a block that is too old'') (\<lambda>_.
     bindE (if fd_head d \<noteq> None \<and> previous_id (item_at d p) \<noteq> no_block_id then
              (case find_in d (fd_index d) (previous_id (item_at d p)) of
                 None \<Rightarrow> Inl Unlinkable_block_exception
               | Some q \<Rightarrow>
                   bindE (fc_assert (\<not> fi_invalid (item_at d q)) ''!(*itr)->invalid'') (\<lambda>_.
                   Inr (d\<lparr>fd_heap := (fd_heap d)[p := (item_at d p)\<lparr>fi_prev := Some q\<rparr>]\<rparr>)))
            else Inr d) (\<lambda>d.
     let d = index_insert p d in
     Inr (case fd_head d of
            None \<Rightarrow> d\<lparr>fd_head := Some p\<rparr>
          | Some h \<Rightarrow> if fi_num (item_at d p) > fi_num (item_at d h) then d\<lparr>fd_head := Some p\<rparr> else d)))"

text \<open>
  The exception of a block that does not link is thrown again before the block is cached, so
  the cache of unlinked blocks stays empty.
\<close>

definition fork_push_block :: "block_hash \<Rightarrow> signed_block \<Rightarrow> fork_database \<Rightarrow> (nat option \<times> fork_database) res" where
  "fork_push_block H b d =
     (let (p, d) = alloc_item (make_item H b) d in
     bindE (push_item p d) (\<lambda>d. Inr (fd_head d, d)))"

text \<open>The index by number: ordered, items with the same number in the order of insertion.\<close>

definition by_num :: "fork_database \<Rightarrow> nat list \<Rightarrow> nat list" where
  "by_num d ps = sort_key (\<lambda>p. fi_num (item_at d p)) ps"

definition lop_off :: "fork_database \<Rightarrow> nat \<Rightarrow> nat list \<Rightarrow> nat list" where
  "lop_off d h ps =
     (let gone = takeWhile (\<lambda>p. uint (fi_num (item_at d p)) < oldest_num d h) (by_num d ps)
      in filter (\<lambda>p. p \<notin> set gone) ps)"

definition set_max_size :: "u32 \<Rightarrow> fork_database \<Rightarrow> fork_database" where
  "set_max_size s d =
     (let d = d\<lparr>fd_max_size := s\<rparr> in
      case fd_head d of
        None \<Rightarrow> d
      | Some h \<Rightarrow> d\<lparr>fd_index := lop_off d h (fd_index d), fd_unlinked := lop_off d h (fd_unlinked d)\<rparr>)"

definition fetch_block :: "block_id \<Rightarrow> fork_database \<Rightarrow> nat option" where
  "fetch_block i d = (case find_in d (fd_index d) i of Some p \<Rightarrow> Some p | None \<Rightarrow> find_in d (fd_unlinked d) i)"

definition is_known_block :: "block_id \<Rightarrow> fork_database \<Rightarrow> bool" where
  "is_known_block i d \<longleftrightarrow> find_in d (fd_index d) i \<noteq> None \<or> find_in d (fd_unlinked d) i \<noteq> None"

definition fetch_block_by_number :: "u32 \<Rightarrow> fork_database \<Rightarrow> nat list" where
  "fetch_block_by_number n d =
     takeWhile (\<lambda>p. fi_num (item_at d p) = n) (dropWhile (\<lambda>p. fi_num (item_at d p) \<noteq> n) (by_num d (fd_index d)))"

text \<open>Sequencing of steps that throw or do not return.\<close>

definition bindL :: "'a res option \<Rightarrow> ('a \<Rightarrow> 'b res option) \<Rightarrow> 'b res option" where
  "bindL m f = (case m of None \<Rightarrow> None | Some (Inl e) \<Rightarrow> Some (Inl e) | Some (Inr x) \<Rightarrow> f x)"

lemma bindL_simps [simp]: "bindL None f = None" "bindL (Some (Inl e)) f = Some (Inl e)" "bindL (Some (Inr x)) f = f x"
  by (simp_all add: bindL_def)

lemma bindL_iff: "bindL m f = Some (Inr y) \<longleftrightarrow> (\<exists>x. m = Some (Inr x) \<and> f x = Some (Inr y))"
  by (auto simp: bindL_def split: option.splits sum.splits)

text \<open>The loops over the links may not end on an arbitrary heap: \<open>None\<close> is a loop that goes on for ever.\<close>

partial_function (option) descend :: "fork_database \<Rightarrow> u32 \<Rightarrow> nat \<Rightarrow> nat list \<Rightarrow> (nat list \<times> nat) res option" where
  "descend d n p branch =
     (if block_num (fi_data (item_at d p)) > n then
        (case lock_prev d p of
           None \<Rightarrow> Some (Inl (Assert_exception ''first_branch''))
         | Some q \<Rightarrow> descend d n q (branch @ [p]))
      else Some (Inr (branch, p)))"

partial_function (option) meet ::
  "fork_database \<Rightarrow> nat \<Rightarrow> nat \<Rightarrow> nat list \<Rightarrow> nat list \<Rightarrow> (nat list \<times> nat list) res option"
where
  "meet d p q ps qs =
     (if previous_id (item_at d p) \<noteq> previous_id (item_at d q) then
        (case lock_prev d p of
           None \<Rightarrow> Some (Inl (Assert_exception ''first_branch''))
         | Some p' \<Rightarrow>
             (case lock_prev d q of
                None \<Rightarrow> Some (Inl (Assert_exception ''second_branch''))
              | Some q' \<Rightarrow> meet d p' q' (ps @ [p]) (qs @ [q])))
      else Some (Inr (ps @ [p], qs @ [q])))"

definition fetch_branch_from :: "block_id \<Rightarrow> block_id \<Rightarrow> fork_database \<Rightarrow> (nat list \<times> nat list) res option" where
  "fetch_branch_from first second d =
     (case find_in d (fd_index d) first of
        None \<Rightarrow> Some (Inl (Assert_exception ''first_branch_itr''))
      | Some p \<Rightarrow>
     (case find_in d (fd_index d) second of
        None \<Rightarrow> Some (Inl (Assert_exception ''second_branch_itr''))
      | Some q \<Rightarrow>
     bindL (descend d (block_num (fi_data (item_at d q))) p []) (\<lambda>(ps, p).
     bindL (descend d (block_num (fi_data (item_at d p))) q []) (\<lambda>(qs, q).
     meet d p q ps qs))))"

partial_function (option) walk_back :: "fork_database \<Rightarrow> u32 \<Rightarrow> nat option \<Rightarrow> nat option option" where
  "walk_back d n p =
     (case p of
        None \<Rightarrow> Some None
      | Some q \<Rightarrow> if fi_num (item_at d q) > n then walk_back d n (lock_prev d q) else Some (Some q))"

text \<open>The code reads the number of the head without a check: it may only be called when there is one.\<close>

definition walk_main_branch_to_num :: "u32 \<Rightarrow> nat \<Rightarrow> fork_database \<Rightarrow> nat option option" where
  "walk_main_branch_to_num n h d = (if n > fi_num (item_at d h) then Some None else walk_back d n (Some h))"

definition fetch_block_on_main_branch_by_number :: "u32 \<Rightarrow> fork_database \<Rightarrow> nat option option" where
  "fetch_block_on_main_branch_by_number n d =
     (case fetch_block_by_number n d of
        [] \<Rightarrow> Some None
      | [p] \<Rightarrow> Some (Some p)
      | _ \<Rightarrow> (case fd_head d of None \<Rightarrow> None | Some h \<Rightarrow> walk_main_branch_to_num n h d))"

definition set_head :: "nat option \<Rightarrow> fork_database \<Rightarrow> fork_database" where
  "set_head h d = d\<lparr>fd_head := h\<rparr>"

definition fork_remove :: "block_id \<Rightarrow> fork_database \<Rightarrow> fork_database" where
  "fork_remove i d = d\<lparr>fd_index := filter (\<lambda>p. fi_id (item_at d p) \<noteq> i) (fd_index d)\<rparr>"

section \<open>Well-formed fork databases\<close>

text \<open>
  Every item carries the number of its block, which counts from 1, and the id; a link leads to an
  earlier item whose id the block names, the ids of the index are distinct, and the head exists.
\<close>

definition item_ok :: "block_hash \<Rightarrow> fork_item list \<Rightarrow> nat \<Rightarrow> bool" where
  "item_ok H heap p \<longleftrightarrow>
     fi_num (heap ! p) \<noteq> 0 \<and> fi_num (heap ! p) = block_num (fi_data (heap ! p)) \<and> fi_id (heap ! p) = id_of_block H (fi_data (heap ! p)) \<and>
     (\<forall>q. fi_prev (heap ! p) = Some q \<longrightarrow> q < p \<and> fi_id (heap ! q) = previous_id (heap ! p))"

definition fork_ok :: "block_hash \<Rightarrow> fork_database \<Rightarrow> bool" where
  "fork_ok H d \<longleftrightarrow>
     (\<forall>p < length (fd_heap d). item_ok H (fd_heap d) p) \<and>
     (\<forall>p \<in> set (fd_index d) \<union> set (fd_unlinked d). p < length (fd_heap d)) \<and>
     (\<forall>h. fd_head d = Some h \<longrightarrow> h < length (fd_heap d)) \<and>
     distinct (map (\<lambda>p. fi_id (item_at d p)) (fd_index d))"


lemma word_plus_one_less: "(x :: u32) + 1 \<noteq> 0 \<Longrightarrow> x < x + 1"
  using inc_less_eq_self_iff_eq [of x] by (auto simp flip: not_le)

lemma find_in_Some:
  assumes "find_in d ps i = Some p"
  shows "p \<in> set ps" and "fi_id (item_at d p) = i"
  using assms by (auto simp: find_in_def find_Some_iff)

lemma find_in_None: "find_in d ps i = None \<longleftrightarrow> (\<forall>p \<in> set ps. fi_id (item_at d p) \<noteq> i)"
  by (auto simp: find_in_def find_None_iff)

text \<open>A new item at the end of the heap leaves the old ones as they are.\<close>

lemma item_ok_append: "p < length heap \<Longrightarrow> item_ok H (heap @ [i]) p \<longleftrightarrow> item_ok H heap p"
  by (auto simp: item_ok_def nth_append)

lemma fork_ok_alloc:
  assumes "fork_ok H d" and "item_ok H (fd_heap d @ [i]) (length (fd_heap d))"
  shows "fork_ok H (d\<lparr>fd_heap := fd_heap d @ [i]\<rparr>)"
proof -
  have eq: "map (\<lambda>p. fi_id ((fd_heap d @ [i]) ! p)) (fd_index d) = map (\<lambda>p. fi_id (fd_heap d ! p)) (fd_index d)"
    using assms(1) by (auto simp: fork_ok_def nth_append)
  have "distinct (map (\<lambda>p. fi_id ((fd_heap d @ [i]) ! p)) (fd_index d))"
    unfolding eq using assms(1) by (simp add: fork_ok_def item_at_def)
  then show ?thesis using assms by (auto simp: fork_ok_def item_at_def item_ok_append less_Suc_eq)
qed

lemma fork_ok_insert:
  assumes "fork_ok H d" and "p < length (fd_heap d)"
  shows "fork_ok H (index_insert p d)"
  using assms by (auto simp: index_insert_def fork_ok_def find_in_None item_at_def)

lemma fork_ok_head: "fork_ok H d \<Longrightarrow> (\<And>h. x = Some h \<Longrightarrow> h < length (fd_heap d)) \<Longrightarrow> fork_ok H (d\<lparr>fd_head := x\<rparr>)"
  by (auto simp: fork_ok_def item_at_def)

lemma index_insert_simps [simp]:
  "fd_heap (index_insert p d) = fd_heap d" "fd_head (index_insert p d) = fd_head d"
  "fd_unlinked (index_insert p d) = fd_unlinked d" "item_at (index_insert p d) = item_at d"
  by (auto simp: index_insert_def item_at_def fun_eq_iff)

lemma fork_ok_make: "block_num b \<noteq> 0 \<Longrightarrow> item_ok H (heap @ [make_item H b]) (length heap)"
  by (simp add: item_ok_def make_item_def)

lemma start_block_ok:
  assumes "fork_ok H d" and "block_num b \<noteq> 0"
  shows "fork_ok H (start_block H b d)"
  unfolding start_block_def alloc_item_def Let_def prod.case
  by (intro fork_ok_head fork_ok_insert fork_ok_alloc assms fork_ok_make) simp_all

text \<open>The heap after a block has been pushed: the new item with its link.\<close>

lemma fork_push_block_shape:
  assumes "fork_push_block H b d = Inr (h, d')" and "fork_ok H d" and b: "block_num b \<noteq> 0"
  obtains i where "fi_data i = b" "fi_id i = id_of_block H b" "fi_num i = block_num b" "\<not> fi_invalid i"
    "item_ok H (fd_heap d @ [i]) (length (fd_heap d))"
    "h = fd_head d'" "fd_head d' = fd_head d \<or> fd_head d' = Some (length (fd_heap d))"
    "\<And>k. fd_head d = Some k \<Longrightarrow> block_num b \<le> fi_num (item_at d k) \<Longrightarrow> fd_head d' = fd_head d" "fd_heap d' = fd_heap d @ [i]"
    "d' = (index_insert (length (fd_heap d)) (d\<lparr>fd_heap := fd_heap d @ [i]\<rparr>))\<lparr>fd_head := fd_head d'\<rparr>"
proof -
  let ?n = "length (fd_heap d)" and ?i = "make_item H b"
  let ?d = "d\<lparr>fd_heap := fd_heap d @ [?i]\<rparr>"
  have i: "item_at ?d ?n = ?i" by (simp add: item_at_def)
  from assms(1) have p: "push_item ?n ?d = Inr d'" and h: "h = fd_head d'"
    by (auto simp: fork_push_block_def alloc_item_def bindE_Inr_iff)
  from p obtain d1 where link: "(if fd_head d \<noteq> None \<and> previous_id ?i \<noteq> no_block_id then
        (case find_in ?d (fd_index d) (previous_id ?i) of None \<Rightarrow> Inl Unlinkable_block_exception
         | Some q \<Rightarrow> bindE (fc_assert (\<not> fi_invalid (item_at ?d q)) ''!(*itr)->invalid'') (\<lambda>_.
             Inr (?d\<lparr>fd_heap := (fd_heap ?d)[?n := ?i\<lparr>fi_prev := Some q\<rparr>]\<rparr>)))
      else Inr ?d) = Inr d1"
    and d': "d' = (case fd_head d1 of None \<Rightarrow> (index_insert ?n d1)\<lparr>fd_head := Some ?n\<rparr>
      | Some h \<Rightarrow> if fi_num (item_at d1 ?n) > fi_num (item_at d1 h) then (index_insert ?n d1)\<lparr>fd_head := Some ?n\<rparr> else index_insert ?n d1)"
    unfolding push_item_def Let_def i bindE_Inr_iff by (force split: if_splits option.splits)
  have "\<exists>i. fi_data i = b \<and> fi_id i = id_of_block H b \<and> fi_num i = block_num b \<and> \<not> fi_invalid i \<and>
      item_ok H (fd_heap d @ [i]) ?n \<and> d1 = d\<lparr>fd_heap := fd_heap d @ [i]\<rparr>"
  proof (cases "d1 = ?d")
    case True
    then show ?thesis using fork_ok_make [OF b, of H "fd_heap d"] by (intro exI [of _ ?i]) (simp add: make_item_def)
  next
    case False
    with link obtain q where q: "find_in ?d (fd_index d) (previous_id ?i) = Some q" and
      d1: "d1 = d\<lparr>fd_heap := fd_heap d @ [?i\<lparr>fi_prev := Some q\<rparr>]\<rparr>"
      by (auto simp: bindE_Inr_iff list_update_append split: if_splits option.splits)
    have "q < ?n" using find_in_Some(1) [OF q] assms(2) by (auto simp: fork_ok_def)
    moreover have "fi_id (fd_heap d ! q) = previous_id ?i" using find_in_Some(2) [OF q] \<open>q < ?n\<close> by (simp add: item_at_def nth_append)
    ultimately show ?thesis using d1 b
      by (intro exI [of _ "?i\<lparr>fi_prev := Some q\<rparr>"]) (simp add: make_item_def item_ok_def nth_append previous_id_def)
  qed
  then obtain i where i': "fi_data i = b" "fi_id i = id_of_block H b" "fi_num i = block_num b" "\<not> fi_invalid i"
      "item_ok H (fd_heap d @ [i]) ?n" "d1 = d\<lparr>fd_heap := fd_heap d @ [i]\<rparr>" by blast
  have "fd_head d' = fd_head d \<or> fd_head d' = Some ?n" "d' = (index_insert ?n d1)\<lparr>fd_head := fd_head d'\<rparr>"
    using d' i'(6) by (auto split: option.splits if_splits)
  moreover have "fd_heap d' = fd_heap d @ [i]" using d' i'(6) by (auto split: option.splits if_splits)
  moreover have "fd_head d' = fd_head d" if k: "fd_head d = Some k" "block_num b \<le> fi_num (item_at d k)" for k
  proof -
    have "k < ?n" using k(1) assms(2) by (simp add: fork_ok_def)
    then show ?thesis using d' i'(3,6) k by (simp add: item_at_def nth_append not_less)
  qed
  ultimately show thesis using that [OF i'(1-5) h] i'(6) by blast
qed

lemma fork_push_block_head:
  assumes "fork_push_block H b d = Inr (h, d')"
  shows "h = fd_head d'" and "\<exists>k. h = Some k"
  using assms by (auto simp: fork_push_block_def alloc_item_def push_item_def Let_def bindE_Inr_iff split: option.splits if_splits)

lemma fork_push_block_ok:
  assumes "fork_push_block H b d = Inr (h, d')" and ok: "fork_ok H d" and "block_num b \<noteq> 0"
  shows "fork_ok H d'"
proof -
  obtain i where i: "item_ok H (fd_heap d @ [i]) (length (fd_heap d))" and
    h: "fd_head d' = fd_head d \<or> fd_head d' = Some (length (fd_heap d))" and
    d': "d' = (index_insert (length (fd_heap d)) (d\<lparr>fd_heap := fd_heap d @ [i]\<rparr>))\<lparr>fd_head := fd_head d'\<rparr>"
    by (rule fork_push_block_shape [OF assms]) blast
  have "fork_ok H (index_insert (length (fd_heap d)) (d\<lparr>fd_heap := fd_heap d @ [i]\<rparr>))"
    by (intro fork_ok_insert fork_ok_alloc ok i) simp
  moreover have "k < Suc (length (fd_heap d))" if k: "fd_head d' = Some k" for k
  proof (cases "fd_head d' = fd_head d")
    case True
    with k have "fd_head d = Some k" by simp
    with ok show ?thesis by (simp add: fork_ok_def less_SucI)
  qed (use h k in simp)
  ultimately have "fork_ok H ((index_insert (length (fd_heap d)) (d\<lparr>fd_heap := fd_heap d @ [i]\<rparr>))\<lparr>fd_head := fd_head d'\<rparr>)"
    by (intro fork_ok_head) simp_all
  then show ?thesis by (subst d')
qed

lemma lock_prev_Some:
  assumes "lock_prev d p = Some q" and "fork_ok H d" and "p < length (fd_heap d)"
  shows "q < p" and "fi_id (item_at d q) = previous_id (item_at d p)"
    and "block_num (fi_data (item_at d q)) < block_num (fi_data (item_at d p))"
    and "block_num (fi_data (item_at d p)) = block_num (fi_data (item_at d q)) + 1" and "alive d q"
proof -
  from assms(1) have "fi_prev (fd_heap d ! p) = Some q" and a: "alive d q"
    by (auto simp: lock_prev_def item_at_def split: option.splits if_splits)
  with assms(2,3) have q: "q < p" and i: "fi_id (item_at d q) = previous_id (item_at d p)"
    by (auto simp: fork_ok_def item_ok_def item_at_def)
  show "q < p" "fi_id (item_at d q) = previous_id (item_at d p)" "alive d q" by (rule q, rule i, rule a)
  have "fi_id (item_at d q) = id_of_block H (fi_data (item_at d q))"
    using assms(2,3) q by (simp add: fork_ok_def item_ok_def item_at_def)
  with i show n: "block_num (fi_data (item_at d p)) = block_num (fi_data (item_at d q)) + 1"
    by (simp add: block_num_def [of "fi_data (item_at d p)"] previous_id_def num_from_id_def id_of_block_def prod_eq_iff)
  have "block_num (fi_data (item_at d p)) \<noteq> 0"
    using assms(2,3) \<open>fi_prev (fd_heap d ! p) = Some q\<close> by (auto simp: fork_ok_def item_ok_def item_at_def)
  with n show "block_num (fi_data (item_at d q)) < block_num (fi_data (item_at d p))"
    by (simp add: word_plus_one_less)
qed

lemma fork_pop_block_ok: "fork_pop_block d = Inr d' \<Longrightarrow> fork_ok H d \<Longrightarrow> fork_ok H d'"
  using lock_prev_Some(1) [of d _ _ H]
  by (fastforce simp: fork_pop_block_def fork_ok_def item_at_def dest: less_trans split: option.splits)

lemma fork_remove_ok: "fork_ok H d \<Longrightarrow> fork_ok H (fork_remove i d)"
  by (auto simp: fork_remove_def fork_ok_def item_at_def distinct_map_filter)

lemma set_max_size_ok: "fork_ok H d \<Longrightarrow> fork_ok H (set_max_size s d)"
  by (auto simp: set_max_size_def fork_ok_def item_at_def lop_off_def Let_def distinct_map_filter split: option.splits)


section \<open>Walking the links\<close>

text \<open>
  A branch: a list of items from a block back to one, each linked to the next.
\<close>

fun linked :: "fork_database \<Rightarrow> nat list \<Rightarrow> bool" where
  "linked d (p # q # ps) \<longleftrightarrow> lock_prev d p = Some q \<and> linked d (q # ps)"
| "linked d _ \<longleftrightarrow> True"

abbreviation num_of :: "fork_database \<Rightarrow> nat \<Rightarrow> u32" where
  "num_of d p \<equiv> block_num (fi_data (item_at d p))"

abbreviation parent :: "fork_database \<Rightarrow> nat \<Rightarrow> block_id" where
  "parent d p \<equiv> previous_id (item_at d p)"

lemma linked_snoc: "linked d (ps @ [p]) \<Longrightarrow> lock_prev d p = Some q \<Longrightarrow> linked d (ps @ [p, q])"
  by (induction d ps rule: linked.induct) simp_all

text \<open>The loops return: each step goes to an item that was made earlier.\<close>

lemma descend_returns:
  assumes "fork_ok H d" and "p < length (fd_heap d)"
  shows "\<exists>r. descend d n p branch = Some r"
  using assms(2)
proof (induction p arbitrary: branch rule: less_induct)
  case (less p)
  show ?case
  proof (cases "lock_prev d p")
    case (Some q)
    then show ?thesis using less lock_prev_Some(1) [OF Some assms(1) less.prems] by (subst descend.simps) auto
  qed (subst descend.simps, simp)
qed

lemma meet_returns:
  assumes "fork_ok H d" and "p < length (fd_heap d)" and "q < length (fd_heap d)"
  shows "\<exists>r. meet d p q ps qs = Some r"
  using assms(2,3)
proof (induction p arbitrary: q ps qs rule: less_induct)
  case (less p)
  show ?case
  proof (cases "lock_prev d p")
    case p: (Some p')
    note lp = lock_prev_Some(1) [OF p assms(1) less.prems(1)]
    show ?thesis
    proof (cases "lock_prev d q")
      case (Some q')
      then show ?thesis using less p lp lock_prev_Some(1) [OF Some assms(1) less.prems(2)] by (subst meet.simps) auto
    qed (subst meet.simps, use p in simp)
  qed (subst meet.simps, simp)
qed

lemma walk_back_returns:
  assumes "fork_ok H d" and "p < length (fd_heap d)"
  shows "\<exists>r. walk_back d n (Some p) = Some r"
  using assms(2)
proof (induction p rule: less_induct)
  case (less p)
  show ?case
  proof (cases "lock_prev d p")
    case (Some q)
    then show ?thesis using less lock_prev_Some(1) [OF Some assms(1) less.prems] by (subst walk_back.simps) auto
  next
    case None
    have "walk_back d n None = Some None" by (subst walk_back.simps) simp
    then show ?thesis by (subst walk_back.simps) (simp add: None)
  qed
qed


section \<open>Branches\<close>

lemma descend_branch:
  assumes ok: "fork_ok H d"
  shows "descend d n p branch = Some (Inr (ps, p')) \<Longrightarrow> p < length (fd_heap d) \<Longrightarrow>
    \<exists>xs. ps = branch @ xs \<and> linked d (xs @ [p']) \<and> hd (xs @ [p']) = p \<and> p' < length (fd_heap d) \<and>
      (\<forall>x \<in> set xs. n < num_of d x) \<and> num_of d p' \<le> n \<and> (n \<le> num_of d p \<longrightarrow> num_of d p' = n) \<and> (num_of d p \<le> n \<longrightarrow> xs = [])"
proof (induction p arbitrary: branch rule: less_induct)
  case (less p)
  show ?case
  proof (cases "num_of d p > n")
    case True
    with less.prems(1) obtain q where q: "lock_prev d p = Some q" and r: "descend d n q (branch @ [p]) = Some (Inr (ps, p'))"
      by (subst (asm) descend.simps) (auto split: option.splits)
    note l = lock_prev_Some [OF q ok less.prems(2)]
    from less.IH [OF l(1) r] l(1) less.prems(2) obtain xs where xs: "ps = (branch @ [p]) @ xs" "linked d (xs @ [p'])" "hd (xs @ [p']) = q"
      "p' < length (fd_heap d)" "\<forall>x \<in> set xs. n < num_of d x" "num_of d p' \<le> n" "n \<le> num_of d q \<longrightarrow> num_of d p' = n" by auto
    have "n \<le> num_of d q" using True l(4) less_inc_imp_less_eq by simp
    moreover have "linked d ((p # xs) @ [p'])" using xs(2,3) q by (cases xs) auto
    ultimately show ?thesis using xs True by (intro exI [of _ "p # xs"]) auto
  next
    case False
    then have "ps = branch \<and> p' = p" using less.prems(1) by (subst (asm) descend.simps) auto
    then show ?thesis using False less.prems(2) by (intro exI [of _ "[]"]) auto
  qed
qed

lemma parent_num: "parent d p = parent d q \<Longrightarrow> num_of d p = num_of d q"
  by (simp add: block_num_def previous_id_def)

lemma meet_branch:
  assumes ok: "fork_ok H d"
  shows "meet d p q ps qs = Some (Inr (as, bs)) \<Longrightarrow> p < length (fd_heap d) \<Longrightarrow> q < length (fd_heap d) \<Longrightarrow> num_of d p = num_of d q \<Longrightarrow>
    \<exists>xs ys. as = ps @ xs \<and> bs = qs @ ys \<and> xs \<noteq> [] \<and> ys \<noteq> [] \<and> hd xs = p \<and> hd ys = q \<and> linked d xs \<and> linked d ys \<and>
      parent d (last xs) = parent d (last ys) \<and> (\<forall>x \<in> set xs \<union> set ys. num_of d x \<le> num_of d p) \<and>
      (\<forall>x \<in> set (butlast xs). \<forall>y \<in> set (butlast ys). parent d x \<noteq> parent d y)"
proof (induction p arbitrary: q ps qs rule: less_induct)
  case (less p)
  show ?case
  proof (cases "parent d p = parent d q")
    case True
    then have "as = ps @ [p] \<and> bs = qs @ [q]" using less.prems(1) by (subst (asm) meet.simps) auto
    then show ?thesis using True less.prems(4) by (intro exI [of _ "[p]"] exI [of _ "[q]"]) auto
  next
    case False
    with less.prems(1) obtain p' q' where p': "lock_prev d p = Some p'" and q': "lock_prev d q = Some q'"
      and r: "meet d p' q' (ps @ [p]) (qs @ [q]) = Some (Inr (as, bs))"
      by (subst (asm) meet.simps) (auto split: option.splits)
    note lp = lock_prev_Some [OF p' ok less.prems(2)] and lq = lock_prev_Some [OF q' ok less.prems(3)]
    have n: "num_of d p' = num_of d q'" using lp(4) lq(4) less.prems(4) by simp
    from less.IH [OF lp(1) r _ _ n] lp(1) lq(1) less.prems(2,3) obtain xs ys where
      xy: "as = (ps @ [p]) @ xs" "bs = (qs @ [q]) @ ys" "xs \<noteq> []" "ys \<noteq> []" "hd xs = p'" "hd ys = q'" "linked d xs" "linked d ys"
        "parent d (last xs) = parent d (last ys)" and le: "\<forall>x \<in> set xs \<union> set ys. num_of d x \<le> num_of d p'"
        and ne: "\<forall>x \<in> set (butlast xs). \<forall>y \<in> set (butlast ys). parent d x \<noteq> parent d y" by fastforce
    have below: "num_of d x < num_of d p" "num_of d x < num_of d q" if "x \<in> set xs \<union> set ys" for x
      using bspec [OF le that] lp(3) less.prems(4) by simp_all
    have "parent d p \<noteq> parent d y" if "y \<in> set (butlast ys)" for y
      using below(1) [of y] parent_num [of d p y] in_set_butlastD [OF that] by auto
    moreover have "parent d x \<noteq> parent d q" if "x \<in> set (butlast xs)" for x
      using below(2) [of x] parent_num [of d x q] in_set_butlastD [OF that] by auto
    moreover have "linked d (p # xs)" "linked d (q # ys)" using xy p' q' by (cases xs; cases ys; simp)+
    moreover have "\<forall>x \<in> set (p # xs) \<union> set (q # ys). num_of d x \<le> num_of d p" using below(1) less.prems(4) by (auto simp: less_imp_le)
    ultimately show ?thesis using xy ne False by (intro exI [of _ "p # xs"] exI [of _ "q # ys"]) auto
  qed
qed

lemma linked_append: "linked d (xs @ [p]) \<Longrightarrow> ys \<noteq> [] \<Longrightarrow> hd ys = p \<Longrightarrow> linked d ys \<Longrightarrow> linked d (xs @ ys)"
proof (induction xs)
  case (Cons x xs)
  then show ?case by (cases xs; cases ys) auto
qed simp


lemma fetch_branch_returns:
  assumes "fork_ok H d"
  shows "\<exists>r. fetch_branch_from first second d = Some r"
proof (cases "find_in d (fd_index d) first"; cases "find_in d (fd_index d) second")
  fix p q assume p: "find_in d (fd_index d) first = Some p" and q: "find_in d (fd_index d) second = Some q"
  have l: "p < length (fd_heap d)" "q < length (fd_heap d)"
    using find_in_Some(1) [OF p] find_in_Some(1) [OF q] assms by (auto simp: fork_ok_def)
  obtain r1 where r1: "descend d (num_of d q) p [] = Some r1" using descend_returns [OF assms l(1)] by blast
  show ?thesis
  proof (cases r1)
    case (Inr x)
    obtain ps p' where x: "r1 = Inr (ps, p')" using Inr by (cases x) simp
    from descend_branch [OF assms r1 [unfolded x] l(1)] have l': "p' < length (fd_heap d)" by blast
    obtain r2 where r2: "descend d (num_of d p') q [] = Some r2" using descend_returns [OF assms l(2)] by blast
    show ?thesis
    proof (cases r2)
      case (Inr y)
      obtain qs q' where y: "r2 = Inr (qs, q')" using Inr by (cases y) simp
      from descend_branch [OF assms r2 [unfolded y] l(2)] have "q' < length (fd_heap d)" by blast
      from meet_returns [OF assms l' this] show ?thesis using p q r1 r2 x y by (simp add: fetch_branch_from_def)
    qed (use p q r1 r2 x in \<open>simp add: fetch_branch_from_def\<close>)
  qed (use p q r1 in \<open>simp add: fetch_branch_from_def\<close>)
qed (auto simp: fetch_branch_from_def)

definition common_fork :: "fork_database \<Rightarrow> block_id \<Rightarrow> block_id \<Rightarrow> nat list \<Rightarrow> nat list \<Rightarrow> bool" where
  "common_fork d first second as bs \<longleftrightarrow>
     as \<noteq> [] \<and> bs \<noteq> [] \<and> hd as \<in> set (fd_index d) \<and> hd bs \<in> set (fd_index d) \<and> fi_id (item_at d (hd as)) = first \<and> fi_id (item_at d (hd bs)) = second \<and>
     linked d as \<and> linked d bs \<and> parent d (last as) = parent d (last bs) \<and>
     (\<forall>x \<in> set (butlast as). \<forall>y \<in> set (butlast bs). parent d x \<noteq> parent d y)"

lemma fetch_branch_common:
  assumes ok: "fork_ok H d" and r: "fetch_branch_from first second d = Some (Inr (as, bs))"
  shows "common_fork d first second as bs"
proof -
  from r obtain p q where p: "find_in d (fd_index d) first = Some p" and q: "find_in d (fd_index d) second = Some q"
    by (auto simp: fetch_branch_from_def split: option.splits)
  have l: "p < length (fd_heap d)" "q < length (fd_heap d)"
    using find_in_Some(1) [OF p] find_in_Some(1) [OF q] ok by (auto simp: fork_ok_def)
  from r p q obtain ps p' qs q' where r1: "descend d (num_of d q) p [] = Some (Inr (ps, p'))"
    and r2: "descend d (num_of d p') q [] = Some (Inr (qs, q'))" and r3: "meet d p' q' ps qs = Some (Inr (as, bs))"
    by (auto simp: fetch_branch_from_def bindL_iff)
  from descend_branch [OF ok r1 l(1)] have P: "linked d (ps @ [p'])" "hd (ps @ [p']) = p" "p' < length (fd_heap d)"
    "num_of d p' \<le> num_of d q" "num_of d q \<le> num_of d p \<longrightarrow> num_of d p' = num_of d q" "num_of d p \<le> num_of d q \<longrightarrow> ps = []"
    "\<forall>x \<in> set ps. num_of d q < num_of d x" by auto
  from descend_branch [OF ok r2 l(2)] P(4) have Q: "linked d (qs @ [q'])" "hd (qs @ [q']) = q" "q' < length (fd_heap d)"
    "num_of d q' = num_of d p'" "\<forall>x \<in> set qs. num_of d p' < num_of d x" "num_of d q \<le> num_of d p' \<longrightarrow> qs = []" by auto
  have one: "ps = [] \<or> qs = []" using P(5,6) Q(6) by (cases "num_of d q \<le> num_of d p") auto
  from meet_branch [OF ok r3 P(3) Q(3)] Q(4) obtain xs ys where xy: "as = ps @ xs" "bs = qs @ ys" "xs \<noteq> []" "ys \<noteq> []" "hd xs = p'" "hd ys = q'"
    "linked d xs" "linked d ys" "parent d (last xs) = parent d (last ys)" and le: "\<forall>x \<in> set xs \<union> set ys. num_of d x \<le> num_of d p'"
    and ne: "\<forall>x \<in> set (butlast xs). \<forall>y \<in> set (butlast ys). parent d x \<noteq> parent d y" by auto
  have ends: "hd as = p" "hd bs = q" "linked d as" "linked d bs"
    using xy P(1,2) Q(1,2) linked_append [of d ps p' xs] linked_append [of d qs q' ys] by (auto simp: hd_append)
  have apart: "parent d x \<noteq> parent d y" if "x \<in> set ps" "y \<in> set ys" for x y
    using bspec [OF P(7) that(1)] bspec [OF le, of y] that(2) P(4) parent_num [of d x y] by auto
  have apart': "parent d x \<noteq> parent d y" if "x \<in> set xs" "y \<in> set qs" for x y
    using bspec [OF Q(5) that(2)] bspec [OF le, of x] that(1) parent_num [of d x y] by auto
  have "set (butlast as) = set ps \<union> set (butlast xs)" "set (butlast bs) = set qs \<union> set (butlast ys)"
    using xy(1-4) by (simp_all add: butlast_append)
  with one ne apart apart' have "\<forall>x \<in> set (butlast as). \<forall>y \<in> set (butlast bs). parent d x \<noteq> parent d y"
    using in_set_butlastD by (elim disjE) fastforce+
  with ends xy find_in_Some [OF p] find_in_Some [OF q] show ?thesis by (simp add: common_fork_def)
qed

end
