(* ===== verification/Fork_Switch.thy ===== *)
theory Fork_Switch
  imports Fork_Database
begin

text \<open>
  How the database follows the longest fork: \<^verbatim>\<open>database::_push_block\<close> and \<^verbatim>\<open>database::pop_block\<close>
  (\<^verbatim>\<open>libraries/chain/database/database.cpp\<close>). The tables of the chain are one value with the undo
  sessions as the stack of the earlier values; what \<^verbatim>\<open>apply_block\<close> does to the tables is a
  parameter, together with the two fields of the global properties that the switch reads, the new
  size of the fork database (\<^verbatim>\<open>update_last_irreversible_block\<close> sets it at the end of
  \<^verbatim>\<open>apply_block\<close>) and the blocks of the log. Of \<^verbatim>\<open>apply_block\<close> the claims use that a block is
  only applied on the block it names as its predecessor and is the head afterwards. The flag
  \<^verbatim>\<open>skip_fork_db\<close> is not set. A step returns its result, normal or an exception, together with the
  state it leaves behind; \<open>None\<close> is a loop that does not end.
\<close>

section \<open>State\<close>

record 'c block_interface =
  apply_block :: "'c \<Rightarrow> signed_block \<Rightarrow> 'c res"
  head_block_id :: "'c \<Rightarrow> block_id"
  head_block_num :: "'c \<Rightarrow> u32"
  fork_size :: "'c \<Rightarrow> u32"
  block_logged :: "block_id \<Rightarrow> bool"

definition applies_on_head :: "block_hash \<Rightarrow> 'c block_interface \<Rightarrow> bool" where
  "applies_on_head H I \<longleftrightarrow>
     (\<forall>c b c'. apply_block I c b = Inr c' \<longrightarrow>
        head_block_id I c = sb_previous b \<and> head_block_id I c' = id_of_block H b \<and> head_block_num I c' = block_num b)"

record 'c node =
  nd_state :: 'c
  nd_undo :: "'c list"
  nd_fork :: fork_database

definition chain_of :: "'c node \<Rightarrow> 'c \<times> 'c list" where
  "chain_of nd = (nd_state nd, nd_undo nd)"

section \<open>Operations\<close>

definition known_block :: "'c block_interface \<Rightarrow> block_id \<Rightarrow> fork_database \<Rightarrow> bool" where
  "known_block I i d \<longleftrightarrow> fetch_block i d \<noteq> None \<or> block_logged I i"

definition undo_block :: "'c node \<Rightarrow> 'c node" where
  "undo_block nd = (case nd_undo nd of [] \<Rightarrow> nd | c # cs \<Rightarrow> nd\<lparr>nd_state := c, nd_undo := cs\<rparr>)"

definition pop_block :: "'c block_interface \<Rightarrow> 'c node \<Rightarrow> 'c node res" where
  "pop_block I nd =
     bindE (fc_assert (known_block I (head_block_id I (nd_state nd)) (nd_fork nd)) ''there are no blocks to pop'') (\<lambda>_.
     bindE (fork_pop_block (nd_fork nd)) (\<lambda>d.
     Inr (undo_block (nd\<lparr>nd_fork := d\<rparr>))))"

partial_function (option) pop_until :: "'c block_interface \<Rightarrow> block_id \<Rightarrow> 'c node \<Rightarrow> (unit res \<times> 'c node) option" where
  "pop_until I target nd =
     (if head_block_id I (nd_state nd) \<noteq> target then
        (case pop_block I nd of
           Inl e \<Rightarrow> Some (Inl e, nd)
         | Inr nd' \<Rightarrow> pop_until I target nd')
      else Some (Inr (), nd))"

text \<open>A block is applied in a session of its own; a block that throws leaves no trace.\<close>

definition apply_in_session :: "'c block_interface \<Rightarrow> signed_block \<Rightarrow> 'c node \<Rightarrow> 'c node res" where
  "apply_in_session I b nd =
     bindE (apply_block I (nd_state nd) b) (\<lambda>c.
     Inr (nd\<lparr>nd_state := c, nd_undo := nd_state nd # nd_undo nd, nd_fork := set_max_size (fork_size I c) (nd_fork nd)\<rparr>))"

text \<open>The blocks of a branch, oldest first; on an exception also the blocks that are left.\<close>

fun push_branch :: "'c block_interface \<Rightarrow> signed_block list \<Rightarrow> 'c node \<Rightarrow> ((exc \<times> signed_block list) + unit) \<times> 'c node" where
  "push_branch I [] nd = (Inr (), nd)"
| "push_branch I (b # bs) nd =
     (case apply_in_session I b nd of
        Inl e \<Rightarrow> (Inl (e, b # bs), nd)
      | Inr nd' \<Rightarrow> push_branch I bs nd')"

definition switch_forks ::
  "block_hash \<Rightarrow> 'c block_interface \<Rightarrow> nat list \<Rightarrow> nat list \<Rightarrow> 'c node \<Rightarrow> (bool res \<times> 'c node) option"
where
  "switch_forks H I first second nd =
     (let d = nd_fork nd;
          blocks = (\<lambda>ps. map (\<lambda>p. fi_data (item_at d p)) (rev ps));
          forked = previous_id (item_at d (last second)) in
      case pop_until I forked nd of
        None \<Rightarrow> None
      | Some (Inl e, nd) \<Rightarrow> Some (Inl e, nd)
      | Some (Inr _, nd) \<Rightarrow>
     (case push_branch I (blocks first) nd of
        (Inr _, nd) \<Rightarrow> Some (Inr True, nd)
      | (Inl (except, rest), nd) \<Rightarrow>
          let nd = nd\<lparr>nd_fork := set_head (Some (hd second)) (fold (\<lambda>b. fork_remove (id_of_block H b)) rest (nd_fork nd))\<rparr> in
         (case pop_until I forked nd of
            None \<Rightarrow> None
          | Some (Inl e, nd) \<Rightarrow> Some (Inl e, nd)
          | Some (Inr _, nd) \<Rightarrow>
             (case push_branch I (blocks second) nd of
                (Inl (e, _), nd) \<Rightarrow> Some (Inl e, nd)
              | (Inr _, nd) \<Rightarrow> Some (Inl except, nd)))))"

definition push_block :: "block_hash \<Rightarrow> 'c block_interface \<Rightarrow> signed_block \<Rightarrow> 'c node \<Rightarrow> (bool res \<times> 'c node) option" where
  "push_block H I b nd =
     (case fork_push_block H b (nd_fork nd) of
        Inl e \<Rightarrow> Some (Inl e, nd)
      | Inr (None, d) \<Rightarrow> None
      | Inr (Some new_head, d) \<Rightarrow>
         let nd = nd\<lparr>nd_fork := d\<rparr>; head_data = fi_data (item_at d new_head) in
         if sb_previous head_data \<noteq> head_block_id I (nd_state nd) then
           if block_num head_data > head_block_num I (nd_state nd) then
             (case fetch_branch_from (id_of_block H head_data) (head_block_id I (nd_state nd)) d of
                None \<Rightarrow> None
              | Some (Inl e) \<Rightarrow> Some (Inl e, nd)
              | Some (Inr (first, second)) \<Rightarrow> switch_forks H I first second nd)
           else Some (Inr False, nd)
         else
           (case apply_in_session I b nd of
              Inl e \<Rightarrow> Some (Inl e, nd\<lparr>nd_fork := fork_remove (id_of_block H b) (nd_fork nd)\<rparr>)
            | Inr nd \<Rightarrow> Some (Inr False, nd)))"


section \<open>The chain of states\<close>



lemma apply_in_session_chain:
  "apply_in_session I b nd = (case apply_block I (nd_state nd) b of Inl e \<Rightarrow> Inl e | Inr c \<Rightarrow>
     Inr (nd\<lparr>nd_state := c, nd_undo := nd_state nd # nd_undo nd, nd_fork := set_max_size (fork_size I c) (nd_fork nd)\<rparr>))"
  by (simp add: apply_in_session_def bindE_def)




section \<open>Popping blocks\<close>






section \<open>Switching\<close>








lemma set_max_size_heap [simp]: "fd_heap (set_max_size n d) = fd_heap d"
  by (simp add: set_max_size_def Let_def split: option.splits)




section \<open>Properties\<close>




text \<open>A chain whose state is the list of its blocks and that refuses one body.\<close>

definition sample_interface :: "signed_block list block_interface" where
  "sample_interface = \<lparr>
     apply_block = (\<lambda>c b. if sb_previous b = (case c of [] \<Rightarrow> no_block_id | a # _ \<Rightarrow> id_of_block sb_body a) \<and> sb_body b \<noteq> 13
        then Inr (b # c) else Inl (Assert_exception ''block'')),
     head_block_id = (\<lambda>c. case c of [] \<Rightarrow> no_block_id | a # _ \<Rightarrow> id_of_block sb_body a),
     head_block_num = (\<lambda>c. case c of [] \<Rightarrow> 0 | a # _ \<Rightarrow> block_num a),
     fork_size = (\<lambda>_. 1024), block_logged = (\<lambda>_. False)\<rparr>"

definition sample_block :: "block_id \<Rightarrow> nat \<Rightarrow> signed_block" where
  "sample_block i n = \<lparr>sb_previous = i, sb_body = n\<rparr>"

definition sample_node :: "signed_block list node" where
  "sample_node = \<lparr>nd_state = [sample_block no_block_id 1], nd_undo = [[]],
     nd_fork = \<lparr>fd_heap = [make_item sb_body (sample_block no_block_id 1), make_item sb_body (sample_block no_block_id 2)],
       fd_index = [0, 1], fd_unlinked = [], fd_head = Some 0, fd_max_size = 1024\<rparr>\<rparr>"

definition sample_fork :: fork_database where
  "sample_fork = \<lparr>fd_heap = [make_item sb_body (sample_block no_block_id 1), make_item sb_body (sample_block no_block_id 2),
     (make_item sb_body (sample_block (1, 2) 3))\<lparr>fi_prev := Some 1\<rparr>],
     fd_index = [0, 1, 2], fd_unlinked = [], fd_head = Some 2, fd_max_size = 1024\<rparr>"

lemmas sample_defs = sample_block_def make_item_def id_of_block_def block_num_def num_from_id_def no_block_id_def item_at_def previous_id_def


lemma sample_branches: "fetch_branch_from (2, 3) (1, 1) sample_fork = Some (Inr ([2, 1], [0]))"
proof -
  have l: "lock_prev sample_fork 2 = Some 1" by (simp add: lock_prev_def alive_def sample_fork_def sample_defs)
  have n: "num_of sample_fork 0 = 1" "num_of sample_fork 1 = 1" "num_of sample_fork 2 = 2"
    "parent sample_fork 0 = parent sample_fork 1" by (simp_all add: sample_fork_def sample_defs)
  have "descend sample_fork 1 1 [2] = Some (Inr ([2], 1))" by (subst descend.simps) (simp add: n del: One_nat_def)
  then have "descend sample_fork 1 2 [] = Some (Inr ([2], 1))" by (subst descend.simps) (simp add: n l del: One_nat_def)
  moreover have "descend sample_fork 1 0 [] = Some (Inr ([], 0))" by (subst descend.simps) (simp add: n)
  moreover have "meet sample_fork 1 0 [2] [] = Some (Inr ([2, 1], [0]))" by (subst meet.simps) (simp add: n del: One_nat_def)
  moreover have "find_in sample_fork (fd_index sample_fork) (2, 3) = Some 2" "find_in sample_fork (fd_index sample_fork) (1, 1) = Some 0"
    by (simp_all add: find_in_def sample_fork_def sample_defs)
  ultimately show ?thesis by (simp add: fetch_branch_from_def n del: One_nat_def)
qed

lemma sample_law: "applies_on_head sb_body sample_interface"
  by (simp add: applies_on_head_def sample_interface_def)






text \<open>
  C24: The walk of fetch_branch_from ends for any two ids: it returns the two branches, each led by
  its block, linked from block to block, whose last blocks have the same parent and which share no
  parent before, or it throws.
\<close>
theorem fetch_branch_correct:
  assumes "fork_ok H d"
  shows "\<exists>r. fetch_branch_from first second d = Some r \<and> (\<forall>as bs. r = Inr (as, bs) \<longrightarrow> common_fork d first second as bs)"
  using fetch_branch_returns [OF assms] fetch_branch_common [OF assms] by metis

lemma sample_fork_ok: "fork_ok sb_body sample_fork"
  by (auto simp: fork_ok_def item_ok_def sample_fork_def sample_defs less_Suc_eq nth_Cons split: nat.splits)

theorem fetch_branch_correct_witness:
  "fetch_branch_from (2, 3) (1, 1) sample_fork = Some (Inr ([2, 1], [0])) \<and> common_fork sample_fork (2, 3) (1, 1) [2, 1] [0]"
  using fetch_branch_correct [OF sample_fork_ok, of "(2, 3)" "(1, 1)"] sample_branches by simp


text \<open>
  C30: When the head of the fork database is a block that was tried on the head of the chain and
  failed, a block of another fork that is not higher is lost: it is applied to the wrong
  predecessor, throws, and is removed from the fork database, so that its fork cannot be followed.
\<close>
theorem competing_block_dropped:
  assumes law: "applies_on_head H I" and ok: "fork_ok H (nd_fork nd)" and b: "block_num b \<noteq> 0"
    and h: "fd_head (nd_fork nd) = Some h" and failed: "sb_previous (fi_data (item_at (nd_fork nd) h)) = head_block_id I (nd_state nd)"
    and other: "sb_previous b \<noteq> head_block_id I (nd_state nd)" "block_num b \<le> fi_num (item_at (nd_fork nd) h)"
    and push: "fork_push_block H b (nd_fork nd) = Inr (x, d)"
  shows "\<exists>e nd'. push_block H I b nd = Some (Inl e, nd') \<and> chain_of nd' = chain_of nd \<and>
    find_in (nd_fork nd') (fd_index (nd_fork nd')) (id_of_block H b) = None"
proof -
  obtain i where i: "fd_head d = fd_head (nd_fork nd)" "fd_heap d = fd_heap (nd_fork nd) @ [i]" "x = fd_head d"
    by (rule fork_push_block_shape [OF push ok b]) (use h other(2) in blast)
  moreover have "h < length (fd_heap (nd_fork nd))" using ok h by (simp add: fork_ok_def)
  ultimately have "item_at d h = item_at (nd_fork nd) h" by (simp add: item_at_def nth_append)
  moreover obtain e where "apply_block I (nd_state nd) b = Inl e"
    using law other(1) by (cases "apply_block I (nd_state nd) b") (auto simp: applies_on_head_def)
  ultimately show ?thesis
    using push i h failed by (auto simp: push_block_def Let_def apply_in_session_chain chain_of_def find_in_None fork_remove_def item_at_def)
qed

text \<open>Block 13 has failed on block 1 and is the head of the fork database; block 3 builds on block 2.\<close>

definition failed_node :: "signed_block list node" where
  "failed_node = sample_node\<lparr>nd_fork :=
     \<lparr>fd_heap = [make_item sb_body (sample_block no_block_id 1), make_item sb_body (sample_block no_block_id 2),
        (make_item sb_body (sample_block (1, 1) 13))\<lparr>fi_prev := Some 0\<rparr>],
      fd_index = [0, 1], fd_unlinked = [], fd_head = Some 2, fd_max_size = 1024\<rparr>\<rparr>"

lemma failed_node_after: "\<exists>e nd'. push_block sb_body sample_interface (sample_block (1, 1) 13) sample_node = Some (Inl e, nd') \<and> nd' = failed_node"
  by (simp add: push_block_def fork_push_block_def alloc_item_def push_item_def failed_node_def sample_node_def sample_defs find_in_def
      oldest_num_def index_insert_def Let_def apply_in_session_def sample_interface_def fork_remove_def)

lemma failed_node_ok: "fork_ok sb_body (nd_fork failed_node)"
  by (auto simp: fork_ok_def item_ok_def failed_node_def sample_defs less_Suc_eq nth_Cons split: nat.splits)

lemma failed_push: "\<exists>d. fork_push_block sb_body (sample_block (1, 2) 3) (nd_fork failed_node) = Inr (Some 2, d)"
  by (simp add: fork_push_block_def alloc_item_def push_item_def failed_node_def sample_node_def sample_defs find_in_def
      oldest_num_def index_insert_def Let_def)

theorem competing_block_dropped_witness:
  "\<exists>e nd'. push_block sb_body sample_interface (sample_block (1, 2) 3) failed_node = Some (Inl e, nd') \<and>
     find_in (nd_fork nd') (fd_index (nd_fork nd')) (2, 3) = None"
proof -
  from failed_push obtain d where d: "fork_push_block sb_body (sample_block (1, 2) 3) (nd_fork failed_node) = Inr (Some 2, d)" by blast
  have i: "id_of_block sb_body (sample_block (1, 2) 3) = (2, 3)" by (simp add: sample_defs)
  have "block_num (sample_block (1, 2) 3) \<noteq> 0" "fd_head (nd_fork failed_node) = Some 2"
    "sb_previous (fi_data (item_at (nd_fork failed_node) 2)) = head_block_id sample_interface (nd_state failed_node)"
    "sb_previous (sample_block (1, 2) 3) \<noteq> head_block_id sample_interface (nd_state failed_node)"
    "block_num (sample_block (1, 2) 3) \<le> fi_num (item_at (nd_fork failed_node) 2)"
    by (simp_all add: failed_node_def sample_node_def sample_interface_def sample_defs)
  from competing_block_dropped [OF sample_law failed_node_ok this d] show ?thesis unfolding i by blast
qed

end
