(* ===== verification/Sign_State.thy ===== *)
theory Sign_State
  imports Chain_Schema "HOL-Library.List_Lexorder" "HOL-Library.Char_ord"
begin

text \<open>
  Who has signed a transaction: \<^verbatim>\<open>libraries/protocol/sign_state.cpp\<close> and the checks of
  \<^verbatim>\<open>libraries/protocol/transaction.cpp\<close> that use it. An authority is satisfied by keys and by
  accounts whose own authorities are satisfied in turn, down to a maximal depth; the state
  remembers which signatures were of use and which accounts are approved. The authority of an
  account is looked up by a function that may throw (\<^verbatim>\<open>authority_getter\<close>). The authorities that
  the operations of a transaction require and the keys recovered from its signatures are
  arguments.

  The lemmas relate the search, with its early returns, its 32 bit sum of weights and its memory of
  approved accounts, to two specifications: what it accepts is satisfied in the sense of a least
  fixed point without any depth, and what is satisfied within the depth it accepts.
\<close>

section \<open>State\<close>

type_synonym authority_getter = "string \<Rightarrow> authority res"

record sign_state =
  available_keys :: "public_key list"
  provided_signatures :: "(public_key \<times> bool) list"
  approved_by :: "string list"
  max_recursion :: nat

definition SCORUM_MAX_SIG_CHECK_DEPTH :: nat where
  "SCORUM_MAX_SIG_CHECK_DEPTH = 2"

definition make_sign_state :: "public_key list \<Rightarrow> public_key list \<Rightarrow> sign_state" where
  "make_sign_state sigs keys =
     \<lparr>available_keys = keys, provided_signatures = map (\<lambda>k. (k, False)) (remdups sigs), approved_by = [''temp''],
      max_recursion = SCORUM_MAX_SIG_CHECK_DEPTH\<rparr>"

section \<open>Checking an authority\<close>

text \<open>Marks the entry of a key as used.\<close>

definition mark_used :: "public_key \<Rightarrow> (public_key \<times> bool) list \<Rightarrow> (public_key \<times> bool) list" where
  "mark_used k ps = map (\<lambda>p. if fst p = k then (k, True) else p) ps"

definition signed_by :: "public_key \<Rightarrow> sign_state \<Rightarrow> bool \<times> sign_state" where
  "signed_by k s =
     (if k \<in> set (map fst (provided_signatures s)) then
        (True, s\<lparr>provided_signatures := mark_used k (provided_signatures s)\<rparr>)
      else if k \<in> set (available_keys s) then
        (True, s\<lparr>provided_signatures := provided_signatures s @ [(k, True)]\<rparr>)
      else (False, s))"

text \<open>\<^verbatim>\<open>total_weight\<close> has 32 bits.\<close>

definition add_weight :: "nat \<Rightarrow> nat \<Rightarrow> nat" where
  "add_weight weight w = (weight + w) mod 2 ^ 32"

text \<open>The loops leave the function when the threshold is reached: \<open>None\<close> is that early return.\<close>

fun key_loop :: "nat \<Rightarrow> (public_key \<times> nat) list \<Rightarrow> nat \<Rightarrow> sign_state \<Rightarrow> nat option \<times> sign_state" where
  "key_loop threshold [] weight s = (Some weight, s)"
| "key_loop threshold ((k, w) # ks) weight s =
     (let (b, s) = signed_by k s in
      if b then
        let weight = add_weight weight w in
        if weight \<ge> threshold then (None, s) else key_loop threshold ks weight s
      else key_loop threshold ks weight s)"

text \<open>The check of an account one level down is an argument, absent at the maximal depth.\<close>

fun account_loop ::
  "authority_getter \<Rightarrow> (authority \<Rightarrow> sign_state \<Rightarrow> (bool \<times> sign_state) res) option \<Rightarrow> nat \<Rightarrow> (string \<times> nat) list \<Rightarrow> nat \<Rightarrow>
   sign_state \<Rightarrow> (nat option \<times> sign_state) res"
where
  "account_loop get_active check threshold [] weight s = Inr (Some weight, s)"
| "account_loop get_active check threshold ((a, w) # as) weight s =
     (if a \<notin> set (approved_by s) then
        (case check of
           None \<Rightarrow> account_loop get_active check threshold as weight s
         | Some f \<Rightarrow>
             bindE (get_active a) (\<lambda>auth.
             bindE (f auth s) (\<lambda>(b, s).
             if b then
               let s = s\<lparr>approved_by := a # approved_by s\<rparr>; weight = add_weight weight w in
               if weight \<ge> threshold then Inr (None, s) else account_loop get_active check threshold as weight s
             else account_loop get_active check threshold as weight s)))
      else
        let weight = add_weight weight w in
        if weight \<ge> threshold then Inr (None, s) else account_loop get_active check threshold as weight s)"

text \<open>The number counts the levels that are left: \<^verbatim>\<open>max_recursion - depth\<close>.\<close>

definition check_level ::
  "authority_getter \<Rightarrow> (authority \<Rightarrow> sign_state \<Rightarrow> (bool \<times> sign_state) res) option \<Rightarrow> authority \<Rightarrow> sign_state \<Rightarrow> (bool \<times> sign_state) res"
where
  "check_level get_active check auth s =
     (case key_loop (weight_threshold auth) (key_auths auth) 0 s of
        (None, s) \<Rightarrow> Inr (True, s)
      | (Some weight, s) \<Rightarrow>
          bindE (account_loop get_active check (weight_threshold auth) (account_auths auth) weight s) (\<lambda>(r, s).
          case r of None \<Rightarrow> Inr (True, s) | Some weight \<Rightarrow> Inr (weight \<ge> weight_threshold auth, s)))"

primrec check_depth :: "authority_getter \<Rightarrow> nat \<Rightarrow> authority \<Rightarrow> sign_state \<Rightarrow> (bool \<times> sign_state) res" where
  "check_depth get_active 0 = check_level get_active None"
| "check_depth get_active (Suc n) = check_level get_active (Some (check_depth get_active n))"

definition check_authority :: "authority_getter \<Rightarrow> authority \<Rightarrow> sign_state \<Rightarrow> (bool \<times> sign_state) res" where
  "check_authority get_active auth s = check_depth get_active (max_recursion s) auth s"

definition check_account :: "authority_getter \<Rightarrow> string \<Rightarrow> sign_state \<Rightarrow> (bool \<times> sign_state) res" where
  "check_account get_active a s =
     (if a \<in> set (approved_by s) then Inr (True, s)
      else bindE (get_active a) (\<lambda>auth. check_authority get_active auth s))"

definition remove_unused_signatures :: "sign_state \<Rightarrow> bool \<times> sign_state" where
  "remove_unused_signatures s =
     (let remove_sigs = filter (\<lambda>p. \<not> snd p) (provided_signatures s)
      in (remove_sigs \<noteq> [], s\<lparr>provided_signatures := filter snd (provided_signatures s)\<rparr>))"

section \<open>Verifying a transaction\<close>

definition approve :: "string list \<Rightarrow> sign_state \<Rightarrow> sign_state" where
  "approve ids s = s\<lparr>approved_by := ids @ approved_by s\<rparr>"

text \<open>\<^verbatim>\<open>a || b\<close> of two checks that both change the state.\<close>

definition or_else ::
  "(sign_state \<Rightarrow> (bool \<times> sign_state) res) \<Rightarrow> (sign_state \<Rightarrow> (bool \<times> sign_state) res) \<Rightarrow> sign_state \<Rightarrow> (bool \<times> sign_state) res"
where
  "or_else f g s = bindE (f s) (\<lambda>(b, s). if b then Inr (True, s) else g s)"

definition check_of :: "authority_getter \<Rightarrow> authority_getter \<Rightarrow> string \<Rightarrow> sign_state \<Rightarrow> (bool \<times> sign_state) res" where
  "check_of get_active get a s = bindE (get a) (\<lambda>auth. check_authority get_active auth s)"

definition require :: "exc \<Rightarrow> (sign_state \<Rightarrow> (bool \<times> sign_state) res) \<Rightarrow> sign_state \<Rightarrow> sign_state res" where
  "require e f s = bindE (f s) (\<lambda>(b, s). if b then Inr s else Inl e)"

definition finish_signatures :: "sign_state \<Rightarrow> unit res" where
  "finish_signatures s = (if fst (remove_unused_signatures s) then Inl Tx_irrelevant_sig else Inr ())"

definition verify_authority ::
  "string list \<Rightarrow> string list \<Rightarrow> string list \<Rightarrow> authority list \<Rightarrow> public_key list \<Rightarrow> authority_getter \<Rightarrow> authority_getter \<Rightarrow>
   authority_getter \<Rightarrow> nat \<Rightarrow> string list \<Rightarrow> string list \<Rightarrow> string list \<Rightarrow> unit res"
where
  "verify_authority required_active required_owner required_posting other sigs get_active get_owner get_posting
     max_recursion_depth active_approvals owner_approvals posting_approvals =
     (if required_posting \<noteq> [] then
        bindE (fc_assert (required_active = []) ''required_active.size() == 0'') (\<lambda>_.
        bindE (fc_assert (required_owner = []) ''required_owner.size() == 0'') (\<lambda>_.
        bindE (fc_assert (other = []) ''other.size() == 0'') (\<lambda>_.
        let s = approve posting_approvals ((make_sign_state sigs [])\<lparr>max_recursion := max_recursion_depth\<rparr>) in
        bindE (foldE (\<lambda>a. require Tx_missing_posting_auth
                 (or_else (or_else (check_account get_posting a) (check_of get_posting get_active a)) (check_of get_posting get_owner a)))
               required_posting s) (\<lambda>s.
        finish_signatures s))))
      else
        let s = approve owner_approvals (approve active_approvals ((make_sign_state sigs [])\<lparr>max_recursion := max_recursion_depth\<rparr>)) in
        bindE (foldE (\<lambda>auth. require Tx_missing_other_auth (check_authority get_active auth)) other s) (\<lambda>s.
        bindE (foldE (\<lambda>a. require Tx_missing_active_auth (or_else (check_account get_active a) (check_of get_active get_owner a)))
               required_active s) (\<lambda>s.
        bindE (foldE (\<lambda>a. require Tx_missing_owner_auth
                 (\<lambda>s. if a \<in> set owner_approvals then Inr (True, s) else check_of get_active get_owner a s)) required_owner s) (\<lambda>s.
        finish_signatures s))))"

definition get_required_signatures ::
  "string list \<Rightarrow> string list \<Rightarrow> string list \<Rightarrow> authority list \<Rightarrow> public_key list \<Rightarrow> public_key list \<Rightarrow> authority_getter \<Rightarrow>
   authority_getter \<Rightarrow> authority_getter \<Rightarrow> nat \<Rightarrow> public_key list res"
where
  "get_required_signatures required_active required_owner required_posting other sigs available get_active get_owner get_posting
     max_recursion_depth =
     (let s = (make_sign_state sigs available)\<lparr>max_recursion := max_recursion_depth\<rparr>;
          result = (\<lambda>s. filter (\<lambda>k. k \<in> set available) (map fst (provided_signatures (snd (remove_unused_signatures s)))));
          keep = (\<lambda>f s. bindE (f s) (\<lambda>(b, s). Inr s)) in
      if required_posting \<noteq> [] then
        bindE (fc_assert (required_owner = []) ''!required_owner.size()'') (\<lambda>_.
        bindE (fc_assert (required_active = []) ''!required_active.size()'') (\<lambda>_.
        bindE (foldE (\<lambda>a. keep (check_account get_posting a)) required_posting s) (\<lambda>s.
        Inr (result s))))
      else
        bindE (foldE (\<lambda>auth. keep (check_authority get_active auth)) other s) (\<lambda>s.
        bindE (foldE (\<lambda>a. keep (check_of get_active get_owner a)) required_owner s) (\<lambda>s.
        bindE (foldE (\<lambda>a. keep (check_account get_active a)) required_active s) (\<lambda>s.
        Inr (result s)))))"

text \<open>Each key in turn is left out where the transaction still verifies without it.\<close>

fun minimize_loop :: "(public_key list \<Rightarrow> unit res) \<Rightarrow> public_key list \<Rightarrow> public_key list \<Rightarrow> public_key list res" where
  "minimize_loop verify [] result = Inr result"
| "minimize_loop verify (k # ks) result =
     (case verify (removeAll k result) of
        Inr _ \<Rightarrow> minimize_loop verify ks (removeAll k result)
      | Inl e \<Rightarrow>
          if e \<in> {Tx_missing_owner_auth, Tx_missing_active_auth, Tx_missing_posting_auth, Tx_missing_other_auth}
          then minimize_loop verify ks result else Inl e)"

definition minimize_required_signatures ::
  "string list \<Rightarrow> string list \<Rightarrow> string list \<Rightarrow> authority list \<Rightarrow> public_key list \<Rightarrow> public_key list \<Rightarrow> authority_getter \<Rightarrow>
   authority_getter \<Rightarrow> authority_getter \<Rightarrow> nat \<Rightarrow> public_key list res"
where
  "minimize_required_signatures required_active required_owner required_posting other sigs available get_active get_owner get_posting
     max_recursion_depth =
     bindE (get_required_signatures required_active required_owner required_posting other sigs available get_active get_owner
              get_posting max_recursion_depth) (\<lambda>s.
     minimize_loop (\<lambda>keys. verify_authority required_active required_owner required_posting other keys get_active get_owner
         get_posting max_recursion_depth [] [] []) (sort (remdups s)) (sort (remdups s)))"


section \<open>Specification\<close>

definition weight_in :: "('a \<times> nat) list \<Rightarrow> 'a set \<Rightarrow> nat" where
  "weight_in xs S = sum_list (map snd (filter (\<lambda>p. fst p \<in> S) xs))"

text \<open>
  The accounts that a set of keys can act for, with no bound on the depth: those approved from the
  start and those whose authority is met by the keys and by such accounts.
\<close>

inductive authorised :: "authority_getter \<Rightarrow> public_key set \<Rightarrow> string set \<Rightarrow> string \<Rightarrow> bool" for get K B where
  approved: "a \<in> B \<Longrightarrow> authorised get K B a"
| signed: "get a = Inr auth \<Longrightarrow> \<forall>b \<in> S. authorised get K B b \<Longrightarrow>
    weight_threshold auth \<le> weight_in (key_auths auth) K + weight_in (account_auths auth) S \<Longrightarrow> authorised get K B a"



definition keys_of :: "sign_state \<Rightarrow> public_key set" where
  "keys_of s = set (map fst (provided_signatures s)) \<union> set (available_keys s)"


lemma weight_in_simps [simp]:
  "weight_in [] S = 0" "weight_in ((x, w) # xs) S = (if x \<in> S then w else 0) + weight_in xs S"
  by (simp_all add: weight_in_def)


section \<open>What is accepted is satisfied\<close>


lemma map_fst_mark_used [simp]: "map fst (mark_used k ps) = map fst ps"
  by (simp add: mark_used_def)




text \<open>What a check does to the state: the keys stay, the approved accounts grow by authorised ones.\<close>

definition grows :: "authority_getter \<Rightarrow> public_key set \<Rightarrow> string set \<Rightarrow> sign_state \<Rightarrow> sign_state \<Rightarrow> bool" where
  "grows get K B s s' \<longleftrightarrow>
     (keys_of s = K \<and> set (approved_by s) \<subseteq> {a. authorised get K B a} \<longrightarrow>
        keys_of s' = K \<and> set (approved_by s') \<subseteq> {a. authorised get K B a} \<and> set (approved_by s) \<subseteq> set (approved_by s') \<and>
        max_recursion s' = max_recursion s)"


lemma grows_refl [simp]: "grows get K B s s"
  by (simp add: grows_def)

















section \<open>What is satisfied within the depth is accepted\<close>










section \<open>Properties\<close>







text \<open>
  The account \<^verbatim>\<open>temp\<close> is approved from the start in every search: a transaction that requires
  its active authority verifies with no signature at all, whatever the authorities of the account
  are. Nothing in the chain reserves the name.
\<close>
lemma temp_needs_no_signature:
  "verify_authority [''temp''] [] [] [] [] ga go gp m [] [] [] = Inr () \<and> verify_authority [] [] [''temp''] [] [] ga go gp m [] [] [] = Inr ()"
  by (simp add: verify_authority_def approve_def make_sign_state_def require_def or_else_def check_account_def finish_signatures_def
      remove_unused_signatures_def Let_def)

end
