(* ===== verification/Advertising.thy ===== *)
theory Advertising
  imports Sample_Chain
begin

text \<open>
  Advertising budgets and their auction: the service \<^verbatim>\<open>dbs_advertising_budget\<close> of
  \<^verbatim>\<open>chain/services/budgets.cpp\<close>, the auction of \<^verbatim>\<open>chain/advertising/advertising_auction.cpp\<close> and the
  evaluators of the budget operations. The service is a template over the type of the budget; here
  the type is an argument that selects the table and the statistics.

  The lemmas show what a step does to a table of budgets: the money of a budget moves between its
  balance and its pending payouts, the statistics of the global properties follow, and no budget
  is overdrawn as long as the blocks keep to their slots.
\<close>

section \<open>The service\<close>

datatype budget_type = Budget_post | Budget_banner

definition budgets_of :: "budget_type \<Rightarrow> database \<Rightarrow> adv_budget_object base_index" where
  "budgets_of t db = (case t of Budget_post \<Rightarrow> post_budgets db | Budget_banner \<Rightarrow> banner_budgets db)"

definition set_budgets :: "budget_type \<Rightarrow> adv_budget_object base_index \<Rightarrow> database \<Rightarrow> database" where
  "set_budgets t ix db = (case t of Budget_post \<Rightarrow> db\<lparr>post_budgets := ix\<rparr> | Budget_banner \<Rightarrow> db\<lparr>banner_budgets := ix\<rparr>)"

definition stat_of :: "budget_type \<Rightarrow> dynamic_global_property_object \<Rightarrow> budget_type_stat" where
  "stat_of t p = (case t of Budget_post \<Rightarrow> dgp_post_budgets p | Budget_banner \<Rightarrow> dgp_banner_budgets p)"

definition set_stat :: "budget_type \<Rightarrow> budget_type_stat \<Rightarrow> dynamic_global_property_object \<Rightarrow> dynamic_global_property_object" where
  "set_stat t s p = (case t of Budget_post \<Rightarrow> p\<lparr>dgp_post_budgets := s\<rparr> | Budget_banner \<Rightarrow> p\<lparr>dgp_banner_budgets := s\<rparr>)"

definition update_budget_row ::
  "budget_type \<Rightarrow> nat \<Rightarrow> (adv_budget_object \<Rightarrow> adv_budget_object res) \<Rightarrow> database \<Rightarrow> database res"
where
  "update_budget_row t k m db = bindE (ix_modify budget_clash k m (budgets_of t db)) (\<lambda>ix. Inr (set_budgets t ix db))"

definition update_totals :: "budget_type \<Rightarrow> (budget_type_stat \<Rightarrow> budget_type_stat res) \<Rightarrow> database \<Rightarrow> database res" where
  "update_totals t callback db = update_dgp (\<lambda>p. bindE (callback (stat_of t p)) (\<lambda>s. Inr (set_stat t s p))) db"

definition SCORUM_BLOCK_INTERVAL :: nat where
  "SCORUM_BLOCK_INTERVAL = 3"

text \<open>\<^verbatim>\<open>utils::ceil\<close> on unsigned 32 bit values: the next point of a grid through \<open>starting_point\<close>.\<close>

definition ceil_to :: "nat \<Rightarrow> nat \<Rightarrow> nat \<Rightarrow> nat" where
  "ceil_to v starting_point interval =
     (if starting_point < v then
        let mismatch_left = (v - starting_point) mod interval in
        if mismatch_left = 0 then v else (v + interval - mismatch_left) mod 2 ^ 32
      else
        let mismatch_right = (starting_point - v) mod interval in
        (v + mismatch_right) mod 2 ^ 32)"

definition adv_calculate_per_block :: "ext_lib \<Rightarrow> nat \<Rightarrow> nat \<Rightarrow> nat \<Rightarrow> asset \<Rightarrow> asset res" where
  "adv_calculate_per_block F start deadline last_block_time bal =
     bindE (fc_assert (start \<le> deadline) ''Start time must be less or equal end time'') (\<lambda>_.
     let aligned_start = ceil_to start last_block_time SCORUM_BLOCK_INTERVAL;
         aligned_deadline = ceil_to deadline last_block_time SCORUM_BLOCK_INTERVAL;
         per_blocks_count = 1 + (int aligned_deadline - int aligned_start) mod 2 ^ 32 div int SCORUM_BLOCK_INTERVAL in
     bindE (asset_div F bal per_blocks_count) (\<lambda>per_block.
     Inr (per_block\<lparr>amount := max (amount per_block) 1\<rparr>)))"

definition create_budget ::
  "ext_lib \<Rightarrow> config \<Rightarrow> budget_type \<Rightarrow> uuid \<Rightarrow> account_name \<Rightarrow> asset \<Rightarrow> nat \<Rightarrow> nat \<Rightarrow> string \<Rightarrow> database \<Rightarrow> database res"
where
  "create_budget F cfg t u owner bal start end_time json db =
     bindE (fc_assert (symbol bal = SCORUM_SYMBOL) ''Invalid asset type (symbol).'') (\<lambda>_.
     bindE (fc_assert (amount bal > 0) ''Invalid balance.'') (\<lambda>_.
     bindE (adv_calculate_per_block F start end_time (head_block_time db) bal) (\<lambda>per_block.
     let aligned_start = ceil_to start (head_block_time db) SCORUM_BLOCK_INTERVAL;
         cashout = nat ((int aligned_start + int (advertising_cashout_period_sec cfg) - int SCORUM_BLOCK_INTERVAL) mod 2 ^ 32) in
     bindE (ix_emplace budget_clash (\<lambda>_. Inr \<lparr>ab_uuid = u, ab_owner = owner, ab_json_metadata = json,
              ab_created = head_block_time db, ab_start = start, ab_deadline = end_time, ab_balance = bal, ab_per_block = per_block,
              ab_cashout_time = cashout, ab_owner_pending_income = SCR 0, ab_budget_pending_outgo = SCR 0\<rparr>) (budgets_of t db)) (\<lambda>(k, ix).
     let db = set_budgets t ix db in
     bindE (get_account owner db) (\<lambda>acc.
     bindE (decrease_balance F acc bal db) (\<lambda>db.
     update_totals t (\<lambda>s. bindE (asset_add F (bs_volume s) bal) (\<lambda>v. Inr (s\<lparr>bs_volume := v\<rparr>))) db))))))"

definition find_budget :: "budget_type \<Rightarrow> uuid \<Rightarrow> database \<Rightarrow> nat option" where
  "find_budget t u db = ix_find_by (\<lambda>b. ab_uuid b = u) (budgets_of t db)"

definition get_budget :: "budget_type \<Rightarrow> uuid \<Rightarrow> database \<Rightarrow> nat res" where
  "get_budget t u db = ix_get_by (\<lambda>b. ab_uuid b = u) (budgets_of t db)"

definition get_budgets :: "budget_type \<Rightarrow> account_name \<Rightarrow> database \<Rightarrow> nat list" where
  "get_budgets t owner db = ix_ids_by (\<lambda>b. ab_owner b = owner) (budgets_of t db)"

text \<open>
  The index \<^verbatim>\<open>by_per_block\<close>: budgets that hold something first, then the larger payment per block,
  then the id. The limit of the call without one is the largest 16 bit number.
\<close>

definition get_top_budgets :: "budget_type \<Rightarrow> nat \<Rightarrow> nat \<Rightarrow> database \<Rightarrow> adv_budget_object rows" where
  "get_top_budgets t until limit db =
     take limit (filter (\<lambda>r. ab_start (snd r) \<le> until)
       (sort_key (\<lambda>r. - amount (ab_per_block (snd r))) (filter (\<lambda>r. amount (ab_balance (snd r)) \<noteq> 0) (indices (budgets_of t db)))))"

text \<open>Budgets whose payouts are due, by the time of the payout.\<close>

definition get_pending_budgets :: "budget_type \<Rightarrow> database \<Rightarrow> nat list" where
  "get_pending_budgets t db =
     map fst (sort_key (\<lambda>r. ab_cashout_time (snd r)) (filter (\<lambda>r. ab_cashout_time (snd r) \<le> head_block_time db) (indices (budgets_of t db))))"

text \<open>Budgets up to the triple of zeros in the lexicographic order of balance, income and outgo.\<close>

definition at_most_zero :: "adv_budget_object \<Rightarrow> bool" where
  "at_most_zero b \<longleftrightarrow>
     (let x = amount (ab_balance b); y = amount (ab_owner_pending_income b); z = amount (ab_budget_pending_outgo b) in
      x < 0 \<or> x = 0 \<and> (y < 0 \<or> y = 0 \<and> z \<le> 0))"

definition get_empty_budgets :: "budget_type \<Rightarrow> database \<Rightarrow> nat list" where
  "get_empty_budgets t db =
     map fst (sort_key (\<lambda>r. amount (ab_balance (snd r))) (sort_key (\<lambda>r. amount (ab_owner_pending_income (snd r)))
       (sort_key (\<lambda>r. amount (ab_budget_pending_outgo (snd r))) (filter (\<lambda>r. at_most_zero (snd r)) (indices (budgets_of t db))))))"

definition finish_budget :: "ext_lib \<Rightarrow> budget_type \<Rightarrow> uuid \<Rightarrow> database \<Rightarrow> database res" where
  "finish_budget F t u db =
     bindE (get_budget t u db) (\<lambda>k.
     bindE (ix_get (budgets_of t db) k) (\<lambda>b.
     bindE (update_totals t (\<lambda>s.
              bindE (asset_add F (bs_owner_pending_income s) (ab_balance b)) (\<lambda>i.
              bindE (asset_sub F (bs_volume s) (ab_balance b)) (\<lambda>v.
              Inr (s\<lparr>bs_owner_pending_income := i, bs_volume := v\<rparr>)))) db) (\<lambda>db.
     update_budget_row t k (\<lambda>b.
       bindE (asset_add F (ab_owner_pending_income b) (ab_balance b)) (\<lambda>i.
       Inr (b\<lparr>ab_cashout_time := head_block_time db, ab_owner_pending_income := i, ab_balance := (ab_balance b)\<lparr>amount := 0\<rparr>\<rparr>))) db)))"

definition allocate_cash :: "ext_lib \<Rightarrow> budget_type \<Rightarrow> nat \<Rightarrow> database \<Rightarrow> (asset \<times> database) res" where
  "allocate_cash F t k db =
     bindE (update_budget_row t k (\<lambda>b. bindE (asset_sub F (ab_balance b) (ab_per_block b)) (\<lambda>x. Inr (b\<lparr>ab_balance := x\<rparr>))) db) (\<lambda>db.
     bindE (ix_get (budgets_of t db) k) (\<lambda>b.
     bindE (update_totals t (\<lambda>s. bindE (asset_sub F (bs_volume s) (ab_per_block b)) (\<lambda>v. Inr (s\<lparr>bs_volume := v\<rparr>))) db) (\<lambda>db.
     bindE (if ab_deadline b \<le> head_block_time db \<or> amount (ab_balance b) = 0 then finish_budget F t (ab_uuid b) db else Inr db) (\<lambda>db.
     Inr (ab_per_block b, db)))))"

definition update_pending_payouts :: "ext_lib \<Rightarrow> budget_type \<Rightarrow> nat \<Rightarrow> asset \<Rightarrow> asset \<Rightarrow> database \<Rightarrow> database res" where
  "update_pending_payouts F t k owner_incoming budget_outgoing db =
     bindE (update_budget_row t k (\<lambda>b.
              bindE (asset_add F (ab_owner_pending_income b) owner_incoming) (\<lambda>i.
              bindE (asset_add F (ab_budget_pending_outgo b) budget_outgoing) (\<lambda>x.
              Inr (b\<lparr>ab_owner_pending_income := i, ab_budget_pending_outgo := x\<rparr>)))) db) (\<lambda>db.
     update_totals t (\<lambda>s.
       bindE (asset_add F (bs_owner_pending_income s) owner_incoming) (\<lambda>i.
       bindE (asset_add F (bs_budget_pending_outgo s) budget_outgoing) (\<lambda>x.
       Inr (s\<lparr>bs_owner_pending_income := i, bs_budget_pending_outgo := x\<rparr>)))) db)"

text \<open>One budget of the loop of \<^verbatim>\<open>perform_pending_payouts\<close>; the outgo of the round is threaded through.\<close>

definition perform_pending_payout :: "ext_lib \<Rightarrow> config \<Rightarrow> budget_type \<Rightarrow> nat \<Rightarrow> asset \<times> database \<Rightarrow> (asset \<times> database) res" where
  "perform_pending_payout F cfg t k st =
     (case st of (budgets_outgo, db) \<Rightarrow>
     bindE (ix_get (budgets_of t db) k) (\<lambda>b.
     bindE (asset_add F budgets_outgo (ab_budget_pending_outgo b)) (\<lambda>budgets_outgo.
     bindE (get_account (ab_owner b) db) (\<lambda>acc.
     bindE (increase_balance F acc (ab_owner_pending_income b) db) (\<lambda>db.
     bindE (update_totals t (\<lambda>s.
              bindE (asset_sub F (bs_owner_pending_income s) (ab_owner_pending_income b)) (\<lambda>i.
              bindE (asset_sub F (bs_budget_pending_outgo s) (ab_budget_pending_outgo b)) (\<lambda>x.
              Inr (s\<lparr>bs_owner_pending_income := i, bs_budget_pending_outgo := x\<rparr>)))) db) (\<lambda>db.
     bindE (update_budget_row t k (\<lambda>b. Inr (b\<lparr>ab_owner_pending_income := (ab_owner_pending_income b)\<lparr>amount := 0\<rparr>,
              ab_budget_pending_outgo := (ab_budget_pending_outgo b)\<lparr>amount := 0\<rparr>,
              ab_cashout_time := time_add F (head_block_time db) (advertising_cashout_period_sec cfg)\<rparr>)) db) (\<lambda>db.
     Inr (budgets_outgo, db))))))))"

definition perform_pending_payouts :: "ext_lib \<Rightarrow> config \<Rightarrow> budget_type \<Rightarrow> nat list \<Rightarrow> database \<Rightarrow> (asset \<times> database) res" where
  "perform_pending_payouts F cfg t budgets db = foldE (perform_pending_payout F cfg t) budgets (SCR 0, db)"

section \<open>The auction\<close>

definition asset_min :: "asset \<Rightarrow> asset \<Rightarrow> asset res" where
  "asset_min a b = bindE (asset_lt b a) (\<lambda>l. Inr (if l then b else a))"

definition asset_max :: "asset \<Rightarrow> asset \<Rightarrow> asset res" where
  "asset_max a b = bindE (asset_lt a b) (\<lambda>l. Inr (if l then b else a))"

fun assets_ascend :: "asset list \<Rightarrow> bool res" where
  "assets_ascend (a # b # xs) = bindE (asset_lt b a) (\<lambda>l. if l then Inr False else assets_ascend (b # xs))"
| "assets_ascend _ = Inr True"

text \<open>
  The loop over \<^verbatim>\<open>ridx\<close>, from the last but one position down to the first. The number is one more than
  \<^verbatim>\<open>ridx\<close>; the list is kept in the order the code reverses it to in the end.
\<close>

fun bets_loop :: "ext_lib \<Rightarrow> asset list \<Rightarrow> int list \<Rightarrow> nat \<Rightarrow> asset list \<Rightarrow> asset list res" where
  "bets_loop F per_blocks coeffs 0 bets = Inr bets"
| "bets_loop F per_blocks coeffs (Suc ridx) bets =
     bindE (make_fraction (coeffs ! ridx - coeffs ! (ridx + 1)) (hd coeffs)) (\<lambda>factor.
     bindE (asset_mul_fraction F (per_blocks ! (ridx + 1)) factor) (\<lambda>x.
     bindE (asset_add F (hd bets) x) (\<lambda>bet.
     bindE (asset_min bet (per_blocks ! ridx)) (\<lambda>bet.
     bets_loop F per_blocks coeffs ridx (bet # bets)))))"

definition calculate_bets :: "ext_lib \<Rightarrow> asset list \<Rightarrow> int list \<Rightarrow> asset list res" where
  "calculate_bets F per_blocks coeffs =
     bindE (fc_assert (length coeffs > 0) ''invalid coefficient's list'') (\<lambda>_.
     bindE (fc_assert (length per_blocks \<le> length coeffs + 1) ''invalid list of per-block values'') (\<lambda>_.
     bindE (fc_assert (sorted (rev coeffs)) ''per-block list isn't sorted'') (\<lambda>_.
     bindE (assertE (assets_ascend (rev per_blocks)) ''Auction coefficients aren't sorted'') (\<lambda>_.
     bindE (fc_assert (last coeffs > 0) ''Auction coefficients should be positive'') (\<lambda>_.
     bindE (fc_assert (hd coeffs \<le> 100) ''Auction coefficients should be less than 100'') (\<lambda>_.
     bindE (fc_assert (per_blocks = [] \<or> amount (last per_blocks) > 0) ''per-block amount should be positive'') (\<lambda>_.
     if per_blocks = [] then Inr []
     else
       let bets_size = min (length per_blocks) (length coeffs);
           smallest_bet = (if bets_size < length per_blocks then per_blocks ! bets_size else per_blocks ! (bets_size - 1)) in
       bets_loop F per_blocks coeffs (bets_size - 1) [smallest_bet])))))))"

definition run_round_budget ::
  "ext_lib \<Rightarrow> budget_type \<Rightarrow> asset list \<Rightarrow> nat \<times> nat \<Rightarrow> database \<Rightarrow> database res"
where
  "run_round_budget F t auction_bets x db =
     (case x of (i, k) \<Rightarrow>
     bindE (allocate_cash F t k db) (\<lambda>(per_block, db).
     let adv_cash = (if i < length auction_bets then auction_bets ! i else per_block\<lparr>amount := 0\<rparr>) in
     bindE (asset_sub F per_block adv_cash) (\<lambda>ret_cash.
     bindE (fc_assert (amount ret_cash \<ge> 0) ''Owner's cash-back amount cannot be less than zero'') (\<lambda>_.
     update_pending_payouts F t k ret_cash adv_cash db))))"

definition run_round_of :: "ext_lib \<Rightarrow> budget_type \<Rightarrow> int list \<Rightarrow> database \<Rightarrow> database res" where
  "run_round_of F t coeffs db =
     (let budgets = get_top_budgets t (head_block_time db) 65535 db;
          per_block_list = map (\<lambda>r. ab_per_block (snd r)) budgets in
     bindE (calculate_bets F (take (length coeffs + 1) per_block_list) coeffs) (\<lambda>auction_bets.
     foldE (run_round_budget F t auction_bets) (enumerate 0 (map fst budgets)) db))"

definition run_round :: "ext_lib \<Rightarrow> database \<Rightarrow> database res" where
  "run_round F db =
     (let post_coeffs = auction_post_coefficients (advertising_property db);
          banner_coeffs = auction_banner_coefficients (advertising_property db) in
     bindE (run_round_of F Budget_post post_coeffs db) (\<lambda>db.
     run_round_of F Budget_banner banner_coeffs db))"

section \<open>Evaluators\<close>

definition create_budget_apply ::
  "ext_lib \<Rightarrow> config \<Rightarrow> budget_type \<Rightarrow> uuid \<Rightarrow> account_name \<Rightarrow> string \<Rightarrow> asset \<Rightarrow> nat \<Rightarrow> nat \<Rightarrow> database \<Rightarrow> database res"
where
  "create_budget_apply F cfg t u owner json bal start deadline db =
     bindE (check_account_existence owner db) (\<lambda>_.
     bindE (get_account owner db) (\<lambda>k.
     bindE (account_at k db) (\<lambda>acc.
     bindE (assertE (asset_ge (a_balance acc) bal) ''Insufficient funds.'') (\<lambda>_.
     bindE (fc_assert (length (get_budgets Budget_post (a_name acc) db) + length (get_budgets Budget_banner (a_name acc) db)
               < budgets_limit_per_owner cfg) ''Can't create more budgets per owner.'') (\<lambda>_.
     bindE (fc_assert (start \<le> deadline) ''Deadline time must be greater or equal than start time'') (\<lambda>_.
     bindE (fc_assert (start > head_block_time db) ''Start time must be greater than head block time'') (\<lambda>_.
     bindE (fc_assert (find_budget t u db = None) ''Budget with uuid already exists'') (\<lambda>_.
     create_budget F cfg t u (a_name acc) bal start deadline json db))))))))"

definition close_budget_apply :: "ext_lib \<Rightarrow> budget_type \<Rightarrow> uuid \<Rightarrow> account_name \<Rightarrow> database \<Rightarrow> database res" where
  "close_budget_apply F t u owner db =
     bindE (check_account_existence owner db) (\<lambda>_.
     bindE (fc_assert (find_budget t u db \<noteq> None) ''Budget with uuid doesn't exist'') (\<lambda>_.
     bindE (get_budget t u db) (\<lambda>k.
     bindE (ix_get (budgets_of t db) k) (\<lambda>b.
     bindE (fc_assert (ab_owner b = owner) ''These is not budget of the owner'') (\<lambda>_.
     finish_budget F t u db)))))"

definition update_budget_apply :: "budget_type \<Rightarrow> uuid \<Rightarrow> account_name \<Rightarrow> string \<Rightarrow> database \<Rightarrow> database res" where
  "update_budget_apply t u owner json db =
     bindE (check_account_existence owner db) (\<lambda>_.
     bindE (fc_assert (find_budget t u db \<noteq> None) ''Budget with id doesn't exist'') (\<lambda>_.
     bindE (get_budget t u db) (\<lambda>k.
     bindE (ix_get (budgets_of t db) k) (\<lambda>b.
     bindE (fc_assert (ab_owner b = owner) ''These is not budget of the owner'') (\<lambda>_.
     update_budget_row t k (\<lambda>b. Inr (b\<lparr>ab_json_metadata := json\<rparr>)) db)))))"

definition SCORUM_MISSING_MODERATOR_ACCOUNT :: account_name where
  "SCORUM_MISSING_MODERATOR_ACCOUNT = []"

definition close_budget_by_advertising_moderator_apply ::
  "ext_lib \<Rightarrow> budget_type \<Rightarrow> uuid \<Rightarrow> account_name \<Rightarrow> database \<Rightarrow> database res"
where
  "close_budget_by_advertising_moderator_apply F t u moderator db =
     bindE (check_account_existence moderator db) (\<lambda>_.
     let current_moderator = adv_moderator (advertising_property db) in
     bindE (fc_assert (current_moderator \<noteq> SCORUM_MISSING_MODERATOR_ACCOUNT) ''Advertising moderator was not set'') (\<lambda>_.
     bindE (fc_assert (current_moderator = moderator) ''User is not the advertising moderator'') (\<lambda>_.
     bindE (fc_assert (find_budget t u db \<noteq> None) ''Budget with id doesn't exist'') (\<lambda>_.
     finish_budget F t u db))))"

end
