(* ===== verification/Purse_Frame.thy ===== *)
theory Purse_Frame
  imports Sample_Chain
begin

text \<open>
  What paying accounts leaves alone. \<open>purse_free db\<close> is the database with the purses blanked: the
  balances, powers and pending rewards of the accounts, the votes that follow the power, and the
  totals of the global properties that count them. \<open>pays d db db'\<close> says that a step puts \<open>d\<close> into
  the purses and changes nothing else, so that every other table and property can be read off
  \<open>purse_free\<close>.
\<close>

definition blank_account :: "account_object \<Rightarrow> account_object" where
  "blank_account a = a\<lparr>a_balance := SCR 0, a_scorumpower := SP 0, a_pending_scr_reward := SCR 0, a_pending_sp_reward := SP 0,
     a_proxied_vsf_votes := []\<rparr>"

definition blank_witness :: "witness_object \<Rightarrow> witness_object" where
  "blank_witness w = w\<lparr>w_votes := 0, w_virtual_last_update := 0, w_virtual_position := 0, w_virtual_scheduled_time := 0\<rparr>"

definition blank_dgp :: "dynamic_global_property_object \<Rightarrow> dynamic_global_property_object" where
  "blank_dgp p = p\<lparr>dgp_circulating_capital := SCR 0, dgp_total_scorumpower := SP 0, dgp_total_pending_scr := SCR 0,
     dgp_total_pending_sp := SP 0\<rparr>"

definition blank_rows :: "('v \<Rightarrow> 'v) \<Rightarrow> 'v base_index \<Rightarrow> 'v base_index" where
  "blank_rows f ix = ix\<lparr>indices := map (\<lambda>r. (fst r, f (snd r))) (indices ix)\<rparr>"

definition purse_free :: "database \<Rightarrow> database" where
  "purse_free db = db\<lparr>accounts := blank_rows blank_account (accounts db), witnesses := blank_rows blank_witness (witnesses db),
     dgp := blank_dgp (dgp db)\<rparr>"

definition tidy :: "database \<Rightarrow> database \<Rightarrow> bool" where
  "tidy db db' \<longleftrightarrow> (wf_index (accounts db) \<and> wf_index (witnesses db) \<longrightarrow>
     wf_index (accounts db') \<and> wf_index (witnesses db') \<and> purse_free db' = purse_free db)"

lemma tidy_refl [intro]: "tidy db db"
  by (simp add: tidy_def)

lemma tidy_trans: "tidy db db1 \<Longrightarrow> tidy db1 db2 \<Longrightarrow> tidy db db2"
  by (auto simp: tidy_def)

lemma tidy_foldE:
  assumes "foldE f xs db = Inr db'" and "\<And>x db db'. x \<in> set xs \<Longrightarrow> f x db = Inr db' \<Longrightarrow> tidy db db'"
  shows "tidy db db'"
  by (rule foldE_inv [OF assms(1), of "tidy db", OF tidy_refl]) (rule tidy_trans, assumption, rule assms(2))

lemma blank_rows_modify:
  assumes "ix_modify clash k m ix = Inr ix'" and "wf_index ix" and "\<And>v v'. m v = Inr v' \<Longrightarrow> f v' = f v"
  shows "wf_index ix' \<and> blank_rows f ix' = blank_rows f ix"
proof -
  from assms(1) obtain v v' where "map_of (indices ix) k = Some v" "m v = Inr v'" "ix' = ix\<lparr>indices := put_row k v' (indices ix)\<rparr>"
    by (auto simp: ix_modify_eq_Inr)
  moreover from this assms(2,3) have "map (\<lambda>r. (fst r, f (snd r))) (put_row k v' (indices ix)) = map (\<lambda>r. (fst r, f (snd r))) (indices ix)"
    by (intro map_put_row_same) (auto simp: wf_index_def)
  ultimately show ?thesis using wf_index_modify [OF assms(2,1)] by (simp add: blank_rows_def)
qed

lemma tidy_update_account:
  assumes "update_account k m db = Inr db'" and "\<And>a a'. m a = Inr a' \<Longrightarrow> blank_account a' = blank_account a"
  shows "tidy db db'"
  using assms(1) blank_rows_modify [where f = blank_account, OF _ _ assms(2)]
  by (auto simp: update_account_def bindE_Inr_iff tidy_def purse_free_def)

lemma tidy_update_witness_row:
  assumes "update_witness_row k m db = Inr db'" and "\<And>w w'. m w = Inr w' \<Longrightarrow> blank_witness w' = blank_witness w"
  shows "tidy db db'"
  using assms(1) blank_rows_modify [where f = blank_witness, OF _ _ assms(2)]
  by (auto simp: update_witness_row_def bindE_Inr_iff tidy_def purse_free_def)

lemma tidy_update_dgp:
  assumes "update_dgp m db = Inr db'" and "\<And>p p'. m p = Inr p' \<Longrightarrow> blank_dgp p' = blank_dgp p"
  shows "tidy db db'"
  using assms by (auto simp: update_dgp_def bindE_Inr_iff tidy_def purse_free_def)

lemma tidy_adjust_witness_votes: "adjust_witness_votes F k d db = Inr db' \<Longrightarrow> tidy db db'"
  unfolding adjust_witness_votes_def adjust_witness_vote_def
  by (erule tidy_foldE, erule tidy_update_witness_row) (auto simp: bindE_Inr_iff Let_def blank_witness_def)

lemma tidy_adjust_proxied: "adjust_proxied_witness_votes F k d depth db = Inr db' \<Longrightarrow> tidy db db'"
proof (induction F k d depth db rule: adjust_proxied_witness_votes.induct)
  case (1 F k d depth db)
  have upd: "tidy db db1" if "update_account p (add_proxied F depth d) db = Inr db1" for p db1
    by (rule tidy_update_account [OF that]) (auto simp: add_proxied_def bindE_Inr_iff blank_account_def)
  from "1.prems" show ?case
    by (subst (asm) adjust_proxied_witness_votes.simps)
      (auto simp: bindE_Inr_iff split: if_splits intro: tidy_adjust_witness_votes tidy_trans [OF upd "1.IH"])
qed

lemma tidy_increase_balance: "increase_balance F k amt db = Inr db' \<Longrightarrow> tidy db db'"
  unfolding increase_balance_def bindE_Inr_iff
  by (elim exE conjE) (rule tidy_trans, erule tidy_update_account, force simp: bindE_Inr_iff blank_account_def,
      erule tidy_update_dgp, force simp: bindE_Inr_iff blank_dgp_def)

lemma tidy_decrease_balance: "decrease_balance F k amt db = Inr db' \<Longrightarrow> tidy db db'"
  by (auto simp: decrease_balance_def bindE_Inr_iff intro: tidy_increase_balance)

lemma tidy_increase_pending_balance: "increase_pending_balance F k amt db = Inr db' \<Longrightarrow> tidy db db'"
  unfolding increase_pending_balance_def bindE_Inr_iff
  by (elim exE conjE) (rule tidy_trans, erule tidy_update_account, force simp: bindE_Inr_iff blank_account_def,
      erule tidy_update_dgp, force simp: bindE_Inr_iff blank_dgp_def)

lemma tidy_increase_pending_scorumpower: "increase_pending_scorumpower F k amt db = Inr db' \<Longrightarrow> tidy db db'"
  unfolding increase_pending_scorumpower_def bindE_Inr_iff
  by (elim exE conjE) (rule tidy_trans, erule tidy_update_account, force simp: bindE_Inr_iff blank_account_def,
      erule tidy_update_dgp, force simp: bindE_Inr_iff blank_dgp_def)

lemma tidy_increase_scorumpower: "increase_scorumpower F k amt db = Inr db' \<Longrightarrow> tidy db db'"
  unfolding increase_scorumpower_def bindE_Inr_iff
  by (elim exE conjE) (rule tidy_trans, erule tidy_update_account, force simp: bindE_Inr_iff blank_account_def,
      rule tidy_trans, erule tidy_update_dgp, force simp: bindE_Inr_iff blank_dgp_def, erule tidy_adjust_proxied)

section \<open>Payments\<close>

definition pays :: "int \<Rightarrow> database \<Rightarrow> database \<Rightarrow> bool" where
  "pays d db db' \<longleftrightarrow> keeps db db' \<and> ledger_move d db db' \<and> tidy db db'"

lemma pays_refl [intro]: "pays 0 db db"
  by (auto simp: pays_def)

lemma pays_trans: "pays d db db1 \<Longrightarrow> pays e db1 db2 \<Longrightarrow> d + e = f \<Longrightarrow> pays f db db2"
  unfolding pays_def by (blast intro: keeps_trans ledger_move_trans tidy_trans)

lemma pays_free: "pays d db db' \<Longrightarrow> db_ok db \<Longrightarrow> purse_free db' = purse_free db"
  by (auto simp: pays_def tidy_def db_ok_def tables_ok_def)

lemma increase_balance_pays:
  "ext_ok F \<Longrightarrow> increase_balance F k amt db = Inr db' \<Longrightarrow> 0 \<le> amount amt \<Longrightarrow> pays (amount amt) db db'"
  unfolding pays_def by (blast intro: deposit_keeps increase_balance_move tidy_increase_balance)

lemma create_scorumpower_pays:
  "ext_ok F \<Longrightarrow> create_scorumpower F k amt db = Inr db' \<Longrightarrow> 0 \<le> amount amt \<Longrightarrow> pays (amount amt) db db'"
  unfolding pays_def
  by (metis create_scorumpower_def create_scorumpower_keeps create_scorumpower_move tidy_increase_scorumpower)

lemma increase_pending_balance_keeps:
  assumes "ext_ok F" and "increase_pending_balance F k amt db = Inr db'"
  shows "keeps db db'"
  using assms(2) unfolding increase_pending_balance_def bindE_Inr_iff
  by (elim exE conjE)
    (rule keeps_trans, erule keeps_update_account, use assms(1) in \<open>force simp: account_frame res_simps fc_simps\<close>,
     erule keeps_update_dgp, use assms(1) in \<open>force simp: dgp_ok_def res_simps fc_simps\<close>)

lemma increase_pending_scorumpower_keeps:
  assumes "ext_ok F" and "increase_pending_scorumpower F k amt db = Inr db'"
  shows "keeps db db'"
  using assms(2) unfolding increase_pending_scorumpower_def bindE_Inr_iff
  by (elim exE conjE)
    (rule keeps_trans, erule keeps_update_account, use assms(1) in \<open>force simp: account_frame res_simps fc_simps\<close>,
     erule keeps_update_dgp, use assms(1) in \<open>force simp: dgp_ok_def res_simps fc_simps\<close>)

lemma increase_pending_balance_pays:
  "ext_ok F \<Longrightarrow> increase_pending_balance F k amt db = Inr db' \<Longrightarrow> pays (amount amt) db db'"
  unfolding pays_def using increase_pending_balance_keeps increase_pending_balance_move tidy_increase_pending_balance by blast

lemma increase_pending_scorumpower_pays:
  "ext_ok F \<Longrightarrow> increase_pending_scorumpower F k amt db = Inr db' \<Longrightarrow> pays (amount amt) db db'"
  unfolding pays_def using increase_pending_scorumpower_keeps increase_pending_scorumpower_move tidy_increase_pending_scorumpower by blast

end
