(* ===== verification/Advertising_Ledger.thy ===== *)
theory Advertising_Ledger
  imports Advertising Purse_Frame
begin

text \<open>
  What the steps of \<open>Advertising\<close> do to the ledger. Every one of them writes one budget and the
  statistics of its type; \<open>with_budget\<close> is such a write. \<open>books\<close> are the differences between the
  statistics and the sums over the budgets, which no step may change, and \<open>fair\<close> says that a budget
  holds enough for the blocks it still has to pay for.
\<close>

section \<open>Custody of the budgets\<close>

lemma set_budgets_simps [simp]:
  "budgets_of t (set_budgets t ix db) = ix" "dgp (set_budgets t ix db) = dgp db" "accounts (set_budgets t ix db) = accounts db"
  "budgets_of t (db\<lparr>dgp := p\<rparr>) = budgets_of t db" "set_budgets t ix2 (set_budgets t ix db) = set_budgets t ix2 db"
  "(set_budgets t ix db)\<lparr>dgp := p\<rparr> = set_budgets t ix (db\<lparr>dgp := p\<rparr>)"
  "stat_of t (set_stat t s p) = s" "set_stat t s2 (set_stat t s p) = set_stat t s2 p"
  "head_block_time (set_budgets t ix db) = head_block_time db" "dgp_time (set_stat t s p) = dgp_time p"
  by (cases t; simp add: set_budgets_def budgets_of_def stat_of_def set_stat_def head_block_time_def)+

lemma other_budgets [simp]:
  "t' \<noteq> t \<Longrightarrow> budgets_of t' (set_budgets t ix db) = budgets_of t' db" "t' \<noteq> t \<Longrightarrow> stat_of t' (set_stat t s p) = stat_of t' p"
  by (cases t; cases t'; simp add: set_budgets_def budgets_of_def stat_of_def set_stat_def)+

interpretation budget_custody: custody "budgets_of t" "set_budgets t" budget_sum budget_ok "\<lambda>_. True" for t
proof
  fix ix :: "adv_budget_object base_index" and db
  assume ix: "wf_index ix" "\<forall>v \<in> snd ` set (indices ix). budget_ok v"
  then show "ledger_move (row_sum budget_sum (indices ix) - row_sum budget_sum (indices (budgets_of t db))) db (set_budgets t ix db)"
    by (cases t) (simp_all add: ledger_move_def db_ok_def tables_ok_def pools_ok_def supply_sum_def gaps_def acc_sum_def locked_def
        pools_def budgets_of_def set_budgets_def)
  from ix show "keeps db (set_budgets t ix db)"
    by (cases t) (auto intro!: keepsI simp: vote_view_def db_ok_def tables_ok_def pools_ok_def sound_def solvent_def set_budgets_def)
next
  fix db
  show "db_ok db \<Longrightarrow> wf_index (budgets_of t db) \<and> (\<forall>v \<in> snd ` set (indices (budgets_of t db)). budget_ok v)"
    by (cases t) (simp_all add: db_ok_def tables_ok_def pools_ok_def budgets_of_def)
qed simp

section \<open>Writing a budget and its statistics\<close>

definition with_budget :: "budget_type \<Rightarrow> nat \<Rightarrow> adv_budget_object \<Rightarrow> budget_type_stat \<Rightarrow> database \<Rightarrow> database" where
  "with_budget t k b s db =
     set_budgets t ((budgets_of t db)\<lparr>indices := put_row k b (indices (budgets_of t db))\<rparr>) (db\<lparr>dgp := set_stat t s (dgp db)\<rparr>)"

lemma put_row_twice [simp]: "put_row k w (put_row k v rs) = put_row k w rs"
  by (induction rs) auto

lemma with_budget_simps [simp]:
  "indices (budgets_of t (with_budget t k b s db)) = put_row k b (indices (budgets_of t db))"
  "stat_of t (dgp (with_budget t k b s db)) = s" "head_block_time (with_budget t k b s db) = head_block_time db"
  "with_budget t k b2 s2 (with_budget t k b s db) = with_budget t k b2 s2 db"
  by (simp_all add: with_budget_def head_block_time_def)

lemma update_budget_row_iff [res_simps]:
  "update_budget_row t k m db = Inr db' \<longleftrightarrow>
     (\<exists>b b'. map_of (indices (budgets_of t db)) k = Some b \<and> m b = Inr b' \<and> \<not> collides budget_clash k b' (indices (budgets_of t db)) \<and>
        db' = with_budget t k b' (stat_of t (dgp db)) db)"
proof -
  have "(db\<lparr>dgp := set_stat t (stat_of t (dgp db)) (dgp db)\<rparr>) = db" by (cases t) (simp_all add: set_stat_def stat_of_def)
  then show ?thesis by (auto simp: update_budget_row_def ix_modify_eq_Inr res_simps with_budget_def)
qed

lemma update_totals_iff [res_simps]:
  "update_totals t c db = Inr db' \<longleftrightarrow> (\<exists>s. c (stat_of t (dgp db)) = Inr s \<and> db' = db\<lparr>dgp := set_stat t s (dgp db)\<rparr>)"
  by (auto simp: update_totals_def res_simps)

lemma put_row_same: "sorted_rows rs \<Longrightarrow> map_of rs k = Some v \<Longrightarrow> put_row k v rs = rs"
  by (induction rs) (auto split: if_splits dest!: map_of_SomeD)

text \<open>The statistics shifted by amounts.\<close>

definition shift_stat :: "budget_type_stat \<Rightarrow> int \<Rightarrow> int \<Rightarrow> int \<Rightarrow> budget_type_stat" where
  "shift_stat s v i x = \<lparr>bs_volume = (bs_volume s)\<lparr>amount := amount (bs_volume s) + v\<rparr>,
     bs_budget_pending_outgo = (bs_budget_pending_outgo s)\<lparr>amount := amount (bs_budget_pending_outgo s) + x\<rparr>,
     bs_owner_pending_income = (bs_owner_pending_income s)\<lparr>amount := amount (bs_owner_pending_income s) + i\<rparr>\<rparr>"

lemma amount_same [simp]: "(x :: asset)\<lparr>amount := amount x\<rparr> = x"
  by simp

lemma shift_statI:
  assumes "bs_volume s' = (bs_volume s)\<lparr>amount := amount (bs_volume s) + v\<rparr>"
    and "bs_budget_pending_outgo s' = (bs_budget_pending_outgo s)\<lparr>amount := amount (bs_budget_pending_outgo s) + x\<rparr>"
    and "bs_owner_pending_income s' = (bs_owner_pending_income s)\<lparr>amount := amount (bs_owner_pending_income s) + i\<rparr>"
  shows "s' = shift_stat s v i x"
  using assms by (intro budget_type_stat.equality) (simp_all add: shift_stat_def)

lemma update_totals_shift:
  assumes "update_totals t c db = Inr db'" and "\<And>s'. c (stat_of t (dgp db)) = Inr s' \<Longrightarrow> s' = shift_stat (stat_of t (dgp db)) v i x"
  shows "db' = db\<lparr>dgp := set_stat t (shift_stat (stat_of t (dgp db)) v i x) (dgp db)\<rparr>"
  using assms by (auto simp: update_totals_iff)

lemma shift_shift [simp]: "shift_stat (shift_stat s v i x) v' i' x' = shift_stat s (v + v') (i + i') (x + x')"
  by (simp add: shift_stat_def add.assoc)

definition books :: "budget_type \<Rightarrow> database \<Rightarrow> int list" where
  "books t db = (let s = stat_of t (dgp db); rs = indices (budgets_of t db) in
     [amount (bs_volume s) - row_sum (\<lambda>b. amount (ab_balance b)) rs,
      amount (bs_owner_pending_income s) - row_sum (\<lambda>b. amount (ab_owner_pending_income b)) rs,
      amount (bs_budget_pending_outgo s) - row_sum (\<lambda>b. amount (ab_budget_pending_outgo b)) rs])"

text \<open>A write that shifts the statistics by what it changes of the budget.\<close>

definition booked :: "adv_budget_object \<Rightarrow> adv_budget_object \<Rightarrow> budget_type_stat \<Rightarrow> budget_type_stat" where
  "booked b b' s = shift_stat s (amount (ab_balance b') - amount (ab_balance b))
     (amount (ab_owner_pending_income b') - amount (ab_owner_pending_income b))
     (amount (ab_budget_pending_outgo b') - amount (ab_budget_pending_outgo b))"

lemma ledger_move_stat: "ledger_move 0 db (db\<lparr>dgp := set_stat t s (dgp db)\<rparr>)" and keeps_stat: "keeps db (db\<lparr>dgp := set_stat t s (dgp db)\<rparr>)"
  by (cases t; simp add: set_stat_def ledger_move_def db_ok_def tables_ok_def pools_ok_def dgp_ok_def supply_sum_def gaps_def
      acc_sum_def locked_def pools_def)
    (cases t; rule keeps_dgp; simp add: set_stat_def dgp_ok_def)

lemma with_budget_flow:
  assumes "map_of (indices (budgets_of t db)) k = Some b" and "budget_ok b'"
  shows "ledger_move (budget_sum b' - budget_sum b) db (with_budget t k b' s db)" and "keeps db (with_budget t k b' s db)"
proof -
  let ?db = "db\<lparr>dgp := set_stat t s (dgp db)\<rparr>"
  note step = budget_custody.put_step [of t ?db k b b', simplified, OF assms]
  show "ledger_move (budget_sum b' - budget_sum b) db (with_budget t k b' s db)"
    using ledger_move_trans [OF ledger_move_stat step(1)] by (simp add: with_budget_def)
  show "keeps db (with_budget t k b' s db)" using keeps_trans [OF keeps_stat step(2)] by (simp add: with_budget_def)
qed

lemma with_budget_books:
  assumes "map_of (indices (budgets_of t db)) k = Some b" and "wf_index (budgets_of t db)"
  shows "books t (with_budget t k b' (booked b b' (stat_of t (dgp db))) db) = books t db"
    and "t' \<noteq> t \<Longrightarrow> books t' (with_budget t k b' s db) = books t' db"
  using assms by (simp_all add: books_def Let_def booked_def shift_stat_def row_sum_put_old wf_index_def with_budget_def budgets_of_def
      set_budgets_def stat_of_def set_stat_def split: budget_type.splits)

section \<open>The steps\<close>

text \<open>A budget whose balance goes back to the owner at the next payout.\<close>

definition closed :: "nat \<Rightarrow> adv_budget_object \<Rightarrow> adv_budget_object" where
  "closed now b = b\<lparr>ab_cashout_time := now,
     ab_owner_pending_income := (ab_owner_pending_income b)\<lparr>amount := amount (ab_owner_pending_income b) + amount (ab_balance b)\<rparr>,
     ab_balance := (ab_balance b)\<lparr>amount := 0\<rparr>\<rparr>"

text \<open>What a block of the auction makes of a budget: \<open>cash\<close> goes to the chain, the rest of the payment returns.\<close>

definition paid :: "nat \<Rightarrow> int \<Rightarrow> adv_budget_object \<Rightarrow> adv_budget_object" where
  "paid now cash b =
     (let b1 = b\<lparr>ab_balance := (ab_balance b)\<lparr>amount := amount (ab_balance b) - amount (ab_per_block b)\<rparr>\<rparr>;
          b2 = (if ab_deadline b1 \<le> now \<or> amount (ab_balance b1) = 0 then closed now b1 else b1) in
      b2\<lparr>ab_owner_pending_income := (ab_owner_pending_income b2)\<lparr>amount := amount (ab_owner_pending_income b2) + (amount (ab_per_block b) - cash)\<rparr>,
         ab_budget_pending_outgo := (ab_budget_pending_outgo b2)\<lparr>amount := amount (ab_budget_pending_outgo b2) + cash\<rparr>\<rparr>)"

lemma find_budget_uuid:
  assumes "get_budget t u db = Inr j" and "wf_index (budgets_of t db)"
  shows "\<exists>v. map_of (indices (budgets_of t db)) j = Some v \<and> ab_uuid v = u"
  using assms ix_find_by_Some [of "\<lambda>b. ab_uuid b = u"] by (auto simp: get_budget_def res_simps wf_index_def)

lemma find_budget_row:
  assumes "map_of (indices (budgets_of t db)) k = Some b" and "\<not> collides budget_clash k b (indices (budgets_of t db))"
    and "get_budget t (ab_uuid b) db = Inr j" and "wf_index (budgets_of t db)"
  shows "j = k"
  using find_budget_uuid [OF assms(3,4)] assms(2) by (force simp: collides_def list_ex_iff budget_clash_def dest: map_of_SomeD)

lemma finish_budget_eq:
  assumes F: "ext_ok F" and r: "finish_budget F t u db = Inr db'" and wf: "wf_index (budgets_of t db)"
  shows "\<exists>k b. get_budget t u db = Inr k \<and> map_of (indices (budgets_of t db)) k = Some b \<and> ab_uuid b = u \<and>
    db' = with_budget t k (closed (head_block_time db) b) (booked b (closed (head_block_time db) b) (stat_of t (dgp db))) db"
proof -
  let ?now = "head_block_time db"
  from r obtain k b db1 where k: "get_budget t u db = Inr k" and b: "map_of (indices (budgets_of t db)) k = Some b"
    and 1: "update_totals t (\<lambda>s.
              bindE (asset_add F (bs_owner_pending_income s) (ab_balance b)) (\<lambda>i.
              bindE (asset_sub F (bs_volume s) (ab_balance b)) (\<lambda>v.
              Inr (s\<lparr>bs_owner_pending_income := i, bs_volume := v\<rparr>)))) db = Inr db1"
    and 2: "update_budget_row t k (\<lambda>b.
       bindE (asset_add F (ab_owner_pending_income b) (ab_balance b)) (\<lambda>i.
       Inr (b\<lparr>ab_cashout_time := head_block_time db1, ab_owner_pending_income := i, ab_balance := (ab_balance b)\<lparr>amount := 0\<rparr>\<rparr>))) db1 = Inr db'"
    by (auto simp: finish_budget_def bindE_Inr_iff ix_get_iff)
  define s where "s = shift_stat (stat_of t (dgp db)) (- amount (ab_balance b)) (amount (ab_balance b)) 0"
  have db1: "db1 = db\<lparr>dgp := set_stat t s (dgp db)\<rparr>"
    unfolding s_def by (rule update_totals_shift [OF 1]) (use F in \<open>auto simp: bindE_Inr_iff asset_add_iff asset_sub_iff intro!: shift_statI\<close>)
  from 2 F b have "db' = with_budget t k (closed ?now b) s db"
    by (auto simp: update_budget_row_iff bindE_Inr_iff asset_add_iff db1 closed_def with_budget_def head_block_time_def)
  moreover have "ab_uuid b = u" using find_budget_uuid [OF k wf] b by simp
  moreover have "booked b (closed ?now b) (stat_of t (dgp db)) = s" by (simp add: booked_def closed_def s_def)
  ultimately show ?thesis using k b by blast
qed

lemma allocate_cash_eq:
  assumes F: "ext_ok F" and r: "allocate_cash F t k db = Inr (per_block, db')" and wf: "wf_index (budgets_of t db)"
  shows "\<exists>b b' s. map_of (indices (budgets_of t db)) k = Some b \<and> per_block = ab_per_block b \<and> db' = with_budget t k b' s db \<and>
    b' = (let b1 = b\<lparr>ab_balance := (ab_balance b)\<lparr>amount := amount (ab_balance b) - amount (ab_per_block b)\<rparr>\<rparr> in
          if ab_deadline b1 \<le> head_block_time db \<or> amount (ab_balance b1) = 0 then closed (head_block_time db) b1 else b1) \<and>
    s = booked b b' (stat_of t (dgp db))"
proof -
  let ?now = "head_block_time db"
  from r obtain db1 b1 db2 where
    1: "update_budget_row t k (\<lambda>b. bindE (asset_sub F (ab_balance b) (ab_per_block b)) (\<lambda>x. Inr (b\<lparr>ab_balance := x\<rparr>))) db = Inr db1"
    and b1: "map_of (indices (budgets_of t db1)) k = Some b1"
    and 2: "update_totals t (\<lambda>s. bindE (asset_sub F (bs_volume s) (ab_per_block b1)) (\<lambda>v. Inr (s\<lparr>bs_volume := v\<rparr>))) db1 = Inr db2"
    and 3: "(if ab_deadline b1 \<le> head_block_time db2 \<or> amount (ab_balance b1) = 0 then finish_budget F t (ab_uuid b1) db2 else Inr db2) = Inr db'"
    and pb: "per_block = ab_per_block b1"
    by (auto simp: allocate_cash_def bindE_Inr_iff ix_get_iff)
  from 1 F obtain b where b: "map_of (indices (budgets_of t db)) k = Some b"
    and nc: "\<not> collides budget_clash k (b\<lparr>ab_balance := (ab_balance b)\<lparr>amount := amount (ab_balance b) - amount (ab_per_block b)\<rparr>\<rparr>) (indices (budgets_of t db))"
    and db1: "db1 = with_budget t k (b\<lparr>ab_balance := (ab_balance b)\<lparr>amount := amount (ab_balance b) - amount (ab_per_block b)\<rparr>\<rparr>) (stat_of t (dgp db)) db"
    by (auto simp: update_budget_row_iff bindE_Inr_iff asset_sub_iff)
  have b1': "b1 = b\<lparr>ab_balance := (ab_balance b)\<lparr>amount := amount (ab_balance b) - amount (ab_per_block b)\<rparr>\<rparr>" using b1 by (simp add: db1)
  define s where "s = shift_stat (stat_of t (dgp db)) (- amount (ab_per_block b)) 0 0"
  have "db2 = db1\<lparr>dgp := set_stat t (shift_stat (stat_of t (dgp db1)) (- amount (ab_per_block b)) 0 0) (dgp db1)\<rparr>"
    by (rule update_totals_shift [OF 2]) (use F in \<open>auto simp: bindE_Inr_iff asset_sub_iff b1' intro!: shift_statI\<close>)
  then have db2: "db2 = with_budget t k b1 s db" by (simp add: db1 b1' s_def with_budget_def)
  have now: "head_block_time db2 = ?now" by (simp add: db2)
  have s1: "s = booked b b1 (stat_of t (dgp db))" by (simp add: booked_def b1' s_def)
  show ?thesis
  proof (cases "ab_deadline b1 \<le> ?now \<or> amount (ab_balance b1) = 0")
    case True
    with 3 now have f: "finish_budget F t (ab_uuid b1) db2 = Inr db'" by simp
    have wf2: "wf_index (budgets_of t db2)"
      using wf map_of_in_keys [OF b] by (auto simp: db2 with_budget_def wf_index_def)
    obtain j c where j: "get_budget t (ab_uuid b1) db2 = Inr j" "map_of (indices (budgets_of t db2)) j = Some c"
      and db': "db' = with_budget t j (closed ?now c) (booked c (closed ?now c) (stat_of t (dgp db2))) db2"
      using finish_budget_eq [OF F f wf2] now by auto
    have "\<not> collides budget_clash k b1 (indices (budgets_of t db2))"
      using nc by (auto simp: db2 b1' collides_def list_ex_iff dest: subsetD [OF set_put_row_subset])
    then have jk: "j = k" using find_budget_row [OF _ _ j(1) wf2] by (simp add: db2)
    then have c: "c = b1" using j(2) by (simp add: db2)
    have "booked b1 (closed ?now b1) s = booked b (closed ?now b1) (stat_of t (dgp db))" by (simp add: booked_def s1)
    then have "db' = with_budget t k (closed ?now b1) (booked b (closed ?now b1) (stat_of t (dgp db))) db"
      by (simp add: db' jk c db2)
    with True b pb b1' show ?thesis by (simp add: Let_def)
  next
    case False
    with 3 now have "db' = with_budget t k b1 (booked b b1 (stat_of t (dgp db))) db" by (simp add: db2 s1)
    with False b pb b1' show ?thesis by (simp add: Let_def)
  qed
qed

lemma run_round_budget_eq:
  assumes F: "ext_ok F" and r: "run_round_budget F t bets (i, k) db = Inr db'" and wf: "wf_index (budgets_of t db)"
  shows "\<exists>b cash. map_of (indices (budgets_of t db)) k = Some b \<and> cash = (if i < length bets then amount (bets ! i) else 0) \<and>
    cash \<le> amount (ab_per_block b) \<and>
    db' = with_budget t k (paid (head_block_time db) cash b) (booked b (paid (head_block_time db) cash b) (stat_of t (dgp db))) db"
proof -
  let ?adv = "\<lambda>pb. if i < length bets then bets ! i else pb\<lparr>amount := 0\<rparr>" and ?now = "head_block_time db"
  from r obtain pb db1 ret where al: "allocate_cash F t k db = Inr (pb, db1)"
    and ret: "asset_sub F pb (?adv pb) = Inr ret" "0 \<le> amount ret"
    and up: "update_pending_payouts F t k ret (?adv pb) db1 = Inr db'"
    by (auto simp: run_round_budget_def bindE_Inr_iff Let_def fc_assert_Inr_iff)
  obtain b b1 s where b: "map_of (indices (budgets_of t db)) k = Some b" and pb: "pb = ab_per_block b"
    and db1: "db1 = with_budget t k b1 s db"
    and b1: "b1 = (let b1 = b\<lparr>ab_balance := (ab_balance b)\<lparr>amount := amount (ab_balance b) - amount (ab_per_block b)\<rparr>\<rparr> in
          if ab_deadline b1 \<le> ?now \<or> amount (ab_balance b1) = 0 then closed ?now b1 else b1)"
    and s: "s = booked b b1 (stat_of t (dgp db))"
    using allocate_cash_eq [OF F al wf] by blast
  define cash where "cash = (if i < length bets then amount (bets ! i) else 0)"
  have adv: "amount (?adv pb) = cash" by (simp add: cash_def)
  have r': "amount ret = amount (ab_per_block b) - cash" using ret(1) F adv by (auto simp: asset_sub_iff pb)
  let ?b2 = "b1\<lparr>ab_owner_pending_income := (ab_owner_pending_income b1)\<lparr>amount := amount (ab_owner_pending_income b1) + amount ret\<rparr>,
         ab_budget_pending_outgo := (ab_budget_pending_outgo b1)\<lparr>amount := amount (ab_budget_pending_outgo b1) + cash\<rparr>\<rparr>"
  from up obtain db2 where
    1: "update_budget_row t k (\<lambda>b.
              bindE (asset_add F (ab_owner_pending_income b) ret) (\<lambda>i.
              bindE (asset_add F (ab_budget_pending_outgo b) (?adv pb)) (\<lambda>x.
              Inr (b\<lparr>ab_owner_pending_income := i, ab_budget_pending_outgo := x\<rparr>)))) db1 = Inr db2"
    and 2: "update_totals t (\<lambda>s.
       bindE (asset_add F (bs_owner_pending_income s) ret) (\<lambda>i.
       bindE (asset_add F (bs_budget_pending_outgo s) (?adv pb)) (\<lambda>x.
       Inr (s\<lparr>bs_owner_pending_income := i, bs_budget_pending_outgo := x\<rparr>)))) db2 = Inr db'"
    by (auto simp: update_pending_payouts_def bindE_Inr_iff)
  from 1 F adv have db2: "db2 = with_budget t k ?b2 s db"
    by (auto simp: update_budget_row_iff bindE_Inr_iff asset_add_iff db1)
  have "db' = db2\<lparr>dgp := set_stat t (shift_stat (stat_of t (dgp db2)) 0 (amount ret) cash) (dgp db2)\<rparr>"
    by (rule update_totals_shift [OF 2]) (use F adv in \<open>auto simp: bindE_Inr_iff asset_add_iff intro!: shift_statI\<close>)
  then have "db' = with_budget t k ?b2 (shift_stat s 0 (amount ret) cash) db" by (simp add: db2 with_budget_def)
  moreover have "?b2 = paid ?now cash b" unfolding paid_def Let_def b1 r' by simp
  moreover have "shift_stat s 0 (amount ret) cash = booked b ?b2 (stat_of t (dgp db))" by (simp add: s booked_def algebra_simps)
  moreover have "cash \<le> amount (ab_per_block b)" using ret(2) r' by simp
  ultimately show ?thesis using b cash_def by (intro exI [of _ b] exI [of _ cash]) simp
qed

lemma paid_sum: "budget_sum (paid now cash b) = budget_sum b"
  by (simp add: paid_def Let_def budget_sum_def closed_def)

lemma paid_ok: "budget_ok b \<Longrightarrow> budget_ok (paid now cash b)" and closed_ok: "budget_ok b \<Longrightarrow> budget_ok (closed now b)"
  by (simp_all add: paid_def Let_def budget_ok_def closed_def)

lemma closed_sum: "budget_sum (closed now b) = budget_sum b"
  by (simp add: budget_sum_def closed_def)

section \<open>Fair budgets\<close>

text \<open>The first time from \<open>v\<close> on that lies in a slot, when \<open>h\<close> does.\<close>

definition slot_from :: "nat \<Rightarrow> nat \<Rightarrow> nat" where
  "slot_from h v = v + (h + 2 * v) mod 3"

lemma slot_from_facts: "slot_from h v mod 3 = h mod 3" "v \<le> slot_from h v" "slot_from h v < v + 3"
  unfolding slot_from_def by presburger+

text \<open>The blocks a budget still has to pay for after time \<open>h\<close>: one if it is late.\<close>

definition blocks_left :: "nat \<Rightarrow> adv_budget_object \<Rightarrow> nat" where
  "blocks_left h b = 1 + (slot_from h (ab_deadline b) - slot_from h (max (ab_start b) (h + 1))) div 3"

definition fair :: "nat \<Rightarrow> adv_budget_object \<Rightarrow> bool" where
  "fair h b \<longleftrightarrow> budget_ok b \<and> symbol (ab_per_block b) = SCORUM_SYMBOL \<and> 0 < amount (ab_per_block b) \<and> amount (ab_per_block b) < 2 ^ 63 \<and> 0 \<le> amount (ab_balance b) \<and>
     0 \<le> amount (ab_owner_pending_income b) \<and> 0 \<le> amount (ab_budget_pending_outgo b) \<and>
     (amount (ab_balance b) = 0 \<or> amount (ab_per_block b) = 1 \<or> amount (ab_per_block b) * int (blocks_left h b) \<le> amount (ab_balance b))"

lemma next_slot:
  assumes "s mod 3 = h mod 3" and "h + 1 \<le> (s :: nat)"
  shows "h + 3 \<le> s"
proof (rule ccontr)
  assume "\<not> h + 3 \<le> s"
  then have "s = Suc h \<or> s = Suc (Suc h)" using assms(2) by linarith
  with assms(1) show False by (auto simp: mod_Suc split: if_splits)
qed

lemma slot_from_least:
  assumes "v \<le> n" and "n mod 3 = h mod 3"
  shows "slot_from h v \<le> n"
proof -
  have "s < n + 3 \<Longrightarrow> s mod 3 = n mod 3 \<Longrightarrow> s \<le> n" for s :: nat using next_slot [of s n] by linarith
  then show ?thesis using slot_from_facts [where h = h and v = v] assms by simp
qed

lemma slot_from_mono: "v \<le> w \<Longrightarrow> slot_from h v \<le> slot_from h w"
  using slot_from_facts [where h = h and v = w] by (intro slot_from_least) auto

lemma slot_from_phase: "h mod 3 = h' mod 3 \<Longrightarrow> slot_from h v = slot_from h' v"
  unfolding slot_from_def by (metis mod_add_left_eq)

lemma slot_from_slot: "n mod 3 = h mod 3 \<Longrightarrow> slot_from h n = n"
  using slot_from_least [of n n h] slot_from_facts(2) [where h = h and v = n] by simp

lemma blocks_left_mono:
  assumes "h \<le> h'" and "h mod 3 = h' mod 3"
  shows "blocks_left h' b \<le> blocks_left h b"
proof -
  have "slot_from h (max (ab_start b) (h + 1)) \<le> slot_from h (max (ab_start b) (h' + 1))" using assms(1) by (intro slot_from_mono) simp
  then show ?thesis using slot_from_phase [OF assms(2)] by (simp add: blocks_left_def div_le_mono)
qed

lemma fair_later:
  assumes "fair h b" and "h \<le> h'" and "h mod 3 = h' mod 3"
  shows "fair h' b"
proof -
  have "amount (ab_per_block b) * int (blocks_left h' b) \<le> amount (ab_per_block b) * int (blocks_left h b)"
    using blocks_left_mono [OF assms(2,3)] assms(1) by (intro mult_left_mono) (simp_all add: fair_def)
  then have "amount (ab_per_block b) * int (blocks_left h b) \<le> amount (ab_balance b) \<Longrightarrow>
      amount (ab_per_block b) * int (blocks_left h' b) \<le> amount (ab_balance b)" by (rule order_trans)
  then show ?thesis using assms(1) unfolding fair_def by blast
qed

lemma blocks_left_pay:
  assumes "h < h'" "h mod 3 = h' mod 3" "ab_start b \<le> h'" "h' < ab_deadline b"
  shows "blocks_left h b \<ge> blocks_left h' b + 1"
proof -
  define D where "D = slot_from h (ab_deadline b)"
  have D: "D mod 3 = h' mod 3" "h' < D"
    using slot_from_facts [where h = h and v = "ab_deadline b"] assms(2,4) less_le_trans [OF assms(4)] unfolding D_def by simp_all
  have "slot_from h (max (ab_start b) (h + 1)) \<le> slot_from h h'" using assms by (intro slot_from_mono) simp
  also have "slot_from h h' = h'" using assms(2) by (intro slot_from_slot) simp
  finally have 1: "(D - h') div 3 \<le> (D - slot_from h (max (ab_start b) (h + 1))) div 3" by (intro div_le_mono diff_le_mono2)
  have "slot_from h (h' + 1) = h' + 3"
  proof (rule antisym)
    show "slot_from h (h' + 1) \<le> h' + 3" using assms(2) by (intro slot_from_least) simp_all
    have "s mod 3 = h' mod 3 \<Longrightarrow> h' + 1 \<le> s \<Longrightarrow> h' + 3 \<le> s" for s by (rule next_slot)
    then show "h' + 3 \<le> slot_from h (h' + 1)" using slot_from_facts [where h = h and v = "h' + 1"] assms(2) by simp
  qed
  then have "slot_from h (max (ab_start b) (h' + 1)) = h' + 3" using assms(3) by (simp add: max_def)
  then have 2: "blocks_left h' b = 1 + (D - (h' + 3)) div 3"
    using slot_from_phase [OF assms(2)] by (simp add: blocks_left_def D_def)
  have "h' + 3 \<le> D" by (rule next_slot) (use D in simp_all)
  then obtain d where "D = h' + 3 + d" using le_Suc_ex by blast
  then have "(D - h') div 3 = 1 + (D - (h' + 3)) div 3" by simp
  with 1 2 show ?thesis by (simp add: blocks_left_def D_def)
qed

lemma fair_paid:
  assumes f: "fair h b" and t: "h < h'" "h mod 3 = h' mod 3" and s: "ab_start b \<le> h'" and cash: "0 \<le> cash" "cash \<le> amount (ab_per_block b)"
    and pos: "amount (ab_balance b) \<noteq> 0"
  shows "fair h' (paid h' cash b)"
proof -
  let ?pb = "amount (ab_per_block b)" and ?bal = "amount (ab_balance b)"
  have pb: "0 < ?pb" and cov: "?pb = 1 \<or> ?pb * int (blocks_left h b) \<le> ?bal" and b0: "0 < ?bal" using f pos by (auto simp: fair_def)
  have "?pb * 1 \<le> ?pb * int (blocks_left h b)" using pb by (intro mult_left_mono) (simp_all add: blocks_left_def)
  then have rest: "0 \<le> ?bal - ?pb" using cov b0 by auto
  show ?thesis
  proof (cases "ab_deadline b \<le> h' \<or> ?bal - ?pb = 0")
    case True
    with f rest cash show ?thesis by (auto simp: fair_def paid_def Let_def closed_def budget_ok_def)
  next
    case False
    then have "?pb = 1 \<or> ?pb * int (blocks_left h' b) \<le> ?bal - ?pb"
    proof -
      have "blocks_left h' b + 1 \<le> blocks_left h b" using blocks_left_pay [OF t s] False by simp
      then have "?pb * (int (blocks_left h' b) + 1) \<le> ?pb * int (blocks_left h b)" using pb by (intro mult_left_mono) simp_all
      with cov show ?thesis by (auto simp: algebra_simps)
    qed
    moreover have "blocks_left h' (paid h' cash b) = blocks_left h' b" by (simp add: blocks_left_def paid_def Let_def closed_def)
    ultimately show ?thesis using False f rest cash by (auto simp: fair_def paid_def Let_def budget_ok_def)
  qed
qed

lemma fair_closed: "fair h b \<Longrightarrow> fair h (closed now b)"
  by (auto simp: fair_def closed_def budget_ok_def)

end
