(* ===== verification/Auction_Bets.thy ===== *)
theory Auction_Bets
  imports Advertising
begin

text \<open>
  The bets of the advertising auction (\<^verbatim>\<open>advertising_auction::calculate_bets\<close>): the last winner pays
  the offer of the first loser, every other one the bet below it plus a share of the offer below it,
  and nobody more than the own offer.
\<close>

section \<open>Shares of an asset\<close>

lemma mul_fraction_value:
  assumes F: "ext_ok F" and r: "asset_mul_fraction F a f = Inr r" and n: "numerator f \<le> denominator f" "denominator f < 2 ^ 64"
    and a: "amount a < 2 ^ 63"
  shows "amount r = amount a * numerator f div denominator f" and "symbol r = symbol a" and "0 \<le> amount r" and "amount r \<le> amount a"
    and "0 \<le> amount a" and "0 \<le> numerator f" and "0 < denominator f"
proof -
  from r obtain x where x: "multiply_by_fractional F (amount a) (numerator f) (denominator f) = Inr x" and r': "r = a\<lparr>amount := x\<rparr>"
    by (auto simp: asset_mul_fraction_def bindE_Inr_iff)
  from x show p: "0 \<le> amount a" "0 \<le> numerator f" "0 < denominator f"
    by (auto simp: multiply_by_fractional_def bindE_Inr_iff fc_assert_Inr_iff)
  have le: "amount a * numerator f \<le> amount a * denominator f" using n p by (intro mult_left_mono) simp_all
  have q: "0 \<le> amount a * numerator f div denominator f" "amount a * numerator f div denominator f \<le> amount a"
    using p zdiv_mono1 [OF le p(3)] by (simp_all add: pos_imp_zdiv_nonneg_iff)
  then have "to_i64 (amount a * numerator f div denominator f) = amount a * numerator f div denominator f"
    using a by (intro to_i64_id) (simp add: in_i64_def)
  with x multiply_by_fractional_eq [OF F p(1) _ p(2) _ p(3) n(2), of x] a n have "x = amount a * numerator f div denominator f" by auto
  with q show "amount r = amount a * numerator f div denominator f" "0 \<le> amount r" "amount r \<le> amount a" by (simp_all add: r')
qed (use r in \<open>auto simp: asset_mul_fraction_def bindE_Inr_iff\<close>)

lemma mul_fraction_returns:
  assumes F: "ext_ok F" and a: "0 \<le> amount a" "amount a < 2 ^ 63" and f: "0 \<le> numerator f" "numerator f \<le> denominator f"
    "0 < denominator f" "denominator f < 2 ^ 63"
  shows "asset_mul_fraction F a f = Inr (a\<lparr>amount := amount a * numerator f div denominator f\<rparr>)"
proof -
  have "amount a * numerator f \<le> amount a * denominator f" using a f by (intro mult_left_mono) simp_all
  then have "amount a * numerator f div denominator f \<le> amount a" using f zdiv_mono1 [of _ "amount a * denominator f" "denominator f"] by force
  then show ?thesis using multiply_by_fractional_exact [OF F a(1,2) f(1) _ f(3,4)] a f by (simp add: asset_mul_fraction_def)
qed

section \<open>The loop\<close>

text \<open>What the auction asks of the coefficients and the offers.\<close>

definition auction_input :: "asset list \<Rightarrow> int list \<Rightarrow> bool" where
  "auction_input pbs cs \<longleftrightarrow> cs \<noteq> [] \<and> sorted (rev cs) \<and> 0 < last cs \<and> hd cs \<le> 100 \<and> length pbs \<le> length cs + 1 \<and>
     (\<forall>x \<in> set pbs. symbol x = SCORUM_SYMBOL \<and> 0 < amount x \<and> amount x < 2 ^ 63) \<and> sorted_wrt (\<lambda>x y. amount y \<le> amount x) pbs"

lemma winners_pos:
  assumes "auction_input pbs cs" and "pbs \<noteq> []"
  shows "0 < min (length pbs) (length cs)" and "min (length pbs) (length cs) - 1 < length cs" and "min (length pbs) (length cs) - 1 < length pbs"
proof -
  have "0 < length pbs" "0 < length cs" using assms by (simp_all add: auction_input_def)
  then show "0 < min (length pbs) (length cs)" "min (length pbs) (length cs) - 1 < length cs" "min (length pbs) (length cs) - 1 < length pbs"
    by linarith+
qed

lemma coefficient_order:
  assumes "auction_input pbs cs" and "Suc n < length cs"
  shows "last cs \<le> cs ! Suc n" and "cs ! Suc n \<le> cs ! n" and "cs ! n \<le> hd cs" and "0 < hd cs" and "hd cs \<le> 100" and "0 < last cs"
proof -
  have ne: "cs \<noteq> []" using assms(2) by auto
  have ends: "cs \<noteq> []" "hd cs = cs ! 0" "last cs = cs ! (length cs - 1)" using ne by (simp_all add: hd_conv_nth last_conv_nth)
  have mono: "i \<le> j \<Longrightarrow> j < length cs \<Longrightarrow> cs ! j \<le> cs ! i" for i j
    using assms(1) by (auto simp: auction_input_def intro: sorted_rev_nth_mono)
  show "last cs \<le> cs ! Suc n" "cs ! Suc n \<le> cs ! n" "cs ! n \<le> hd cs" "hd cs \<le> 100" "0 < last cs"
    using assms mono by (simp_all add: ends(2,3) auction_input_def)
  have "last cs \<le> hd cs" using mono [of 0 "length cs - 1"] assms(2) by (simp add: ends(2,3))
  then show "0 < hd cs" using assms(1) by (simp add: auction_input_def)
qed

definition bets_ok :: "asset list \<Rightarrow> nat \<Rightarrow> asset list \<Rightarrow> bool" where
  "bets_ok pbs n bets \<longleftrightarrow> bets \<noteq> [] \<and> (\<forall>x \<in> set bets. symbol x = SCORUM_SYMBOL \<and> 0 < amount x) \<and>
     sorted_wrt (\<lambda>x y. amount y \<le> amount x) bets \<and> (\<forall>i < length bets. amount (bets ! i) \<le> amount (pbs ! (n + i)))"

lemma bets_ok_Cons:
  assumes ok: "bets_ok pbs (Suc n) bets" and x: "symbol x = SCORUM_SYMBOL" "amount (hd bets) \<le> amount x" "amount x \<le> amount (pbs ! n)"
  shows "bets_ok pbs n (x # bets)"
proof -
  have "bets = hd bets # tl bets" using ok by (simp add: bets_ok_def)
  then have "\<forall>y \<in> set bets. amount y \<le> amount (hd bets)"
    using ok by (metis (no_types, lifting) bets_ok_def insert_iff list.simps(15) order_refl sorted_wrt.simps(2))
  moreover have "0 < amount (hd bets)" using ok by (simp add: bets_ok_def)
  ultimately have "0 < amount x" "sorted_wrt (\<lambda>x y. amount y \<le> amount x) (x # bets)"
    using ok x(2) by (linarith, fastforce simp: bets_ok_def)
  moreover have "\<forall>i < length (x # bets). amount ((x # bets) ! i) \<le> amount (pbs ! (n + i))"
    using ok x by (auto simp: bets_ok_def nth_Cons split: nat.splits)
  ultimately show ?thesis using ok x(1) unfolding bets_ok_def by simp
qed

lemma bets_loop_ok:
  assumes F: "ext_ok F" and "bets_loop F pbs cs n bets = Inr bets'" and "bets_ok pbs n bets" and "n < length cs" "n < length pbs"
    and ok: "auction_input pbs cs"
  shows "bets_ok pbs 0 bets' \<and> length bets' = n + length bets"
  using assms(2-5)
proof (induction n arbitrary: bets)
  case (Suc n)
  from Suc.prems(1) obtain x bet m where x: "asset_mul_fraction F (pbs ! Suc n) \<lparr>numerator = cs ! n - cs ! Suc n, denominator = hd cs\<rparr> = Inr x"
    and bet: "asset_add F (hd bets) x = Inr bet" and m: "asset_min bet (pbs ! n) = Inr m"
    and rest: "bets_loop F pbs cs n (m # bets) = Inr bets'"
    by (auto simp: bindE_Inr_iff make_fraction_def)
  have p: "symbol (pbs ! n) = SCORUM_SYMBOL" "amount (pbs ! Suc n) < 2 ^ 63" using ok Suc.prems(4) by (simp_all add: auction_input_def)
  have "0 \<le> amount x" using mul_fraction_value(3) [OF F x] coefficient_order [OF ok Suc.prems(3)] p(2) by simp
  then have "amount (hd bets) \<le> amount bet" "symbol bet = symbol (hd bets)" using bet F by (auto simp: asset_add_iff)
  moreover have "amount (hd bets) \<le> amount (pbs ! n)"
  proof -
    have "amount (hd bets) \<le> amount (pbs ! Suc n)" using Suc.prems(2) by (force simp: bets_ok_def hd_conv_nth)
    also have "\<dots> \<le> amount (pbs ! n)" using ok Suc.prems(4) by (simp add: auction_input_def sorted_wrt_iff_nth_less)
    finally show ?thesis .
  qed
  moreover have "symbol (hd bets) = SCORUM_SYMBOL" using Suc.prems(2) by (simp add: bets_ok_def)
  ultimately have "bets_ok pbs n (m # bets)"
    using m p(1) by (intro bets_ok_Cons Suc.prems) (auto simp: asset_min_def bindE_Inr_iff asset_order_iffs)
  from Suc.IH [OF rest this] Suc.prems show ?case by simp
qed simp

lemma assets_ascend_iff:
  assumes "\<forall>x \<in> set xs. symbol x = SCORUM_SYMBOL"
  shows "assets_ascend xs = Inr (sorted (map amount xs))"
  using assms by (induction xs rule: assets_ascend.induct) (auto simp: asset_order_eqs)

lemma sorted_amounts: "sorted_wrt (\<lambda>x y. amount y \<le> amount x) xs \<longleftrightarrow> sorted (map amount (rev xs))"
  by (simp add: sorted_wrt_map sorted_wrt_rev flip: rev_map)

lemma smallest_bet_ok:
  assumes "auction_input pbs cs" and "pbs \<noteq> []"
  defines "n \<equiv> min (length pbs) (length cs)"
  shows "bets_ok pbs (n - 1) [if n < length pbs then pbs ! n else pbs ! (n - 1)]"
proof -
  have n: "0 < n" "n - 1 < length pbs" using winners_pos [OF assms(1,2)] by (simp_all add: n_def)
  have "amount (pbs ! n) \<le> amount (pbs ! (n - 1))" if "n < length pbs"
    using assms(1) that n by (simp add: auction_input_def sorted_wrt_iff_nth_less)
  with n assms(1) show ?thesis by (simp add: bets_ok_def auction_input_def)
qed

lemma calculate_bets_ok:
  assumes F: "ext_ok F" and r: "calculate_bets F pbs cs = Inr bets" and ok: "auction_input pbs cs" and ne: "pbs \<noteq> []"
  shows "bets_ok pbs 0 bets \<and> length bets = min (length pbs) (length cs)"
proof -
  let ?n = "min (length pbs) (length cs)"
  note n = winners_pos [OF ok ne]
  from r ne have "bets_loop F pbs cs (?n - 1) [if ?n < length pbs then pbs ! ?n else pbs ! (?n - 1)] = Inr bets"
    by (auto simp: calculate_bets_def bindE_Inr_iff Let_def)
  from bets_loop_ok [OF F this smallest_bet_ok [OF ok ne] n(2,3) ok] n(1) show ?thesis by simp
qed

lemma bets_loop_last: "bets_loop F pbs cs n bets = Inr bets' \<Longrightarrow> bets \<noteq> [] \<Longrightarrow> List.last bets' = List.last bets"
proof (induction n arbitrary: bets)
  case (Suc n)
  then obtain m where "bets_loop F pbs cs n (m # bets) = Inr bets'" by (auto simp: bindE_Inr_iff)
  from Suc.IH [OF this] Suc.prems(2) show ?case by simp
qed simp

lemma bets_loop_returns:
  assumes F: "ext_ok F" and "bets_ok pbs n bets" and "n < length cs" "n < length pbs" and ok: "auction_input pbs cs"
    and small: "\<forall>x \<in> set pbs. amount x < 2 ^ 62"
  shows "\<exists>bets'. bets_loop F pbs cs n bets = Inr bets'"
  using assms(2-4)
proof (induction n arbitrary: bets)
  case (Suc n)
  let ?f = "\<lparr>numerator = cs ! n - cs ! Suc n, denominator = hd cs\<rparr>" and ?p = "pbs ! Suc n"
  note c = coefficient_order [OF ok Suc.prems(2)]
  have p: "symbol ?p = SCORUM_SYMBOL" "0 < amount ?p" "amount ?p < 2 ^ 62" "symbol (pbs ! n) = SCORUM_SYMBOL"
    using ok small Suc.prems(3) by (simp_all add: auction_input_def)
  obtain x where x: "asset_mul_fraction F ?p ?f = Inr x" using mul_fraction_returns [OF F, of ?p ?f] c p ok by (auto simp: auction_input_def)
  have xv: "symbol x = SCORUM_SYMBOL" "0 \<le> amount x" "amount x \<le> amount ?p"
    using mul_fraction_value [OF F x] c p ok by (auto simp: auction_input_def)
  have h: "symbol (hd bets) = SCORUM_SYMBOL" "0 < amount (hd bets)" using Suc.prems(1) by (simp_all add: bets_ok_def)
  have hp: "amount (hd bets) \<le> amount ?p" using Suc.prems(1) by (force simp: bets_ok_def hd_conv_nth)
  obtain bet where bet: "asset_add F (hd bets) x = Inr bet"
    using F h hp xv p by (simp add: asset_add_iff in_i64_def)
  then have bv: "symbol bet = SCORUM_SYMBOL" "amount (hd bets) \<le> amount bet" using F h xv by (auto simp: asset_add_iff)
  define m where "m = (if amount (pbs ! n) < amount bet then pbs ! n else bet)"
  have m: "asset_min bet (pbs ! n) = Inr m" using bv p by (simp add: asset_min_def asset_order_eqs m_def)
  have "amount ?p \<le> amount (pbs ! n)" using ok Suc.prems(3) by (simp add: auction_input_def sorted_wrt_iff_nth_less)
  then have "bets_ok pbs n (m # bets)" using bv p h hp by (intro bets_ok_Cons Suc.prems(1)) (auto simp: m_def)
  from Suc.IH [OF this] Suc.prems c x bet m show ?case by (simp add: make_fraction_def)
qed simp

text \<open>
  C18: On offers that are sorted, positive and below a quarter of the range, the auction always
  computes its bets: one for each winner, none above the offer of the winner, falling with the
  place, and all positive; the last winner pays the offer of the first loser, if there is one.
\<close>
theorem auction_bets_fair:
  assumes F: "ext_ok F" and ok: "auction_input pbs cs" and small: "\<forall>x \<in> set pbs. amount x < 2 ^ 62"
  shows "\<exists>bets. calculate_bets F pbs cs = Inr bets \<and> length bets = min (length pbs) (length cs) \<and>
    (\<forall>i < length bets. 0 < amount (bets ! i) \<and> amount (bets ! i) \<le> amount (pbs ! i)) \<and>
    sorted_wrt (\<lambda>x y. amount y \<le> amount x) bets \<and> (length cs < length pbs \<longrightarrow> List.last bets = pbs ! length cs)"
proof (cases "pbs = []")
  case True
  then show ?thesis using ok by (simp add: calculate_bets_def auction_input_def assertE_def)
next
  case False
  let ?n = "min (length pbs) (length cs)"
  note n = winners_pos [OF ok False]
  obtain bets where l: "bets_loop F pbs cs (?n - 1) [if ?n < length pbs then pbs ! ?n else pbs ! (?n - 1)] = Inr bets"
    using bets_loop_returns [OF F smallest_bet_ok [OF ok False] n(2,3) ok small] by blast
  have "assets_ascend (rev pbs) = Inr True" "amount (last pbs) > 0"
    using ok False by (simp_all add: assets_ascend_iff auction_input_def sorted_amounts)
  then have c: "calculate_bets F pbs cs = Inr bets"
    using ok False l by (simp add: calculate_bets_def auction_input_def Let_def assertE_def)
  from calculate_bets_ok [OF F c ok False] c bets_loop_last [OF l] show ?thesis by (auto simp: bets_ok_def)
qed

theorem auction_bets_fair_witness:
  "\<exists>bets. calculate_bets ext_ref [SCR 90, SCR 70, SCR 30] [100, 85, 75, 65] = Inr bets \<and> length bets = 3 \<and> amount (bets ! 0) \<le> 90"
  using auction_bets_fair [OF ext_ok_ref, of "[SCR 90, SCR 70, SCR 30]" "[100, 85, 75, 65]"] by (fastforce simp: auction_input_def)

end
