(* ===== verification/Advertising_Run.thy ===== *)
theory Advertising_Run
  imports Advertising_Ledger Auction_Bets
begin

text \<open>
  The auction of a block as a whole, the payouts and the budget operations. \<open>settles d\<close> relates the
  database before and after: \<open>d\<close> enters the ledger, the statistics keep their distance to the
  budgets, and outside the budgets and the purses nothing changes.
\<close>

section \<open>Settlements\<close>

definition adv_free :: "database \<Rightarrow> database" where
  "adv_free db = (let no_rows = \<lparr>next_id = 0, indices = []\<rparr>; no_stat = \<lparr>bs_volume = SCR 0, bs_budget_pending_outgo = SCR 0, bs_owner_pending_income = SCR 0\<rparr> in
     (purse_free db)\<lparr>post_budgets := no_rows, banner_budgets := no_rows,
       dgp := (dgp (purse_free db))\<lparr>dgp_post_budgets := no_stat, dgp_banner_budgets := no_stat\<rparr>\<rparr>)"

lemma adv_free_same: "purse_free db' = purse_free db \<Longrightarrow> adv_free db' = adv_free db"
  by (simp add: adv_free_def)

lemma adv_free_with_budget [simp]: "adv_free (with_budget t k b s db) = adv_free db"
  by (cases t) (simp_all add: adv_free_def purse_free_def with_budget_def set_budgets_def set_stat_def blank_dgp_def)

definition settles :: "int \<Rightarrow> database \<Rightarrow> database \<Rightarrow> bool" where
  "settles d db db' \<longleftrightarrow> keeps db db' \<and> ledger_move d db db' \<and> (db_ok db \<longrightarrow> adv_free db' = adv_free db \<and> (\<forall>t. books t db' = books t db))"

lemma settles_refl [intro]: "settles 0 db db"
  by (auto simp: settles_def)

lemma settles_trans: "settles d db db1 \<Longrightarrow> settles e db1 db2 \<Longrightarrow> d + e = f \<Longrightarrow> settles f db db2"
  unfolding settles_def by (metis keeps_trans ledger_move_def ledger_move_trans)

lemma settles_ok: "settles d db db' \<Longrightarrow> db_ok db \<Longrightarrow> db_ok db'"
  by (simp add: settles_def ledger_move_def)

lemma budgets_free: "budgets_of t (purse_free db) = budgets_of t db" "stat_of t (dgp (purse_free db)) = stat_of t (dgp db)"
    "head_block_time (purse_free db) = head_block_time db"
  by (cases t; simp add: purse_free_def budgets_of_def stat_of_def blank_dgp_def head_block_time_def)+

lemma same_budgets:
  assumes "purse_free db' = purse_free db"
  shows "budgets_of t db' = budgets_of t db" and "stat_of t (dgp db') = stat_of t (dgp db)" and "head_block_time db' = head_block_time db"
  using assms by (metis budgets_free)+

lemma pays_settles: "pays d db db' \<Longrightarrow> settles d db db'"
  using pays_free [of d db db'] same_budgets [of db' db]
  by (auto simp: settles_def pays_def books_def intro: adv_free_same)

lemma row_settles:
  assumes "map_of (indices (budgets_of t db)) k = Some b" and "budget_ok b'"
  shows "settles (budget_sum b' - budget_sum b) db (with_budget t k b' (booked b b' (stat_of t (dgp db))) db)"
proof -
  have "books t' (with_budget t k b' (booked b b' (stat_of t (dgp db))) db) = books t' db" if "db_ok db" for t'
    using that with_budget_books [OF assms(1)] budget_custody.tbl_ok [OF that] by (cases "t' = t") auto
  then show ?thesis using with_budget_flow [OF assms] by (auto simp: settles_def)
qed

lemma adv_free_time: "head_block_time (adv_free db) = head_block_time db"
  by (simp add: adv_free_def purse_free_def blank_dgp_def head_block_time_def Let_def)

lemma settles_time: "settles d db db' \<Longrightarrow> db_ok db \<Longrightarrow> head_block_time db' = head_block_time db"
  using adv_free_time [of db] adv_free_time [of db'] by (simp add: settles_def)

section \<open>One budget\<close>

definition fair_rows :: "nat \<Rightarrow> budget_type \<Rightarrow> database \<Rightarrow> bool" where
  "fair_rows h t db \<longleftrightarrow> (\<forall>k b. map_of (indices (budgets_of t db)) k = Some b \<longrightarrow> fair h b)"

definition other_rows :: "budget_type \<Rightarrow> database \<Rightarrow> database \<Rightarrow> bool" where
  "other_rows t db db' \<longleftrightarrow> (\<forall>t'. t' \<noteq> t \<longrightarrow> budgets_of t' db' = budgets_of t' db)"

lemma other_rows_with_budget [simp]: "other_rows t db (with_budget t k b s db)"
  by (simp add: other_rows_def with_budget_def)

lemma round_step:
  assumes F: "ext_ok F" and r: "run_round_budget F t bets (i, k) db = Inr db'" and ok: "db_ok db" and bets: "\<forall>x \<in> set bets. 0 \<le> amount x"
  shows "settles 0 db db' \<and> other_rows t db db' \<and> (\<exists>b cash. map_of (indices (budgets_of t db)) k = Some b \<and> 0 \<le> cash \<and> cash \<le> amount (ab_per_block b) \<and>
    indices (budgets_of t db') = put_row k (paid (head_block_time db) cash b) (indices (budgets_of t db)))"
proof -
  obtain b cash where b: "map_of (indices (budgets_of t db)) k = Some b" and cash: "cash = (if i < length bets then amount (bets ! i) else 0)"
    and le: "cash \<le> amount (ab_per_block b)"
    and db': "db' = with_budget t k (paid (head_block_time db) cash b) (booked b (paid (head_block_time db) cash b) (stat_of t (dgp db))) db"
    using run_round_budget_eq [OF F r] budget_custody.tbl_ok [OF ok] by blast
  have "budget_ok b" using b budget_custody.tbl_ok [OF ok, of t] by (force dest: map_of_SomeD)
  then have "settles 0 db db'" using row_settles [OF b paid_ok [of b "head_block_time db" cash]] by (simp add: db' paid_sum)
  moreover have "0 \<le> cash" using bets by (simp add: cash)
  ultimately show ?thesis using b le by (auto simp: db')
qed

text \<open>The loop over the budgets: those still to come are as they were, the others are fair at the new time.\<close>

definition in_round :: "nat \<Rightarrow> budget_type \<Rightarrow> nat set \<Rightarrow> database \<Rightarrow> bool" where
  "in_round h t ks db \<longleftrightarrow> db_ok db \<and> h < head_block_time db \<and> h mod 3 = head_block_time db mod 3 \<and> (\<forall>k b. map_of (indices (budgets_of t db)) k = Some b \<longrightarrow>
     (if k \<in> ks then fair h b \<and> ab_start b \<le> head_block_time db \<and> amount (ab_balance b) \<noteq> 0 else fair (head_block_time db) b))"

lemma round_loop:
  assumes F: "ext_ok F" and bets: "\<forall>x \<in> set bets. 0 \<le> amount x"
  shows "foldE (run_round_budget F t bets) xs db = Inr db' \<Longrightarrow> distinct (map snd xs) \<Longrightarrow> in_round h t (snd ` set xs) db \<Longrightarrow>
    settles 0 db db' \<and> other_rows t db db' \<and> fair_rows (head_block_time db) t db'"
proof (induction xs arbitrary: db)
  case Nil
  then show ?case by (auto simp: in_round_def fair_rows_def other_rows_def)
next
  case (Cons x xs)
  obtain i k where x: "x = (i, k)" by (cases x)
  from Cons.prems(1) obtain db1 where 1: "run_round_budget F t bets (i, k) db = Inr db1"
    and rest: "foldE (run_round_budget F t bets) xs db1 = Inr db'" by (auto simp: x bindE_Inr_iff)
  have ok: "db_ok db" using Cons.prems(3) by (simp add: in_round_def)
  obtain b cash where step: "settles 0 db db1" "other_rows t db db1" and b: "map_of (indices (budgets_of t db)) k = Some b"
    and cash: "0 \<le> cash" "cash \<le> amount (ab_per_block b)"
    and rows: "indices (budgets_of t db1) = put_row k (paid (head_block_time db) cash b) (indices (budgets_of t db))"
    using round_step [OF F 1 ok bets] by blast
  note now = settles_time [OF step(1) ok]
  have "fair h b" "ab_start b \<le> head_block_time db" "amount (ab_balance b) \<noteq> 0" "h < head_block_time db" "h mod 3 = head_block_time db mod 3"
    using Cons.prems(3) b by (auto simp: in_round_def x)
  then have "fair (head_block_time db) (paid (head_block_time db) cash b)" using cash by (intro fair_paid)
  then have "in_round h t (snd ` set xs) db1"
    using Cons.prems(2,3) settles_ok [OF step(1) ok] unfolding in_round_def
    by (auto simp: x now rows)
  from Cons.IH [OF rest _ this] Cons.prems(2) step now show ?case by (auto simp: other_rows_def intro: settles_trans)
qed

section \<open>A round\<close>

lemma calculate_bets_input:
  assumes r: "calculate_bets F pbs cs = Inr bets" and ok: "\<forall>x \<in> set pbs. symbol x = SCORUM_SYMBOL \<and> 0 < amount x \<and> amount x < 2 ^ 63"
  shows "auction_input pbs cs"
proof -
  have "assets_ascend (rev pbs) = Inr (sorted (map amount (rev pbs)))" using ok by (intro assets_ascend_iff) simp
  with r ok show ?thesis by (auto simp: calculate_bets_def bindE_Inr_iff fc_assert_Inr_iff assertE_def auction_input_def sorted_amounts)
qed

lemma calculate_bets_nonneg:
  assumes F: "ext_ok F" and r: "calculate_bets F pbs cs = Inr bets" and ok: "\<forall>x \<in> set pbs. symbol x = SCORUM_SYMBOL \<and> 0 < amount x \<and> amount x < 2 ^ 63"
  shows "\<forall>x \<in> set bets. 0 \<le> amount x"
proof (cases "pbs = []")
  case True
  then show ?thesis using r by (auto simp: calculate_bets_def bindE_Inr_iff)
next
  case False
  then have "bets_ok pbs 0 bets" using calculate_bets_ok [OF F r calculate_bets_input [OF r ok]] by blast
  then show ?thesis by (auto simp: bets_ok_def)
qed

lemma top_budgets_rows:
  assumes "wf_index (budgets_of t db)"
  shows "distinct (map fst (get_top_budgets t now n db))"
    and "(k, b) \<in> set (get_top_budgets t now n db) \<Longrightarrow>
      map_of (indices (budgets_of t db)) k = Some b \<and> ab_start b \<le> now \<and> amount (ab_balance b) \<noteq> 0"
proof -
  have d: "distinct (map fst (indices (budgets_of t db)))" using assms by (simp add: wf_index_def sorted_rows_distinct)
  have keep: "distinct (map fst (filter P rs))" if "distinct (map fst rs)" for P and rs :: "adv_budget_object rows"
    using that by (induction rs) (auto simp: image_iff)
  have sort: "distinct (map fst (sort_key f rs))" if "distinct (map fst rs)" for f :: "nat \<times> adv_budget_object \<Rightarrow> int" and rs
    using that by (simp add: distinct_map)
  show "distinct (map fst (get_top_budgets t now n db))"
    by (simp add: get_top_budgets_def distinct_take keep sort d flip: take_map)
  show "map_of (indices (budgets_of t db)) k = Some b \<and> ab_start b \<le> now \<and> amount (ab_balance b) \<noteq> 0"
    if "(k, b) \<in> set (get_top_budgets t now n db)"
    using that d by (auto simp: get_top_budgets_def dest: in_set_takeD)
qed

lemma round_of_settles:
  assumes F: "ext_ok F" and r: "run_round_of F t coeffs db = Inr db'" and ok: "db_ok db" and fair: "fair_rows h t db"
    and time: "h < head_block_time db" "h mod 3 = head_block_time db mod 3"
  shows "settles 0 db db' \<and> other_rows t db db' \<and> fair_rows (head_block_time db) t db'"
proof -
  let ?bs = "get_top_budgets t (head_block_time db) 65535 db"
  let ?pbs = "take (length coeffs + 1) (map (\<lambda>r. ab_per_block (snd r)) ?bs)"
  have wf: "wf_index (budgets_of t db)" using budget_custody.tbl_ok [OF ok] by blast
  note top = top_budgets_rows [OF wf, where now = "head_block_time db" and n = 65535]
  from r obtain bets where bets: "calculate_bets F ?pbs coeffs = Inr bets"
    and loop: "foldE (run_round_budget F t bets) (enumerate 0 (map fst ?bs)) db = Inr db'"
    by (auto simp: run_round_of_def Let_def bindE_Inr_iff)
  have "symbol x = SCORUM_SYMBOL \<and> 0 < amount x \<and> amount x < 2 ^ 63" if x: "x \<in> set ?pbs" for x
  proof -
    obtain k b where "(k, b) \<in> set ?bs" "x = ab_per_block b" using in_set_takeD [OF x] by auto
    with top(2) fair show ?thesis by (auto simp: fair_rows_def fair_def)
  qed
  then have nonneg: "\<forall>x \<in> set bets. 0 \<le> amount x" using calculate_bets_nonneg [OF F bets] by blast
  have ids: "snd ` set (enumerate 0 (map fst ?bs)) = fst ` set ?bs"
    by (metis map_snd_enumerate set_map)
  have "in_round h t (fst ` set ?bs) db"
    using ok time fair top(2) by (fastforce simp: in_round_def fair_rows_def intro: fair_later)
  then show ?thesis using top(1) by (intro round_loop [OF F nonneg loop]) (simp_all add: ids map_snd_enumerate)
qed

lemma fair_rows_other: "other_rows t db db' \<Longrightarrow> t' \<noteq> t \<Longrightarrow> fair_rows h t' db' = fair_rows h t' db"
  by (simp add: other_rows_def fair_rows_def)

lemma round_settles:
  assumes F: "ext_ok F" and r: "run_round F db = Inr db'" and ok: "db_ok db" and fair: "\<And>t. fair_rows h t db"
    and time: "h < head_block_time db" "h mod 3 = head_block_time db mod 3"
  shows "settles 0 db db'" and "fair_rows (head_block_time db) t db'"
proof -
  from r obtain db1 where 1: "run_round_of F Budget_post (auction_post_coefficients (advertising_property db)) db = Inr db1"
    and 2: "run_round_of F Budget_banner (auction_banner_coefficients (advertising_property db)) db1 = Inr db'"
    by (auto simp: run_round_def Let_def bindE_Inr_iff)
  note s1 = round_of_settles [OF F 1 ok fair time]
  have ok1: "db_ok db1" and now: "head_block_time db1 = head_block_time db" using s1 ok settles_ok settles_time by blast+
  have "fair_rows h Budget_banner db1" using s1 fair fair_rows_other by blast
  with round_of_settles [OF F 2 ok1, of h] time now
  have s2: "settles 0 db1 db'" "other_rows Budget_banner db1 db'" "fair_rows (head_block_time db) Budget_banner db'" by simp_all
  show "settles 0 db db'" using s1 s2(1) settles_trans by force
  show "fair_rows (head_block_time db) t db'" using s1 s2 fair_rows_other [OF s2(2), of Budget_post] by (cases t) auto
qed

end
