(* ===== verification/Block_Funds.thy ===== *)
theory Block_Funds
  imports Advertising
begin

text \<open>
  The money a block hands out: \<^verbatim>\<open>block_tasks/process_funds.cpp\<close> with the reward balancer
  (\<^verbatim>\<open>reward_balance_algorithm.hpp\<close>), the original reward fund (\<^verbatim>\<open>dbs_fund_budget\<close> of \<^verbatim>\<open>services/budgets.cpp\<close>)
  and the migration of the witness rewards (\<^verbatim>\<open>process_witness_reward_in_sp_migration.cpp\<close>).
  The singletons of the database are fields of its record; a reward balancer is passed to the
  algorithm and the changed one is stored by the caller.
\<close>

section \<open>Constants\<close>

definition SCORUM_DEV_TEAM_PER_BLOCK_REWARD_PERCENT :: int where
  "SCORUM_DEV_TEAM_PER_BLOCK_REWARD_PERCENT = 50 * SCORUM_1_PERCENT"

definition SCORUM_WITNESS_PER_BLOCK_REWARD_PERCENT :: int where
  "SCORUM_WITNESS_PER_BLOCK_REWARD_PERCENT = 10 * SCORUM_1_PERCENT"

definition SCORUM_ACTIVE_SP_HOLDERS_PER_BLOCK_REWARD_PERCENT :: int where
  "SCORUM_ACTIVE_SP_HOLDERS_PER_BLOCK_REWARD_PERCENT = 10 * SCORUM_1_PERCENT"

definition SCORUM_ADJUST_REWARD_PERCENT :: int where
  "SCORUM_ADJUST_REWARD_PERCENT = 5 * SCORUM_1_PERCENT"

definition SCORUM_MIN_PER_BLOCK_REWARD :: int where
  "SCORUM_MIN_PER_BLOCK_REWARD = 1"

definition SCORUM_BLOCKS_PER_DAY :: int where
  "SCORUM_BLOCKS_PER_DAY = 24 * 60 * 60 div int SCORUM_BLOCK_INTERVAL"

definition SCORUM_HARDFORK_0_2 :: nat where
  "SCORUM_HARDFORK_0_2 = 2"

section \<open>The original reward fund\<close>

definition fund_calculate_per_block :: "ext_lib \<Rightarrow> nat \<Rightarrow> nat \<Rightarrow> asset \<Rightarrow> asset res" where
  "fund_calculate_per_block F start_date end_date bal =
     bindE (fc_assert (start_date < end_date) ''Start time must be less end time'') (\<lambda>_.
     let delta_in_sec = int end_date - int start_date in
     bindE (asset_mul F bal (int SCORUM_BLOCK_INTERVAL)) (\<lambda>per_block.
     bindE (asset_div F per_block delta_in_sec) (\<lambda>per_block.
     Inr (per_block\<lparr>amount := max (amount per_block) 1\<rparr>))))"

definition fund_create_budget :: "ext_lib \<Rightarrow> asset \<Rightarrow> nat \<Rightarrow> nat \<Rightarrow> database \<Rightarrow> database res" where
  "fund_create_budget F bal start end_time db =
     bindE (fc_assert (symbol bal = SP_SYMBOL) ''Invalid asset type (symbol).'') (\<lambda>_.
     bindE (fc_assert (start < end_time) ''Invalid dates.'') (\<lambda>_.
     bindE (fund_calculate_per_block F start end_time bal) (\<lambda>per_block.
     Inr (db\<lparr>fund_budget := Some \<lparr>fb_created = head_block_time db, fb_start = start, fb_deadline = end_time,
       fb_balance = bal, fb_per_block = per_block\<rparr>\<rparr>))))"

definition fund_allocate_cash :: "ext_lib \<Rightarrow> fund_budget_object \<Rightarrow> database \<Rightarrow> (asset \<times> database) res" where
  "fund_allocate_cash F budget db =
     bindE (asset_min (fb_balance budget) (fb_per_block budget)) (\<lambda>allocated.
     bindE (asset_sub F (fb_balance budget) allocated) (\<lambda>b.
     Inr (allocated, db\<lparr>fund_budget := (if amount b \<le> 0 then None else Some (budget\<lparr>fb_balance := b\<rparr>))\<rparr>)))"

section \<open>The reward balancer\<close>

definition increase_ballance :: "ext_lib \<Rightarrow> asset \<Rightarrow> reward_balancer_object \<Rightarrow> reward_balancer_object res" where
  "increase_ballance F delta pool = bindE (asset_add F (rb_balance pool) delta) (\<lambda>b. Inr (pool\<lparr>rb_balance := b\<rparr>))"

text \<open>The first half of \<^verbatim>\<open>take_block_reward\<close>: the reward per block follows the days the balance lasts for.\<close>

definition adjust_block_reward :: "ext_lib \<Rightarrow> config \<Rightarrow> asset \<Rightarrow> reward_balancer_object \<Rightarrow> reward_balancer_object res" where
  "adjust_block_reward F cfg current_per_day_reward pool =
     bindE (make_fraction SCORUM_ADJUST_REWARD_PERCENT SCORUM_100_PERCENT) (\<lambda>f.
     bindE (asset_mul_fraction F (rb_current_per_block_reward pool) f) (\<lambda>delta.
     bindE (mk_asset SCORUM_MIN_PER_BLOCK_REWARD (symbol current_per_day_reward)) (\<lambda>least_reward.
     bindE (asset_max least_reward delta) (\<lambda>delta.
     bindE (asset_mul F current_per_day_reward (int (reward_increase_threshold_in_days cfg))) (\<lambda>high.
     bindE (asset_gt (rb_balance pool) high) (\<lambda>above.
     if above then bindE (asset_add F (rb_current_per_block_reward pool) delta) (\<lambda>c. Inr (pool\<lparr>rb_current_per_block_reward := c\<rparr>))
     else
       bindE (asset_mul F current_per_day_reward (int (guaranted_reward_supply_period_in_days cfg))) (\<lambda>low.
       bindE (asset_lt (rb_balance pool) low) (\<lambda>below.
       if below then
         bindE (asset_sub F (rb_current_per_block_reward pool) delta) (\<lambda>c.
         bindE (asset_max least_reward c) (\<lambda>c. Inr (pool\<lparr>rb_current_per_block_reward := c\<rparr>)))
       else Inr pool))))))))"

definition take_block_reward :: "ext_lib \<Rightarrow> config \<Rightarrow> reward_balancer_object \<Rightarrow> (asset \<times> reward_balancer_object) res" where
  "take_block_reward F cfg pool =
     bindE (asset_mul F (rb_current_per_block_reward pool) SCORUM_BLOCKS_PER_DAY) (\<lambda>current_per_day_reward.
     bindE (mk_asset 0 (symbol current_per_day_reward)) (\<lambda>real_per_block_reward.
     bindE (adjust_block_reward F cfg current_per_day_reward pool) (\<lambda>pool.
     bindE (asset_ge (rb_balance pool) (rb_current_per_block_reward pool)) (\<lambda>enough.
     if enough then
       bindE (asset_sub F (rb_balance pool) (rb_current_per_block_reward pool)) (\<lambda>b.
       Inr (rb_current_per_block_reward pool, pool\<lparr>rb_balance := b\<rparr>))
     else if amount (rb_balance pool) > 0 then
       Inr (rb_balance pool, pool\<lparr>rb_balance := (rb_balance pool)\<lparr>amount := 0\<rparr>\<rparr>)
     else Inr (real_per_block_reward, pool)))))"

section \<open>Migration of the witness rewards\<close>

definition old_reward_alg_switch_reward_block_num :: nat where
  "old_reward_alg_switch_reward_block_num = 24"

definition new_reward_to_migrate :: int where
  "new_reward_to_migrate = 22831050"

definition old_reward_to_migrate :: int where
  "old_reward_to_migrate = 21689497"

definition migrate_deferred_payment :: int where
  "migrate_deferred_payment = new_reward_to_migrate - old_reward_to_migrate"

definition adjust_witness_reward :: "ext_lib \<Rightarrow> config \<Rightarrow> asset \<Rightarrow> database \<Rightarrow> (asset \<times> database) res" where
  "adjust_witness_reward F cfg witness_reward db =
     (if head_block_time db > witness_reward_migration_date cfg then Inr (witness_reward, db)
      else if symbol witness_reward = SP_SYMBOL \<and> dgp_head_block_number (dgp db) > old_reward_alg_switch_reward_block_num
              \<and> amount witness_reward = new_reward_to_migrate then
        bindE (safe_sub F (amount witness_reward) migrate_deferred_payment) (\<lambda>r.
        (case witness_reward_migration db of
           None \<Rightarrow> Inl Out_of_range
         | Some b \<Rightarrow> bindE (safe_add F b migrate_deferred_payment) (\<lambda>b.
             Inr (witness_reward\<lparr>amount := r\<rparr>, db\<lparr>witness_reward_migration := Some b\<rparr>))))
      else Inr (witness_reward, db))"

text \<open>
  The map of the recipients is a list in the order of their names; the order and the lookup of a
  block in the block log are parameters.
\<close>

fun add_recipient :: "ext_lib \<Rightarrow> (account_name \<Rightarrow> account_name \<Rightarrow> bool) \<Rightarrow> account_name \<Rightarrow> int \<Rightarrow> (account_name \<times> int) list \<Rightarrow> (account_name \<times> int) list res" where
  "add_recipient F before w payment [] = Inr [(w, payment)]"
| "add_recipient F before w payment ((v, x) # rs) =
     (if v = w then bindE (safe_add F x payment) (\<lambda>x. Inr ((v, x) # rs))
      else if before w v then Inr ((w, payment) # (v, x) # rs)
      else bindE (add_recipient F before w payment rs) (\<lambda>rs. Inr ((v, x) # rs)))"

fun migration_loop ::
  "ext_lib \<Rightarrow> (account_name \<Rightarrow> account_name \<Rightarrow> bool) \<Rightarrow> (nat \<Rightarrow> account_name option) \<Rightarrow> nat \<Rightarrow> int \<Rightarrow> (account_name \<times> int) list
   \<Rightarrow> (int \<times> (account_name \<times> int) list) res"
where
  "migration_loop F before witness_of_block 0 total_payment rewards = Inr (total_payment, rewards)"
| "migration_loop F before witness_of_block (Suc n) total_payment rewards =
     (if Suc n > old_reward_alg_switch_reward_block_num \<and> total_payment > 0 then
        (case witness_of_block (Suc n) of
           None \<Rightarrow> migration_loop F before witness_of_block n total_payment rewards
         | Some w \<Rightarrow>
             let payment = min migrate_deferred_payment total_payment in
             bindE (safe_sub F total_payment payment) (\<lambda>total_payment.
             bindE (add_recipient F before w payment rewards) (\<lambda>rewards.
             migration_loop F before witness_of_block n total_payment rewards)))
      else Inr (total_payment, rewards))"

definition charge_witness_reward :: "ext_lib \<Rightarrow> account_name \<times> int \<Rightarrow> database \<Rightarrow> database res" where
  "charge_witness_reward F r db = bindE (get_account (fst r) db) (\<lambda>k. create_scorumpower F k (SCR (snd r)) db)"

definition process_witness_reward_in_sp_migration ::
  "ext_lib \<Rightarrow> config \<Rightarrow> (account_name \<Rightarrow> account_name \<Rightarrow> bool) \<Rightarrow> (nat \<Rightarrow> account_name option) \<Rightarrow> database \<Rightarrow> database res"
where
  "process_witness_reward_in_sp_migration F cfg before witness_of_block db =
     (if head_block_time db < witness_reward_migration_date cfg then Inr db
      else case witness_reward_migration db of
        None \<Rightarrow> Inr db
      | Some total_payment \<Rightarrow>
          bindE (migration_loop F before witness_of_block (dgp_head_block_number (dgp db)) total_payment []) (\<lambda>(total_payment, rewards).
          bindE (foldE (charge_witness_reward F) rewards db) (\<lambda>db.
          Inr (db\<lparr>witness_reward_migration := (if total_payment = 0 then None else Some total_payment)\<rparr>))))"

section \<open>Paying\<close>

definition pay_account_reward :: "ext_lib \<Rightarrow> nat \<Rightarrow> asset \<Rightarrow> database \<Rightarrow> database res" where
  "pay_account_reward F k reward db =
     (if amount reward \<le> 0 then Inr db
      else if symbol reward = SCORUM_SYMBOL then increase_balance F k reward db
      else create_scorumpower F k reward db)"

definition pay_account_pending_reward :: "ext_lib \<Rightarrow> nat \<Rightarrow> asset \<Rightarrow> database \<Rightarrow> database res" where
  "pay_account_pending_reward F k reward db =
     (if amount reward \<le> 0 then Inr db
      else if symbol reward = SCORUM_SYMBOL then increase_pending_balance F k reward db
      else increase_pending_scorumpower F k reward db)"

definition pay_witness_reward :: "ext_lib \<Rightarrow> nat \<Rightarrow> asset \<Rightarrow> database \<Rightarrow> database res" where
  "pay_witness_reward F witness reward db =
     bindE (update_dgp (\<lambda>p.
              if symbol reward = SCORUM_SYMBOL then
                bindE (asset_add F (dgp_total_witness_reward_scr p) reward) (\<lambda>r. Inr (p\<lparr>dgp_total_witness_reward_scr := r\<rparr>))
              else bindE (asset_add F (dgp_total_witness_reward_sp p) reward) (\<lambda>r. Inr (p\<lparr>dgp_total_witness_reward_sp := r\<rparr>))) db) (\<lambda>db.
     pay_account_reward F witness reward db)"

definition pay_content_reward :: "ext_lib \<Rightarrow> asset \<Rightarrow> database \<Rightarrow> database res" where
  "pay_content_reward F reward db =
     (if amount reward \<le> 0 then Inr db
      else if symbol reward = SCORUM_SYMBOL then
        bindE (asset_add F (f_activity_reward_balance (fund_scr db)) reward) (\<lambda>b.
        Inr (db\<lparr>fund_scr := (fund_scr db)\<lparr>f_activity_reward_balance := b\<rparr>\<rparr>))
      else
        bindE (asset_add F (f_activity_reward_balance (fund_sp db)) reward) (\<lambda>b.
        Inr (db\<lparr>fund_sp := (fund_sp db)\<lparr>f_activity_reward_balance := b\<rparr>\<rparr>)))"

definition pay_activity_reward :: "ext_lib \<Rightarrow> asset \<Rightarrow> database \<Rightarrow> database res" where
  "pay_activity_reward F reward db =
     (if amount reward \<le> 0 then Inr db
      else if symbol reward = SCORUM_SYMBOL then
        bindE (increase_ballance F reward (voters_reward_scr db)) (\<lambda>p. Inr (db\<lparr>voters_reward_scr := p\<rparr>))
      else bindE (increase_ballance F reward (voters_reward_sp db)) (\<lambda>p. Inr (db\<lparr>voters_reward_sp := p\<rparr>)))"

definition get_activity_reward :: "ext_lib \<Rightarrow> config \<Rightarrow> asset \<Rightarrow> database \<Rightarrow> (asset \<times> database) res" where
  "get_activity_reward F cfg reward db =
     (if symbol reward = SCORUM_SYMBOL then
        bindE (take_block_reward F cfg (voters_reward_scr db)) (\<lambda>(r, p).
        bindE (asset_add F reward r) (\<lambda>a. Inr (a, db\<lparr>voters_reward_scr := p\<rparr>)))
      else
        bindE (take_block_reward F cfg (voters_reward_sp db)) (\<lambda>(r, p).
        bindE (asset_add F reward r) (\<lambda>a. Inr (a, db\<lparr>voters_reward_sp := p\<rparr>))))"

section \<open>Distribution\<close>

definition distribute_witness_reward :: "ext_lib \<Rightarrow> asset \<Rightarrow> database \<Rightarrow> database res" where
  "distribute_witness_reward F witness_reward db =
     bindE (get_witness (dgp_current_witness (dgp db)) db) (\<lambda>w.
     bindE (ix_get (witnesses db) w) (\<lambda>cwit.
     bindE (get_account (w_owner cwit) db) (\<lambda>witness.
     pay_witness_reward F witness witness_reward db)))"

text \<open>
  The index by the time at which the voting power is restored, from the present on; accounts with
  the same time are taken by id.
\<close>

definition get_active_sp_holders :: "database \<Rightarrow> nat list" where
  "get_active_sp_holders db =
     map fst (sort_key (\<lambda>r. a_voting_power_restoring_time (snd r))
       (filter (\<lambda>r. head_block_time db < a_voting_power_restoring_time (snd r)) (indices (accounts db))))"

definition add_competitive_sp :: "ext_lib \<Rightarrow> database \<Rightarrow> nat \<Rightarrow> asset \<Rightarrow> asset res" where
  "add_competitive_sp F db k acc = bindE (account_at k db) (\<lambda>a. asset_add F acc (a_vote_reward_competitive_sp a))"

definition reward_sp_holder ::
  "ext_lib \<Rightarrow> asset \<Rightarrow> asset \<Rightarrow> nat \<Rightarrow> asset \<times> database \<Rightarrow> (asset \<times> database) res"
where
  "reward_sp_holder F total_reward total_sp k st =
     (case st of (distributed_reward, db) \<Rightarrow>
     bindE (account_at k db) (\<lambda>account.
     bindE (make_fraction (amount (a_vote_reward_competitive_sp account)) (amount total_sp)) (\<lambda>f.
     bindE (asset_mul_fraction F total_reward f) (\<lambda>account_reward.
     bindE (if has_hardfork SCORUM_HARDFORK_0_2 db then pay_account_pending_reward F k account_reward db
            else pay_account_reward F k account_reward db) (\<lambda>db.
     bindE (asset_add F distributed_reward account_reward) (\<lambda>distributed_reward.
     Inr (distributed_reward, db)))))))"

definition distribute_active_sp_holders_reward :: "ext_lib \<Rightarrow> config \<Rightarrow> asset \<Rightarrow> database \<Rightarrow> database res" where
  "distribute_active_sp_holders_reward F cfg reward db =
     bindE (get_activity_reward F cfg reward db) (\<lambda>(total_reward, db).
     bindE (mk_asset 0 (symbol reward)) (\<lambda>distributed_reward.
     let holders = get_active_sp_holders db in
     bindE (if holders \<noteq> [] then
              bindE (foldE (add_competitive_sp F db) holders (SP 0)) (\<lambda>total_sp.
              if amount total_sp > 0 then foldE (reward_sp_holder F total_reward total_sp) holders (distributed_reward, db)
              else Inr (distributed_reward, db))
            else Inr (distributed_reward, db)) (\<lambda>(distributed_reward, db).
     bindE (asset_sub F total_reward distributed_reward) (\<lambda>rest.
     pay_activity_reward F rest db))))"

definition distribute_reward :: "ext_lib \<Rightarrow> config \<Rightarrow> asset \<Rightarrow> database \<Rightarrow> database res" where
  "distribute_reward F cfg users_reward db =
     bindE (make_fraction SCORUM_WITNESS_PER_BLOCK_REWARD_PERCENT SCORUM_100_PERCENT) (\<lambda>f.
     bindE (asset_mul_fraction F users_reward f) (\<lambda>witness_reward.
     bindE (make_fraction SCORUM_ACTIVE_SP_HOLDERS_PER_BLOCK_REWARD_PERCENT SCORUM_100_PERCENT) (\<lambda>f.
     bindE (asset_mul_fraction F users_reward f) (\<lambda>active_sp_holder_reward.
     bindE (asset_sub F users_reward witness_reward) (\<lambda>rest.
     bindE (asset_sub F rest active_sp_holder_reward) (\<lambda>content_reward.
     bindE (adjust_witness_reward F cfg witness_reward db) (\<lambda>(witness_reward, db).
     bindE (fc_assert (amount content_reward \<ge> 0) ''content_reward must not be less zero'') (\<lambda>_.
     bindE (distribute_witness_reward F witness_reward db) (\<lambda>db.
     bindE (distribute_active_sp_holders_reward F cfg active_sp_holder_reward db) (\<lambda>db.
     pay_content_reward F content_reward db))))))))))"

section \<open>The block task\<close>

definition process_adv_pending_payouts :: "ext_lib \<Rightarrow> config \<Rightarrow> budget_type \<Rightarrow> database \<Rightarrow> (asset \<times> database) res" where
  "process_adv_pending_payouts F cfg t db = perform_pending_payouts F cfg t (get_pending_budgets t db) db"

definition remove_budget :: "budget_type \<Rightarrow> nat \<Rightarrow> database \<Rightarrow> database res" where
  "remove_budget t k db = bindE (ix_remove k (budgets_of t db)) (\<lambda>ix. Inr (set_budgets t ix db))"

definition close_empty_budgets :: "budget_type \<Rightarrow> database \<Rightarrow> database res" where
  "close_empty_budgets t db = foldE (remove_budget t) (get_empty_budgets t db) db"

definition run_auction_round :: "ext_lib \<Rightarrow> config \<Rightarrow> database \<Rightarrow> (asset \<times> database) res" where
  "run_auction_round F cfg db =
     bindE (run_round F db) (\<lambda>db.
     bindE (process_adv_pending_payouts F cfg Budget_post db) (\<lambda>(post_budgets_reward, db).
     bindE (process_adv_pending_payouts F cfg Budget_banner db) (\<lambda>(banner_budgets_reward, db).
     bindE (asset_add F post_budgets_reward banner_budgets_reward) (\<lambda>adv_budgets_reward.
     bindE (close_empty_budgets Budget_post db) (\<lambda>db.
     bindE (close_empty_budgets Budget_banner db) (\<lambda>db.
     Inr (adv_budgets_reward, db)))))))"

definition apply_mainnet_schedule_crutches :: "nat \<Rightarrow> bool" where
  "apply_mainnet_schedule_crutches block_num \<longleftrightarrow> block_num = 1650380 \<or> block_num = 1808664"

definition process_funds :: "ext_lib \<Rightarrow> config \<Rightarrow> nat \<Rightarrow> database \<Rightarrow> database res" where
  "process_funds F cfg block_num db =
     (if apply_mainnet_schedule_crutches block_num then Inr db
      else
        bindE (case fund_budget db of
                 None \<Rightarrow> Inr (SP 0, db)
               | Some b \<Rightarrow> bindE (fund_allocate_cash F b db) (\<lambda>(cash, db).
                   bindE (asset_add F (SP 0) cash) (\<lambda>r. Inr (r, db)))) (\<lambda>(original_fund_reward, db).
        bindE (distribute_reward F cfg original_fund_reward db) (\<lambda>db.
        bindE (run_auction_round F cfg db) (\<lambda>(adv_budgets_reward, db).
        bindE (make_fraction SCORUM_DEV_TEAM_PER_BLOCK_REWARD_PERCENT SCORUM_100_PERCENT) (\<lambda>f.
        bindE (asset_mul_fraction F adv_budgets_reward f) (\<lambda>dev_team_reward.
        bindE (asset_add F (dc_scr_balance (dev_pool db)) dev_team_reward) (\<lambda>scr_balance.
        let db = db\<lparr>dev_pool := (dev_pool db)\<lparr>dc_scr_balance := scr_balance\<rparr>\<rparr> in
        bindE (asset_sub F adv_budgets_reward dev_team_reward) (\<lambda>users_part.
        bindE (increase_ballance F users_part (content_reward_scr db)) (\<lambda>pool.
        bindE (take_block_reward F cfg pool) (\<lambda>(users_reward, pool).
        distribute_reward F cfg users_reward (db\<lparr>content_reward_scr := pool\<rparr>)))))))))))"

end
