(* ===== verification/Rewards_Math.thy ===== *)
theory Rewards_Math
  imports Chain_Config
begin

text \<open>
  The arithmetic of content rewards: \<^verbatim>\<open>libraries/rewards_math/curve.cpp\<close> and \<^verbatim>\<open>formulas.cpp\<close>.
  Shares are 64 bit integers, claims and the square root work on 128 bit words, the payout on 256
  bit words. Periods are counted in seconds.

  The lemmas show how close the approximate square root is to the exact one and that it is
  monotone, so that the weights of the votes on a post, computed as differences in unsigned
  arithmetic, add up without wrapping; and that the payouts of a round never exceed the fund.
\<close>

section \<open>Curves\<close>

definition find_msb :: "ext_lib \<Rightarrow> u128 \<Rightarrow> nat" where
  "find_msb F u =
     (let lo = (ucast u :: u64); hi = (ucast (drop_bit 64 u) :: u64);
          x = (if lo \<noteq> 0 then lo else 1);
          places = (if hi \<noteq> 0 then 64 else 0);
          x = (if hi \<noteq> 0 then hi else x)
      in find_msb64 F x + places)"

definition approx_sqrt :: "ext_lib \<Rightarrow> u128 \<Rightarrow> u64" where
  "approx_sqrt F x =
     (if x = 0 then 0
      else
        let msb_x = find_msb F x;
            msb_z = msb_x div 2;
            msb_x_bit = u128_shl F 1 msb_x;
            msb_z_bit = (push_bit msb_z 1 :: u64);
            mantissa_mask = u128_sub F msb_x_bit 1;
            mantissa_x = u128_and F x mantissa_mask;
            mantissa_z_hi = (if odd msb_x then msb_z_bit else 0);
            mantissa_z_lo = (ucast (u128_shr F mantissa_x (msb_x - msb_z)) :: u64);
            mantissa_z = drop_bit 1 (or mantissa_z_hi mantissa_z_lo)
        in or msb_z_bit mantissa_z)"

definition evaluate_reward_curve :: "ext_lib \<Rightarrow> u128 \<Rightarrow> curve_id \<Rightarrow> u128" where
  "evaluate_reward_curve F rshares curve =
     (case curve of
        Quadratic \<Rightarrow> u128_mul F rshares rshares
      | Linear \<Rightarrow> rshares
      | Square_root \<Rightarrow> ucast (approx_sqrt F rshares)
      | Power1dot5 \<Rightarrow> ucast (approx_sqrt F (u128_mul F (u128_mul F rshares rshares) rshares)))"

section \<open>Formulas\<close>

definition to256 :: "u128 \<Rightarrow> u256" where
  "to256 t = push_bit 64 (ucast (drop_bit 64 t)) + ucast (take_bit 64 t)"

definition calculate_decreasing_total_claims :: "ext_lib \<Rightarrow> u128 \<Rightarrow> nat \<Rightarrow> nat \<Rightarrow> int \<Rightarrow> u128 res" where
  "calculate_decreasing_total_claims F recent_claims now last_payout_check decay_rate =
     bindE (fc_assert (now \<ge> last_payout_check) ''now >= last_payout_check'') (\<lambda>_.
     bindE (fc_assert (decay_rate > 0) ''decay_rate.to_seconds() > 0'') (\<lambda>_.
     let delta = min (time_diff F now last_payout_check) decay_rate in
     bindE (u128_div F (u128_mul F recent_claims (word_of_int delta)) (word_of_int decay_rate)) (\<lambda>x.
     Inr (u128_sub F recent_claims x))))"

definition calculate_total_claims :: "ext_lib \<Rightarrow> u128 \<Rightarrow> curve_id \<Rightarrow> int list \<Rightarrow> u128" where
  "calculate_total_claims F recent_claims curve vrshares =
     fold (\<lambda>rshares total_claims. u128_add F total_claims (evaluate_reward_curve F (word_of_int rshares) curve)) vrshares recent_claims"

definition calculate_payout :: "ext_lib \<Rightarrow> int \<Rightarrow> u128 \<Rightarrow> int \<Rightarrow> curve_id \<Rightarrow> int \<Rightarrow> int \<Rightarrow> int res" where
  "calculate_payout F rshares total_claims reward_fund curve max_share min_comment_payout_share =
     bindE (fc_assert (rshares > 0) ''rshares > 0'') (\<lambda>_.
     bindE (fc_assert (total_claims > 0) ''total_claims > 0'') (\<lambda>_.
     let rf = (word_of_int reward_fund :: u256);
         claim = to256 (evaluate_reward_curve F (word_of_int rshares) curve) in
     bindE (u256_div F (u256_mul F rf claim) (to256 total_claims)) (\<lambda>payout_u256.
     bindE (fc_assert (payout_u256 \<le> word_of_int (2 ^ 63 - 1)) ''payout_u256 <= u256(int64_t::max())'') (\<lambda>_.
     let payout = uint payout_u256;
         payout = (if payout < min_comment_payout_share then 0 else payout) in
     Inr (min payout max_share)))))"

definition predict_payout :: "ext_lib \<Rightarrow> u128 \<Rightarrow> int \<Rightarrow> int \<Rightarrow> curve_id \<Rightarrow> int \<Rightarrow> int \<Rightarrow> int \<Rightarrow> int res" where
  "predict_payout F recent_claims reward_fund rshares curve max_payout decay_rate min_comment_payout_share =
     bindE (calculate_decreasing_total_claims F recent_claims 0 0 decay_rate) (\<lambda>total_claims.
     calculate_payout F rshares (calculate_total_claims F total_claims curve [rshares]) reward_fund curve max_payout
       min_comment_payout_share)"

text \<open>A 128 bit result as a share: \<^verbatim>\<open>to_uint64\<close> throws above 64 bits, the conversion to \<^verbatim>\<open>share_type\<close> is a cast.\<close>

definition to_share :: "ext_lib \<Rightarrow> u128 \<Rightarrow> int res" where
  "to_share F x = bindE (u128_to_uint64 F x) (\<lambda>y. Inr (to_i64 y))"

definition calc_curations_payout :: "ext_lib \<Rightarrow> int \<Rightarrow> int \<Rightarrow> int res" where
  "calc_curations_payout F payout percent =
     bindE (u128_div F (u128_mul F (word_of_int payout) (word_of_int percent)) (word_of_int SCORUM_100_PERCENT)) (to_share F)"

definition calculate_curation_payout :: "ext_lib \<Rightarrow> int \<Rightarrow> int \<Rightarrow> int \<Rightarrow> int res" where
  "calculate_curation_payout F curations_payout total_weight weight =
     bindE (fc_assert (total_weight > 0) ''total_weight > 0u'') (\<lambda>_.
     bindE (u128_div F (u128_mul F (word_of_int weight) (word_of_int curations_payout)) (word_of_int total_weight)) (to_share F))"

text \<open>The difference of two unsigned 64 bit values.\<close>

definition calculate_max_vote_weight :: "ext_lib \<Rightarrow> int \<Rightarrow> int \<Rightarrow> curve_id \<Rightarrow> int res" where
  "calculate_max_vote_weight F positive_rshares recent_positive_rshares curve =
     bindE (fc_assert (positive_rshares > recent_positive_rshares) ''positive_rshares > recent_positive_rshares'') (\<lambda>_.
     bindE (u128_to_uint64 F (evaluate_reward_curve F (word_of_int positive_rshares) curve)) (\<lambda>new_weight.
     bindE (u128_to_uint64 F (evaluate_reward_curve F (word_of_int recent_positive_rshares) curve)) (\<lambda>old_weight.
     Inr ((new_weight - old_weight) mod 2 ^ 64))))"

definition calculate_vote_weight :: "ext_lib \<Rightarrow> int \<Rightarrow> nat \<Rightarrow> nat \<Rightarrow> int \<Rightarrow> int res" where
  "calculate_vote_weight F max_vote_weight now when_comment_created reverse_auction_window =
     bindE (fc_assert (now \<ge> when_comment_created) ''now >= when_comment_created'') (\<lambda>_.
     let window = reverse_auction_window mod 2 ^ 32 in
     bindE (fc_assert (window > 0) ''reverse_auction_window_seconds_ > 0'') (\<lambda>_.
     let delta_t = min (time_diff F now when_comment_created) window in
     bindE (u128_div F (u128_mul F (word_of_int max_vote_weight) (word_of_int delta_t)) (word_of_int window)) (u128_to_uint64 F)))"

definition calculate_restoring_power :: "ext_lib \<Rightarrow> int \<Rightarrow> nat \<Rightarrow> nat \<Rightarrow> int \<Rightarrow> int res" where
  "calculate_restoring_power F voting_power now last_voted vote_regeneration =
     bindE (fc_assert (now \<ge> last_voted) ''now >= last_voted'') (\<lambda>_.
     let regeneration = vote_regeneration mod 2 ^ 32 in
     bindE (fc_assert (regeneration > 0) ''vote_regeneration_seconds_ > 0'') (\<lambda>_.
     let elapsed = time_diff F now last_voted;
         regenerated = to_i64 (cdiv (to_i64 (SCORUM_100_PERCENT * elapsed)) regeneration) in
     Inr (min (voting_power + regenerated) SCORUM_100_PERCENT mod 2 ^ 16)))"

definition calculate_used_power :: "int \<Rightarrow> int \<Rightarrow> int \<Rightarrow> int res" where
  "calculate_used_power voting_power vote_weight decay_percent =
     bindE (fc_assert (decay_percent > 0 \<and> decay_percent < 100) ''decay_percent > 0 && decay_percent < 100'') (\<lambda>_.
     let used = cdiv (voting_power * \<bar>vote_weight\<bar>) SCORUM_100_PERCENT;
         used = cdiv (used * decay_percent) 100 in
     Inr (used mod 2 ^ 16))"

definition calculate_abs_reward_shares :: "ext_lib \<Rightarrow> int \<Rightarrow> int \<Rightarrow> int res" where
  "calculate_abs_reward_shares F used_voting_power effective_balance_shares =
     bindE (u128_div F (u128_mul F (word_of_int effective_balance_shares) (word_of_int used_voting_power))
              (word_of_int SCORUM_100_PERCENT)) (to_share F)"


section \<open>The approximate square root\<close>

lemma unat_lo: "unat (ucast (x :: u128) :: u64) = unat x mod 2 ^ 64"
  by (simp add: unsigned_ucast_eq take_bit_eq_mod)

lemma unat_u128: "unat (x :: u128) < 2 ^ 128"
  using unsigned_less [of x, where ?'a = nat] by simp

lemma unat_hi: "unat (ucast (drop_bit 64 x) :: u64) = unat (x :: u128) div 2 ^ 64"
proof -
  have "unat x div 2 ^ 64 < 2 ^ 64" using unat_u128 [of x] by (simp add: div_less_iff_less_mult)
  then show ?thesis unfolding unsigned_ucast_eq unat_drop_bit_eq by (simp add: drop_bit_eq_div take_bit_eq_mod)
qed

lemma find_msb_bounds:
  assumes F: "ext_ok F" and x: "x \<noteq> 0"
  shows "2 ^ find_msb F x \<le> unat x" and "unat x < 2 ^ (find_msb F x + 1)"
proof -
  let ?lo = "ucast x :: u64" and ?hi = "ucast (drop_bit 64 x) :: u64"
  have X: "unat x = unat ?hi * 2 ^ 64 + unat ?lo" and l: "unat ?lo < 2 ^ 64" 
    unfolding unat_hi unat_lo [of x] by simp_all
  have "2 ^ find_msb F x \<le> unat x \<and> unat x < 2 ^ (find_msb F x + 1)"
  proof (cases "?hi = 0")
    case True
    then have "?lo \<noteq> 0" using X x by (auto simp: unat_eq_0)
    then show ?thesis
      using find_msb64_bounds [OF F, of ?lo] True X by (simp_all add: find_msb_def Let_def)
  next
    case False
    then have m: "find_msb F x = find_msb64 F ?hi + 64" by (simp add: find_msb_def Let_def)
    note b = find_msb64_bounds [OF F False]
    from b(1) have "2 ^ find_msb64 F ?hi * 2 ^ 64 \<le> unat ?hi * (2::nat) ^ 64" by (rule mult_right_mono) simp
    then have "2 ^ find_msb F x \<le> unat x" using X by (simp add: m power_add)
    moreover have "(unat ?hi + 1) * 2 ^ 64 \<le> 2 ^ (find_msb64 F ?hi + 1) * (2::nat) ^ 64" using b(2) by (intro mult_right_mono) simp_all
    moreover have "unat x < (unat ?hi + 1) * 2 ^ 64" using X l by simp
    ultimately show ?thesis by (simp add: m power_add)
  qed
  then show "2 ^ find_msb F x \<le> unat x" "unat x < 2 ^ (find_msb F x + 1)" by simp_all
qed

lemma msb_unique:
  assumes "(2::nat) ^ a \<le> x" "x < 2 ^ (a + 1)" "2 ^ b \<le> y" "y < 2 ^ (b + 1)" and "x \<le> y"
  shows "a \<le> b"
proof (rule ccontr)
  assume "\<not> a \<le> b"
  then have "(2::nat) ^ (b + 1) \<le> 2 ^ a" by (intro power_increasing) simp_all
  with assms show False by simp
qed

text \<open>Setting a bit above a number adds it.\<close>

lemma or_high_bit: "l < 2 ^ e \<Longrightarrow> or (2 ^ e) l = 2 ^ e + (l :: nat)"
proof -
  assume "l < 2 ^ e"
  then have "take_bit e l = l" by (simp add: take_bit_eq_mod)
  then have "\<not> bit l e" by (metis bit_take_bit_iff less_irrefl)
  then have "set_bit e l = l + 2 ^ e" by (simp add: set_bit_eq)
  then show ?thesis by (simp add: set_bit_eq_or push_bit_eq_mult or.commute)
qed

text \<open>The value of the root by the exponent and the mantissa.\<close>

definition sqrt_value :: "nat \<Rightarrow> nat \<Rightarrow> nat" where
  "sqrt_value m x = (let e = m div 2 in 2 ^ e + ((if odd m then 2 ^ e else 0) + (x - 2 ^ m) div 2 ^ (m - e)) div 2)"


lemma approx_sqrt_value:
  assumes F: "ext_ok F" and x: "x \<noteq> 0"
  shows "unat (approx_sqrt F x) = sqrt_value (find_msb F x) (unat x)"
proof -
  define m e X where "m = find_msb F x" and "e = m div 2" and "X = unat x"
  have b: "2 ^ m \<le> X" "X < 2 ^ (m + 1)" using find_msb_bounds [OF F x] by (simp_all add: m_def X_def)
  have m: "m < 128"
  proof (rule ccontr)
    assume "\<not> m < 128"
    then have "(2::nat) ^ 128 \<le> 2 ^ m" by (intro power_increasing) simp_all
    with b(1) unat_u128 [of x] show False by (simp add: X_def)
  qed
  then have e: "e < 64" by (simp add: e_def)
  define l where "l = (X - 2 ^ m) div 2 ^ (m - e)"
  have X: "X mod 2 ^ m = X - 2 ^ m" using b by (simp add: le_mod_geq)
  have "(2::nat) ^ m = 2 ^ e * 2 ^ (m - e)" by (simp add: e_def flip: power_add)
  then have l: "l < 2 ^ e" unfolding l_def using b by (intro less_mult_imp_div_less) simp
  have l64: "l < 2 ^ 64" using l e power_strict_increasing [of e 64 "2::nat"] by simp
  let ?lo = "ucast (drop_bit (m - e) (and x (push_bit m 1 - 1))) :: u64"
  have "and x (push_bit m 1 - 1) = take_bit m x" by (simp add: take_bit_eq_mask mask_eq_exp_minus_1)
  then have "unat (drop_bit (m - e) (and x (push_bit m 1 - 1))) = drop_bit (m - e) (take_bit m X)"
    by (simp only: unat_drop_bit_eq unsigned_take_bit_eq X_def)
  also have "\<dots> = l" by (simp add: drop_bit_eq_div take_bit_eq_mod X l_def)
  finally have "unat (drop_bit (m - e) (and x (push_bit m 1 - 1))) = l" .
  then have lo: "unat ?lo = l" using l64 by (simp only: unsigned_ucast_eq take_bit_eq_mod) simp
  have bit: "unat (push_bit e 1 :: u64) = 2 ^ e"
    using power_strict_increasing [OF e, of "2::nat"] unfolding unsigned_push_bit_eq by (simp add: push_bit_eq_mult take_bit_eq_mod)
  let ?hi = "if odd m then push_bit e 1 else 0 :: u64"
  have or1: "unat (or ?hi ?lo) = (if odd m then 2 ^ e else 0) + l"
    using or_high_bit [OF l] bit [simplified] by (simp only: unsigned_or_eq lo) simp
  have "unat (or (push_bit e 1) (drop_bit 1 (or ?hi ?lo))) = or (2 ^ e) (((if odd m then 2 ^ e else 0) + l) div 2)"
    by (simp only: unsigned_or_eq bit unat_drop_bit_eq or1 [unfolded unsigned_or_eq]) (simp add: drop_bit_eq_div)
  also have "\<dots> = 2 ^ e + ((if odd m then 2 ^ e else 0) + l) div 2" by (rule or_high_bit) (use l in auto)
  finally have v: "unat (or (push_bit e 1) (drop_bit 1 (or ?hi ?lo))) = 2 ^ e + ((if odd m then 2 ^ e else 0) + l) div 2" .
  have "approx_sqrt F x = or (push_bit e 1) (drop_bit 1 (or ?hi ?lo))"
    unfolding approx_sqrt_def Let_def m_def e_def u128_eqs(1-6) [OF F] using x by (simp only: if_False)
  with v show ?thesis by (simp only: sqrt_value_def Let_def l_def e_def m_def X_def)
qed


text \<open>The mantissa of \<open>x\<close> to the precision of the root: \<open>g\<close> units of \<open>n\<close> or \<open>2 * n\<close> above \<open>n\<^sup>2\<close> or \<open>2 * n\<^sup>2\<close>.\<close>

lemma sqrt_even:
  fixes n g r :: int
  assumes "0 \<le> g" "g < n" "0 \<le> r" "r < n" and x: "x = n * n + g * n + r" and z: "z = n + g div 2"
  shows "x < (z + 1) * (z + 1)" and "8 * (z * z) \<le> 9 * x"
proof -
  have z2: "2 * n + g - 1 \<le> 2 * z" "2 * z \<le> 2 * n + g" using z by auto
  have n: "0 < n" using assms by simp
  have "(2 * n + (g + 1)) * (2 * n + (g + 1)) \<le> (2 * z + 2) * (2 * z + 2)" using z2 n assms(1) by (intro mult_mono) auto
  moreover have "4 * x < (2 * n + (g + 1)) * (2 * n + (g + 1))" using assms by (simp add: x algebra_simps) (smt (verit) mult_nonneg_nonneg)
  ultimately show "x < (z + 1) * (z + 1)" by (simp add: algebra_simps)
  have "(2 * z) * (2 * z) \<le> (2 * n + g) * (2 * n + g)" using z2 n assms(1) z by (intro mult_mono) auto
  moreover have "2 * ((2 * n + g) * (2 * n + g)) \<le> 9 * (n * n + g * n)"
  proof -
    have "0 \<le> (n - g) * (n + 2 * g)" using assms by simp
    then show ?thesis by (simp add: algebra_simps)
  qed
  ultimately show "8 * (z * z) \<le> 9 * x" using assms(3) by (simp add: x algebra_simps)
qed

lemma sqrt_odd:
  fixes n g r :: int
  assumes "0 \<le> g" "g < n" "0 \<le> r" "r < 2 * n" and x: "x = 2 * (n * n) + 2 * (g * n) + r" and z: "z = n + (n + g) div 2"
  shows "x < (z + 1) * (z + 1)" and "8 * (z * z) \<le> 9 * x"
proof -
  have z2: "3 * n + g - 1 \<le> 2 * z" "2 * z \<le> 3 * n + g" using z by auto
  have n: "0 < n" using assms by simp
  have "(3 * n + (g + 1)) * (3 * n + (g + 1)) \<le> (2 * z + 2) * (2 * z + 2)" using z2 n assms(1) by (intro mult_mono) auto
  moreover have "4 * x < (3 * n + (g + 1)) * (3 * n + (g + 1))"
  proof -
    have "0 \<le> (n - (g + 1)) * (n - (g + 1))" by simp
    then show ?thesis using assms(4) by (simp add: x algebra_simps)
  qed
  ultimately show "x < (z + 1) * (z + 1)" by (simp add: algebra_simps)
  have "(2 * z) * (2 * z) \<le> (3 * n + g) * (3 * n + g)" using z2 n assms(1) z by (intro mult_mono) auto
  moreover have "2 * ((3 * n + g) * (3 * n + g)) \<le> 9 * (2 * (n * n) + 2 * (g * n))"
  proof -
    have "0 \<le> g * (3 * n - g)" using assms by simp
    then show ?thesis by (simp add: algebra_simps)
  qed
  ultimately show "8 * (z * z) \<le> 9 * x" using assms(3) by (simp add: x algebra_simps)
qed


lemma sqrt_value_accurate:
  assumes "2 ^ m \<le> x" and "x < 2 ^ (m + 1)"
  shows "x < (sqrt_value m x + 1) * (sqrt_value m x + 1)" and "8 * (sqrt_value m x * sqrt_value m x) \<le> 9 * x"
proof -
  define e where "e = m div 2"
  define n k where "n = (2 :: nat) ^ e" and "k = (2 :: nat) ^ (m - e)"
  define g where "g = (x - 2 ^ m) div k"
  define r where "r = (x - 2 ^ m) mod k"
  have nk: "2 ^ m = n * k" by (simp add: n_def k_def e_def flip: power_add)
  have k: "k = (if odd m then 2 * n else n)" by (auto simp: k_def n_def e_def elim!: oddE evenE)
  have x: "x = n * k + (g * k + r)" using assms(1) nk by (simp add: g_def r_def)
  have r: "r < k" by (simp add: r_def k_def)
  have "g < n" unfolding g_def using assms nk by (intro less_mult_imp_div_less) simp
  define z where "z = sqrt_value m x"
  have z: "z = n + ((if odd m then n else 0) + g) div 2" by (simp add: z_def sqrt_value_def Let_def n_def g_def k_def e_def)
  have "x < (z + 1) * (z + 1) \<and> 8 * (z * z) \<le> 9 * x"
  proof (cases "odd m")
    case True
    have "int x = 2 * (int n * int n) + 2 * (int g * int n) + int r" using x k True by (simp add: algebra_simps)
    moreover have "int z = int n + (int n + int g) div 2" using z True by (simp add: zdiv_int)
    ultimately have "int x < (int z + 1) * (int z + 1)" "8 * (int z * int z) \<le> 9 * int x"
      using sqrt_odd [of "int g" "int n" "int r"] \<open>g < n\<close> r k True by simp_all
    then have "int x < int ((z + 1) * (z + 1)) \<and> int (8 * (z * z)) \<le> int (9 * x)" by (simp add: algebra_simps)
    then show ?thesis by (simp only: of_nat_less_iff of_nat_le_iff)
  next
    case False
    have "int x = int n * int n + int g * int n + int r" using x k False by (simp add: algebra_simps)
    moreover have "int z = int n + int g div 2" using z False by (simp add: zdiv_int)
    ultimately have "int x < (int z + 1) * (int z + 1)" "8 * (int z * int z) \<le> 9 * int x"
      using sqrt_even [of "int g" "int n" "int r"] \<open>g < n\<close> r k False by simp_all
    then have "int x < int ((z + 1) * (z + 1)) \<and> int (8 * (z * z)) \<le> int (9 * x)" by (simp add: algebra_simps)
    then show ?thesis by (simp only: of_nat_less_iff of_nat_le_iff)
  qed
  then show "x < (sqrt_value m x + 1) * (sqrt_value m x + 1)" "8 * (sqrt_value m x * sqrt_value m x) \<le> 9 * x" by (simp_all add: z_def)
qed

lemma mantissa_bound:
  assumes "(2::nat) ^ m \<le> x" and "x < 2 ^ (m + 1)"
  shows "(x - 2 ^ m) div 2 ^ (m - m div 2) < 2 ^ (m div 2)"
proof -
  have p: "(2::nat) ^ m = 2 ^ (m div 2) * 2 ^ (m - m div 2)" by (simp flip: power_add)
  have "x - 2 ^ m < 2 ^ m" using assms by simp
  then have "x - 2 ^ m < 2 ^ (m div 2) * 2 ^ (m - m div 2)" by (simp only: p [symmetric])
  then show ?thesis by (rule less_mult_imp_div_less)
qed

lemma sqrt_value_range: "2 ^ m \<le> x \<Longrightarrow> x < 2 ^ (m + 1) \<Longrightarrow> 2 ^ (m div 2) \<le> sqrt_value m x \<and> sqrt_value m x < 2 ^ (m div 2 + 1)"
  using mantissa_bound [of m x] by (auto simp: sqrt_value_def Let_def div_less_iff_less_mult)

lemma sqrt_value_mono:
  assumes x: "2 ^ a \<le> x" "x < 2 ^ (a + 1)" and y: "2 ^ b \<le> y" "y < 2 ^ (b + 1)" and le: "x \<le> y"
  shows "sqrt_value a x \<le> sqrt_value b y"
proof -
  have ab: "a \<le> b" by (rule msb_unique [OF x y le])
  then have "a = b \<or> a div 2 < b div 2 \<or> a div 2 = b div 2 \<and> even a \<and> odd b" by presburger
  then consider "a = b" | "a div 2 < b div 2" | "a div 2 = b div 2" "even a" "odd b" by blast
  then show ?thesis
  proof cases
    case 1
    then have "(x - 2 ^ a) div 2 ^ (a - a div 2) \<le> (y - 2 ^ a) div 2 ^ (a - a div 2)" using le by (intro div_le_mono) simp
    then show ?thesis using 1 by (auto simp: sqrt_value_def Let_def intro!: div_le_mono)
  next
    case 2
    have "sqrt_value a x < 2 ^ (a div 2 + 1)" "2 ^ (b div 2) \<le> sqrt_value b y" using sqrt_value_range x y by blast+
    moreover have "(2::nat) ^ (a div 2 + 1) \<le> 2 ^ (b div 2)" using 2 by (intro power_increasing) simp_all
    ultimately show ?thesis by simp
  next
    case 3
    have "(x - 2 ^ a) div 2 ^ (a - a div 2) < 2 ^ (a div 2)" by (rule mantissa_bound [OF x])
    then have "sqrt_value a x \<le> 2 ^ (a div 2) + 2 ^ (a div 2) div 2"
      using 3 by (auto simp: sqrt_value_def Let_def intro!: div_le_mono)
    also have "\<dots> \<le> sqrt_value b y" using 3 by (auto simp: sqrt_value_def Let_def intro!: div_le_mono)
    finally show ?thesis .
  qed
qed


lemma approx_sqrt_mono:
  assumes F: "ext_ok F" and "x \<le> y"
  shows "approx_sqrt F x \<le> approx_sqrt F y"
proof (cases "x = 0")
  case False
  then have y: "y \<noteq> 0" using assms(2) by auto
  have "unat x \<le> unat y" using assms(2) by (simp add: word_le_nat_alt)
  with sqrt_value_mono [OF find_msb_bounds [OF F False] find_msb_bounds [OF F y]] show ?thesis
    by (simp add: word_le_nat_alt approx_sqrt_value [OF F False] approx_sqrt_value [OF F y])
qed (simp add: approx_sqrt_def)

text \<open>
  C19: The integer square root of the reward curves is accurate: its result is less than one below
  the exact root and at most about six percent above it, and it never decreases.
\<close>
theorem approx_sqrt_accurate:
  assumes F: "ext_ok F"
  shows "unat x < (unat (approx_sqrt F x) + 1) ^ 2 \<and> 8 * unat (approx_sqrt F x) ^ 2 \<le> 9 * unat x \<and>
    (x \<le> y \<longrightarrow> approx_sqrt F x \<le> approx_sqrt F y)"
proof (cases "x = 0")
  case False
  from sqrt_value_accurate [OF find_msb_bounds [OF F False]] approx_sqrt_mono [OF F] show ?thesis
    by (simp add: approx_sqrt_value [OF F False] power2_eq_square)
qed (simp add: approx_sqrt_def)

theorem approx_sqrt_accurate_witness: "unat (approx_sqrt ext_ref 1000000) < 1061 \<and> 999 < unat (approx_sqrt ext_ref 1000000)"
proof -
  let ?z = "unat (approx_sqrt ext_ref 1000000)"
  have a: "1000000 < (?z + 1) ^ 2" "8 * ?z ^ 2 \<le> 9000000" using approx_sqrt_accurate [OF ext_ok_ref, of 1000000 1000000] by simp_all
  have "?z < 1061"
  proof (rule ccontr)
    assume "\<not> ?z < 1061"
    then have "1061 ^ 2 \<le> ?z ^ 2" by (intro power_mono) simp_all
    with a(2) show False by simp
  qed
  moreover have "999 < ?z"
  proof (rule ccontr)
    assume "\<not> 999 < ?z"
    then have "(?z + 1) ^ 2 \<le> 1000 ^ 2" by (intro power_mono) simp_all
    with a(1) show False by simp
  qed
  ultimately show ?thesis by simp
qed

end
