(* ===== verification/Rewards_Shares.thy ===== *)
theory Rewards_Shares
  imports Rewards_Math
begin

text \<open>
  What the formulas of \<^verbatim>\<open>libraries/rewards_math/formulas.cpp\<close> promise to a round of payouts: the posts of
  a round never get more than the reward fund, the curators of a post never more than its curation
  reward, the weights of the votes on a post add up in 64 bits to the curve of all of them, and the
  voting power stays between zero and a hundred percent.
\<close>

section \<open>Pro rata shares\<close>

lemma pro_rata_sum:
  fixes f t :: int
  assumes "0 \<le> f" and "0 < t" and "\<forall>c \<in> set cs. 0 \<le> c" and "sum_list cs \<le> t"
  shows "(\<Sum>c\<leftarrow>cs. c * f div t) \<le> f"
proof -
  have "(\<Sum>c\<leftarrow>cs. c * f div t) * t \<le> sum_list cs * f"
  proof (induction cs)
    case (Cons c cs)
    have "c * f div t * t \<le> c * f" using assms(2) pos_mod_sign [of t "c * f"] by (simp flip: minus_mod_eq_div_mult)
    with Cons show ?case by (simp add: algebra_simps)
  qed simp
  also have "\<dots> \<le> t * f" using assms(1,4) by (rule mult_right_mono [rotated])
  finally show ?thesis using assms(2) by (simp add: mult.commute)
qed

lemma part_bounds:
  fixes a b c :: int
  assumes "0 \<le> a" "0 \<le> b" "b \<le> c" "0 < c"
  shows "0 \<le> a * b div c" and "a * b div c \<le> a"
proof -
  have "a * b \<le> a * c" using assms by (intro mult_left_mono) simp_all
  then show "a * b div c \<le> a" using zdiv_mono1 [of "a * b" "a * c" c] assms(4) by simp
qed (use assms in \<open>simp add: pos_imp_zdiv_nonneg_iff\<close>)

section \<open>The words of the formulas\<close>

lemma to256_uint: "uint (to256 t) = uint t"
proof -
  have b: "uint t < 2 ^ 128" using uint_lt2p [of t] by simp
  have h: "uint (drop_bit 64 t) = uint t div 2 ^ 64" unfolding unsigned_drop_bit_eq using b by (simp add: drop_bit_eq_div take_bit_eq_mod mod_pos_pos_trivial)
  have l: "uint (take_bit 64 t) = uint t mod 2 ^ 64" unfolding unsigned_take_bit_eq by (simp add: take_bit_eq_mod)
  have q: "0 \<le> uint t div 2 ^ 64" by (intro pos_imp_zdiv_nonneg_iff [THEN iffD2]) simp_all
  have "uint t div 2 ^ 64 < 2 ^ 64" using b by (simp add: div_less_iff_less_mult zdiv_int)
  with q have "uint (push_bit 64 (ucast (drop_bit 64 t)) :: u256) = uint t div 2 ^ 64 * 2 ^ 64"
    unfolding unsigned_push_bit_eq unsigned_ucast_eq h by (simp add: push_bit_eq_mult take_bit_eq_mod mod_pos_pos_trivial)
  moreover have "uint (ucast (take_bit 64 t) :: u256) = uint t mod 2 ^ 64"
    unfolding unsigned_ucast_eq l by (simp add: take_bit_eq_mod mod_pos_pos_trivial)
  ultimately show ?thesis using b
    by (simp add: to256_def uint_word_arith_bintrs take_bit_eq_mod mod_pos_pos_trivial)
qed

lemma uint_of_int_u128: "0 \<le> x \<Longrightarrow> x < 2 ^ 128 \<Longrightarrow> uint (word_of_int x :: u128) = x"
  by (simp add: uint_word_of_int mod_pos_pos_trivial)

lemma uint_of_int_u256: "0 \<le> x \<Longrightarrow> x < 2 ^ 256 \<Longrightarrow> uint (word_of_int x :: u256) = x"
  by (simp add: uint_word_of_int mod_pos_pos_trivial)

lemma total_claims_exact:
  assumes F: "ext_ok F" and "uint recent + (\<Sum>r\<leftarrow>rs. uint (evaluate_reward_curve F (word_of_int r) curve)) < 2 ^ 128"
  shows "uint (calculate_total_claims F recent curve rs) = uint recent + (\<Sum>r\<leftarrow>rs. uint (evaluate_reward_curve F (word_of_int r) curve))"
  using assms(2)
proof (induction rs arbitrary: recent)
  case (Cons r rs)
  let ?w = "evaluate_reward_curve F (word_of_int r) curve"
  have "0 \<le> (\<Sum>r\<leftarrow>rs. uint (evaluate_reward_curve F (word_of_int r) curve))" by (intro sum_list_nonneg) auto
  then have "uint (recent + ?w) = uint recent + uint ?w"
    using Cons.prems by (simp add: uint_word_arith_bintrs take_bit_eq_mod mod_pos_pos_trivial)
  with Cons show ?case by (simp add: calculate_total_claims_def u128_eqs [OF F])
qed (simp add: calculate_total_claims_def)

lemma u256_returns: "ext_ok F \<Longrightarrow> y \<noteq> 0 \<Longrightarrow> u256_div F x y = Inr (x div y)"
  by (simp add: u256_eqs)

definition payout_of :: "ext_lib \<Rightarrow> u128 \<Rightarrow> int \<Rightarrow> curve_id \<Rightarrow> int \<Rightarrow> int" where
  "payout_of F total_claims reward_fund curve r = uint (evaluate_reward_curve F (word_of_int r) curve) * reward_fund div uint total_claims"

lemma calculate_payout_value:
  assumes F: "ext_ok F" and r: "0 < r" and t: "0 < total_claims" and f: "in_i64 fund" "0 \<le> fund"
    and w: "uint (evaluate_reward_curve F (word_of_int r) curve) \<le> uint total_claims"
  shows "calculate_payout F r total_claims fund curve mx mn =
    Inr (min (if payout_of F total_claims fund curve r < mn then 0 else payout_of F total_claims fund curve r) mx)"
proof -
  let ?w = "evaluate_reward_curve F (word_of_int r) curve"
  have T: "0 < uint total_claims" using t by (simp add: word_less_def)
  have w': "0 \<le> uint ?w" "uint ?w < 2 ^ 128" using uint_lt2p [of ?w] by simp_all
  have f': "fund < 2 ^ 63" using f(1) by (simp add: in_i64_def)
  have "uint ?w * fund \<le> 2 ^ 128 * 2 ^ 63" using w' f' f(2) by (intro mult_mono) simp_all
  then have m: "uint (word_of_int fund * to256 ?w) = uint ?w * fund"
    using f(2) f' w' uint_of_int_u256 [of fund] by (simp add: uint_word_arith_bintrs to256_uint take_bit_eq_mod mod_pos_pos_trivial mult.commute)
  have d: "uint (word_of_int fund * to256 ?w div to256 total_claims) = payout_of F total_claims fund curve r"
    by (simp add: uint_div to256_uint m payout_of_def)
  have "uint ?w * fund \<le> fund * uint total_claims" using w f(2) by (metis mult.commute mult_right_mono)
  then have "payout_of F total_claims fund curve r \<le> fund" using zdiv_mono1 [OF _ T, of "uint ?w * fund"] T by (fastforce simp: payout_of_def)
  then have "word_of_int fund * to256 ?w div to256 total_claims \<le> word_of_int (2 ^ 63 - 1)"
    using d f' by (simp add: word_le_def)
  moreover have "to256 total_claims \<noteq> 0" using T to256_uint [of total_claims] by auto
  ultimately show ?thesis using r t d by (simp add: calculate_payout_def Let_def u256_returns [OF F] u256_eqs(1) [OF F])
qed


text \<open>The weight of the shares of a post under the curves whose values fit in 64 bits.\<close>

definition curve_weight :: "ext_lib \<Rightarrow> curve_id \<Rightarrow> int \<Rightarrow> int" where
  "curve_weight F curve r = uint (evaluate_reward_curve F (word_of_int r) curve)"

lemma curve_weight_bounds:
  assumes "ext_ok F" and "curve \<in> {Linear, Square_root}" and "0 \<le> r" and "r < 2 ^ 63"
  shows "0 \<le> curve_weight F curve r" and "curve_weight F curve r < 2 ^ 64"
proof -
  have "uint (ucast (approx_sqrt F (word_of_int r)) :: u128) = uint (approx_sqrt F (word_of_int r))"
    by (rule uint_up_ucast) (simp add: is_up)
  then show "curve_weight F curve r < 2 ^ 64"
    using assms(2-4) uint_of_int_u128 [of r] uint_lt2p [of "approx_sqrt F (word_of_int r)"]
    by (auto simp: curve_weight_def evaluate_reward_curve_def)
qed (simp add: curve_weight_def)

lemma curve_weight_mono:
  assumes F: "ext_ok F" and "curve \<in> {Linear, Square_root}" and "0 \<le> r" "r \<le> s" and "s < 2 ^ 63"
  shows "curve_weight F curve r \<le> curve_weight F curve s"
proof -
  have le: "(word_of_int r :: u128) \<le> word_of_int s" using assms(3-5) uint_of_int_u128 [of r] uint_of_int_u128 [of s] by (simp add: word_le_def)
  have u: "uint (ucast (approx_sqrt F (word_of_int x)) :: u128) = uint (approx_sqrt F (word_of_int x))" for x
    by (rule uint_up_ucast) (simp add: is_up)
  from approx_sqrt_mono [OF F le] have "uint (approx_sqrt F (word_of_int r)) \<le> uint (approx_sqrt F (word_of_int s))" by (simp add: word_le_def)
  with le u assms(2) show ?thesis by (auto simp: curve_weight_def evaluate_reward_curve_def word_le_def)
qed

lemma max_vote_weight_value:
  assumes F: "ext_ok F" and c: "curve \<in> {Linear, Square_root}" and "0 \<le> r" "r < s" "s < 2 ^ 63"
  shows "calculate_max_vote_weight F s r curve = Inr (curve_weight F curve s - curve_weight F curve r)"
proof -
  have "0 \<le> curve_weight F curve r" "curve_weight F curve r \<le> curve_weight F curve s" "curve_weight F curve s < 2 ^ 64"
    using curve_weight_bounds [OF F c] curve_weight_mono [OF F c] assms(3-5) by simp_all
  moreover from this have "(curve_weight F curve s - curve_weight F curve r) mod 2 ^ 64 = curve_weight F curve s - curve_weight F curve r"
    by (intro mod_pos_pos_trivial) linarith+
  ultimately show ?thesis using assms(4) by (simp add: calculate_max_vote_weight_def curve_weight_def u128_returns [OF F])
qed

lemma used_power_value:
  assumes p: "0 \<le> p" "p \<le> SCORUM_100_PERCENT" and w: "\<bar>w\<bar> \<le> SCORUM_100_PERCENT" and d: "0 < decay" "decay < 100"
  shows "\<exists>u. calculate_used_power p w decay = Inr u \<and> 0 \<le> u \<and> u \<le> p"
proof -
  define x where "x = p * \<bar>w\<bar> div SCORUM_100_PERCENT"
  have x: "0 \<le> x" "x \<le> p" unfolding x_def using p w by (intro part_bounds; simp add: SCORUM_100_PERCENT_def)+
  define u where "u = x * decay div 100"
  have u: "0 \<le> u" "u \<le> x" unfolding u_def using part_bounds [of x decay 100] x(1) d by simp_all
  have "u < 2 ^ 16" using u(2) x(2) p(2) by (simp add: SCORUM_100_PERCENT_def)
  then have "u mod 2 ^ 16 = u" using u(1) by (rule mod_pos_pos_trivial [rotated])
  moreover have "cdiv (p * \<bar>w\<bar>) SCORUM_100_PERCENT = x" unfolding x_def using p(1) by (intro cdiv_nonneg) (simp_all add: SCORUM_100_PERCENT_def)
  moreover have "cdiv (x * decay) 100 = u" unfolding u_def using x(1) d by (intro cdiv_nonneg) simp_all
  ultimately show ?thesis using d u x(2) by (simp add: calculate_used_power_def Let_def)
qed

section \<open>Properties\<close>

text \<open>
  C17: In a round of payouts over the claims the chain has added up, provided they fit in 128 bits,
  the payout of every post is computed and the payouts together do not exceed the reward fund.
\<close>
theorem payouts_within_fund:
  assumes F: "ext_ok F" and rs: "\<forall>r \<in> set rs. 0 < r" and f: "in_i64 fund" "0 \<le> fund" and mx: "0 \<le> mx"
    and fits: "uint recent + (\<Sum>r\<leftarrow>rs. uint (evaluate_reward_curve F (word_of_int r) curve)) < 2 ^ 128"
    and t: "0 < calculate_total_claims F recent curve rs"
  shows "\<exists>ps. map (\<lambda>r. calculate_payout F r (calculate_total_claims F recent curve rs) fund curve mx mn) rs = map Inr ps \<and>
    (\<forall>p \<in> set ps. 0 \<le> p \<and> p \<le> mx) \<and> sum_list ps \<le> fund"
proof -
  let ?t = "calculate_total_claims F recent curve rs" and ?w = "\<lambda>r. uint (evaluate_reward_curve F (word_of_int r) curve)"
  let ?p = "\<lambda>r. min (if payout_of F ?t fund curve r < mn then 0 else payout_of F ?t fund curve r) mx"
  have T: "uint ?t = uint recent + (\<Sum>r\<leftarrow>rs. ?w r)" by (rule total_claims_exact [OF F fits])
  have w: "?w r \<le> uint ?t" if "r \<in> set rs" for r
  proof -
    have "?w r \<le> (\<Sum>r\<leftarrow>rs. ?w r)" using that by (intro member_le_sum_list) auto
    then show ?thesis using T by (simp add: add_increasing)
  qed
  have T0: "0 < uint ?t" using t by (simp add: word_less_def)
  have p0: "0 \<le> payout_of F ?t fund curve r" for r using f(2) T0 by (simp add: payout_of_def pos_imp_zdiv_nonneg_iff)
  have "map (\<lambda>r. calculate_payout F r ?t fund curve mx mn) rs = map Inr (map ?p rs)"
    using calculate_payout_value [OF F _ t f w] rs by simp
  moreover have "\<forall>p \<in> set (map ?p rs). 0 \<le> p \<and> p \<le> mx" using p0 mx by auto
  moreover have "sum_list (map ?p rs) \<le> fund"
  proof -
    have "sum_list (map ?p rs) \<le> (\<Sum>r\<leftarrow>rs. payout_of F ?t fund curve r)" using p0 mx by (intro sum_list_mono) (simp add: min_def)
    also have "\<dots> = (\<Sum>c\<leftarrow>map ?w rs. c * fund div uint ?t)" by (simp add: payout_of_def comp_def)
    also have "\<dots> \<le> fund" using T T0 f(2) by (intro pro_rata_sum) auto
    finally show ?thesis .
  qed
  ultimately show ?thesis by blast
qed

theorem payouts_within_fund_witness:
  "\<exists>ps. map (\<lambda>r. calculate_payout ext_ref r (calculate_total_claims ext_ref 5 Linear [1, 4]) 1000 Linear 500 0) [1, 4] = map Inr ps \<and>
    sum_list ps \<le> 1000"
  using payouts_within_fund [OF ext_ok_ref, of "[1, 4]" 1000 500 5 Linear 0]
  by (force simp: in_i64_def evaluate_reward_curve_def calculate_total_claims_def ext_ref_def)



text \<open>
  The weights of the votes on a post, each the unsigned difference of the curve after and before
  the vote, never wrap: they add up to the curve of all the shares, so that the total vote weight
  of a post fits in 64 bits for the linear and the square root curve.
\<close>
lemma vote_weights_telescope:
  assumes "ext_ok F" and "curve \<in> {Linear, Square_root}" and "\<forall>v \<in> set vs. 0 < v" and "0 \<le> r" "r + sum_list vs < 2 ^ 63"
  shows "\<exists>ws. map (\<lambda>i. calculate_max_vote_weight F (r + sum_list (take (Suc i) vs)) (r + sum_list (take i vs)) curve) [0..<length vs] = map Inr ws \<and>
    (\<forall>w \<in> set ws. 0 \<le> w) \<and> curve_weight F curve r + sum_list ws = curve_weight F curve (r + sum_list vs) \<and>
    curve_weight F curve (r + sum_list vs) < 2 ^ 64"
  using assms(3-5)
proof (induction vs arbitrary: r)
  case Nil
  then show ?case using curve_weight_bounds [OF assms(1,2)] by simp
next
  case (Cons v vs)
  let ?w = "curve_weight F curve (r + v) - curve_weight F curve r"
  have s: "0 \<le> sum_list vs" using Cons.prems(1) by (intro sum_list_nonneg) auto
  obtain ws where ws: "map (\<lambda>i. calculate_max_vote_weight F (r + v + sum_list (take (Suc i) vs)) (r + v + sum_list (take i vs)) curve) [0..<length vs] = map Inr ws"
    "\<forall>w \<in> set ws. 0 \<le> w" "curve_weight F curve (r + v) + sum_list ws = curve_weight F curve (r + v + sum_list vs)"
    "curve_weight F curve (r + v + sum_list vs) < 2 ^ 64"
    using Cons.IH [of "r + v"] Cons.prems by auto
  have "calculate_max_vote_weight F (r + v) r curve = Inr ?w" "0 \<le> ?w"
    using max_vote_weight_value [OF assms(1,2), of r "r + v"] curve_weight_mono [OF assms(1,2), of r "r + v"] Cons.prems s by auto
  then show ?case using ws
    by (intro exI [of _ "?w # ws"]) (simp add: upt_rec [of 0] map_Suc_upt [symmetric] comp_def add.assoc del: upt_Suc)
qed

lemma vote_weights_telescope_witness:
  "\<exists>ws. map (\<lambda>i. calculate_max_vote_weight ext_ref (0 + sum_list (take (Suc i) [4, 5])) (0 + sum_list (take i [4, 5])) Linear) [0..<length [4, 5 :: int]] = map Inr ws \<and>
    sum_list ws = 9"
proof -
  have "Linear \<in> {Linear, Square_root}" "\<forall>v \<in> set [4, 5 :: int]. 0 < v" "(0::int) \<le> 0" "0 + sum_list [4, 5 :: int] < 2 ^ 63" by simp_all
  from vote_weights_telescope [OF ext_ok_ref this] obtain ws where
    "map (\<lambda>i. calculate_max_vote_weight ext_ref (0 + sum_list (take (Suc i) [4, 5])) (0 + sum_list (take i [4, 5])) Linear) [0..<length [4, 5 :: int]] = map Inr ws"
    and s: "curve_weight ext_ref Linear 0 + sum_list ws = curve_weight ext_ref Linear (0 + sum_list [4, 5])" by blast
  moreover from s have "sum_list ws = 9" by (simp add: curve_weight_def evaluate_reward_curve_def)
  ultimately show ?thesis by blast
qed

text \<open>
  The voting power restored since the last vote lies between what it was and a hundred percent,
  and a vote uses at most the power there is.
\<close>
lemma voting_power_bounds:
  assumes F: "ext_ok F" and v: "0 \<le> v" "v \<le> SCORUM_100_PERCENT" and w: "\<bar>w\<bar> \<le> SCORUM_100_PERCENT"
    and t: "voted \<le> now" "now < 2 ^ 32" and g: "0 < regen" "regen < 2 ^ 32" and d: "0 < decay" "decay < 100"
  shows "\<exists>p u. calculate_restoring_power F v now voted regen = Inr p \<and> v \<le> p \<and> p \<le> SCORUM_100_PERCENT \<and>
    calculate_used_power p w decay = Inr u \<and> 0 \<le> u \<and> u \<le> p"
proof -
  let ?e = "int now - int voted"
  have e: "0 \<le> ?e" "?e < 2 ^ 32" using t by simp_all
  then have te: "to_i64 (SCORUM_100_PERCENT * ?e) = SCORUM_100_PERCENT * ?e"
    by (intro to_i64_id) (simp add: in_i64_def SCORUM_100_PERCENT_def)
  let ?q = "SCORUM_100_PERCENT * ?e div regen"
  have q: "0 \<le> ?q" using e g(1) by (simp add: SCORUM_100_PERCENT_def pos_imp_zdiv_nonneg_iff)
  moreover have "?q \<le> SCORUM_100_PERCENT * ?e" using e g(1) by (simp add: SCORUM_100_PERCENT_def zdiv_mono2 [of _ 1, simplified])
  ultimately have tq: "to_i64 ?q = ?q" using e by (intro to_i64_id) (simp add: in_i64_def SCORUM_100_PERCENT_def)
  let ?p = "min (v + ?q) SCORUM_100_PERCENT"
  have r: "calculate_restoring_power F v now voted regen = Inr ?p" and p: "v \<le> ?p" "?p \<le> SCORUM_100_PERCENT"
    using t g v q e te tq by (simp_all add: calculate_restoring_power_def Let_def time_eqs [OF F] cdiv_nonneg mod_pos_pos_trivial SCORUM_100_PERCENT_def)
  from used_power_value [OF _ p(2) w d] r p v(1) show ?thesis by fastforce
qed

lemma voting_power_bounds_witness:
  "\<exists>p u. calculate_restoring_power ext_ref 9000 86400 0 432000 = Inr p \<and> 9000 \<le> p \<and> p \<le> 10000 \<and> calculate_used_power p (-10000) 5 = Inr u \<and> u \<le> p"
  using voting_power_bounds [OF ext_ok_ref, of 9000 "-10000" 0 86400 432000 5] by (force simp: SCORUM_100_PERCENT_def)

end
