(* ===== verification/Funds_Ledger.thy ===== *)
theory Funds_Ledger
  imports Advertising_Run Block_Funds Rewards_Shares
begin

text \<open>
  The money of a block neither appears nor vanishes. \<open>flows d\<close> is a step that puts \<open>d\<close> into the
  ledger and leaves the budgets alone; the auction of the block is a settlement that takes out of
  the budgets what the distribution hands on.
\<close>

section \<open>Payouts of the budgets\<close>

lemma payout_step:
  assumes F: "ext_ok F" and r: "perform_pending_payout F cfg t k (x, db) = Inr (x', db')" and ok: "db_ok db" and fair: "fair_rows h t db"
  shows "settles (amount x - amount x') db db' \<and> other_rows t db db' \<and> fair_rows h t db' \<and> symbol x' = symbol x \<and> amount x \<le> amount x'"
proof -
  from r obtain b acc db1 db2 where b: "map_of (indices (budgets_of t db)) k = Some b"
    and x': "asset_add F x (ab_budget_pending_outgo b) = Inr x'"
    and 1: "increase_balance F acc (ab_owner_pending_income b) db = Inr db1"
    and 2: "update_totals t (\<lambda>s.
              bindE (asset_sub F (bs_owner_pending_income s) (ab_owner_pending_income b)) (\<lambda>i.
              bindE (asset_sub F (bs_budget_pending_outgo s) (ab_budget_pending_outgo b)) (\<lambda>x.
              Inr (s\<lparr>bs_owner_pending_income := i, bs_budget_pending_outgo := x\<rparr>)))) db1 = Inr db2"
    and 3: "update_budget_row t k (\<lambda>b. Inr (b\<lparr>ab_owner_pending_income := (ab_owner_pending_income b)\<lparr>amount := 0\<rparr>,
              ab_budget_pending_outgo := (ab_budget_pending_outgo b)\<lparr>amount := 0\<rparr>,
              ab_cashout_time := time_add F (head_block_time db2) (advertising_cashout_period_sec cfg)\<rparr>)) db2 = Inr db'"
    by (auto simp: perform_pending_payout_def bindE_Inr_iff ix_get_iff)
  define c where "c = time_add F (head_block_time db2) (advertising_cashout_period_sec cfg)"
  define b' where "b' = b\<lparr>ab_owner_pending_income := (ab_owner_pending_income b)\<lparr>amount := 0\<rparr>,
              ab_budget_pending_outgo := (ab_budget_pending_outgo b)\<lparr>amount := 0\<rparr>, ab_cashout_time := c\<rparr>"
  have fb: "fair h b" using fair b by (simp add: fair_rows_def)
  then have p: "pays (amount (ab_owner_pending_income b)) db db1" using increase_balance_pays [OF F 1] by (simp add: fair_def)
  note same = same_budgets [OF pays_free [OF p ok]]
  define s where "s = shift_stat (stat_of t (dgp db1)) 0 (- amount (ab_owner_pending_income b)) (- amount (ab_budget_pending_outgo b))"
  have db2: "db2 = db1\<lparr>dgp := set_stat t s (dgp db1)\<rparr>"
    unfolding s_def by (rule update_totals_shift [OF 2]) (use F in \<open>auto simp: bindE_Inr_iff asset_sub_iff intro!: shift_statI\<close>)
  have "db' = with_budget t k b' s db1"
    using 3 b same unfolding update_budget_row_iff c_def [symmetric] by (auto simp: db2 with_budget_def b'_def)
  moreover have "s = booked b b' (stat_of t (dgp db1))" by (simp add: s_def booked_def b'_def)
  ultimately have db': "db' = with_budget t k b' (booked b b' (stat_of t (dgp db1))) db1" by simp
  have bo: "budget_ok b'" using fb by (simp add: fair_def budget_ok_def b'_def)
  have "settles (budget_sum b' - budget_sum b) db1 db'" unfolding db' by (rule row_settles [OF _ bo]) (simp add: same b)
  then have "settles (- amount (ab_budget_pending_outgo b)) db db'"
    by (rule settles_trans [OF pays_settles [OF p]]) (simp add: b'_def budget_sum_def)
  moreover have "fair h b'" using fb by (auto simp: fair_def b'_def budget_ok_def blocks_left_def)
  then have "fair_rows h t db'" using fair by (simp add: fair_rows_def db' same)
  moreover have "other_rows t db db'" unfolding db' other_rows_def with_budget_def by (simp add: same)
  moreover have "symbol x' = symbol x" "amount x' = amount x + amount (ab_budget_pending_outgo b)" using x' F by (auto simp: asset_add_iff)
  moreover have "0 \<le> amount (ab_budget_pending_outgo b)" using fb by (simp add: fair_def)
  ultimately show ?thesis by simp
qed

lemma payouts_loop:
  assumes F: "ext_ok F"
  shows "foldE (perform_pending_payout F cfg t) ks (x, db) = Inr (x', db') \<Longrightarrow> db_ok db \<Longrightarrow> fair_rows h t db \<Longrightarrow>
    settles (amount x - amount x') db db' \<and> other_rows t db db' \<and> fair_rows h t db' \<and> symbol x' = symbol x \<and> amount x \<le> amount x'"
proof (induction ks arbitrary: x db)
  case Nil
  then show ?case by (auto simp: other_rows_def)
next
  case (Cons k ks)
  from Cons.prems(1) obtain x1 db1 where 1: "perform_pending_payout F cfg t k (x, db) = Inr (x1, db1)"
    and rest: "foldE (perform_pending_payout F cfg t) ks (x1, db1) = Inr (x', db')" by (auto simp: bindE_Inr_iff)
  note s1 = payout_step [OF F 1 Cons.prems(2,3)]
  have "db_ok db1" using s1 settles_ok Cons.prems(2) by blast
  from Cons.IH [OF rest this] s1 show ?case by (auto simp: other_rows_def elim!: settles_trans)
qed

section \<open>Empty budgets\<close>

lemma remove_budget_step:
  assumes r: "remove_budget t k db = Inr db'" and b: "map_of (indices (budgets_of t db)) k = Some b" and z: "budget_sum b = 0"
    "amount (ab_balance b) = 0" "amount (ab_owner_pending_income b) = 0" "amount (ab_budget_pending_outgo b) = 0"
  shows "settles 0 db db' \<and> other_rows t db db' \<and> indices (budgets_of t db') = drop_row k (indices (budgets_of t db))"
proof -
  from r obtain ix where ix: "ix_remove k (budgets_of t db) = Inr ix" and db': "db' = set_budgets t ix db"
    by (auto simp: remove_budget_def bindE_Inr_iff)
  have rows: "indices ix = drop_row k (indices (budgets_of t db))" using ix by (auto simp: ix_remove_eq_Inr)
  note step = budget_custody.remove_step [OF ix b]
  have free: "adv_free db' = adv_free db" by (cases t) (simp_all add: db' adv_free_def purse_free_def set_budgets_def Let_def)
  have "books t' db' = books t' db" if "db_ok db" for t'
  proof (cases "t' = t")
    case True
    then show ?thesis using budget_custody.tbl_ok [OF that, of t] z b by (simp add: db' books_def rows Let_def row_sum_drop wf_index_def)
  qed (simp add: db' books_def)
  then show ?thesis using step z(1) free by (simp add: settles_def db' other_rows_def rows)
qed

lemma empty_budget_zero:
  assumes "fair h b" and "at_most_zero b"
  shows "budget_sum b = 0" and "amount (ab_balance b) = 0" and "amount (ab_owner_pending_income b) = 0" and "amount (ab_budget_pending_outgo b) = 0"
  using assms by (auto simp: fair_def at_most_zero_def Let_def budget_sum_def)

lemma close_loop:
  "foldE (remove_budget t) ks db = Inr db' \<Longrightarrow> db_ok db \<Longrightarrow> fair_rows h t db \<Longrightarrow> distinct ks \<Longrightarrow>
   (\<forall>k \<in> set ks. \<exists>b. map_of (indices (budgets_of t db)) k = Some b \<and> at_most_zero b) \<Longrightarrow>
   settles 0 db db' \<and> other_rows t db db' \<and> fair_rows h t db'"
proof (induction ks arbitrary: db)
  case Nil
  then show ?case by (auto simp: other_rows_def)
next
  case (Cons k ks)
  from Cons.prems(1) obtain db1 where 1: "remove_budget t k db = Inr db1" and rest: "foldE (remove_budget t) ks db1 = Inr db'"
    by (auto simp: bindE_Inr_iff)
  from Cons.prems(5) obtain b where b: "map_of (indices (budgets_of t db)) k = Some b" "at_most_zero b" by auto
  then have "fair h b" using Cons.prems(3) by (simp add: fair_rows_def)
  note s1 = remove_budget_step [OF 1 b(1) empty_budget_zero [OF this b(2)]]
  have "fair_rows h t db1" using Cons.prems(3) s1 by (simp add: fair_rows_def)
  moreover have "db_ok db1" using s1 settles_ok Cons.prems(2) by blast
  moreover have "\<forall>j \<in> set ks. \<exists>b. map_of (indices (budgets_of t db1)) j = Some b \<and> at_most_zero b" using Cons.prems(4,5) s1 by auto
  ultimately have s2: "settles 0 db1 db' \<and> other_rows t db1 db' \<and> fair_rows h t db'" using Cons.IH [OF rest] Cons.prems(4) by simp
  have "settles 0 db db'" by (rule settles_trans [of 0 db db1 0 db' 0]) (use s1 s2 in simp_all)
  then show ?case using s1 s2 by (simp add: other_rows_def)
qed

lemma close_empty_settles:
  assumes r: "close_empty_budgets t db = Inr db'" and ok: "db_ok db" and fair: "fair_rows h t db"
  shows "settles 0 db db' \<and> other_rows t db db' \<and> fair_rows h t db'"
proof -
  have d: "distinct (map fst (indices (budgets_of t db)))" using budget_custody.tbl_ok [OF ok, of t] by (simp add: wf_index_def sorted_rows_distinct)
  have "distinct (map fst (filter P rs))" if "distinct (map fst rs)" for P and rs :: "adv_budget_object rows"
    using that by (induction rs) (auto simp: image_iff)
  with d have "distinct (get_empty_budgets t db)" by (simp add: get_empty_budgets_def distinct_map)
  moreover have "\<exists>b. map_of (indices (budgets_of t db)) k = Some b \<and> at_most_zero b" if "k \<in> set (get_empty_budgets t db)" for k
    using that d by (force simp: get_empty_budgets_def)
  ultimately show ?thesis using close_loop [OF r [unfolded close_empty_budgets_def] ok fair] by blast
qed

lemma auction_round_settles:
  assumes F: "ext_ok F" and r: "run_auction_round F cfg db = Inr (reward, db')" and ok: "db_ok db" and fair: "\<And>t. fair_rows h t db"
    and time: "h < head_block_time db" "h mod 3 = head_block_time db mod 3"
  shows "settles (- amount reward) db db'" and "fair_rows (head_block_time db) t db'" and "symbol reward = SCORUM_SYMBOL"
    and "0 \<le> amount reward" and "in_i64 (amount reward)"
proof -
  let ?now = "head_block_time db"
  from r obtain db1 x db2 y db3 db4 where 1: "run_round F db = Inr db1"
    and 2: "process_adv_pending_payouts F cfg Budget_post db1 = Inr (x, db2)"
    and 3: "process_adv_pending_payouts F cfg Budget_banner db2 = Inr (y, db3)"
    and sum: "asset_add F x y = Inr reward"
    and 4: "close_empty_budgets Budget_post db3 = Inr db4" and 5: "close_empty_budgets Budget_banner db4 = Inr db'"
    by (auto simp: run_auction_round_def bindE_Inr_iff)
  note s1 = round_settles [OF F 1 ok fair time]
  have ok1: "db_ok db1" by (rule settles_ok [OF s1(1) ok])
  note s2 = payouts_loop [OF F 2 [unfolded process_adv_pending_payouts_def perform_pending_payouts_def] ok1 s1(2)]
  have ok2: "db_ok db2" using s2 settles_ok ok1 by blast
  have f2: "fair_rows ?now Budget_banner db2" using s2 s1(2) [of Budget_banner] fair_rows_other by blast
  note s3 = payouts_loop [OF F 3 [unfolded process_adv_pending_payouts_def perform_pending_payouts_def] ok2 f2]
  have ok3: "db_ok db3" using s3 settles_ok ok2 by blast
  have f3: "fair_rows ?now Budget_post db3" using s3 s2 fair_rows_other [of Budget_banner db2 db3 Budget_post] by simp
  note s4 = close_empty_settles [OF 4 ok3 f3]
  have ok4: "db_ok db4" using s4 settles_ok ok3 by blast
  have f4: "fair_rows ?now Budget_banner db4" using s4 s3 fair_rows_other [of Budget_post db3 db4 Budget_banner] by simp
  note s5 = close_empty_settles [OF 5 ok4 f4]
  show "fair_rows ?now t db'" using s4 s5 fair_rows_other [of Budget_banner db4 db' Budget_post] by (cases t) simp_all
  have xy: "amount reward = amount x + amount y" "in_i64 (amount reward)" "symbol reward = symbol x" using sum F by (auto simp: asset_add_iff)
  show "symbol reward = SCORUM_SYMBOL" "0 \<le> amount reward" "in_i64 (amount reward)" using s2 s3 xy by simp_all
  have "settles (- amount x) db db2" by (rule settles_trans [OF s1(1)]) (use s2 in auto)
  then have "settles (- amount reward) db db3" by (rule settles_trans [where e = "- amount y"]) (use s3 xy in auto)
  then have "settles (- amount reward) db db4" by (rule settles_trans [where e = 0]) (use s4 in auto)
  then show "settles (- amount reward) db db'" by (rule settles_trans [where e = 0]) (use s5 in auto)
qed

section \<open>Flows\<close>

definition flows :: "int \<Rightarrow> database \<Rightarrow> database \<Rightarrow> bool" where
  "flows d db db' \<longleftrightarrow> keeps db db' \<and> ledger_move d db db' \<and>
     (db_ok db \<longrightarrow> head_block_time db' = head_block_time db \<and> (\<forall>t. budgets_of t db' = budgets_of t db \<and> stat_of t (dgp db') = stat_of t (dgp db)))"

lemma flows_refl [intro]: "flows 0 db db"
  by (auto simp: flows_def)

lemma flows_trans: "flows d db db1 \<Longrightarrow> flows e db1 db2 \<Longrightarrow> d + e = f \<Longrightarrow> flows f db db2"
  unfolding flows_def by (metis keeps_trans ledger_move_def ledger_move_trans)

lemma pays_flows: "pays d db db' \<Longrightarrow> flows d db db'"
  using same_budgets [OF pays_free] by (auto simp: flows_def pays_def)

lemma flows_ok: "flows d db db' \<Longrightarrow> db_ok db \<Longrightarrow> db_ok db'"
  by (simp add: flows_def ledger_move_def)

lemma flowsI: "flows e db db' \<Longrightarrow> e = d \<Longrightarrow> flows d db db'"
  by simp

text \<open>The singletons that hold money.\<close>

definition with_pools ::
  "reward_fund_object \<Rightarrow> reward_fund_object \<Rightarrow> reward_balancer_object \<Rightarrow> reward_balancer_object \<Rightarrow> reward_balancer_object \<Rightarrow>
   fund_budget_object option \<Rightarrow> dev_committee_object \<Rightarrow> int option \<Rightarrow> database \<Rightarrow> database"
where
  "with_pools scr sp content voters_scr voters_sp fund dev migration db = db\<lparr>fund_scr := scr, fund_sp := sp, content_reward_scr := content,
     voters_reward_scr := voters_scr, voters_reward_sp := voters_sp, fund_budget := fund, dev_pool := dev, witness_reward_migration := migration\<rparr>"

lemma with_pools_flows:
  assumes "db' = with_pools a b c d e f g h db" and "pools_ok db \<Longrightarrow> pools_ok db'"
  shows "flows (pools db' - pools db) db db'"
proof -
  have v: "vote_view db' = vote_view db" "solvent db' = solvent db" by (simp_all add: assms(1) with_pools_def vote_view_def solvent_def)
  have dbo: "db_ok db'" if "db_ok db"
    using that assms(2) by (simp add: db_ok_def) (simp add: assms(1) with_pools_def tables_ok_def)
  have "ledger_move (pools db' - pools db) db db'"
    using dbo unfolding ledger_move_def by (simp add: supply_sum_def gaps_def acc_sum_def locked_def) (simp add: assms(1) with_pools_def)
  moreover have "keeps db db'" by (rule keepsI) (use v dbo in \<open>simp_all add: sound_def\<close>)
  moreover have "budgets_of t db' = budgets_of t db" "stat_of t (dgp db') = stat_of t (dgp db)" "head_block_time db' = head_block_time db" for t
    by (cases t; simp add: assms(1) with_pools_def budgets_of_def stat_of_def head_block_time_def)+
  ultimately show ?thesis by (auto simp: flows_def)
qed

lemma pool_flows:
  "symbol (f_activity_reward_balance f) = symbol (f_activity_reward_balance (fund_scr db)) \<Longrightarrow>
     flows (amount (f_activity_reward_balance f) - amount (f_activity_reward_balance (fund_scr db))) db (db\<lparr>fund_scr := f\<rparr>)"
  "flows (amount (f_activity_reward_balance f) - amount (f_activity_reward_balance (fund_sp db))) db (db\<lparr>fund_sp := f\<rparr>)"
  "symbol (rb_balance b) = symbol (rb_balance (content_reward_scr db)) \<Longrightarrow>
     flows (amount (rb_balance b) - amount (rb_balance (content_reward_scr db))) db (db\<lparr>content_reward_scr := b\<rparr>)"
  "symbol (rb_balance b) = symbol (rb_balance (voters_reward_scr db)) \<Longrightarrow>
     flows (amount (rb_balance b) - amount (rb_balance (voters_reward_scr db))) db (db\<lparr>voters_reward_scr := b\<rparr>)"
  "flows (amount (rb_balance b) - amount (rb_balance (voters_reward_sp db))) db (db\<lparr>voters_reward_sp := b\<rparr>)"
  "flows (case_option 0 (\<lambda>x. amount (fb_balance x)) o_b - case_option 0 (\<lambda>x. amount (fb_balance x)) (fund_budget db)) db (db\<lparr>fund_budget := o_b\<rparr>)"
  "symbol (dc_scr_balance v) = symbol (dc_scr_balance (dev_pool db)) \<Longrightarrow> dc_sp_balance v = dc_sp_balance (dev_pool db) \<Longrightarrow>
     flows (amount (dc_scr_balance v) - amount (dc_scr_balance (dev_pool db))) db (db\<lparr>dev_pool := v\<rparr>)"
  "flows (case_option 0 (\<lambda>x. x) m - case_option 0 (\<lambda>x. x) (witness_reward_migration db)) db (db\<lparr>witness_reward_migration := m\<rparr>)"
proof -
  let ?w = "\<lambda>scr sp c vscr vsp fd dv mg. with_pools scr sp c vscr vsp fd dv mg db"
  note flow = with_pools_flows [OF refl, of db]
  let ?scr = "fund_scr db" and ?sp = "fund_sp db" and ?c = "content_reward_scr db" and ?vscr = "voters_reward_scr db" and ?vsp = "voters_reward_sp db"
    and ?fd = "fund_budget db" and ?dv = "dev_pool db" and ?mg = "witness_reward_migration db"
  note defs = with_pools_def pools_def pools_ok_def
  show "symbol (f_activity_reward_balance f) = symbol (f_activity_reward_balance (fund_scr db)) \<Longrightarrow>
     flows (amount (f_activity_reward_balance f) - amount (f_activity_reward_balance (fund_scr db))) db (db\<lparr>fund_scr := f\<rparr>)"
    using flow [of f ?sp ?c ?vscr ?vsp ?fd ?dv ?mg] by (simp add: defs)
  show "flows (amount (f_activity_reward_balance f) - amount (f_activity_reward_balance (fund_sp db))) db (db\<lparr>fund_sp := f\<rparr>)"
    using flow [of ?scr f ?c ?vscr ?vsp ?fd ?dv ?mg] by (simp add: defs)
  show "symbol (rb_balance b) = symbol (rb_balance (content_reward_scr db)) \<Longrightarrow>
     flows (amount (rb_balance b) - amount (rb_balance (content_reward_scr db))) db (db\<lparr>content_reward_scr := b\<rparr>)"
    using flow [of ?scr ?sp b ?vscr ?vsp ?fd ?dv ?mg] by (simp add: defs)
  show "symbol (rb_balance b) = symbol (rb_balance (voters_reward_scr db)) \<Longrightarrow>
     flows (amount (rb_balance b) - amount (rb_balance (voters_reward_scr db))) db (db\<lparr>voters_reward_scr := b\<rparr>)"
    using flow [of ?scr ?sp ?c b ?vsp ?fd ?dv ?mg] by (simp add: defs)
  show "flows (amount (rb_balance b) - amount (rb_balance (voters_reward_sp db))) db (db\<lparr>voters_reward_sp := b\<rparr>)"
    using flow [of ?scr ?sp ?c ?vscr b ?fd ?dv ?mg] by (simp add: defs)
  show "flows (case_option 0 (\<lambda>x. amount (fb_balance x)) o_b - case_option 0 (\<lambda>x. amount (fb_balance x)) (fund_budget db)) db (db\<lparr>fund_budget := o_b\<rparr>)"
    using flow [of ?scr ?sp ?c ?vscr ?vsp o_b ?dv ?mg] by (simp add: defs)
  show "symbol (dc_scr_balance v) = symbol (dc_scr_balance (dev_pool db)) \<Longrightarrow> dc_sp_balance v = dc_sp_balance (dev_pool db) \<Longrightarrow>
     flows (amount (dc_scr_balance v) - amount (dc_scr_balance (dev_pool db))) db (db\<lparr>dev_pool := v\<rparr>)"
    using flow [of ?scr ?sp ?c ?vscr ?vsp ?fd v ?mg] by (simp add: defs)
  show "flows (case_option 0 (\<lambda>x. x) m - case_option 0 (\<lambda>x. x) (witness_reward_migration db)) db (db\<lparr>witness_reward_migration := m\<rparr>)"
    using flow [of ?scr ?sp ?c ?vscr ?vsp ?fd ?dv m] by (simp add: defs)
qed

section \<open>Distribution\<close>

lemma adjust_block_reward_balance: "adjust_block_reward F cfg d pool = Inr pool' \<Longrightarrow> rb_balance pool' = rb_balance pool"
  by (auto simp: adjust_block_reward_def bindE_Inr_iff split: if_splits)

lemma adjust_block_reward_nonneg:
  assumes F: "ext_ok F" and r: "adjust_block_reward F cfg d pool = Inr pool'"
  shows "0 \<le> amount (rb_current_per_block_reward pool')"
proof -
  from r obtain f delta0 least delta where f: "asset_mul_fraction F (rb_current_per_block_reward pool) f = Inr delta0"
    and l: "mk_asset SCORUM_MIN_PER_BLOCK_REWARD (symbol d) = Inr least" and "asset_max least delta0 = Inr delta"
    and p: "pool' = pool \<or> (\<exists>c. asset_add F (rb_current_per_block_reward pool) delta = Inr c \<and> pool' = pool\<lparr>rb_current_per_block_reward := c\<rparr>) \<or>
      (\<exists>b c. asset_max least b = Inr c \<and> pool' = pool\<lparr>rb_current_per_block_reward := c\<rparr>)"
    by (auto simp: adjust_block_reward_def bindE_Inr_iff split: if_splits) blast+
  moreover have "amount least = 1" using l by (auto simp: mk_asset_def bindE_Inr_iff SCORUM_MIN_PER_BLOCK_REWARD_def)
  moreover have "0 \<le> amount (rb_current_per_block_reward pool)"
    using f by (auto simp: asset_mul_fraction_def multiply_by_fractional_def bindE_Inr_iff fc_assert_Inr_iff)
  moreover have mx: "asset_max a b = Inr c \<Longrightarrow> amount a \<le> amount c" for a b c by (auto simp: asset_max_def bindE_Inr_iff asset_order_iffs)
  ultimately show ?thesis using F mx [of least delta0 delta] by (auto simp: asset_add_iff dest!: mx)
qed

lemma take_block_reward_flow:
  assumes F: "ext_ok F" and r: "take_block_reward F cfg pool = Inr (reward, pool')"
  shows "amount reward + amount (rb_balance pool') = amount (rb_balance pool)" and "symbol (rb_balance pool') = symbol (rb_balance pool)"
    and "amount reward \<le> max 0 (amount (rb_balance pool))" and "0 \<le> amount reward"
proof -
  from r obtain day z p1 enough where z: "mk_asset 0 (symbol day) = Inr z" and 1: "adjust_block_reward F cfg day pool = Inr p1"
    and g: "asset_ge (rb_balance p1) (rb_current_per_block_reward p1) = Inr enough"
    and e: "(if enough then
         bindE (asset_sub F (rb_balance p1) (rb_current_per_block_reward p1)) (\<lambda>b. Inr (rb_current_per_block_reward p1, p1\<lparr>rb_balance := b\<rparr>))
       else if amount (rb_balance p1) > 0 then Inr (rb_balance p1, p1\<lparr>rb_balance := (rb_balance p1)\<lparr>amount := 0\<rparr>\<rparr>)
       else Inr (z, p1)) = Inr (reward, pool')"
    unfolding take_block_reward_def bindE_Inr_iff by blast
  have z0: "amount z = 0" and en: "enough \<longleftrightarrow> amount (rb_current_per_block_reward p1) \<le> amount (rb_balance p1)"
    using z g by (auto simp: mk_asset_def bindE_Inr_iff asset_order_iffs)
  note b = adjust_block_reward_balance [OF 1]
  show "amount reward + amount (rb_balance pool') = amount (rb_balance pool)" "symbol (rb_balance pool') = symbol (rb_balance pool)"
    "amount reward \<le> max 0 (amount (rb_balance pool))" "0 \<le> amount reward"
    using e z0 en F adjust_block_reward_nonneg [OF F 1] unfolding b [symmetric] by (auto simp: bindE_Inr_iff asset_sub_iff split: if_splits)
qed

lemma pay_content_flows: "ext_ok F \<Longrightarrow> pay_content_reward F reward db = Inr db' \<Longrightarrow> 0 \<le> amount reward \<Longrightarrow> flows (amount reward) db db'"
  by (auto simp: pay_content_reward_def bindE_Inr_iff asset_add_iff split: if_splits intro!: flowsI [OF pool_flows(1)] flowsI [OF pool_flows(2)])

lemma pay_activity_flows: "ext_ok F \<Longrightarrow> pay_activity_reward F reward db = Inr db' \<Longrightarrow> 0 \<le> amount reward \<Longrightarrow> flows (amount reward) db db'"
  by (auto simp: pay_activity_reward_def increase_ballance_def bindE_Inr_iff asset_add_iff split: if_splits
      intro!: flowsI [OF pool_flows(4)] flowsI [OF pool_flows(5)])

lemma get_activity_flows:
  assumes F: "ext_ok F" and r: "get_activity_reward F cfg reward db = Inr (total_reward, db')"
  shows "flows (amount reward - amount total_reward) db db'" and "amount reward \<le> amount total_reward" and "in_i64 (amount total_reward)"
proof -
  consider p x where "take_block_reward F cfg (voters_reward_scr db) = Inr (x, p)" "asset_add F reward x = Inr total_reward" "db' = db\<lparr>voters_reward_scr := p\<rparr>"
    | p x where "take_block_reward F cfg (voters_reward_sp db) = Inr (x, p)" "asset_add F reward x = Inr total_reward" "db' = db\<lparr>voters_reward_sp := p\<rparr>"
    using r by (auto simp: get_activity_reward_def bindE_Inr_iff split: if_splits)
  then have "flows (amount reward - amount total_reward) db db' \<and> amount reward \<le> amount total_reward \<and> in_i64 (amount total_reward)"
  proof cases
    case 1
    note t = take_block_reward_flow [OF F 1(1)]
    from t(1) 1(2) F have "amount reward - amount total_reward = amount (rb_balance p) - amount (rb_balance (voters_reward_scr db))" by (auto simp: asset_add_iff)
    then show ?thesis using pool_flows(4) [OF t(2)] 1 F t(4) by (auto simp: asset_add_iff)
  next
    case 2
    note t = take_block_reward_flow [OF F 2(1)]
    from t(1) 2(2) F have "amount reward - amount total_reward = amount (rb_balance p) - amount (rb_balance (voters_reward_sp db))" by (auto simp: asset_add_iff)
    then show ?thesis using pool_flows(5) [of p db] 2 F t(4) by (auto simp: asset_add_iff)
  qed
  then show "flows (amount reward - amount total_reward) db db'" "amount reward \<le> amount total_reward" "in_i64 (amount total_reward)" by blast+
qed

lemma pay_account_flows: "ext_ok F \<Longrightarrow> pay_account_reward F k reward db = Inr db' \<Longrightarrow> 0 \<le> amount reward \<Longrightarrow> flows (amount reward) db db'"
  by (auto simp: pay_account_reward_def split: if_splits intro: pays_flows increase_balance_pays create_scorumpower_pays)

lemma pay_pending_flows: "ext_ok F \<Longrightarrow> pay_account_pending_reward F k reward db = Inr db' \<Longrightarrow> 0 \<le> amount reward \<Longrightarrow> flows (amount reward) db db'"
  by (auto simp: pay_account_pending_reward_def split: if_splits
      intro: pays_flows increase_pending_balance_pays increase_pending_scorumpower_pays)

lemma witness_totals_flows:
  assumes "p = (dgp db)\<lparr>dgp_total_witness_reward_scr := x\<rparr> \<or> p = (dgp db)\<lparr>dgp_total_witness_reward_sp := x\<rparr>"
  shows "flows 0 db (db\<lparr>dgp := p\<rparr>)"
proof -
  have "keeps db (db\<lparr>dgp := p\<rparr>)" by (rule keeps_dgp) (use assms in \<open>auto simp: dgp_ok_def\<close>)
  moreover have "ledger_move 0 db (db\<lparr>dgp := p\<rparr>)"
    using assms by (auto simp: ledger_move_def db_ok_def tables_ok_def pools_ok_def dgp_ok_def supply_sum_def gaps_def acc_sum_def locked_def pools_def)
  moreover have "stat_of t p = stat_of t (dgp db)" for t using assms by (cases t) (auto simp: stat_of_def)
  ultimately show ?thesis using assms by (auto simp: flows_def head_block_time_def)
qed

lemma pay_witness_flows:
  assumes F: "ext_ok F" and r: "pay_witness_reward F k reward db = Inr db'" and pos: "0 \<le> amount reward"
  shows "flows (amount reward) db db'"
proof -
  from r obtain p x where p: "p = (dgp db)\<lparr>dgp_total_witness_reward_scr := x\<rparr> \<or> p = (dgp db)\<lparr>dgp_total_witness_reward_sp := x\<rparr>"
    and 2: "pay_account_reward F k reward (db\<lparr>dgp := p\<rparr>) = Inr db'"
    by (cases "symbol reward = SCORUM_SYMBOL") (fastforce simp: pay_witness_reward_def update_dgp_def bindE_Inr_iff)+
  show ?thesis using flows_trans [OF witness_totals_flows [OF p] pay_account_flows [OF F 2 pos]] by simp
qed

lemma adjust_witness_flows:
  assumes F: "ext_ok F" and r: "adjust_witness_reward F cfg w db = Inr (w', db')" and p: "0 \<le> amount w"
  shows "flows (amount w - amount w') db db'" and "0 \<le> amount w'"
proof -
  have "flows (amount w - amount w') db db' \<and> 0 \<le> amount w'"
    using r p F by (auto simp: adjust_witness_reward_def bindE_Inr_iff fc_simps migrate_deferred_payment_def new_reward_to_migrate_def old_reward_to_migrate_def
        split: if_splits option.splits intro!: flowsI [OF pool_flows(8)])
  then show "flows (amount w - amount w') db db'" "0 \<le> amount w'" by blast+
qed

lemma witness_reward_flows:
  "ext_ok F \<Longrightarrow> distribute_witness_reward F w db = Inr db' \<Longrightarrow> 0 \<le> amount w \<Longrightarrow> flows (amount w) db db'"
  by (auto simp: distribute_witness_reward_def bindE_Inr_iff intro: pay_witness_flows)

text \<open>The accounts as the holders' shares see them; paying one holder does not change the share of another.\<close>

definition competitive_sp :: "database \<Rightarrow> nat \<Rightarrow> int" where
  "competitive_sp db k = (case map_of (indices (accounts db)) k of None \<Rightarrow> 0 | Some a \<Rightarrow> amount (a_vote_reward_competitive_sp a))"

lemma competitive_sp_free: "competitive_sp (purse_free db) = competitive_sp db"
proof
  fix k :: nat
  have "map_of (map (\<lambda>r. (fst r, f (snd r))) rs) k = map_option f (map_of rs k)" for f :: "account_object \<Rightarrow> account_object" and rs
    by (induction rs) auto
  then show "competitive_sp (purse_free db) k = competitive_sp db k"
    by (simp add: competitive_sp_def purse_free_def blank_rows_def) (simp add: blank_account_def split: option.split)
qed

lemma competitive_total:
  assumes F: "ext_ok F" and r: "foldE (add_competitive_sp F db) ks acc = Inr total_sp"
  shows "amount total_sp = amount acc + (\<Sum>k\<leftarrow>ks. competitive_sp db k) \<and> (in_i64 (amount acc) \<longrightarrow> in_i64 (amount total_sp))"
  using r
proof (induction ks arbitrary: acc)
  case (Cons k ks)
  from Cons.prems obtain acc1 where "add_competitive_sp F db k acc = Inr acc1" and rest: "foldE (add_competitive_sp F db) ks acc1 = Inr total_sp"
    by (auto simp: bindE_Inr_iff)
  then have "amount acc1 = amount acc + competitive_sp db k" "in_i64 (amount acc1)"
    using F by (auto simp: add_competitive_sp_def bindE_Inr_iff account_at_def ix_get_iff asset_add_iff competitive_sp_def)
  with Cons.IH [OF rest] show ?case by auto
qed simp

lemma holder_pay_cases:
  assumes F: "ext_ok F"
    and pay: "(if has_hardfork SCORUM_HARDFORK_0_2 db then pay_account_pending_reward F k y db else pay_account_reward F k y db) = Inr db'"
  shows "amount y \<le> 0 \<and> db' = db \<or> 0 < amount y \<and> pays (amount y) db db'"
  using assms by (auto simp: pay_account_pending_reward_def pay_account_reward_def split: if_splits
      intro: increase_balance_pays create_scorumpower_pays increase_pending_balance_pays increase_pending_scorumpower_pays)

lemma reward_holder_cases:
  assumes F: "ext_ok F" and r: "reward_sp_holder F reward total_sp k (x, db) = Inr (x', db')"
  shows "\<exists>y. asset_mul_fraction F reward \<lparr>numerator = competitive_sp db k, denominator = amount total_sp\<rparr> = Inr y \<and> asset_add F x y = Inr x' \<and>
    0 \<le> competitive_sp db k \<and> 0 \<le> amount reward \<and> (amount y \<le> 0 \<and> db' = db \<or> 0 < amount y \<and> pays (amount y) db db')"
proof -
  from r obtain a y where a: "map_of (indices (accounts db)) k = Some a"
    and y: "asset_mul_fraction F reward \<lparr>numerator = amount (a_vote_reward_competitive_sp a), denominator = amount total_sp\<rparr> = Inr y"
    and pay: "(if has_hardfork SCORUM_HARDFORK_0_2 db then pay_account_pending_reward F k y db else pay_account_reward F k y db) = Inr db'"
    and x': "asset_add F x y = Inr x'"
    by (auto simp: reward_sp_holder_def bindE_Inr_iff account_at_def ix_get_iff make_fraction_def)
  have "0 \<le> amount (a_vote_reward_competitive_sp a) \<and> 0 \<le> amount reward"
    using y by (auto simp: asset_mul_fraction_def multiply_by_fractional_def bindE_Inr_iff fc_assert_Inr_iff)
  then show ?thesis using holder_pay_cases [OF F pay] a y x' by (auto simp: competitive_sp_def)
qed

lemma reward_holders_nonneg:
  assumes F: "ext_ok F"
  shows "foldE (reward_sp_holder F reward total_sp) ks (x, db) = Inr (x', db') \<Longrightarrow> db_ok db \<Longrightarrow> \<forall>k \<in> set ks. 0 \<le> competitive_sp db k"
proof (induction ks arbitrary: x db)
  case (Cons k ks)
  from Cons.prems(1) obtain x1 db1 where 1: "reward_sp_holder F reward total_sp k (x, db) = Inr (x1, db1)"
    and rest: "foldE (reward_sp_holder F reward total_sp) ks (x1, db1) = Inr (x', db')" by (auto simp: bindE_Inr_iff)
  from reward_holder_cases [OF F 1] have "0 \<le> competitive_sp db k" "db_ok db1 \<and> purse_free db1 = purse_free db"
    using Cons.prems(2) pays_free by (auto simp: pays_def ledger_move_def)
  then show ?case using Cons.IH [OF rest] competitive_sp_free [of db] competitive_sp_free [of db1] by simp
qed simp

lemma reward_holder_pays:
  assumes F: "ext_ok F" and r: "reward_sp_holder F reward total_sp k (x, db) = Inr (x', db')" and big: "amount reward < 2 ^ 63"
    and c: "competitive_sp db k \<le> amount total_sp" "amount total_sp < 2 ^ 64"
  shows "flows (amount x' - amount x) db db' \<and> amount x' - amount x = competitive_sp db k * amount reward div amount total_sp \<and> 0 \<le> amount reward \<and>
    symbol x' = symbol x \<and> (db_ok db \<longrightarrow> purse_free db' = purse_free db)"
proof -
  obtain y where y: "asset_mul_fraction F reward \<lparr>numerator = competitive_sp db k, denominator = amount total_sp\<rparr> = Inr y"
    and x': "asset_add F x y = Inr x'" and p: "0 \<le> amount reward"
    and pay: "amount y \<le> 0 \<and> db' = db \<or> 0 < amount y \<and> pays (amount y) db db'"
    using reward_holder_cases [OF F r] by blast
  have v: "amount y = amount reward * competitive_sp db k div amount total_sp" "0 \<le> amount y"
    using mul_fraction_value [OF F y] c big by simp_all
  have "flows (amount y) db db'" "db_ok db \<longrightarrow> purse_free db' = purse_free db"
    using pay v(2) pays_flows pays_free by auto
  then show ?thesis using x' F v p by (auto simp: asset_add_iff mult.commute)
qed

lemma reward_holders_loop:
  assumes F: "ext_ok F" and big: "amount reward < 2 ^ 63" "amount total_sp < 2 ^ 64"
  shows "foldE (reward_sp_holder F reward total_sp) ks (x, db) = Inr (x', db') \<Longrightarrow> db_ok db \<Longrightarrow> \<forall>k \<in> set ks. competitive_sp db k \<le> amount total_sp \<Longrightarrow>
    flows (amount x' - amount x) db db' \<and> amount x' - amount x = (\<Sum>k\<leftarrow>ks. competitive_sp db k * amount reward div amount total_sp) \<and>
    (ks \<noteq> [] \<longrightarrow> 0 \<le> amount reward) \<and> symbol x' = symbol x"
proof (induction ks arbitrary: x db)
  case Nil
  then show ?case by auto
next
  case (Cons k ks)
  from Cons.prems(1) obtain x1 db1 where 1: "reward_sp_holder F reward total_sp k (x, db) = Inr (x1, db1)"
    and rest: "foldE (reward_sp_holder F reward total_sp) ks (x1, db1) = Inr (x', db')" by (auto simp: bindE_Inr_iff)
  have s1: "flows (amount x1 - amount x) db db1" "amount x1 - amount x = competitive_sp db k * amount reward div amount total_sp" "0 \<le> amount reward"
    "symbol x1 = symbol x" "purse_free db1 = purse_free db"
    using reward_holder_pays [OF F 1 big(1) _ big(2)] Cons.prems(2,3) by auto
  have same: "competitive_sp db1 = competitive_sp db" using s1(5) competitive_sp_free by metis
  have s2: "flows (amount x' - amount x1) db1 db'" "amount x' - amount x1 = (\<Sum>k\<leftarrow>ks. competitive_sp db k * amount reward div amount total_sp)"
    "symbol x' = symbol x1"
    using Cons.IH [OF rest flows_ok [OF s1(1) Cons.prems(2)]] Cons.prems(3) by (auto simp: same)
  have "flows (amount x' - amount x) db db'" by (rule flows_trans [OF s1(1) s2(1)]) simp
  then show ?case using s1 s2 by (simp only: list.map sum_list.Cons) auto
qed

lemma holder_share_le: "(\<forall>k \<in> set ks. 0 \<le> (f k :: int)) \<Longrightarrow> k \<in> set ks \<Longrightarrow> f k \<le> (\<Sum>k\<leftarrow>ks. f k)"
  by (rule member_le_sum_list) auto

lemma active_holders_flows:
  assumes F: "ext_ok F" and r: "distribute_active_sp_holders_reward F cfg reward db = Inr db'" and ok: "db_ok db" and pos: "0 \<le> amount reward"
  shows "flows (amount reward) db db'"
proof -
  from r obtain total_reward db1 z x db2 rest where 1: "get_activity_reward F cfg reward db = Inr (total_reward, db1)"
    and z: "mk_asset 0 (symbol reward) = Inr z"
    and 2: "(if get_active_sp_holders db1 \<noteq> [] then
              bindE (foldE (add_competitive_sp F db1) (get_active_sp_holders db1) (SP 0)) (\<lambda>total_sp.
              if amount total_sp > 0 then foldE (reward_sp_holder F total_reward total_sp) (get_active_sp_holders db1) (z, db1)
              else Inr (z, db1))
            else Inr (z, db1)) = Inr (x, db2)"
    and rest: "asset_sub F total_reward x = Inr rest" and 3: "pay_activity_reward F rest db2 = Inr db'"
    unfolding distribute_active_sp_holders_reward_def bindE_Inr_iff Let_def by (auto simp: bindE_Inr_iff)
  note t = get_activity_flows [OF F 1]
  have ok1: "db_ok db1" by (rule flows_ok [OF t(1) ok])
  have z0: "amount z = 0" using z by (auto simp: mk_asset_def bindE_Inr_iff)
  have x: "flows (amount x) db1 db2 \<and> amount x \<le> amount total_reward"
  proof -
    consider "x = z" "db2 = db1" | total_sp where "foldE (add_competitive_sp F db1) (get_active_sp_holders db1) (SP 0) = Inr total_sp" "0 < amount total_sp"
        "foldE (reward_sp_holder F total_reward total_sp) (get_active_sp_holders db1) (z, db1) = Inr (x, db2)"
      using 2 by (auto simp: bindE_Inr_iff split: if_splits)
    then show ?thesis
    proof cases
      case 1
      then show ?thesis using z0 t(2) pos by auto
    next
      case 2
      let ?ks = "get_active_sp_holders db1" and ?c = "competitive_sp db1"
      have sum: "amount total_sp = (\<Sum>k\<leftarrow>?ks. ?c k)" using competitive_total [OF F 2(1)] by simp
      have nn: "\<forall>k \<in> set ?ks. 0 \<le> ?c k" by (rule reward_holders_nonneg [OF F 2(3) ok1])
      then have le: "\<forall>k \<in> set ?ks. ?c k \<le> amount total_sp" using holder_share_le [of ?ks ?c] sum by simp
      have big: "amount total_reward < 2 ^ 63" "amount total_sp < 2 ^ 64" using t(3) competitive_total [OF F 2(1)] by (auto simp: in_i64_def)
      from reward_holders_loop [OF F big 2(3) ok1 le] z0
      have l: "flows (amount x) db1 db2" "amount x = (\<Sum>k\<leftarrow>?ks. ?c k * amount total_reward div amount total_sp)" "?ks \<noteq> [] \<longrightarrow> 0 \<le> amount total_reward"
        by auto
      have "?ks \<noteq> []" using sum 2(2) by auto
      then have "(\<Sum>c\<leftarrow>map ?c ?ks. c * amount total_reward div amount total_sp) \<le> amount total_reward"
        using l(3) nn 2(2) sum by (intro pro_rata_sum) auto
      then show ?thesis using l by (simp add: comp_def)
    qed
  qed
  have d: "amount rest = amount total_reward - amount x" using rest F by (auto simp: asset_sub_iff)
  have "flows (amount reward - amount total_reward + amount x) db db2" by (rule flows_trans [OF t(1)]) (use x in auto)
  moreover have "flows (amount rest) db2 db'" using pay_activity_flows [OF F 3] x d by simp
  ultimately show ?thesis by (rule flows_trans) (simp add: d)
qed

lemma distribute_flows:
  assumes F: "ext_ok F" and r: "distribute_reward F cfg reward db = Inr db'" and ok: "db_ok db" and big: "amount reward < 2 ^ 63"
  shows "flows (amount reward) db db'"
proof -
  let ?tenth = "\<lparr>numerator = 1000, denominator = 10000\<rparr>"
  have f: "make_fraction SCORUM_WITNESS_PER_BLOCK_REWARD_PERCENT SCORUM_100_PERCENT = Inr ?tenth"
    "make_fraction SCORUM_ACTIVE_SP_HOLDERS_PER_BLOCK_REWARD_PERCENT SCORUM_100_PERCENT = Inr ?tenth"
    by (simp_all add: make_fraction_def SCORUM_WITNESS_PER_BLOCK_REWARD_PERCENT_def SCORUM_ACTIVE_SP_HOLDERS_PER_BLOCK_REWARD_PERCENT_def
        SCORUM_1_PERCENT_def SCORUM_100_PERCENT_def)
  from r obtain w a rest c w' db1 db2 db3 where w: "asset_mul_fraction F reward ?tenth = Inr w" and a: "asset_mul_fraction F reward ?tenth = Inr a"
    and c: "asset_sub F reward w = Inr rest" "asset_sub F rest a = Inr c" "0 \<le> amount c"
    and 1: "adjust_witness_reward F cfg w db = Inr (w', db1)" and 2: "distribute_witness_reward F w' db1 = Inr db2"
    and 3: "distribute_active_sp_holders_reward F cfg a db2 = Inr db3" and 4: "pay_content_reward F c db3 = Inr db'"
    unfolding distribute_reward_def f by (auto simp: bindE_Inr_iff fc_assert_Inr_iff)
  have p: "0 \<le> amount w" "0 \<le> amount a" using mul_fraction_value(3) [OF F w] mul_fraction_value(3) [OF F a] big by simp_all
  note s1 = adjust_witness_flows [OF F 1 p(1)]
  have s2: "flows (amount w) db db2" by (rule flows_trans [OF s1(1) witness_reward_flows [OF F 2 s1(2)]]) simp
  have "flows (amount w + amount a) db db3" by (rule flows_trans [OF s2 active_holders_flows [OF F 3 flows_ok [OF s2 ok] p(2)]]) simp
  then show ?thesis by (rule flows_trans [OF _ pay_content_flows [OF F 4 c(3)]]) (use c F in \<open>auto simp: asset_sub_iff\<close>)
qed

lemma fund_cash_flows:
  assumes F: "ext_ok F" and b: "fund_budget db = Some b" and r: "fund_allocate_cash F b db = Inr (cash, db')"
  shows "flows (- amount cash) db db'"
proof -
  from r obtain x where m: "asset_min (fb_balance b) (fb_per_block b) = Inr cash" and x: "asset_sub F (fb_balance b) cash = Inr x"
    and db': "db' = db\<lparr>fund_budget := (if amount x \<le> 0 then None else Some (b\<lparr>fb_balance := x\<rparr>))\<rparr>"
    by (auto simp: fund_allocate_cash_def bindE_Inr_iff)
  have "amount cash \<le> amount (fb_balance b)" using m by (auto simp: asset_min_def bindE_Inr_iff asset_order_iffs)
  then have "amount x = amount (fb_balance b) - amount cash" "0 \<le> amount x" using x F by (auto simp: asset_sub_iff)
  then show ?thesis unfolding db' by (intro flowsI [OF pool_flows(6)]) (simp add: b)
qed

section \<open>The block\<close>

text \<open>The state of the budgets between two blocks: every budget can pay what it still has to.\<close>

definition budgets_fair :: "database \<Rightarrow> bool" where
  "budgets_fair db \<longleftrightarrow> (\<forall>t. fair_rows (head_block_time db) t db)"

lemma flows_fair: "flows d db db' \<Longrightarrow> db_ok db \<Longrightarrow> fair_rows h t db' = fair_rows h t db"
  by (simp add: flows_def fair_rows_def)

lemma flows_books: "flows d db db' \<Longrightarrow> db_ok db \<Longrightarrow> books t db' = books t db"
  by (simp add: flows_def books_def)

definition block_settles :: "int \<Rightarrow> database \<Rightarrow> database \<Rightarrow> bool" where
  "block_settles d db db' \<longleftrightarrow> keeps db db' \<and> ledger_move d db db' \<and> (db_ok db \<longrightarrow> head_block_time db' = head_block_time db \<and> (\<forall>t. books t db' = books t db))"

lemma flows_block: "flows d db db' \<Longrightarrow> block_settles d db db'"
  using flows_books by (auto simp: block_settles_def flows_def)

lemma settles_block: "settles d db db' \<Longrightarrow> block_settles d db db'"
  using settles_time by (auto simp: block_settles_def settles_def)

lemma block_settles_trans: "block_settles d db db1 \<Longrightarrow> block_settles e db1 db2 \<Longrightarrow> d + e = f \<Longrightarrow> block_settles f db db2"
  unfolding block_settles_def by (metis keeps_trans ledger_move_def ledger_move_trans)

lemma block_settles_ok: "block_settles d db db' \<Longrightarrow> db_ok db \<Longrightarrow> db_ok db'"
  by (simp add: block_settles_def ledger_move_def)

lemma fair_rows_later: "fair_rows h t db \<Longrightarrow> h \<le> h' \<Longrightarrow> h mod 3 = h' mod 3 \<Longrightarrow> fair_rows h' t db"
  unfolding fair_rows_def by (blast intro: fair_later)

lemma adv_reward_flows:
  assumes F: "ext_ok F" and ok: "db_ok db" and reward: "symbol reward = SCORUM_SYMBOL" "0 \<le> amount reward" "in_i64 (amount reward)"
    and dev: "asset_mul_fraction F reward \<lparr>numerator = 5000, denominator = 10000\<rparr> = Inr dev"
    and bal: "asset_add F (dc_scr_balance (dev_pool db)) dev = Inr scr"
    and part: "asset_sub F reward dev = Inr part"
    and pool: "increase_ballance F part (content_reward_scr db) = Inr pool" "take_block_reward F cfg pool = Inr (users, pool')"
    and r: "distribute_reward F cfg users (db\<lparr>dev_pool := (dev_pool db)\<lparr>dc_scr_balance := scr\<rparr>, content_reward_scr := pool'\<rparr>) = Inr db'"
  shows "flows (amount reward) db db'"
proof -
  let ?db1 = "db\<lparr>dev_pool := (dev_pool db)\<lparr>dc_scr_balance := scr\<rparr>\<rparr>" and ?db2 = "db\<lparr>dev_pool := (dev_pool db)\<lparr>dc_scr_balance := scr\<rparr>, content_reward_scr := pool'\<rparr>"
  have s1: "flows (amount dev) db ?db1" by (rule flowsI [OF pool_flows(7)]) (use bal F in \<open>auto simp: asset_add_iff\<close>)
  have p: "rb_balance pool = (rb_balance (content_reward_scr db))\<lparr>amount := amount (rb_balance (content_reward_scr db)) + amount part\<rparr>" "in_i64 (amount (rb_balance pool))"
    using pool(1) F by (auto simp: increase_ballance_def bindE_Inr_iff asset_add_iff)
  note t = take_block_reward_flow [OF F pool(2)]
  have "flows (amount (rb_balance pool') - amount (rb_balance (content_reward_scr ?db1))) ?db1 (?db1\<lparr>content_reward_scr := pool'\<rparr>)"
    by (rule pool_flows(3)) (use t(2) p(1) in simp)
  then have s2: "flows (amount part - amount users) ?db1 ?db2" by (rule flowsI [where db' = ?db2, simplified]) (use t(1) p(1) in simp)
  have s12: "flows (amount reward - amount users) db ?db2" by (rule flows_trans [OF s1 s2]) (use part F in \<open>auto simp: asset_sub_iff\<close>)
  have "amount users < 2 ^ 63" using t(3) p(2) by (auto simp: in_i64_def)
  from flows_trans [OF s12 distribute_flows [OF F r flows_ok [OF s12 ok] this]] show ?thesis by simp
qed

lemma process_funds_settles:
  assumes F: "ext_ok F" and r: "process_funds F cfg n db = Inr db'" and ok: "db_ok db" and fair: "\<And>t. fair_rows h t db"
    and time: "h < head_block_time db" "h mod 3 = head_block_time db mod 3"
  shows "block_settles 0 db db'" and "budgets_fair db'"
proof -
  let ?half = "\<lparr>numerator = 5000, denominator = 10000\<rparr>"
  have f: "make_fraction SCORUM_DEV_TEAM_PER_BLOCK_REWARD_PERCENT SCORUM_100_PERCENT = Inr ?half"
    by (simp add: make_fraction_def SCORUM_DEV_TEAM_PER_BLOCK_REWARD_PERCENT_def SCORUM_1_PERCENT_def SCORUM_100_PERCENT_def)
  have "block_settles 0 db db' \<and> (\<forall>t. fair_rows (head_block_time db) t db')"
  proof (cases "apply_mainnet_schedule_crutches n")
    case True
    then show ?thesis using r time fair_rows_later [OF fair] by (auto simp: process_funds_def intro: flows_block)
  next
    case False
    with r obtain x db1 db2 reward db3 dev scr part pool users pool' where
      1: "(case fund_budget db of None \<Rightarrow> Inr (SP 0, db) | Some b \<Rightarrow> bindE (fund_allocate_cash F b db) (\<lambda>(cash, db).
             bindE (asset_add F (SP 0) cash) (\<lambda>r. Inr (r, db)))) = Inr (x, db1)"
      and 2: "distribute_reward F cfg x db1 = Inr db2" and 3: "run_auction_round F cfg db2 = Inr (reward, db3)"
      and last: "asset_mul_fraction F reward ?half = Inr dev" "asset_add F (dc_scr_balance (dev_pool db3)) dev = Inr scr"
        "asset_sub F reward dev = Inr part" "increase_ballance F part (content_reward_scr db3) = Inr pool" "take_block_reward F cfg pool = Inr (users, pool')"
        "distribute_reward F cfg users (db3\<lparr>dev_pool := (dev_pool db3)\<lparr>dc_scr_balance := scr\<rparr>, content_reward_scr := pool'\<rparr>) = Inr db'"
      unfolding process_funds_def f by (auto simp: bindE_Inr_iff Let_def)
    have s1: "flows (- amount x) db db1" "amount x < 2 ^ 63"
      using 1 F fund_cash_flows [OF F] by (auto simp: bindE_Inr_iff asset_add_iff in_i64_def split: option.splits)
    have ok1: "db_ok db1" by (rule flows_ok [OF s1(1) ok])
    have s2: "flows 0 db db2" by (rule flows_trans [OF s1(1) distribute_flows [OF F 2 ok1 s1(2)]]) simp
    have ok2: "db_ok db2" and now: "head_block_time db2 = head_block_time db" using flows_ok [OF s2 ok] s2 ok by (auto simp: flows_def)
    have fair2: "fair_rows h t db2" for t using flows_fair [OF s2 ok] fair by simp
    note s3 = auction_round_settles [OF F 3 ok2 fair2 time [folded now]]
    have ok3: "db_ok db3" by (rule settles_ok [OF s3(1) ok2])
    have s4: "flows (amount reward) db3 db'" by (rule adv_reward_flows [OF F ok3 s3(3-5) last])
    have "block_settles (- amount reward) db db3" by (rule block_settles_trans [OF flows_block [OF s2] settles_block [OF s3(1)]]) simp
    then have "block_settles 0 db db'" by (rule block_settles_trans [OF _ flows_block [OF s4]]) simp
    moreover have "fair_rows (head_block_time db) t db'" for t using flows_fair [OF s4 ok3] s3(2) now by simp
    ultimately show ?thesis by blast
  qed
  then show "block_settles 0 db db'" "budgets_fair db'" using ok by (auto simp: budgets_fair_def block_settles_def)
qed

end
