(* ===== verification/Witness_Schedule.thy ===== *)
theory Witness_Schedule
  imports Sample_Chain Advertising
begin

unbundle bit_operations_syntax

text \<open>
  Who signs which block: the slots of time and the header checks of \<^verbatim>\<open>database.cpp\<close>, and the schedule of
  \<^verbatim>\<open>database_witness_schedule.cpp\<close> with the witnesses it selects, their virtual time, the shuffle and the
  votes it counts. The order of the account names is an argument (\<open>before\<close>), as is everything of a
  block that its header does not say.
\<close>

section \<open>Slots\<close>

definition head_block_num :: "database \<Rightarrow> nat" where
  "head_block_num db = dgp_head_block_number (dgp db)"

definition get_slot_time :: "ext_lib \<Rightarrow> nat \<Rightarrow> database \<Rightarrow> nat" where
  "get_slot_time F slot_num db =
     (if slot_num = 0 then 0
      else
        let interval = SCORUM_BLOCK_INTERVAL; ahead = slot_num * interval mod 2 ^ 32 in
        if head_block_num db = 0 then time_add F (dgp_time (dgp db)) ahead
        else
          let head_block_abs_slot = head_block_time db div interval;
              head_slot_time = head_block_abs_slot * interval in
          time_add F head_slot_time ahead)"

definition get_slot_at_time :: "ext_lib \<Rightarrow> nat \<Rightarrow> database \<Rightarrow> nat" where
  "get_slot_at_time F time db =
     (let first_slot_time = get_slot_time F 1 db in
      if time < first_slot_time then 0
      else nat (time_diff F time first_slot_time div int SCORUM_BLOCK_INTERVAL + 1))"

definition get_scheduled_witness :: "nat \<Rightarrow> database \<Rightarrow> account_name" where
  "get_scheduled_witness slot_num db =
     (let current_aslot = (dgp_current_aslot (dgp db) + slot_num) mod 2 ^ 64 in
      current_shuffled_witnesses db ! (current_aslot mod num_scheduled_witnesses db))"

section \<open>Headers\<close>

record block_header =
  bh_id :: string
  bh_previous :: string
  bh_num :: nat
  bh_timestamp :: nat
  bh_witness :: account_name

text \<open>The id of the head block is not part of the model; the signature check is an argument.\<close>

definition validate_block_header ::
  "ext_lib \<Rightarrow> bool \<Rightarrow> bool \<Rightarrow> (public_key \<Rightarrow> bool) \<Rightarrow> string \<Rightarrow> block_header \<Rightarrow> database \<Rightarrow> nat res"
where
  "validate_block_header F skip_witness_signature skip_witness_schedule_check validate_signee head_block_id b db =
     bindE (fc_assert (head_block_id = bh_previous b) '''') (\<lambda>_.
     bindE (fc_assert (head_block_time db < bh_timestamp b) '''') (\<lambda>_.
     bindE (get_witness (bh_witness b) db) (\<lambda>k.
     bindE (ix_get (witnesses db) k) (\<lambda>witness.
     bindE (if skip_witness_signature then Inr () else fc_assert (validate_signee (w_signing_key witness)) ''validate_signee'') (\<lambda>_.
     bindE (if skip_witness_schedule_check then Inr ()
            else
              let slot_num = get_slot_at_time F (bh_timestamp b) db in
              bindE (fc_assert (slot_num > 0) ''slot_num'') (\<lambda>_.
              fc_assert (w_owner witness = get_scheduled_witness slot_num db) ''Witness produced block at wrong time'')) (\<lambda>_.
     Inr k))))))"

definition SCORUM_WITNESS_MISSED_BLOCKS_THRESHOLD :: nat where
  "SCORUM_WITNESS_MISSED_BLOCKS_THRESHOLD = 24 * 60 * 60 div SCORUM_BLOCK_INTERVAL div 2"

definition miss_block :: "block_header \<Rightarrow> nat \<Rightarrow> database \<Rightarrow> database res" where
  "miss_block b i db =
     bindE (get_witness (get_scheduled_witness (i + 1) db) db) (\<lambda>k.
     bindE (ix_get (witnesses db) k) (\<lambda>witness_missed.
     if w_owner witness_missed \<noteq> bh_witness b then
       update_witness_row k (\<lambda>w.
         let w = w\<lparr>w_total_missed := (w_total_missed w + 1) mod 2 ^ 32\<rparr> in
         Inr (if (int (head_block_num db) - int (w_last_confirmed_block_num w)) mod 2 ^ 32 > int SCORUM_WITNESS_MISSED_BLOCKS_THRESHOLD
              then w\<lparr>w_signing_key := null_key\<rparr> else w)) db
     else Inr db))"

text \<open>One slot of the window of the last 128 slots; the first of a block is its own.\<close>

definition fill_slot :: "nat \<Rightarrow> u128 \<times> nat \<Rightarrow> u128 \<times> nat" where
  "fill_slot i st =
     (case st of (recent_slots_filled, participation_count) \<Rightarrow>
      let count = (int participation_count - (if bit recent_slots_filled 127 then 1 else 0)) mod 2 ^ 8;
          recent = push_bit 1 recent_slots_filled + (if i = 0 then 1 else 0);
          count = (count + (if i = 0 then 1 else 0)) mod 2 ^ 8 in
      (recent, nat count))"

definition SCORUM_MAX_UNDO_HISTORY :: nat where
  "SCORUM_MAX_UNDO_HISTORY = 10000"

definition update_global_dynamic_data :: "ext_lib \<Rightarrow> bool \<Rightarrow> block_header \<Rightarrow> database \<Rightarrow> database res" where
  "update_global_dynamic_data F skip_undo_history_check b db =
     (let missed_blocks = (if head_block_time db \<noteq> 0 then nat ((int (get_slot_at_time F (bh_timestamp b) db) - 1) mod 2 ^ 32) else 0) in
     bindE (foldE (miss_block b) [0..<missed_blocks] db) (\<lambda>db.
     bindE (update_dgp (\<lambda>p.
              let (recent, count) = fold fill_slot [0..<missed_blocks + 1] (dgp_recent_slots_filled p, dgp_participation_count p) in
              Inr (p\<lparr>dgp_recent_slots_filled := recent, dgp_participation_count := count, dgp_head_block_number := bh_num b,
                   dgp_time := bh_timestamp b, dgp_current_aslot := (dgp_current_aslot p + missed_blocks + 1) mod 2 ^ 64\<rparr>)) db) (\<lambda>db.
     bindE (if skip_undo_history_check then Inr ()
            else fc_assert ((int (head_block_num db) - int (dgp_last_irreversible_block_num (dgp db))) mod 2 ^ 32 < int SCORUM_MAX_UNDO_HISTORY)
                   ''The database does not have enough undo history'') (\<lambda>_.
     Inr db))))"

definition update_signing_witness :: "nat \<Rightarrow> block_header \<Rightarrow> database \<Rightarrow> database res" where
  "update_signing_witness k b db = update_witness_row k (\<lambda>w. Inr (w\<lparr>w_last_confirmed_block_num := bh_num b\<rparr>)) db"

definition SCORUM_START_MINER_VOTING_BLOCK :: nat where
  "SCORUM_START_MINER_VOTING_BLOCK = 24 * 60 * 60 div SCORUM_BLOCK_INTERVAL * 30"

definition SCORUM_IRREVERSIBLE_THRESHOLD :: nat where
  "SCORUM_IRREVERSIBLE_THRESHOLD = 75 * 100"

fun mapE :: "('a \<Rightarrow> 'b res) \<Rightarrow> 'a list \<Rightarrow> 'b list res" where
  "mapE f [] = Inr []"
| "mapE f (x # xs) = bindE (f x) (\<lambda>y. bindE (mapE f xs) (\<lambda>ys. Inr (y # ys)))"

definition scheduled_witness :: "database \<Rightarrow> nat \<Rightarrow> witness_object res" where
  "scheduled_witness db i = bindE (get_witness (current_shuffled_witnesses db ! i) db) (ix_get (witnesses db))"

definition scheduled_witnesses :: "database \<Rightarrow> witness_object list res" where
  "scheduled_witnesses db = mapE (scheduled_witness db) [0..<num_scheduled_witnesses db]"

text \<open>
  The last irreversible block, as far as the global properties keep it; committing the undo
  history up to it is modelled with the sessions and the fork database. The element \<^verbatim>\<open>nth_element\<close>
  puts at a position is the one a sort would put there.
\<close>

definition update_last_irreversible_block :: "config \<Rightarrow> database \<Rightarrow> database res" where
  "update_last_irreversible_block cfg db =
     (if head_block_num db < SCORUM_START_MINER_VOTING_BLOCK then
        update_dgp (\<lambda>p. Inr (if head_block_num db > scorum_max_witnesses cfg
          then p\<lparr>dgp_last_irreversible_block_num := head_block_num db - scorum_max_witnesses cfg\<rparr> else p)) db
      else
        bindE (scheduled_witnesses db) (\<lambda>wit_objs.
        let offset = (nat SCORUM_100_PERCENT - SCORUM_IRREVERSIBLE_THRESHOLD) * length wit_objs div nat SCORUM_100_PERCENT;
            new_last = sort (map w_last_confirmed_block_num wit_objs) ! offset in
        if new_last > dgp_last_irreversible_block_num (dgp db) then
          update_dgp (\<lambda>p. Inr (p\<lparr>dgp_last_irreversible_block_num := new_last\<rparr>)) db
        else Inr db))"

section \<open>Selecting the witnesses\<close>

text \<open>The indices \<^verbatim>\<open>by_vote_name\<close> and \<^verbatim>\<open>by_schedule_time\<close>.\<close>

definition by_vote_name :: "(account_name \<Rightarrow> account_name \<Rightarrow> bool) \<Rightarrow> database \<Rightarrow> witness_object rows" where
  "by_vote_name before db = sort_key (\<lambda>r. - w_votes (snd r)) (sort_by (\<lambda>r s. before (w_owner (snd r)) (w_owner (snd s))) (indices (witnesses db)))"

definition by_schedule_time :: "database \<Rightarrow> witness_object rows" where
  "by_schedule_time db = sort_key (\<lambda>r. uint (w_virtual_scheduled_time (snd r))) (indices (witnesses db))"

definition can_sign :: "witness_object \<Rightarrow> bool" where
  "can_sign w \<longleftrightarrow> w_signing_key w \<noteq> null_key"

definition set_schedule :: "witness_schedule_type \<Rightarrow> nat \<Rightarrow> database \<Rightarrow> database res" where
  "set_schedule s k db = update_witness_row k (\<lambda>w. Inr (w\<lparr>w_schedule := s\<rparr>)) db"

definition voted_lead :: "config \<Rightarrow> (account_name \<Rightarrow> account_name \<Rightarrow> bool) \<Rightarrow> database \<Rightarrow> witness_object rows" where
  "voted_lead cfg before db = take (scorum_max_voted_witnesses cfg) (filter (\<lambda>r. can_sign (snd r)) (by_vote_name before db))"

text \<open>
  The runners: the ids already active, the virtual time everyone advances to, the witnesses passed by
  and the ones taken, in the order of the index.
\<close>

fun runners :: "nat \<Rightarrow> nat list \<Rightarrow> u128 \<Rightarrow> witness_object rows \<Rightarrow> u128 \<times> nat list \<times> witness_object rows" where
  "runners limit active new_virtual_time [] = (new_virtual_time, [], [])"
| "runners limit active new_virtual_time (r # rs) =
     (if length active < limit then
        let take_it = can_sign (snd r) \<and> fst r \<notin> set active;
            (t, processed, taken) = runners limit (if take_it then fst r # active else active) (w_virtual_scheduled_time (snd r)) rs in
        (t, fst r # processed, if take_it then r # taken else taken)
      else (new_virtual_time, [], []))"

definition reset_witness_row :: "ext_lib \<Rightarrow> nat \<Rightarrow> database \<Rightarrow> database res" where
  "reset_witness_row F k db =
     update_witness_row k (\<lambda>w. bindE (u128_div F VIRTUAL_SCHEDULE_LAP_LENGTH (word_of_int (w_votes w + 1))) (\<lambda>q.
       Inr (w\<lparr>w_virtual_position := 0, w_virtual_last_update := current_virtual_time db, w_virtual_scheduled_time := q\<rparr>))) db"

definition reset_witness_virtual_schedule_time :: "ext_lib \<Rightarrow> database \<Rightarrow> database res" where
  "reset_witness_virtual_schedule_time F db =
     (let db = db\<lparr>current_virtual_time := 0\<rparr> in foldE (reset_witness_row F) (map fst (indices (witnesses db))) db)"

fun advance_witnesses :: "ext_lib \<Rightarrow> nat list \<Rightarrow> u128 \<Rightarrow> database \<Rightarrow> (u128 \<times> database) res" where
  "advance_witnesses F [] new_virtual_time db = Inr (new_virtual_time, db)"
| "advance_witnesses F (k # ks) new_virtual_time db =
     bindE (ix_get (witnesses db) k) (\<lambda>w.
     bindE (u128_div F VIRTUAL_SCHEDULE_LAP_LENGTH (word_of_int (w_votes w + 1))) (\<lambda>q.
     let new_virtual_scheduled_time = u128_add F new_virtual_time q in
     if new_virtual_scheduled_time < new_virtual_time then
       bindE (reset_witness_virtual_schedule_time F db) (\<lambda>db. Inr (0, db))
     else
       bindE (update_witness_row k (\<lambda>w. Inr (w\<lparr>w_virtual_position := 0, w_virtual_last_update := new_virtual_time,
         w_virtual_scheduled_time := new_virtual_scheduled_time\<rparr>)) db) (\<lambda>db.
       advance_witnesses F ks new_virtual_time db)))"

section \<open>The shuffle\<close>

definition shuffle_key :: "nat \<Rightarrow> nat \<Rightarrow> u64" where
  "shuffle_key now i =
     (let now_hi = push_bit 32 (of_nat now :: u64);
          k = now_hi + of_nat i * 2685821657736338717;
          k = k XOR drop_bit 12 k;
          k = k XOR push_bit 25 k;
          k = k XOR drop_bit 27 k in
      k * 2685821657736338717)"

definition swap :: "nat \<Rightarrow> nat \<Rightarrow> 'a list \<Rightarrow> 'a list" where
  "swap i j xs = xs[i := xs ! j, j := xs ! i]"

definition shuffle_step :: "nat \<Rightarrow> nat \<Rightarrow> nat \<Rightarrow> account_name list \<Rightarrow> account_name list" where
  "shuffle_step now num i xs = (let jmax = num - i; j = i + unat (shuffle_key now i) mod jmax in swap i j xs)"

definition shuffle_witnesses :: "nat \<Rightarrow> nat \<Rightarrow> account_name list \<Rightarrow> account_name list" where
  "shuffle_witnesses now num xs = fold (shuffle_step now num) [0..<num] xs"

section \<open>Counting the scheduled witnesses\<close>

definition votes_of :: "'a list \<Rightarrow> 'a \<Rightarrow> nat" where
  "votes_of xs x = length (filter (\<lambda>y. y = x) xs)"

text \<open>The map from versions to numbers runs from the highest version down, the one of the votes upwards.\<close>

definition update_witness_majority_version :: "config \<Rightarrow> database \<Rightarrow> database res" where
  "update_witness_majority_version cfg db =
     bindE (scheduled_witnesses db) (\<lambda>active.
     let versions = map w_running_version active;
         majority_version =
           (case List.find (\<lambda>v. votes_of versions v \<ge> scorum_hardfork_required_witnesses cfg) (rev (sort (remdups versions))) of
              Some v \<Rightarrow> v
            | None \<Rightarrow> dgp_majority_version (dgp db)) in
     update_dgp (\<lambda>p. Inr (p\<lparr>dgp_majority_version := majority_version\<rparr>)) db)"

definition update_witness_hardfork_version_votes :: "config \<Rightarrow> database \<Rightarrow> database res" where
  "update_witness_hardfork_version_votes cfg db =
     bindE (scheduled_witnesses db) (\<lambda>active.
     let votes = map (\<lambda>w. (w_hardfork_version_vote w, w_hardfork_time_vote w)) active in
     Inr (case List.find (\<lambda>v. votes_of votes v \<ge> scorum_hardfork_required_witnesses cfg) (sort_key fst (sort_key snd (remdups votes))) of
            Some (v, t) \<Rightarrow> db\<lparr>next_hardfork := v, next_hardfork_time := t\<rparr>
          | None \<Rightarrow> db\<lparr>next_hardfork := current_hardfork_version db\<rparr>))"

definition update_witness_median_props :: "database \<Rightarrow> database res" where
  "update_witness_median_props db =
     bindE (scheduled_witnesses db) (\<lambda>active.
     let by_fee = sort_key (\<lambda>w. amount (account_creation_fee (w_proposed_chain_props w))) active;
         median_account_creation_fee = account_creation_fee (w_proposed_chain_props (by_fee ! (length active div 2)));
         by_size = sort_key (\<lambda>w. maximum_block_size (w_proposed_chain_props w)) by_fee;
         median_maximum_block_size = maximum_block_size (w_proposed_chain_props (by_size ! (length active div 2))) in
     update_dgp (\<lambda>p. Inr (p\<lparr>dgp_median_chain_props := (dgp_median_chain_props p)\<lparr>account_creation_fee := median_account_creation_fee,
       maximum_block_size := median_maximum_block_size\<rparr>\<rparr>)) db)"

section \<open>The schedule\<close>

definition set_shuffled :: "(nat \<times> account_name) list \<Rightarrow> u128 \<Rightarrow> database \<Rightarrow> database" where
  "set_shuffled active_witnesses new_virtual_time db =
     (let names = map snd (sort_key fst active_witnesses);
          filled = names @ replicate (SCORUM_MAX_WITNESSES_LIMIT - length names) [];
          num = max (length names mod 2 ^ 8) 1 in
      db\<lparr>current_shuffled_witnesses := shuffle_witnesses (head_block_time db) num filled, num_scheduled_witnesses := num,
        current_virtual_time := new_virtual_time\<rparr>)"

definition update_witness_schedule :: "ext_lib \<Rightarrow> config \<Rightarrow> (account_name \<Rightarrow> account_name \<Rightarrow> bool) \<Rightarrow> database \<Rightarrow> database res" where
  "update_witness_schedule F cfg before db =
     (if head_block_num db mod scorum_max_witnesses cfg = 0 then
        let lead = voted_lead cfg before db in
        bindE (foldE (set_schedule Top20) (map fst lead) db) (\<lambda>db.
        let (new_virtual_time, processed_witnesses, taken) =
              runners (scorum_max_witnesses cfg) (map fst lead) (current_virtual_time db) (by_schedule_time db);
            active_witnesses = map (\<lambda>r. (fst r, w_owner (snd r))) (lead @ taken) in
        bindE (foldE (set_schedule Timeshare) (map fst taken) db) (\<lambda>db.
        bindE (advance_witnesses F processed_witnesses new_virtual_time db) (\<lambda>(new_virtual_time, db).
        let db = set_shuffled active_witnesses new_virtual_time db in
        bindE (update_witness_majority_version cfg db) (\<lambda>db.
        bindE (update_witness_hardfork_version_votes cfg db) (\<lambda>db.
        update_witness_median_props db)))))
      else Inr db)"

end
