(* ===== verification/Sample_Config.thy ===== *)
theory Sample_Config
  imports Sample_Chain
begin

text \<open>The configuration of the tests, for the theorems whose steps read it.\<close>

definition sample_config :: config where
  "sample_config = projr (config_test ext_ref (\<lambda>_. 500))"

lemma sample_config_values [run_simps]:
  "budgets_limit_per_owner sample_config = 8" "advertising_cashout_period_sec sample_config = 15"
  "guaranted_reward_supply_period_in_days sample_config = 2" "reward_increase_threshold_in_days sample_config = 3"
  "scorum_max_witnesses sample_config = 3" "scorum_max_voted_witnesses sample_config = 2" "scorum_hardfork_required_witnesses sample_config = 2"
  by (simp_all add: sample_config_def config_test_def check_witness_limits_def Let_def SCORUM_MAX_WITNESSES_LIMIT_def)

end
