(* ===== verification/Schedule_Properties.thy ===== *)
theory Schedule_Properties
  imports Witness_Schedule Purse_Frame Sample_Config "HOL-Library.Multiset"
begin

text \<open>
  What the schedule promises: a slot for every time and a witness for every slot, a round of distinct
  witnesses that can sign with the most voted ones among them, medians of what they propose, a last
  irreversible block that most of them have confirmed, and a count of the slots that were filled.
\<close>

section \<open>Slots\<close>

definition head_slot :: "database \<Rightarrow> nat" where
  "head_slot db = (if head_block_num db = 0 then dgp_time (dgp db) else head_block_time db div 3 * 3)"

lemma slot_time_value:
  assumes F: "ext_ok F" and n: "0 < n" "head_slot db + 3 * n < 2 ^ 32"
  shows "get_slot_time F n db = head_slot db + 3 * n"
proof -
  have "time_add F t (n * 3 mod 2 ^ 32) = t + 3 * n" if "t + 3 * n < 2 ^ 32" for t
    using that F n by (simp add: time_eqs)
  then show ?thesis using n by (auto simp: get_slot_time_def Let_def SCORUM_BLOCK_INTERVAL_def head_slot_def)
qed

lemma slot_at_time_value:
  assumes F: "ext_ok F" and "head_slot db + 3 < 2 ^ 32"
  shows "get_slot_at_time F t db = (if t < head_slot db + 3 then 0 else (t - (head_slot db + 3)) div 3 + 1)"
proof -
  have f: "get_slot_time F 1 db = head_slot db + 3" using slot_time_value [OF F, of 1 db] assms(2) by simp
  have "nat ((int t - int (head_slot db + 3)) div 3 + 1) = (t - (head_slot db + 3)) div 3 + 1" if "head_slot db + 3 \<le> t"
    using that by (simp add: of_nat_diff [symmetric] nat_add_distrib zdiv_int [symmetric] del: of_nat_diff)
  then show ?thesis using F unfolding get_slot_at_time_def Let_def f SCORUM_BLOCK_INTERVAL_def by (simp add: time_eqs)
qed

text \<open>
  C21: The slots divide the time after the head of the chain: a time lies in slot n exactly when it is
  between the start of slot n and the start of the next one, and the start of a slot lies in it.
\<close>
theorem slots_partition_time:
  assumes F: "ext_ok F" and n: "0 < n" "head_slot db + 3 * (n + 1) < 2 ^ 32"
  shows "(\<forall>t. get_slot_at_time F t db = n \<longleftrightarrow> get_slot_time F n db \<le> t \<and> t < get_slot_time F (n + 1) db) \<and>
    get_slot_at_time F (get_slot_time F n db) db = n"
proof -
  have v: "get_slot_time F n db = head_slot db + 3 * n" "get_slot_time F (n + 1) db = head_slot db + 3 * (n + 1)"
    using slot_time_value [OF F] n by simp_all
  have a: "get_slot_at_time F t db = (if t < head_slot db + 3 then 0 else (t - (head_slot db + 3)) div 3 + 1)" for t
    using slot_at_time_value [OF F] n by simp
  obtain m where m: "n = m + 1" using n(1) by (metis Suc_eq_plus1 gr0_implies_Suc)
  have third: "d div 3 = m \<longleftrightarrow> 3 * m \<le> d \<and> d < 3 * m + 3" for d
    using div_nat_eqI [of 3 m d] div_times_less_eq_dividend [of d 3] dividend_less_div_times [of 3 d] by auto
  have "(t - (head_slot db + 3)) div 3 + 1 = n \<longleftrightarrow> head_slot db + 3 * n \<le> t \<and> t < head_slot db + 3 * (n + 1)" if "head_slot db + 3 \<le> t" for t
  proof -
    define d where "d = t - (head_slot db + 3)"
    have t: "t = head_slot db + 3 + d" using that by (simp add: d_def)
    have "(t - (head_slot db + 3)) div 3 + 1 = n \<longleftrightarrow> d div 3 = m" by (simp add: m d_def)
    also have "\<dots> \<longleftrightarrow> head_slot db + 3 * n \<le> t \<and> t < head_slot db + 3 * (n + 1)" unfolding third t m by auto
    finally show ?thesis .
  qed
  then have "get_slot_at_time F t db = n \<longleftrightarrow> get_slot_time F n db \<le> t \<and> t < get_slot_time F (n + 1) db" for t
    using n(1) unfolding a v by (cases "t < head_slot db + 3") simp_all
  then show ?thesis using v by simp
qed

theorem slots_partition_time_witness:
  "get_slot_at_time ext_ref (get_slot_time ext_ref 5 sample_db) sample_db = 5"
  using slots_partition_time [OF ext_ok_ref, of 5 sample_db]
  by (simp add: head_slot_def head_block_num_def head_block_time_def sample_db_def sample_dgp_def)


section \<open>The shuffle\<close>





section \<open>Selection\<close>


















section \<open>Order statistics\<close>

lemma nth_sorted_below:
  assumes "sorted (ys :: 'a :: linorder list)" and "m < length ys"
  shows "length (filter (\<lambda>y. y < ys ! m) ys) \<le> m" and "length (filter (\<lambda>y. ys ! m < y) ys) \<le> length ys - Suc m"
proof -
  have "ys ! m \<le> y" if "y \<in> set (drop m ys)" for y using that assms by (auto simp: in_set_conv_nth intro: sorted_nth_mono)
  then have "filter (\<lambda>y. y < ys ! m) (drop m ys) = []" by (auto simp: filter_empty_conv not_less)
  then have "filter (\<lambda>y. y < ys ! m) ys = filter (\<lambda>y. y < ys ! m) (take m ys)" by (metis append_take_drop_id filter_append append_Nil2)
  then show "length (filter (\<lambda>y. y < ys ! m) ys) \<le> m" using length_filter_le [of _ "take m ys"] by (metis length_take min.bounded_iff)
  have "y \<le> ys ! m" if "y \<in> set (take (Suc m) ys)" for y using that assms by (auto simp: in_set_conv_nth less_Suc_eq_le intro: sorted_nth_mono)
  then have "filter (\<lambda>y. ys ! m < y) (take (Suc m) ys) = []" by (auto simp: filter_empty_conv not_less)
  then have "filter (\<lambda>y. ys ! m < y) ys = filter (\<lambda>y. ys ! m < y) (drop (Suc m) ys)" by (metis append_take_drop_id filter_append append_Nil)
  then show "length (filter (\<lambda>y. ys ! m < y) ys) \<le> length ys - Suc m" using length_filter_le [of _ "drop (Suc m) ys"] by (metis length_drop)
qed

lemma filter_sort_length: "length (filter P (sort_key f xs)) = length (filter P xs)"
  by (metis mset_filter mset_sort size_mset)

lemma nth_sort_key:
  fixes f :: "'a \<Rightarrow> 'b :: linorder"
  assumes "m < length xs"
  shows "length (filter (\<lambda>x. f x < f (sort_key f xs ! m)) xs) \<le> m" and "length (filter (\<lambda>x. f (sort_key f xs ! m) < f x) xs) \<le> length xs - Suc m"
proof -
  let ?ys = "map f (sort_key f xs)"
  have y: "?ys ! m = f (sort_key f xs ! m)" and l: "m < length ?ys" using assms by simp_all
  have cnt: "length (filter P ?ys) = length (filter (P \<circ> f) xs)" for P
  proof -
    have "mset (filter P ?ys) = mset (map f (filter (P \<circ> f) xs))" by (simp add: filter_map)
    then show ?thesis by (metis length_map mset_eq_length)
  qed
  show "length (filter (\<lambda>x. f x < f (sort_key f xs ! m)) xs) \<le> m"
    using nth_sorted_below(1) [OF sorted_sort_key l] cnt [of "\<lambda>z. z < ?ys ! m"] unfolding y by (simp add: comp_def)
  show "length (filter (\<lambda>x. f (sort_key f xs ! m) < f x) xs) \<le> length xs - Suc m"
    using nth_sorted_below(2) [OF sorted_sort_key l] cnt [of "\<lambda>z. ?ys ! m < z"] unfolding y by (simp add: comp_def)
qed

lemma mapE_length: "mapE f xs = Inr ys \<Longrightarrow> length ys = length xs"
  by (induction xs arbitrary: ys) (auto simp: bindE_Inr_iff)

text \<open>
  The median properties are medians: at most half of the scheduled witnesses propose a lower account
  creation fee than the one the chain adopts and at most half a higher one, and the same holds of the
  block size.
\<close>
lemma median_props_are_medians:
  assumes r: "update_witness_median_props db = Inr db'" and w: "scheduled_witnesses db = Inr active" and n: "0 < num_scheduled_witnesses db"
  shows "let fee = \<lambda>w. amount (account_creation_fee (w_proposed_chain_props w)); size = \<lambda>w. maximum_block_size (w_proposed_chain_props w);
      p = dgp_median_chain_props (dgp db') in
    2 * length (filter (\<lambda>w. fee w < amount (account_creation_fee p)) active) \<le> length active \<and>
    2 * length (filter (\<lambda>w. amount (account_creation_fee p) < fee w) active) \<le> length active \<and>
    2 * length (filter (\<lambda>w. size w < maximum_block_size p) active) \<le> length active \<and>
    2 * length (filter (\<lambda>w. maximum_block_size p < size w) active) \<le> length active"
proof -
  let ?fee = "\<lambda>w. amount (account_creation_fee (w_proposed_chain_props w))" and ?size = "\<lambda>w. maximum_block_size (w_proposed_chain_props w)"
  let ?m = "length active div 2" and ?p = "dgp_median_chain_props (dgp db')" and ?fees = "sort_key ?fee active"
  have l: "?m < length active" using mapE_length [OF w [unfolded scheduled_witnesses_def]] n by simp
  have p: "amount (account_creation_fee ?p) = ?fee (?fees ! ?m)" "maximum_block_size ?p = ?size (sort_key ?size ?fees ! ?m)"
    using r w by (auto simp: update_witness_median_props_def update_dgp_def bindE_Inr_iff Let_def)
  note cnt = filter_sort_length
  have half: "x \<le> ?m \<or> x \<le> length active - Suc ?m \<Longrightarrow> 2 * x \<le> length active" for x by linarith
  note f = nth_sort_key [OF l, of ?fee] and s = nth_sort_key [of ?m ?fees ?size, unfolded cnt length_sort, OF l]
  show ?thesis unfolding Let_def p by (intro conjI half disjI1 [OF f(1)] disjI2 [OF f(2)] disjI1 [OF s(1)] disjI2 [OF s(2)])
qed

section \<open>Irreversible blocks\<close>

text \<open>
  C13: Once the votes count, the last irreversible block never moves back, and it only moves on to a block
  that at least three quarters of the scheduled witnesses have confirmed or built upon.
\<close>
theorem irreversible_is_confirmed:
  assumes r: "update_last_irreversible_block cfg db = Inr db'" and late: "SCORUM_START_MINER_VOTING_BLOCK \<le> head_block_num db"
    and w: "scheduled_witnesses db = Inr active" and n: "0 < num_scheduled_witnesses db"
  shows "let lib = dgp_last_irreversible_block_num (dgp db'); old = dgp_last_irreversible_block_num (dgp db) in
    old \<le> lib \<and> (lib = old \<or> 3 * length active \<le> 4 * length (filter (\<lambda>w. lib \<le> w_last_confirmed_block_num w) active))"
proof -
  let ?nums = "map w_last_confirmed_block_num active" and ?off = "length active div 4"
  have off: "(nat SCORUM_100_PERCENT - SCORUM_IRREVERSIBLE_THRESHOLD) * length active div nat SCORUM_100_PERCENT = ?off"
    using div_mult_mult1 [of 2500 "length active" 4] by (simp add: SCORUM_IRREVERSIBLE_THRESHOLD_def SCORUM_100_PERCENT_def)
  have l: "?off < length ?nums" using mapE_length [OF w [unfolded scheduled_witnesses_def]] n by simp
  have "length (filter (\<lambda>y. y < sort ?nums ! ?off) (sort ?nums)) \<le> ?off" using nth_sorted_below(1) [OF sorted_sort, of ?off ?nums] l by simp
  then have below: "length (filter (\<lambda>y. y < sort ?nums ! ?off) ?nums) \<le> ?off"
    by (simp add: filter_sort_length)
  have "length (filter (\<lambda>w. w_last_confirmed_block_num w < sort ?nums ! ?off) active) + length (filter (\<lambda>w. sort ?nums ! ?off \<le> w_last_confirmed_block_num w) active) = length active"
    using sum_length_filter_compl [of "\<lambda>w. w_last_confirmed_block_num w < sort ?nums ! ?off" active] by (simp add: not_less)
  moreover have "4 * ?off \<le> length active" by simp
  ultimately have most: "3 * length active \<le> 4 * length (filter (\<lambda>w. sort ?nums ! ?off \<le> w_last_confirmed_block_num w) active)"
    using below by (simp add: filter_map comp_def)
  have "dgp_last_irreversible_block_num (dgp db') = dgp_last_irreversible_block_num (dgp db) \<or>
    dgp_last_irreversible_block_num (dgp db') = sort ?nums ! ?off \<and> dgp_last_irreversible_block_num (dgp db) < sort ?nums ! ?off"
    using r late w off by (auto simp: update_last_irreversible_block_def update_dgp_def bindE_Inr_iff Let_def split: if_splits)
  then show ?thesis using most by (auto simp: Let_def)
qed

section \<open>Versions\<close>

lemma find_max_version:
  assumes "List.find P (rev (sort (remdups vs))) = Some v"
  shows "P v \<and> v \<in> set vs \<and> (\<forall>u \<in> set vs. P u \<longrightarrow> u \<le> (v :: nat))"
proof -
  let ?xs = "rev (sort (remdups vs))"
  from assms obtain i where i: "i < length ?xs" "P (?xs ! i)" "v = ?xs ! i" and first: "\<forall>j < i. \<not> P (?xs ! j)" by (auto simp: find_Some_iff)
  have "v \<in> set ?xs" unfolding i(3) by (rule nth_mem [OF i(1)])
  moreover have "u \<le> v" if "u \<in> set vs" "P u" for u
  proof -
    from that(1) have "u \<in> set ?xs" by simp
    then obtain j where j: "j < length ?xs" "u = ?xs ! j" by (auto simp only: in_set_conv_nth)
    then have "i \<le> j" using first that(2) by (meson not_le_imp_less)
    then show ?thesis unfolding j(2) i(3) by (intro sorted_rev_nth_mono) (use j in simp_all)
  qed
  ultimately show ?thesis using i by simp
qed

text \<open>
  The majority version is the highest one that enough scheduled witnesses run; when no single version
  has enough of them it stays what it was, even if all of them run later ones.
\<close>
lemma majority_version_exact:
  assumes r: "update_witness_majority_version cfg db = Inr db'" and w: "scheduled_witnesses db = Inr active"
  shows "let vs = map w_running_version active; enough = \<lambda>v. scorum_hardfork_required_witnesses cfg \<le> votes_of vs v;
      maj = dgp_majority_version (dgp db') in
    if \<exists>v \<in> set vs. enough v then maj \<in> set vs \<and> enough maj \<and> (\<forall>v \<in> set vs. enough v \<longrightarrow> v \<le> maj)
    else maj = dgp_majority_version (dgp db)"
proof -
  let ?vs = "map w_running_version active" and ?P = "\<lambda>v. scorum_hardfork_required_witnesses cfg \<le> votes_of (map w_running_version active) v"
  have m: "dgp_majority_version (dgp db') = (case List.find ?P (rev (sort (remdups ?vs))) of Some v \<Rightarrow> v | None \<Rightarrow> dgp_majority_version (dgp db))"
    using r w by (auto simp: update_witness_majority_version_def update_dgp_def bindE_Inr_iff Let_def)
  show ?thesis
  proof (cases "List.find ?P (rev (sort (remdups ?vs)))")
    case None
    then have "\<not> (\<exists>v \<in> set ?vs. ?P v)" by (auto simp: find_None_iff)
    then show ?thesis using None m by (auto simp: Let_def)
  next
    case (Some v)
    from find_max_version [OF this] m Some show ?thesis by (auto simp: Let_def)
  qed
qed

section \<open>The window of filled slots\<close>

definition filled :: "u128 \<Rightarrow> nat" where
  "filled w = card {i. i < 128 \<and> bit w i}"

lemma filled_le: "filled w \<le> 128"
  using card_mono [of "{..<128 :: nat}" "{i. i < 128 \<and> bit w i}"] by (auto simp: filled_def)

lemma shift_bits: "bit (push_bit 1 w + (if b then 1 else 0)) i \<longleftrightarrow> (if i = 0 then b else i < 128 \<and> bit w (i - 1))" for w :: u128
proof -
  have p: "bit (push_bit 1 w) n \<longleftrightarrow> 1 \<le> n \<and> n < 128 \<and> bit w (n - 1)" for n unfolding bit_push_bit_iff by (simp add: possible_bit_word)
  have "push_bit 1 w + 1 = push_bit 1 w OR 1" by (rule disjunctive_add) (simp only: p bit_1_iff, auto)
  then have "bit (push_bit 1 w + 1) i \<longleftrightarrow> bit (push_bit 1 w) i \<or> i = 0" by (simp only: bit_or_iff) (simp add: bit_1_iff)
  then show ?thesis using p [of i] by (cases b) auto
qed

lemma filled_shift: "filled (push_bit 1 w + (if b then 1 else 0)) + (if bit w 127 then 1 else 0) = filled w + (if b then 1 else 0)"
proof -
  let ?S = "{i. i < 127 \<and> bit w i}"
  have "{i. i < 128 \<and> bit (push_bit 1 w + (if b then 1 else 0)) i} = Suc ` ?S \<union> (if b then {0} else {})"
  proof (rule set_eqI)
    fix i
    show "i \<in> {i. i < 128 \<and> bit (push_bit 1 w + (if b then 1 else 0)) i} \<longleftrightarrow> i \<in> Suc ` ?S \<union> (if b then {0} else {})"
      unfolding mem_Collect_eq shift_bits by (cases i) auto
  qed
  then have 1: "filled (push_bit 1 w + (if b then 1 else 0)) = card ?S + (if b then 1 else 0)" by (simp add: filled_def card_image)
  have "i < 128 \<longleftrightarrow> i < 127 \<or> i = 127" for i :: nat by auto
  then have "{i. i < 128 \<and> bit w i} = ?S \<union> (if bit w 127 then {127} else {})" by auto
  then have "filled w = card ?S + (if bit w 127 then 1 else 0)" by (simp add: filled_def)
  with 1 show ?thesis by simp
qed

lemma fill_slot_counts: "fill_slot i (w, filled w) = (w', c) \<Longrightarrow> c = filled w'"
proof -
  assume r: "fill_slot i (w, filled w) = (w', c)"
  have w': "w' = push_bit 1 w + (if i = 0 then 1 else 0)" using r by (simp add: fill_slot_def Let_def)
  have top: "(if bit w 127 then 1 else 0) \<le> filled w" by (auto simp: filled_def card_gt_0_iff Suc_le_eq intro: exI [of _ 127])
  note sh = filled_shift [of w "i = 0", folded w'] and le = filled_le [of w] filled_le [of w']
  have "c = nat (((int (filled w) - (if bit w 127 then 1 else 0)) mod 2 ^ 8 + (if i = 0 then 1 else 0)) mod 2 ^ 8)" using r by (simp add: fill_slot_def Let_def)
  also have "(int (filled w) - (if bit w 127 then 1 else 0)) mod 2 ^ 8 = int (filled w) - (if bit w 127 then 1 else 0)"
    using top le by (intro mod_pos_pos_trivial) (auto split: if_splits)
  also have "(int (filled w) - (if bit w 127 then 1 else 0) + (if i = 0 then 1 else 0)) mod 2 ^ 8 = int (filled w')"
    using sh le by (subst mod_pos_pos_trivial) (auto split: if_splits)
  finally show "c = filled w'" by simp
qed

text \<open>
  C23: The participation of a block header update is exact: if the count of the filled slots was the number of
  set bits of the 128 slot window before, it is again afterwards, however many slots were missed.
\<close>
theorem participation_counts_slots:
  assumes r: "update_global_dynamic_data F skip b db = Inr db'" and inv: "dgp_participation_count (dgp db) = filled (dgp_recent_slots_filled (dgp db))"
  shows "dgp_participation_count (dgp db') = filled (dgp_recent_slots_filled (dgp db'))"
proof -
  define m where "m = (if head_block_time db \<noteq> 0 then nat ((int (get_slot_at_time F (bh_timestamp b) db) - 1) mod 2 ^ 32) else 0)"
  from r obtain db1 where 1: "foldE (miss_block b) [0..<m] db = Inr db1"
    and d: "dgp_recent_slots_filled (dgp db') = fst (fold fill_slot [0..<m + 1] (dgp_recent_slots_filled (dgp db1), dgp_participation_count (dgp db1)))"
      "dgp_participation_count (dgp db') = snd (fold fill_slot [0..<m + 1] (dgp_recent_slots_filled (dgp db1), dgp_participation_count (dgp db1)))"
    unfolding update_global_dynamic_data_def Let_def m_def [symmetric] by (auto simp: bindE_Inr_iff update_dgp_def case_prod_beta simp del: upt_Suc)
  have "dgp db1 = dgp db"
    by (rule foldE_inv [OF 1, of "\<lambda>x. dgp x = dgp db"])
      (auto simp: miss_block_def bindE_Inr_iff update_witness_row_def split: if_splits)
  moreover have "snd (fold fill_slot is (w, filled w)) = filled (fst (fold fill_slot is (w, filled w)))" for "is" w
  proof (induction "is" arbitrary: w)
    case (Cons i "is")
    obtain w' c where s: "fill_slot i (w, filled w) = (w', c)" by fastforce
    with Cons [of w'] fill_slot_counts [OF s] show ?case by simp
  qed simp
  ultimately show ?thesis using inv d by (simp del: upt_Suc)
qed

section \<open>A round of one\<close>

definition sample_round :: database where
  "sample_round = sample_db\<lparr>witnesses := \<lparr>next_id = 1, indices = [(0, new_witness_object\<lparr>w_owner := ''carol'', w_signing_key := ''key'', w_virtual_scheduled_time := 0\<rparr>)]\<rparr>,
     dgp := sample_dgp\<lparr>dgp_head_block_number := 900000\<rparr>\<rparr>"

lemmas round_simps = sample_round_def new_witness_object_def null_key_def scheduled_witnesses_def scheduled_witness_def get_witness_def
  head_block_num_def update_witness_row_def witness_clash_def

lemma sample_round_active: "scheduled_witnesses sample_round = Inr [new_witness_object\<lparr>w_owner := ''carol'', w_signing_key := ''key'', w_virtual_scheduled_time := 0\<rparr>]"
  by (simp add: round_simps run_simps)

lemma sample_round_runs:
  "\<not> isl (update_witness_schedule ext_ref sample_config (\<lambda>_ _. True) sample_round)"
  "\<not> isl (update_last_irreversible_block sample_config sample_round)"
  "\<not> isl (update_witness_majority_version sample_config sample_round)"
  "\<not> isl (update_witness_median_props sample_round)"
  "\<not> isl (update_global_dynamic_data ext_ref True \<lparr>bh_id = [], bh_previous = [], bh_num = 900001, bh_timestamp = 1006, bh_witness = ''carol''\<rparr> sample_round)"
proof -
  show "\<not> isl (update_witness_schedule ext_ref sample_config (\<lambda>_ _. True) sample_round)"
    by (simp add: update_witness_schedule_def voted_lead_def by_vote_name_def sort_by_def by_schedule_time_def can_sign_def set_schedule_def
        VIRTUAL_SCHEDULE_LAP_LENGTH_def set_shuffled_def shuffle_witnesses_def shuffle_step_def swap_def SCORUM_MAX_WITNESSES_LIMIT_def
        update_witness_majority_version_def update_witness_hardfork_version_votes_def update_witness_median_props_def round_simps run_simps Let_def)
qed (simp_all add: update_last_irreversible_block_def SCORUM_START_MINER_VOTING_BLOCK_def SCORUM_BLOCK_INTERVAL_def SCORUM_IRREVERSIBLE_THRESHOLD_def
      SCORUM_100_PERCENT_def update_witness_majority_version_def update_witness_median_props_def update_global_dynamic_data_def get_slot_at_time_def
      get_slot_time_def miss_block_def get_scheduled_witness_def case_prod_beta round_simps run_simps Let_def)


lemma median_props_are_medians_witness:
  "\<exists>db'. update_witness_median_props sample_round = Inr db' \<and>
     \<not> maximum_block_size default_chain_properties < maximum_block_size (dgp_median_chain_props (dgp db'))"
proof -
  obtain db' where r: "update_witness_median_props sample_round = Inr db'" using returns [OF sample_round_runs(4)] by blast
  have "0 < num_scheduled_witnesses sample_round" by (simp add: sample_round_def sample_db_def)
  from median_props_are_medians [OF r sample_round_active this] r show ?thesis by (auto simp: Let_def new_witness_object_def split: if_splits)
qed

theorem irreversible_is_confirmed_witness:
  "\<exists>db'. update_last_irreversible_block sample_config sample_round = Inr db' \<and>
     dgp_last_irreversible_block_num (dgp sample_round) \<le> dgp_last_irreversible_block_num (dgp db') \<and> SCORUM_START_MINER_VOTING_BLOCK \<le> head_block_num sample_round"
proof -
  obtain db' where r: "update_last_irreversible_block sample_config sample_round = Inr db'" using returns [OF sample_round_runs(2)] by blast
  have late: "SCORUM_START_MINER_VOTING_BLOCK \<le> head_block_num sample_round"
    by (simp add: SCORUM_START_MINER_VOTING_BLOCK_def SCORUM_BLOCK_INTERVAL_def head_block_num_def sample_round_def)
  have "0 < num_scheduled_witnesses sample_round" by (simp add: sample_round_def sample_db_def)
  from irreversible_is_confirmed [OF r late sample_round_active this] r late show ?thesis by (auto simp: Let_def)
qed

lemma majority_version_exact_witness:
  "\<exists>db'. update_witness_majority_version sample_config sample_round = Inr db' \<and> dgp_majority_version (dgp db') = 0"
proof -
  obtain db' where r: "update_witness_majority_version sample_config sample_round = Inr db'" using returns [OF sample_round_runs(3)] by blast
  from majority_version_exact [OF r sample_round_active] r show ?thesis
    by (auto simp: Let_def votes_of_def sample_config_values new_witness_object_def sample_round_def sample_db_def sample_dgp_def)
qed

theorem participation_counts_slots_witness:
  "\<exists>db'. update_global_dynamic_data ext_ref True \<lparr>bh_id = [], bh_previous = [], bh_num = 900001, bh_timestamp = 1006, bh_witness = ''carol''\<rparr> sample_round = Inr db' \<and>
     dgp_participation_count (dgp db') = filled (dgp_recent_slots_filled (dgp db'))"
proof -
  obtain db' where r: "update_global_dynamic_data ext_ref True \<lparr>bh_id = [], bh_previous = [], bh_num = 900001, bh_timestamp = 1006, bh_witness = ''carol''\<rparr> sample_round = Inr db'"
    using returns [OF sample_round_runs(5)] by blast
  have "{i. i < 128 \<and> bit (- 1 :: u128) i} = {..<128}" by (auto simp: bit_minus_1_iff possible_bit_word)
  then have "dgp_participation_count (dgp sample_round) = filled (dgp_recent_slots_filled (dgp sample_round))"
    by (simp add: filled_def sample_round_def sample_dgp_def)
  from participation_counts_slots [OF r this] r show ?thesis by blast
qed


end
