(* ===== verification/Funds_Run.thy ===== *)
theory Funds_Run
  imports Funds_Ledger Schedule_Properties
begin

text \<open>
  Runs of the budget operations and of the blocks between them. Budgets start fair, the blocks of a
  chain keep to their slots, and so no budget is ever overdrawn, whatever the order of the steps.
\<close>

section \<open>A new budget is fair\<close>



definition new_budget ::
  "uuid \<Rightarrow> account_name \<Rightarrow> string \<Rightarrow> nat \<Rightarrow> nat \<Rightarrow> nat \<Rightarrow> asset \<Rightarrow> asset \<Rightarrow> nat \<Rightarrow> adv_budget_object"
where
  "new_budget u ow j c start deadline bal pb ct = \<lparr>ab_uuid = u, ab_owner = ow, ab_json_metadata = j, ab_created = c, ab_start = start,
     ab_deadline = deadline, ab_balance = bal, ab_per_block = pb, ab_cashout_time = ct, ab_owner_pending_income = SCR 0, ab_budget_pending_outgo = SCR 0\<rparr>"


section \<open>The operations\<close>




section \<open>Runs\<close>

text \<open>
  The head of the chain after a block: \<^verbatim>\<open>update_global_dynamic_data\<close> moves the time on by a number of
  slots, and \<^verbatim>\<open>_apply_block\<close> names the witness.
\<close>

definition next_head :: "nat \<Rightarrow> nat \<Rightarrow> account_name \<Rightarrow> database \<Rightarrow> database" where
  "next_head slots n w db = db\<lparr>dgp := (dgp db)\<lparr>dgp_time := dgp_time (dgp db) + SCORUM_BLOCK_INTERVAL * slots, dgp_head_block_number := n,
     dgp_current_witness := w\<rparr>\<rparr>"


lemma next_head_frame:
  "ledger_move 0 db (next_head s n w db)" "keeps db (next_head s n w db)" "books t (next_head s n w db) = books t db"
  "budgets_of t (next_head s n w db) = budgets_of t db" "head_block_time (next_head s n w db) = head_block_time db + 3 * s"
proof -
  show "ledger_move 0 db (next_head s n w db)"
    by (simp add: next_head_def ledger_move_def db_ok_def tables_ok_def pools_ok_def dgp_ok_def supply_sum_def gaps_def acc_sum_def locked_def pools_def)
  show "keeps db (next_head s n w db)" unfolding next_head_def by (rule keeps_dgp) (simp add: dgp_ok_def)
  show b: "budgets_of t (next_head s n w db) = budgets_of t db" by (cases t) (simp_all add: next_head_def budgets_of_def)
  have "stat_of t (dgp (next_head s n w db)) = stat_of t (dgp db)" by (cases t) (simp_all add: next_head_def stat_of_def)
  with b show "books t (next_head s n w db) = books t db" by (simp add: books_def)
  show "head_block_time (next_head s n w db) = head_block_time db + 3 * s" by (simp add: next_head_def head_block_time_def SCORUM_BLOCK_INTERVAL_def)
qed












section \<open>The migration of the witness rewards\<close>

lemma add_recipient_sum:
  assumes F: "ext_ok F"
  shows "add_recipient F before w x rs = Inr rs' \<Longrightarrow> sum_list (map snd rs') = sum_list (map snd rs) + x \<and> (0 \<le> x \<and> (\<forall>r \<in> set rs. 0 \<le> snd r) \<longrightarrow> (\<forall>r \<in> set rs'. 0 \<le> snd r))"
proof (induction rs arbitrary: rs')
  case (Cons r rs)
  obtain v y where r: "r = (v, y)" by (cases r)
  from Cons.prems consider y' where "safe_add F y x = Inr y'" "rs' = (v, y') # rs" | "rs' = (w, x) # r # rs"
    | rs1 where "add_recipient F before w x rs = Inr rs1" "rs' = r # rs1"
    by (auto simp: r bindE_Inr_iff split: if_splits)
  then show ?case by cases (use F Cons.IH in \<open>auto simp: r fc_simps\<close>)
qed simp

lemma migration_loop_sum:
  assumes F: "ext_ok F"
  shows "migration_loop F before wob n x rs = Inr (x', rs') \<Longrightarrow> 0 \<le> x \<Longrightarrow> \<forall>r \<in> set rs. 0 \<le> snd r \<Longrightarrow>
    0 \<le> x' \<and> x' + sum_list (map snd rs') = x + sum_list (map snd rs) \<and> (\<forall>r \<in> set rs'. 0 \<le> snd r)"
proof (induction n arbitrary: x rs)
  case (Suc n)
  show ?case
  proof (cases "Suc n > old_reward_alg_switch_reward_block_num \<and> x > 0")
    case False
    then have "x' = x" "rs' = rs" using Suc.prems(1) by (simp_all split: if_splits)
    then show ?thesis using Suc.prems by simp
  next
    case guard: True
    show ?thesis
    proof (cases "wob (Suc n)")
      case None
      then have "migration_loop F before wob n x rs = Inr (x', rs')" using guard Suc.prems(1) by simp
      from Suc.IH [OF this Suc.prems(2,3)] show ?thesis .
    next
      case (Some w)
      define p where "p = min migrate_deferred_payment x"
      from Suc.prems(1) guard Some obtain y rs1 where y: "safe_sub F x p = Inr y" and a: "add_recipient F before w p rs = Inr rs1"
        and rest: "migration_loop F before wob n y rs1 = Inr (x', rs')" by (simp add: bindE_Inr_iff Let_def p_def) blast
      have p: "0 \<le> p" "p \<le> x"
        using guard by (simp_all add: p_def migrate_deferred_payment_def new_reward_to_migrate_def old_reward_to_migrate_def)
      have "y = x - p" using y F by (simp add: fc_simps)
      with Suc.IH [OF rest] add_recipient_sum [OF F a] p Suc.prems(3) show ?thesis by auto
    qed
  qed
qed auto

lemma charge_pays:
  assumes F: "ext_ok F"
  shows "foldE (charge_witness_reward F) rs db = Inr db' \<Longrightarrow> \<forall>r \<in> set rs. 0 \<le> snd r \<Longrightarrow> pays (sum_list (map snd rs)) db db'"
proof (induction rs arbitrary: db)
  case (Cons r rs)
  from Cons.prems(1) obtain db1 where c: "charge_witness_reward F r db = Inr db1" and 2: "foldE (charge_witness_reward F) rs db1 = Inr db'"
    by (auto simp: bindE_Inr_iff)
  from c obtain k where 1: "create_scorumpower F k (SCR (snd r)) db = Inr db1" by (auto simp: charge_witness_reward_def bindE_Inr_iff)
  have "pays (snd r) db db1" using create_scorumpower_pays [OF F 1] Cons.prems(2) by simp
  from pays_trans [OF this Cons.IH [OF 2]] Cons.prems(2) show ?case by simp
qed auto

text \<open>
  The deferred part of the witness rewards reaches the witnesses: what the migration takes out of
  its account is what it pays as power, no payment is negative, and an empty account is closed, whatever blocks
  the block log still finds.
\<close>
lemma migration_conserves:
  assumes F: "ext_ok F" and r: "process_witness_reward_in_sp_migration F cfg before wob db = Inr db'" and s: "sound db"
    and bal: "\<forall>x \<in> set_option (witness_reward_migration db). 0 \<le> x"
  shows "sound db' \<and> supply_sum db' = supply_sum db \<and> gaps db' = gaps db \<and> (\<forall>x \<in> set_option (witness_reward_migration db'). 0 \<le> x) \<and>
    (witness_reward_migration_date cfg \<le> head_block_time db \<longrightarrow> witness_reward_migration db' \<noteq> Some 0)"
proof (cases "head_block_time db < witness_reward_migration_date cfg \<or> witness_reward_migration db = None")
  case True
  then have "db' = db" using r by (auto simp: process_witness_reward_in_sp_migration_def split: if_splits option.splits)
  then show ?thesis using True s bal by auto
next
  case False
  then obtain x where x: "witness_reward_migration db = Some x" by auto
  from r False x obtain x' rs db1 where 1: "migration_loop F before wob (dgp_head_block_number (dgp db)) x [] = Inr (x', rs)"
    and 2: "foldE (charge_witness_reward F) rs db = Inr db1" and db': "db' = db1\<lparr>witness_reward_migration := (if x' = 0 then None else Some x')\<rparr>"
    by (auto simp: process_witness_reward_in_sp_migration_def bindE_Inr_iff)
  have sum: "0 \<le> x'" "x' + sum_list (map snd rs) = x" "\<forall>r \<in> set rs. 0 \<le> snd r" using migration_loop_sum [OF F 1] bal x by auto
  have p: "pays (x - x') db db1" using charge_pays [OF F 2 sum(3)] unfolding sum(2) [symmetric] by simp
  have "purse_free db1 = purse_free db" using pays_free [OF p] s by (simp add: sound_def)
  then have "witness_reward_migration (purse_free db1) = witness_reward_migration (purse_free db)" by simp
  then have m: "witness_reward_migration db1 = Some x" using x by (simp add: purse_free_def)
  have "flows (x' - x) db1 db'" unfolding db' by (rule flowsI [OF pool_flows(8)]) (simp add: m)
  from flows_trans [OF pays_flows [OF p] this, of 0] s sum(1) show ?thesis
    by (auto simp: flows_def keeps_def ledger_move_def sound_def db')
qed

definition sample_migration :: database where
  "sample_migration = (next_head 20000 26 ''carol'' sample_db)\<lparr>witness_reward_migration := Some 2000000\<rparr>"

lemma sample_migration_sound: "sound sample_migration"
  using pool_flows(8) [of "Some 2000000" "next_head 20000 26 ''carol'' sample_db"] next_head_frame(2) [of sample_db 20000 26 "''carol''"] sample_sound
  by (simp add: sample_migration_def flows_def keeps_def)

lemma sample_migrates: "\<not> isl (process_witness_reward_in_sp_migration ext_ref sample_config (\<lambda>_ _. True) (\<lambda>_. Some ''carol'') sample_migration)"
proof -
  have date: "witness_reward_migration_date sample_config = 36500"
    by (simp add: sample_config_def config_test_def check_witness_limits_def Let_def SCORUM_MAX_WITNESSES_LIMIT_def ext_ref_eval)
  have loop: "migration_loop ext_ref (\<lambda>_ _. True) (\<lambda>_. Some ''carol'') 26 2000000 [] = Inr (0, [(''carol'', 2000000)])"
    by (simp add: migration_loop.simps(2) [of _ _ _ "pred_numeral k" for k, folded numeral_eq_Suc] old_reward_alg_switch_reward_block_num_def
        migrate_deferred_payment_def new_reward_to_migrate_def old_reward_to_migrate_def ext_ref_eval)
  have head: "witness_reward_migration sample_migration = Some 2000000" "dgp_head_block_number (dgp sample_migration) = 26" "head_block_time sample_migration = 61000"
    by (simp_all add: sample_migration_def next_head_def head_block_time_def sample_db_def sample_dgp_def SCORUM_BLOCK_INTERVAL_def)
  have "\<not> isl (charge_witness_reward ext_ref (''carol'', 2000000) sample_migration)"
    by (simp add: charge_witness_reward_def create_scorumpower_def increase_scorumpower_def adjust_proxied_witness_votes.simps adjust_witness_votes_def
        voted_witnesses_def sample_migration_def next_head_def run_simps SCORUM_PROXY_TO_SELF_ACCOUNT_def)
  then show ?thesis by (auto simp: process_witness_reward_in_sp_migration_def date head loop dest!: returns)
qed

lemma migration_conserves_witness:
  "\<exists>db'. process_witness_reward_in_sp_migration ext_ref sample_config (\<lambda>_ _. True) (\<lambda>_. Some ''carol'') sample_migration = Inr db' \<and>
     sound db' \<and> supply_sum db' = supply_sum sample_migration"
proof -
  obtain db' where r: "process_witness_reward_in_sp_migration ext_ref sample_config (\<lambda>_ _. True) (\<lambda>_. Some ''carol'') sample_migration = Inr db'"
    using returns [OF sample_migrates] by blast
  have "\<forall>x \<in> set_option (witness_reward_migration sample_migration). 0 \<le> x" by (simp add: sample_migration_def)
  from migration_conserves [OF ext_ok_ref r sample_migration_sound this] r show ?thesis by blast
qed

section \<open>Blocks off the grid\<close>

text \<open>
  The slots do not force a block onto the grid of its predecessor, and then a budget can be overdrawn:
  after a head at the end of its slot, a budget for two payments meets three blocks, each at the start of
  its slot, and the owner ends up owing a unit.
\<close>

lemma unaligned_blocks_overdraw:
  assumes F: "ext_ok F"
  shows "adv_calculate_per_block F 1002 1007 1001 (SCR 5) = Inr (SCR 2)"
    and "head_block_time db = 1001 \<Longrightarrow> 0 < head_block_num db \<Longrightarrow> get_slot_at_time F 1002 db = 1"
    and "head_block_time db = 1002 \<Longrightarrow> 0 < head_block_num db \<Longrightarrow> get_slot_at_time F 1005 db = 1"
    and "head_block_time db = 1005 \<Longrightarrow> 0 < head_block_num db \<Longrightarrow> get_slot_at_time F 1008 db = 1"
    and "amount (ab_owner_pending_income (paid 1008 2 (paid 1005 2 (paid 1002 2 (new_budget u ow j 1001 1002 1007 (SCR 5) (SCR 2) ct))))) = - 1"
proof -
  show "adv_calculate_per_block F 1002 1007 1001 (SCR 5) = Inr (SCR 2)"
    using F by (simp add: adv_calculate_per_block_def ceil_to_def SCORUM_BLOCK_INTERVAL_def Let_def bindE_Inr_iff asset_amount_iffs in_i64_def cdiv_def)
qed (use F slot_at_time_value [OF F, of db] in \<open>simp_all add: head_slot_def paid_def closed_def new_budget_def Let_def\<close>)

end
