(* ===== verification/Withdrawals.thy ===== *)
theory Withdrawals
  imports Advertising
begin

text \<open>
  The withdrawal of scorum power: the services \<^verbatim>\<open>withdraw_scorumpower.cpp\<close>, \<^verbatim>\<open>withdraw_scorumpower_route.cpp\<close> and
  \<^verbatim>\<open>withdraw_scorumpower_route_statistic.cpp\<close>, the evaluators \<^verbatim>\<open>withdraw_scorumpower_evaluator.cpp\<close> and
  \<^verbatim>\<open>set_withdraw_scorumpower_route_evaluators.cpp\<close>, and the block task \<^verbatim>\<open>process_vesting_withdrawals.cpp\<close> with its
  actors (\<^verbatim>\<open>withdrawable_actors_impl.cpp\<close>). Power leaves an account or the development pool in weekly parts, as SCR
  or, along routes, to other accounts. The virtual operations that report a payment are left out, but not the
  look-ups of the accounts they name.
\<close>

section \<open>Services\<close>

text \<open>The order of \<^verbatim>\<open>less_for_withdrawable_id\<close>: accounts before pools, then by id.\<close>

fun less_withdrawable :: "withdrawable_id \<Rightarrow> withdrawable_id \<Rightarrow> bool" where
  "less_withdrawable (Account_id a) (Account_id b) = (a < b)"
| "less_withdrawable (Dev_committee_id a) (Dev_committee_id b) = (a < b)"
| "less_withdrawable (Account_id _) (Dev_committee_id _) = True"
| "less_withdrawable (Dev_committee_id _) (Account_id _) = False"

definition find_withdraw :: "withdrawable_id \<Rightarrow> database \<Rightarrow> nat option" where
  "find_withdraw from_id db = ix_find_by (\<lambda>w. v_from_id w = from_id) (withdraws db)"

definition get_withdraw :: "withdrawable_id \<Rightarrow> database \<Rightarrow> nat res" where
  "get_withdraw from_id db = ix_get_by (\<lambda>w. v_from_id w = from_id) (withdraws db)"

text \<open>The withdrawals that are due, by the time of the next payment and the id.\<close>

definition get_until :: "nat \<Rightarrow> database \<Rightarrow> nat list" where
  "get_until until db =
     map fst (sort_key (\<lambda>r. v_next_vesting_withdrawal (snd r)) (filter (\<lambda>r. v_next_vesting_withdrawal (snd r) \<le> until) (indices (withdraws db))))"

definition update_withdraw :: "nat \<Rightarrow> (withdraw_scorumpower_object \<Rightarrow> withdraw_scorumpower_object res) \<Rightarrow> database \<Rightarrow> database res" where
  "update_withdraw k m db = bindE (ix_modify withdraw_clash k m (withdraws db)) (\<lambda>ix. Inr (db\<lparr>withdraws := ix\<rparr>))"

definition remove_withdraw :: "nat \<Rightarrow> database \<Rightarrow> database res" where
  "remove_withdraw k db = bindE (ix_remove k (withdraws db)) (\<lambda>ix. Inr (db\<lparr>withdraws := ix\<rparr>))"

definition find_route :: "withdrawable_id \<Rightarrow> withdrawable_id \<Rightarrow> database \<Rightarrow> nat option" where
  "find_route from_id to_id db = ix_find_by (\<lambda>r. wr_from_id r = from_id \<and> wr_to_id r = to_id) (withdraw_routes db)"

definition get_route :: "withdrawable_id \<Rightarrow> withdrawable_id \<Rightarrow> database \<Rightarrow> nat res" where
  "get_route from_id to_id db = ix_get_by (\<lambda>r. wr_from_id r = from_id \<and> wr_to_id r = to_id) (withdraw_routes db)"

text \<open>
  \<^verbatim>\<open>get_all\<close> starts after the pair of the source and a default target, which is the account of id 0: a route to
  that account is not among them. (The loop of the code looks at an element before it compares the position with
  the end of the index; the list here ends with the index.)
\<close>

definition get_all_routes :: "withdrawable_id \<Rightarrow> database \<Rightarrow> withdraw_scorumpower_route_object list" where
  "get_all_routes from_id db =
     map snd (sort_by (\<lambda>r s. less_withdrawable (wr_to_id (snd r)) (wr_to_id (snd s)))
       (filter (\<lambda>r. wr_from_id (snd r) = from_id \<and> less_withdrawable (Account_id 0) (wr_to_id (snd r))) (indices (withdraw_routes db))))"

text \<open>The total is a 16 bit number.\<close>

definition total_percent :: "withdrawable_id \<Rightarrow> database \<Rightarrow> nat" where
  "total_percent from_id db = fold (\<lambda>r s. (s + wr_percent r) mod 2 ^ 16) (get_all_routes from_id db) 0"

definition find_route_statistic :: "withdrawable_id \<Rightarrow> database \<Rightarrow> nat option" where
  "find_route_statistic from_id db = ix_find_by (\<lambda>s. ws_from_id s = from_id) (withdraw_route_statistics db)"

definition update_route_statistic :: "nat \<Rightarrow> (nat \<Rightarrow> nat) \<Rightarrow> database \<Rightarrow> database res" where
  "update_route_statistic k f db =
     bindE (ix_modify route_statistic_clash k (\<lambda>s. Inr (s\<lparr>ws_withdraw_routes := f (ws_withdraw_routes s) mod 2 ^ 16\<rparr>)) (withdraw_route_statistics db)) (\<lambda>ix.
     Inr (db\<lparr>withdraw_route_statistics := ix\<rparr>))"

section \<open>Evaluators\<close>

definition SCORUM_START_WITHDRAW_COEFFICIENT :: int where
  "SCORUM_START_WITHDRAW_COEFFICIENT = 10"

definition SCORUM_MAX_WITHDRAW_ROUTES :: nat where
  "SCORUM_MAX_WITHDRAW_ROUTES = 10"

definition remove_withdraw_scorumpower :: "withdrawable_id \<Rightarrow> database \<Rightarrow> database res" where
  "remove_withdraw_scorumpower from_id db =
     (if find_withdraw from_id db \<noteq> None then bindE (get_withdraw from_id db) (\<lambda>k. remove_withdraw k db) else Inr db)"

definition save_withdrawal :: "withdraw_scorumpower_object \<Rightarrow> database \<Rightarrow> database res" where
  "save_withdrawal wv db =
     (if find_withdraw (v_from_id wv) db = None then
        bindE (ix_emplace withdraw_clash (\<lambda>_. Inr wv) (withdraws db)) (\<lambda>(k, ix). Inr (db\<lparr>withdraws := ix\<rparr>))
      else bindE (get_withdraw (v_from_id wv) db) (\<lambda>k. update_withdraw k (\<lambda>_. Inr wv) db))"

text \<open>\<^verbatim>\<open>withdraw_scorumpower_impl::do_apply\<close>, for an account or the pool.\<close>

definition start_withdrawal :: "ext_lib \<Rightarrow> config \<Rightarrow> withdrawable_id \<Rightarrow> asset \<Rightarrow> database \<Rightarrow> database res" where
  "start_withdrawal F cfg from_id scorumpower db =
     bindE (fc_assert (head_block_time db > lock_withdraw_sp_until db) ''Withdraw scorumpower operation is locked'') (\<lambda>_.
     bindE (fc_assert (amount scorumpower \<ge> 0) '''') (\<lambda>_.
     bindE (if find_withdraw from_id db \<noteq> None
            then bindE (get_withdraw from_id db) (\<lambda>k. bindE (ix_get (withdraws db) k) (\<lambda>w. Inr (v_vesting_withdraw_rate w)))
            else Inr (SP 0)) (\<lambda>vesting_withdraw_rate.
     if amount scorumpower = 0 then
       bindE (fc_assert (amount vesting_withdraw_rate \<noteq> 0) ''This operation would not change the vesting withdraw rate.'') (\<lambda>_.
       remove_withdraw_scorumpower from_id db)
     else
       bindE (asset_div F scorumpower (int (vesting_withdraw_intervals cfg))) (\<lambda>rate.
       let rate = (if amount rate = 0 then rate\<lparr>amount := 1\<rparr> else rate);
           wv = \<lparr>v_from_id = from_id, v_vesting_withdraw_rate = rate,
                  v_next_vesting_withdrawal = time_add F (head_block_time db) (vesting_withdraw_interval_seconds cfg),
                  v_withdrawn = SP 0, v_to_withdraw = scorumpower\<rparr> in
       save_withdrawal wv db))))"

definition withdraw_scorumpower_apply :: "ext_lib \<Rightarrow> config \<Rightarrow> account_name \<Rightarrow> asset \<Rightarrow> database \<Rightarrow> database res" where
  "withdraw_scorumpower_apply F cfg account scorumpower db =
     bindE (get_account account db) (\<lambda>k.
     bindE (account_at k db) (\<lambda>a.
     bindE (assertE (asset_ge (a_scorumpower a) (SP 0)) ''Account does not have sufficient Scorum Power for withdraw.'') (\<lambda>_.
     bindE (asset_sub F (a_scorumpower a) (a_delegated_scorumpower a)) (\<lambda>available.
     bindE (assertE (asset_ge available scorumpower) ''Account does not have sufficient Scorum Power for withdraw.'') (\<lambda>_.
     bindE (if a_created_by_genesis a then Inr () else
              bindE (asset_mul F (SP (amount (account_creation_fee (dgp_median_chain_props (dgp db))))) SCORUM_START_WITHDRAW_COEFFICIENT) (\<lambda>min_scorumpower.
              bindE (asset_gt (a_scorumpower a) min_scorumpower) (\<lambda>enough.
              fc_assert (enough \<or> amount scorumpower = 0) ''Account registered by another account requires 10x account creation fee''))) (\<lambda>_.
     start_withdrawal F cfg (Account_id k) scorumpower db))))))"

text \<open>The pool is the only object of its table and has the id 0.\<close>

definition dev_pool_id :: nat where
  "dev_pool_id = 0"

definition withdraw_scorumpower_dev_pool_task :: "ext_lib \<Rightarrow> config \<Rightarrow> asset \<Rightarrow> database \<Rightarrow> database res" where
  "withdraw_scorumpower_dev_pool_task F cfg scorumpower db =
     bindE (assertE (asset_ge (dc_sp_balance (dev_pool db)) scorumpower) ''Dev pool does not have sufficient Scorum Power for withdraw.'') (\<lambda>_.
     start_withdrawal F cfg (Dev_committee_id dev_pool_id) scorumpower db)"

text \<open>\<^verbatim>\<open>set_withdraw_scorumpower_route_evaluator_impl::do_apply\<close>.\<close>

definition ensure_route_statistic :: "withdrawable_id \<Rightarrow> database \<Rightarrow> database res" where
  "ensure_route_statistic from_id db =
     (if find_route_statistic from_id db = None then
        bindE (ix_emplace route_statistic_clash (\<lambda>_. Inr \<lparr>ws_from_id = from_id, ws_withdraw_routes = 0\<rparr>) (withdraw_route_statistics db)) (\<lambda>(k, ix).
        Inr (db\<lparr>withdraw_route_statistics := ix\<rparr>))
      else Inr db)"

definition create_route :: "withdrawable_id \<Rightarrow> withdrawable_id \<Rightarrow> nat \<Rightarrow> bool \<Rightarrow> nat \<Rightarrow> database \<Rightarrow> database res" where
  "create_route from_id to_id percent auto_vest statistic db =
     bindE (fc_assert (percent \<noteq> 0) ''Cannot create a 0% destination.'') (\<lambda>_.
     bindE (ix_get (withdraw_route_statistics db) statistic) (\<lambda>s.
     bindE (fc_assert (ws_withdraw_routes s < SCORUM_MAX_WITHDRAW_ROUTES) ''Account already has the maximum number of routes.'') (\<lambda>_.
     bindE (ix_emplace route_clash (\<lambda>_. Inr \<lparr>wr_from_id = from_id, wr_to_id = to_id, wr_percent = percent, wr_auto_vest = auto_vest\<rparr>) (withdraw_routes db)) (\<lambda>(k, ix).
     update_route_statistic statistic (\<lambda>n. n + 1) (db\<lparr>withdraw_routes := ix\<rparr>)))))"

definition remove_route :: "withdrawable_id \<Rightarrow> withdrawable_id \<Rightarrow> nat \<Rightarrow> database \<Rightarrow> database res" where
  "remove_route from_id to_id statistic db =
     bindE (get_route from_id to_id db) (\<lambda>k.
     bindE (ix_remove k (withdraw_routes db)) (\<lambda>ix.
     bindE (update_route_statistic statistic (\<lambda>n. n + (2 ^ 16 - 1)) (db\<lparr>withdraw_routes := ix\<rparr>)) (\<lambda>db.
     bindE (ix_get (withdraw_route_statistics db) statistic) (\<lambda>s.
     if ws_withdraw_routes s = 0 then
       bindE (ix_remove statistic (withdraw_route_statistics db)) (\<lambda>ix. Inr (db\<lparr>withdraw_route_statistics := ix\<rparr>))
     else Inr db))))"

definition change_route :: "withdrawable_id \<Rightarrow> withdrawable_id \<Rightarrow> nat \<Rightarrow> bool \<Rightarrow> database \<Rightarrow> database res" where
  "change_route from_id to_id percent auto_vest db =
     bindE (get_route from_id to_id db) (\<lambda>k.
     bindE (ix_modify route_clash k (\<lambda>r. Inr (r\<lparr>wr_percent := percent, wr_auto_vest := auto_vest\<rparr>)) (withdraw_routes db)) (\<lambda>ix.
     Inr (db\<lparr>withdraw_routes := ix\<rparr>)))"

definition set_withdraw_route :: "withdrawable_id \<Rightarrow> withdrawable_id \<Rightarrow> nat \<Rightarrow> bool \<Rightarrow> database \<Rightarrow> database res" where
  "set_withdraw_route from_id to_id percent auto_vest db =
     bindE (ensure_route_statistic from_id db) (\<lambda>db.
     bindE (ix_get_by (\<lambda>s. ws_from_id s = from_id) (withdraw_route_statistics db)) (\<lambda>statistic.
     bindE (if find_route from_id to_id db = None then create_route from_id to_id percent auto_vest statistic db
            else if percent = 0 then remove_route from_id to_id statistic db
            else change_route from_id to_id percent auto_vest db) (\<lambda>db.
     bindE (fc_assert (int (total_percent from_id db) \<le> SCORUM_100_PERCENT) ''More than 100% of vesting withdrawals allocated to destinations.'') (\<lambda>_.
     Inr db))))"

definition set_withdraw_route_to_account_apply :: "account_name \<Rightarrow> account_name \<Rightarrow> nat \<Rightarrow> bool \<Rightarrow> database \<Rightarrow> database res" where
  "set_withdraw_route_to_account_apply from_account to_account percent auto_vest db =
     bindE (check_account_existence from_account db) (\<lambda>_.
     bindE (check_account_existence to_account db) (\<lambda>_.
     bindE (get_account from_account db) (\<lambda>f.
     bindE (get_account to_account db) (\<lambda>t.
     set_withdraw_route (Account_id f) (Account_id t) percent auto_vest db))))"

definition set_withdraw_route_to_dev_pool_apply :: "account_name \<Rightarrow> nat \<Rightarrow> bool \<Rightarrow> database \<Rightarrow> database res" where
  "set_withdraw_route_to_dev_pool_apply from_account percent auto_vest db =
     bindE (check_account_existence from_account db) (\<lambda>_.
     bindE (get_account from_account db) (\<lambda>f.
     set_withdraw_route (Account_id f) (Dev_committee_id dev_pool_id) percent auto_vest db))"

definition set_withdraw_route_from_dev_pool_task :: "account_name \<Rightarrow> nat \<Rightarrow> bool \<Rightarrow> database \<Rightarrow> database res" where
  "set_withdraw_route_from_dev_pool_task account percent auto_vest db =
     bindE (check_account_existence account db) (\<lambda>_.
     bindE (get_account account db) (\<lambda>t.
     set_withdraw_route (Dev_committee_id dev_pool_id) (Account_id t) percent auto_vest db))"

section \<open>The actors of a withdrawal\<close>

definition visit_pool :: "nat \<Rightarrow> unit res" where
  "visit_pool i = fc_assert (i = dev_pool_id) ''''"

fun get_available_scorumpower :: "withdrawable_id \<Rightarrow> database \<Rightarrow> asset res" where
  "get_available_scorumpower (Account_id k) db = bindE (account_at k db) (\<lambda>a. Inr (a_scorumpower a))"
| "get_available_scorumpower (Dev_committee_id i) db = bindE (visit_pool i) (\<lambda>_. Inr (dc_sp_balance (dev_pool db)))"

fun decrease_sp_visitor :: "ext_lib \<Rightarrow> asset \<Rightarrow> withdrawable_id \<Rightarrow> database \<Rightarrow> database res" where
  "decrease_sp_visitor F amt (Account_id k) db = bindE (account_at k db) (\<lambda>_. decrease_scorumpower F k amt db)"
| "decrease_sp_visitor F amt (Dev_committee_id i) db =
     bindE (visit_pool i) (\<lambda>_.
     bindE (asset_sub F (dc_sp_balance (dev_pool db)) amt) (\<lambda>b. Inr (db\<lparr>dev_pool := (dev_pool db)\<lparr>dc_sp_balance := b\<rparr>\<rparr>)))"

definition decrease_sp :: "ext_lib \<Rightarrow> withdrawable_id \<Rightarrow> asset \<Rightarrow> database \<Rightarrow> database res" where
  "decrease_sp F from_id amt db =
     bindE (fc_assert (symbol amt = SP_SYMBOL) '''') (\<lambda>_.
     bindE (fc_assert (amount amt > 0) '''') (\<lambda>_. decrease_sp_visitor F amt from_id db))"

fun increase_scr_visitor :: "ext_lib \<Rightarrow> asset \<Rightarrow> withdrawable_id \<Rightarrow> database \<Rightarrow> database res" where
  "increase_scr_visitor F amt (Account_id k) db = bindE (account_at k db) (\<lambda>_. increase_balance F k amt db)"
| "increase_scr_visitor F amt (Dev_committee_id i) db =
     bindE (visit_pool i) (\<lambda>_.
     bindE (asset_add F (dc_scr_balance (dev_pool db)) amt) (\<lambda>b. Inr (db\<lparr>dev_pool := (dev_pool db)\<lparr>dc_scr_balance := b\<rparr>\<rparr>)))"

definition increase_scr :: "ext_lib \<Rightarrow> withdrawable_id \<Rightarrow> asset \<Rightarrow> database \<Rightarrow> database res" where
  "increase_scr F to_id amt db =
     bindE (fc_assert (symbol amt = SCORUM_SYMBOL) '''') (\<lambda>_.
     if amount amt > 0 then increase_scr_visitor F amt to_id db else Inr db)"

fun increase_sp_visitor :: "ext_lib \<Rightarrow> asset \<Rightarrow> withdrawable_id \<Rightarrow> database \<Rightarrow> database res" where
  "increase_sp_visitor F amt (Account_id k) db = bindE (account_at k db) (\<lambda>_. increase_scorumpower F k amt db)"
| "increase_sp_visitor F amt (Dev_committee_id i) db =
     bindE (visit_pool i) (\<lambda>_.
     bindE (asset_add F (dc_sp_balance (dev_pool db)) amt) (\<lambda>b. Inr (db\<lparr>dev_pool := (dev_pool db)\<lparr>dc_sp_balance := b\<rparr>\<rparr>)))"

definition increase_sp :: "ext_lib \<Rightarrow> withdrawable_id \<Rightarrow> asset \<Rightarrow> database \<Rightarrow> database res" where
  "increase_sp F to_id amt db =
     bindE (fc_assert (symbol amt = SP_SYMBOL) '''') (\<lambda>_.
     if amount amt > 0 then increase_sp_visitor F amt to_id db else Inr db)"

text \<open>\<^verbatim>\<open>update_statistic\<close> reports a payment; of the accounts it names it reads the rows.\<close>

fun named_actor :: "withdrawable_id \<Rightarrow> database \<Rightarrow> unit res" where
  "named_actor (Account_id k) db = bindE (account_at k db) (\<lambda>_. Inr ())"
| "named_actor (Dev_committee_id _) db = Inr ()"

definition update_statistic :: "withdrawable_id \<Rightarrow> withdrawable_id \<Rightarrow> asset \<Rightarrow> database \<Rightarrow> unit res" where
  "update_statistic from_id to_id amt db =
     (if amount amt > 0 then bindE (named_actor from_id db) (\<lambda>_. named_actor to_id db) else Inr ())"

section \<open>The block task\<close>

text \<open>One route: what was deposited so far is threaded through.\<close>

definition deposit_route :: "ext_lib \<Rightarrow> asset \<Rightarrow> withdraw_scorumpower_route_object \<Rightarrow> asset \<times> database \<Rightarrow> (asset \<times> database) res" where
  "deposit_route F to_withdraw wvro st =
     (case st of (deposited, db) \<Rightarrow>
     bindE (make_fraction (int (wr_percent wvro)) SCORUM_100_PERCENT) (\<lambda>f.
     bindE (asset_mul_fraction F to_withdraw f) (\<lambda>to_deposit.
     if amount to_deposit > 0 then
       bindE (asset_add F deposited to_deposit) (\<lambda>deposited.
       let paid_out = (if wr_auto_vest wvro then to_deposit else SCR (amount to_deposit)) in
       bindE (update_statistic (wr_from_id wvro) (wr_to_id wvro) paid_out db) (\<lambda>_.
       bindE (if wr_auto_vest wvro then increase_sp F (wr_to_id wvro) paid_out db else increase_scr F (wr_to_id wvro) paid_out db) (\<lambda>db.
       Inr (deposited, db))))
     else Inr (deposited, db))))"

text \<open>What is due: the rate, or the rest of the last payment, but not more than there is.\<close>

definition due_withdrawal :: "ext_lib \<Rightarrow> withdraw_scorumpower_object \<Rightarrow> asset \<Rightarrow> asset res" where
  "due_withdrawal F wvo scorumpower =
     bindE (asset_sub F (v_to_withdraw wvo) (v_withdrawn wvo)) (\<lambda>rest.
     bindE (asset_lt rest (v_vesting_withdraw_rate wvo)) (\<lambda>is_last.
     if is_last then bindE (asset_mod F (v_to_withdraw wvo) (v_vesting_withdraw_rate wvo)) (asset_min scorumpower)
     else asset_min scorumpower (v_vesting_withdraw_rate wvo)))"

definition pay_withdrawal :: "ext_lib \<Rightarrow> withdrawable_id \<Rightarrow> asset \<Rightarrow> database \<Rightarrow> database res" where
  "pay_withdrawal F from_id to_withdraw db =
     bindE (decrease_sp F from_id to_withdraw db) (\<lambda>db.
     bindE (foldE (deposit_route F to_withdraw) (get_all_routes from_id db) (SP 0, db)) (\<lambda>(deposited, db).
     bindE (asset_sub F to_withdraw deposited) (\<lambda>to_convert.
     bindE (fc_assert (amount to_convert \<ge> 0) ''Deposited more scorum power than were supposed to be withdrawn'') (\<lambda>_.
     bindE (update_statistic from_id from_id (SCR (amount to_convert)) db) (\<lambda>_.
     increase_scr F from_id (SCR (amount to_convert)) db)))))"

definition process_withdrawal :: "ext_lib \<Rightarrow> config \<Rightarrow> nat \<Rightarrow> database \<Rightarrow> database res" where
  "process_withdrawal F cfg k db =
     bindE (ix_get (withdraws db) k) (\<lambda>wvo.
     bindE (get_available_scorumpower (v_from_id wvo) db) (\<lambda>scorumpower.
     bindE (due_withdrawal F wvo scorumpower) (\<lambda>to_withdraw.
     if amount to_withdraw \<le> 0 then remove_withdraw k db
     else
       bindE (pay_withdrawal F (v_from_id wvo) to_withdraw db) (\<lambda>db.
       bindE (asset_sub F scorumpower to_withdraw) (\<lambda>scorumpower.
       bindE (update_withdraw k (\<lambda>o'. bindE (asset_add F (v_withdrawn o') to_withdraw) (\<lambda>x.
                Inr (o'\<lparr>v_withdrawn := x, v_next_vesting_withdrawal := time_add F (v_next_vesting_withdrawal o') (vesting_withdraw_interval_seconds cfg)\<rparr>))) db) (\<lambda>db.
       bindE (ix_get (withdraws db) k) (\<lambda>wvo.
       bindE (asset_ge (v_withdrawn wvo) (v_to_withdraw wvo)) (\<lambda>complete.
       if complete \<or> amount scorumpower = 0 then bindE (named_actor (v_from_id wvo) db) (\<lambda>_. remove_withdraw k db) else Inr db))))))))"

definition process_vesting_withdrawals :: "ext_lib \<Rightarrow> config \<Rightarrow> database \<Rightarrow> database res" where
  "process_vesting_withdrawals F cfg db = foldE (process_withdrawal F cfg) (get_until (head_block_time db) db) db"

end
