(* ===== verification/Withdrawals_Run.thy ===== *)
theory Withdrawals_Run
  imports Withdrawals Funds_Ledger Sample_Config
begin

text \<open>
  What withdrawals of scorum power do: they move power and nothing is lost, they are finished after a bounded
  number of payments, and the routes share out at most what is withdrawn.
\<close>

section \<open>The flow of a withdrawal\<close>

definition moves :: "int \<Rightarrow> database \<Rightarrow> database \<Rightarrow> bool" where
  "moves d db db' \<longleftrightarrow> flows d db db' \<and> (db_ok db \<longrightarrow> withdraws db' = withdraws db \<and> withdraw_routes db' = withdraw_routes db)"

lemma moves_refl [intro]: "moves 0 db db"
  by (auto simp: moves_def)

lemma moves_trans: "moves d db db1 \<Longrightarrow> moves e db1 db2 \<Longrightarrow> d + e = f \<Longrightarrow> moves f db db2"
  unfolding moves_def using flows_trans flows_ok by metis

lemma movesD: "moves d db db' \<Longrightarrow> flows d db db'"
  by (simp add: moves_def)

lemma pays_moves:
  assumes "pays d db db'"
  shows "moves d db db'"
proof -
  have "withdraws db' = withdraws db \<and> withdraw_routes db' = withdraw_routes db" if "purse_free db' = purse_free db"
    using arg_cong [OF that, of withdraws] arg_cong [OF that, of withdraw_routes] by (simp add: purse_free_def)
  then show ?thesis using assms pays_flows pays_free by (auto simp: moves_def)
qed

lemma dev_pool_moves:
  assumes "symbol (dc_scr_balance v) = symbol (dc_scr_balance (dev_pool db))"
    and "amount (dc_sp_balance v) + amount (dc_scr_balance v) = amount (dc_sp_balance (dev_pool db)) + amount (dc_scr_balance (dev_pool db)) + d"
  shows "moves d db (db\<lparr>dev_pool := v\<rparr>)"
proof -
  let ?db = "with_pools (fund_scr db) (fund_sp db) (content_reward_scr db) (voters_reward_scr db) (voters_reward_sp db) (fund_budget db) v
    (witness_reward_migration db) db"
  have e: "?db = db\<lparr>dev_pool := v\<rparr>" by (simp add: with_pools_def)
  have "flows (pools ?db - pools db) db ?db" by (rule with_pools_flows [OF refl]) (use assms(1) in \<open>simp add: e pools_ok_def\<close>)
  moreover have "pools ?db - pools db = d" unfolding e pools_def using assms(2) by simp
  ultimately show ?thesis by (simp add: e moves_def)
qed

lemma increase_sp_moves:
  assumes F: "ext_ok F" and r: "increase_sp F to_id amt db = Inr db'" and s: "sound db" and a: "0 \<le> amount amt"
  shows "moves (amount amt) db db'"
proof (cases "amount amt = 0")
  case True
  then show ?thesis using r by (auto simp: increase_sp_def bindE_Inr_iff)
next
  case False
  then have v: "increase_sp_visitor F amt to_id db = Inr db'" "symbol amt = SP_SYMBOL"
    using r a by (auto simp: increase_sp_def bindE_Inr_iff fc_assert_Inr_iff)
  show ?thesis
  proof (cases to_id)
    case (Account_id k)
    have "SP (amount amt) = amt" using v(2) by (simp add: asset_eqI)
    then have "create_scorumpower F k amt db = Inr db'" using v(1) Account_id by (auto simp: bindE_Inr_iff create_scorumpower_def)
    then show ?thesis using create_scorumpower_pays [OF F _ a] pays_moves by blast
  next
    case (Dev_committee_id i)
    then show ?thesis using v(1) F by (auto simp: bindE_Inr_iff asset_add_iff intro!: dev_pool_moves)
  qed
qed

lemma increase_scr_moves:
  assumes F: "ext_ok F" and r: "increase_scr F to_id amt db = Inr db'" and a: "0 \<le> amount amt"
  shows "moves (amount amt) db db'"
proof (cases "amount amt = 0")
  case True
  then show ?thesis using r by (auto simp: increase_scr_def bindE_Inr_iff)
next
  case False
  then have v: "increase_scr_visitor F amt to_id db = Inr db'"
    using r a by (auto simp: increase_scr_def bindE_Inr_iff fc_assert_Inr_iff)
  show ?thesis
  proof (cases to_id)
    case (Account_id k)
    then show ?thesis using v increase_balance_pays [OF F _ a] pays_moves by (auto simp: bindE_Inr_iff)
  next
    case (Dev_committee_id i)
    then show ?thesis using v F by (auto simp: bindE_Inr_iff asset_add_iff intro!: dev_pool_moves)
  qed
qed

lemma decrease_sp_moves:
  assumes F: "ext_ok F" and r: "decrease_sp F from_id amt db = Inr db'"
    and av: "get_available_scorumpower from_id db = Inr sp" "amount amt \<le> amount sp"
  shows "moves (- amount amt) db db'"
proof -
  have v: "decrease_sp_visitor F amt from_id db = Inr db'" using r by (auto simp: decrease_sp_def bindE_Inr_iff)
  show ?thesis
  proof (cases from_id)
    case (Account_id k)
    then have d: "decrease_scorumpower F k amt db = Inr db'" using v by (auto simp: bindE_Inr_iff)
    then obtain n where n: "increase_scorumpower F k n db = Inr db'" "amount n = - amount amt"
      using F by (auto simp: decrease_scorumpower_def bindE_Inr_iff asset_neg_iff)
    have "keeps db db'" by (rule increase_scorumpower_keeps [OF F n(1)]) (use av n(2) Account_id in \<open>auto simp: account_at_def ix_get_iff bindE_Inr_iff\<close>)
    then have "pays (- amount amt) db db'"
      using decrease_scorumpower_move [OF F d] tidy_increase_scorumpower [OF n(1)] by (simp add: pays_def)
    then show ?thesis by (rule pays_moves)
  next
    case (Dev_committee_id i)
    then show ?thesis using v F by (auto simp: bindE_Inr_iff asset_sub_iff intro!: dev_pool_moves)
  qed
qed

lemma withdraws_flows:
  assumes "wf_index (withdraws db) \<Longrightarrow> wf_index ix"
  shows "flows 0 db (db\<lparr>withdraws := ix\<rparr>)"
proof -
  let ?db = "db\<lparr>withdraws := ix\<rparr>"
  have ok: "db_ok db \<Longrightarrow> db_ok ?db" using assms by (simp add: db_ok_def tables_ok_def pools_ok_def)
  have "keeps db ?db" by (rule keepsI) (use ok in \<open>auto simp: vote_view_def sound_def solvent_def\<close>)
  moreover have "ledger_move 0 db ?db" using ok by (simp add: ledger_move_def supply_sum_def gaps_def acc_sum_def locked_def pools_def)
  moreover have "budgets_of t ?db = budgets_of t db" for t by (cases t) (simp_all add: budgets_of_def)
  ultimately show ?thesis by (simp add: flows_def head_block_time_def)
qed

lemma withdraw_row_flows:
  "update_withdraw k m db = Inr db' \<Longrightarrow> flows 0 db db'"
  "remove_withdraw k db = Inr db' \<Longrightarrow> flows 0 db db'"
  by (auto simp: update_withdraw_def remove_withdraw_def bindE_Inr_iff intro!: withdraws_flows dest: wf_index_modify wf_index_remove)

lemma flows_sound: "flows d db db' \<Longrightarrow> sound db \<Longrightarrow> sound db'"
  by (simp add: flows_def keeps_def)

lemma deposit_route_moves:
  assumes F: "ext_ok F" and r: "deposit_route F w rt (dep, db) = Inr (dep', db')" and s: "sound db"
  shows "moves (amount dep' - amount dep) db db'"
proof -
  from r obtain f x where x: "make_fraction (int (wr_percent rt)) SCORUM_100_PERCENT = Inr f" "asset_mul_fraction F w f = Inr x"
    by (auto simp: deposit_route_def bindE_Inr_iff)
  show ?thesis
  proof (cases "amount x > 0")
    case False
    then show ?thesis using r x by (auto simp: deposit_route_def)
  next
    case True
    then have "amount dep' = amount dep + amount x"
      and "if wr_auto_vest rt then increase_sp F (wr_to_id rt) x db = Inr db' else increase_scr F (wr_to_id rt) (SCR (amount x)) db = Inr db'"
      using r x F by (auto simp: deposit_route_def bindE_Inr_iff asset_add_iff Let_def split: if_splits)
    then show ?thesis using increase_sp_moves [OF F _ s, of _ x db'] increase_scr_moves [OF F, of _ "SCR (amount x)" db db'] True by (auto split: if_splits)
  qed
qed

lemma deposit_routes_moves:
  assumes F: "ext_ok F" and "foldE (deposit_route F w) rts (dep, db) = Inr (dep', db')" and "sound db"
  shows "moves (amount dep' - amount dep) db db'"
  using assms(2,3)
proof (induction rts arbitrary: dep db)
  case (Cons rt rts)
  then obtain dep1 db1 where 1: "deposit_route F w rt (dep, db) = Inr (dep1, db1)" and 2: "foldE (deposit_route F w) rts (dep1, db1) = Inr (dep', db')"
    by (auto simp: bindE_Inr_iff)
  note m = deposit_route_moves [OF F 1 Cons.prems(2)]
  from Cons.IH [OF 2 flows_sound [OF movesD [OF m] Cons.prems(2)]] show ?case by (rule moves_trans [OF m]) simp
qed auto

lemma pay_withdrawal_moves:
  assumes F: "ext_ok F" and r: "pay_withdrawal F from_id w db = Inr db'" and s: "sound db"
    and av: "get_available_scorumpower from_id db = Inr sp" "amount w \<le> amount sp"
  shows "moves 0 db db'"
proof -
  from r obtain db1 dep db2 c where 1: "decrease_sp F from_id w db = Inr db1"
    and 2: "foldE (deposit_route F w) (get_all_routes from_id db1) (SP 0, db1) = Inr (dep, db2)"
    and c: "asset_sub F w dep = Inr c" "0 \<le> amount c" and 3: "increase_scr F from_id (SCR (amount c)) db2 = Inr db'"
    by (auto simp: pay_withdrawal_def bindE_Inr_iff fc_assert_Inr_iff)
  note m1 = decrease_sp_moves [OF F 1 av]
  note m2 = deposit_routes_moves [OF F 2 flows_sound [OF movesD [OF m1] s]]
  have "moves (amount c) db2 db'" using increase_scr_moves [OF F 3] c(2) by simp
  then have "moves (amount dep + amount c) db1 db'" by (rule moves_trans [OF m2]) simp
  then show ?thesis by (rule moves_trans [OF m1]) (use c(1) F in \<open>auto simp: asset_sub_iff\<close>)
qed

lemma due_le: "due_withdrawal F wvo sp = Inr w \<Longrightarrow> amount w \<le> amount sp"
  by (auto simp: due_withdrawal_def asset_min_def bindE_Inr_iff asset_order_iffs split: if_splits)

text \<open>What one withdrawal does to its row.\<close>

lemma process_withdrawal_steps:
  assumes r: "process_withdrawal F cfg k db = Inr db'"
  obtains wvo sp w where "map_of (indices (withdraws db)) k = Some wvo" and "get_available_scorumpower (v_from_id wvo) db = Inr sp"
    and "due_withdrawal F wvo sp = Inr w"
    and "amount w \<le> 0 \<and> remove_withdraw k db = Inr db' \<or>
      0 < amount w \<and> (\<exists>db1 db2 wvo' rest. pay_withdrawal F (v_from_id wvo) w db = Inr db1 \<and>
        update_withdraw k (\<lambda>o'. bindE (asset_add F (v_withdrawn o') w) (\<lambda>x. Inr (o'\<lparr>v_withdrawn := x,
          v_next_vesting_withdrawal := time_add F (v_next_vesting_withdrawal o') (vesting_withdraw_interval_seconds cfg)\<rparr>))) db1 = Inr db2 \<and>
        map_of (indices (withdraws db2)) k = Some wvo' \<and> asset_sub F sp w = Inr rest \<and>
        (if amount (v_to_withdraw wvo') \<le> amount (v_withdrawn wvo') \<or> amount rest = 0
         then remove_withdraw k db2 = Inr db' else db' = db2))"
  using r by (force simp: process_withdrawal_def bindE_Inr_iff ix_get_iff asset_order_iffs not_le split: if_splits)

lemma flows_zero: "flows 0 a b \<Longrightarrow> flows 0 b c \<Longrightarrow> flows 0 a c"
  by (rule flows_trans [of 0 _ _ 0]) simp_all

lemma process_withdrawal_flows:
  assumes F: "ext_ok F" and r: "process_withdrawal F cfg k db = Inr db'" and s: "sound db"
  shows "flows 0 db db'"
proof -
  have pay: "flows 0 db db1" if "pay_withdrawal F (v_from_id wvo) w db = Inr db1" "get_available_scorumpower (v_from_id wvo) db = Inr sp"
    "due_withdrawal F wvo sp = Inr w" for wvo sp w db1
    using movesD [OF pay_withdrawal_moves [OF F that(1) s that(2) due_le [OF that(3)]]] .
  from r show ?thesis
    by (rule process_withdrawal_steps) (auto split: if_splits dest!: withdraw_row_flows dest: pay intro: flows_zero)
qed

lemma process_withdrawals_flows:
  assumes F: "ext_ok F" and "foldE (process_withdrawal F cfg) ks db = Inr db'" and "sound db"
  shows "flows 0 db db'"
  using assms(2,3)
proof (induction ks arbitrary: db)
  case (Cons k ks)
  then obtain db1 where 1: "process_withdrawal F cfg k db = Inr db1" "foldE (process_withdrawal F cfg) ks db1 = Inr db'"
    by (auto simp: bindE_Inr_iff)
  note f = process_withdrawal_flows [OF F 1(1) Cons.prems(2)]
  show ?case by (rule flows_zero [OF f Cons.IH [OF 1(2) flows_sound [OF f Cons.prems(2)]]])
qed auto

section \<open>Withdrawals come to an end\<close>

definition withdrawal_ok :: "withdraw_scorumpower_object \<Rightarrow> bool" where
  "withdrawal_ok w \<longleftrightarrow>
     symbol (v_vesting_withdraw_rate w) = SP_SYMBOL \<and> symbol (v_withdrawn w) = SP_SYMBOL \<and> symbol (v_to_withdraw w) = SP_SYMBOL \<and>
     0 < amount (v_vesting_withdraw_rate w) \<and> 0 \<le> amount (v_withdrawn w) \<and> amount (v_withdrawn w) < amount (v_to_withdraw w) \<and>
     amount (v_to_withdraw w) < 2 ^ 63 \<and> amount (v_vesting_withdraw_rate w) dvd amount (v_withdrawn w)"

text \<open>The payments a withdrawal still needs, at the rate it has.\<close>

definition payments_left :: "withdraw_scorumpower_object \<Rightarrow> int" where
  "payments_left w = (amount (v_to_withdraw w) - amount (v_withdrawn w) + amount (v_vesting_withdraw_rate w) - 1) div amount (v_vesting_withdraw_rate w)"




text \<open>
  A withdrawal of at least the number of intervals gets its part per interval, a smaller one a unit; either way it is over
  within less than twice the number of intervals.
\<close>

lemma payments_bound:
  fixes x n :: int
  assumes "0 < x" and "0 < n"
  shows "(x + max (x div n) 1 - 1) div max (x div n) 1 < 2 * n"
proof (cases "x < n")
  case True
  then have "max (x div n) 1 = 1" using assms by (simp add: div_pos_pos_trivial)
  then show ?thesis using True assms by simp
next
  case False
  define q where "q = x div n"
  have q: "1 \<le> q" using False assms zdiv_mono1 [of n x n] by (simp add: q_def)
  have "x < q * n + n" using pos_mod_bound [OF assms(2), of x] div_mult_mod_eq [of x n] unfolding q_def by linarith
  then have "x + q - 1 < q * n + n + q - 1" by simp
  also have "\<dots> \<le> q * (2 * n)"
  proof -
    have "0 \<le> (q - 1) * (n - 1)" using q assms by simp
    then show ?thesis by (simp add: algebra_simps)
  qed
  finally have *: "x + q - 1 < q * (2 * n)" .
  have "(x + q - 1) div q < 2 * n"
  proof (rule ccontr)
    assume "\<not> (x + q - 1) div q < 2 * n"
    then have "q * (2 * n) \<le> q * ((x + q - 1) div q)" using q by (intro mult_left_mono) simp_all
    also have "\<dots> \<le> x + q - 1" using q pos_mod_sign [of q "x + q - 1"] mult_div_mod_eq [of q "x + q - 1"] by linarith
    finally show False using * by simp
  qed
  then show ?thesis using q by (simp add: q_def max_def)
qed

lemma no_withdraw: "find_withdraw from_id db = None \<Longrightarrow> r \<in> set (indices (withdraws db)) \<Longrightarrow> v_from_id (snd r) \<noteq> from_id"
  unfolding find_withdraw_def ix_find_by_def by (cases r) (auto simp: find_None_iff)

text \<open>
  Starting a withdrawal of a positive amount leaves exactly one withdrawal of the actor, over the whole amount and in good
  order, and it needs less than twice the configured number of payments.
\<close>
lemma withdrawal_starts:
  assumes F: "ext_ok F" and r: "start_withdrawal F cfg from_id x db = Inr db'" and x: "0 < amount x" "amount x < 2 ^ 63" "symbol x = SP_SYMBOL"
    and n: "0 < vesting_withdraw_intervals cfg" and wf: "wf_index (withdraws db)"
    and uniq: "\<forall>r \<in> set (indices (withdraws db)). \<forall>s \<in> set (indices (withdraws db)). v_from_id (snd r) = v_from_id (snd s) \<longrightarrow> r = s"
  shows "\<exists>k w. map_of (indices (withdraws db')) k = Some w \<and> withdrawal_ok w \<and> v_from_id w = from_id \<and> v_to_withdraw w = x \<and>
    amount (v_withdrawn w) = 0 \<and> payments_left w < 2 * int (vesting_withdraw_intervals cfg) \<and>
    (\<forall>r \<in> set (indices (withdraws db')). v_from_id (snd r) = from_id \<longrightarrow> r = (k, w))"
proof -
  let ?n = "int (vesting_withdraw_intervals cfg)" and ?rate = "max (amount x div int (vesting_withdraw_intervals cfg)) 1"
  define w where "w = \<lparr>v_from_id = from_id, v_vesting_withdraw_rate = x\<lparr>amount := ?rate\<rparr>,
    v_next_vesting_withdrawal = time_add F (head_block_time db) (vesting_withdraw_interval_seconds cfg), v_withdrawn = SP 0, v_to_withdraw = x\<rparr>"
  have q: "0 \<le> amount x div ?n" using x n by (simp add: pos_imp_zdiv_nonneg_iff)
  have rate: "(if amount rate = 0 then rate\<lparr>amount := 1\<rparr> else rate) = x\<lparr>amount := ?rate\<rparr>" if "asset_div F x ?n = Inr rate" for rate
    using that F x n q by (auto simp: asset_amount_iffs cdiv_def max_def)
  have ok: "withdrawal_ok w" "payments_left w < 2 * ?n"
    using x payments_bound [OF x(1), of ?n] n by (simp_all add: w_def withdrawal_ok_def payments_left_def)
  from r x(1) obtain rt where "asset_div F x ?n = Inr rt" and
    "save_withdrawal \<lparr>v_from_id = from_id, v_vesting_withdraw_rate = (if amount rt = 0 then rt\<lparr>amount := 1\<rparr> else rt),
      v_next_vesting_withdrawal = time_add F (head_block_time db) (vesting_withdraw_interval_seconds cfg), v_withdrawn = SP 0, v_to_withdraw = x\<rparr> db = Inr db'"
    unfolding start_withdrawal_def bindE_Inr_iff Let_def by (auto simp: bindE_Inr_iff)
  then have c: "save_withdrawal w db = Inr db'" using rate by (simp add: w_def)
  from c have "(find_withdraw from_id db = None \<and> (\<exists>k ix. ix_emplace withdraw_clash (\<lambda>_. Inr w) (withdraws db) = Inr (k, ix) \<and> db' = db\<lparr>withdraws := ix\<rparr>)) \<or>
    (\<exists>k. get_withdraw from_id db = Inr k \<and> update_withdraw k (\<lambda>_. Inr w) db = Inr db')"
    by (auto simp: save_withdrawal_def w_def bindE_Inr_iff split: if_splits)
  then obtain k where rows: "indices (withdraws db') = put_row k w (indices (withdraws db))"
    and others: "\<And>r. r \<in> set (indices (withdraws db)) \<Longrightarrow> v_from_id (snd r) = from_id \<Longrightarrow> fst r = k"
  proof (elim disjE exE conjE, goal_cases)
    case (1 k ix)
    then show ?case
      by (intro 1(1) [of k]) (auto simp: ix_emplace_eq_Inr dest: no_withdraw)
  next
    case (2 k)
    then obtain v where v: "map_of (indices (withdraws db)) k = Some v" "v_from_id v = from_id"
      using ix_find_by_Some wf by (fastforce simp: get_withdraw_def ix_get_by_def wf_index_def split: option.splits)
    then have "(k, v) \<in> set (indices (withdraws db))" by (meson map_of_SomeD)
    then show ?case using 2 v uniq by (intro 2(1) [of k]) (auto simp: update_withdraw_def bindE_Inr_iff ix_modify_eq_Inr)
  qed
  have srt: "sorted_rows (indices (withdraws db'))" using rows wf by (simp add: wf_index_def)
  have "r = (k, w)" if "r \<in> set (indices (withdraws db'))" "v_from_id (snd r) = from_id" for r
  proof -
    have m: "map_of (indices (withdraws db')) (fst r) = Some (snd r)" using that(1) sorted_rows_distinct [OF srt] by (intro map_of_is_SomeI) simp_all
    then have "fst r = k" using others [of r] that(2) rows by (auto split: if_splits dest!: map_of_SomeD)
    then show ?thesis using m rows by (cases r) simp
  qed
  then show ?thesis using ok rows by (intro exI [of _ k] exI [of _ w]) (simp add: w_def)
qed

section \<open>A withdrawal on the sample chain\<close>

text \<open>Bobby withdraws power, a quarter of it to carol as power.\<close>

definition sample_withdrawal :: withdraw_scorumpower_object where
  "sample_withdrawal = \<lparr>v_from_id = Account_id 1, v_vesting_withdraw_rate = SP 100, v_next_vesting_withdrawal = 1000,
     v_withdrawn = SP 200, v_to_withdraw = SP 1350\<rparr>"

definition sample_withdraw_db :: database where
  "sample_withdraw_db = sample_db\<lparr>withdraws := \<lparr>next_id = 1, indices = [(0, sample_withdrawal)]\<rparr>,
     withdraw_routes := \<lparr>next_id = 1, indices = [(0, \<lparr>wr_from_id = Account_id 1, wr_to_id = Account_id 2, wr_percent = 2500, wr_auto_vest = True\<rparr>)]\<rparr>,
     withdraw_route_statistics := \<lparr>next_id = 1, indices = [(0, \<lparr>ws_from_id = Account_id 1, ws_withdraw_routes = 1\<rparr>)]\<rparr>\<rparr>"

lemma sample_intervals [run_simps]: "vesting_withdraw_interval_seconds sample_config = 420" "vesting_withdraw_intervals sample_config = 13"
  by (simp_all add: sample_config_def config_test_def check_witness_limits_def Let_def SCORUM_MAX_WITNESSES_LIMIT_def)

lemma routes_keep:
  assumes "wf_index (withdraw_routes db) \<Longrightarrow> wf_index ix" and "sound db"
  shows "sound (db\<lparr>withdraw_routes := ix, withdraw_route_statistics := st\<rparr>)"
proof -
  let ?db = "db\<lparr>withdraw_routes := ix, withdraw_route_statistics := st\<rparr>"
  have ok: "db_ok db \<Longrightarrow> db_ok ?db" using assms by (simp add: db_ok_def tables_ok_def pools_ok_def)
  have "keeps db ?db" by (rule keepsI) (use ok in \<open>auto simp: vote_view_def sound_def solvent_def\<close>)
  then show ?thesis using assms(2) by (simp add: keeps_def)
qed

lemma sample_withdraw_sound: "sound sample_withdraw_db"
proof -
  have "flows 0 sample_db (sample_db\<lparr>withdraws := \<lparr>next_id = 1, indices = [(0, sample_withdrawal)]\<rparr>\<rparr>)"
    by (rule withdraws_flows) (simp add: wf_index_def)
  from routes_keep [OF _ flows_sound [OF this sample_sound]] show ?thesis by (simp add: sample_withdraw_db_def wf_index_def)
qed

lemmas withdraw_simps = process_withdrawal_def due_withdrawal_def pay_withdrawal_def decrease_sp_def increase_scr_def increase_sp_def
  decrease_scorumpower_def increase_scorumpower_def update_statistic_def get_all_routes_def sort_by_def deposit_route_def make_fraction_def
  asset_mul_fraction_def multiply_by_fractional_def update_withdraw_def remove_withdraw_def asset_min_def withdraw_clash_def
  SCORUM_100_PERCENT_def SCORUM_1_PERCENT_def sample_withdraw_db_def sample_withdrawal_def visit_pool_def
  adjust_proxied_witness_votes.simps adjust_witness_votes_def voted_witnesses_def SCORUM_PROXY_TO_SELF_ACCOUNT_def

lemma sample_withdrawal_runs: "\<not> isl (process_withdrawal ext_ref sample_config 0 sample_withdraw_db)"
  by (simp add: withdraw_simps run_simps Let_def to_i64_id)


lemma withdrawal_starts_witness:
  "\<exists>db' k w. start_withdrawal ext_ref sample_config (Account_id 0) (SP 1000) sample_withdraw_db = Inr db' \<and>
     map_of (indices (withdraws db')) k = Some w \<and> withdrawal_ok w \<and> payments_left w < 26"
proof -
  have "\<not> isl (start_withdrawal ext_ref sample_config (Account_id 0) (SP 1000) sample_withdraw_db)"
    by (simp add: start_withdrawal_def save_withdrawal_def find_withdraw_def withdraw_simps asset_div_def cdiv_def run_simps Let_def)
  then obtain db' where r: "start_withdrawal ext_ref sample_config (Account_id 0) (SP 1000) sample_withdraw_db = Inr db'" using returns by blast
  from withdrawal_starts [OF ext_ok_ref r] obtain k w where "map_of (indices (withdraws db')) k = Some w" "withdrawal_ok w" "payments_left w < 2 * int (vesting_withdraw_intervals sample_config)"
    by (auto simp: sample_intervals sample_withdraw_db_def wf_index_def)
  then show ?thesis using r by (auto simp: sample_intervals)
qed

text \<open>
  C34: The withdrawals of a block, along whatever routes, lose nothing and make nothing: the sum of everything the chain holds and
  the differences between its totals and its accounts are the same, and the database stays sound.
\<close>
theorem vesting_withdrawals_conserve:
  assumes F: "ext_ok F" and r: "process_vesting_withdrawals F cfg db = Inr db'" and s: "sound db"
  shows "sound db' \<and> supply_sum db' = supply_sum db \<and> gaps db' = gaps db"
  using process_withdrawals_flows [OF F r [unfolded process_vesting_withdrawals_def] s] s
  by (auto simp: flows_def keeps_def ledger_move_def sound_def)

theorem vesting_withdrawals_conserve_witness:
  "\<exists>db'. process_vesting_withdrawals ext_ref sample_config sample_withdraw_db = Inr db' \<and> sound db' \<and> supply_sum db' = supply_sum sample_withdraw_db"
proof -
  have "get_until (head_block_time sample_withdraw_db) sample_withdraw_db = [0]"
    by (simp add: get_until_def sample_withdraw_db_def sample_withdrawal_def run_simps)
  then obtain db' where r: "process_vesting_withdrawals ext_ref sample_config sample_withdraw_db = Inr db'"
    using sample_withdrawal_runs by (auto simp: process_vesting_withdrawals_def dest!: returns)
  from vesting_withdrawals_conserve [OF ext_ok_ref r sample_withdraw_sound] r show ?thesis by blast
qed

end
