(* ===== verification/Unique_Keys.thy ===== *)
theory Unique_Keys
  imports Chain_Schema
begin

text \<open>
  Tables with further unique keys. The operations of an index refuse a row that clashes with another one, so no two rows of
  a table ever clash; a row found by a unique key is then the only one with that key.
\<close>

definition unique_rows :: "('v \<Rightarrow> 'v \<Rightarrow> bool) \<Rightarrow> 'v rows \<Rightarrow> bool" where
  "unique_rows clash rs \<longleftrightarrow> (\<forall>k v k' v'. map_of rs k = Some v \<longrightarrow> map_of rs k' = Some v' \<longrightarrow> k \<noteq> k' \<longrightarrow> \<not> clash v v')"

definition table_ok :: "('v \<Rightarrow> 'v \<Rightarrow> bool) \<Rightarrow> 'v base_index \<Rightarrow> bool" where
  "table_ok clash ix \<longleftrightarrow> wf_index ix \<and> unique_rows clash (indices ix)"

lemma table_ok_row: "table_ok clash ix \<Longrightarrow> r \<in> set (indices ix) \<longleftrightarrow> map_of (indices ix) (fst r) = Some (snd r)"
  unfolding table_ok_def wf_index_def by (metis map_of_eq_Some_iff prod.collapse sorted_rows_distinct)

lemma unique_put:
  assumes "unique_rows clash rs" and "\<not> collides clash k v rs" and "\<And>a b. clash a b \<Longrightarrow> clash b a"
  shows "unique_rows clash (put_row k v rs)"
  using assms unfolding unique_rows_def collides_def list_ex_iff
  by (auto dest!: map_of_SomeD split: if_splits)

lemma table_emplace:
  assumes "table_ok clash ix" and "ix_emplace clash c ix = Inr (k, ix')" and "\<And>a b. clash a b \<Longrightarrow> clash b a"
  shows "table_ok clash ix'"
  using assms wf_index_emplace [of ix clash c k ix'] by (auto simp: table_ok_def ix_emplace_eq_Inr intro!: unique_put)

lemma table_modify:
  assumes "table_ok clash ix" and "ix_modify clash k m ix = Inr ix'" and "\<And>a b. clash a b \<Longrightarrow> clash b a"
  shows "table_ok clash ix'"
  using assms wf_index_modify [of ix clash k m ix'] by (auto simp: table_ok_def ix_modify_eq_Inr intro!: unique_put)

lemma table_remove:
  assumes "table_ok clash ix" and "ix_remove k ix = Inr ix'"
  shows "table_ok clash ix'"
  using assms wf_index_remove [of ix k ix'] by (auto simp: table_ok_def ix_remove_eq_Inr unique_rows_def)

text \<open>The row of a unique key.\<close>

lemma table_get_by:
  assumes "ix_get_by P ix = Inr k" and "wf_index ix"
  obtains v where "map_of (indices ix) k = Some v" "P v"
  using assms ix_find_by_Some by (force simp: ix_get_by_def wf_index_def split: option.splits)

lemma find_by_None: "ix_find_by P ix = None \<Longrightarrow> map_of (indices ix) k = Some v \<Longrightarrow> \<not> P v"
  by (auto simp: ix_find_by_def find_None_iff dest!: map_of_SomeD)

text \<open>A sum over the rows with a unique key has one term.\<close>

lemma row_sum_zero: "(\<And>k v. (k, v) \<in> set rs \<Longrightarrow> f v = 0) \<Longrightarrow> row_sum f rs = 0"
  by (induction rs) (fastforce simp: row_sum_def)+

lemma row_sum_unique:
  assumes "table_ok clash ix" and "map_of (indices ix) k = Some v" and "\<And>w. f w \<noteq> 0 \<Longrightarrow> clash v w"
  shows "row_sum f (indices ix) = f v"
proof -
  have "row_sum f (drop_row k (indices ix)) = 0"
  proof (rule row_sum_zero)
    fix k' v' assume a: "(k', v') \<in> set (drop_row k (indices ix))"
    then have "map_of (indices ix) k' = Some v'" "k' \<noteq> k" using table_ok_row [OF assms(1), of "(k', v')"] by (auto simp: drop_row_def)
    then show "f v' = 0" using assms unfolding table_ok_def unique_rows_def by metis
  qed
  then show ?thesis using row_sum_drop [of "indices ix" k v f] assms(1,2) by (simp add: table_ok_def wf_index_def)
qed

end
