(* ===== verification/Withdrawal_Routes.thy ===== *)
theory Withdrawal_Routes
  imports Withdrawals_Run Unique_Keys
begin

text \<open>
  The routes of withdrawals: however they are set, the routes of an actor that get a part never get more than the whole, the
  16 bit total never wraps, the statistics count the routes, and there are at most ten. So the last check of a payment, that
  no more is deposited than was withdrawn, never fails.
\<close>

section \<open>The books of the routes\<close>

definition route_share :: "withdrawable_id \<Rightarrow> database \<Rightarrow> int" where
  "route_share a db = row_sum (\<lambda>r. if wr_from_id r = a \<and> less_withdrawable (Account_id 0) (wr_to_id r) then int (wr_percent r) else 0)
     (indices (withdraw_routes db))"

definition route_count :: "withdrawable_id \<Rightarrow> database \<Rightarrow> int" where
  "route_count a db = row_sum (\<lambda>r. if wr_from_id r = a then 1 else 0) (indices (withdraw_routes db))"

definition counted_routes :: "withdrawable_id \<Rightarrow> database \<Rightarrow> int" where
  "counted_routes a db = row_sum (\<lambda>s. if ws_from_id s = a then int (ws_withdraw_routes s) else 0) (indices (withdraw_route_statistics db))"

definition routes_ok :: "database \<Rightarrow> bool" where
  "routes_ok db \<longleftrightarrow> table_ok route_clash (withdraw_routes db) \<and> table_ok route_statistic_clash (withdraw_route_statistics db) \<and>
     (\<forall>a. route_share a db \<le> SCORUM_100_PERCENT \<and> counted_routes a db = route_count a db \<and> route_count a db \<le> int SCORUM_MAX_WITHDRAW_ROUTES)"

lemma clash_sym: "route_clash a b \<Longrightarrow> route_clash b a" "route_statistic_clash s t \<Longrightarrow> route_statistic_clash t s"
  by (simp_all add: route_clash_def route_statistic_clash_def)

lemma sum_list_filter_rows: "sum_list (map (\<lambda>r. f (snd r)) (filter (\<lambda>r. P (snd r)) rs)) = row_sum (\<lambda>v. if P v then f v else 0) rs"
  by (induction rs) auto

lemma share_of_routes: "(\<Sum>r\<leftarrow>get_all_routes a db. int (wr_percent r)) = route_share a db"
proof -
  let ?P = "\<lambda>v. wr_from_id v = a \<and> less_withdrawable (Account_id 0) (wr_to_id v)" and ?f = "\<lambda>r. int (wr_percent (snd r))"
  have "(\<Sum>r\<leftarrow>get_all_routes a db. int (wr_percent r)) =
      sum_list (map ?f (sort_by (\<lambda>r s. less_withdrawable (wr_to_id (snd r)) (wr_to_id (snd s))) (filter (\<lambda>r. ?P (snd r)) (indices (withdraw_routes db)))))"
    by (simp add: get_all_routes_def comp_def)
  also have "\<dots> = sum_list (map ?f (filter (\<lambda>r. ?P (snd r)) (indices (withdraw_routes db))))"
    by (intro sum_list_mset_eq) (simp only: mset_map mset_sort_by)
  also have "\<dots> = route_share a db" using sum_list_filter_rows [of "\<lambda>v. int (wr_percent v)" ?P] by (simp add: route_share_def)
  finally show ?thesis .
qed

lemma total_percent_mod: "int (total_percent a db) = route_share a db mod 2 ^ 16"
proof -
  have "int (fold (\<lambda>r s. (s + wr_percent r) mod 2 ^ 16) rs n) = (int n + (\<Sum>r\<leftarrow>rs. int (wr_percent r))) mod 2 ^ 16" if "n < 2 ^ 16" for rs n
    using that
  proof (induction rs arbitrary: n)
    case (Cons r rs)
    show ?case using Cons.IH [of "(n + wr_percent r) mod 2 ^ 16"] by (simp add: zmod_int mod_add_left_eq add.assoc)
  qed simp
  from this [of 0 "get_all_routes a db"] show ?thesis by (simp add: total_percent_def share_of_routes)
qed

lemma share_nonneg: "0 \<le> route_share a db"
  by (auto simp: route_share_def intro: row_sum_nonneg)

text \<open>A change adds at most the new part to the share of the actor and leaves the others alone.\<close>

lemma checked_share:
  assumes "route_share a db \<le> SCORUM_100_PERCENT" and "route_share a db' \<le> route_share a db + int p" and "int p \<le> SCORUM_100_PERCENT"
    and "int (total_percent a db') \<le> SCORUM_100_PERCENT"
  shows "route_share a db' \<le> SCORUM_100_PERCENT"
proof -
  have "route_share a db' < 2 ^ 16" using assms(1-3) by (simp add: SCORUM_100_PERCENT_def)
  then have "route_share a db' mod 2 ^ 16 = route_share a db'" using share_nonneg by (intro mod_pos_pos_trivial)
  then show ?thesis using assms(4) by (simp add: total_percent_mod)
qed

section \<open>What the operations do to the books\<close>

lemma statistic_count:
  assumes "table_ok route_statistic_clash (withdraw_route_statistics db)" and "map_of (indices (withdraw_route_statistics db)) k = Some s"
  shows "counted_routes (ws_from_id s) db = int (ws_withdraw_routes s)"
  unfolding counted_routes_def using row_sum_unique [OF assms, of "\<lambda>t. if ws_from_id t = ws_from_id s then int (ws_withdraw_routes t) else 0"]
  by (auto simp: route_statistic_clash_def split: if_splits)

lemma ensure_books:
  assumes r: "ensure_route_statistic a db = Inr db'" and ok: "routes_ok db"
  shows "routes_ok db'" and "withdraw_routes db' = withdraw_routes db"
proof -
  show same: "withdraw_routes db' = withdraw_routes db" using r by (auto simp: ensure_route_statistic_def bindE_Inr_iff split: if_splits)
  have "table_ok route_statistic_clash (withdraw_route_statistics db') \<and> (\<forall>b. counted_routes b db' = counted_routes b db)"
  proof (cases "find_route_statistic a db = None")
    case False
    then show ?thesis using r ok by (auto simp: ensure_route_statistic_def routes_ok_def)
  next
    case True
    then obtain k ix where e: "ix_emplace route_statistic_clash (\<lambda>_. Inr \<lparr>ws_from_id = a, ws_withdraw_routes = 0\<rparr>) (withdraw_route_statistics db) = Inr (k, ix)"
      and db': "db' = db\<lparr>withdraw_route_statistics := ix\<rparr>" using r by (auto simp: ensure_route_statistic_def bindE_Inr_iff)
    have "table_ok route_statistic_clash ix" by (rule table_emplace [OF _ e clash_sym(2)]) (use ok in \<open>simp_all add: routes_ok_def\<close>)
    then show ?thesis using e by (auto simp: db' counted_routes_def ix_emplace_eq_Inr row_sum_put_new)
  qed
  then show "routes_ok db'" using ok same by (auto simp: routes_ok_def route_share_def route_count_def)
qed

text \<open>What a change of the statistics of an actor, by a step up or down, does to its count.\<close>

lemma statistic_books:
  assumes r: "update_route_statistic k f db = Inr db'" and ok: "table_ok route_statistic_clash (withdraw_route_statistics db)"
    and s: "map_of (indices (withdraw_route_statistics db)) k = Some s" and f: "f (ws_withdraw_routes s) mod 2 ^ 16 = n"
  shows "table_ok route_statistic_clash (withdraw_route_statistics db')"
    and "counted_routes b db' = (if b = ws_from_id s then int n else counted_routes b db)"
    and "map_of (indices (withdraw_route_statistics db')) k = Some (s\<lparr>ws_withdraw_routes := n\<rparr>)"
    and "withdraw_routes db' = withdraw_routes db"
proof -
  from r obtain ix where m: "ix_modify route_statistic_clash k (\<lambda>s. Inr (s\<lparr>ws_withdraw_routes := f (ws_withdraw_routes s) mod 2 ^ 16\<rparr>)) (withdraw_route_statistics db) = Inr ix"
    and db': "db' = db\<lparr>withdraw_route_statistics := ix\<rparr>" by (auto simp: update_route_statistic_def bindE_Inr_iff)
  have ix: "indices ix = put_row k (s\<lparr>ws_withdraw_routes := n\<rparr>) (indices (withdraw_route_statistics db))" using m s f by (auto simp: ix_modify_eq_Inr)
  show "table_ok route_statistic_clash (withdraw_route_statistics db')" using table_modify [OF ok m clash_sym(2)] by (simp add: db')
  show "map_of (indices (withdraw_route_statistics db')) k = Some (s\<lparr>ws_withdraw_routes := n\<rparr>)" "withdraw_routes db' = withdraw_routes db"
    by (simp_all add: db' ix)
  have "sorted_rows (indices (withdraw_route_statistics db))" using ok by (simp add: table_ok_def wf_index_def)
  note sum = row_sum_put_old [OF this s]
  show "counted_routes b db' = (if b = ws_from_id s then int n else counted_routes b db)"
    using statistic_count [OF ok s] by (auto simp: counted_routes_def db' ix sum)
qed

text \<open>A step that sets a route of \<open>a\<close> to the part \<open>p\<close>.\<close>

definition route_step :: "withdrawable_id \<Rightarrow> nat \<Rightarrow> database \<Rightarrow> database \<Rightarrow> bool" where
  "route_step a p db db' \<longleftrightarrow> table_ok route_clash (withdraw_routes db') \<and> table_ok route_statistic_clash (withdraw_route_statistics db') \<and>
     (\<forall>b. route_share b db' \<le> route_share b db + (if b = a then int p else 0) \<and> counted_routes b db' = route_count b db' \<and>
       route_count b db' \<le> int SCORUM_MAX_WITHDRAW_ROUTES)"

lemma create_books:
  assumes r: "create_route a t p av k db = Inr db'" and ok: "routes_ok db"
    and s: "map_of (indices (withdraw_route_statistics db)) k = Some s" "ws_from_id s = a"
  shows "route_step a p db db'"
proof -
  from r s obtain i ix where lt: "ws_withdraw_routes s < SCORUM_MAX_WITHDRAW_ROUTES"
    and e: "ix_emplace route_clash (\<lambda>_. Inr \<lparr>wr_from_id = a, wr_to_id = t, wr_percent = p, wr_auto_vest = av\<rparr>) (withdraw_routes db) = Inr (i, ix)"
    and u: "update_route_statistic k (\<lambda>n. n + 1) (db\<lparr>withdraw_routes := ix\<rparr>) = Inr db'"
    by (auto simp: create_route_def bindE_Inr_iff fc_assert_Inr_iff ix_get_iff)
  have ts: "table_ok route_statistic_clash (withdraw_route_statistics db)" and tr: "table_ok route_clash (withdraw_routes db)"
    using ok by (simp_all add: routes_ok_def)
  have m: "(ws_withdraw_routes s + 1) mod 2 ^ 16 = ws_withdraw_routes s + 1" using lt by (simp add: SCORUM_MAX_WITHDRAW_ROUTES_def)
  note b = statistic_books [OF u _ _ m, simplified, OF ts s(1)]
  have cnt: "counted_routes b db = route_count b db" "route_count b db \<le> int SCORUM_MAX_WITHDRAW_ROUTES" for b using ok by (simp_all add: routes_ok_def)
  have "counted_routes a db = int (ws_withdraw_routes s)" using statistic_count [OF ts s(1)] s(2) by simp
  moreover have "counted_routes b (db\<lparr>withdraw_routes := ix\<rparr>) = counted_routes b db" for b by (simp add: counted_routes_def)
  moreover have "route_count b db' = route_count b db + (if b = a then 1 else 0)"
    "route_share b db' \<le> route_share b db + (if b = a then int p else 0)" for b
    using e b(4) by (auto simp: route_count_def route_share_def ix_emplace_eq_Inr row_sum_put_new)
  ultimately show ?thesis using b(1,2,4) table_emplace [OF tr e clash_sym(1)] cnt lt s(2) by (auto simp: route_step_def SCORUM_MAX_WITHDRAW_ROUTES_def)
qed

lemma change_books:
  assumes r: "change_route a t p av db = Inr db'" and ok: "routes_ok db"
  shows "route_step a p db db'"
proof -
  have tr: "table_ok route_clash (withdraw_routes db)" using ok by (simp add: routes_ok_def)
  from r obtain k ix where k: "get_route a t db = Inr k"
    and m: "ix_modify route_clash k (\<lambda>r. Inr (r\<lparr>wr_percent := p, wr_auto_vest := av\<rparr>)) (withdraw_routes db) = Inr ix"
    and db': "db' = db\<lparr>withdraw_routes := ix\<rparr>" by (auto simp: change_route_def bindE_Inr_iff)
  obtain v where v: "map_of (indices (withdraw_routes db)) k = Some v" "wr_from_id v = a"
    by (rule table_get_by [OF k [unfolded get_route_def]]) (use tr in \<open>auto simp: table_ok_def\<close>)
  have ix: "indices ix = put_row k (v\<lparr>wr_percent := p, wr_auto_vest := av\<rparr>) (indices (withdraw_routes db))" using m v by (auto simp: ix_modify_eq_Inr)
  have "sorted_rows (indices (withdraw_routes db))" using tr by (simp add: table_ok_def wf_index_def)
  note sum = row_sum_put_old [OF this v(1)]
  have "route_count b db' = route_count b db" "route_share b db' \<le> route_share b db + (if b = a then int p else 0)"
    "counted_routes b db' = counted_routes b db" for b
    using v(2) by (auto simp: route_count_def route_share_def counted_routes_def db' ix sum)
  then show ?thesis using ok table_modify [OF tr m clash_sym(1)] by (simp add: routes_ok_def route_step_def db')
qed

lemma remove_books:
  assumes r: "remove_route a t k db = Inr db'" and ok: "routes_ok db"
    and s: "map_of (indices (withdraw_route_statistics db)) k = Some s" "ws_from_id s = a"
  shows "route_step a 0 db db'"
proof -
  have ts: "table_ok route_statistic_clash (withdraw_route_statistics db)" and tr: "table_ok route_clash (withdraw_routes db)"
    and srt: "sorted_rows (indices (withdraw_routes db))" using ok by (simp_all add: routes_ok_def table_ok_def wf_index_def)
  from r obtain i ix db1 where i: "get_route a t db = Inr i" and rem: "ix_remove i (withdraw_routes db) = Inr ix"
    and u: "update_route_statistic k (\<lambda>n. n + (2 ^ 16 - 1)) (db\<lparr>withdraw_routes := ix\<rparr>) = Inr db1"
    and fin: "db' = db1 \<or> (\<exists>s' is. map_of (indices (withdraw_route_statistics db1)) k = Some s' \<and> ws_withdraw_routes s' = 0 \<and>
      ix_remove k (withdraw_route_statistics db1) = Inr is \<and> db' = db1\<lparr>withdraw_route_statistics := is\<rparr>)"
    by (auto simp: remove_route_def bindE_Inr_iff ix_get_iff split: if_splits)
  obtain v where v: "map_of (indices (withdraw_routes db)) i = Some v" "wr_from_id v = a"
    by (rule table_get_by [OF i [unfolded get_route_def]]) (use tr in \<open>auto simp: table_ok_def\<close>)
  have cnt: "counted_routes b db = route_count b db" "route_count b db \<le> int SCORUM_MAX_WITHDRAW_ROUTES" for b using ok by (simp_all add: routes_ok_def)
  have "1 \<le> route_count a db" unfolding route_count_def using row_sum_ge_member [OF v(1), of "\<lambda>r. if wr_from_id r = a then 1 else 0"] v(2) by simp
  then have pos: "1 \<le> ws_withdraw_routes s" "ws_withdraw_routes s \<le> 10" "counted_routes a db = int (ws_withdraw_routes s)"
    using statistic_count [OF ts s(1)] cnt [of a] s(2) by (simp_all add: SCORUM_MAX_WITHDRAW_ROUTES_def)
  then have m: "(ws_withdraw_routes s + (2 ^ 16 - 1)) mod 2 ^ 16 = ws_withdraw_routes s - 1"
    using mod_add_self2 [of "ws_withdraw_routes s - 1" "2 ^ 16"] by (simp add: algebra_simps)
  note b = statistic_books [OF u _ _ m, simplified, OF ts s(1)]
  have "counted_routes b (db\<lparr>withdraw_routes := ix\<rparr>) = counted_routes b db" for b by (simp add: counted_routes_def)
  then have 1: "counted_routes b db1 = counted_routes b db - (if b = a then 1 else 0)" for b using b(2) pos s(2) by (auto simp: of_nat_diff)
  have 2: "table_ok route_statistic_clash (withdraw_route_statistics db') \<and> counted_routes b db' = counted_routes b db1 \<and> withdraw_routes db' = withdraw_routes db1" for b
    using fin
  proof (elim disjE exE conjE)
    fix s' "is" assume a: "map_of (indices (withdraw_route_statistics db1)) k = Some s'" "ws_withdraw_routes s' = 0"
      "ix_remove k (withdraw_route_statistics db1) = Inr is" "db' = db1\<lparr>withdraw_route_statistics := is\<rparr>"
    have "sorted_rows (indices (withdraw_route_statistics db1))" using b(1) by (simp add: table_ok_def wf_index_def)
    from row_sum_drop [OF this a(1)] show ?thesis using a(2-4) table_remove [OF b(1) a(3)] by (auto simp: counted_routes_def ix_remove_eq_Inr)
  qed (use b(1) in simp)
  have "route_count b db' = route_count b db - (if b = a then 1 else 0)" "route_share b db' \<le> route_share b db" for b
    using rem v(2) by (auto simp: route_count_def route_share_def 2 b(4) ix_remove_eq_Inr row_sum_drop [OF srt v(1)])
  then have "route_share b db' \<le> route_share b db" "counted_routes b db' = route_count b db'" "route_count b db' \<le> int SCORUM_MAX_WITHDRAW_ROUTES" for b
    using 1 [of b] 2 [of b] cnt [of b] by (auto split: if_splits)
  then show ?thesis using 2 table_remove [OF tr rem] b(4) by (simp add: route_step_def)
qed

text \<open>
  C36: Setting routes keeps the books of the routes: the parts of an actor never add up to more than the whole, although the
  check uses a total of 16 bits, the statistics count the routes, and nobody has more than ten.
\<close>
theorem routes_stay_within:
  assumes r: "set_withdraw_route a t p av db = Inr db'" and ok: "routes_ok db" and p: "int p \<le> SCORUM_100_PERCENT"
  shows "routes_ok db'"
proof -
  from r obtain db1 k where 1: "ensure_route_statistic a db = Inr db1"
    and k: "ix_get_by (\<lambda>s. ws_from_id s = a) (withdraw_route_statistics db1) = Inr k"
    and 2: "(if find_route a t db1 = None then create_route a t p av k db1
       else if p = 0 then remove_route a t k db1 else change_route a t p av db1) = Inr db'" and tot: "int (total_percent a db') \<le> SCORUM_100_PERCENT"
    by (auto simp: set_withdraw_route_def bindE_Inr_iff fc_assert_Inr_iff)
  note ok1 = ensure_books(1) [OF 1 ok]
  obtain s where s: "map_of (indices (withdraw_route_statistics db1)) k = Some s" "ws_from_id s = a"
    by (rule table_get_by [OF k]) (use ok1 in \<open>auto simp: routes_ok_def table_ok_def\<close>)
  have b: "route_step a p db1 db'"
    using 2 create_books [OF _ ok1 s, of t p av db'] change_books [OF _ ok1, of a t p av db'] remove_books [OF _ ok1 s, of t db'] by (simp split: if_splits)
  have "route_share b db' \<le> SCORUM_100_PERCENT" for b
  proof (cases "b = a")
    case True
    from b have "route_share a db' \<le> route_share a db1 + int p" unfolding route_step_def by metis
    then show ?thesis using checked_share [of a db1 db' p] ok1 p tot True by (simp add: routes_ok_def)
  next
    case False
    then have "route_share b db' \<le> route_share b db1" using b unfolding route_step_def by (metis add_0_right)
    then show ?thesis using ok1 unfolding routes_ok_def by (meson order_trans)
  qed
  then show ?thesis using b by (simp add: routes_ok_def route_step_def)
qed

section \<open>What the routes get\<close>

text \<open>Parts of an amount, each rounded down, add up to at most the amount.\<close>

lemma parts_within:
  fixes w :: int
  assumes "0 \<le> w" and "\<forall>r \<in> set rs. 0 \<le> f r" and "(\<Sum>r\<leftarrow>rs. f r) \<le> n" and "0 < n"
  shows "(\<Sum>r\<leftarrow>rs. w * f r div n) \<le> w"
proof -
  have "n * (\<Sum>r\<leftarrow>rs. w * f r div n) \<le> w * (\<Sum>r\<leftarrow>rs. f r)"
    using assms(4) by (induction rs) (simp_all add: algebra_simps minus_mod_eq_mult_div [symmetric] add_increasing2)
  also have "\<dots> \<le> w * n" using assms by (intro mult_left_mono)
  finally show ?thesis using assms(4) by (simp add: mult.commute)
qed

lemma deposits_value:
  assumes F: "ext_ok F" and "foldE (deposit_route F w) rts (dep, db) = Inr (dep', db')" and w: "0 < amount w" "amount w < 2 ^ 63"
    and "\<forall>r \<in> set rts. int (wr_percent r) \<le> SCORUM_100_PERCENT"
  shows "amount dep' = amount dep + (\<Sum>r\<leftarrow>rts. amount w * int (wr_percent r) div SCORUM_100_PERCENT)"
  using assms(2,5)
proof (induction rts arbitrary: dep db)
  case (Cons rt rts)
  then obtain dep1 db1 where 1: "deposit_route F w rt (dep, db) = Inr (dep1, db1)" and 2: "foldE (deposit_route F w) rts (dep1, db1) = Inr (dep', db')"
    by (auto simp: bindE_Inr_iff)
  let ?f = "\<lparr>numerator = int (wr_percent rt), denominator = SCORUM_100_PERCENT\<rparr>"
  have "make_fraction (int (wr_percent rt)) SCORUM_100_PERCENT = Inr ?f" by (simp add: make_fraction_def SCORUM_100_PERCENT_def)
  moreover have "asset_mul_fraction F w ?f = Inr (w\<lparr>amount := amount w * int (wr_percent rt) div SCORUM_100_PERCENT\<rparr>)"
    using mul_fraction_returns [OF F, of w ?f] w Cons.prems(2) by (simp add: SCORUM_100_PERCENT_def)
  moreover have "0 \<le> amount w * int (wr_percent rt) div SCORUM_100_PERCENT" using w by (simp add: SCORUM_100_PERCENT_def pos_imp_zdiv_nonneg_iff)
  ultimately have "amount dep1 = amount dep + amount w * int (wr_percent rt) div SCORUM_100_PERCENT"
    using 1 F by (auto simp: deposit_route_def bindE_Inr_iff asset_add_iff Let_def split: if_splits)
  then show ?case using Cons.IH [OF 2] Cons.prems(2) by simp
qed simp

text \<open>
  Along routes whose books are in order a payment deposits exactly the rounded parts, which add up to at most what was
  withdrawn, so the check after the loop cannot fail.
\<close>
lemma routes_deposit_within:
  assumes F: "ext_ok F" and r: "foldE (deposit_route F w) (get_all_routes a db) (SP 0, db) = Inr (dep, db')" and ok: "routes_ok db"
    and w: "0 < amount w" "amount w < 2 ^ 63"
  shows "amount dep = (\<Sum>r\<leftarrow>get_all_routes a db. amount w * int (wr_percent r) div SCORUM_100_PERCENT) \<and> 0 \<le> amount dep \<and> amount dep \<le> amount w"
proof -
  have sum: "(\<Sum>r\<leftarrow>get_all_routes a db. int (wr_percent r)) \<le> SCORUM_100_PERCENT" using ok by (simp add: share_of_routes routes_ok_def)
  have "int (wr_percent r) \<le> SCORUM_100_PERCENT" if "r \<in> set (get_all_routes a db)" for r
    using holder_share_le [of "get_all_routes a db" "\<lambda>r. int (wr_percent r)" r] that sum by simp
  then have v: "amount dep = (\<Sum>r\<leftarrow>get_all_routes a db. amount w * int (wr_percent r) div SCORUM_100_PERCENT)"
    using deposits_value [OF F r w] by simp
  also have "\<dots> \<le> amount w" by (rule parts_within) (use w sum in \<open>simp_all add: SCORUM_100_PERCENT_def\<close>)
  finally have "amount dep \<le> amount w" .
  moreover have "0 \<le> amount dep" unfolding v by (rule sum_list_nonneg) (use w in \<open>auto simp: SCORUM_100_PERCENT_def pos_imp_zdiv_nonneg_iff\<close>)
  ultimately show ?thesis using v by blast
qed

section \<open>Routes on the sample chain\<close>

lemma sample_routes_ok: "routes_ok sample_withdraw_db"
  by (auto simp: routes_ok_def table_ok_def unique_rows_def wf_index_def route_share_def route_count_def counted_routes_def
      sample_withdraw_db_def SCORUM_100_PERCENT_def SCORUM_MAX_WITHDRAW_ROUTES_def split: if_splits)

lemmas route_simps = set_withdraw_route_def ensure_route_statistic_def find_route_statistic_def find_route_def create_route_def
  update_route_statistic_def route_clash_def route_statistic_clash_def total_percent_def SCORUM_MAX_WITHDRAW_ROUTES_def

theorem routes_stay_within_witness:
  "\<exists>db'. set_withdraw_route (Account_id 1) (Dev_committee_id 0) 1000 False sample_withdraw_db = Inr db' \<and> routes_ok db'"
proof -
  have "\<not> isl (set_withdraw_route (Account_id 1) (Dev_committee_id 0) 1000 False sample_withdraw_db)"
    by (simp add: route_simps withdraw_simps run_simps Let_def)
  then obtain db' where r: "set_withdraw_route (Account_id 1) (Dev_committee_id 0) 1000 False sample_withdraw_db = Inr db'" using returns by blast
  from routes_stay_within [OF r sample_routes_ok] r show ?thesis by (simp add: SCORUM_100_PERCENT_def)
qed

lemma routes_deposit_within_witness:
  "\<exists>dep db'. foldE (deposit_route ext_ref (SP 100)) (get_all_routes (Account_id 1) sample_withdraw_db) (SP 0, sample_withdraw_db) = Inr (dep, db') \<and>
     amount dep = 25"
proof -
  let ?r = "foldE (deposit_route ext_ref (SP 100)) (get_all_routes (Account_id 1) sample_withdraw_db) (SP 0, sample_withdraw_db)"
  have "\<not> isl ?r" by (simp add: withdraw_simps run_simps Let_def to_i64_id)
  then obtain st where "?r = Inr st" using returns by blast
  then obtain dep db' where r: "?r = Inr (dep, db')" by (cases st) auto
  have "amount dep = (\<Sum>r\<leftarrow>get_all_routes (Account_id 1) sample_withdraw_db. 100 * int (wr_percent r) div SCORUM_100_PERCENT)"
    using routes_deposit_within [OF ext_ok_ref r sample_routes_ok] by simp
  then have "amount dep = 25" by (simp add: get_all_routes_def sort_by_def sample_withdraw_db_def SCORUM_100_PERCENT_def)
  with r show ?thesis by blast
qed

end
