(* ===== verification/Committees.thy ===== *)
theory Committees
  imports Withdrawals Block_Funds
begin

text \<open>
  The two committees and their proposals: the services \<^verbatim>\<open>registration_committee.cpp\<close>, \<^verbatim>\<open>development_committee.cpp\<close>,
  \<^verbatim>\<open>dev_pool.cpp\<close> and \<^verbatim>\<open>proposal.cpp\<close>, the operations a proposal can hold (\<^verbatim>\<open>proposal_operations.cpp\<close>) with their
  evaluators (\<^verbatim>\<open>proposal_evaluators.cpp\<close>), the executor that applies a proposal once enough members voted for it
  (\<^verbatim>\<open>proposal_executor.cpp\<close>), and the evaluators that create a proposal and vote for it. A committee is the interface
  \<^verbatim>\<open>committee_i\<close> of the code; the two classes that implement it are the cases of \<open>committee\<close>.
\<close>

section \<open>The registration committee\<close>

definition SCORUM_REGISTRATION_COMMITTEE_MAX_MEMBERS_LIMIT :: nat where
  "SCORUM_REGISTRATION_COMMITTEE_MAX_MEMBERS_LIMIT = 30"

definition reg_get_committee :: "database \<Rightarrow> registration_committee_member_object list" where
  "reg_get_committee db = map snd (indices (registration_committee db))"

definition reg_get_member :: "account_name \<Rightarrow> database \<Rightarrow> nat res" where
  "reg_get_member account db = ix_get_by (\<lambda>m. rm_account m = account) (registration_committee db)"

definition reg_members_count :: "database \<Rightarrow> nat" where
  "reg_members_count db = length (indices (registration_committee db))"

definition reg_is_exists :: "account_name \<Rightarrow> database \<Rightarrow> bool" where
  "reg_is_exists account db \<longleftrightarrow> ix_find_by (\<lambda>m. rm_account m = account) (registration_committee db) \<noteq> None"

definition SCORUM_REGISTRATION_BONUS_LIMIT_PER_MEMBER_N_BLOCK :: nat where
  "SCORUM_REGISTRATION_BONUS_LIMIT_PER_MEMBER_N_BLOCK = 2"

definition new_registration_member :: "account_name \<Rightarrow> registration_committee_member_object" where
  "new_registration_member account =
     \<lparr>rm_account = account, rm_already_allocated_cash = SCR 0, rm_last_allocated_block = 0,
      rm_per_n_block_remain = SCORUM_REGISTRATION_BONUS_LIMIT_PER_MEMBER_N_BLOCK\<rparr>"

definition reg_add_account :: "account_name \<Rightarrow> database \<Rightarrow> database res" where
  "reg_add_account account db =
     bindE (fc_assert (\<not> reg_is_exists account db) ''Member already exists.'') (\<lambda>_.
     bindE (fc_assert (reg_members_count db \<le> SCORUM_REGISTRATION_COMMITTEE_MAX_MEMBERS_LIMIT) ''Can't add member. Limit is reached.'') (\<lambda>_.
     bindE (ix_emplace registration_member_clash (\<lambda>_. Inr (new_registration_member account)) (registration_committee db)) (\<lambda>(k, ix).
     Inr (db\<lparr>registration_committee := ix\<rparr>))))"

definition reg_exclude_account :: "account_name \<Rightarrow> database \<Rightarrow> database res" where
  "reg_exclude_account account db =
     bindE (fc_assert (reg_is_exists account db) ''Member does not exist.'') (\<lambda>_.
     bindE (reg_get_member account db) (\<lambda>k.
     bindE (ix_remove k (registration_committee db)) (\<lambda>ix. Inr (db\<lparr>registration_committee := ix\<rparr>))))"

text \<open>
  \<^verbatim>\<open>create_committee\<close> adds the accounts of the genesis state in the order of their names, each once, and ignores the
  ones over the limit.
\<close>

definition reg_create_committee :: "account_name list \<Rightarrow> database \<Rightarrow> database res" where
  "reg_create_committee names db =
     bindE (fc_assert (names \<noteq> []) ''Registration committee must have at least one member.'') (\<lambda>_.
     bindE (fc_assert (reg_get_committee db = []) ''Can't create more than one committee.'') (\<lambda>_.
     bindE (foldE (\<lambda>n _. bindE (get_account n db) (\<lambda>_. Inr ())) names ()) (\<lambda>_.
     bindE (foldE (\<lambda>n db. if reg_members_count db > SCORUM_REGISTRATION_COMMITTEE_MAX_MEMBERS_LIMIT then Inr db else reg_add_account n db)
              (sort (remdups names)) db) (\<lambda>db.
     bindE (fc_assert (reg_members_count db \<noteq> 0) ''Can't initialize at least one member.'') (\<lambda>_.
     Inr db)))))"

definition reg_add_member :: "account_name \<Rightarrow> database \<Rightarrow> database res" where
  "reg_add_member account db =
     bindE (fc_assert (reg_get_committee db \<noteq> []) ''No committee to add member.'') (\<lambda>_.
     bindE (get_account account db) (\<lambda>_. reg_add_account account db))"

definition reg_exclude_member :: "account_name \<Rightarrow> database \<Rightarrow> database res" where
  "reg_exclude_member account db =
     bindE (fc_assert (length (reg_get_committee db) > 1) ''No committee to exclude member.'') (\<lambda>_.
     bindE (get_account account db) (\<lambda>_. reg_exclude_account account db))"

definition update_member_info ::
  "nat \<Rightarrow> (registration_committee_member_object \<Rightarrow> registration_committee_member_object) \<Rightarrow> database \<Rightarrow> database res" where
  "update_member_info k m db =
     bindE (ix_modify registration_member_clash k (\<lambda>x. Inr (m x)) (registration_committee db)) (\<lambda>ix. Inr (db\<lparr>registration_committee := ix\<rparr>))"

definition reg_pool_get :: "database \<Rightarrow> registration_pool_object res" where
  "reg_pool_get db = (case registration_pool db of None \<Rightarrow> Inl Out_of_range | Some pool \<Rightarrow> Inr pool)"

definition reg_pool_update :: "(registration_pool_object \<Rightarrow> registration_pool_object res) \<Rightarrow> database \<Rightarrow> database res" where
  "reg_pool_update m db =
     bindE (reg_pool_get db) (\<lambda>pool. bindE (m pool) (\<lambda>pool. Inr (db\<lparr>registration_pool := Some pool\<rparr>)))"

section \<open>The development committee\<close>

definition SCORUM_DEVELOPMENT_COMMITTEE_MAX_MEMBERS_LIMIT :: nat where
  "SCORUM_DEVELOPMENT_COMMITTEE_MAX_MEMBERS_LIMIT = 30"

definition dev_is_exists :: "account_name \<Rightarrow> database \<Rightarrow> bool" where
  "dev_is_exists account db \<longleftrightarrow> ix_find_by (\<lambda>m. m = account) (dev_committee db) \<noteq> None"

definition dev_members_count :: "database \<Rightarrow> nat" where
  "dev_members_count db = length (indices (dev_committee db))"

definition dev_add_member :: "account_name \<Rightarrow> database \<Rightarrow> database res" where
  "dev_add_member account db =
     bindE (fc_assert (\<not> dev_is_exists account db) ''Member already exists.'') (\<lambda>_.
     bindE (fc_assert (dev_members_count db \<le> SCORUM_DEVELOPMENT_COMMITTEE_MAX_MEMBERS_LIMIT) ''Can't add member. Limit is reached.'') (\<lambda>_.
     bindE (ix_emplace dev_member_clash (\<lambda>_. Inr account) (dev_committee db)) (\<lambda>(k, ix). Inr (db\<lparr>dev_committee := ix\<rparr>))))"

definition dev_exclude_member :: "account_name \<Rightarrow> database \<Rightarrow> database res" where
  "dev_exclude_member account db =
     bindE (fc_assert (dev_members_count db > 1) ''No committee to exclude member.'') (\<lambda>_.
     bindE (ix_get_by (\<lambda>m. m = account) (dev_committee db)) (\<lambda>k.
     bindE (ix_remove k (dev_committee db)) (\<lambda>ix. Inr (db\<lparr>dev_committee := ix\<rparr>))))"

definition decrease_scr_balance :: "ext_lib \<Rightarrow> asset \<Rightarrow> database \<Rightarrow> database res" where
  "decrease_scr_balance F amt db =
     bindE (asset_sub F (dc_scr_balance (dev_pool db)) amt) (\<lambda>b. Inr (db\<lparr>dev_pool := (dev_pool db)\<lparr>dc_scr_balance := b\<rparr>\<rparr>))"

section \<open>The interface of a committee\<close>

datatype committee = Registration_committee | Development_committee

fun add_member :: "committee \<Rightarrow> account_name \<Rightarrow> database \<Rightarrow> database res" where
  "add_member Registration_committee = reg_add_member"
| "add_member Development_committee = dev_add_member"

fun exclude_member :: "committee \<Rightarrow> account_name \<Rightarrow> database \<Rightarrow> database res" where
  "exclude_member Registration_committee = reg_exclude_member"
| "exclude_member Development_committee = dev_exclude_member"

fun is_member :: "committee \<Rightarrow> account_name \<Rightarrow> database \<Rightarrow> bool" where
  "is_member Registration_committee = reg_is_exists"
| "is_member Development_committee = dev_is_exists"

fun members_count :: "committee \<Rightarrow> database \<Rightarrow> nat" where
  "members_count Registration_committee = reg_members_count"
| "members_count Development_committee = dev_members_count"

fun get_add_member_quorum :: "committee \<Rightarrow> database \<Rightarrow> nat res" where
  "get_add_member_quorum Registration_committee db = bindE (reg_pool_get db) (\<lambda>p. Inr (rp_invite_quorum p))"
| "get_add_member_quorum Development_committee db = Inr (dc_invite_quorum (dev_pool db))"

fun get_exclude_member_quorum :: "committee \<Rightarrow> database \<Rightarrow> nat res" where
  "get_exclude_member_quorum Registration_committee db = bindE (reg_pool_get db) (\<lambda>p. Inr (rp_dropout_quorum p))"
| "get_exclude_member_quorum Development_committee db = Inr (dc_dropout_quorum (dev_pool db))"

fun get_base_quorum :: "committee \<Rightarrow> database \<Rightarrow> nat res" where
  "get_base_quorum Registration_committee db = bindE (reg_pool_get db) (\<lambda>p. Inr (rp_change_quorum p))"
| "get_base_quorum Development_committee db = Inr (dc_change_quorum (dev_pool db))"

fun change_add_member_quorum :: "committee \<Rightarrow> nat \<Rightarrow> database \<Rightarrow> database res" where
  "change_add_member_quorum Registration_committee q db = reg_pool_update (\<lambda>p. Inr (p\<lparr>rp_invite_quorum := q\<rparr>)) db"
| "change_add_member_quorum Development_committee q db = Inr (db\<lparr>dev_pool := (dev_pool db)\<lparr>dc_invite_quorum := q\<rparr>\<rparr>)"

fun change_exclude_member_quorum :: "committee \<Rightarrow> nat \<Rightarrow> database \<Rightarrow> database res" where
  "change_exclude_member_quorum Registration_committee q db = reg_pool_update (\<lambda>p. Inr (p\<lparr>rp_dropout_quorum := q\<rparr>)) db"
| "change_exclude_member_quorum Development_committee q db = Inr (db\<lparr>dev_pool := (dev_pool db)\<lparr>dc_dropout_quorum := q\<rparr>\<rparr>)"

fun change_base_quorum :: "committee \<Rightarrow> nat \<Rightarrow> database \<Rightarrow> database res" where
  "change_base_quorum Registration_committee q db = reg_pool_update (\<lambda>p. Inr (p\<lparr>rp_change_quorum := q\<rparr>)) db"
| "change_base_quorum Development_committee q db = Inr (db\<lparr>dev_pool := (dev_pool db)\<lparr>dc_change_quorum := q\<rparr>\<rparr>)"

text \<open>The other quorums exist for the development committee only; \<^verbatim>\<open>weak_visit\<close> skips the registration committee.\<close>

fun change_dev_quorum :: "committee \<Rightarrow> (dev_committee_object \<Rightarrow> dev_committee_object) \<Rightarrow> database \<Rightarrow> database res" where
  "change_dev_quorum Registration_committee m db = Inr db"
| "change_dev_quorum Development_committee m db = Inr (db\<lparr>dev_pool := m (dev_pool db)\<rparr>)"

section \<open>The operations of a proposal\<close>

definition SCORUM_MIN_QUORUM_VALUE_PERCENT :: nat where
  "SCORUM_MIN_QUORUM_VALUE_PERCENT = 50"

definition SCORUM_MAX_QUORUM_VALUE_PERCENT :: nat where
  "SCORUM_MAX_QUORUM_VALUE_PERCENT = 100"

definition validate_quorum :: "quorum_type \<Rightarrow> nat \<Rightarrow> unit res" where
  "validate_quorum t quorum =
     bindE (fc_assert (t \<noteq> None_quorum) ''Quorum type is not set.'') (\<lambda>_.
     bindE (fc_assert (quorum \<ge> SCORUM_MIN_QUORUM_VALUE_PERCENT) ''Quorum is to small.'') (\<lambda>_.
     fc_assert (quorum \<le> SCORUM_MAX_QUORUM_VALUE_PERCENT) ''Quorum is to large.''))"

definition validate_auction_coefficients :: "int list \<Rightarrow> unit res" where
  "validate_auction_coefficients cs =
     bindE (fc_assert (length cs \<ge> 1) ''Invalid coefficient's list'') (\<lambda>_.
     bindE (fc_assert (hd cs \<le> 100) ''Invalid coefficient's list'') (\<lambda>_.
     bindE (fc_assert (List.last cs > 0) ''Invalid coefficient's list'') (\<lambda>_.
     fc_assert (sorted (rev cs)) ''Invalid coefficient's list'')))"

fun proposal_operation_validate :: "proposal_operation \<Rightarrow> unit res" where
  "proposal_operation_validate (Registration_committee_add_member n) = validate_account_name n"
| "proposal_operation_validate (Registration_committee_exclude_member n) = validate_account_name n"
| "proposal_operation_validate (Registration_committee_change_quorum q t) = validate_quorum t q"
| "proposal_operation_validate (Development_committee_add_member n) = validate_account_name n"
| "proposal_operation_validate (Development_committee_exclude_member n) = validate_account_name n"
| "proposal_operation_validate (Development_committee_change_quorum q t) = validate_quorum t q"
| "proposal_operation_validate (Development_committee_withdraw_vesting _) = Inr ()"
| "proposal_operation_validate (Development_committee_transfer to_account amt) =
     bindE (validate_account_name to_account) (\<lambda>_. assertE (asset_gt amt (SCR 0)) ''Must transfer a nonzero amount'')"
| "proposal_operation_validate (Development_committee_empower_advertising_moderator n) = validate_account_name n"
| "proposal_operation_validate (Development_committee_change_post_budgets_auction_properties cs) = validate_auction_coefficients cs"
| "proposal_operation_validate (Development_committee_change_banner_budgets_auction_properties cs) = validate_auction_coefficients cs"
| "proposal_operation_validate (Development_committee_empower_betting_moderator n) = validate_account_name n"
| "proposal_operation_validate (Development_committee_change_betting_resolve_delay _) = Inr ()"

definition proposal_create_validate :: "account_name \<Rightarrow> proposal_operation \<Rightarrow> unit res" where
  "proposal_create_validate creator operation = bindE (validate_account_name creator) (\<lambda>_. proposal_operation_validate operation)"

fun committee_of :: "proposal_operation \<Rightarrow> committee" where
  "committee_of (Registration_committee_add_member _) = Registration_committee"
| "committee_of (Registration_committee_exclude_member _) = Registration_committee"
| "committee_of (Registration_committee_change_quorum _ _) = Registration_committee"
| "committee_of _ = Development_committee"

fun get_required_quorum :: "proposal_operation \<Rightarrow> database \<Rightarrow> nat res" where
  "get_required_quorum (Registration_committee_add_member _) db = get_add_member_quorum Registration_committee db"
| "get_required_quorum (Registration_committee_exclude_member _) db = get_exclude_member_quorum Registration_committee db"
| "get_required_quorum (Registration_committee_change_quorum _ _) db = get_base_quorum Registration_committee db"
| "get_required_quorum (Development_committee_add_member _) db = get_add_member_quorum Development_committee db"
| "get_required_quorum (Development_committee_exclude_member _) db = get_exclude_member_quorum Development_committee db"
| "get_required_quorum (Development_committee_change_quorum _ _) db = get_base_quorum Development_committee db"
| "get_required_quorum (Development_committee_withdraw_vesting _) db = Inr (dc_transfer_quorum (dev_pool db))"
| "get_required_quorum (Development_committee_transfer _ _) db = Inr (dc_transfer_quorum (dev_pool db))"
| "get_required_quorum (Development_committee_empower_advertising_moderator _) db = Inr (dc_advertising_moderator_quorum (dev_pool db))"
| "get_required_quorum (Development_committee_change_post_budgets_auction_properties _) db = Inr (dc_budgets_auction_properties_quorum (dev_pool db))"
| "get_required_quorum (Development_committee_change_banner_budgets_auction_properties _) db = Inr (dc_budgets_auction_properties_quorum (dev_pool db))"
| "get_required_quorum (Development_committee_empower_betting_moderator _) db = Inr (dc_betting_moderator_quorum (dev_pool db))"
| "get_required_quorum (Development_committee_change_betting_resolve_delay _) db = Inr (dc_betting_moderator_quorum (dev_pool db))"

section \<open>The evaluators of a proposal\<close>

definition change_quorum_apply :: "committee \<Rightarrow> nat \<Rightarrow> quorum_type \<Rightarrow> database \<Rightarrow> database res" where
  "change_quorum_apply c q t db =
     (case t of
        Add_member_quorum \<Rightarrow> change_add_member_quorum c q db
      | Exclude_member_quorum \<Rightarrow> change_exclude_member_quorum c q db
      | Base_quorum \<Rightarrow> change_base_quorum c q db
      | Transfer_quorum \<Rightarrow> change_dev_quorum c (\<lambda>m. m\<lparr>dc_transfer_quorum := q\<rparr>) db
      | Advertising_moderator_quorum \<Rightarrow> change_dev_quorum c (\<lambda>m. m\<lparr>dc_advertising_moderator_quorum := q\<rparr>) db
      | Betting_moderator_quorum \<Rightarrow> change_dev_quorum c (\<lambda>m. m\<lparr>dc_betting_moderator_quorum := q\<rparr>) db
      | Betting_resolve_delay_quorum \<Rightarrow> change_dev_quorum c (\<lambda>m. m\<lparr>dc_betting_resolve_delay_quorum := q\<rparr>) db
      | Budgets_auction_properties_quorum \<Rightarrow> change_dev_quorum c (\<lambda>m. m\<lparr>dc_budgets_auction_properties_quorum := q\<rparr>) db
      | None_quorum \<Rightarrow> Inl (Assert_exception ''unknow quorum change operation''))"

definition development_committee_transfer_apply :: "ext_lib \<Rightarrow> account_name \<Rightarrow> asset \<Rightarrow> database \<Rightarrow> database res" where
  "development_committee_transfer_apply F to_account amt db =
     bindE (assertE (asset_le amt (dc_scr_balance (dev_pool db))) ''Not enough SCR in dev pool.'') (\<lambda>_.
     bindE (decrease_scr_balance F amt db) (\<lambda>db.
     bindE (get_account to_account db) (\<lambda>k.
     increase_balance F k amt db)))"

definition development_committee_withdraw_vesting_apply :: "ext_lib \<Rightarrow> config \<Rightarrow> asset \<Rightarrow> database \<Rightarrow> database res" where
  "development_committee_withdraw_vesting_apply F cfg vesting_shares db =
     bindE (if has_hardfork SCORUM_HARDFORK_0_2 db
            then assertE (asset_ge vesting_shares (SP 0)) ''Must withdraw a non-negative amount''
            else assertE (asset_gt vesting_shares (SP 0)) ''Must withdraw a nonzero amount'') (\<lambda>_.
     withdraw_scorumpower_dev_pool_task F cfg vesting_shares db)"

text \<open>
  \<^verbatim>\<open>removed_members\<close> is a set of names the executor keeps, sorted. It is a member of the service object and not of the
  database, so an exception does not undo it: an evaluator returns the set and, beside it, the database or the exception.
\<close>

type_synonym executor = "account_name list"

definition insert_name :: "account_name \<Rightarrow> account_name list \<Rightarrow> account_name list" where
  "insert_name n ns = (if n \<in> set ns then ns else insort n ns)"

definition exclude_apply :: "committee \<Rightarrow> account_name \<Rightarrow> executor \<Rightarrow> database \<Rightarrow> executor \<times> database res" where
  "exclude_apply c n removed_members db =
     (case exclude_member c n db of
        Inl e \<Rightarrow> (removed_members, Inl e)
      | Inr db \<Rightarrow> (insert_name n removed_members, Inr db))"

fun proposal_apply :: "ext_lib \<Rightarrow> config \<Rightarrow> proposal_operation \<Rightarrow> executor \<Rightarrow> database \<Rightarrow> executor \<times> database res" where
  "proposal_apply F cfg (Registration_committee_add_member n) r db = (r, add_member Registration_committee n db)"
| "proposal_apply F cfg (Registration_committee_exclude_member n) r db = exclude_apply Registration_committee n r db"
| "proposal_apply F cfg (Registration_committee_change_quorum q t) r db = (r, change_quorum_apply Registration_committee q t db)"
| "proposal_apply F cfg (Development_committee_add_member n) r db = (r, add_member Development_committee n db)"
| "proposal_apply F cfg (Development_committee_exclude_member n) r db = exclude_apply Development_committee n r db"
| "proposal_apply F cfg (Development_committee_change_quorum q t) r db = (r, change_quorum_apply Development_committee q t db)"
| "proposal_apply F cfg (Development_committee_withdraw_vesting v) r db = (r, development_committee_withdraw_vesting_apply F cfg v db)"
| "proposal_apply F cfg (Development_committee_transfer n amt) r db = (r, development_committee_transfer_apply F n amt db)"
| "proposal_apply F cfg (Development_committee_empower_advertising_moderator n) r db =
     (r, Inr (db\<lparr>advertising_property := (advertising_property db)\<lparr>adv_moderator := n\<rparr>\<rparr>))"
| "proposal_apply F cfg (Development_committee_change_post_budgets_auction_properties cs) r db =
     (r, Inr (db\<lparr>advertising_property := (advertising_property db)\<lparr>auction_post_coefficients := cs\<rparr>\<rparr>))"
| "proposal_apply F cfg (Development_committee_change_banner_budgets_auction_properties cs) r db =
     (r, Inr (db\<lparr>advertising_property := (advertising_property db)\<lparr>auction_banner_coefficients := cs\<rparr>\<rparr>))"
| "proposal_apply F cfg (Development_committee_empower_betting_moderator n) r db =
     (r, Inr (db\<lparr>betting_property := (betting_property db)\<lparr>bp_moderator := n\<rparr>\<rparr>))"
| "proposal_apply F cfg (Development_committee_change_betting_resolve_delay s) r db =
     (r, Inr (db\<lparr>betting_property := (betting_property db)\<lparr>bp_resolve_delay_sec := s\<rparr>\<rparr>))"

section \<open>Proposals\<close>

text \<open>Proposals have no unique key but the id.\<close>

definition update_proposal :: "nat \<Rightarrow> (proposal_object \<Rightarrow> proposal_object) \<Rightarrow> database \<Rightarrow> database res" where
  "update_proposal k m db =
     bindE (ix_modify (\<lambda>_ _. False) k (\<lambda>p. Inr (m p)) (proposals db)) (\<lambda>ix. Inr (db\<lparr>proposals := ix\<rparr>))"

definition remove_proposal :: "nat \<Rightarrow> database \<Rightarrow> database res" where
  "remove_proposal k db = bindE (ix_remove k (proposals db)) (\<lambda>ix. Inr (db\<lparr>proposals := ix\<rparr>))"

definition create_proposal :: "account_name \<Rightarrow> proposal_operation \<Rightarrow> nat \<Rightarrow> nat \<Rightarrow> database \<Rightarrow> database res" where
  "create_proposal creator operation expiration quorum db =
     bindE (ix_emplace (\<lambda>_ _. False) (\<lambda>_. Inr \<lparr>po_creator = creator, po_operation = operation, po_created = head_block_time db,
              po_expiration = expiration, po_quorum_percent = quorum, po_voted_accounts = []\<rparr>) (proposals db)) (\<lambda>(k, ix).
     Inr (db\<lparr>proposals := ix\<rparr>))"

definition vote_for :: "account_name \<Rightarrow> nat \<Rightarrow> database \<Rightarrow> database res" where
  "vote_for voter k db = update_proposal k (\<lambda>p. p\<lparr>po_voted_accounts := insert_name voter (po_voted_accounts p)\<rparr>) db"

definition get_votes :: "proposal_object \<Rightarrow> nat" where
  "get_votes p = length (po_voted_accounts p)"

definition is_expired :: "proposal_object \<Rightarrow> database \<Rightarrow> bool" where
  "is_expired p db \<longleftrightarrow> head_block_time db > po_expiration p"

text \<open>
  \<^verbatim>\<open>clear_expired_proposals\<close> removes the first proposal by expiration as long as it is expired. The index is not
  unique and equal keys keep the order of their insertion.
\<close>

definition clear_expired_proposals :: "database \<Rightarrow> database res" where
  "clear_expired_proposals db =
     foldE remove_proposal
       (map fst (takeWhile (\<lambda>r. is_expired (snd r) db) (sort_key (\<lambda>r. po_expiration (snd r)) (indices (proposals db))))) db"

definition for_all_proposals_remove_from_voting_list :: "account_name \<Rightarrow> database \<Rightarrow> database res" where
  "for_all_proposals_remove_from_voting_list member db =
     foldE (\<lambda>k. update_proposal k (\<lambda>p. p\<lparr>po_voted_accounts := filter (\<lambda>n. n \<noteq> member) (po_voted_accounts p)\<rparr>))
       (map fst (indices (proposals db))) db"

definition get_proposals :: "database \<Rightarrow> nat list" where
  "get_proposals db = map fst (sort_key (\<lambda>r. po_created (snd r)) (indices (proposals db)))"

section \<open>The executor\<close>

text \<open>\<^verbatim>\<open>utils::is_quorum\<close>: the share of the votes, in hundredths of a percent, against the quorum.\<close>

definition is_quorum :: "ext_lib \<Rightarrow> nat \<Rightarrow> nat \<Rightarrow> nat \<Rightarrow> bool res" where
  "is_quorum F votes members quorum =
     bindE (safe_mul F (int votes) SCORUM_100_PERCENT) (\<lambda>x.
     bindE (safe_div F x (int members)) (\<lambda>voted_percent.
     Inr (voted_percent \<ge> int quorum * SCORUM_1_PERCENT)))"

definition has_quorum :: "ext_lib \<Rightarrow> proposal_object \<Rightarrow> database \<Rightarrow> bool res" where
  "has_quorum F p db = is_quorum F (get_votes p) (members_count (committee_of (po_operation p)) db) (po_quorum_percent p)"

definition execute_proposal :: "ext_lib \<Rightarrow> config \<Rightarrow> nat \<Rightarrow> executor \<Rightarrow> database \<Rightarrow> executor \<times> database res" where
  "execute_proposal F cfg k r db =
     (case ix_get (proposals db) k of
        Inl e \<Rightarrow> (r, Inl e)
      | Inr p \<Rightarrow>
     (case has_quorum F p db of
        Inl e \<Rightarrow> (r, Inl e)
      | Inr False \<Rightarrow> (r, Inr db)
      | Inr True \<Rightarrow>
     (case proposal_apply F cfg (po_operation p) r db of
        (r, Inl e) \<Rightarrow> (r, Inl e)
      | (r, Inr db) \<Rightarrow> (r, remove_proposal k db))))"

fun execute_all :: "ext_lib \<Rightarrow> config \<Rightarrow> nat list \<Rightarrow> executor \<Rightarrow> database \<Rightarrow> executor \<times> database res" where
  "execute_all F cfg [] r db = (r, Inr db)"
| "execute_all F cfg (k # ks) r db =
     (case execute_proposal F cfg k r db of
        (r, Inl e) \<Rightarrow> (r, Inl e)
      | (r, Inr db) \<Rightarrow> execute_all F cfg ks r db)"

subsection \<open>The loop ends\<close>

text \<open>What the evaluators leave alone: every one keeps the proposals, and only two kinds change a committee.\<close>

lemma increase_balance_frame:
  "increase_balance F k amt db = Inr db' \<Longrightarrow>
     proposals db' = proposals db \<and> registration_committee db' = registration_committee db \<and> dev_committee db' = dev_committee db"
  by (auto simp: increase_balance_def update_account_def update_dgp_def bindE_Inr_iff)

text \<open>A withdrawal changes the table of withdrawals only.\<close>

lemma withdrawal_tables:
  "remove_withdraw k db = Inr db' \<Longrightarrow> \<exists>ix. db' = db\<lparr>withdraws := ix\<rparr>"
  "update_withdraw k m db = Inr db' \<Longrightarrow> \<exists>ix. db' = db\<lparr>withdraws := ix\<rparr>"
  by (auto simp: remove_withdraw_def update_withdraw_def bindE_Inr_iff)

lemma start_withdrawal_tables:
  assumes "start_withdrawal F cfg from_id amt db = Inr db'"
  shows "\<exists>ix. db' = db\<lparr>withdraws := ix\<rparr>"
proof -
  have "remove_withdraw_scorumpower from_id db = Inr db' \<or> (\<exists>wv. save_withdrawal wv db = Inr db')"
    using assms by (auto simp: start_withdrawal_def Let_def bindE_Inr_iff split: if_splits)
  moreover have "\<exists>ix. db' = db\<lparr>withdraws := ix\<rparr>" if "remove_withdraw_scorumpower from_id db = Inr db'"
  proof (cases "find_withdraw from_id db = None")
    case True
    then have "db' = db\<lparr>withdraws := withdraws db\<rparr>" using that by (simp add: remove_withdraw_scorumpower_def)
    then show ?thesis by blast
  qed (use that in \<open>auto simp: remove_withdraw_scorumpower_def bindE_Inr_iff dest: withdrawal_tables\<close>)
  moreover have "\<exists>ix. db' = db\<lparr>withdraws := ix\<rparr>" if "save_withdrawal wv db = Inr db'" for wv
    using that by (auto simp: save_withdrawal_def bindE_Inr_iff split: if_splits dest: withdrawal_tables)
  ultimately show ?thesis by blast
qed

lemma withdraw_dev_pool_frame:
  assumes "withdraw_scorumpower_dev_pool_task F cfg amt db = Inr db'"
  shows "proposals db' = proposals db \<and> registration_committee db' = registration_committee db \<and> dev_committee db' = dev_committee db"
proof -
  obtain ix where "db' = db\<lparr>withdraws := ix\<rparr>"
    using assms by (auto simp: withdraw_scorumpower_dev_pool_task_def bindE_Inr_iff dest: start_withdrawal_tables)
  then show ?thesis by simp
qed

lemma change_quorum_frame:
  "change_quorum_apply c q t db = Inr db' \<Longrightarrow>
     proposals db' = proposals db \<and> registration_committee db' = registration_committee db \<and> dev_committee db' = dev_committee db"
  by (cases c; cases t) (auto simp: change_quorum_apply_def reg_pool_update_def bindE_Inr_iff)

lemma member_change_frame:
  "add_member c n db = Inr db' \<Longrightarrow> proposals db' = proposals db"
  "exclude_member c n db = Inr db' \<Longrightarrow> proposals db' = proposals db"
  by (cases c; auto simp: reg_add_member_def reg_add_account_def dev_add_member_def reg_exclude_member_def reg_exclude_account_def
      dev_exclude_member_def bindE_Inr_iff)+

lemma transfer_frame:
  "development_committee_transfer_apply F n amt db = Inr db' \<Longrightarrow>
     proposals db' = proposals db \<and> registration_committee db' = registration_committee db \<and> dev_committee db' = dev_committee db"
  by (auto simp: development_committee_transfer_apply_def decrease_scr_balance_def bindE_Inr_iff dest!: increase_balance_frame)

lemma exclude_apply_Inr:
  "exclude_apply c n r db = (r', Inr db') \<longleftrightarrow> exclude_member c n db = Inr db' \<and> r' = insert_name n r"
  by (auto simp: exclude_apply_def split: sum.splits)

lemma proposal_apply_proposals: "proposal_apply F cfg op r db = (r', Inr db') \<Longrightarrow> proposals db' = proposals db"
  by (cases op) (auto simp: exclude_apply_Inr development_committee_withdraw_vesting_apply_def bindE_Inr_iff simp del: add_member.simps exclude_member.simps
      dest!: member_change_frame change_quorum_frame transfer_frame withdraw_dev_pool_frame)

text \<open>A proposal is left as it is, with everything else, or it is executed and gone.\<close>

lemma execute_proposal_cases:
  assumes "execute_proposal F cfg k r db = (r', Inr db')"
  obtains (waits) p where "map_of (indices (proposals db)) k = Some p" "has_quorum F p db = Inr False" "r' = r" "db' = db"
  | (executed) p db1 where "map_of (indices (proposals db)) k = Some p" "has_quorum F p db = Inr True"
      "proposal_apply F cfg (po_operation p) r db = (r', Inr db1)" "remove_proposal k db1 = Inr db'"
  using assms by (auto simp: execute_proposal_def ix_get_iff split: sum.splits bool.splits prod.splits)

definition proposal_ids :: "database \<Rightarrow> nat set" where
  "proposal_ids db = fst ` set (indices (proposals db))"

lemma finite_proposal_ids [simp]: "finite (proposal_ids db)"
  by (simp add: proposal_ids_def)

lemma proposal_ids_iff: "k \<in> proposal_ids db \<longleftrightarrow> (\<exists>p. map_of (indices (proposals db)) k = Some p)"
  using map_of_eq_None_rows [of "indices (proposals db)" k] by (auto simp: proposal_ids_def)

lemma execute_proposal_shrinks:
  assumes "execute_proposal F cfg k r db = (r', Inr db')"
  shows "r' = r \<and> db' = db \<or> card (proposal_ids db') < card (proposal_ids db)"
  using assms
proof (cases rule: execute_proposal_cases)
  case (executed p db1)
  then have k: "k \<in> proposal_ids db" by (simp add: proposal_ids_iff)
  have "proposal_ids db' = proposal_ids db - {k}" using executed(4) proposal_apply_proposals [OF executed(3)]
    unfolding remove_proposal_def bindE_Inr_iff ix_remove_eq_Inr proposal_ids_def by (auto simp del: fst_set_drop_row simp flip: fst_set_drop_row)
  then show ?thesis using card_Diff1_less [OF finite_proposal_ids k] by simp
qed simp

lemma execute_all_shrinks:
  assumes "execute_all F cfg ks r db = (r', Inr db')"
  shows "r' = r \<and> db' = db \<or> card (proposal_ids db') < card (proposal_ids db)"
  using assms
proof (induction ks arbitrary: r db)
  case (Cons k ks)
  then obtain r1 db1 where "execute_proposal F cfg k r db = (r1, Inr db1)" "execute_all F cfg ks r1 db1 = (r', Inr db')"
    by (auto split: prod.splits sum.splits)
  then show ?case using execute_proposal_shrinks [of F cfg k r db r1 db1] Cons.IH [of r1 db1] by force
qed simp

lemma foldE_update_ids:
  assumes "foldE (\<lambda>k. update_proposal k m) ks db = Inr db'"
  shows "proposal_ids db' = proposal_ids db"
proof (rule foldE_inv [OF assms])
  fix k s s' assume s: "proposal_ids s = proposal_ids db" and "update_proposal k m s = Inr s'"
  then obtain p where "map_of (indices (proposals s)) k = Some p" "indices (proposals s') = put_row k (m p) (indices (proposals s))"
    by (auto simp: update_proposal_def bindE_Inr_iff ix_modify_eq_Inr)
  then show "proposal_ids s' = proposal_ids db" using s proposal_ids_iff [of k s] by (auto simp: proposal_ids_def)
qed simp

text \<open>
  \<^verbatim>\<open>update_proposals_voting_list_and_execute\<close>: a round for every removed member. A round either executes a proposal, so
  that there are fewer of them, or leaves the set of removed members smaller.
\<close>

function update_proposals_voting_list_and_execute ::
  "ext_lib \<Rightarrow> config \<Rightarrow> executor \<Rightarrow> database \<Rightarrow> executor \<times> database res" where
  "update_proposals_voting_list_and_execute F cfg [] db = ([], Inr db)"
| "update_proposals_voting_list_and_execute F cfg (member # ms) db =
     (case for_all_proposals_remove_from_voting_list member db of
        Inl e \<Rightarrow> (member # ms, Inl e)
      | Inr db \<Rightarrow>
     (case execute_all F cfg (get_proposals db) (member # ms) db of
        (r, Inl e) \<Rightarrow> (r, Inl e)
      | (r, Inr db) \<Rightarrow> update_proposals_voting_list_and_execute F cfg (filter (\<lambda>n. n \<noteq> member) r) db))"
  by pat_completeness auto
termination
proof (relation "measures [\<lambda>(F, cfg, r, db). card (proposal_ids db), \<lambda>(F, cfg, r, db). length r]", goal_cases)
  case (2 F cfg member ms db db1 r b db2)
  have l: "proposal_ids db1 = proposal_ids db"
    by (rule foldE_update_ids [OF 2(1) [unfolded for_all_proposals_remove_from_voting_list_def]])
  have "length (filter (\<lambda>n. n \<noteq> member) ms) \<le> length ms" by simp
  then show ?case
    using execute_all_shrinks [of F cfg "get_proposals db1" "member # ms" db1 r db2] 2 l by (auto simp: less_Suc_eq_le)
qed simp

declare update_proposals_voting_list_and_execute.simps [simp del]

definition proposal_executor :: "ext_lib \<Rightarrow> config \<Rightarrow> nat \<Rightarrow> executor \<Rightarrow> database \<Rightarrow> executor \<times> database res" where
  "proposal_executor F cfg k r db =
     (case execute_proposal F cfg k r db of
        (r, Inl e) \<Rightarrow> (r, Inl e)
      | (r, Inr db) \<Rightarrow> update_proposals_voting_list_and_execute F cfg r db)"

section \<open>The evaluators of the operations\<close>

definition SCORUM_PROPOSAL_LIFETIME_MIN_SECONDS :: nat where
  "SCORUM_PROPOSAL_LIFETIME_MIN_SECONDS = days_to_seconds 1"

definition SCORUM_PROPOSAL_LIFETIME_MAX_SECONDS :: nat where
  "SCORUM_PROPOSAL_LIFETIME_MAX_SECONDS = days_to_seconds 10"

definition proposal_create_apply :: "ext_lib \<Rightarrow> account_name \<Rightarrow> nat \<Rightarrow> proposal_operation \<Rightarrow> database \<Rightarrow> database res" where
  "proposal_create_apply F creator lifetime_sec operation db =
     bindE (fc_assert (lifetime_sec \<le> SCORUM_PROPOSAL_LIFETIME_MAX_SECONDS \<and> lifetime_sec \<ge> SCORUM_PROPOSAL_LIFETIME_MIN_SECONDS)
              ''Proposal life time is not in range of min - max seconds.'') (\<lambda>_.
     bindE (fc_assert (is_member (committee_of operation) creator db) ''Account is not in committee.'') (\<lambda>_.
     bindE (check_account_existence creator db) (\<lambda>_.
     let expiration = time_add F (head_block_time db) lifetime_sec in
     bindE (get_required_quorum operation db) (\<lambda>quorum.
     create_proposal creator operation expiration quorum db))))"

definition accept_vote :: "account_name \<Rightarrow> nat \<Rightarrow> database \<Rightarrow> database res" where
  "accept_vote voting_account proposal_id db =
     bindE (fc_assert (ix_find (proposals db) proposal_id \<noteq> None) ''There is no proposal with this id'') (\<lambda>_.
     bindE (ix_get (proposals db) proposal_id) (\<lambda>p.
     bindE (fc_assert (is_member (committee_of (po_operation p)) voting_account db) ''Account is not in committee.'') (\<lambda>_.
     bindE (check_account_existence voting_account db) (\<lambda>_.
     bindE (fc_assert (voting_account \<notin> set (po_voted_accounts p)) ''Account already voted'') (\<lambda>_.
     bindE (fc_assert (\<not> is_expired p db) ''Proposal is expired.'') (\<lambda>_.
     vote_for voting_account proposal_id db))))))"

definition proposal_vote_apply ::
  "ext_lib \<Rightarrow> config \<Rightarrow> account_name \<Rightarrow> nat \<Rightarrow> executor \<Rightarrow> database \<Rightarrow> executor \<times> database res" where
  "proposal_vote_apply F cfg voting_account proposal_id r db =
     (case accept_vote voting_account proposal_id db of
        Inl e \<Rightarrow> (r, Inl e)
      | Inr db \<Rightarrow> proposal_executor F cfg proposal_id r db)"

end
