(* ===== verification/Registration.thy ===== *)
theory Registration
  imports Committees
begin

text \<open>
  The registration pool: the service \<^verbatim>\<open>registration_pool.cpp\<close>, the registration of accounts by the committee
  (\<^verbatim>\<open>registration_pool_evaluator.cpp\<close>), the delegation of power from the pool
  (\<^verbatim>\<open>delegate_sp_from_reg_pool_evaluator.cpp\<close>), and the return of the bonuses that expire
  (\<^verbatim>\<open>account_registration_bonus.cpp\<close>, \<^verbatim>\<open>process_account_registration_bonus_expiration.cpp\<close>).
\<close>

section \<open>The pool\<close>

definition SCORUM_COMMITTEE_ADD_EXCLUDE_QUORUM_PERCENT :: nat where
  "SCORUM_COMMITTEE_ADD_EXCLUDE_QUORUM_PERCENT = 60"

definition SCORUM_COMMITTEE_QUORUM_PERCENT :: nat where
  "SCORUM_COMMITTEE_QUORUM_PERCENT = 60"

text \<open>The schedule is a map from stages to the users and the percentage of a stage, here in the order of the stages.\<close>

definition create_pool :: "asset \<Rightarrow> asset \<Rightarrow> (nat \<times> nat \<times> nat) list \<Rightarrow> database \<Rightarrow> database res" where
  "create_pool amt maximum_bonus schedule_items db =
     bindE (assertE (asset_gt amt (SCR 0)) ''Registration supply amount must be more than zerro.'') (\<lambda>_.
     bindE (assertE (asset_gt maximum_bonus (SCR 0)) ''Registration maximum bonus amount must be more than zerro.'') (\<lambda>_.
     bindE (fc_assert (schedule_items \<noteq> []) ''Registration schedule must have at least one item.'') (\<lambda>_.
     bindE (foldE (\<lambda>(stage, users, percent) _.
              bindE (fc_assert (users > 0) ''Invalid schedule value (users in thousands) for stage.'') (\<lambda>_.
              fc_assert (percent \<le> 100) ''Invalid schedule value (percent) for stage.'')) schedule_items ()) (\<lambda>_.
     bindE (fc_assert (registration_pool db = None) ''Can't create more than one pool.'') (\<lambda>_.
     Inr (db\<lparr>registration_pool := Some \<lparr>rp_balance = amt, rp_delegated = SP 0, rp_maximum_bonus = maximum_bonus,
       rp_already_allocated_count = 0, rp_schedule_items = map snd schedule_items,
       rp_invite_quorum = SCORUM_COMMITTEE_ADD_EXCLUDE_QUORUM_PERCENT, rp_dropout_quorum = SCORUM_COMMITTEE_ADD_EXCLUDE_QUORUM_PERCENT,
       rp_change_quorum = SCORUM_COMMITTEE_QUORUM_PERCENT\<rparr>\<rparr>))))))"

definition pool_decrease_balance :: "ext_lib \<Rightarrow> asset \<Rightarrow> database \<Rightarrow> database res" where
  "pool_decrease_balance F amt db =
     reg_pool_update (\<lambda>p. bindE (asset_sub F (rp_balance p) amt) (\<lambda>b. Inr (p\<lparr>rp_balance := b\<rparr>))) db"

definition increase_already_allocated_count :: "database \<Rightarrow> database res" where
  "increase_already_allocated_count db =
     reg_pool_update (\<lambda>p. Inr (p\<lparr>rp_already_allocated_count := (rp_already_allocated_count p + 1) mod 2 ^ 64\<rparr>)) db"

section \<open>Bonuses\<close>

text \<open>The stage of the schedule for a number of accounts registered so far; after the last stage it is the last one.\<close>

fun schedule_stage :: "nat \<Rightarrow> (nat \<times> nat) list \<Rightarrow> nat \<times> nat" where
  "schedule_stage allocated_rest (it # its) =
     (if fst it \<le> allocated_rest then (if its = [] then it else schedule_stage (allocated_rest - fst it) its) else it)"
| "schedule_stage _ [] = (0, 0)"

definition calculate_amount_by_schedule :: "ext_lib \<Rightarrow> registration_pool_object \<Rightarrow> asset res" where
  "calculate_amount_by_schedule F pool =
     bindE (fc_assert (rp_schedule_items pool \<noteq> []) ''Invalid schedule.'') (\<lambda>_.
     bindE (make_fraction (int (snd (schedule_stage (rp_already_allocated_count pool) (rp_schedule_items pool)))) 100) (\<lambda>f.
     asset_mul_fraction F (rp_maximum_bonus pool) f))"

definition take_actually_amount :: "registration_pool_object \<Rightarrow> asset \<Rightarrow> asset res" where
  "take_actually_amount pool balance =
     bindE (fc_assert (amount balance > 0) ''Invalid balance.'') (\<lambda>_.
     if amount (rp_balance pool) > 0
     then bindE (asset_le balance (rp_balance pool)) (\<lambda>fits. Inr (if fits then balance else rp_balance pool))
     else Inr (rp_balance pool))"

definition SCORUM_REGISTRATION_BONUS_LIMIT_PER_MEMBER_PER_N_BLOCK :: int where
  "SCORUM_REGISTRATION_BONUS_LIMIT_PER_MEMBER_PER_N_BLOCK = 100"

definition check_bandwidth :: "ext_lib \<Rightarrow> registration_pool_object \<Rightarrow> nat \<Rightarrow> asset \<Rightarrow> unit res" where
  "check_bandwidth F pool pass_blocks allocated_cash =
     bindE (safe_mul F (int ((pass_blocks + 1) mod 2 ^ 32)) SCORUM_REGISTRATION_BONUS_LIMIT_PER_MEMBER_PER_N_BLOCK) (\<lambda>limit_per_member.
     bindE (make_fraction limit_per_member (int SCORUM_REGISTRATION_BONUS_LIMIT_PER_MEMBER_N_BLOCK)) (\<lambda>f.
     bindE (asset_mul_fraction F (rp_maximum_bonus pool) f) (\<lambda>limit.
     assertE (asset_le allocated_cash limit) ''Committee member reaches cash limit.'')))"

text \<open>The window of a member: how many blocks of it remain after the blocks that have passed.\<close>

definition move_window :: "nat \<Rightarrow> nat \<Rightarrow> nat" where
  "move_window pass_blocks per_n_block_remain =
     (if pass_blocks > per_n_block_remain then 0 else if pass_blocks > 0 then per_n_block_remain - pass_blocks else per_n_block_remain)"

definition validate_bandwidth :: "ext_lib \<Rightarrow> registration_pool_object \<Rightarrow> nat \<Rightarrow> asset \<Rightarrow> database \<Rightarrow> database res" where
  "validate_bandwidth F pool k amt db =
     bindE (ix_get (registration_committee db) k) (\<lambda>member.
     let head_block_num = dgp_head_block_number (dgp db) in
     bindE (fc_assert (rm_last_allocated_block member \<le> head_block_num) '''') (\<lambda>_.
     let pass_blocks = (if rm_last_allocated_block member > 0 then head_block_num - rm_last_allocated_block member else 0);
         remain = move_window pass_blocks (rm_per_n_block_remain member) in
     bindE (if remain > 0 then bindE (asset_add F (rm_already_allocated_cash member) amt) (\<lambda>c. Inr (c, c, remain))
            else Inr (SCR 0, amt, SCORUM_REGISTRATION_BONUS_LIMIT_PER_MEMBER_N_BLOCK)) (\<lambda>(allocated_cash, already_allocated_cash, remain).
     bindE (check_bandwidth F pool pass_blocks allocated_cash) (\<lambda>_.
     update_member_info k (\<lambda>m. m\<lparr>rm_last_allocated_block := head_block_num, rm_per_n_block_remain := remain,
       rm_already_allocated_cash := already_allocated_cash\<rparr>) db))))"

text \<open>\<^verbatim>\<open>allocate_cash\<close>, for a member of the committee or, with the empty name, for nobody.\<close>

definition reg_allocate_cash :: "ext_lib \<Rightarrow> account_name \<Rightarrow> database \<Rightarrow> (asset \<times> database) res" where
  "reg_allocate_cash F committee_member db =
     bindE (reg_pool_get db) (\<lambda>pool.
     bindE (calculate_amount_by_schedule F pool) (\<lambda>per_reg.
     bindE (fc_assert (amount per_reg > 0) ''Invalid schedule. Zero bonus return.'') (\<lambda>_.
     bindE (take_actually_amount pool per_reg) (\<lambda>per_reg.
     bindE (fc_assert (amount per_reg > 0) ''Nothing to allocate.'') (\<lambda>_.
     bindE (if committee_member \<noteq> [] then bindE (reg_get_member committee_member db) (\<lambda>k. validate_bandwidth F pool k per_reg db) else Inr db) (\<lambda>db.
     bindE (pool_decrease_balance F per_reg db) (\<lambda>db.
     bindE (increase_already_allocated_count db) (\<lambda>db.
     Inr (per_reg, db)))))))))"

definition register_account_bonus :: "ext_lib \<Rightarrow> config \<Rightarrow> account_name \<Rightarrow> asset \<Rightarrow> database \<Rightarrow> database res" where
  "register_account_bonus F cfg new_account bonus db =
     bindE (check_account_existence new_account db) (\<lambda>_.
     bindE (fc_assert (amount bonus > 0) ''No bonus to register.'') (\<lambda>_.
     bindE (ix_emplace registration_bonus_clash (\<lambda>_.
              bindE (asset_add F (SP 0) (SP (amount bonus))) (\<lambda>b.
              Inr \<lparr>arb_account = new_account, arb_bonus = b, arb_expires = time_add F (head_block_time db) (expiraton_for_registration_bonus cfg)\<rparr>))
              (registration_bonuses db)) (\<lambda>(k, ix).
     Inr (db\<lparr>registration_bonuses := ix\<rparr>))))"

definition SCORUM_HARDFORK_0_3 :: nat where
  "SCORUM_HARDFORK_0_3 = 3"

definition account_create_by_committee_apply ::
  "ext_lib \<Rightarrow> config \<Rightarrow> account_name \<Rightarrow> account_name \<Rightarrow> public_key \<Rightarrow> string \<Rightarrow> authority \<Rightarrow> authority \<Rightarrow> authority \<Rightarrow> database \<Rightarrow> database res" where
  "account_create_by_committee_apply F cfg creator new_account_name memo_key json_metadata owner active posting db =
     bindE (check_account_existence creator db) (\<lambda>_.
     bindE (check_accounts_existence (account_auths owner) db) (\<lambda>_.
     bindE (check_accounts_existence (account_auths active) db) (\<lambda>_.
     bindE (check_accounts_existence (account_auths posting) db) (\<lambda>_.
     bindE (fc_assert (reg_is_exists creator db) ''Account is not committee member.'') (\<lambda>_.
     if has_hardfork SCORUM_HARDFORK_0_3 db then
       bindE (create_account_with_fee F new_account_name creator memo_key json_metadata owner active posting (SCR 0) db) (\<lambda>(k, db). Inr db)
     else
       bindE (fc_assert (registration_pool db \<noteq> None) ''Registration pool is not initialized.'') (\<lambda>_.
       bindE (reg_pool_get db) (\<lambda>pool.
       bindE (fc_assert (amount (rp_balance pool) > 0) ''Registration pool is exhausted.'') (\<lambda>_.
       bindE (reg_allocate_cash F creator db) (\<lambda>(bonus, db).
       bindE (create_account_with_bonus F new_account_name creator memo_key json_metadata owner active posting bonus db) (\<lambda>(k, db).
       register_account_bonus F cfg new_account_name bonus db))))))))))"

definition give_bonus_from_registration_pool :: "ext_lib \<Rightarrow> config \<Rightarrow> nat \<Rightarrow> database \<Rightarrow> database res" where
  "give_bonus_from_registration_pool F cfg beneficiary db =
     bindE (reg_allocate_cash F [] db) (\<lambda>(bonus, db).
     bindE (create_scorumpower F beneficiary bonus db) (\<lambda>db.
     bindE (account_at beneficiary db) (\<lambda>acc.
     register_account_bonus F cfg (a_name acc) bonus db)))"

section \<open>Delegation from the pool\<close>

definition lend_from_pool :: "ext_lib \<Rightarrow> account_name \<Rightarrow> asset \<Rightarrow> database \<Rightarrow> database res" where
  "lend_from_pool F delegatee sp db =
     bindE (get_account delegatee db) (\<lambda>k.
     bindE (increase_received_scorumpower F k sp db) (\<lambda>db.
     reg_pool_update (\<lambda>p.
       bindE (asset_sub_amount F (rp_balance p) (amount sp)) (\<lambda>b.
       bindE (asset_add_amount F (rp_delegated p) (amount sp)) (\<lambda>d.
       Inr (p\<lparr>rp_balance := b, rp_delegated := d\<rparr>)))) db))"

definition delegate_sp_from_reg_pool_apply :: "ext_lib \<Rightarrow> account_name \<Rightarrow> account_name \<Rightarrow> asset \<Rightarrow> database \<Rightarrow> database res" where
  "delegate_sp_from_reg_pool_apply F reg_committee_member delegatee scorumpower db =
     bindE (check_account_existence reg_committee_member db) (\<lambda>_.
     bindE (check_account_existence delegatee db) (\<lambda>_.
     bindE (fc_assert (reg_is_exists reg_committee_member db) ''Account is not committee member.'') (\<lambda>_.
     case ix_find_by (\<lambda>d. rpd_delegatee d = delegatee) (reg_pool_delegations db) of
       None \<Rightarrow>
         bindE (fc_assert (amount scorumpower > 0) ''Account has no delegated SP from registration pool'') (\<lambda>_.
         bindE (reg_pool_get db) (\<lambda>pool.
         bindE (fc_assert (amount (rp_balance pool) \<ge> amount scorumpower) ''Registration pool is exhausted.'') (\<lambda>_.
         bindE (lend_from_pool F delegatee scorumpower db) (\<lambda>db.
         bindE (ix_emplace reg_pool_delegation_clash (\<lambda>_. Inr \<lparr>rpd_delegatee = delegatee, rpd_sp = scorumpower\<rparr>) (reg_pool_delegations db)) (\<lambda>(k, ix).
         Inr (db\<lparr>reg_pool_delegations := ix\<rparr>))))))
     | Some i \<Rightarrow>
         bindE (ix_get (reg_pool_delegations db) i) (\<lambda>delegation.
         bindE (asset_sub F scorumpower (rpd_sp delegation)) (\<lambda>extra_sp.
         bindE (reg_pool_get db) (\<lambda>pool.
         bindE (fc_assert (amount (rp_balance pool) \<ge> amount extra_sp) ''Registration pool is exhausted.'') (\<lambda>_.
         bindE (lend_from_pool F delegatee extra_sp db) (\<lambda>db.
         if amount scorumpower > 0 then
           bindE (ix_modify reg_pool_delegation_clash i (\<lambda>d. bindE (asset_add F (rpd_sp d) extra_sp) (\<lambda>x. Inr (d\<lparr>rpd_sp := x\<rparr>)))
                    (reg_pool_delegations db)) (\<lambda>ix. Inr (db\<lparr>reg_pool_delegations := ix\<rparr>))
         else bindE (ix_remove i (reg_pool_delegations db)) (\<lambda>ix. Inr (db\<lparr>reg_pool_delegations := ix\<rparr>))))))))))"

section \<open>Expiry of the bonuses\<close>

definition remove_bonus_if_exist :: "account_name \<Rightarrow> database \<Rightarrow> database res" where
  "remove_bonus_if_exist name db =
     (case ix_find_by (\<lambda>b. arb_account b = name) (registration_bonuses db) of
        None \<Rightarrow> Inr db
      | Some k \<Rightarrow> bindE (ix_remove k (registration_bonuses db)) (\<lambda>ix. Inr (db\<lparr>registration_bonuses := ix\<rparr>)))"

definition get_by_expiration_time :: "nat \<Rightarrow> database \<Rightarrow> nat list" where
  "get_by_expiration_time until db =
     map fst (sort_key (\<lambda>r. arb_expires (snd r)) (filter (\<lambda>r. arb_expires (snd r) \<le> until) (indices (registration_bonuses db))))"

definition return_funds :: "ext_lib \<Rightarrow> account_registration_bonus_object \<Rightarrow> database \<Rightarrow> database res" where
  "return_funds F account db =
     bindE (get_account (arb_account account) db) (\<lambda>k.
     bindE (account_at k db) (\<lambda>acc.
     bindE (asset_sub F (a_scorumpower acc) (a_delegated_scorumpower acc)) (\<lambda>available.
     bindE (asset_min (arb_bonus account) available) (\<lambda>m.
     bindE (asset_max (SP 0) m) (\<lambda>actual_returned_bonus.
     bindE (asset_lt actual_returned_bonus (arb_bonus account)) (\<lambda>_.
     bindE (decrease_scorumpower F k actual_returned_bonus db) (\<lambda>db.
     reg_pool_update (\<lambda>p. bindE (asset_add F (rp_balance p) (SCR (amount actual_returned_bonus))) (\<lambda>b. Inr (p\<lparr>rp_balance := b\<rparr>))) db)))))))"

definition process_account_registration_bonus_expiration :: "ext_lib \<Rightarrow> database \<Rightarrow> database res" where
  "process_account_registration_bonus_expiration F db =
     foldE (\<lambda>k db.
       bindE (ix_get (registration_bonuses db) k) (\<lambda>account.
       bindE (return_funds F account db) (\<lambda>db.
       bindE (ix_remove k (registration_bonuses db)) (\<lambda>ix. Inr (db\<lparr>registration_bonuses := ix\<rparr>)))))
     (get_by_expiration_time (head_block_time db) db) db"

end
