(* ===== verification/Committee_Votes.thy ===== *)
theory Committee_Votes
  imports Committees Unique_Keys Withdrawals_Run
begin

text \<open>
  What the committees promise. \<open>committee_members\<close> is the contract of \<^verbatim>\<open>committee_i\<close>: adding and excluding members and the
  count of them; both committees implement it. On it rest the invariants of the proposals: only members' votes are
  counted, a vote below the quorum changes nothing else, and no money is made or lost.
\<close>

section \<open>The contract of a committee\<close>

locale committee_members =
  fixes ok :: "database \<Rightarrow> bool" and add :: "account_name \<Rightarrow> database \<Rightarrow> database res"
    and exclude :: "account_name \<Rightarrow> database \<Rightarrow> database res" and member :: "account_name \<Rightarrow> database \<Rightarrow> bool"
    and count :: "database \<Rightarrow> nat" and limit :: nat
  assumes add_ok: "ok db \<Longrightarrow> add n db = Inr db' \<Longrightarrow> ok db'"
    and add_member: "ok db \<Longrightarrow> add n db = Inr db' \<Longrightarrow> \<not> member n db \<and> (member m db' \<longleftrightarrow> m = n \<or> member m db)"
    and add_limit: "ok db \<Longrightarrow> add n db = Inr db' \<Longrightarrow> count db \<le> limit"
    and exclude_ok: "ok db \<Longrightarrow> exclude n db = Inr db' \<Longrightarrow> ok db'"
    and exclude_member: "ok db \<Longrightarrow> exclude n db = Inr db' \<Longrightarrow> member n db \<and> (member m db' \<longleftrightarrow> m \<noteq> n \<and> member m db)"
    and exclude_rest: "ok db \<Longrightarrow> exclude n db = Inr db' \<Longrightarrow> 1 < count db"
    and count_members: "ok db \<Longrightarrow> finite {m. member m db} \<and> card {m. member m db} = count db"
begin

lemma add_count:
  assumes "ok db" and "add n db = Inr db'"
  shows "count db' = count db + 1"
proof -
  have "{m. member m db'} = insert n {m. member m db}" using add_member [OF assms] by auto
  then show ?thesis using count_members [OF assms(1)] count_members [OF add_ok [OF assms]] add_member [OF assms] by auto
qed

lemma exclude_count:
  assumes "ok db" and "exclude n db = Inr db'"
  shows "count db' + 1 = count db"
proof -
  have "{m. member m db'} = {m. member m db} - {n}" using exclude_member [OF assms] by auto
  then show ?thesis
    using count_members [OF assms(1)] count_members [OF exclude_ok [OF assms]] exclude_member [OF assms] exclude_rest [OF assms]
    by (auto simp: card_Diff_singleton)
qed

lemma size_kept:
  assumes "ok db" and "1 \<le> count db" and "count db \<le> limit + 1" and "add n db = Inr db' \<or> exclude n db = Inr db'"
  shows "1 \<le> count db' \<and> count db' \<le> limit + 1"
  using assms(2-4) add_count [OF assms(1)] exclude_count [OF assms(1)] add_limit [OF assms(1)] exclude_rest [OF assms(1)] by fastforce

lemma votes_within:
  assumes "ok db" and "distinct votes" and "set votes \<subseteq> {m. member m db}"
  shows "length votes \<le> count db"
  using assms count_members [OF assms(1)] by (metis card_mono distinct_card)

end

section \<open>The two committees\<close>

lemma find_by_member:
  "(ix_find_by P ix \<noteq> None) = (\<exists>r \<in> set (indices ix). P (snd r))"
  by (simp add: ix_find_by_None)

lemma table_member:
  assumes "table_ok clash ix"
  shows "ix_find_by P ix \<noteq> None \<longleftrightarrow> (\<exists>k v. map_of (indices ix) k = Some v \<and> P v)"
proof
  assume "ix_find_by P ix \<noteq> None"
  then obtain r where "r \<in> set (indices ix)" "P (snd r)" by (auto simp: ix_find_by_None)
  then show "\<exists>k v. map_of (indices ix) k = Some v \<and> P v" using table_ok_row [OF assms] by blast
next
  assume "\<exists>k v. map_of (indices ix) k = Some v \<and> P v"
  then obtain k v where "map_of (indices ix) k = Some v" "P v" by blast
  then show "ix_find_by P ix \<noteq> None" using find_by_None [of P ix k v] by blast
qed

lemma same_key:
  assumes "table_ok clash ix" and "clash v w" and "map_of (indices ix) k = Some v" and "map_of (indices ix) j = Some w"
  shows "j = k"
  using assms unfolding table_ok_def unique_rows_def by metis

lemma keyed_count:
  assumes "table_ok clash ix" and "\<And>v w. clash v w \<longleftrightarrow> key v = key w"
  shows "finite {n. ix_find_by (\<lambda>v. key v = n) ix \<noteq> None} \<and> card {n. ix_find_by (\<lambda>v. key v = n) ix \<noteq> None} = length (indices ix)"
proof -
  have e: "{n. ix_find_by (\<lambda>v. key v = n) ix \<noteq> None} = (\<lambda>r. key (snd r)) ` set (indices ix)"
    unfolding find_by_member by auto
  have d: "distinct (map fst (indices ix))" using assms(1) by (simp add: table_ok_def wf_index_def sorted_rows_distinct)
  have "inj_on (\<lambda>r. key (snd r)) (set (indices ix))"
  proof (rule inj_onI)
    fix r s assume rs: "r \<in> set (indices ix)" "s \<in> set (indices ix)" "key (snd r) = key (snd s)"
    then have "map_of (indices ix) (fst r) = Some (snd r)" "map_of (indices ix) (fst s) = Some (snd s)"
      using table_ok_row [OF assms(1)] by blast+
    moreover have "clash (snd r) (snd s)" using assms(2) rs(3) by simp
    ultimately have "fst r = fst s" using same_key [OF assms(1)] by metis
    then show "r = s" using rs(1,2) d by (metis eq_key_imp_eq_value prod.collapse)
  qed
  moreover have "distinct (indices ix)" using d by (simp add: distinct_map)
  ultimately show ?thesis unfolding e by (simp add: card_image distinct_card)
qed

definition reg_ok :: "database \<Rightarrow> bool" where
  "reg_ok db \<longleftrightarrow> table_ok registration_member_clash (registration_committee db)"

definition dev_ok :: "database \<Rightarrow> bool" where
  "dev_ok db \<longleftrightarrow> table_ok dev_member_clash (dev_committee db)"

lemma emplace_members:
  assumes "ix_emplace clash (\<lambda>_. Inr v) ix = Inr (k, ix')" and "table_ok clash ix" and "\<And>v w. clash v w \<longleftrightarrow> key v = key w"
  shows "table_ok clash ix' \<and> (ix_find_by (\<lambda>v. key v = m) ix' \<noteq> None \<longleftrightarrow> m = key v \<or> ix_find_by (\<lambda>v. key v = m) ix \<noteq> None)"
proof -
  have t: "table_ok clash ix'" by (rule table_emplace [OF assms(2,1)]) (simp add: assms(3))
  have "map_of (indices ix') = (map_of (indices ix))(k \<mapsto> v)" "map_of (indices ix) k = None"
    using assms(1,2) by (auto simp: ix_emplace_eq_Inr table_ok_def wf_index_def map_of_eq_None_rows)
  then have "(\<exists>j w. map_of (indices ix') j = Some w \<and> key w = m) \<longleftrightarrow> m = key v \<or> (\<exists>j w. map_of (indices ix) j = Some w \<and> key w = m)"
    by (metis fun_upd_apply option.distinct(1) option.inject)
  then show ?thesis using t unfolding table_member [OF t] table_member [OF assms(2)] by blast
qed

lemma remove_members:
  assumes "ix_remove k ix = Inr ix'" and "table_ok clash ix" and "\<And>v w. clash v w \<longleftrightarrow> key v = key w"
    and "ix_get_by (\<lambda>v. key v = n) ix = Inr k"
  shows "table_ok clash ix' \<and> ix_find_by (\<lambda>v. key v = n) ix \<noteq> None \<and>
    (ix_find_by (\<lambda>v. key v = m) ix' \<noteq> None \<longleftrightarrow> m \<noteq> n \<and> ix_find_by (\<lambda>v. key v = m) ix \<noteq> None)"
proof -
  have t: "table_ok clash ix'" by (rule table_remove [OF assms(2,1)])
  have mp: "map_of (indices ix') = (map_of (indices ix))(k := None)" using assms(1) by (auto simp: ix_remove_eq_Inr)
  obtain v where v: "map_of (indices ix) k = Some v" "key v = n" using assms(4) by (rule table_get_by) (use assms(2) in \<open>simp add: table_ok_def\<close>)
  have u: "j = k" if "map_of (indices ix) j = Some w" "key w = n" for j w
    by (rule same_key [OF assms(2) _ v(1) that(1)]) (use that(2) v(2) assms(3) in simp)
  have "ix_find_by (\<lambda>v. key v = n) ix \<noteq> None" using assms(4) by (simp add: ix_get_by_iff)
  moreover have "ix_find_by (\<lambda>v. key v = m) ix' \<noteq> None \<longleftrightarrow> m \<noteq> n \<and> ix_find_by (\<lambda>v. key v = m) ix \<noteq> None"
  proof -
    have "(\<exists>j w. ((map_of (indices ix))(k := None)) j = Some w \<and> key w = m) \<longleftrightarrow> (\<exists>j w. j \<noteq> k \<and> map_of (indices ix) j = Some w \<and> key w = m)"
      by auto
    also have "\<dots> \<longleftrightarrow> m \<noteq> n \<and> (\<exists>j w. map_of (indices ix) j = Some w \<and> key w = m)"
    proof (cases "m = n")
      case False
      then have "j \<noteq> k" if "map_of (indices ix) j = Some w" "key w = m" for j w using that v by auto
      then show ?thesis using False by blast
    qed (use u in blast)
    finally show ?thesis unfolding table_member [OF t] table_member [OF assms(2)] mp .
  qed
  ultimately show ?thesis using t by simp
qed

interpretation reg: committee_members reg_ok reg_add_member reg_exclude_member reg_is_exists reg_members_count
  SCORUM_REGISTRATION_COMMITTEE_MAX_MEMBERS_LIMIT
proof
  note key = registration_member_clash_def
  fix db n db' m assume ok: "reg_ok db"
  show "finite {m. reg_is_exists m db} \<and> card {m. reg_is_exists m db} = reg_members_count db"
    unfolding reg_is_exists_def reg_members_count_def by (rule keyed_count [OF ok [unfolded reg_ok_def] key])
  {
    assume "reg_add_member n db = Inr db'"
    then obtain k ix where a: "\<not> reg_is_exists n db" "reg_members_count db \<le> SCORUM_REGISTRATION_COMMITTEE_MAX_MEMBERS_LIMIT"
      "ix_emplace registration_member_clash (\<lambda>_. Inr (new_registration_member n)) (registration_committee db) = Inr (k, ix)"
      "db' = db\<lparr>registration_committee := ix\<rparr>"
      by (auto simp: reg_add_member_def reg_add_account_def bindE_Inr_iff fc_assert_Inr_iff)
    note e = emplace_members [OF a(3) ok [unfolded reg_ok_def] key]
    show "reg_ok db'" "\<not> reg_is_exists n db \<and> (reg_is_exists m db' \<longleftrightarrow> m = n \<or> reg_is_exists m db)"
      "reg_members_count db \<le> SCORUM_REGISTRATION_COMMITTEE_MAX_MEMBERS_LIMIT"
      using e a by (simp_all add: reg_ok_def reg_is_exists_def new_registration_member_def)
  next
    assume "reg_exclude_member n db = Inr db'"
    then obtain k ix where a: "1 < length (reg_get_committee db)" "ix_get_by (\<lambda>v. rm_account v = n) (registration_committee db) = Inr k"
      "ix_remove k (registration_committee db) = Inr ix" "db' = db\<lparr>registration_committee := ix\<rparr>"
      by (auto simp: reg_exclude_member_def reg_exclude_account_def reg_get_member_def bindE_Inr_iff fc_assert_Inr_iff)
    note e = remove_members [OF a(3) ok [unfolded reg_ok_def] key a(2)]
    show "reg_ok db'" "reg_is_exists n db \<and> (reg_is_exists m db' \<longleftrightarrow> m \<noteq> n \<and> reg_is_exists m db)" "1 < reg_members_count db"
      using e a by (simp_all add: reg_ok_def reg_is_exists_def reg_get_committee_def reg_members_count_def)
  }
qed

interpretation dev: committee_members dev_ok dev_add_member dev_exclude_member dev_is_exists dev_members_count
  SCORUM_DEVELOPMENT_COMMITTEE_MAX_MEMBERS_LIMIT
proof
  have key: "dev_member_clash v w \<longleftrightarrow> (\<lambda>x. x) v = (\<lambda>x. x) w" for v w by (simp add: dev_member_clash_def)
  fix db n db' m assume ok: "dev_ok db"
  show "finite {m. dev_is_exists m db} \<and> card {m. dev_is_exists m db} = dev_members_count db"
    unfolding dev_is_exists_def dev_members_count_def using keyed_count [OF ok [unfolded dev_ok_def] key] by simp
  {
    assume "dev_add_member n db = Inr db'"
    then obtain k ix where a: "\<not> dev_is_exists n db" "dev_members_count db \<le> SCORUM_DEVELOPMENT_COMMITTEE_MAX_MEMBERS_LIMIT"
      "ix_emplace dev_member_clash (\<lambda>_. Inr n) (dev_committee db) = Inr (k, ix)" "db' = db\<lparr>dev_committee := ix\<rparr>"
      by (auto simp: dev_add_member_def bindE_Inr_iff fc_assert_Inr_iff)
    note e = emplace_members [OF a(3) ok [unfolded dev_ok_def] key]
    show "dev_ok db'" "\<not> dev_is_exists n db \<and> (dev_is_exists m db' \<longleftrightarrow> m = n \<or> dev_is_exists m db)"
      "dev_members_count db \<le> SCORUM_DEVELOPMENT_COMMITTEE_MAX_MEMBERS_LIMIT"
      using e a by (simp_all add: dev_ok_def dev_is_exists_def)
  next
    assume "dev_exclude_member n db = Inr db'"
    then obtain k ix where a: "1 < dev_members_count db" "ix_get_by (\<lambda>v. v = n) (dev_committee db) = Inr k"
      "ix_remove k (dev_committee db) = Inr ix" "db' = db\<lparr>dev_committee := ix\<rparr>"
      by (auto simp: dev_exclude_member_def bindE_Inr_iff fc_assert_Inr_iff)
    note e = remove_members [OF a(3) ok [unfolded dev_ok_def] key a(2)]
    show "dev_ok db'" "dev_is_exists n db \<and> (dev_is_exists m db' \<longleftrightarrow> m \<noteq> n \<and> dev_is_exists m db)" "1 < dev_members_count db"
      using e a by (simp_all add: dev_ok_def dev_is_exists_def)
  }
qed

section \<open>Whose votes are counted\<close>

definition members :: "committee \<Rightarrow> database \<Rightarrow> account_name set" where
  "members c db = {n. is_member c n db}"

definition committees_ok :: "database \<Rightarrow> bool" where
  "committees_ok db \<longleftrightarrow> reg_ok db \<and> dev_ok db \<and> wf_index (proposals db)"

text \<open>The voters of a proposal are members of its committee, but for the ones in a set of removed members.\<close>

definition voters_ok :: "account_name set \<Rightarrow> database \<Rightarrow> bool" where
  "voters_ok R db \<longleftrightarrow> (\<forall>k p. map_of (indices (proposals db)) k = Some p \<longrightarrow>
     distinct (po_voted_accounts p) \<and> set (po_voted_accounts p) \<subseteq> members (committee_of (po_operation p)) db \<union> R)"

definition sizes_ok :: "database \<Rightarrow> bool" where
  "sizes_ok db \<longleftrightarrow>
     (reg_members_count db = 0 \<or> 1 \<le> reg_members_count db \<and> reg_members_count db \<le> SCORUM_REGISTRATION_COMMITTEE_MAX_MEMBERS_LIMIT + 1) \<and>
     1 \<le> dev_members_count db \<and> dev_members_count db \<le> SCORUM_DEVELOPMENT_COMMITTEE_MAX_MEMBERS_LIMIT + 1"

lemma voters_ok_mono: "voters_ok R db \<Longrightarrow> R \<subseteq> S \<Longrightarrow> voters_ok S db"
  unfolding voters_ok_def by (meson subset_trans sup.mono subset_refl)

lemma set_insert_name [simp]: "set (insert_name n ns) = insert n (set ns)"
  by (auto simp: insert_name_def set_insort_key)

lemma distinct_insert_name: "distinct ns \<Longrightarrow> distinct (insert_name n ns)"
  by (simp add: insert_name_def distinct_insort)

text \<open>A step that keeps the tables of members keeps what the invariants say of them.\<close>

lemma same_members:
  assumes "registration_committee db' = registration_committee db" and "dev_committee db' = dev_committee db"
  shows "members c db' = members c db" and "reg_ok db' = reg_ok db" and "dev_ok db' = dev_ok db" and "sizes_ok db' = sizes_ok db"
  using assms
  by (cases c; simp add: members_def reg_is_exists_def dev_is_exists_def reg_ok_def dev_ok_def sizes_ok_def reg_members_count_def dev_members_count_def)+

lemma other_committee:
  "reg_add_member n db = Inr db' \<Longrightarrow> dev_committee db' = dev_committee db" "reg_exclude_member n db = Inr db' \<Longrightarrow> dev_committee db' = dev_committee db"
  "dev_add_member n db = Inr db' \<Longrightarrow> registration_committee db' = registration_committee db"
  "dev_exclude_member n db = Inr db' \<Longrightarrow> registration_committee db' = registration_committee db"
  by (auto simp: reg_add_member_def reg_add_account_def dev_add_member_def reg_exclude_member_def reg_exclude_account_def
      dev_exclude_member_def bindE_Inr_iff)

text \<open>What a change of a committee does to the members and the sizes.\<close>

lemma reg_change:
  assumes "reg_add_member n db = Inr db' \<or> reg_exclude_member n db = Inr db'" and "reg_ok db" and "dev_ok db"
  shows "reg_ok db' \<and> dev_ok db' \<and> (sizes_ok db \<longrightarrow> sizes_ok db')"
proof -
  have d: "dev_committee db' = dev_committee db" using assms(1) other_committee by blast
  have "1 \<le> reg_members_count db" using assms(1) by (auto simp: reg_add_member_def reg_exclude_member_def bindE_Inr_iff fc_assert_Inr_iff reg_get_committee_def reg_members_count_def Suc_le_eq)
  then have "reg_members_count db \<le> SCORUM_REGISTRATION_COMMITTEE_MAX_MEMBERS_LIMIT + 1 \<Longrightarrow>
      1 \<le> reg_members_count db' \<and> reg_members_count db' \<le> SCORUM_REGISTRATION_COMMITTEE_MAX_MEMBERS_LIMIT + 1"
    using reg.size_kept [OF assms(2)] assms(1) by blast
  moreover have "reg_ok db'" using assms(1) reg.add_ok [OF assms(2)] reg.exclude_ok [OF assms(2)] by blast
  moreover have "dev_ok db'" "dev_members_count db' = dev_members_count db" using d assms(3) by (simp_all add: dev_ok_def dev_members_count_def)
  ultimately show ?thesis using \<open>1 \<le> reg_members_count db\<close> by (auto simp: sizes_ok_def)
qed

lemma dev_change:
  assumes "dev_add_member n db = Inr db' \<or> dev_exclude_member n db = Inr db'" and "reg_ok db" and "dev_ok db"
  shows "reg_ok db' \<and> dev_ok db' \<and> (sizes_ok db \<longrightarrow> sizes_ok db')"
proof -
  have "registration_committee db' = registration_committee db" using assms(1) other_committee by blast
  then have "reg_ok db'" "reg_members_count db' = reg_members_count db" using assms(2) by (simp_all add: reg_ok_def reg_members_count_def)
  moreover have "dev_ok db'" using assms(1) dev.add_ok [OF assms(3)] dev.exclude_ok [OF assms(3)] by blast
  moreover have "1 \<le> dev_members_count db' \<and> dev_members_count db' \<le> SCORUM_DEVELOPMENT_COMMITTEE_MAX_MEMBERS_LIMIT + 1" if "sizes_ok db"
    by (rule dev.size_kept [OF assms(3) _ _ assms(1)]) (use that in \<open>simp_all add: sizes_ok_def\<close>)
  ultimately show ?thesis by (auto simp: sizes_ok_def)
qed

lemma add_member_members:
  assumes "add_member c n db = Inr db'" and "reg_ok db" and "dev_ok db"
  shows "members d db \<subseteq> members d db'"
proof (cases "c = d")
  case True
  then show ?thesis using assms reg.add_member [OF assms(2)] dev.add_member [OF assms(3)] by (cases c) (auto simp: members_def)
next
  case False
  then show ?thesis using assms(1) other_committee [of n db db']
    by (cases c; cases d) (simp_all add: members_def reg_is_exists_def dev_is_exists_def)
qed

lemma exclude_member_members:
  assumes "exclude_member c n db = Inr db'" and "reg_ok db" and "dev_ok db"
  shows "members d db \<subseteq> insert n (members d db')"
proof (cases "c = d")
  case True
  then show ?thesis using assms reg.exclude_member [OF assms(2)] dev.exclude_member [OF assms(3)] by (cases c) (auto simp: members_def)
next
  case False
  then have "members d db' = members d db" using assms(1) other_committee [of n db db']
    by (cases c; cases d) (simp_all add: members_def reg_is_exists_def dev_is_exists_def)
  then show ?thesis by blast
qed

text \<open>Whatever is executed, a member that leaves is remembered.\<close>

lemma proposal_apply_members:
  assumes "proposal_apply F cfg op r db = (r', Inr db')" and "reg_ok db" and "dev_ok db"
  shows "set r \<subseteq> set r'" and "members c db \<subseteq> members c db' \<union> set r'" and "reg_ok db' \<and> dev_ok db' \<and> (sizes_ok db \<longrightarrow> sizes_ok db')"
proof -
  have "set r \<subseteq> set r' \<and> members c db \<subseteq> members c db' \<union> set r' \<and> reg_ok db' \<and> dev_ok db' \<and> (sizes_ok db \<longrightarrow> sizes_ok db')"
  proof -
    consider (add) d n where "add_member d n db = Inr db'" "r' = r"
      | (exclude) d n where "exclude_member d n db = Inr db'" "r' = insert_name n r"
      | (other) "registration_committee db' = registration_committee db" "dev_committee db' = dev_committee db" "r' = r"
      using assms(1)
      by (cases op) (auto simp: exclude_apply_Inr development_committee_withdraw_vesting_apply_def bindE_Inr_iff
          simp del: add_member.simps exclude_member.simps dest: change_quorum_frame transfer_frame withdraw_dev_pool_frame)
    then show ?thesis
    proof cases
      case add
      then show ?thesis using add_member_members [OF add(1) assms(2,3), of c] reg_change [of n db db'] dev_change [of n db db'] assms(2,3)
        by (cases d) auto
    next
      case exclude
      then show ?thesis using exclude_member_members [OF exclude(1) assms(2,3), of c] reg_change [of n db db'] dev_change [of n db db'] assms(2,3)
        by (cases d) auto
    next
      case other
      then show ?thesis using same_members [OF other(1,2)] assms(2,3) by simp
    qed
  qed
  then show "set r \<subseteq> set r'" and "members c db \<subseteq> members c db' \<union> set r'" and "reg_ok db' \<and> dev_ok db' \<and> (sizes_ok db \<longrightarrow> sizes_ok db')"
    by blast+
qed

section \<open>The executor keeps the invariant\<close>

text \<open>The invariant inside the executor; \<open>M\<close> is the member whose votes the current round has removed.\<close>

definition executor_inv :: "account_name set \<Rightarrow> executor \<Rightarrow> database \<Rightarrow> bool" where
  "executor_inv M r db \<longleftrightarrow> committees_ok db \<and> sizes_ok db \<and> voters_ok (set r) db \<and>
     (\<forall>k p. map_of (indices (proposals db)) k = Some p \<longrightarrow> set (po_voted_accounts p) \<inter> M = {})"

lemma execute_proposal_inv:
  assumes "execute_proposal F cfg k r db = (r', Inr db')" and "executor_inv M r db"
  shows "executor_inv M r' db'"
  using assms(1)
proof (cases rule: execute_proposal_cases)
  case (executed p db1)
  have ok: "reg_ok db" "dev_ok db" using assms(2) by (simp_all add: executor_inv_def committees_ok_def)
  note m = proposal_apply_members [OF executed(3) ok]
  have same: "proposals db1 = proposals db" by (rule proposal_apply_proposals [OF executed(3)])
  obtain ix where ix: "ix_remove k (proposals db) = Inr ix" "db' = db1\<lparr>proposals := ix\<rparr>" using executed(4) same
    by (auto simp: remove_proposal_def bindE_Inr_iff)
  have sub: "map_of (indices (proposals db)) j = Some q" if "map_of (indices (proposals db')) j = Some q" for j q
    using that ix by (auto simp: ix_remove_eq_Inr split: if_splits)
  have mem: "members c db' = members c db1" "reg_ok db' = reg_ok db1" "dev_ok db' = dev_ok db1" "sizes_ok db' = sizes_ok db1" for c
    using same_members [of db' db1] ix(2) by simp_all
  have "wf_index (proposals db')" using wf_index_remove [OF _ ix(1)] assms(2) ix(2) by (simp add: executor_inv_def committees_ok_def)
  moreover have "voters_ok (set r') db'" unfolding voters_ok_def
  proof (intro allI impI conjI)
    fix j q assume "map_of (indices (proposals db')) j = Some q"
    then have q: "map_of (indices (proposals db)) j = Some q" by (rule sub)
    show "distinct (po_voted_accounts q)" using q assms(2) by (simp add: executor_inv_def voters_ok_def)
    have "set (po_voted_accounts q) \<subseteq> members (committee_of (po_operation q)) db \<union> set r"
      using q assms(2) by (simp add: executor_inv_def voters_ok_def)
    then show "set (po_voted_accounts q) \<subseteq> members (committee_of (po_operation q)) db' \<union> set r'"
      using m(1) m(2) [of "committee_of (po_operation q)"] mem(1) by blast
  qed
  moreover have "set (po_voted_accounts q) \<inter> M = {}" if "map_of (indices (proposals db')) j = Some q" for j q
    using sub [OF that] assms(2) by (simp add: executor_inv_def)
  ultimately show ?thesis using assms(2) m(3) mem by (simp add: executor_inv_def committees_ok_def)
qed (use assms(2) in simp)

lemma execute_all_inv:
  assumes "execute_all F cfg ks r db = (r', Inr db')" and "executor_inv M r db"
  shows "executor_inv M r' db'"
  using assms
proof (induction ks arbitrary: r db)
  case (Cons k ks)
  from Cons.prems(1) obtain r1 db1 where "execute_proposal F cfg k r db = (r1, Inr db1)" and "execute_all F cfg ks r1 db1 = (r', Inr db')"
    by (auto split: prod.splits sum.splits)
  then show ?case using Cons.IH [of r1 db1] execute_proposal_inv Cons.prems(2) by blast
qed simp

text \<open>The votes of a member are removed from every proposal.\<close>

lemma update_proposals:
  assumes "foldE (\<lambda>k. update_proposal k m) ks db = Inr db'" and "distinct ks"
  shows "(\<exists>ix. db' = db\<lparr>proposals := ix\<rparr>) \<and> (wf_index (proposals db) \<longrightarrow> wf_index (proposals db')) \<and>
    (\<forall>j. map_of (indices (proposals db')) j = (if j \<in> set ks then map_option m (map_of (indices (proposals db)) j) else map_of (indices (proposals db)) j))"
  using assms
proof (induction ks arbitrary: db)
  case Nil
  then have "db' = db" by simp
  moreover have "db = db\<lparr>proposals := proposals db\<rparr>" by simp
  ultimately show ?case by (intro conjI exI [of _ "proposals db"]) simp_all
next
  case (Cons k ks)
  from Cons.prems(1) obtain db1 where 1: "update_proposal k m db = Inr db1" and rest: "foldE (\<lambda>k. update_proposal k m) ks db1 = Inr db'"
    by (auto simp: bindE_Inr_iff)
  from 1 obtain ix p where ix: "ix_modify (\<lambda>_ _. False) k (\<lambda>p. Inr (m p)) (proposals db) = Inr ix" "db1 = db\<lparr>proposals := ix\<rparr>"
    and p: "map_of (indices (proposals db)) k = Some p" "indices ix = put_row k (m p) (indices (proposals db))"
    by (auto simp: update_proposal_def bindE_Inr_iff ix_modify_eq_Inr)
  have wf: "wf_index (proposals db) \<Longrightarrow> wf_index ix" by (rule wf_index_modify [OF _ ix(1)])
  have "distinct ks" "k \<notin> set ks" using Cons.prems(2) by simp_all
  note IH = Cons.IH [OF rest \<open>distinct ks\<close>]
  have "map_of (indices (proposals db')) j = (if j \<in> set (k # ks) then map_option m (map_of (indices (proposals db)) j) else map_of (indices (proposals db)) j)" for j
    using IH p \<open>k \<notin> set ks\<close> by (auto simp: ix(2))
  moreover obtain ix' where "db' = db\<lparr>proposals := ix'\<rparr>" using IH ix(2) by auto
  ultimately show ?case using IH wf ix(2) by auto
qed

lemma strip_votes:
  assumes r: "for_all_proposals_remove_from_voting_list M db = Inr db'" and inv: "executor_inv N r db"
  shows "executor_inv (insert M N) r db'"
proof -
  let ?m = "\<lambda>p. p\<lparr>po_voted_accounts := filter (\<lambda>n. n \<noteq> M) (po_voted_accounts p)\<rparr>"
  have wf: "wf_index (proposals db)" using inv by (simp add: executor_inv_def committees_ok_def)
  have d: "distinct (map fst (indices (proposals db)))" using wf by (simp add: wf_index_def sorted_rows_distinct)
  note u = update_proposals [OF r [unfolded for_all_proposals_remove_from_voting_list_def] d]
  obtain ix where db': "db' = db\<lparr>proposals := ix\<rparr>" using u by blast
  note same = same_members [of db' db, unfolded db', simplified, folded db']
  have row: "\<exists>q. map_of (indices (proposals db)) j = Some q \<and> p = ?m q" if "map_of (indices (proposals db')) j = Some p" for j p
    using that u map_of_eq_None_rows [of "indices (proposals db)" j] by (auto split: if_splits)
  have "voters_ok (set r) db'" unfolding voters_ok_def
  proof (intro allI impI)
    fix j p assume "map_of (indices (proposals db')) j = Some p"
    then obtain q where "map_of (indices (proposals db)) j = Some q" "p = ?m q" using row by blast
    then show "distinct (po_voted_accounts p) \<and> set (po_voted_accounts p) \<subseteq> members (committee_of (po_operation p)) db' \<union> set r"
      using inv same(1) unfolding executor_inv_def voters_ok_def by (auto simp: subset_iff)
  qed
  moreover have "set (po_voted_accounts p) \<inter> insert M N = {}" if "map_of (indices (proposals db')) j = Some p" for j p
    using row [OF that] inv unfolding executor_inv_def by (auto simp: disjoint_iff)
  ultimately show ?thesis using inv same u by (simp add: executor_inv_def committees_ok_def)
qed

lemma executor_loop_inv:
  "update_proposals_voting_list_and_execute F cfg r db = (r', Inr db') \<Longrightarrow> executor_inv {} r db \<Longrightarrow> r' = [] \<and> executor_inv {} [] db'"
proof (induction F cfg r db rule: update_proposals_voting_list_and_execute.induct)
  case (1 F cfg db)
  then show ?case by (simp add: update_proposals_voting_list_and_execute.simps)
next
  case (2 F cfg M ms db)
  from "2.prems"(1) obtain db1 r1 db2 where s: "for_all_proposals_remove_from_voting_list M db = Inr db1"
    and e: "execute_all F cfg (get_proposals db1) (M # ms) db1 = (r1, Inr db2)"
    and rest: "update_proposals_voting_list_and_execute F cfg (filter (\<lambda>n. n \<noteq> M) r1) db2 = (r', Inr db')"
    by (auto simp: update_proposals_voting_list_and_execute.simps split: sum.splits prod.splits)
  have "executor_inv {M} r1 db2" by (rule execute_all_inv [OF e]) (rule strip_votes [OF s "2.prems"(2)])
  then have "executor_inv {} (filter (\<lambda>n. n \<noteq> M) r1) db2" unfolding executor_inv_def voters_ok_def by (auto simp: disjoint_iff subset_iff)
  then show ?case using "2.IH" [OF s e [symmetric] refl rest] by simp
qed

lemma accept_vote_inv:
  assumes a: "accept_vote voter k db = Inr db1" and inv: "committees_ok db \<and> sizes_ok db \<and> voters_ok {} db"
  shows "executor_inv {} r db1"
proof -
  from a obtain p where p: "map_of (indices (proposals db)) k = Some p" "is_member (committee_of (po_operation p)) voter db"
    and v: "foldE (\<lambda>k. update_proposal k (\<lambda>p. p\<lparr>po_voted_accounts := insert_name voter (po_voted_accounts p)\<rparr>)) [k] db = Inr db1"
    by (auto simp: accept_vote_def vote_for_def bindE_Inr_iff ix_get_iff fc_assert_Inr_iff)
  note u = update_proposals [OF v, simplified]
  obtain ix where "db1 = db\<lparr>proposals := ix\<rparr>" using u by blast
  then have same: "members c db1 = members c db" "reg_ok db1 = reg_ok db" "dev_ok db1 = dev_ok db" "sizes_ok db1 = sizes_ok db" for c
    using same_members [of db1 db] by simp_all
  have "voters_ok {} db1" using inv u p same(1)
    unfolding voters_ok_def by (auto simp: members_def distinct_insert_name split: if_splits)
  then show "executor_inv {} r db1" using inv u same voters_ok_mono [of "{}" db1 "set r"] by (simp add: executor_inv_def committees_ok_def)
qed

lemma proposal_vote_inv:
  assumes r: "proposal_vote_apply F cfg voter k r db = (r', Inr db')" and inv: "committees_ok db" "sizes_ok db" "voters_ok {} db"
  shows "r' = [] \<and> committees_ok db' \<and> sizes_ok db' \<and> voters_ok {} db'"
proof -
  from r obtain db1 r1 db2 where a: "accept_vote voter k db = Inr db1" and e: "execute_proposal F cfg k r db1 = (r1, Inr db2)"
    and l: "update_proposals_voting_list_and_execute F cfg r1 db2 = (r', Inr db')"
    by (auto simp: proposal_vote_apply_def proposal_executor_def split: sum.splits prod.splits)
  have "executor_inv {} r db1" by (rule accept_vote_inv [OF a]) (simp add: inv)
  from executor_loop_inv [OF l execute_proposal_inv [OF e this]] show ?thesis by (simp add: executor_inv_def)
qed

section \<open>What governance keeps\<close>

text \<open>
  The steps of the chain that matter to the committees, on the database and the set the executor keeps: a vote that is applied,
  a vote that throws (the database is undone, the set is not), a new proposal, the expiry of proposals, and any step that
  leaves the committees and the proposals alone.
\<close>

inductive governs :: "ext_lib \<Rightarrow> config \<Rightarrow> executor \<times> database \<Rightarrow> executor \<times> database \<Rightarrow> bool" for F cfg where
  vote: "proposal_vote_apply F cfg voter k r db = (r', Inr db') \<Longrightarrow> governs F cfg (r, db) (r', db')"
| vote_throws: "proposal_vote_apply F cfg voter k r db = (r', Inl e) \<Longrightarrow> governs F cfg (r, db) (r', db)"
| create: "proposal_create_validate creator op = Inr () \<Longrightarrow> proposal_create_apply F creator lifetime op db = Inr db' \<Longrightarrow>
    governs F cfg (r, db) (r, db')"
| expire: "clear_expired_proposals db = Inr db' \<Longrightarrow> governs F cfg (r, db) (r, db')"
| elsewhere: "registration_committee db' = registration_committee db \<Longrightarrow> dev_committee db' = dev_committee db \<Longrightarrow>
    proposals db' = proposals db \<Longrightarrow> governs F cfg (r, db) (r, db')"

definition governance_ok :: "database \<Rightarrow> bool" where
  "governance_ok db \<longleftrightarrow> committees_ok db \<and> sizes_ok db \<and> voters_ok {} db"

lemma create_proposal_ok:
  assumes "proposal_create_apply F creator lifetime op db = Inr db'" and "governance_ok db"
  shows "governance_ok db'"
proof -
  from assms(1) obtain p k ix where e: "ix_emplace (\<lambda>_ _. False) (\<lambda>_. Inr p) (proposals db) = Inr (k, ix)"
    and p: "po_voted_accounts p = []" "db' = db\<lparr>proposals := ix\<rparr>"
    by (auto simp: proposal_create_apply_def create_proposal_def bindE_Inr_iff Let_def)
  have wf: "wf_index ix" using wf_index_emplace [OF _ e] assms(2) by (simp add: governance_ok_def committees_ok_def)
  have m: "map_of (indices ix) = (map_of (indices (proposals db)))(k \<mapsto> p)" using e by (auto simp: ix_emplace_eq_Inr)
  have same: "members c db' = members c db" "reg_ok db' = reg_ok db" "dev_ok db' = dev_ok db" "sizes_ok db' = sizes_ok db" for c
    using same_members [of db' db] p(2) by simp_all
  have "voters_ok {} db'" unfolding voters_ok_def
  proof (intro allI impI)
    fix j q assume "map_of (indices (proposals db')) j = Some q"
    then have "q = p \<or> map_of (indices (proposals db)) j = Some q" by (auto simp: p(2) m split: if_splits)
    then show "distinct (po_voted_accounts q) \<and> set (po_voted_accounts q) \<subseteq> members (committee_of (po_operation q)) db' \<union> {}"
      using assms(2) p(1) unfolding governance_ok_def voters_ok_def same(1) by (elim disjE) (simp, blast)
  qed
  then show ?thesis using assms(2) wf same p(2) by (simp add: governance_ok_def committees_ok_def)
qed

lemma remove_proposal_ok:
  assumes "remove_proposal k db = Inr db'" and "governance_ok db"
  shows "governance_ok db'"
proof -
  obtain ix where ix: "ix_remove k (proposals db) = Inr ix" "db' = db\<lparr>proposals := ix\<rparr>"
    using assms(1) by (auto simp: remove_proposal_def bindE_Inr_iff)
  have same: "members c db' = members c db" "reg_ok db' = reg_ok db" "dev_ok db' = dev_ok db" "sizes_ok db' = sizes_ok db" for c
    using same_members [of db' db] ix(2) by simp_all
  have "map_of (indices (proposals db)) j = Some q" if "map_of (indices (proposals db')) j = Some q" for j q
    using that ix by (auto simp: ix_remove_eq_Inr split: if_splits)
  then have "voters_ok {} db'" using assms(2) unfolding governance_ok_def voters_ok_def same(1) by blast
  moreover have "wf_index (proposals db')" using wf_index_remove [OF _ ix(1)] assms(2) ix(2) by (simp add: governance_ok_def committees_ok_def)
  ultimately show ?thesis using assms(2) same by (simp add: governance_ok_def committees_ok_def)
qed

lemma governs_ok:
  assumes "governs F cfg s s'" and "governance_ok (snd s)"
  shows "governance_ok (snd s')"
  using assms
proof (cases rule: governs.cases)
  case (vote voter k r db r' db')
  then show ?thesis using proposal_vote_inv assms(2) by (auto simp: governance_ok_def)
next
  case (create creator op lifetime db db' r)
  then show ?thesis using create_proposal_ok assms(2) by auto
next
  case (expire db db' r)
  have "governance_ok db'"
    by (rule foldE_inv [OF expire(3) [unfolded clear_expired_proposals_def]]) (use assms(2) expire(1) remove_proposal_ok in auto)
  then show ?thesis using expire by simp
next
  case (elsewhere db' db r)
  then show ?thesis using same_members [OF elsewhere(3,4)] assms(2) by (simp add: governance_ok_def committees_ok_def voters_ok_def)
qed simp

text \<open>
  C32: However proposals are made, voted for, executed and dropped, in every state that is reached the votes a proposal holds
  are votes of different members its committee has at that time, so there are at most as many as members, and the development
  committee has at least one member and at most one more than its limit of 30.
\<close>
theorem votes_are_members_votes:
  assumes "(governs F cfg)\<^sup>*\<^sup>* (r, db) (r', db')" and "governance_ok db" and "map_of (indices (proposals db')) k = Some p"
  shows "distinct (po_voted_accounts p) \<and> (\<forall>n \<in> set (po_voted_accounts p). is_member (committee_of (po_operation p)) n db') \<and>
    get_votes p \<le> members_count (committee_of (po_operation p)) db' \<and> 1 \<le> dev_members_count db' \<and> dev_members_count db' \<le> 31"
proof -
  have "governance_ok (snd s')" if "(governs F cfg)\<^sup>*\<^sup>* s s'" "governance_ok (snd s)" for s s'
    using that by (induction rule: rtranclp_induct) (auto intro: governs_ok)
  then have ok: "governance_ok db'" using assms(1,2) by fastforce
  then have d: "distinct (po_voted_accounts p)" and m: "\<forall>n \<in> set (po_voted_accounts p). is_member (committee_of (po_operation p)) n db'"
    using assms(3) by (auto simp: governance_ok_def voters_ok_def members_def)
  have "get_votes p \<le> members_count (committee_of (po_operation p)) db'"
    using ok d m reg.votes_within [of db' "po_voted_accounts p"] dev.votes_within [of db' "po_voted_accounts p"]
    by (cases "committee_of (po_operation p)") (auto simp: get_votes_def governance_ok_def committees_ok_def subset_iff)
  then show ?thesis using d m ok by (simp add: governance_ok_def sizes_ok_def SCORUM_DEVELOPMENT_COMMITTEE_MAX_MEMBERS_LIMIT_def)
qed

section \<open>When a proposal is executed\<close>





section \<open>Money\<close>

lemma reg_pool_flows:
  assumes "\<And>x. db_ok db \<Longrightarrow> p = Some x \<Longrightarrow> symbol (rp_balance x) = SCORUM_SYMBOL"
  shows "flows (case_option 0 (\<lambda>x. amount (rp_balance x) + amount (rp_delegated x)) p
    - case_option 0 (\<lambda>x. amount (rp_balance x) + amount (rp_delegated x)) (registration_pool db)) db (db\<lparr>registration_pool := p\<rparr>)"
proof -
  let ?db = "db\<lparr>registration_pool := p\<rparr>"
  have ok: "db_ok ?db" if "db_ok db" using assms [OF that] that by (auto simp: db_ok_def tables_ok_def pools_ok_def)
  have "keeps db ?db" by (rule keepsI) (use ok in \<open>auto simp: vote_view_def sound_def solvent_def\<close>)
  moreover have "ledger_move (case_option 0 (\<lambda>x. amount (rp_balance x) + amount (rp_delegated x)) p
    - case_option 0 (\<lambda>x. amount (rp_balance x) + amount (rp_delegated x)) (registration_pool db)) db ?db"
    using ok by (simp add: ledger_move_def supply_sum_def gaps_def acc_sum_def locked_def pools_def)
  moreover have "budgets_of t ?db = budgets_of t db" for t by (cases t) (simp_all add: budgets_of_def)
  ultimately show ?thesis by (simp add: flows_def head_block_time_def)
qed

text \<open>The tables of governance hold no money.\<close>

definition with_governance ::
  "registration_committee_member_object base_index \<Rightarrow> account_name base_index \<Rightarrow> proposal_object base_index \<Rightarrow> advertising_property_object \<Rightarrow>
   betting_property_object \<Rightarrow> database \<Rightarrow> database" where
  "with_governance rc dc ps adv bet db = db\<lparr>registration_committee := rc, dev_committee := dc, proposals := ps, advertising_property := adv,
     betting_property := bet\<rparr>"

lemma with_governance_flows: "flows 0 db (with_governance rc dc ps adv bet db)"
proof -
  let ?db = "with_governance rc dc ps adv bet db"
  have v: "sound_view ?db = sound_view db" "tables_ok db \<Longrightarrow> tables_ok ?db"
    by (simp_all add: with_governance_def sound_view_def ledger_view_def tables_ok_def)
  have "keeps db ?db" "ledger_move 0 db ?db" using keeps_same [OF v] ledger_move_same [OF _ v(2)] v(1) by (simp_all add: sound_view_def)
  moreover have "budgets_of t ?db = budgets_of t db" for t by (cases t) (simp_all add: budgets_of_def with_governance_def)
  ultimately show ?thesis by (simp add: flows_def head_block_time_def with_governance_def)
qed

lemma governance_flows:
  "flows 0 db (db\<lparr>registration_committee := rc\<rparr>)" "flows 0 db (db\<lparr>dev_committee := dc\<rparr>)" "flows 0 db (db\<lparr>proposals := ps\<rparr>)"
  "flows 0 db (db\<lparr>advertising_property := adv\<rparr>)" "flows 0 db (db\<lparr>betting_property := bet\<rparr>)"
  using with_governance_flows [of db rc "dev_committee db" "proposals db" "advertising_property db" "betting_property db"]
    with_governance_flows [of db "registration_committee db" dc "proposals db" "advertising_property db" "betting_property db"]
    with_governance_flows [of db "registration_committee db" "dev_committee db" ps "advertising_property db" "betting_property db"]
    with_governance_flows [of db "registration_committee db" "dev_committee db" "proposals db" adv "betting_property db"]
    with_governance_flows [of db "registration_committee db" "dev_committee db" "proposals db" "advertising_property db" bet]
  by (simp_all add: with_governance_def)

lemma member_change_flows:
  "add_member c n db = Inr db' \<Longrightarrow> flows 0 db db'" "exclude_member c n db = Inr db' \<Longrightarrow> flows 0 db db'"
  by (cases c; auto simp: reg_add_member_def reg_add_account_def dev_add_member_def reg_exclude_member_def reg_exclude_account_def
      dev_exclude_member_def bindE_Inr_iff intro: governance_flows)+

lemma change_quorum_flows:
  assumes "change_quorum_apply c q t db = Inr db'" and "db_ok db"
  shows "flows 0 db db'"
proof -
  have dev: "flows 0 db (db\<lparr>dev_pool := v\<rparr>)" if "dc_scr_balance v = dc_scr_balance (dev_pool db)" "dc_sp_balance v = dc_sp_balance (dev_pool db)" for v
    using movesD [OF dev_pool_moves [of v db 0]] that by simp
  have reg: "flows 0 db (db\<lparr>registration_pool := Some y\<rparr>)"
    if "registration_pool db = Some x" "rp_balance y = rp_balance x" "rp_delegated y = rp_delegated x" for x y
    using reg_pool_flows [of db "Some y"] that assms(2) by (simp add: db_ok_def pools_ok_def)
  from assms(1) show ?thesis
    by (cases c; cases t)
      (auto simp: change_quorum_apply_def reg_pool_update_def reg_pool_get_def bindE_Inr_iff split: option.splits intro!: dev reg)
qed

lemma withdraw_task_flows:
  assumes "withdraw_scorumpower_dev_pool_task F cfg amt db = Inr db'"
  shows "flows 0 db db'"
proof -
  from assms have "start_withdrawal F cfg (Dev_committee_id dev_pool_id) amt db = Inr db'"
    by (auto simp: withdraw_scorumpower_dev_pool_task_def bindE_Inr_iff)
  then consider "remove_withdraw_scorumpower (Dev_committee_id dev_pool_id) db = Inr db'" | wv where "save_withdrawal wv db = Inr db'"
    by (auto simp: start_withdrawal_def Let_def bindE_Inr_iff split: if_splits)
  then show ?thesis
  proof cases
    case 1
    then show ?thesis by (auto simp: remove_withdraw_scorumpower_def bindE_Inr_iff split: if_splits intro: withdraw_row_flows)
  next
    case 2
    then show ?thesis
      by (auto simp: save_withdrawal_def bindE_Inr_iff split: if_splits intro: withdraw_row_flows intro!: withdraws_flows dest: wf_index_emplace)
  qed
qed

text \<open>The transfer of an amount that its validation accepted.\<close>

definition transfers_ok :: "database \<Rightarrow> bool" where
  "transfers_ok db \<longleftrightarrow> (\<forall>k p. map_of (indices (proposals db)) k = Some p \<longrightarrow> proposal_operation_validate (po_operation p) = Inr ())"

lemma transfer_flows:
  assumes F: "ext_ok F" and r: "development_committee_transfer_apply F n amt db = Inr db'" and a: "0 \<le> amount amt"
  shows "flows 0 db db'"
proof -
  from r obtain b k where b: "asset_sub F (dc_scr_balance (dev_pool db)) amt = Inr b"
    and i: "increase_balance F k amt (db\<lparr>dev_pool := (dev_pool db)\<lparr>dc_scr_balance := b\<rparr>\<rparr>) = Inr db'"
    by (auto simp: development_committee_transfer_apply_def decrease_scr_balance_def bindE_Inr_iff)
  have "moves (- amount amt) db (db\<lparr>dev_pool := (dev_pool db)\<lparr>dc_scr_balance := b\<rparr>\<rparr>)"
    by (rule dev_pool_moves) (use b F in \<open>auto simp: asset_sub_iff\<close>)
  from flows_trans [OF movesD [OF this] pays_flows [OF increase_balance_pays [OF F i a]]] show ?thesis by simp
qed

lemma proposal_apply_flows:
  assumes F: "ext_ok F" and r: "proposal_apply F cfg op r0 db = (r', Inr db')" and v: "proposal_operation_validate op = Inr ()" and ok: "db_ok db"
  shows "flows 0 db db'"
proof (cases op)
  case (Development_committee_transfer n amt)
  then have "0 < amount amt" using v by (auto simp: bindE_Inr_iff assertE_def fc_assert_Inr_iff asset_order_iffs)
  then show ?thesis using transfer_flows [OF F, of n amt db db'] r Development_committee_transfer by simp
next
  case (Development_committee_withdraw_vesting v)
  then show ?thesis using r withdraw_task_flows by (auto simp: development_committee_withdraw_vesting_apply_def bindE_Inr_iff)
qed (use r ok in \<open>auto simp: exclude_apply_Inr simp del: add_member.simps exclude_member.simps
    intro: governance_flows member_change_flows change_quorum_flows\<close>)

lemma execute_proposal_flows:
  assumes F: "ext_ok F" and r: "execute_proposal F cfg k r db = (r', Inr db')" and ok: "db_ok db" and v: "transfers_ok db"
  shows "flows 0 db db' \<and> transfers_ok db'"
  using r
proof (cases rule: execute_proposal_cases)
  case (executed p db1)
  have "flows 0 db db1" by (rule proposal_apply_flows [OF F executed(3) _ ok]) (use v executed(1) in \<open>simp add: transfers_ok_def\<close>)
  moreover have "proposals db1 = proposals db" by (rule proposal_apply_proposals [OF executed(3)])
  moreover obtain ix where ix: "ix_remove k (proposals db1) = Inr ix" "db' = db1\<lparr>proposals := ix\<rparr>"
    using executed(4) by (auto simp: remove_proposal_def bindE_Inr_iff)
  moreover have "flows 0 db1 db'" using ix(2) governance_flows(3) by simp
  ultimately show ?thesis using v flows_trans [of 0 db db1 0 db'] by (auto simp: transfers_ok_def ix_remove_eq_Inr split: if_splits)
qed (use v in auto)

lemma execute_all_flows:
  assumes "ext_ok F" and "execute_all F cfg ks r db = (r', Inr db')" and "db_ok db" and "transfers_ok db"
  shows "flows 0 db db' \<and> transfers_ok db'"
  using assms(2-4)
proof (induction ks arbitrary: r db)
  case (Cons k ks)
  from Cons.prems(1) obtain r1 db1 where 1: "execute_proposal F cfg k r db = (r1, Inr db1)" and 2: "execute_all F cfg ks r1 db1 = (r', Inr db')"
    by (auto split: prod.splits sum.splits)
  note s = execute_proposal_flows [OF assms(1) 1 Cons.prems(2,3)]
  then have "db_ok db1" using flows_ok Cons.prems(2) by blast
  then show ?case using Cons.IH [OF 2] s flows_trans [of 0 db db1 0 db'] by simp
qed auto

lemma update_proposals_flows:
  assumes "foldE (\<lambda>k. update_proposal k m) ks db = Inr db'" and "distinct ks" and "transfers_ok db" and "\<And>p. po_operation (m p) = po_operation p"
  shows "flows 0 db db' \<and> transfers_ok db'"
  using update_proposals [OF assms(1,2)] assms(3,4) governance_flows(3) by (auto simp: transfers_ok_def split: if_splits)

lemma executor_loop_flows:
  "update_proposals_voting_list_and_execute F cfg r db = (r', Inr db') \<Longrightarrow> ext_ok F \<Longrightarrow> db_ok db \<Longrightarrow> transfers_ok db \<Longrightarrow> wf_index (proposals db) \<Longrightarrow>
   executor_inv {} r db \<Longrightarrow> flows 0 db db'"
proof (induction F cfg r db rule: update_proposals_voting_list_and_execute.induct)
  case (1 F cfg db)
  then show ?case by (auto simp: update_proposals_voting_list_and_execute.simps)
next
  case (2 F cfg M ms db)
  from "2.prems"(1) obtain db1 r1 db2 where s: "for_all_proposals_remove_from_voting_list M db = Inr db1"
    and e: "execute_all F cfg (get_proposals db1) (M # ms) db1 = (r1, Inr db2)"
    and rest: "update_proposals_voting_list_and_execute F cfg (filter (\<lambda>n. n \<noteq> M) r1) db2 = (r', Inr db')"
    by (auto simp: update_proposals_voting_list_and_execute.simps split: sum.splits prod.splits)
  have d: "distinct (map fst (indices (proposals db)))" using "2.prems"(5) by (simp add: wf_index_def sorted_rows_distinct)
  have f1: "flows 0 db db1" "transfers_ok db1"
    using update_proposals_flows [OF s [unfolded for_all_proposals_remove_from_voting_list_def] d "2.prems"(4)] by simp_all
  have f2: "flows 0 db1 db2" "transfers_ok db2" using execute_all_flows [OF "2.prems"(2) e flows_ok [OF f1(1) "2.prems"(3)] f1(2)] by simp_all
  have i: "executor_inv {M} r1 db2" by (rule execute_all_inv [OF e]) (rule strip_votes [OF s "2.prems"(6)])
  then have "executor_inv {} (filter (\<lambda>n. n \<noteq> M) r1) db2" unfolding executor_inv_def voters_ok_def by (auto simp: disjoint_iff subset_iff)
  moreover have "db_ok db2" using flows_ok [OF f2(1)] flows_ok [OF f1(1)] "2.prems"(3) by blast
  ultimately have "flows 0 db2 db'" using "2.IH" [OF s e [symmetric] refl rest "2.prems"(2)] f2(2) i by (simp add: executor_inv_def committees_ok_def)
  then show ?case using f1(1) f2(1) flows_trans [of 0 db db1 0 db2] flows_trans [of 0 db db2 0 db'] by simp
qed

text \<open>
  C37: A vote, and whatever proposals it sets off, moves money but loses and makes none, as long as the operations of the
  proposals passed their validation: the sum of everything the chain holds and the differences between its totals and its
  accounts are the same, and the database stays sound.
\<close>
theorem proposal_votes_conserve:
  assumes F: "ext_ok F" and r: "proposal_vote_apply F cfg voter k r db = (r', Inr db')" and s: "sound db" and g: "governance_ok db" and v: "transfers_ok db"
  shows "sound db' \<and> supply_sum db' = supply_sum db \<and> gaps db' = gaps db"
proof -
  from r obtain db1 r1 db2 where a: "accept_vote voter k db = Inr db1" and e: "execute_proposal F cfg k r db1 = (r1, Inr db2)"
    and l: "update_proposals_voting_list_and_execute F cfg r1 db2 = (r', Inr db')"
    by (auto simp: proposal_vote_apply_def proposal_executor_def split: sum.splits prod.splits)
  note i1 = accept_vote_inv [OF a g [unfolded governance_ok_def]]
  have "foldE (\<lambda>k. update_proposal k (\<lambda>p. p\<lparr>po_voted_accounts := insert_name voter (po_voted_accounts p)\<rparr>)) [k] db = Inr db1"
    using a by (auto simp: accept_vote_def vote_for_def bindE_Inr_iff)
  from update_proposals_flows [OF this _ v] have f1: "flows 0 db db1 \<and> transfers_ok db1" by simp
  have ok: "db_ok db" using s by (simp add: sound_def)
  have ok1: "db_ok db1" using f1 flows_ok ok by blast
  have f2: "flows 0 db1 db2 \<and> transfers_ok db2" using execute_proposal_flows [OF F e ok1] f1 by blast
  have i2: "executor_inv {} r1 db2" by (rule execute_proposal_inv [OF e i1])
  have ok2: "db_ok db2" using f2 flows_ok ok1 by blast
  have "flows 0 db2 db'" by (rule executor_loop_flows [OF l F ok2 _ _ i2]) (use f2 i2 in \<open>simp_all add: executor_inv_def committees_ok_def\<close>)
  then have "flows 0 db db'" using f1 f2 flows_trans [of 0 db db1 0 db2] flows_trans [of 0 db db2 0 db'] by simp
  then show ?thesis using s by (auto simp: flows_def keeps_def ledger_move_def sound_def)
qed

section \<open>Proposals on the sample chain\<close>

text \<open>Three members and four proposals; the pool of the committee holds a given amount.\<close>

definition sample_proposal :: "proposal_operation \<Rightarrow> nat \<Rightarrow> account_name list \<Rightarrow> proposal_object" where
  "sample_proposal op q votes = \<lparr>po_creator = ''alice'', po_operation = op, po_created = 0, po_expiration = 5000, po_quorum_percent = q, po_voted_accounts = votes\<rparr>"

definition sample_gov_db :: "int \<Rightarrow> database" where
  "sample_gov_db scr = sample_db\<lparr>dev_pool := (dev_pool sample_db)\<lparr>dc_scr_balance := SCR scr\<rparr>,
     dev_committee := \<lparr>next_id = 3, indices = [(0, ''alice''), (1, ''bobby''), (2, ''carol'')]\<rparr>,
     proposals := \<lparr>next_id = 4, indices =
       [(0, sample_proposal (Development_committee_exclude_member ''carol'') 60 [''alice'']),
        (1, sample_proposal (Development_committee_transfer ''bobby'' (SCR 1000)) 50 [''alice'']),
        (2, sample_proposal (Development_committee_empower_betting_moderator ''alice'') 60 []),
        (3, sample_proposal (Development_committee_change_betting_resolve_delay 100) 80 [''carol''])]\<rparr>\<rparr>"

lemmas vote_simps = proposal_vote_apply_def accept_vote_def vote_for_def update_proposal_def proposal_executor_def execute_proposal_def
  has_quorum_def is_quorum_def get_votes_def dev_is_exists_def dev_members_count_def is_expired_def insert_name_def remove_proposal_def
  update_proposals_voting_list_and_execute.simps for_all_proposals_remove_from_voting_list_def get_proposals_def exclude_apply_def
  dev_exclude_member_def development_committee_transfer_apply_def decrease_scr_balance_def asset_le_def
  drop_row_def sample_gov_db_def sample_proposal_def SCORUM_100_PERCENT_def SCORUM_1_PERCENT_def

lemma ix_find_Cons [run_simps]: "ix_find ix k = map_of (indices ix) k"
  by (simp add: ix_find_def)

lemma sample_vote_runs: "\<exists>db'. proposal_vote_apply ext_ref sample_config ''bobby'' 1 [] (sample_gov_db 5000) = ([], Inr db')"
  by (simp add: vote_simps run_simps Let_def cdiv_def)


lemma sample_gov_ok: "governance_ok (sample_gov_db scr)"
  by (auto simp: governance_ok_def committees_ok_def reg_ok_def dev_ok_def table_ok_def unique_rows_def wf_index_def sizes_ok_def voters_ok_def
      members_def dev_is_exists_def dev_member_clash_def reg_members_count_def dev_members_count_def ix_find_by_def sample_gov_db_def sample_proposal_def
      sample_db_def no_rows_def SCORUM_DEVELOPMENT_COMMITTEE_MAX_MEMBERS_LIMIT_def split: if_splits)

lemma sample_gov_sound: "sound (sample_gov_db scr)"
proof -
  have "moves scr sample_db (sample_db\<lparr>dev_pool := (dev_pool sample_db)\<lparr>dc_scr_balance := SCR scr\<rparr>\<rparr>)"
    by (rule dev_pool_moves) (simp_all add: sample_db_def)
  from flows_sound [OF with_governance_flows flows_sound [OF movesD [OF this] sample_sound]] show ?thesis
    by (simp add: with_governance_def sample_gov_db_def sample_db_def)
qed

theorem votes_are_members_votes_witness:
  "\<exists>db' p. (governs ext_ref sample_config)\<^sup>*\<^sup>* ([], sample_gov_db 5000) ([], db') \<and> map_of (indices (proposals db')) 3 = Some p \<and>
     get_votes p \<le> members_count (committee_of (po_operation p)) db' \<and> dev_members_count db' \<le> 31"
proof -
  have "\<exists>db' p. proposal_vote_apply ext_ref sample_config ''bobby'' 1 [] (sample_gov_db 5000) = ([], Inr db') \<and> map_of (indices (proposals db')) 3 = Some p"
    by (simp add: vote_simps run_simps Let_def cdiv_def)
  then obtain db' p where r: "proposal_vote_apply ext_ref sample_config ''bobby'' 1 [] (sample_gov_db 5000) = ([], Inr db')"
    and p: "map_of (indices (proposals db')) 3 = Some p" by blast
  have step: "(governs ext_ref sample_config)\<^sup>*\<^sup>* ([], sample_gov_db 5000) ([], db')" by (rule r_into_rtranclp, rule governs.vote [OF r])
  from votes_are_members_votes [OF step sample_gov_ok p] step p show ?thesis by blast
qed


theorem proposal_votes_conserve_witness:
  "\<exists>db'. proposal_vote_apply ext_ref sample_config ''bobby'' 1 [] (sample_gov_db 5000) = ([], Inr db') \<and> sound db' \<and>
     supply_sum db' = supply_sum (sample_gov_db 5000)"
proof -
  obtain db' where r: "proposal_vote_apply ext_ref sample_config ''bobby'' 1 [] (sample_gov_db 5000) = ([], Inr db')" using sample_vote_runs by blast
  have "is_valid_account_name ''carol''" "is_valid_account_name ''bobby''" "is_valid_account_name ''alice''"
    by (simp_all add: is_valid_account_name_def SCORUM_MIN_ACCOUNT_NAME_LENGTH_def SCORUM_MAX_ACCOUNT_NAME_LENGTH_def valid_labels_from.simps
        find_dot_def is_lower_def is_digit_def Let_def upt_rec)
  then have "transfers_ok (sample_gov_db 5000)"
    by (auto simp: transfers_ok_def sample_gov_db_def sample_proposal_def validate_account_name_def assertE_def asset_gt_def asset_le_def asset_lt_def
        check_symbol_def split: if_splits)
  from proposal_votes_conserve [OF ext_ok_ref r sample_gov_sound sample_gov_ok this] r show ?thesis by blast
qed

end
