(* ===== verification/Registration_Run.thy ===== *)
theory Registration_Run
  imports Registration Committee_Votes
begin

text \<open>
  What the registration pool promises: bonuses and their return move money between the pool and the accounts and lose none,
  and what the pool has lent is the sum of the delegations it remembers.
\<close>

section \<open>Money\<close>

definition shifts :: "int \<Rightarrow> database \<Rightarrow> database \<Rightarrow> bool" where
  "shifts d db db' \<longleftrightarrow> keeps db db' \<and> ledger_move d db db'"

lemma shifts_trans: "shifts d db db1 \<Longrightarrow> shifts e db1 db2 \<Longrightarrow> d + e = f \<Longrightarrow> shifts f db db2"
  unfolding shifts_def using keeps_trans ledger_move_trans by blast

lemma shifts_refl [intro]: "shifts 0 db db"
  by (auto simp: shifts_def)

lemma flows_shifts: "flows d db db' \<Longrightarrow> shifts d db db'"
  by (simp add: flows_def shifts_def)

lemma shifts_sound: "shifts 0 db db' \<Longrightarrow> sound db \<Longrightarrow> sound db' \<and> supply_sum db' = supply_sum db \<and> gaps db' = gaps db"
  by (auto simp: shifts_def keeps_def ledger_move_def sound_def)

lemma view_shifts: "sound_view db' = sound_view db \<Longrightarrow> (tables_ok db \<Longrightarrow> tables_ok db') \<Longrightarrow> shifts 0 db db'"
  unfolding shifts_def using keeps_same [of db' db] ledger_move_same [of db' db] by (simp add: sound_view_def)

text \<open>The tables of the registration hold no money.\<close>

lemma registration_tables:
  "shifts 0 db (db\<lparr>registration_committee := rc\<rparr>)" "shifts 0 db (db\<lparr>registration_bonuses := rb\<rparr>)" "shifts 0 db (db\<lparr>reg_pool_delegations := rd\<rparr>)"
  by (rule view_shifts; simp add: sound_view_def ledger_view_def tables_ok_def)+

definition pool_sum :: "registration_pool_object \<Rightarrow> int" where
  "pool_sum p = amount (rp_balance p) + amount (rp_delegated p)"

lemma pool_shifts:
  assumes r: "reg_pool_update m db = Inr db'" and m: "\<And>p p'. m p = Inr p' \<Longrightarrow> pool_sum p' = pool_sum p + d \<and> symbol (rp_balance p') = symbol (rp_balance p)"
  shows "shifts d db db'"
proof -
  from r obtain p p' where p: "registration_pool db = Some p" "m p = Inr p'" "db' = db\<lparr>registration_pool := Some p'\<rparr>"
    by (auto simp: reg_pool_update_def reg_pool_get_def bindE_Inr_iff split: option.splits)
  have "symbol (rp_balance p') = SCORUM_SYMBOL" if "db_ok db" using that m [OF p(2)] p(1) by (simp add: db_ok_def pools_ok_def)
  then have "flows (pool_sum p' - pool_sum p) db db'"
    using reg_pool_flows [of db "Some p'"] unfolding p(3) pool_sum_def by (simp add: p(1)) blast
  then show ?thesis using m [OF p(2)] flows_shifts by simp
qed

lemma pool_decrease_shifts: "ext_ok F \<Longrightarrow> pool_decrease_balance F x db = Inr db' \<Longrightarrow> shifts (- amount x) db db'"
  unfolding pool_decrease_balance_def by (erule pool_shifts) (auto simp: bindE_Inr_iff asset_sub_iff pool_sum_def)

lemma allocated_count_shifts: "increase_already_allocated_count db = Inr db' \<Longrightarrow> shifts 0 db db'"
  unfolding increase_already_allocated_count_def by (erule pool_shifts) (auto simp: pool_sum_def)

lemma bandwidth_shifts: "validate_bandwidth F pool k x db = Inr db' \<Longrightarrow> shifts 0 db db'"
  by (auto simp: validate_bandwidth_def update_member_info_def Let_def bindE_Inr_iff intro: registration_tables)

lemma allocate_cash_shifts:
  assumes F: "ext_ok F" and r: "reg_allocate_cash F n db = Inr (x, db')"
  shows "shifts (- amount x) db db'" and "0 < amount x"
proof -
  from r obtain pool db1 db2 where 1: "(if n \<noteq> [] then bindE (reg_get_member n db) (\<lambda>k. validate_bandwidth F pool k x db) else Inr db) = Inr db1"
    and 2: "pool_decrease_balance F x db1 = Inr db2" and 3: "increase_already_allocated_count db2 = Inr db'" and pos: "0 < amount x"
    by (auto simp: reg_allocate_cash_def bindE_Inr_iff fc_assert_Inr_iff)
  have "shifts 0 db db1" using 1 bandwidth_shifts by (auto simp: bindE_Inr_iff split: if_splits)
  from shifts_trans [OF shifts_trans [OF this pool_decrease_shifts [OF F 2] refl] allocated_count_shifts [OF 3] refl]
  show "shifts (- amount x) db db'" by simp
  show "0 < amount x" by (rule pos)
qed

lemma register_bonus_shifts: "register_account_bonus F cfg n x db = Inr db' \<Longrightarrow> shifts 0 db db'"
  by (auto simp: register_account_bonus_def bindE_Inr_iff intro: registration_tables)

lemma create_with_bonus_shifts:
  assumes F: "ext_ok F" and r: "create_account_with_bonus F n c mk j ow ac po bonus db = Inr (k, db')" and pos: "0 < amount bonus"
  shows "shifts (amount bonus) db db'"
proof -
  from r pos obtain db1 where 1: "create_account n c mk j ow ac po db = Inr (k, db1)" and 2: "create_scorumpower F k bonus db1 = Inr db'"
    by (auto simp: create_account_with_bonus_def bindE_Inr_iff)
  have "shifts 0 db db1" using create_account_keeps [OF 1] create_account_move [OF 1] by (simp add: shifts_def)
  from shifts_trans [OF this flows_shifts [OF pays_flows [OF create_scorumpower_pays [OF F 2]]]] pos show ?thesis by simp
qed

lemma create_free_shifts:
  assumes F: "ext_ok F" and r: "create_account_with_fee F n c mk j ow ac po (SCR 0) db = Inr (k, db')"
  shows "shifts 0 db db'"
proof -
  from r have 1: "create_account n c mk j ow ac po db = Inr (k, db')" by (auto simp: create_account_with_fee_def bindE_Inr_iff)
  show ?thesis using create_account_keeps [OF 1] create_account_move [OF 1] by (simp add: shifts_def)
qed

lemma committee_creates_shifts:
  assumes F: "ext_ok F" and r: "account_create_by_committee_apply F cfg c n mk j ow ac po db = Inr db'"
  shows "shifts 0 db db'"
proof (cases "has_hardfork SCORUM_HARDFORK_0_3 db")
  case True
  then obtain k where "create_account_with_fee F n c mk j ow ac po (SCR 0) db = Inr (k, db')"
    using r by (auto simp: account_create_by_committee_apply_def bindE_Inr_iff)
  then show ?thesis by (rule create_free_shifts [OF F])
next
  case False
  then obtain x db1 k db2 where 1: "reg_allocate_cash F c db = Inr (x, db1)" and 2: "create_account_with_bonus F n c mk j ow ac po x db1 = Inr (k, db2)"
    and 3: "register_account_bonus F cfg n x db2 = Inr db'"
    using r by (auto simp: account_create_by_committee_apply_def bindE_Inr_iff)
  note a = allocate_cash_shifts [OF F 1]
  have "shifts 0 db db2" by (rule shifts_trans [OF a(1) create_with_bonus_shifts [OF F 2 a(2)]]) simp
  from shifts_trans [OF this register_bonus_shifts [OF 3]] show ?thesis by simp
qed

lemma give_bonus_shifts:
  assumes F: "ext_ok F" and r: "give_bonus_from_registration_pool F cfg k db = Inr db'"
  shows "shifts 0 db db'"
proof -
  from r obtain x db1 where 1: "reg_allocate_cash F [] db = Inr (x, db1)"
    and "bindE (create_scorumpower F k x db1) (\<lambda>db. bindE (account_at k db) (\<lambda>acc. register_account_bonus F cfg (a_name acc) x db)) = Inr db'"
    by (auto simp: give_bonus_from_registration_pool_def bindE_Inr_iff)
  then obtain db2 and acc :: account_object where 2: "create_scorumpower F k x db1 = Inr db2" and 3: "register_account_bonus F cfg (a_name acc) x db2 = Inr db'"
    unfolding bindE_Inr_iff by blast
  note a = allocate_cash_shifts [OF F 1]
  have "shifts 0 db db2" by (rule shifts_trans [OF a(1) flows_shifts [OF pays_flows [OF create_scorumpower_pays [OF F 2]]]]) (use a(2) in simp_all)
  from shifts_trans [OF this register_bonus_shifts [OF 3]] show ?thesis by simp
qed

lemma lend_shifts:
  assumes F: "ext_ok F" and r: "lend_from_pool F n sp db = Inr db'"
  shows "shifts 0 db db'"
proof -
  from r obtain k db1 where 1: "increase_received_scorumpower F k sp db = Inr db1" and 2: "reg_pool_update (\<lambda>p.
       bindE (asset_sub_amount F (rp_balance p) (amount sp)) (\<lambda>b.
       bindE (asset_add_amount F (rp_delegated p) (amount sp)) (\<lambda>d.
       Inr (p\<lparr>rp_balance := b, rp_delegated := d\<rparr>)))) db1 = Inr db'"
    by (auto simp: lend_from_pool_def bindE_Inr_iff)
  have "shifts 0 db db1" using delegated_keeps(2) [OF 1] increase_received_move [OF 1] by (simp add: shifts_def)
  moreover have "shifts 0 db1 db'" by (rule pool_shifts [OF 2]) (use F in \<open>auto simp: bindE_Inr_iff asset_amount_iffs pool_sum_def\<close>)
  ultimately show ?thesis using shifts_trans [of 0 db db1 0 db'] by simp
qed

lemma delegate_cases:
  assumes "delegate_sp_from_reg_pool_apply F m n sp db = Inr db'"
  obtains (first) db1 k ix where "ix_find_by (\<lambda>d. rpd_delegatee d = n) (reg_pool_delegations db) = None" "0 < amount sp" "lend_from_pool F n sp db = Inr db1"
      "ix_emplace reg_pool_delegation_clash (\<lambda>_. Inr \<lparr>rpd_delegatee = n, rpd_sp = sp\<rparr>) (reg_pool_delegations db1) = Inr (k, ix)"
      "db' = db1\<lparr>reg_pool_delegations := ix\<rparr>"
  | (change) i d x db1 ix where "map_of (indices (reg_pool_delegations db)) i = Some d" "asset_sub F sp (rpd_sp d) = Inr x" "lend_from_pool F n x db = Inr db1"
      "sorted_rows (indices (reg_pool_delegations db)) \<Longrightarrow> rpd_delegatee d = n"
      "(0 < amount sp \<and> ix_modify reg_pool_delegation_clash i (\<lambda>d. bindE (asset_add F (rpd_sp d) x) (\<lambda>y. Inr (d\<lparr>rpd_sp := y\<rparr>))) (reg_pool_delegations db1) = Inr ix) \<or>
       (amount sp \<le> 0 \<and> ix_remove i (reg_pool_delegations db1) = Inr ix)"
      "db' = db1\<lparr>reg_pool_delegations := ix\<rparr>"
proof (cases "ix_find_by (\<lambda>d. rpd_delegatee d = n) (reg_pool_delegations db)")
  case None
  then show ?thesis using assms by (auto simp: delegate_sp_from_reg_pool_apply_def bindE_Inr_iff fc_assert_Inr_iff intro: first)
next
  case (Some i)
  then obtain d x db1 where 1: "ix_get (reg_pool_delegations db) i = Inr d" "asset_sub F sp (rpd_sp d) = Inr x" "lend_from_pool F n x db = Inr db1"
    and 2: "(if amount sp > 0 then
           bindE (ix_modify reg_pool_delegation_clash i (\<lambda>d. bindE (asset_add F (rpd_sp d) x) (\<lambda>x. Inr (d\<lparr>rpd_sp := x\<rparr>)))
                    (reg_pool_delegations db1)) (\<lambda>ix. Inr (db1\<lparr>reg_pool_delegations := ix\<rparr>))
         else bindE (ix_remove i (reg_pool_delegations db1)) (\<lambda>ix. Inr (db1\<lparr>reg_pool_delegations := ix\<rparr>))) = Inr db'"
    using assms unfolding delegate_sp_from_reg_pool_apply_def bindE_Inr_iff by (auto simp: bindE_Inr_iff)
  have "\<exists>ix. ((0 < amount sp \<and> ix_modify reg_pool_delegation_clash i (\<lambda>d. bindE (asset_add F (rpd_sp d) x) (\<lambda>y. Inr (d\<lparr>rpd_sp := y\<rparr>))) (reg_pool_delegations db1) = Inr ix) \<or>
       (amount sp \<le> 0 \<and> ix_remove i (reg_pool_delegations db1) = Inr ix)) \<and> db' = db1\<lparr>reg_pool_delegations := ix\<rparr>"
    using 2 by (cases "amount sp > 0") (auto simp: bindE_Inr_iff)
  moreover have "rpd_delegatee d = n" if "sorted_rows (indices (reg_pool_delegations db))" using ix_find_by_Some [OF Some that] 1(1) by (auto simp: ix_get_iff)
  ultimately show ?thesis using change [of i d x db1] 1 by (auto simp: ix_get_iff)
qed

lemma delegate_shifts:
  assumes F: "ext_ok F" and r: "delegate_sp_from_reg_pool_apply F m n sp db = Inr db'"
  shows "shifts 0 db db'"
  using r by (cases rule: delegate_cases) (auto intro: shifts_trans [OF lend_shifts [OF F] registration_tables(3)])

text \<open>
  An account that has lent more power than it has keeps it all: what a bonus gives back is never more than the account
  can spare, and nobody's debts are negative.
\<close>

definition lenders_ok :: "database \<Rightarrow> bool" where
  "lenders_ok db \<longleftrightarrow> (\<forall>k a. map_of (indices (accounts db)) k = Some a \<longrightarrow> 0 \<le> amount (a_delegated_scorumpower a))"

lemma blank_account_delegated: "blank_account a = blank_account b \<Longrightarrow> a_delegated_scorumpower a = a_delegated_scorumpower b"
  by (drule arg_cong [of _ _ a_delegated_scorumpower]) (simp add: blank_account_def)

lemma tidy_lenders:
  assumes "tidy db db'" and "wf_index (accounts db)" and "wf_index (witnesses db)" and "lenders_ok db"
  shows "lenders_ok db'"
  unfolding lenders_ok_def
proof (intro allI impI)
  fix k a' assume a': "map_of (indices (accounts db')) k = Some a'"
  have pf: "purse_free db' = purse_free db" using assms(1-3) by (simp add: tidy_def)
  have "blank_rows blank_account (accounts db') = blank_rows blank_account (accounts db)"
    using arg_cong [OF pf, of accounts] by (simp add: purse_free_def)
  then have "map_of (indices (blank_rows blank_account (accounts db'))) k = map_of (indices (blank_rows blank_account (accounts db))) k" by simp
  then obtain a where "map_of (indices (accounts db)) k = Some a" "blank_account a' = blank_account a"
    using a' by (cases "map_of (indices (accounts db)) k") (auto simp: blank_rows_def map_of_map_row)
  then show "0 \<le> amount (a_delegated_scorumpower a')" using assms(4) unfolding lenders_ok_def
    by (metis (no_types, lifting) blank_account_delegated)
qed

lemma return_funds_shifts:
  assumes F: "ext_ok F" and r: "return_funds F b db = Inr db'" and s: "sound db" and l: "lenders_ok db"
  shows "shifts 0 db db'" and "lenders_ok db'"
proof -
  from r obtain k acc av m x db1 where acc: "account_at k db = Inr acc" and av: "asset_sub F (a_scorumpower acc) (a_delegated_scorumpower acc) = Inr av"
    and m: "asset_min (arb_bonus b) av = Inr m" "asset_max (SP 0) m = Inr x"
    and 1: "decrease_scorumpower F k x db = Inr db1"
    and 2: "reg_pool_update (\<lambda>p. bindE (asset_add F (rp_balance p) (SCR (amount x))) (\<lambda>b. Inr (p\<lparr>rp_balance := b\<rparr>))) db1 = Inr db'"
    by (auto simp: return_funds_def bindE_Inr_iff)
  have x: "0 \<le> amount x" "amount x \<le> max 0 (amount av)" using m by (auto simp: asset_min_def asset_max_def bindE_Inr_iff asset_order_iffs split: if_splits)
  have row: "map_of (indices (accounts db)) k = Some acc" using acc by (simp add: account_at_def ix_get_iff)
  have "0 \<le> amount (a_scorumpower acc)" "0 \<le> amount (a_delegated_scorumpower acc)"
    using sound_account [OF s row] l row by (simp_all add: account_solvent_def lenders_ok_def)
  then have cover: "amount x \<le> amount (a_scorumpower acc)" using x av F by (auto simp: asset_sub_iff max_def split: if_splits)
  from 1 obtain n where n: "increase_scorumpower F k n db = Inr db1" "amount n = - amount x"
    using F by (auto simp: decrease_scorumpower_def bindE_Inr_iff asset_neg_iff)
  have "keeps db db1" by (rule increase_scorumpower_keeps [OF F n(1)]) (use row cover n(2) in simp)
  then have "shifts (- amount x) db db1" using increase_scorumpower_move [OF F n(1)] n(2) by (simp add: shifts_def)
  moreover have "shifts (amount x) db1 db'" by (rule pool_shifts [OF 2]) (use F in \<open>auto simp: bindE_Inr_iff asset_add_iff pool_sum_def\<close>)
  ultimately show "shifts 0 db db'" using shifts_trans by fastforce
  have "lenders_ok db1" by (rule tidy_lenders [OF tidy_increase_scorumpower [OF n(1)] _ _ l]) (use s in \<open>simp_all add: sound_def db_ok_def tables_ok_def\<close>)
  then show "lenders_ok db'" using 2 by (auto simp: reg_pool_update_def bindE_Inr_iff lenders_ok_def)
qed

lemma bonus_expiration_shifts:
  assumes F: "ext_ok F" and r: "process_account_registration_bonus_expiration F db = Inr db'" and s: "sound db" and l: "lenders_ok db"
  shows "shifts 0 db db'"
proof -
  have "shifts 0 db db' \<and> sound db' \<and> lenders_ok db'"
  proof (rule foldE_inv [OF r [unfolded process_account_registration_bonus_expiration_def]])
    show "shifts 0 db db \<and> sound db \<and> lenders_ok db" using s l by auto
  next
    fix k db1 db2
    assume i: "shifts 0 db db1 \<and> sound db1 \<and> lenders_ok db1"
      and "bindE (ix_get (registration_bonuses db1) k) (\<lambda>account. bindE (return_funds F account db1) (\<lambda>db.
        bindE (ix_remove k (registration_bonuses db)) (\<lambda>ix. Inr (db\<lparr>registration_bonuses := ix\<rparr>)))) = Inr db2"
    then obtain b db3 ix where b: "return_funds F b db1 = Inr db3" and d: "db2 = db3\<lparr>registration_bonuses := ix\<rparr>" by (auto simp: bindE_Inr_iff)
    have "shifts 0 db1 db3" "lenders_ok db3" using return_funds_shifts [OF F b] i by blast+
    moreover have "shifts 0 db3 db2" unfolding d by (rule registration_tables(2))
    ultimately have "shifts 0 db1 db2" "lenders_ok db2" using shifts_trans [of 0 db1 db3 0 db2] by (simp_all add: d lenders_ok_def)
    then show "shifts 0 db db2 \<and> sound db2 \<and> lenders_ok db2" using i shifts_trans [of 0 db db1 0 db2] shifts_sound by simp
  qed
  then show ?thesis by blast
qed

text \<open>The steps of the registration.\<close>

inductive registers :: "ext_lib \<Rightarrow> config \<Rightarrow> database \<Rightarrow> database \<Rightarrow> bool" for F cfg where
  create: "account_create_by_committee_apply F cfg c n mk j ow ac po db = Inr db' \<Longrightarrow> registers F cfg db db'"
| bonus: "give_bonus_from_registration_pool F cfg k db = Inr db' \<Longrightarrow> registers F cfg db db'"
| delegate: "delegate_sp_from_reg_pool_apply F m n sp db = Inr db' \<Longrightarrow> registers F cfg db db'"
| expire: "process_account_registration_bonus_expiration F db = Inr db' \<Longrightarrow> lenders_ok db \<Longrightarrow> registers F cfg db db'"

text \<open>
  C38: Registering an account, giving a bonus, delegating power from the pool and taking expired bonuses back move money
  between the pool and the accounts, but lose and make none: the sum of everything the chain holds and the differences between
  its totals and its accounts are the same, and the database stays sound.
\<close>
theorem registration_conserves:
  assumes "ext_ok F" and "registers F cfg db db'" and "sound db"
  shows "sound db' \<and> supply_sum db' = supply_sum db \<and> gaps db' = gaps db"
proof -
  have "shifts 0 db db'" using assms(2)
  proof cases
    case create
    then show ?thesis by (rule committee_creates_shifts [OF assms(1)])
  next
    case bonus
    then show ?thesis by (rule give_bonus_shifts [OF assms(1)])
  next
    case delegate
    then show ?thesis by (rule delegate_shifts [OF assms(1)])
  next
    case expire
    then show ?thesis using bonus_expiration_shifts [OF assms(1) _ assms(3)] by blast
  qed
  then show ?thesis using shifts_sound assms(3) by blast
qed

section \<open>What the pool has lent\<close>

definition lent_ok :: "database \<Rightarrow> bool" where
  "lent_ok db \<longleftrightarrow> table_ok reg_pool_delegation_clash (reg_pool_delegations db) \<and>
     (\<forall>p. registration_pool db = Some p \<longrightarrow> amount (rp_delegated p) = row_sum (\<lambda>d. amount (rpd_sp d)) (indices (reg_pool_delegations db)))"

lemma lend_effect:
  assumes F: "ext_ok F" and r: "lend_from_pool F n sp db = Inr db'" and p: "registration_pool db = Some p"
  shows "reg_pool_delegations db' = reg_pool_delegations db" and "\<exists>p'. registration_pool db' = Some p' \<and> amount (rp_delegated p') = amount (rp_delegated p) + amount sp"
  using assms by (auto simp: lend_from_pool_def increase_received_scorumpower_def update_account_def reg_pool_update_def reg_pool_get_def bindE_Inr_iff
      asset_amount_iffs split: option.splits)

text \<open>
  C39: What the pool counts as delegated is exactly the sum of the delegations that are on record, at most one for an account,
  and a delegation of a positive amount is on record afterwards as it was asked for, one of zero is gone.
\<close>
theorem pool_delegations_exact:
  assumes F: "ext_ok F" and r: "delegate_sp_from_reg_pool_apply F m n sp db = Inr db'" and ok: "lent_ok db" and p: "registration_pool db = Some p"
    and sp: "symbol sp = SP_SYMBOL" "0 \<le> amount sp"
  shows "lent_ok db' \<and>
    (\<forall>k d. map_of (indices (reg_pool_delegations db')) k = Some d \<and> rpd_delegatee d = n \<longrightarrow> rpd_sp d = sp \<and> 0 < amount sp) \<and>
    (0 < amount sp \<longrightarrow> (\<exists>k d. map_of (indices (reg_pool_delegations db')) k = Some d \<and> rpd_delegatee d = n))"
proof -
  let ?f = "\<lambda>d. amount (rpd_sp d)" and ?c = reg_pool_delegation_clash and ?rows = "indices (reg_pool_delegations db)"
  have sym: "\<And>a b. ?c a b \<Longrightarrow> ?c b a" by (simp add: reg_pool_delegation_clash_def)
  have t: "table_ok ?c (reg_pool_delegations db)" using ok by (simp add: lent_ok_def)
  have srt: "sorted_rows ?rows" using t by (simp add: table_ok_def wf_index_def)
  have sum: "amount (rp_delegated p) = row_sum ?f ?rows" using ok p by (simp add: lent_ok_def)
  show ?thesis using r
  proof (cases rule: delegate_cases)
    case (first db1 k ix)
    note l = lend_effect [OF F first(3) p]
    let ?d = "\<lparr>rpd_delegatee = n, rpd_sp = sp\<rparr>"
    have e: "ix_emplace ?c (\<lambda>_. Inr ?d) (reg_pool_delegations db) = Inr (k, ix)" using first(4) l(1) by simp
    have t': "table_ok ?c ix" by (rule table_emplace [OF t e sym])
    have rows: "indices ix = put_row k ?d ?rows" "k \<notin> fst ` set ?rows" using e t by (auto simp: ix_emplace_eq_Inr table_ok_def wf_index_def)
    have "lent_ok db'" using t' l(2) sum row_sum_put_new [OF rows(2)] by (auto simp: lent_ok_def first(5) rows(1))
    moreover have "rpd_sp d = sp" if "map_of (indices ix) j = Some d" "rpd_delegatee d = n" for j d
    proof (cases "j = k")
      case True
      with that(1) have "d = ?d" by (simp add: rows(1))
      then show ?thesis by simp
    next
      case False
      then have "map_of ?rows j = Some d" using that(1) by (simp add: rows(1))
      then show ?thesis using find_by_None [OF first(1)] that(2) by blast
    qed
    moreover have "\<exists>k d. map_of (indices ix) k = Some d \<and> rpd_delegatee d = n" by (intro exI [of _ k] exI [of _ ?d]) (simp add: rows(1))
    ultimately show ?thesis using first(2) unfolding first(5) by (simp, blast)
  next
    case (change i d x db1 ix)
    note l = lend_effect [OF F change(3) p]
    have x: "amount x = amount sp - amount (rpd_sp d)" "symbol (rpd_sp d) = symbol sp" "symbol x = symbol sp" using change(2) F by (auto simp: asset_sub_iff)
    have only: "j = i" if "map_of ?rows j = Some e" "rpd_delegatee e = rpd_delegatee d" for j e
      by (rule same_key [OF t _ change(1) that(1)]) (simp add: reg_pool_delegation_clash_def that(2))
    show ?thesis
    proof (cases "0 < amount sp")
      case True
      then have e: "ix_modify ?c i (\<lambda>d. bindE (asset_add F (rpd_sp d) x) (\<lambda>y. Inr (d\<lparr>rpd_sp := y\<rparr>))) (reg_pool_delegations db) = Inr ix"
        using change(5) l(1) by simp
      have t': "table_ok ?c ix" by (rule table_modify [OF t e sym])
      have rows: "indices ix = put_row i (d\<lparr>rpd_sp := sp\<rparr>) ?rows"
      proof -
        have "indices ix = put_row i (d\<lparr>rpd_sp := (rpd_sp d)\<lparr>amount := amount sp\<rparr>\<rparr>) ?rows"
          using e change(1) F x by (auto simp: ix_modify_eq_Inr bindE_Inr_iff asset_add_iff)
        moreover have "(rpd_sp d)\<lparr>amount := amount sp\<rparr> = sp" using x(2) by (simp add: asset_eqI)
        ultimately show ?thesis by (simp only:)
      qed
      have "lent_ok db'" using t' l(2) sum row_sum_put_old [OF srt change(1)] x by (auto simp: lent_ok_def change(6) rows(1))
      then show ?thesis using True change(4) [OF srt] only rows by (auto simp: change(6) intro!: exI [of _ i] split: if_splits)
    next
      case False
      then have z: "amount sp = 0" and e: "ix_remove i (reg_pool_delegations db) = Inr ix" using change(5) l(1) sp by auto
      have t': "table_ok ?c ix" by (rule table_remove [OF t e])
      have rows: "indices ix = drop_row i ?rows" using e by (auto simp: ix_remove_eq_Inr)
      have "lent_ok db'" using t' l(2) sum row_sum_drop [OF srt change(1)] x z by (auto simp: lent_ok_def change(6) rows(1))
      then show ?thesis using z change(4) [OF srt] only rows by (auto simp: change(6) split: if_splits)
    qed
  qed
qed

section \<open>Registration on the sample chain\<close>

text \<open>Alice is the committee; bobby's power was a bonus that expires, and he has borrowed from the pool.\<close>

definition sample_pool :: registration_pool_object where
  "sample_pool = \<lparr>rp_balance = SCR 7000, rp_delegated = SP 500, rp_maximum_bonus = SCR 100, rp_already_allocated_count = 3,
     rp_schedule_items = [(2, 100), (5, 50)], rp_invite_quorum = 60, rp_dropout_quorum = 60, rp_change_quorum = 60\<rparr>"

definition sample_reg_db :: database where
  "sample_reg_db = sample_db\<lparr>registration_pool := Some sample_pool,
     registration_committee := \<lparr>next_id = 1, indices = [(0, new_registration_member ''alice'')]\<rparr>,
     registration_bonuses := \<lparr>next_id = 1, indices = [(0, \<lparr>arb_account = ''bobby'', arb_bonus = SP 400000, arb_expires = 900\<rparr>)]\<rparr>,
     reg_pool_delegations := \<lparr>next_id = 1, indices = [(0, \<lparr>rpd_delegatee = ''bobby'', rpd_sp = SP 500\<rparr>)]\<rparr>\<rparr>"

lemma sample_reg_sound: "sound sample_reg_db"
proof -
  let ?db = "sample_db\<lparr>registration_pool := Some sample_pool\<rparr>"
  have e: "registration_pool sample_db = None" by (simp add: sample_db_def)
  have "symbol (rp_balance sample_pool) = SCORUM_SYMBOL" by (simp add: sample_pool_def)
  then have "flows (pool_sum sample_pool) sample_db ?db" using reg_pool_flows [of sample_db "Some sample_pool"] unfolding pool_sum_def e by simp
  then have "sound ?db" by (rule flows_sound [OF _ sample_sound])
  moreover have "keeps ?db sample_reg_db" by (rule keeps_same) (simp_all add: sample_reg_db_def sound_view_def ledger_view_def tables_ok_def)
  ultimately show ?thesis by (simp add: keeps_def)
qed

lemmas reg_simps = sample_reg_db_def sample_pool_def process_account_registration_bonus_expiration_def get_by_expiration_time_def return_funds_def
  asset_min_def asset_max_def reg_pool_update_def reg_pool_get_def decrease_scorumpower_def increase_scorumpower_def
  delegate_sp_from_reg_pool_apply_def lend_from_pool_def reg_is_exists_def new_registration_member_def increase_received_scorumpower_def
  reg_pool_delegation_clash_def adjust_proxied_witness_votes.simps adjust_witness_votes_def voted_witnesses_def SCORUM_PROXY_TO_SELF_ACCOUNT_def

theorem registration_conserves_witness:
  "\<exists>db'. process_account_registration_bonus_expiration ext_ref sample_reg_db = Inr db' \<and> sound db' \<and> supply_sum db' = supply_sum sample_reg_db"
proof -
  have "\<not> isl (process_account_registration_bonus_expiration ext_ref sample_reg_db)" by (simp add: reg_simps run_simps Let_def)
  then obtain db' where r: "process_account_registration_bonus_expiration ext_ref sample_reg_db = Inr db'" using returns by blast
  have "lenders_ok sample_reg_db" by (auto simp: lenders_ok_def reg_simps run_simps split: if_splits)
  from registration_conserves [where cfg = sample_config, OF ext_ok_ref registers.expire [OF r this] sample_reg_sound] r show ?thesis by blast
qed

theorem pool_delegations_exact_witness:
  "\<exists>db'. delegate_sp_from_reg_pool_apply ext_ref ''alice'' ''bobby'' (SP 0) sample_reg_db = Inr db' \<and> lent_ok db' \<and>
     (\<nexists>k d. map_of (indices (reg_pool_delegations db')) k = Some d \<and> rpd_delegatee d = ''bobby'')"
proof -
  have "\<not> isl (delegate_sp_from_reg_pool_apply ext_ref ''alice'' ''bobby'' (SP 0) sample_reg_db)" by (simp add: reg_simps run_simps Let_def)
  then obtain db' where r: "delegate_sp_from_reg_pool_apply ext_ref ''alice'' ''bobby'' (SP 0) sample_reg_db = Inr db'" using returns by blast
  have "lent_ok sample_reg_db" "registration_pool sample_reg_db = Some sample_pool"
    by (auto simp: lent_ok_def table_ok_def unique_rows_def wf_index_def sample_reg_db_def sample_pool_def split: if_splits)
  from pool_delegations_exact [OF ext_ok_ref r this] r show ?thesis by auto
qed

end
