(* ===== verification/Comments.thy ===== *)
theory Comments
  imports Withdrawals Block_Funds Rewards_Math Supply_Invariants
begin

text \<open>
  Posts, comments and votes on them: the services \<^verbatim>\<open>comment.cpp\<close>, \<^verbatim>\<open>comment_vote.cpp\<close>, \<^verbatim>\<open>comment_statistic.hpp\<close> and
  \<^verbatim>\<open>account_blogging_statistic.cpp\<close>, the evaluator of votes (\<^verbatim>\<open>vote_evaluator.cpp\<close>), and the evaluators of comments, their
  options and their deletion (\<^verbatim>\<open>scorum_evaluators.cpp\<close>). The code is that of a full node: \<^verbatim>\<open>IS_LOW_MEM\<close> and
  \<^verbatim>\<open>CLEAR_VOTES\<close> are not defined.
\<close>

section \<open>Services\<close>

definition find_comment :: "account_name \<Rightarrow> string \<Rightarrow> database \<Rightarrow> nat option" where
  "find_comment author permlink db = ix_find_by (\<lambda>c. co_author c = author \<and> co_permlink c = permlink) (comments db)"

definition get_comment :: "account_name \<Rightarrow> string \<Rightarrow> database \<Rightarrow> nat res" where
  "get_comment author permlink db = ix_get_by (\<lambda>c. co_author c = author \<and> co_permlink c = permlink) (comments db)"

definition update_comment :: "nat \<Rightarrow> (comment_object \<Rightarrow> comment_object res) \<Rightarrow> database \<Rightarrow> database res" where
  "update_comment k m db = bindE (ix_modify comment_clash k m (comments db)) (\<lambda>ix. Inr (db\<lparr>comments := ix\<rparr>))"

text \<open>The comments by the time of their payout, or of their creation, up to a time.\<close>

definition get_comments_by_cashout_time :: "nat \<Rightarrow> database \<Rightarrow> nat list" where
  "get_comments_by_cashout_time until db =
     map fst (sort_key (\<lambda>r. co_cashout_time (snd r)) (filter (\<lambda>r. co_cashout_time (snd r) \<le> until) (indices (comments db))))"

definition get_comments_by_create_time :: "nat \<Rightarrow> (comment_object \<Rightarrow> bool) \<Rightarrow> database \<Rightarrow> nat list" where
  "get_comments_by_create_time until P db =
     map fst (sort_key (\<lambda>r. co_created (snd r)) (filter (\<lambda>r. co_created (snd r) \<le> until \<and> P (snd r)) (indices (comments db))))"

definition set_rewarded_flag :: "nat \<Rightarrow> database \<Rightarrow> database res" where
  "set_rewarded_flag k db =
     bindE (ix_get (comments db) k) (\<lambda>c.
     if \<not> co_rewarded c then update_comment k (\<lambda>c. Inr (c\<lparr>co_rewarded := True\<rparr>)) db else Inr db)"

definition find_comment_vote :: "nat \<Rightarrow> nat \<Rightarrow> database \<Rightarrow> nat option" where
  "find_comment_vote comment voter db = ix_find_by (\<lambda>v. cv_comment v = comment \<and> cv_voter v = voter) (comment_votes db)"

definition get_comment_vote :: "nat \<Rightarrow> nat \<Rightarrow> database \<Rightarrow> nat res" where
  "get_comment_vote comment voter db = ix_get_by (\<lambda>v. cv_comment v = comment \<and> cv_voter v = voter) (comment_votes db)"

definition get_by_comment_weight_voter :: "nat \<Rightarrow> database \<Rightarrow> comment_vote_object list" where
  "get_by_comment_weight_voter comment db =
     sort_by (\<lambda>v w. cv_weight w < cv_weight v \<or> cv_weight v = cv_weight w \<and> cv_voter v < cv_voter w)
       (map snd (filter (\<lambda>r. cv_comment (snd r) = comment) (indices (comment_votes db))))"

definition create_comment_vote :: "comment_vote_object \<Rightarrow> database \<Rightarrow> database res" where
  "create_comment_vote v db =
     bindE (ix_emplace comment_vote_clash (\<lambda>_. Inr v) (comment_votes db)) (\<lambda>(k, ix). Inr (db\<lparr>comment_votes := ix\<rparr>))"

definition update_comment_vote :: "nat \<Rightarrow> (comment_vote_object \<Rightarrow> comment_vote_object) \<Rightarrow> database \<Rightarrow> database res" where
  "update_comment_vote k m db =
     bindE (ix_modify comment_vote_clash k (\<lambda>v. Inr (m v)) (comment_votes db)) (\<lambda>ix. Inr (db\<lparr>comment_votes := ix\<rparr>))"

definition remove_by_comment :: "nat \<Rightarrow> database \<Rightarrow> database res" where
  "remove_by_comment comment db =
     bindE (foldE ix_remove (map fst (sort_key (\<lambda>r. cv_voter (snd r)) (filter (\<lambda>r. cv_comment (snd r) = comment) (indices (comment_votes db)))))
              (comment_votes db)) (\<lambda>ix.
     Inr (db\<lparr>comment_votes := ix\<rparr>))"

definition new_blogging_statistic :: "nat \<Rightarrow> account_blogging_statistic_object" where
  "new_blogging_statistic account = \<lparr>bl_account = account, bl_post_count = 0, bl_comment_count = 0, bl_vote_count = 0,
     bl_curation_rewards_scr = SCR 0, bl_curation_rewards_sp = SP 0, bl_posting_rewards_scr = SCR 0, bl_posting_rewards_sp = SP 0\<rparr>"

definition obtain_statistic :: "nat \<Rightarrow> database \<Rightarrow> (nat \<times> database) res" where
  "obtain_statistic account db =
     (if ix_find_by (\<lambda>s. bl_account s = account) (blogging_statistics db) = None then
        bindE (ix_emplace blogging_statistic_clash (\<lambda>_. Inr (new_blogging_statistic account)) (blogging_statistics db)) (\<lambda>(k, ix).
        Inr (k, db\<lparr>blogging_statistics := ix\<rparr>))
      else bindE (ix_get_by (\<lambda>s. bl_account s = account) (blogging_statistics db)) (\<lambda>k. Inr (k, db)))"

definition update_statistic_row ::
  "nat \<Rightarrow> (account_blogging_statistic_object \<Rightarrow> account_blogging_statistic_object res) \<Rightarrow> database \<Rightarrow> database res" where
  "update_statistic_row k m db =
     bindE (ix_modify blogging_statistic_clash k m (blogging_statistics db)) (\<lambda>ix. Inr (db\<lparr>blogging_statistics := ix\<rparr>))"

definition statistic_add_post :: "nat \<Rightarrow> database \<Rightarrow> database res" where
  "statistic_add_post k db = update_statistic_row k (\<lambda>s. Inr (s\<lparr>bl_post_count := (bl_post_count s + 1) mod 2 ^ 32\<rparr>)) db"

definition statistic_add_comment :: "nat \<Rightarrow> database \<Rightarrow> database res" where
  "statistic_add_comment k db = update_statistic_row k (\<lambda>s. Inr (s\<lparr>bl_comment_count := (bl_comment_count s + 1) mod 2 ^ 32\<rparr>)) db"

definition statistic_add_vote :: "nat \<Rightarrow> database \<Rightarrow> database res" where
  "statistic_add_vote k db = update_statistic_row k (\<lambda>s. Inr (s\<lparr>bl_vote_count := (bl_vote_count s + 1) mod 2 ^ 32\<rparr>)) db"

definition increase_posting_rewards :: "ext_lib \<Rightarrow> nat \<Rightarrow> asset \<Rightarrow> database \<Rightarrow> database res" where
  "increase_posting_rewards F k reward db =
     (if symbol reward = SCORUM_SYMBOL then
        update_statistic_row k (\<lambda>s. bindE (asset_add F (bl_posting_rewards_scr s) reward) (\<lambda>x. Inr (s\<lparr>bl_posting_rewards_scr := x\<rparr>))) db
      else if symbol reward = SP_SYMBOL then
        update_statistic_row k (\<lambda>s. bindE (asset_add F (bl_posting_rewards_sp s) reward) (\<lambda>x. Inr (s\<lparr>bl_posting_rewards_sp := x\<rparr>))) db
      else Inr db)"

definition increase_curation_rewards :: "ext_lib \<Rightarrow> nat \<Rightarrow> asset \<Rightarrow> database \<Rightarrow> database res" where
  "increase_curation_rewards F k reward db =
     (if symbol reward = SCORUM_SYMBOL then
        update_statistic_row k (\<lambda>s. bindE (asset_add F (bl_curation_rewards_scr s) reward) (\<lambda>x. Inr (s\<lparr>bl_curation_rewards_scr := x\<rparr>))) db
      else if symbol reward = SP_SYMBOL then
        update_statistic_row k (\<lambda>s. bindE (asset_add F (bl_curation_rewards_sp s) reward) (\<lambda>x. Inr (s\<lparr>bl_curation_rewards_sp := x\<rparr>))) db
      else Inr db)"

section \<open>The voting power of an account\<close>

text \<open>The period is kept in microseconds by the code and in seconds here.\<close>

definition calculate_expected_restoring_time :: "ext_lib \<Rightarrow> nat \<Rightarrow> nat \<Rightarrow> nat \<Rightarrow> nat" where
  "calculate_expected_restoring_time F voting_power now vote_regeneration =
     (let time_offset_micro = cdiv (to_i64 (int vote_regeneration * 1000000 * (SCORUM_100_PERCENT - int voting_power))) SCORUM_100_PERCENT
      in time_add F now (nat (max 0 time_offset_micro div 1000000)))"

definition update_voting_power :: "ext_lib \<Rightarrow> config \<Rightarrow> nat \<Rightarrow> nat \<Rightarrow> database \<Rightarrow> database res" where
  "update_voting_power F cfg k voting_power db =
     bindE (account_at k db) (\<lambda>account.
     bindE (if voting_power < a_voting_power account then update_active_sp_holders_cashout_time F cfg k db else Inr db) (\<lambda>db.
     let t = head_block_time db in
     update_account k (\<lambda>a.
       bindE (effective_scorumpower F a) (\<lambda>sp.
       Inr (a\<lparr>a_voting_power := voting_power, a_last_vote_time := t,
              a_voting_power_restoring_time := calculate_expected_restoring_time F voting_power t (vote_regeneration_seconds cfg),
              a_vote_reward_competitive_sp := sp\<rparr>))) db))"

section \<open>Votes\<close>

definition SCORUM_VOTING_POWER_DECAY_PERCENT :: int where
  "SCORUM_VOTING_POWER_DECAY_PERCENT = 5"

definition SCORUM_VOTE_DUST_THRESHOLD :: int where
  "SCORUM_VOTE_DUST_THRESHOLD = 50"

definition get_weigth :: "int \<Rightarrow> database \<Rightarrow> int res" where
  "get_weigth percent_weight db =
     (if has_hardfork SCORUM_HARDFORK_0_2 db then
        bindE (fc_assert (\<bar>percent_weight\<bar> \<le> SCORUM_100_PERCENT) ''Weight is not a SCORUM percentage'') (\<lambda>_. Inr percent_weight)
      else
        bindE (fc_assert (\<bar>percent_weight\<bar> \<le> 100) ''Weight is not a SCORUM percentage'') (\<lambda>_. Inr (percent_weight * SCORUM_1_PERCENT)))"

text \<open>After the payout a vote is only remembered.\<close>

definition vote_after_payout :: "nat \<Rightarrow> nat \<Rightarrow> int \<Rightarrow> database \<Rightarrow> database res" where
  "vote_after_payout comment voter percent_weight db =
     (if find_comment_vote comment voter db = None then
        create_comment_vote \<lparr>cv_voter = voter, cv_comment = comment, cv_weight = 0, cv_rshares = 0, cv_vote_percent = percent_weight,
          cv_last_update = head_block_time db, cv_num_changes = 0\<rparr> db
      else
        bindE (get_comment_vote comment voter db) (\<lambda>i.
        update_comment_vote i (\<lambda>v. v\<lparr>cv_vote_percent := percent_weight, cv_last_update := head_block_time db\<rparr>) db))"

text \<open>A 32 bit counter.\<close>

definition wrap_i32 :: "int \<Rightarrow> int" where
  "wrap_i32 x = (x + 2 ^ 31) mod 2 ^ 32 - 2 ^ 31"

definition check_upvote_time :: "config \<Rightarrow> comment_object \<Rightarrow> database \<Rightarrow> unit res" where
  "check_upvote_time cfg c db =
     fc_assert (int (head_block_time db) < int (co_cashout_time c) - int (upvote_lockout cfg)) ''Cannot increase payout within last twelve hours before payout.''"

definition count_first_vote :: "ext_lib \<Rightarrow> nat \<Rightarrow> int \<Rightarrow> int \<Rightarrow> database \<Rightarrow> database res" where
  "count_first_vote F comment rshares abs_rshares db =
     update_comment comment (\<lambda>c.
       bindE (safe_add F (co_net_rshares c) rshares) (\<lambda>net.
       bindE (safe_add F (co_abs_rshares c) abs_rshares) (\<lambda>ab.
       bindE (if rshares > 0 then safe_add F (co_vote_rshares c) rshares else Inr (co_vote_rshares c)) (\<lambda>pos.
       Inr (c\<lparr>co_net_rshares := net, co_abs_rshares := ab, co_vote_rshares := pos,
              co_net_votes := wrap_i32 (if rshares > 0 then co_net_votes c + 1 else co_net_votes c - 1)\<rparr>))))) db"

definition touch_root :: "ext_lib \<Rightarrow> nat \<Rightarrow> int \<Rightarrow> database \<Rightarrow> database res" where
  "touch_root F root abs_rshares db =
     update_comment root (\<lambda>c. bindE (safe_add F (co_children_abs_rshares c) abs_rshares) (\<lambda>x. Inr (c\<lparr>co_children_abs_rshares := x\<rparr>))) db"

text \<open>The weight a vote adds to the comment and the part of it the voter gets.\<close>

definition curation_weights :: "ext_lib \<Rightarrow> config \<Rightarrow> comment_object \<Rightarrow> int \<Rightarrow> int \<Rightarrow> database \<Rightarrow> (int \<times> int) res" where
  "curation_weights F cfg c old_vote_rshares rshares db =
     (if rshares > 0 \<and> co_last_payout c = 0 \<and> co_allow_curation_rewards c then
        bindE (calculate_max_vote_weight F (co_vote_rshares c) old_vote_rshares (f_curation_reward_curve (fund_scr db))) (\<lambda>max_vote_weight.
        bindE (calculate_vote_weight F max_vote_weight (head_block_time db) (co_created c) (int (reverse_auction_window_seconds cfg))) (\<lambda>w.
        Inr (max_vote_weight, w)))
      else Inr (0, 0))"

definition first_vote :: "ext_lib \<Rightarrow> config \<Rightarrow> nat \<Rightarrow> nat \<Rightarrow> int \<Rightarrow> int \<Rightarrow> int \<Rightarrow> nat \<Rightarrow> database \<Rightarrow> database res" where
  "first_vote F cfg comment voter percent_weight rshares abs_rshares new_power db =
     bindE (ix_get (comments db) comment) (\<lambda>c.
     bindE (fc_assert (percent_weight \<noteq> 0) ''Vote weight cannot be 0.'') (\<lambda>_.
     bindE (if rshares > 0 then check_upvote_time cfg c db else Inr ()) (\<lambda>_.
     bindE (update_voting_power F cfg voter new_power db) (\<lambda>db.
     bindE (ix_get (comments db) (co_root_comment c)) (\<lambda>_.
     bindE (fc_assert (abs_rshares > 0) ''Cannot vote with 0 rshares.'') (\<lambda>_.
     let old_vote_rshares = co_vote_rshares c in
     bindE (count_first_vote F comment rshares abs_rshares db) (\<lambda>db.
     bindE (touch_root F (co_root_comment c) abs_rshares db) (\<lambda>db.
     bindE (ix_get (comments db) comment) (\<lambda>c.
     bindE (curation_weights F cfg c old_vote_rshares rshares db) (\<lambda>(max_vote_weight, w).
     bindE (create_comment_vote \<lparr>cv_voter = voter, cv_comment = comment, cv_weight = word_of_int w, cv_rshares = rshares,
              cv_vote_percent = percent_weight, cv_last_update = head_block_time db, cv_num_changes = 0\<rparr> db) (\<lambda>db.
     bindE (obtain_statistic voter db) (\<lambda>(s, db).
     bindE (statistic_add_vote s db) (\<lambda>db.
     if max_vote_weight \<noteq> 0
     then update_comment comment (\<lambda>c. Inr (c\<lparr>co_total_vote_weight := co_total_vote_weight c + word_of_int max_vote_weight\<rparr>)) db
     else Inr db)))))))))))))"

definition net_votes_change :: "int \<Rightarrow> int \<Rightarrow> int" where
  "net_votes_change old_rshares rshares =
     (if rshares > 0 \<and> old_rshares < 0 then 2
      else if rshares > 0 \<and> old_rshares = 0 then 1
      else if rshares = 0 \<and> old_rshares < 0 then 1
      else if rshares = 0 \<and> old_rshares > 0 then - 1
      else if rshares < 0 \<and> old_rshares = 0 then - 1
      else if rshares < 0 \<and> old_rshares > 0 then - 2 else 0)"

definition count_changed_vote :: "ext_lib \<Rightarrow> nat \<Rightarrow> int \<Rightarrow> int \<Rightarrow> int \<Rightarrow> database \<Rightarrow> database res" where
  "count_changed_vote F comment old_rshares rshares abs_rshares db =
     update_comment comment (\<lambda>c.
       bindE (safe_sub F (co_net_rshares c) old_rshares) (\<lambda>net.
       bindE (safe_add F net rshares) (\<lambda>net.
       bindE (safe_add F (co_abs_rshares c) abs_rshares) (\<lambda>ab.
       Inr (c\<lparr>co_net_rshares := net, co_abs_rshares := ab, co_net_votes := wrap_i32 (co_net_votes c + net_votes_change old_rshares rshares)\<rparr>))))) db"

definition change_vote :: "ext_lib \<Rightarrow> config \<Rightarrow> nat \<Rightarrow> nat \<Rightarrow> int \<Rightarrow> int \<Rightarrow> int \<Rightarrow> nat \<Rightarrow> database \<Rightarrow> database res" where
  "change_vote F cfg comment voter percent_weight rshares abs_rshares new_power db =
     bindE (ix_get (comments db) comment) (\<lambda>c.
     bindE (get_comment_vote comment voter db) (\<lambda>i.
     bindE (ix_get (comment_votes db) i) (\<lambda>v.
     bindE (fc_assert (cv_num_changes v \<noteq> - 1) ''Cannot vote again on a comment after payout.'') (\<lambda>_.
     bindE (fc_assert (cv_num_changes v < int SCORUM_MAX_VOTE_CHANGES) ''Voter has used the maximum number of vote changes on this comment.'') (\<lambda>_.
     bindE (fc_assert (cv_vote_percent v \<noteq> percent_weight) ''You have already voted in a similar way.'') (\<lambda>_.
     bindE (if cv_rshares v < rshares then check_upvote_time cfg c db else Inr ()) (\<lambda>_.
     bindE (update_voting_power F cfg voter new_power db) (\<lambda>db.
     bindE (ix_get (comments db) (co_root_comment c)) (\<lambda>_.
     bindE (count_changed_vote F comment (cv_rshares v) rshares abs_rshares db) (\<lambda>db.
     bindE (touch_root F (co_root_comment c) abs_rshares db) (\<lambda>db.
     bindE (update_comment comment (\<lambda>c. Inr (c\<lparr>co_total_vote_weight := co_total_vote_weight c - cv_weight v\<rparr>)) db) (\<lambda>db.
     update_comment_vote i (\<lambda>v. v\<lparr>cv_rshares := rshares, cv_vote_percent := percent_weight, cv_last_update := head_block_time db, cv_weight := 0,
       cv_num_changes := cv_num_changes v + 1\<rparr>) db))))))))))))"

text \<open>The shares of a vote: the power it uses, times the effective scorum power of the voter.\<close>

definition vote_shares :: "ext_lib \<Rightarrow> config \<Rightarrow> account_object \<Rightarrow> int \<Rightarrow> database \<Rightarrow> (int \<times> int \<times> nat) res" where
  "vote_shares F cfg voter percent_weight db =
     bindE (fc_assert (time_diff F (head_block_time db) (a_last_vote_time voter) \<ge> int (min_vote_interval_sec cfg)) ''Can only vote once every 3 seconds.'') (\<lambda>_.
     bindE (calculate_restoring_power F (int (a_voting_power voter)) (head_block_time db) (a_last_vote_time voter) (int (vote_regeneration_seconds cfg))) (\<lambda>current_power.
     bindE (fc_assert (current_power > 0) ''Account currently does not have voting power.'') (\<lambda>_.
     bindE (calculate_used_power current_power percent_weight SCORUM_VOTING_POWER_DECAY_PERCENT) (\<lambda>used_power.
     bindE (fc_assert (used_power \<le> current_power) ''Account does not have enough power to vote.'') (\<lambda>_.
     bindE (effective_scorumpower F voter) (\<lambda>sp.
     bindE (calculate_abs_reward_shares F used_power (amount sp)) (\<lambda>abs_rshares.
     bindE (fc_assert (abs_rshares > SCORUM_VOTE_DUST_THRESHOLD \<or> percent_weight = 0) ''Voting weight is too small, please accumulate more voting power or scorum power.'') (\<lambda>_.
     bindE (if percent_weight < 0 then safe_neg F abs_rshares else Inr abs_rshares) (\<lambda>rshares.
     Inr (rshares, abs_rshares, nat (current_power - used_power)))))))))))"

definition vote_apply :: "ext_lib \<Rightarrow> config \<Rightarrow> account_name \<Rightarrow> account_name \<Rightarrow> string \<Rightarrow> int \<Rightarrow> database \<Rightarrow> database res" where
  "vote_apply F cfg voter_name author permlink o_weight db =
     bindE (get_comment author permlink db) (\<lambda>comment.
     bindE (ix_get (comments db) comment) (\<lambda>c.
     bindE (get_account voter_name db) (\<lambda>voter.
     bindE (account_at voter db) (\<lambda>acc.
     bindE (fc_assert (\<not> (a_owner_challenged acc \<or> a_active_challenged acc)) ''Operation cannot be processed because the account is currently challenged.'') (\<lambda>_.
     bindE (fc_assert (a_can_vote acc) ''Voter has declined their voting rights.'') (\<lambda>_.
     bindE (get_weigth o_weight db) (\<lambda>percent_weight.
     bindE (if percent_weight > 0 then fc_assert (co_allow_votes c) ''Votes are not allowed on the comment.'' else Inr ()) (\<lambda>_.
     if co_cashout_time c = time_maximum then vote_after_payout comment voter percent_weight db
     else
       bindE (vote_shares F cfg acc percent_weight db) (\<lambda>(rshares, abs_rshares, new_power).
       if find_comment_vote comment voter db = None then first_vote F cfg comment voter percent_weight rshares abs_rshares new_power db
       else change_vote F cfg comment voter percent_weight rshares abs_rshares new_power db)))))))))"

section \<open>Comments\<close>

definition SCORUM_MIN_PERMLINK_LENGTH :: nat where
  "SCORUM_MIN_PERMLINK_LENGTH = 0"

definition SCORUM_MAX_COMMENT_DEPTH :: nat where
  "SCORUM_MAX_COMMENT_DEPTH = 6"

definition SCORUM_MIN_ROOT_COMMENT_INTERVAL :: int where
  "SCORUM_MIN_ROOT_COMMENT_INTERVAL = 5 * 60"

definition SCORUM_MIN_REPLY_INTERVAL :: int where
  "SCORUM_MIN_REPLY_INTERVAL = 20"

definition validate_permlink_0_1 :: "string \<Rightarrow> unit res" where
  "validate_permlink_0_1 permlink =
     bindE (fc_assert (length permlink > SCORUM_MIN_PERMLINK_LENGTH \<and> length permlink < SCORUM_MAX_PERMLINK_LENGTH) ''Permlink is not a valid size.'') (\<lambda>_.
     fc_assert (list_all (\<lambda>ch. is_lower ch \<or> is_digit ch \<or> ch = CHR ''-'') permlink) ''Invalid permlink character'')"

text \<open>
  The loop over the ancestors of a comment: it follows the parents until a root post, and would not end on a circle of
  comments. It returns \<open>None\<close> then.
\<close>

partial_function (option) for_all_parents :: "(comment_object \<Rightarrow> comment_object) \<Rightarrow> account_name \<Rightarrow> string \<Rightarrow> database \<Rightarrow> database res option" where
  "for_all_parents m parent_author parent_permlink db =
     (if parent_author = SCORUM_ROOT_POST_PARENT_ACCOUNT then Some (Inr db)
      else
        case get_comment parent_author parent_permlink db of
          Inl e \<Rightarrow> Some (Inl e)
        | Inr k \<Rightarrow>
        (case ix_get (comments db) k of
          Inl e \<Rightarrow> Some (Inl e)
        | Inr parent \<Rightarrow>
        (case update_comment k (\<lambda>p. Inr (m p)) db of
          Inl e \<Rightarrow> Some (Inl e)
        | Inr db' \<Rightarrow> for_all_parents m (co_parent_author parent) (co_parent_permlink parent) db')))"

definition add_child :: "nat \<Rightarrow> comment_object \<Rightarrow> comment_object" where
  "add_child now p = p\<lparr>co_children := (co_children p + 1) mod 2 ^ 32, co_active := now\<rparr>"

definition drop_child :: "nat \<Rightarrow> comment_object \<Rightarrow> comment_object" where
  "drop_child now p = p\<lparr>co_children := (co_children p + (2 ^ 32 - 1)) mod 2 ^ 32, co_active := now\<rparr>"

definition new_statistic :: "nat \<Rightarrow> u64 \<Rightarrow> comment_statistic_object" where
  "new_statistic comment s = (let z = \<lparr>amount = 0, symbol = s\<rparr> in
     \<lparr>cs_comment = comment, cs_total_payout_value = z, cs_author_payout_value = z, cs_curator_payout_value = z,
      cs_beneficiary_payout_value = z, cs_fund_reward_value = z, cs_from_children_payout_value = z, cs_to_parent_payout_value = z\<rparr>)"

definition new_comment :: "ext_lib \<Rightarrow> config \<Rightarrow> account_name \<Rightarrow> string \<Rightarrow> string \<Rightarrow> string \<Rightarrow> string \<Rightarrow> nat \<Rightarrow> comment_object" where
  "new_comment F cfg author permlink title body json_metadata now =
     \<lparr>co_category = [], co_parent_author = [], co_parent_permlink = [], co_author = author, co_permlink = permlink, co_title = title,
      co_body = (if length body < 1024 * 1024 * 128 then body else []), co_json_metadata = json_metadata, co_last_update = now, co_created = now, co_active = now, co_last_payout = 0,
      co_depth = 0, co_children = 0, co_net_rshares = 0, co_abs_rshares = 0, co_vote_rshares = 0, co_children_abs_rshares = 0,
      co_cashout_time = time_add F now (cashout_window_seconds cfg), co_total_vote_weight = 0, co_net_votes = 0, co_root_comment = 0,
      co_max_accepted_payout = asset_maximum SCORUM_SYMBOL, co_allow_replies = True, co_allow_votes = True, co_allow_curation_rewards = True,
      co_beneficiaries = [], co_rewarded = False\<rparr>"

text \<open>The place of a comment: below its parent, or at the root with the permlink of the parent as its category.\<close>

definition place_comment :: "comment_object option \<Rightarrow> string \<Rightarrow> nat \<Rightarrow> comment_object \<Rightarrow> comment_object" where
  "place_comment parent parent_permlink k com =
     (case parent of
        None \<Rightarrow> com\<lparr>co_parent_author := [], co_parent_permlink := parent_permlink, co_category := parent_permlink, co_root_comment := k\<rparr>
      | Some p \<Rightarrow> com\<lparr>co_parent_author := co_author p, co_parent_permlink := co_permlink p, co_depth := (co_depth p + 1) mod 2 ^ 16,
          co_category := co_category p, co_root_comment := co_root_comment p\<rparr>)"

definition get_parent :: "account_name \<Rightarrow> string \<Rightarrow> database \<Rightarrow> comment_object option res" where
  "get_parent parent_author parent_permlink db =
     (if parent_author = SCORUM_ROOT_POST_PARENT_ACCOUNT then Inr None
      else bindE (get_comment parent_author parent_permlink db) (\<lambda>k. bindE (ix_get (comments db) k) (\<lambda>p. Inr (Some p))))"

definition check_post_interval :: "ext_lib \<Rightarrow> comment_object option \<Rightarrow> account_object \<Rightarrow> database \<Rightarrow> unit res" where
  "check_post_interval F parent auth db =
     (case parent of
        Some p \<Rightarrow>
          bindE (ix_get (comments db) (co_root_comment p)) (\<lambda>root.
          bindE (fc_assert (co_allow_replies root) ''The parent comment has disabled replies.'') (\<lambda>_.
          fc_assert (time_diff F (head_block_time db) (a_last_post auth) > SCORUM_MIN_REPLY_INTERVAL) ''You may only comment once every 20 seconds.''))
      | None \<Rightarrow>
          fc_assert (time_diff F (head_block_time db) (a_last_root_post auth) > SCORUM_MIN_ROOT_COMMENT_INTERVAL) ''You may only post once every 5 minutes.'')"

definition create_statistics :: "nat \<Rightarrow> database \<Rightarrow> database res" where
  "create_statistics comment db =
     bindE (ix_emplace comment_statistic_clash (\<lambda>_. Inr (new_statistic comment SCORUM_SYMBOL)) (comment_statistics_scr db)) (\<lambda>(i, ix).
     bindE (ix_emplace comment_statistic_clash (\<lambda>_. Inr (new_statistic comment SP_SYMBOL)) (comment_statistics_sp db)) (\<lambda>(j, iy).
     Inr (db\<lparr>comment_statistics_scr := ix, comment_statistics_sp := iy\<rparr>)))"

text \<open>What precedes the loop over the parents: the new comment, its statistics and the counters of its author.\<close>

definition create_comment ::
  "ext_lib \<Rightarrow> config \<Rightarrow> nat \<Rightarrow> account_object \<Rightarrow> account_name \<Rightarrow> string \<Rightarrow> comment_object option \<Rightarrow> account_name \<Rightarrow> string \<Rightarrow> string \<Rightarrow> string \<Rightarrow> string \<Rightarrow> database \<Rightarrow> database res" where
  "create_comment F cfg auth_id auth parent_author parent_permlink parent author permlink title body json_metadata db =
     bindE (check_post_interval F parent auth db) (\<lambda>_.
     bindE (add_post auth_id parent_author db) (\<lambda>db.
     bindE (validate_permlink_0_1 parent_permlink) (\<lambda>_.
     bindE (validate_permlink_0_1 permlink) (\<lambda>_.
     bindE (ix_emplace comment_clash (\<lambda>k. Inr (place_comment parent parent_permlink k
              (new_comment F cfg author permlink title body json_metadata (head_block_time db)))) (comments db)) (\<lambda>(k, ix).
     bindE (create_statistics k (db\<lparr>comments := ix\<rparr>)) (\<lambda>db.
     bindE (obtain_statistic auth_id db) (\<lambda>(s, db).
     bindE (statistic_add_post s db) (\<lambda>db.
     if parent_author \<noteq> SCORUM_ROOT_POST_PARENT_ACCOUNT then statistic_add_comment s db else Inr db))))))))"

text \<open>
  The edit of a comment. The body is a patch or the new text: what \<^verbatim>\<open>diff_match_patch\<close> makes of the old body and the text
  of the operation is the argument \<open>patch\<close>, \<open>None\<close> when the text is not a patch or cannot be applied.
\<close>

definition edit_comment ::
  "(string \<Rightarrow> string \<Rightarrow> string option) \<Rightarrow> nat \<Rightarrow> account_name \<Rightarrow> string \<Rightarrow> string \<Rightarrow> string \<Rightarrow> string \<Rightarrow> database \<Rightarrow> database res" where
  "edit_comment patch k parent_author parent_permlink title body json_metadata db =
     update_comment k (\<lambda>com.
       let com = com\<lparr>co_last_update := head_block_time db, co_active := head_block_time db\<rparr> in
       bindE (fc_assert (co_parent_author com = parent_author) ''The parent of a comment cannot be changed.'') (\<lambda>_.
       bindE (fc_assert (co_parent_permlink com = parent_permlink) ''The permlink of a comment cannot change.'') (\<lambda>_.
       let com = (if title \<noteq> [] then com\<lparr>co_title := title\<rparr> else com);
           com = (if json_metadata \<noteq> [] then com\<lparr>co_json_metadata := json_metadata\<rparr> else com)
       in Inr (if body \<noteq> [] then com\<lparr>co_body := (case patch body (co_body com) of Some patched \<Rightarrow> patched | None \<Rightarrow> body)\<rparr> else com)))) db"

definition comment_apply ::
  "ext_lib \<Rightarrow> config \<Rightarrow> (string \<Rightarrow> string \<Rightarrow> string option) \<Rightarrow> account_name \<Rightarrow> string \<Rightarrow> account_name \<Rightarrow> string \<Rightarrow> string \<Rightarrow> string \<Rightarrow> string
   \<Rightarrow> database \<Rightarrow> database res option" where
  "comment_apply F cfg patch parent_author parent_permlink author permlink title body json_metadata db =
     (case bindE (fc_assert (length title + length body + length json_metadata \<noteq> 0) ''Cannot update comment because nothing appears to be changing.'') (\<lambda>_.
           bindE (get_account author db) (\<lambda>auth_id.
           bindE (account_at auth_id db) (\<lambda>auth.
           bindE (fc_assert (\<not> (a_owner_challenged auth \<or> a_active_challenged auth)) ''Operation cannot be processed because account is currently challenged.'') (\<lambda>_.
           bindE (get_parent parent_author parent_permlink db) (\<lambda>parent.
           bindE (case parent of Some p \<Rightarrow> fc_assert (co_depth p < SCORUM_MAX_COMMENT_DEPTH) ''Comment is nested too deep.'' | None \<Rightarrow> Inr ()) (\<lambda>_.
           case find_comment author permlink db of
             None \<Rightarrow> create_comment F cfg auth_id auth parent_author parent_permlink parent author permlink title body json_metadata db
           | Some k \<Rightarrow> edit_comment patch k parent_author parent_permlink title body json_metadata db)))))) of
        Inl e \<Rightarrow> Some (Inl e)
      | Inr db' \<Rightarrow>
          if find_comment author permlink db = None
          then for_all_parents (add_child (head_block_time db)) parent_author parent_permlink db'
          else Some (Inr db'))"

definition comment_options_apply ::
  "account_name \<Rightarrow> string \<Rightarrow> asset \<Rightarrow> bool \<Rightarrow> bool \<Rightarrow> (account_name \<times> nat) list list \<Rightarrow> database \<Rightarrow> database res" where
  "comment_options_apply author permlink max_accepted_payout allow_votes allow_curation_rewards extensions db =
     bindE (get_account author db) (\<lambda>auth_id.
     bindE (account_at auth_id db) (\<lambda>auth.
     bindE (fc_assert (\<not> (a_owner_challenged auth \<or> a_active_challenged auth)) ''Operation cannot be processed because account is currently challenged.'') (\<lambda>_.
     bindE (get_comment author permlink db) (\<lambda>k.
     bindE (ix_get (comments db) k) (\<lambda>c.
     bindE (if \<not> allow_curation_rewards \<or> \<not> allow_votes then Inr True else asset_lt max_accepted_payout (co_max_accepted_payout c)) (\<lambda>restricts.
     bindE (if restricts then fc_assert (co_abs_rshares c = 0) ''One of the included comment options requires the comment to have no rshares allocated to it.'' else Inr ()) (\<lambda>_.
     bindE (fc_assert (co_allow_curation_rewards c \<ge> allow_curation_rewards) ''Curation rewards cannot be re-enabled.'') (\<lambda>_.
     bindE (fc_assert (co_allow_votes c \<ge> allow_votes) ''Voting cannot be re-enabled.'') (\<lambda>_.
     bindE (assertE (asset_ge (co_max_accepted_payout c) max_accepted_payout) ''A comment cannot accept a greater payout.'') (\<lambda>_.
     bindE (update_comment k (\<lambda>c. Inr (c\<lparr>co_max_accepted_payout := max_accepted_payout, co_allow_votes := allow_votes,
              co_allow_curation_rewards := allow_curation_rewards\<rparr>)) db) (\<lambda>db.
     foldE (\<lambda>beneficiaries db.
       bindE (ix_get (comments db) k) (\<lambda>c.
       bindE (fc_assert (length (co_beneficiaries c) = 0) ''Comment already has beneficiaries specified.'') (\<lambda>_.
       bindE (fc_assert (co_abs_rshares c = 0) ''Comment must not have been voted on before specifying beneficiaries.'') (\<lambda>_.
       update_comment k (\<lambda>c. bindE (check_accounts_existence beneficiaries db) (\<lambda>_. Inr (c\<lparr>co_beneficiaries := co_beneficiaries c @ beneficiaries\<rparr>))) db))))
       extensions db)))))))))))"

definition delete_comment_apply :: "account_name \<Rightarrow> string \<Rightarrow> database \<Rightarrow> database res option" where
  "delete_comment_apply author permlink db =
     (case bindE (get_account author db) (\<lambda>auth_id.
           bindE (account_at auth_id db) (\<lambda>auth.
           bindE (fc_assert (\<not> (a_owner_challenged auth \<or> a_active_challenged auth)) ''Operation cannot be processed because account is currently challenged.'') (\<lambda>_.
           bindE (get_comment author permlink db) (\<lambda>k.
           bindE (ix_get (comments db) k) (\<lambda>c.
           bindE (fc_assert (co_children c = 0) ''Cannot delete a comment with replies.'') (\<lambda>_.
           bindE (fc_assert (co_cashout_time c \<noteq> time_maximum) '''') (\<lambda>_.
           bindE (fc_assert (co_net_rshares c \<le> 0) ''Cannot delete a comment with net positive votes.'') (\<lambda>_.
           bindE (remove_by_comment k db) (\<lambda>db.
           Inr (k, c, db)))))))))) of
        Inl e \<Rightarrow> Some (Inl e)
      | Inr (k, c, db) \<Rightarrow>
        (case for_all_parents (drop_child (head_block_time db)) (co_parent_author c) (co_parent_permlink c) db of
           None \<Rightarrow> None
         | Some (Inl e) \<Rightarrow> Some (Inl e)
         | Some (Inr db) \<Rightarrow> Some (bindE (ix_remove k (comments db)) (\<lambda>ix. Inr (db\<lparr>comments := ix\<rparr>)))))"

end
