(* ===== verification/Vote_Ledger.thy ===== *)
theory Vote_Ledger
  imports Comments Rewards_Shares Unique_Keys Sample_Config
begin

text \<open>
  The books of the votes. The net shares of a comment are the sum over its votes, the weights of the curators add up to at
  most the total vote weight of the comment, and that total, which the code keeps in 64 bits and changes by unsigned additions
  and subtractions, never wraps. Votes, comments, their options and their deletion keep this.
\<close>

section \<open>The invariant\<close>

definition shares_on :: "nat \<Rightarrow> database \<Rightarrow> int" where
  "shares_on k db = row_sum (\<lambda>v. if cv_comment v = k then cv_rshares v else 0) (indices (comment_votes db))"

definition weights_on :: "nat \<Rightarrow> database \<Rightarrow> int" where
  "weights_on k db = row_sum (\<lambda>v. if cv_comment v = k then uint (cv_weight v) else 0) (indices (comment_votes db))"

abbreviation curation_curve :: "database \<Rightarrow> curve_id" where
  "curation_curve db \<equiv> f_curation_reward_curve (fund_scr db)"

definition tallied :: "ext_lib \<Rightarrow> nat \<Rightarrow> comment_object \<Rightarrow> database \<Rightarrow> bool" where
  "tallied F k c db \<longleftrightarrow>
     co_net_rshares c = shares_on k db \<and>
     (co_cashout_time c \<noteq> time_maximum \<longrightarrow>
        0 \<le> co_vote_rshares c \<and> co_vote_rshares c < 2 ^ 63 \<and>
        weights_on k db \<le> uint (co_total_vote_weight c) \<and>
        uint (co_total_vote_weight c) \<le> curve_weight F (curation_curve db) (co_vote_rshares c))"

text \<open>The comments in \<open>X\<close> are exempt: the one that is being deleted has lost its votes already.\<close>

definition votes_ok :: "ext_lib \<Rightarrow> nat set \<Rightarrow> database \<Rightarrow> bool" where
  "votes_ok F X db \<longleftrightarrow>
     table_ok comment_clash (comments db) \<and> table_ok comment_vote_clash (comment_votes db) \<and>
     curation_curve db \<in> {Linear, Square_root} \<and>
     (\<forall>i v. map_of (indices (comment_votes db)) i = Some v \<longrightarrow> map_of (indices (comments db)) (cv_comment v) \<noteq> None) \<and>
     (\<forall>k c. map_of (indices (comments db)) k = Some c \<longrightarrow> k \<notin> X \<longrightarrow> tallied F k c db)"

lemma comment_clash_sym: "comment_clash a b \<Longrightarrow> comment_clash b a" "comment_vote_clash v w \<Longrightarrow> comment_vote_clash w v"
  by (simp_all add: comment_clash_def comment_vote_clash_def)

lemma weights_nonneg: "0 \<le> weights_on k db"
  unfolding weights_on_def by (rule row_sum_nonneg) simp

lemma weight_within:
  assumes "map_of (indices (comment_votes db)) i = Some v"
  shows "uint (cv_weight v) \<le> weights_on (cv_comment v) db"
  unfolding weights_on_def
  using row_sum_ge_member [OF assms, of "\<lambda>w. if cv_comment w = cv_comment v then uint (cv_weight w) else 0"] by simp

section \<open>Changes of one comment\<close>

text \<open>
  \<open>counts k dn dv dw db db'\<close>: the votes are the same, and the comments are the same in what the votes count, but that
  the shares and the total weight of \<open>k\<close> have changed by the given amounts.
\<close>

definition shifted :: "int \<Rightarrow> int \<Rightarrow> u64 \<Rightarrow> comment_object \<Rightarrow> comment_object \<Rightarrow> bool" where
  "shifted dn dv dw c c' \<longleftrightarrow>
     co_net_rshares c' = co_net_rshares c + dn \<and> co_vote_rshares c' = co_vote_rshares c + dv \<and>
     co_total_vote_weight c' = co_total_vote_weight c + dw \<and> co_cashout_time c' = co_cashout_time c"

definition counts :: "nat \<Rightarrow> int \<Rightarrow> int \<Rightarrow> u64 \<Rightarrow> database \<Rightarrow> database \<Rightarrow> bool" where
  "counts k dn dv dw db db' \<longleftrightarrow>
     comment_votes db' = comment_votes db \<and> curation_curve db' = curation_curve db \<and>
     (table_ok comment_clash (comments db) \<longrightarrow> table_ok comment_clash (comments db')) \<and>
     (\<forall>j. rel_option (if j = k then shifted dn dv dw else shifted 0 0 0) (map_of (indices (comments db)) j) (map_of (indices (comments db')) j))"

abbreviation quiet :: "database \<Rightarrow> database \<Rightarrow> bool" where
  "quiet \<equiv> counts 0 0 0 0"

lemma quiet_counts: "quiet db db' \<longleftrightarrow> counts k 0 0 0 db db'"
  by (simp add: counts_def)

lemma rel_option_compose:
  "rel_option R a b \<Longrightarrow> rel_option S b c \<Longrightarrow> (\<And>x y z. R x y \<Longrightarrow> S y z \<Longrightarrow> T x z) \<Longrightarrow> rel_option T a c"
  by (cases a; cases b; cases c) auto

lemma counts_trans:
  assumes "counts k a b w db db1" and "counts k a' b' w' db1 db2"
  shows "counts k (a + a') (b + b') (w + w') db db2"
proof -
  have "rel_option (if j = k then shifted (a + a') (b + b') (w + w') else shifted 0 0 0)
      (map_of (indices (comments db)) j) (map_of (indices (comments db2)) j)" for j
  proof (rule rel_option_compose)
    show "rel_option (if j = k then shifted a b w else shifted 0 0 0) (map_of (indices (comments db)) j) (map_of (indices (comments db1)) j)"
      using assms(1) by (simp add: counts_def)
    show "rel_option (if j = k then shifted a' b' w' else shifted 0 0 0) (map_of (indices (comments db1)) j) (map_of (indices (comments db2)) j)"
      using assms(2) by (simp add: counts_def)
  qed (simp add: shifted_def split: if_splits)
  then show ?thesis using assms by (simp add: counts_def)
qed

lemma quiet_trans: "quiet db db1 \<Longrightarrow> quiet db1 db2 \<Longrightarrow> quiet db db2"
  using counts_trans [of 0 0 0 0 db db1 0 0 0 db2] by simp

lemma quiet_same:
  "comments db' = comments db \<Longrightarrow> comment_votes db' = comment_votes db \<Longrightarrow> curation_curve db' = curation_curve db \<Longrightarrow> quiet db db'"
  by (auto simp: counts_def shifted_def option.rel_refl)

lemma update_comment_counts:
  assumes "update_comment k m db = Inr db'" and "\<And>c c'. m c = Inr c' \<Longrightarrow> shifted dn dv dw c c'"
  shows "counts k dn dv dw db db'"
proof -
  from assms(1) obtain ix where ix: "ix_modify comment_clash k m (comments db) = Inr ix" and db': "db' = db\<lparr>comments := ix\<rparr>"
    by (auto simp: update_comment_def bindE_Inr_iff)
  from ix obtain c c' where m: "m c = Inr c'" and "map_of (indices (comments db)) k = Some c" "indices ix = put_row k c' (indices (comments db))"
    by (auto simp: ix_modify_eq_Inr)
  moreover have "shifted dn dv dw c c'" by (rule assms(2) [OF m])
  ultimately have "rel_option (if j = k then shifted dn dv dw else shifted 0 0 0) (map_of (indices (comments db)) j) (map_of (indices ix) j)" for j
    by (auto simp: shifted_def option.rel_refl)
  then show ?thesis using table_modify [OF _ ix comment_clash_sym(1)] by (auto simp: counts_def db')
qed

text \<open>Changes that leave shares, weights and the time of the payout alone.\<close>

lemma update_comment_quiet:
  assumes "update_comment k m db = Inr db'" and "\<And>c c'. m c = Inr c' \<Longrightarrow> shifted 0 0 0 c c'"
  shows "quiet db db'"
  using update_comment_counts [OF assms] by (simp add: quiet_counts [of _ _ k])

lemma counts_row:
  assumes "counts k dn dv dw db db'" and "map_of (indices (comments db')) j = Some c'"
  obtains c where "map_of (indices (comments db)) j = Some c" "if j = k then shifted dn dv dw c c' else shifted 0 0 0 c c'"
proof -
  have "rel_option (if j = k then shifted dn dv dw else shifted 0 0 0) (map_of (indices (comments db)) j) (map_of (indices (comments db')) j)"
    using assms(1) by (simp add: counts_def)
  then show thesis using assms(2) that by (cases "map_of (indices (comments db)) j") (auto split: if_splits)
qed

lemma counts_ids:
  assumes "counts k dn dv dw db db'" and "map_of (indices (comments db)) j \<noteq> None"
  shows "map_of (indices (comments db')) j \<noteq> None"
proof -
  have "rel_option (if j = k then shifted dn dv dw else shifted 0 0 0) (map_of (indices (comments db)) j) (map_of (indices (comments db')) j)"
    using assms(1) by (simp add: counts_def)
  then show ?thesis using assms(2) by (cases "map_of (indices (comments db')) j") (auto split: if_splits)
qed

lemma quiet_votes_ok:
  assumes "quiet db db'" and "votes_ok F X db"
  shows "votes_ok F X db'"
proof -
  have v: "comment_votes db' = comment_votes db" "curation_curve db' = curation_curve db" using assms(1) by (simp_all add: counts_def)
  have "tallied F k c' db'" if r: "map_of (indices (comments db')) k = Some c'" "k \<notin> X" for k c'
  proof -
    obtain c where c: "map_of (indices (comments db)) k = Some c" "shifted 0 0 0 c c'" using counts_row [OF assms(1) r(1)] by (metis (full_types))
    then have "tallied F k c db" using assms(2) r(2) by (simp add: votes_ok_def)
    then show ?thesis using c(2) v by (simp add: tallied_def shifted_def shares_on_def weights_on_def)
  qed
  then show ?thesis using assms counts_ids [OF assms(1)] v by (auto simp: votes_ok_def counts_def)
qed

lemmas votes_frame = update_voting_power_def update_active_sp_holders_cashout_time_def update_account_def account_at_def obtain_statistic_def
  statistic_add_vote_def statistic_add_post_def statistic_add_comment_def update_statistic_row_def bindE_Inr_iff

lemma voting_power_quiet: "update_voting_power F cfg k p db = Inr db' \<Longrightarrow> quiet db db'"
  by (rule quiet_same) (auto simp: votes_frame Let_def split: if_splits)

lemma statistic_quiet:
  "obtain_statistic k db = Inr (s, db') \<Longrightarrow> quiet db db'"
  "statistic_add_vote s db = Inr db' \<Longrightarrow> quiet db db'"
  "statistic_add_post s db = Inr db' \<Longrightarrow> quiet db db'"
  "statistic_add_comment s db = Inr db' \<Longrightarrow> quiet db db'"
  by (rule quiet_same; auto simp: votes_frame split: if_splits prod.splits)+

lemma touch_root_quiet: "ext_ok F \<Longrightarrow> touch_root F r a db = Inr db' \<Longrightarrow> quiet db db'"
  unfolding touch_root_def by (erule update_comment_quiet) (auto simp: bindE_Inr_iff shifted_def)

section \<open>A first vote\<close>

lemma vote_weight_within:
  assumes F: "ext_ok F" and m: "0 \<le> m" "m < 2 ^ 64" and w: "calculate_vote_weight F m now created window = Inr w"
  shows "0 \<le> w" and "w \<le> m"
proof -
  let ?n = "window mod 2 ^ 32" and ?d = "min (time_diff F now created) (window mod 2 ^ 32)"
  from w have t: "created \<le> now" "0 < ?n" and u: "(word_of_int ?n :: u128) \<noteq> 0"
    "w = uint ((word_of_int m * word_of_int ?d) div (word_of_int ?n) :: u128)"
    by (auto simp: calculate_vote_weight_def bindE_Inr_iff fc_assert_Inr_iff Let_def u128_eqs [OF F])
  have n: "?n < 2 ^ 32" by simp
  have d: "0 \<le> ?d" "?d \<le> ?n" using t F by (auto simp: ext_ok_def time_ok_def)
  have "m * ?d \<le> 2 ^ 64 * 2 ^ 32" using m d n by (intro mult_mono) auto
  then have "uint (word_of_int (m * ?d) :: u128) = m * ?d" using m d by (intro uint_of_int_u128) auto
  then have p: "uint (word_of_int m * word_of_int ?d :: u128) = m * ?d" unfolding wi_hom_mult .
  have q: "uint (word_of_int ?n :: u128) = ?n" using t n by (intro uint_of_int_u128) simp_all
  have "w = m * ?d div ?n" unfolding u(2) uint_div_distrib p q by (rule refl)
  then show "0 \<le> w" "w \<le> m" using part_bounds [of m ?d ?n] m d t by simp_all
qed

text \<open>The weight a vote adds and the part of the voter: the total stays within the curve of the shares.\<close>

lemma curation_weights_bounds:
  assumes F: "ext_ok F" and r: "curation_weights F cfg c old rshares db = Inr (mw, w)" and cv: "curation_curve db \<in> {Linear, Square_root}"
    and s: "0 \<le> old" "co_vote_rshares c = old + max 0 rshares" "co_vote_rshares c < 2 ^ 63"
  shows "0 \<le> w" and "w \<le> mw" and "curve_weight F (curation_curve db) old + mw \<le> curve_weight F (curation_curve db) (co_vote_rshares c)"
proof -
  let ?cw = "curve_weight F (curation_curve db)"
  have mono: "?cw old \<le> ?cw (co_vote_rshares c)" using s by (intro curve_weight_mono [OF F cv]) auto
  have "0 \<le> w \<and> w \<le> mw \<and> ?cw old + mw \<le> ?cw (co_vote_rshares c)"
  proof (cases "rshares > 0 \<and> co_last_payout c = 0 \<and> co_allow_curation_rewards c")
    case True
    with r obtain mw where m: "calculate_max_vote_weight F (co_vote_rshares c) old (curation_curve db) = Inr mw"
      and w: "calculate_vote_weight F mw (head_block_time db) (co_created c) (int (reverse_auction_window_seconds cfg)) = Inr w"
      and e: "curation_weights F cfg c old rshares db = Inr (mw, w)"
      by (auto simp: curation_weights_def bindE_Inr_iff)
    have mv: "mw = ?cw (co_vote_rshares c) - ?cw old" using m max_vote_weight_value [OF F cv, of old "co_vote_rshares c"] s True by simp
    have "old < 2 ^ 63" using s by simp
    then have "0 \<le> mw" "mw < 2 ^ 64"
      using mv mono curve_weight_bounds [OF F cv, of old] curve_weight_bounds [OF F cv, of "co_vote_rshares c"] s by auto
    from vote_weight_within [OF F this w] show ?thesis using e r mv by simp
  qed (use r mono in \<open>auto simp: curation_weights_def\<close>)
  then show "0 \<le> w" "w \<le> mw" "?cw old + mw \<le> ?cw (co_vote_rshares c)" by simp_all
qed


lemma count_first_counts:
  assumes "ext_ok F" and "count_first_vote F k r a db = Inr db'"
  shows "counts k r (max 0 r) 0 db db'"
  using assms(2) unfolding count_first_vote_def
  by (rule update_comment_counts) (auto simp: bindE_Inr_iff shifted_def safe_iffs [OF assms(1)] split: if_splits)

lemma count_first_range:
  assumes "ext_ok F" and "count_first_vote F k r a db = Inr db'" and "map_of (indices (comments db')) k = Some c" and "0 < r"
  shows "co_vote_rshares c < 2 ^ 63"
  using assms by (auto simp: count_first_vote_def update_comment_def ix_modify_eq_Inr bindE_Inr_iff safe_iffs in_i64_def)

text \<open>What a first vote does, in one step.\<close>

lemma first_vote_steps:
  assumes F: "ext_ok F" and r: "first_vote F cfg k voter pw rs a p db = Inr db'"
  obtains db1 db2 c mw w v where "counts k rs (max 0 rs) 0 db db1" "map_of (indices (comments db1)) k = Some c"
    "0 < rs \<longrightarrow> co_vote_rshares c < 2 ^ 63"
    "curation_weights F cfg c (co_vote_rshares c - max 0 rs) rs db1 = Inr (mw, w)"
    "create_comment_vote v db1 = Inr db2" "cv_comment v = k" "cv_rshares v = rs" "cv_weight v = word_of_int w"
    "counts k 0 0 (word_of_int mw) db2 db'"
proof -
  from r obtain c0 dba dbb dbc c mw w dbd s dbe dbf where c0: "map_of (indices (comments db)) k = Some c0"
    and 1: "update_voting_power F cfg voter p db = Inr dba" and 2: "count_first_vote F k rs a dba = Inr dbb"
    and 3: "touch_root F (co_root_comment c0) a dbb = Inr dbc" and c: "map_of (indices (comments dbc)) k = Some c"
    and cw: "curation_weights F cfg c (co_vote_rshares c0) rs dbc = Inr (mw, w)"
    and 4: "create_comment_vote \<lparr>cv_voter = voter, cv_comment = k, cv_weight = word_of_int w, cv_rshares = rs,
              cv_vote_percent = pw, cv_last_update = head_block_time dbc, cv_num_changes = 0\<rparr> dbc = Inr dbd"
    and 5: "obtain_statistic voter dbd = Inr (s, dbe)" and 6: "statistic_add_vote s dbe = Inr dbf"
    and 7: "(if mw \<noteq> 0 then update_comment k (\<lambda>c. Inr (c\<lparr>co_total_vote_weight := co_total_vote_weight c + word_of_int mw\<rparr>)) dbf else Inr dbf) = Inr db'"
    unfolding first_vote_def by (auto simp: bindE_Inr_iff ix_get_iff Let_def)
  have q: "counts k 0 0 0 db dba" "counts k 0 0 0 dbb dbc" "counts k 0 0 0 dbd dbf"
    using voting_power_quiet [OF 1] touch_root_quiet [OF F 3] quiet_trans [OF statistic_quiet(1) [OF 5] statistic_quiet(2) [OF 6]]
    by (simp_all add: quiet_counts [of _ _ k])
  have up: "counts k rs (max 0 rs) 0 db dbc"
    using counts_trans [OF q(1) counts_trans [OF count_first_counts [OF F 2] q(2)]] by simp
  have "counts k 0 0 (word_of_int mw) dbf db'"
  proof (cases "mw = 0")
    case False
    then show ?thesis using 7 update_comment_counts [of k "\<lambda>c. Inr (c\<lparr>co_total_vote_weight := co_total_vote_weight c + word_of_int mw\<rparr>)" dbf db' 0 0 "word_of_int mw"]
      by (simp add: shifted_def)
  next
    case True
    then show ?thesis using 7 quiet_same [of db' dbf] quiet_counts [of dbf db' k] by simp
  qed
  from counts_trans [OF q(3) this] have down: "counts k 0 0 (word_of_int mw) dbd db'" by simp
  have old: "co_vote_rshares c0 = co_vote_rshares c - max 0 rs"
    by (rule counts_row [OF up c]) (use c0 in \<open>simp add: shifted_def\<close>)
  have "co_vote_rshares c < 2 ^ 63" if "0 < rs"
  proof -
    obtain c1 where "map_of (indices (comments dbb)) k = Some c1" "shifted 0 0 0 c1 c" by (rule counts_row [OF q(2) c]) simp
    then show ?thesis using count_first_range [OF F 2 _ that] by (auto simp: shifted_def)
  qed
  then show thesis using that [OF up c _ _ 4 _ _ _ down] cw old by simp
qed


section \<open>The votes keep the books\<close>

lemma word_sum_within: "uint (a :: u64) + x < 2 ^ 64 \<Longrightarrow> 0 \<le> x \<Longrightarrow> uint (a + word_of_int x) = uint a + x"
  by (simp add: uint_word_ariths uint_word_of_int mod_simps)

lemma word_diff_within: "uint (b :: u64) \<le> uint a \<Longrightarrow> uint (a - b) = uint a - uint b"
  by (simp add: uint_sub_if')

text \<open>
  A vote on \<open>k\<close> that is put into the table, in place of an old one or as a new one, and changes of the comment that fit: the shares
  change by the same amount, and the total weight by at least as much as the weight of the vote.
\<close>

lemma vote_put_ok:
  assumes ok: "votes_ok F X db" and k: "map_of (indices (comments db)) k = Some c" "k \<notin> X" and t: "co_cashout_time c \<noteq> time_maximum"
    and com: "\<And>j. rel_option (if j = k then shifted dn dv dw else shifted 0 0 0) (map_of (indices (comments db)) j) (map_of (indices (comments db')) j)"
    and tab: "table_ok comment_clash (comments db')" "table_ok comment_vote_clash (comment_votes db')" and cv: "curation_curve db' = curation_curve db"
    and votes: "indices (comment_votes db') = put_row i v (indices (comment_votes db))" "cv_comment v = k"
    and shares: "\<And>j. shares_on j db' = shares_on j db + (if j = k then dn else 0)"
    and weights: "\<And>j. weights_on j db' = weights_on j db + (if j = k then y else 0)"
    and total: "0 \<le> co_vote_rshares c + dv" "co_vote_rshares c + dv < 2 ^ 63" "y \<le> uint (co_total_vote_weight c + dw) - uint (co_total_vote_weight c)"
      "uint (co_total_vote_weight c + dw) \<le> curve_weight F (curation_curve db) (co_vote_rshares c + dv)"
  shows "votes_ok F X db'"
proof -
  have ids: "map_of (indices (comments db')) j = None \<longleftrightarrow> map_of (indices (comments db)) j = None" for j
    using com [of j] by (cases "map_of (indices (comments db)) j"; cases "map_of (indices (comments db')) j") auto
  have "tallied F j c' db'" if r: "map_of (indices (comments db')) j = Some c'" "j \<notin> X" for j c'
  proof (cases "j = k")
    case True
    then have "shifted dn dv dw c c'" using com [of k] k r(1) by simp
    moreover have "tallied F k c db" using ok k by (simp add: votes_ok_def)
    ultimately show ?thesis using True shares [of k] weights [of k] total cv t by (simp add: tallied_def shifted_def)
  next
    case False
    then obtain c0 where c0: "map_of (indices (comments db)) j = Some c0" "shifted 0 0 0 c0 c'"
      using com [of j] r(1) by (cases "map_of (indices (comments db)) j") auto
    then have "tallied F j c0 db" using ok r(2) by (simp add: votes_ok_def)
    then show ?thesis using c0(2) False shares [of j] weights [of j] cv by (simp add: tallied_def shifted_def)
  qed
  then show ?thesis using ok tab cv votes k ids by (auto simp: votes_ok_def split: if_splits)
qed

lemma first_vote_ok:
  assumes F: "ext_ok F" and r: "first_vote F cfg k voter pw rs a p db = Inr db'" and ok: "votes_ok F {} db"
    and k: "map_of (indices (comments db)) k = Some c0" and t: "co_cashout_time c0 \<noteq> time_maximum"
  shows "votes_ok F {} db'"
proof -
  obtain db1 db2 c mw w v where 1: "counts k rs (max 0 rs) 0 db db1" "map_of (indices (comments db1)) k = Some c"
    and range: "0 < rs \<longrightarrow> co_vote_rshares c < 2 ^ 63" and cw: "curation_weights F cfg c (co_vote_rshares c - max 0 rs) rs db1 = Inr (mw, w)"
    and 2: "create_comment_vote v db1 = Inr db2" "cv_comment v = k" "cv_rshares v = rs" "cv_weight v = word_of_int w"
    and 3: "counts k 0 0 (word_of_int mw) db2 db'" by (rule first_vote_steps [OF F r])
  let ?cw = "curve_weight F (curation_curve db)" and ?old = "co_vote_rshares c0" and ?new = "co_vote_rshares c"
  have c: "shifted rs (max 0 rs) 0 c0 c" by (rule counts_row [OF 1]) (use k in simp)
  then have new: "?new = ?old + max 0 rs" by (simp add: shifted_def)
  have cv1: "curation_curve db1 = curation_curve db" and v1: "comment_votes db1 = comment_votes db" using 1(1) by (simp_all add: counts_def)
  have cv: "curation_curve db \<in> {Linear, Square_root}" using ok by (simp add: votes_ok_def)
  have tal: "tallied F k c0 db" using ok k by (simp add: votes_ok_def)
  then have old: "0 \<le> ?old" "?old < 2 ^ 63" "uint (co_total_vote_weight c0) \<le> ?cw ?old" using t by (simp_all add: tallied_def)
  have r63: "?new < 2 ^ 63" using range old new by (cases "0 < rs") auto
  from curation_weights_bounds [OF F cw] have w: "0 \<le> w" "w \<le> mw" "?cw ?old + mw \<le> ?cw ?new" using cv cv1 old new r63 by auto
  have "?cw ?new < 2 ^ 64" using curve_weight_bounds [OF F cv, of ?new] old new r63 by simp
  then have sum: "uint (co_total_vote_weight c0 + word_of_int mw) = uint (co_total_vote_weight c0) + mw"
    using word_sum_within [of "co_total_vote_weight c0" mw] old(3) w by simp
  have "uint (co_total_vote_weight c0 + word_of_int mw) < 2 ^ 64" using uint_lt2p [of "co_total_vote_weight c0 + word_of_int mw :: u64"] by simp
  then have "w < 2 ^ 64" using w(2) sum uint_ge_0 [of "co_total_vote_weight c0"] by linarith
  then have w64: "uint (word_of_int w :: u64) = w" using w(1) by (simp add: uint_word_of_int)
  from 2(1) obtain i ix where e: "ix_emplace comment_vote_clash (\<lambda>_. Inr v) (comment_votes db1) = Inr (i, ix)" and db2: "db2 = db1\<lparr>comment_votes := ix\<rparr>"
    by (auto simp: create_comment_vote_def bindE_Inr_iff)
  have ix: "indices ix = put_row i v (indices (comment_votes db))" "i \<notin> fst ` set (indices (comment_votes db))" using e v1 by (auto simp: ix_emplace_eq_Inr)
  have v': "comment_votes db' = ix" "curation_curve db' = curation_curve db" using 3 cv1 by (simp_all add: counts_def db2)
  have "counts k rs (max 0 rs) (word_of_int mw) (db\<lparr>comment_votes := ix\<rparr>) db'"
    using counts_trans [of k rs "max 0 rs" 0 "db\<lparr>comment_votes := ix\<rparr>" db2 0 0 "word_of_int mw" db'] 1(1) 3 by (simp add: counts_def db2)
  then show ?thesis
    using vote_put_ok [OF ok k _ t, of rs "max 0 rs" "word_of_int mw" db' i v w] 2 v' ix w w64 sum new old r63 e ok v1
      table_emplace [OF _ e comment_clash_sym(2)]
    by (simp add: counts_def shares_on_def weights_on_def row_sum_put_new votes_ok_def)
qed


lemma changed_counts:
  assumes "ext_ok F" and "count_changed_vote F k old r a db = Inr db'"
  shows "counts k (r - old) 0 0 db db'"
  using assms(2) unfolding count_changed_vote_def
  by (rule update_comment_counts) (auto simp: bindE_Inr_iff shifted_def safe_iffs [OF assms(1)])

lemma change_vote_ok:
  assumes F: "ext_ok F" and r: "change_vote F cfg k voter pw rs a p db = Inr db'" and ok: "votes_ok F {} db"
    and k: "map_of (indices (comments db)) k = Some c0" and t: "co_cashout_time c0 \<noteq> time_maximum"
  shows "votes_ok F {} db'"
proof -
  from r obtain i v dba dbb dbc dbd m where i: "get_comment_vote k voter db = Inr i" and v: "map_of (indices (comment_votes db)) i = Some v"
    and 1: "update_voting_power F cfg voter p db = Inr dba" and 2: "count_changed_vote F k (cv_rshares v) rs a dba = Inr dbb"
    and 3: "touch_root F (co_root_comment c0) a dbb = Inr dbc"
    and 4: "update_comment k (\<lambda>c. Inr (c\<lparr>co_total_vote_weight := co_total_vote_weight c - cv_weight v\<rparr>)) dbc = Inr dbd"
    and 5: "update_comment_vote i m dbd = Inr db'" and m: "cv_comment (m v) = cv_comment v" "cv_rshares (m v) = rs" "cv_weight (m v) = 0"
    unfolding change_vote_def using k by (auto simp: bindE_Inr_iff ix_get_iff)
  have kv: "cv_comment v = k"
    by (rule table_get_by [OF i [unfolded get_comment_vote_def]]) (use ok v in \<open>auto simp: votes_ok_def table_ok_def\<close>)
  have q: "counts k 0 0 0 db dba" "counts k 0 0 0 dbb dbc" "counts k 0 0 (- cv_weight v) dbc dbd"
    using voting_power_quiet [OF 1] touch_root_quiet [OF F 3] update_comment_counts [OF 4, of 0 0 "- cv_weight v"]
    by (simp_all add: quiet_counts [of _ _ k] shifted_def)
  have c: "counts k (rs - cv_rshares v) 0 (- cv_weight v) db dbd"
    using counts_trans [OF q(1) counts_trans [OF changed_counts [OF F 2] counts_trans [OF q(2,3)]]] by simp
  then have vd: "comment_votes dbd = comment_votes db" "curation_curve dbd = curation_curve db" by (simp_all add: counts_def)
  from 5 obtain ix where mo: "ix_modify comment_vote_clash i (\<lambda>v. Inr (m v)) (comment_votes db) = Inr ix" and db': "db' = dbd\<lparr>comment_votes := ix\<rparr>"
    by (auto simp: update_comment_vote_def bindE_Inr_iff vd)
  have ix: "indices ix = put_row i (m v) (indices (comment_votes db))" using mo v by (auto simp: ix_modify_eq_Inr)
  have tv: "table_ok comment_vote_clash (comment_votes db)" using ok by (simp add: votes_ok_def)
  note sums = row_sum_put_old [OF _ v, of _ "m v"]
  have tal: "tallied F k c0 db" using ok k by (simp add: votes_ok_def)
  then have le: "uint (cv_weight v) \<le> uint (co_total_vote_weight c0)" using weight_within [OF v] t kv by (simp add: tallied_def)
  have srt: "sorted_rows (indices (comment_votes db))" using tv by (simp add: table_ok_def wf_index_def)
  show ?thesis
  proof (rule vote_put_ok [OF ok k _ t])
    show "rel_option (if j = k then shifted (rs - cv_rshares v) 0 (- cv_weight v) else shifted 0 0 0)
        (map_of (indices (comments db)) j) (map_of (indices (comments db')) j)" for j
      using c by (simp add: counts_def db')
    show "table_ok comment_clash (comments db')" "table_ok comment_vote_clash (comment_votes db')"
      using c ok table_modify [OF tv mo comment_clash_sym(2)] by (simp_all add: counts_def votes_ok_def db')
    show "indices (comment_votes db') = put_row i (m v) (indices (comment_votes db))" "cv_comment (m v) = k" "curation_curve db' = curation_curve db"
      using ix m kv vd by (simp_all add: db')
    show "shares_on j db' = shares_on j db + (if j = k then rs - cv_rshares v else 0)"
      "weights_on j db' = weights_on j db + (if j = k then - uint (cv_weight v) else 0)" for j
      using sums [OF srt] m kv by (simp_all add: shares_on_def weights_on_def db' ix)
    show "uint (co_total_vote_weight c0 + - cv_weight v) \<le> curve_weight F (curation_curve db) (co_vote_rshares c0 + 0)"
      using tal t word_diff_within [OF le] order_trans [OF diff_left_mono [OF uint_ge_0, of "uint (co_total_vote_weight c0)" "cv_weight v"]]
      by (simp add: tallied_def)
  qed (use tal t le word_diff_within [OF le] in \<open>simp_all add: tallied_def\<close>)
qed

text \<open>A vote after the payout is remembered without shares and weight.\<close>

lemma late_vote_ok:
  assumes r: "vote_after_payout k voter pw db = Inr db'" and ok: "votes_ok F {} db" and k: "map_of (indices (comments db)) k = Some c"
  shows "votes_ok F {} db'"
proof -
  obtain ix where db': "db' = db\<lparr>comment_votes := ix\<rparr>" and t: "table_ok comment_vote_clash ix"
    and refs: "\<And>i v. map_of (indices ix) i = Some v \<Longrightarrow> map_of (indices (comments db)) (cv_comment v) \<noteq> None"
    and sums: "\<And>f. f \<in> {(\<lambda>v. if cv_comment v = j then cv_rshares v else 0) | j. True} \<union> {(\<lambda>v. if cv_comment v = j then uint (cv_weight v) else 0) | j. True}
       \<Longrightarrow> row_sum f (indices ix) = row_sum f (indices (comment_votes db))"
  proof (cases "find_comment_vote k voter db")
    case None
    let ?v = "\<lparr>cv_voter = voter, cv_comment = k, cv_weight = 0, cv_rshares = 0, cv_vote_percent = pw, cv_last_update = head_block_time db, cv_num_changes = 0\<rparr>"
    from r None obtain i ix where e: "ix_emplace comment_vote_clash (\<lambda>_. Inr ?v) (comment_votes db) = Inr (i, ix)" and d: "db' = db\<lparr>comment_votes := ix\<rparr>"
      by (auto simp: vote_after_payout_def create_comment_vote_def bindE_Inr_iff)
    show thesis by (rule that [OF d table_emplace [OF _ e comment_clash_sym(2)]]) (use e ok k in \<open>auto simp: ix_emplace_eq_Inr row_sum_put_new votes_ok_def split: if_splits\<close>)
  next
    case (Some j)
    let ?m = "\<lambda>v. v\<lparr>cv_vote_percent := pw, cv_last_update := head_block_time db\<rparr>"
    from r Some obtain i ix where e: "ix_modify comment_vote_clash i (\<lambda>v. Inr (?m v)) (comment_votes db) = Inr ix" and d: "db' = db\<lparr>comment_votes := ix\<rparr>"
      by (auto simp: vote_after_payout_def update_comment_vote_def bindE_Inr_iff)
    show thesis by (rule that [OF d table_modify [OF _ e comment_clash_sym(2)]])
      (use e ok k in \<open>auto simp: ix_modify_eq_Inr row_sum_put_old votes_ok_def table_ok_def wf_index_def split: if_splits\<close>)
  qed
  have "shares_on j db' = shares_on j db" "weights_on j db' = weights_on j db" for j
    using sums by (auto simp: shares_on_def weights_on_def db')
  then show ?thesis using ok t refs by (auto simp: votes_ok_def tallied_def db')
qed

lemma vote_apply_ok:
  assumes F: "ext_ok F" and r: "vote_apply F cfg voter author permlink pw db = Inr db'" and ok: "votes_ok F {} db"
  shows "votes_ok F {} db'"
proof -
  from r obtain k c v w acc where k: "map_of (indices (comments db)) k = Some c"
    and s: "(if co_cashout_time c = time_maximum then vote_after_payout k v w db
      else bindE (vote_shares F cfg acc w db) (\<lambda>(rs, a, p).
        if find_comment_vote k v db = None then first_vote F cfg k v w rs a p db else change_vote F cfg k v w rs a p db)) = Inr db'"
    unfolding vote_apply_def bindE_Inr_iff ix_get_iff by blast
  show ?thesis
  proof (cases "co_cashout_time c = time_maximum")
    case True
    then show ?thesis using s late_vote_ok [OF _ ok k] by simp
  next
    case False
    then show ?thesis using s first_vote_ok [OF F _ ok k False] change_vote_ok [OF F _ ok k False] by (auto simp: bindE_Inr_iff split: if_splits)
  qed
qed


section \<open>Comments keep the books\<close>

lemma for_all_parents_quiet:
  assumes "for_all_parents m pa pp db = Some (Inr db')" and "\<And>c. shifted 0 0 0 c (m c)"
  shows "quiet db db'"
proof -
  let ?P = "\<lambda>m (pa :: account_name) (pp :: string) db (y :: database res). (\<forall>c. shifted 0 0 0 c (m c)) \<longrightarrow> (\<forall>db'. y = Inr db' \<longrightarrow> quiet db db')"
  have "?P m pa pp db (Inr db')"
  proof (rule for_all_parents.raw_induct [where P = ?P, OF _ assms(1)])
    fix rec m pa pp db y
    assume IH: "\<And>m pa pp db y. rec m pa pp db = Some y \<Longrightarrow> ?P m pa pp db y"
      and r: "(if pa = SCORUM_ROOT_POST_PARENT_ACCOUNT then Some (Inr db)
      else case get_comment pa pp db of Inl e \<Rightarrow> Some (Inl e) | Inr k \<Rightarrow>
        (case ix_get (comments db) k of Inl e \<Rightarrow> Some (Inl e) | Inr parent \<Rightarrow>
        (case update_comment k (\<lambda>p. Inr (m p)) db of Inl e \<Rightarrow> Some (Inl e)
        | Inr db' \<Rightarrow> rec m (co_parent_author parent) (co_parent_permlink parent) db'))) = Some y"
    have "quiet db db'" if m: "\<forall>c. shifted 0 0 0 c (m c)" and y: "y = Inr db'" for db'
    proof (cases "pa = SCORUM_ROOT_POST_PARENT_ACCOUNT")
      case False
      with r y obtain k and p :: comment_object and db1 where u: "update_comment k (\<lambda>p. Inr (m p)) db = Inr db1"
        and n: "rec m (co_parent_author p) (co_parent_permlink p) db1 = Some (Inr db')" by (auto split: sum.splits)
      have "quiet db db1" by (rule update_comment_quiet [OF u]) (use m in auto)
      then show ?thesis using IH [OF n] m quiet_trans by blast
    qed (use r y in \<open>simp add: quiet_same\<close>)
    then show "?P m pa pp db y" by blast
  qed
  then show ?thesis using assms(2) by blast
qed

lemma child_shifted: "shifted 0 0 0 c (add_child t c)" "shifted 0 0 0 c (drop_child t c)"
  by (simp_all add: shifted_def add_child_def drop_child_def)

text \<open>A new comment has a new id, so that no vote is about it yet.\<close>

lemma new_comment_ok:
  assumes ok: "votes_ok F {} db" and e: "ix_emplace comment_clash f (comments db) = Inr (k, ix)"
    and f: "\<And>c. f k = Inr c \<Longrightarrow> co_net_rshares c = 0 \<and> co_vote_rshares c = 0 \<and> co_total_vote_weight c = 0" and F: "ext_ok F"
  shows "votes_ok F {} (db\<lparr>comments := ix\<rparr>)"
proof -
  from e obtain c where c: "f k = Inr c" "indices ix = put_row k c (indices (comments db))" and new: "map_of (indices (comments db)) k = None"
    by (auto simp: ix_emplace_eq_Inr map_of_eq_None_rows)
  have none: "cv_comment v \<noteq> k" if "(i, v) \<in> set (indices (comment_votes db))" for i v
  proof
    assume "cv_comment v = k"
    moreover have "map_of (indices (comment_votes db)) i = Some v" using ok that table_ok_row [of comment_vote_clash "comment_votes db" "(i, v)"] by (simp add: votes_ok_def)
    ultimately show False using ok new unfolding votes_ok_def by blast
  qed
  have z: "shares_on k db = 0" "weights_on k db = 0" unfolding shares_on_def weights_on_def by (rule row_sum_zero; use none in fastforce)+
  have cv: "curation_curve db \<in> {Linear, Square_root}" using ok by (simp add: votes_ok_def)
  have "tallied F k c db" using f [OF c(1)] z curve_weight_bounds(1) [OF F cv, of 0] by (simp add: tallied_def)
  then have "tallied F j c' db" if "map_of (indices ix) j = Some c'" for j c'
    using that c(2) ok by (auto simp: votes_ok_def split: if_splits)
  then have "tallied F j c' (db\<lparr>comments := ix\<rparr>)" if "map_of (indices ix) j = Some c'" for j c'
    using that by (simp add: tallied_def shares_on_def weights_on_def)
  moreover have "table_ok comment_clash ix" using table_emplace [OF _ e comment_clash_sym(1)] ok by (simp add: votes_ok_def)
  ultimately show ?thesis using ok c(2) by (simp add: votes_ok_def)
qed

lemma create_comment_ok:
  assumes F: "ext_ok F" and r: "create_comment F cfg i auth pa pp parent author permlink title body js db = Inr db'" and ok: "votes_ok F {} db"
  shows "votes_ok F {} db'"
proof -
  from r obtain db1 k ix db2 s db3 db4 where 1: "add_post i pa db = Inr db1"
    and 2: "ix_emplace comment_clash (\<lambda>k. Inr (place_comment parent pp k (new_comment F cfg author permlink title body js (head_block_time db1)))) (comments db1) = Inr (k, ix)"
    and 3: "create_statistics k (db1\<lparr>comments := ix\<rparr>) = Inr db2" and 4: "obtain_statistic i db2 = Inr (s, db3)" and 5: "statistic_add_post s db3 = Inr db4"
    and 6: "(if pa \<noteq> SCORUM_ROOT_POST_PARENT_ACCOUNT then statistic_add_comment s db4 else Inr db4) = Inr db'"
    unfolding create_comment_def by (auto simp: bindE_Inr_iff)
  have "quiet db db1" using 1 by (intro quiet_same) (auto simp: add_post_def votes_frame Let_def split: if_splits)
  from new_comment_ok [OF quiet_votes_ok [OF this ok] 2 _ F] have "votes_ok F {} (db1\<lparr>comments := ix\<rparr>)"
    by (auto simp: place_comment_def new_comment_def split: option.splits)
  moreover have "quiet (db1\<lparr>comments := ix\<rparr>) db2" using 3 by (intro quiet_same) (auto simp: create_statistics_def bindE_Inr_iff)
  moreover have "quiet db4 db'" using 6 statistic_quiet(4) [of s db4 db'] by (auto split: if_splits intro: quiet_same)
  ultimately show ?thesis using statistic_quiet(1) [OF 4] statistic_quiet(3) [OF 5] quiet_votes_ok by blast
qed

lemma edit_quiet: "edit_comment patch k pa pp title body js db = Inr db' \<Longrightarrow> quiet db db'"
  unfolding edit_comment_def by (erule update_comment_quiet) (auto simp: bindE_Inr_iff shifted_def Let_def split: if_splits)

lemma comment_apply_ok:
  assumes F: "ext_ok F" and r: "comment_apply F cfg patch pa pp author permlink title body js db = Some (Inr db')" and ok: "votes_ok F {} db"
  shows "votes_ok F {} db'"
proof -
  from r obtain i auth parent db1 where 1: "(case find_comment author permlink db of
             None \<Rightarrow> create_comment F cfg i auth pa pp parent author permlink title body js db
           | Some k \<Rightarrow> edit_comment patch k pa pp title body js db) = Inr db1"
    and 2: "(if find_comment author permlink db = None then for_all_parents (add_child (head_block_time db)) pa pp db1 else Some (Inr db1)) = Some (Inr db')"
    unfolding comment_apply_def by (auto simp: bindE_Inr_iff split: sum.splits)
  have "votes_ok F {} db1" using 1 create_comment_ok [OF F _ ok] quiet_votes_ok [OF edit_quiet ok] by (auto split: option.splits)
  then show ?thesis using 2 quiet_votes_ok [OF for_all_parents_quiet] child_shifted(1) by (auto split: if_splits)
qed

lemma comment_options_quiet:
  assumes "comment_options_apply author permlink mx av ac ext db = Inr db'"
  shows "quiet db db'"
proof -
  let ?f = "\<lambda>k beneficiaries db.
       bindE (ix_get (comments db) k) (\<lambda>c.
       bindE (fc_assert (length (co_beneficiaries c) = 0) ''Comment already has beneficiaries specified.'') (\<lambda>_.
       bindE (fc_assert (co_abs_rshares c = 0) ''Comment must not have been voted on before specifying beneficiaries.'') (\<lambda>_.
       update_comment k (\<lambda>c. bindE (check_accounts_existence beneficiaries db) (\<lambda>_. Inr (c\<lparr>co_beneficiaries := co_beneficiaries c @ beneficiaries\<rparr>))) db)))"
  from assms obtain k db1 where 1: "update_comment k (\<lambda>c. Inr (c\<lparr>co_max_accepted_payout := mx, co_allow_votes := av, co_allow_curation_rewards := ac\<rparr>)) db = Inr db1"
    and 2: "foldE (?f k) ext db1 = Inr db'"
    unfolding comment_options_apply_def bindE_Inr_iff by blast
  have step: "quiet dba dbb" if "?f k b dba = Inr dbb" for b dba dbb
  proof -
    from that have "update_comment k (\<lambda>c. bindE (check_accounts_existence b dba) (\<lambda>_. Inr (c\<lparr>co_beneficiaries := co_beneficiaries c @ b\<rparr>))) dba = Inr dbb"
      by (auto simp: bindE_Inr_iff)
    then show ?thesis by (rule update_comment_quiet) (auto simp: bindE_Inr_iff shifted_def)
  qed
  have "quiet db1 db'" using 2
  proof (induction ext arbitrary: db1)
    case (Cons b ext)
    then show ?case using step quiet_trans by (simp only: foldE.simps bindE_Inr_iff) blast
  qed (simp add: quiet_same)
  moreover have "quiet db db1" by (rule update_comment_quiet [OF 1]) (auto simp: shifted_def)
  ultimately show ?thesis using quiet_trans by blast
qed


text \<open>A comment that is deleted takes its votes along.\<close>

lemma row_sum_drop_all:
  assumes "sorted_rows rs" and "\<And>k v. k \<in> set ks \<Longrightarrow> map_of rs k = Some v \<Longrightarrow> f v = 0"
  shows "row_sum f (drop_all ks rs) = row_sum f rs"
  using assms
proof (induction ks arbitrary: rs)
  case (Cons k ks)
  have "row_sum f (drop_row k rs) = row_sum f rs"
  proof (cases "map_of rs k")
    case None
    then show ?thesis by (simp add: map_of_eq_None_rows drop_row_id)
  qed (use Cons.prems row_sum_drop [of rs k _ f] in auto)
  moreover have "row_sum f (drop_all ks (drop_row k rs)) = row_sum f (drop_row k rs)"
    using Cons.prems by (intro Cons.IH) (auto split: if_splits)
  ultimately show ?case by simp
qed simp

lemma table_remove_all: "foldE ix_remove ks ix = Inr ix' \<Longrightarrow> table_ok clash ix \<Longrightarrow> table_ok clash ix'"
  by (induction ks arbitrary: ix) (auto simp: bindE_Inr_iff dest: table_remove)

lemma remove_votes_ok:
  assumes r: "remove_by_comment k db = Inr db'" and ok: "votes_ok F {} db"
  shows "votes_ok F {k} db'" and "\<And>i v. map_of (indices (comment_votes db')) i = Some v \<Longrightarrow> cv_comment v \<noteq> k" and "comments db' = comments db"
proof -
  let ?rs = "indices (comment_votes db)"
  let ?ks = "map fst (sort_key (\<lambda>r. cv_voter (snd r)) (filter (\<lambda>r. cv_comment (snd r) = k) ?rs))"
  from r obtain ix where ix: "foldE ix_remove ?ks (comment_votes db) = Inr ix" and db': "db' = db\<lparr>comment_votes := ix\<rparr>"
    by (auto simp: remove_by_comment_def bindE_Inr_iff)
  have t: "table_ok comment_vote_clash (comment_votes db)" using ok by (simp add: votes_ok_def)
  have rows: "indices ix = drop_all ?ks ?rs" using foldE_remove_eq [OF ix] by simp
  have ks: "i \<in> set ?ks \<longleftrightarrow> cv_comment v = k" if "map_of ?rs i = Some v" for i v
  proof -
    have u: "r \<in> set ?rs \<Longrightarrow> fst r = i \<Longrightarrow> snd r = v" for r using that table_ok_row [OF t, of r] by simp
    have "i \<in> set ?ks \<longleftrightarrow> (\<exists>r \<in> set ?rs. fst r = i \<and> cv_comment (snd r) = k)" by auto
    then show ?thesis using u map_of_SomeD [OF that] by (metis fst_conv snd_conv)
  qed
  have tt: "table_ok comment_vote_clash ix"
    by (rule table_remove_all [OF ix t])
  have "row_sum f (indices ix) = row_sum f ?rs" if "\<And>v. cv_comment v = k \<Longrightarrow> f v = 0" for f
    unfolding rows using that ks t by (intro row_sum_drop_all) (auto simp: table_ok_def wf_index_def)
  then have "shares_on j db' = shares_on j db" "weights_on j db' = weights_on j db" if "j \<noteq> k" for j
    using that by (simp_all add: shares_on_def weights_on_def db')
  then show "votes_ok F {k} db'" using ok tt by (auto simp: votes_ok_def tallied_def db' rows map_of_drop_all split: if_splits)
  show "cv_comment v \<noteq> k" if "map_of (indices (comment_votes db')) i = Some v" for i v
    using that ks by (auto simp: db' rows map_of_drop_all split: if_splits)
  show "comments db' = comments db" by (simp add: db')
qed

lemma delete_comment_ok:
  assumes r: "delete_comment_apply author permlink db = Some (Inr db')" and ok: "votes_ok F {} db"
  shows "votes_ok F {} db'"
proof -
  from r obtain k and c :: comment_object and db1 db2 ix where 1: "remove_by_comment k db = Inr db1"
    and 2: "for_all_parents (drop_child (head_block_time db1)) (co_parent_author c) (co_parent_permlink c) db1 = Some (Inr db2)"
    and 3: "ix_remove k (comments db2) = Inr ix" and db': "db' = db2\<lparr>comments := ix\<rparr>"
    unfolding delete_comment_apply_def by (auto simp: bindE_Inr_iff split: sum.splits option.splits)
  have q: "quiet db1 db2" by (rule for_all_parents_quiet [OF 2 child_shifted(2)])
  then have ok2: "votes_ok F {k} db2" using quiet_votes_ok remove_votes_ok(1) [OF 1 ok] by blast
  have "cv_comment v \<noteq> k" if "map_of (indices (comment_votes db2)) i = Some v" for i v
    using that q remove_votes_ok(2) [OF 1 ok] by (auto simp: counts_def)
  moreover have "indices ix = drop_row k (indices (comments db2))" using 3 by (auto simp: ix_remove_eq_Inr)
  ultimately show ?thesis using ok2 table_remove [OF _ 3] by (auto simp: votes_ok_def tallied_def shares_on_def weights_on_def db' split: if_splits)
qed


section \<open>Runs\<close>

text \<open>What authors and voters do to the comments. A comment and a deletion that return, return \<open>Some\<close>.\<close>

inductive discusses :: "ext_lib \<Rightarrow> config \<Rightarrow> (string \<Rightarrow> string \<Rightarrow> string option) \<Rightarrow> database \<Rightarrow> database \<Rightarrow> bool" for F cfg patch where
  vote: "vote_apply F cfg voter author permlink w db = Inr db' \<Longrightarrow> discusses F cfg patch db db'"
| comment: "comment_apply F cfg patch pa pp author permlink title body js db = Some (Inr db') \<Longrightarrow> discusses F cfg patch db db'"
| options: "comment_options_apply author permlink mx av ac ext db = Inr db' \<Longrightarrow> discusses F cfg patch db db'"
| delete: "delete_comment_apply author permlink db = Some (Inr db') \<Longrightarrow> discusses F cfg patch db db'"

lemma discusses_ok:
  assumes F: "ext_ok F" and "discusses F cfg patch db db'" and ok: "votes_ok F {} db"
  shows "votes_ok F {} db'"
  using assms(2)
proof cases
  case vote
  then show ?thesis by (rule vote_apply_ok [OF F _ ok])
next
  case comment
  then show ?thesis by (rule comment_apply_ok [OF F _ ok])
next
  case options
  then show ?thesis by (rule quiet_votes_ok [OF comment_options_quiet ok])
next
  case delete
  then show ?thesis by (rule delete_comment_ok [OF _ ok])
qed

text \<open>
  C31: However comments are written, edited and deleted and votes are given and changed, the net shares of a comment are the sum of
  the shares of its votes; and as long as the comment has not been paid, the weights of its curators add up to at most its
  total vote weight, which is at most the curve of its positive shares, so that the 64-bit additions and subtractions of the
  code have never wrapped. The reward fund uses one of the curves that are monotone.
\<close>
theorem vote_books_balance:
  assumes "ext_ok F" and "(discusses F cfg patch)\<^sup>*\<^sup>* db db'" and "votes_ok F {} db" and "map_of (indices (comments db')) k = Some c"
  shows "co_net_rshares c = shares_on k db' \<and>
    (co_cashout_time c \<noteq> time_maximum \<longrightarrow>
       weights_on k db' \<le> uint (co_total_vote_weight c) \<and>
       uint (co_total_vote_weight c) \<le> curve_weight F (curation_curve db') (co_vote_rshares c))"
proof -
  from assms(2) have "votes_ok F {} db'"
    by (induction rule: rtranclp_induct) (use assms(1,3) discusses_ok in auto)
  then show ?thesis using assms(4) by (simp add: votes_ok_def tallied_def)
qed

definition sample_comment :: comment_object where
  "sample_comment = place_comment None ''sport'' 0 (new_comment ext_ref sample_config ''alice'' ''post'' ''t'' ''b'' [] 900)"

definition sample_vote_db :: database where
  "sample_vote_db = sample_db\<lparr>comments := \<lparr>next_id = 1, indices = [(0, sample_comment)]\<rparr>, fund_scr := sample_fund\<lparr>f_curation_reward_curve := Linear\<rparr>\<rparr>"

lemma sample_vote_ok: "votes_ok ext_ref {} sample_vote_db"
  using curve_weight_bounds(1) [OF ext_ok_ref, of Linear 0]
  by (auto simp: votes_ok_def tallied_def table_ok_def unique_rows_def wf_index_def shares_on_def weights_on_def sample_vote_db_def sample_db_def no_rows_def
      sample_comment_def place_comment_def new_comment_def split: if_splits)


lemma sample_vote_config:
  "cashout_window_seconds sample_config = 3600" "upvote_lockout sample_config = 300" "reverse_auction_window_seconds sample_config = 30"
  "vote_regeneration_seconds sample_config = 600" "min_vote_interval_sec sample_config = 0"
  by (simp_all add: sample_config_def config_test_def check_witness_limits_def Let_def SCORUM_MAX_WITNESSES_LIMIT_def)

lemma sample_powers:
  "calculate_restoring_power ext_ref 10000 1000 0 600 = Inr 10000" "calculate_used_power 10000 10000 5 = Inr 500"
  "calculate_abs_reward_shares ext_ref 500 300000 = Inr 15000"
  by (simp_all add: calculate_restoring_power_def calculate_used_power_def calculate_abs_reward_shares_def to_share_def to_i64_id in_i64_def cdiv_def
      SCORUM_100_PERCENT_def ext_ref_def Let_def)

lemma sample_vote_shares:
  "vote_shares ext_ref sample_config (sample_account ''bobby'' 3000000 300000) 10000 sample_vote_db = Inr (15000, 15000, 9500)"
proof -
  have "effective_scorumpower ext_ref (sample_account ''bobby'' 3000000 300000) = Inr (SP 300000)" by (simp add: effective_scorumpower_def run_simps)
  moreover have "time_diff ext_ref 1000 0 = 1000" by (simp add: ext_ref_def)
  moreover have "a_last_vote_time (sample_account n x y) = 0" "a_voting_power (sample_account n x y) = 10000" for n x y
    by (simp_all add: sample_account_def new_account_object_def SCORUM_100_PERCENT_def)
  moreover have "head_block_time sample_vote_db = 1000" by (simp add: sample_vote_db_def run_simps)
  ultimately show ?thesis using sample_powers
    by (simp add: vote_shares_def SCORUM_VOTING_POWER_DECAY_PERCENT_def SCORUM_VOTE_DUST_THRESHOLD_def sample_vote_config)
qed

lemma sample_first_vote: "\<not> isl (first_vote ext_ref sample_config 0 1 10000 15000 15000 9500 sample_vote_db)"
  by (simp add: first_vote_def check_upvote_time_def update_voting_power_def update_active_sp_holders_cashout_time_def calculate_expected_restoring_time_def
      effective_scorumpower_def count_first_vote_def touch_root_def update_comment_def comment_clash_def curation_weights_def
      calculate_max_vote_weight_def evaluate_reward_curve_def calculate_vote_weight_def create_comment_vote_def comment_vote_clash_def
      obtain_statistic_def new_blogging_statistic_def statistic_add_vote_def update_statistic_row_def blogging_statistic_clash_def
      to_i64_def cdiv_def SCORUM_100_PERCENT_def sample_vote_config sample_vote_db_def sample_comment_def place_comment_def new_comment_def sample_fund_def
      time_maximum_def run_simps Let_def)

lemma sample_upvote_runs: "\<not> isl (vote_apply ext_ref sample_config ''bobby'' ''alice'' ''post'' 10000 sample_vote_db)"
proof -
  have "vote_apply ext_ref sample_config ''bobby'' ''alice'' ''post'' 10000 sample_vote_db = first_vote ext_ref sample_config 0 1 10000 15000 15000 9500 sample_vote_db"
    using sample_vote_shares
    by (simp add: vote_apply_def get_comment_def find_comment_vote_def get_weigth_def has_hardfork_def SCORUM_HARDFORK_0_2_def SCORUM_100_PERCENT_def
        sample_vote_db_def sample_comment_def place_comment_def new_comment_def time_maximum_def sample_vote_config run_simps)
  then show ?thesis using sample_first_vote by simp
qed


theorem vote_books_balance_witness:
  "\<exists>db'. vote_apply ext_ref sample_config ''bobby'' ''alice'' ''post'' 10000 sample_vote_db = Inr db' \<and>
    list_all (\<lambda>(k, c). co_net_rshares c = shares_on k db') (indices (comments db'))"
proof -
  obtain db' where r: "vote_apply ext_ref sample_config ''bobby'' ''alice'' ''post'' 10000 sample_vote_db = Inr db'" using sample_upvote_runs returns by blast
  then have run: "(discusses ext_ref sample_config (\<lambda>_ _. None))\<^sup>*\<^sup>* sample_vote_db db'" by (blast intro: discusses.vote)
  have "table_ok comment_clash (comments db')" using vote_apply_ok [OF ext_ok_ref r sample_vote_ok] by (simp add: votes_ok_def)
  from table_ok_row [OF this] have "co_net_rshares (snd x) = shares_on (fst x) db'" if "x \<in> set (indices (comments db'))" for x
    using vote_books_balance [OF ext_ok_ref run sample_vote_ok, of "fst x" "snd x"] that by blast
  then show ?thesis using r by (auto simp: list_all_iff)
qed

end
