(* ===== verification/Spec2Isabelle.thy ===== *)
theory Spec2Isabelle
  imports Chainbase_Sessions Atomicswap Supply_Invariants Betting_Payouts Fork_Switch Sign_State Funds_Run Withdrawal_Routes
    Registration_Run Vote_Ledger
begin

text \<open>
  A verification of the consensus core of Scorum, a blockchain for sports content and betting with
  delegated proof of stake. The node (\<^verbatim>\<open>src/libraries\<close>) keeps its state in \<^verbatim>\<open>chainbase\<close>, a set of
  in-memory tables with undo sessions; operations are validated without state (\<^verbatim>\<open>protocol\<close>), checked for
  signatures, and applied to the tables by evaluators over services (\<^verbatim>\<open>chain/evaluators\<close>,
  \<^verbatim>\<open>chain/services\<close>); block tasks (\<^verbatim>\<open>chain/database/block_tasks\<close>) run at the end of each block; the
  database (\<^verbatim>\<open>chain/database/database.cpp\<close>) pushes blocks, follows the longest fork and schedules
  witnesses. The development models these parts as functions on a record of tables.

  \<^bold>\<open>Conventions.\<close> An operation is a function \<open>database \<Rightarrow> database res\<close>: an exception of the code is
  \<open>Inl\<close> with its message, and \<open>bindE\<close> sequences steps. \<^verbatim>\<open>FC_ASSERT\<close> is \<open>fc_assert\<close>. A table is a
  \<open>base_index\<close>: the rows sorted by id, the next id and the revision with its undo states; an index with further
  unique keys has a predicate \<open>..._clash\<close>. C++ references to objects are row ids that are read again where they
  are used. Evaluators are named \<open>..._apply\<close> and the stateless checks \<open>..._validate\<close>. Times are seconds,
  names, uuids and keys are strings. Amounts are integers with the 64-bit range check of \<^verbatim>\<open>fc::safe\<close>;
  reward shares, virtual time and vote weights are words of 32, 64, 128 or 256 bits, and wrap.

  \<^bold>\<open>Parameters.\<close> Code that is not in the repository enters as an argument. \<open>ext_lib\<close> (theory \<open>Fc_Interface\<close>)
  holds the functions of \<^verbatim>\<open>fc\<close> and Boost the chain calls: checked arithmetic, 128-bit integers, hashes, key and
  name formats. \<open>ext_ok F\<close> states what is used of them, and \<open>ext_ref\<close> is a concrete instance with \<open>ext_ok ext_ref\<close>,
  on which witnesses are evaluated. Further parameters: the order of names in an index (\<open>before\<close>), the
  block log seen by a block task, the signature check of a block header, the authorities of the chain seen
  by \<open>sign_state\<close> (\<open>authority_getter\<close>), and, for fork switching, the application of a block with its session
  (\<open>block_interface\<close>). The configuration of \<^verbatim>\<open>protocol/config.cpp\<close> is the argument \<open>cfg\<close>.

  \<^bold>\<open>Theories.\<close>
  \<^item> \<open>Scorum_Prelude\<close>: exceptions, integer ranges, C++ division, rows of tables and sums over them.
  \<^item> \<open>Chainbase_Index\<close>, \<open>Chainbase_Sessions\<close> (\<^verbatim>\<open>chainbase/generic_index.hpp\<close>, \<^verbatim>\<open>database_index.hpp\<close>): tables and
    undo sessions. The locale \<open>undo_store\<close> is the contract of a session; it is interpreted by the table, and
    pending transactions (\<^verbatim>\<open>push_transaction\<close>, \<^verbatim>\<open>clear_pending\<close>) are proved over it. Shown: undo restores the table
    exactly after any changes, squash and nested undo, and the exact condition under which undo throws.
  \<^item> \<open>Fc_Interface\<close>, \<open>Odds_Math\<close>, \<open>Asset_Model\<close>, \<open>Chain_Config\<close>, \<open>Betting_Market\<close>, \<open>Operations\<close>: assets, fractions and odds,
    configuration, markets and wincases, and the stateless validation of operations, against grammars
    and exact conditions.
  \<^item> \<open>Chain_Schema\<close>: the objects of \<^verbatim>\<open>chain/schema\<close> and the record \<open>database\<close>.
  \<^item> \<open>Account_Service\<close>, \<open>Supply_Ledger\<close>, \<open>Proxy_Votes\<close>, \<open>Witness_Tally\<close>, \<open>Chain_Soundness\<close>: the account and witness services and what
    they keep. \<open>sound\<close> is the invariant of the database: well-formed tables, solvent accounts, totals that are
    the sums of the accounts, witness votes that are the tally of power voting through proxies, proxies
    without cycles. The locale \<open>custody\<close> is the contract of a table that holds money of others, interpreted
    for escrows, swap contracts, pending and matched bets, and budgets.
  \<^item> \<open>Account_Evaluators\<close> (\<^verbatim>\<open>scorum_evaluators.cpp\<close>): the operations on accounts, recovery, witnesses, proxies,
    transfers and delegations, with their effect on \<open>sound\<close> and the supply.
  \<^item> \<open>Escrow\<close>, \<open>Atomicswap\<close>: services, evaluators and expiration; escrow evaluators refine an abstract escrow.
  \<^item> \<open>Supply_Invariants\<close>: \<^verbatim>\<open>database::validate_invariants\<close> is equivalent to the equations of the ledger.
  \<^item> \<open>Betting_Math\<close>, \<open>Betting_Service\<close>, \<open>Betting_Ledger\<close>, \<open>Betting_Evaluators\<close>, \<open>Betting_Properties\<close>, \<open>Betting_Payouts\<close> (\<^verbatim>\<open>chain/betting\<close>): the
    exchange with its matcher and resolver; runs of it conserve money and keep the statistics exact, the
    resolver pays the winners.
  \<^item> \<open>Advertising\<close>, \<open>Auction_Bets\<close>, \<open>Purse_Frame\<close>, \<open>Advertising_Ledger\<close>, \<open>Advertising_Run\<close> (\<^verbatim>\<open>services/budgets.cpp\<close>, \<^verbatim>\<open>advertising\<close>): budgets,
    the auction and its evaluators; the bets of the auction and the fairness of a budget (\<open>fair\<close>).
  \<^item> \<open>Block_Funds\<close>, \<open>Funds_Ledger\<close>, \<open>Funds_Run\<close> (\<^verbatim>\<open>process_funds.cpp\<close>, \<^verbatim>\<open>reward_balance_algorithm.hpp\<close>, the migration of witness
    rewards): what a block pays. \<open>flows\<close> and \<open>settles\<close> describe steps by the money they move; a run of budget
    operations and blocks conserves it and never overdraws a budget.
  \<^item> \<open>Withdrawals\<close>, \<open>Withdrawals_Run\<close>, \<open>Unique_Keys\<close>, \<open>Withdrawal_Routes\<close> (\<^verbatim>\<open>services/withdraw_scorumpower*.cpp\<close>, their evaluators,
    \<^verbatim>\<open>process_vesting_withdrawals.cpp\<close>): powering down along routes. A block's withdrawals conserve money, each
    makes progress and ends, and the routes of an actor stay within the whole of a withdrawal.
  \<^item> \<open>Committees\<close>, \<open>Committee_Votes\<close> (\<^verbatim>\<open>registration_committee.cpp\<close>, \<^verbatim>\<open>development_committee.cpp\<close>, \<^verbatim>\<open>proposal*.cpp\<close>): the two
    committees behind the locale \<open>committee_members\<close>, proposals, quorums and the executor. The relation \<open>governs\<close> is
    what proposals do to the chain; votes stay votes of members, and what is executed conserves money.
  \<^item> \<open>Registration\<close>, \<open>Registration_Run\<close> (\<^verbatim>\<open>registration_pool*.cpp\<close>, \<^verbatim>\<open>delegate_sp_from_reg_pool_evaluator.cpp\<close>): bonuses,
    delegations from the pool and their expiration.
  \<^item> \<open>Comments\<close>, \<open>Vote_Ledger\<close> (\<^verbatim>\<open>services/comment*.cpp\<close>, \<^verbatim>\<open>vote_evaluator.cpp\<close>, \<^verbatim>\<open>scorum_evaluators.cpp\<close>): posts, comments and votes.
    The relation \<open>discusses\<close> is what authors and voters do; \<open>votes_ok\<close>, the books of the votes, is kept by it.
  \<^item> \<open>Rewards_Math\<close>, \<open>Rewards_Shares\<close> (\<^verbatim>\<open>rewards_math\<close>): the reward curves and formulas on words, with bounds.
  \<^item> \<open>Witness_Schedule\<close>, \<open>Schedule_Properties\<close> (\<^verbatim>\<open>database_witness_schedule.cpp\<close>, slots and headers in \<^verbatim>\<open>database.cpp\<close>): slots,
    header checks, rounds, medians, versions, participation and irreversibility.
  \<^item> \<open>Fork_Database\<close>, \<open>Fork_Switch\<close> (\<^verbatim>\<open>fork_database.cpp\<close>, \<^verbatim>\<open>database::_push_block\<close>): blocks linked by weak pointers,
    branches, and the switch to a longer fork with its recovery.
  \<^item> \<open>Sign_State\<close> (\<^verbatim>\<open>sign_state.cpp\<close>, \<^verbatim>\<open>transaction.cpp\<close>): authorities, verification and required signatures.
  \<^item> \<open>Sample_Chain\<close>, \<open>Sample_Config\<close>: a small concrete chain on which the theorems are applied.

  \<^bold>\<open>Loops.\<close> Loops over rows are folds over lists of ids, so they end. The walk of the fork database, the switch of
  forks and the unwinding of sessions may in principle not end; they are \<open>partial_function (option)\<close> or
  recursions on a measure, and that they return is part of the theorems. No fuel is used.

  \<^bold>\<open>Not modelled.\<close> Virtual operations (they only notify plugins); the cashout of comments; header extensions and
  hardforks; NFT operations; genesis. The peer-to-peer network, the APIs, plugins and wallet are I/O and
  serialisation over the chain, and digests and key recovery are \<^verbatim>\<open>fc\<close>.
\<close>

end
